(* ===== verification/Prelude.thy ===== *)
theory Prelude
  imports Complex_Main "HOL-Library.Word"
begin

text \<open>
  Shared vocabulary of the development: the fixed-width integer types of the C code, byte
  strings, the little-endian layout the ESP32 gives to integers in memory, and the generic
  facts on words and lists the component theories use.
\<close>

unbundle bit_operations_syntax

type_synonym u8 = "8 word"
type_synonym u16 = "16 word"
type_synonym u32 = "32 word"
type_synonym u64 = "64 word"
type_synonym bytes = "u8 list"

named_theorems layout \<open>facts about byte layouts: lengths and concatenations\<close>

section \<open>Words\<close>

text \<open>A statement about every byte is a finite conjunction, which evaluation decides.\<close>

lemma word_all_less:
  fixes P :: "'a::len word \<Rightarrow> bool"
  assumes "list_all (\<lambda>n. P (of_nat n)) [0..<k]" "unat w < k"
  shows "P w"
proof -
  from assms(1) have "\<forall>n < k. P (of_nat n)"
    by (simp add: list_all_iff)
  from this [rule_format, OF assms(2)] show ?thesis by simp
qed

lemma u8_all:
  fixes P :: "u8 \<Rightarrow> bool"
  assumes "list_all (\<lambda>n. P (of_nat n)) [0..<256]"
  shows "P w"
  using assms by (rule word_all_less) (use unsigned_less [of w] in simp)

lemma word_eq_by_bits:
  fixes a b :: "'a::len word"
  assumes "\<And>i. i < LENGTH('a) \<Longrightarrow> bit a i \<longleftrightarrow> bit b i"
  shows "a = b"
  using assms by (rule bit_word_eqI)

lemma unat_ucast_widen:
  "LENGTH('a::len) \<le> LENGTH('b::len) \<Longrightarrow> unat (ucast (w :: 'a word) :: 'b word) = unat w"
proof -
  assume "LENGTH('a) \<le> LENGTH('b)"
  then have "unat w < 2 ^ LENGTH('b)"
    using less_le_trans [OF unsigned_less [of w, where 'a = nat]
      power_increasing [of "LENGTH('a)" "LENGTH('b)" "2::nat"]] by simp
  then show ?thesis by (simp add: unsigned_ucast_eq take_bit_nat_eq_self)
qed

lemma unat_neq: "unat a \<noteq> unat b" if "a \<noteq> (b :: 'a::len word)"
proof
  assume "unat a = unat b"
  then have "(of_nat (unat a) :: 'a word) = of_nat (unat b)" by simp
  with that show False by simp
qed

lemma len_u8_u16: "LENGTH(8) \<le> LENGTH(16)"
  by simp

lemma bit_word_double [simp]:
  "bit (w * 2) n \<longleftrightarrow> n < LENGTH('a) \<and> 0 < n \<and> bit w (n - 1)" for w :: "'a::len word"
  using bit_push_bit_iff [of 1 w n] by (auto simp: bit_imp_le_length simp flip: push_bit_double)

lemma unat_u8_less [simp]: "unat (w :: u8) < 256"
  using unsigned_less [of w] by simp

section \<open>Little-endian layout\<close>

text \<open>
  \<open>le_bytes n w\<close> is what \<open>memcpy(dest, &w, n)\<close> leaves in \<open>dest\<close> for an unsigned integer
  \<open>w\<close> of at least \<open>n\<close> bytes; \<open>le_word bs\<close> is the integer such bytes denote. The
  big-endian readings are the same with the bytes reversed.
\<close>

definition le_bytes :: "nat \<Rightarrow> 'a::len word \<Rightarrow> bytes" where
  "le_bytes n w = map (\<lambda>i. ucast (drop_bit (8 * i) w)) [0..<n]"

fun le_word :: "bytes \<Rightarrow> 'a::len word" where
  "le_word [] = 0"
| "le_word (b # bs) = ucast b OR push_bit 8 (le_word bs)"

definition be_bytes :: "nat \<Rightarrow> 'a::len word \<Rightarrow> bytes" where
  "be_bytes n w = rev (le_bytes n w)"

definition be_word :: "bytes \<Rightarrow> 'a::len word" where
  "be_word bs = le_word (rev bs)"

lemma length_le_bytes [simp, layout]: "length (le_bytes n w) = n"
  by (simp add: le_bytes_def)

lemma length_be_bytes [simp, layout]: "length (be_bytes n w) = n"
  by (simp add: be_bytes_def)

lemma nth_le_bytes [simp]: "i < n \<Longrightarrow> le_bytes n w ! i = ucast (drop_bit (8 * i) w)"
  by (simp add: le_bytes_def)

lemma bit_le_word:
  "bit (le_word bs :: 'a::len word) n \<longleftrightarrow>
     n < LENGTH('a) \<and> n div 8 < length bs \<and> bit (bs ! (n div 8)) (n mod 8)"
proof (induction bs arbitrary: n)
  case Nil
  then show ?case by simp
next
  case (Cons b bs)
  show ?case
  proof (cases "n < 8")
    case True
    then show ?thesis
      by (auto simp: bit_or_iff bit_push_bit_iff bit_ucast_iff)
  next
    case False
    then obtain m where m: "n = m + 8" by (metis le_Suc_ex add.commute not_less)
    then have d: "n div 8 = Suc (m div 8)" "n mod 8 = m mod 8" by simp_all
    have "bit (le_word (b # bs) :: 'a word) n \<longleftrightarrow> n < LENGTH('a) \<and> bit (le_word bs :: 'a word) m"
      using m False by (auto simp: bit_or_iff bit_push_bit_iff bit_ucast_iff bit_imp_le_length
          dest: bit_imp_le_length)
    then show ?thesis using m d by (auto simp: Cons.IH)
  qed
qed

lemma bit_nth_le_bytes:
  "i < n \<Longrightarrow> bit (le_bytes n w ! i) j \<longleftrightarrow> j < 8 \<and> bit w (8 * i + j)"
  by (auto simp: bit_ucast_iff bit_drop_bit_eq)

lemma le_word_le_bytes:
  fixes w :: "'a::len word"
  assumes "LENGTH('a) \<le> 8 * n"
  shows "(le_word (le_bytes n w) :: 'a word) = w"
proof (rule word_eq_by_bits)
  fix i assume i: "i < LENGTH('a)"
  with assms have "i div 8 < n" by simp
  with i show "bit (le_word (le_bytes n w) :: 'a word) i \<longleftrightarrow> bit w i"
    by (simp add: bit_le_word bit_nth_le_bytes del: nth_le_bytes)
qed

lemma le_bytes_le_word:
  assumes "8 * length bs \<le> LENGTH('a::len)"
  shows "le_bytes (length bs) (le_word bs :: 'a word) = bs"
proof (rule nth_equalityI)
  fix i assume i: "i < length (le_bytes (length bs) (le_word bs :: 'a word))"
  show "le_bytes (length bs) (le_word bs :: 'a word) ! i = bs ! i"
  proof (rule word_eq_by_bits)
    fix j assume "j < LENGTH(8)"
    then have j: "j < 8" by simp
    then have "(8 * i + j) div 8 = i" "(8 * i + j) mod 8 = j" by simp_all
    with i j assms show "bit (le_bytes (length bs) (le_word bs :: 'a word) ! i) j \<longleftrightarrow> bit (bs ! i) j"
      by (simp add: bit_nth_le_bytes bit_le_word del: nth_le_bytes)
  qed
qed simp

lemma be_word_be_bytes:
  fixes w :: "'a::len word"
  assumes "LENGTH('a) \<le> 8 * n"
  shows "(be_word (be_bytes n w) :: 'a word) = w"
  using assms by (simp add: be_word_def be_bytes_def le_word_le_bytes)

lemma be_bytes_be_word:
  assumes "8 * length bs \<le> LENGTH('a::len)"
  shows "be_bytes (length bs) (be_word bs :: 'a word) = bs"
  using le_bytes_le_word [of "rev bs", where 'a = 'a] assms
  by (simp add: be_bytes_def be_word_def rev_swap)

section \<open>Lists\<close>

text \<open>Reading the field at a given offset of a concatenation of fields.\<close>

definition slice :: "nat \<Rightarrow> nat \<Rightarrow> 'a list \<Rightarrow> 'a list" where
  "slice off n xs = take n (drop off xs)"

lemma length_slice [simp, layout]: "off + n \<le> length xs \<Longrightarrow> length (slice off n xs) = n"
  by (simp add: slice_def)

lemma slice_append1 [layout]: "off + n \<le> length xs \<Longrightarrow> slice off n (xs @ ys) = slice off n xs"
  by (simp add: slice_def)

lemma slice_append2 [layout]: "length xs \<le> off \<Longrightarrow> slice off n (xs @ ys) = slice (off - length xs) n ys"
  by (simp add: slice_def)

lemma slice_all [layout]: "length xs = n \<Longrightarrow> slice 0 n xs = xs"
  by (simp add: slice_def)

lemma slice_slice: "o2 + n2 \<le> n1 \<Longrightarrow> slice o2 n2 (slice o1 n1 xs) = slice (o1 + o2) n2 xs"
  by (simp add: slice_def drop_take take_take min_def add.commute)

text \<open>\<open>memcpy(buf + off, src, length src)\<close> into a buffer that is long enough.\<close>

definition store_at :: "nat \<Rightarrow> 'a list \<Rightarrow> 'a list \<Rightarrow> 'a list" where
  "store_at off src buf = take off buf @ src @ drop (off + length src) buf"

lemma length_store_at [simp, layout]:
  "off + length src \<le> length buf \<Longrightarrow> length (store_at off src buf) = length buf"
  by (simp add: store_at_def)

lemma slice_store_at_same [layout]:
  "off \<le> length buf \<Longrightarrow> length src = n \<Longrightarrow> slice off n (store_at off src buf) = src"
  by (simp add: slice_def store_at_def min_def)

section \<open>Decimal output\<close>

text \<open>What \<open>printf\<close> writes for \<open>%d\<close> and \<open>%u\<close>.\<close>

fun dec_nat :: "nat \<Rightarrow> string" where
  "dec_nat n = (if n < 10 then [char_of (48 + n)] else dec_nat (n div 10) @ [char_of (48 + n mod 10)])"

declare dec_nat.simps [simp del]

definition dec_int :: "int \<Rightarrow> string" where
  "dec_int i = (if i < 0 then CHR ''-'' # dec_nat (nat (- i)) else dec_nat (nat i))"

text \<open>
  \<open>snprintf(buf, size, ...)\<close> keeps at most \<open>size - 1\<close> characters of the text it formats, and
  returns the length the whole text would have had.
\<close>

definition snprintf_text :: "nat \<Rightarrow> string \<Rightarrow> string" where
  "snprintf_text n txt = take (n - 1) txt"

lemma dec_nat_nonempty [simp]: "dec_nat n \<noteq> []"
  by (subst dec_nat.simps) simp

end
