(* ===== verification/Crc.thy ===== *)
theory Crc
  imports Prelude
begin

text \<open>
  The checksums of the ASIC serial protocol: \<open>components/asic/crc.c\<close> and the table in
  \<open>components/asic/include/crc.h\<close>. The CRC-5 is computed bit by bit, the CRC-16 from a table of
  256 entries, once with the loop unrolled four times. The theory proves the unrolled and the
  plain loop equal, the table the CCITT polynomial, and that a CRC-5 check catches every
  single-bit error.
\<close>

section \<open>Definitions\<close>

text \<open>
  One iteration of the inner loop of \<open>crc5\<close>: the state is \<open>(crc, byte)\<close>, and the next bit of
  \<open>byte\<close> is its most significant one. The C code computes on promoted integers and truncates
  when it stores to \<open>uint8_t\<close>; the shifts of an \<open>8 word\<close> do the same.
\<close>

definition crc5_bit :: "u8 \<times> u8 \<Rightarrow> u8 \<times> u8" where
  "crc5_bit s =
     (let crc = fst s; byte = snd s;
          b = drop_bit 7 byte AND 1;
          byte' = push_bit 1 byte;
          new_bit = (drop_bit 4 crc XOR b) AND 1;
          crc1 = (push_bit 1 crc OR new_bit) XOR push_bit 2 new_bit
      in (crc1 AND 0x1F, byte'))"

definition crc5_byte :: "u8 \<Rightarrow> u8 \<Rightarrow> u8" where
  "crc5_byte crc byte = fst ((crc5_bit ^^ 8) (crc, byte))"

text \<open>The outer loop reads \<open>len\<close> bytes; a list shorter than \<open>len\<close> is not passed by any caller.\<close>

definition crc5 :: "bytes \<Rightarrow> u8 \<Rightarrow> u8" where
  "crc5 data len = foldl crc5_byte 0x1F (take (unat len) data)"

definition crc16_table :: "u16 list" where
  "crc16_table =
    [0x0000, 0x1021, 0x2042, 0x3063, 0x4084, 0x50A5, 0x60C6, 0x70E7,
     0x8108, 0x9129, 0xA14A, 0xB16B, 0xC18C, 0xD1AD, 0xE1CE, 0xF1EF,
     0x1231, 0x0210, 0x3273, 0x2252, 0x52B5, 0x4294, 0x72F7, 0x62D6,
     0x9339, 0x8318, 0xB37B, 0xA35A, 0xD3BD, 0xC39C, 0xF3FF, 0xE3DE,
     0x2462, 0x3443, 0x0420, 0x1401, 0x64E6, 0x74C7, 0x44A4, 0x5485,
     0xA56A, 0xB54B, 0x8528, 0x9509, 0xE5EE, 0xF5CF, 0xC5AC, 0xD58D,
     0x3653, 0x2672, 0x1611, 0x0630, 0x76D7, 0x66F6, 0x5695, 0x46B4,
     0xB75B, 0xA77A, 0x9719, 0x8738, 0xF7DF, 0xE7FE, 0xD79D, 0xC7BC,
     0x48C4, 0x58E5, 0x6886, 0x78A7, 0x0840, 0x1861, 0x2802, 0x3823,
     0xC9CC, 0xD9ED, 0xE98E, 0xF9AF, 0x8948, 0x9969, 0xA90A, 0xB92B,
     0x5AF5, 0x4AD4, 0x7AB7, 0x6A96, 0x1A71, 0x0A50, 0x3A33, 0x2A12,
     0xDBFD, 0xCBDC, 0xFBBF, 0xEB9E, 0x9B79, 0x8B58, 0xBB3B, 0xAB1A,
     0x6CA6, 0x7C87, 0x4CE4, 0x5CC5, 0x2C22, 0x3C03, 0x0C60, 0x1C41,
     0xEDAE, 0xFD8F, 0xCDEC, 0xDDCD, 0xAD2A, 0xBD0B, 0x8D68, 0x9D49,
     0x7E97, 0x6EB6, 0x5ED5, 0x4EF4, 0x3E13, 0x2E32, 0x1E51, 0x0E70,
     0xFF9F, 0xEFBE, 0xDFDD, 0xCFFC, 0xBF1B, 0xAF3A, 0x9F59, 0x8F78,
     0x9188, 0x81A9, 0xB1CA, 0xA1EB, 0xD10C, 0xC12D, 0xF14E, 0xE16F,
     0x1080, 0x00A1, 0x30C2, 0x20E3, 0x5004, 0x4025, 0x7046, 0x6067,
     0x83B9, 0x9398, 0xA3FB, 0xB3DA, 0xC33D, 0xD31C, 0xE37F, 0xF35E,
     0x02B1, 0x1290, 0x22F3, 0x32D2, 0x4235, 0x5214, 0x6277, 0x7256,
     0xB5EA, 0xA5CB, 0x95A8, 0x8589, 0xF56E, 0xE54F, 0xD52C, 0xC50D,
     0x34E2, 0x24C3, 0x14A0, 0x0481, 0x7466, 0x6447, 0x5424, 0x4405,
     0xA7DB, 0xB7FA, 0x8799, 0x97B8, 0xE75F, 0xF77E, 0xC71D, 0xD73C,
     0x26D3, 0x36F2, 0x0691, 0x16B0, 0x6657, 0x7676, 0x4615, 0x5634,
     0xD94C, 0xC96D, 0xF90E, 0xE92F, 0x99C8, 0x89E9, 0xB98A, 0xA9AB,
     0x5844, 0x4865, 0x7806, 0x6827, 0x18C0, 0x08E1, 0x3882, 0x28A3,
     0xCB7D, 0xDB5C, 0xEB3F, 0xFB1E, 0x8BF9, 0x9BD8, 0xABBB, 0xBB9A,
     0x4A75, 0x5A54, 0x6A37, 0x7A16, 0x0AF1, 0x1AD0, 0x2AB3, 0x3A92,
     0xFD2E, 0xED0F, 0xDD6C, 0xCD4D, 0xBDAA, 0xAD8B, 0x9DE8, 0x8DC9,
     0x7C26, 0x6C07, 0x5C64, 0x4C45, 0x3CA2, 0x2C83, 0x1CE0, 0x0CC1,
     0xEF1F, 0xFF3E, 0xCF5D, 0xDF7C, 0xAF9B, 0xBFBA, 0x8FD9, 0x9FF8,
     0x6E17, 0x7E36, 0x4E55, 0x5E74, 0x2E93, 0x3EB2, 0x0ED1, 0x1EF0]"

definition crc16_step :: "u16 \<Rightarrow> u8 \<Rightarrow> u16" where
  "crc16_step crc b = crc16_table ! unat (drop_bit 8 crc XOR ucast b) XOR push_bit 8 crc"

text \<open>The second loop of \<open>crc16\<close>, and the loop of \<open>crc16_false\<close>: \<open>while (len--)\<close>.\<close>

fun crc16_rest :: "u16 \<Rightarrow> bytes \<Rightarrow> u16" where
  "crc16_rest crc [] = crc"
| "crc16_rest crc (b # bs) = crc16_rest (crc16_step crc b) bs"

text \<open>\<open>crc16\<close>: four steps per turn while at least four bytes are left, then the rest.\<close>

fun crc16_loop :: "u16 \<Rightarrow> bytes \<Rightarrow> u16" where
  "crc16_loop crc (a # b # c # d # bs) =
     crc16_loop (crc16_step (crc16_step (crc16_step (crc16_step crc a) b) c) d) bs"
| "crc16_loop crc bs = crc16_rest crc bs"

definition crc16 :: "bytes \<Rightarrow> u16 \<Rightarrow> u16" where
  "crc16 data len = crc16_loop 0 (take (unat len) data)"

definition crc16_false :: "bytes \<Rightarrow> u16 \<Rightarrow> u16" where
  "crc16_false data len = crc16_rest 0xFFFF (take (unat len) data)"

section \<open>The CRC-16 table is the polynomial 0x1021\<close>

text \<open>The reference: shift out one bit, and add the polynomial when that bit was set.\<close>

definition ccitt_bit :: "u16 \<Rightarrow> u16" where
  "ccitt_bit r = (if bit r 15 then push_bit 1 r XOR 0x1021 else push_bit 1 r)"

definition ccitt_byte :: "u16 \<Rightarrow> u8 \<Rightarrow> u16" where
  "ccitt_byte r b = (ccitt_bit ^^ 8) (r XOR push_bit 8 (ucast b))"

lemma length_crc16_table [simp]: "length crc16_table = 256"
  by (simp add: crc16_table_def)

definition ccitt_shift8 :: "u16 \<Rightarrow> u16" where
  "ccitt_shift8 r = ccitt_bit (ccitt_bit (ccitt_bit (ccitt_bit (ccitt_bit (ccitt_bit (ccitt_bit (ccitt_bit r)))))))"

lemma ccitt_shift8_funpow: "(ccitt_bit ^^ 8) r = ccitt_shift8 r"
  by (simp add: ccitt_shift8_def eval_nat_numeral)

fun high_bytes :: "nat \<Rightarrow> u16 \<Rightarrow> u16 list" where
  "high_bytes 0 w = []"
| "high_bytes (Suc n) w = w # high_bytes n (w + 0x100)"

lemma nth_high_bytes: "i < n \<Longrightarrow> high_bytes n w ! i = w + of_nat (256 * i)"
  by (induction n w arbitrary: i rule: high_bytes.induct)
     (auto simp: nth_Cons' algebra_simps of_nat_diff)

lemma length_high_bytes: "length (high_bytes n w) = n"
  by (induction n w rule: high_bytes.induct) auto

lemma high_bytes_add: "high_bytes (m + n) w = high_bytes m w @ high_bytes n (w + of_nat (256 * m))"
  by (induction m w rule: high_bytes.induct) (auto simp: algebra_simps)

lemma crc16_table_quarter1: "take 64 crc16_table = map ccitt_shift8 (high_bytes 64 0)"
  by code_simp

lemma crc16_table_quarter2: "take 64 (drop 64 crc16_table) = map ccitt_shift8 (high_bytes 64 0x4000)"
  by code_simp

lemma crc16_table_quarter3: "take 64 (drop 128 crc16_table) = map ccitt_shift8 (high_bytes 64 0x8000)"
  by code_simp

lemma crc16_table_quarter4: "drop 192 crc16_table = map ccitt_shift8 (high_bytes 64 0xC000)"
  by code_simp

lemmas crc16_table_quarters =
  crc16_table_quarter1 crc16_table_quarter2 crc16_table_quarter3 crc16_table_quarter4

lemma four_quarters: "take n xs @ take n (drop n xs) @ take n (drop (n + n) xs) @ drop (n + n + n) xs = xs"
  by (metis append_take_drop_id drop_drop add.commute add.assoc)

lemma crc16_table_eq: "crc16_table = map ccitt_shift8 (high_bytes 256 0)"
proof -
  have "high_bytes 256 0 = high_bytes (64 + (64 + (64 + 64))) 0" by simp
  also have "\<dots> = high_bytes 64 0 @ high_bytes 64 0x4000 @ high_bytes 64 0x8000 @ high_bytes 64 0xC000"
    by (simp only: high_bytes_add) simp
  finally have "map ccitt_shift8 (high_bytes 256 0) =
      take 64 crc16_table @ take 64 (drop 64 crc16_table) @ take 64 (drop 128 crc16_table) @ drop 192 crc16_table"
    by (simp only: map_append crc16_table_quarters)
  also have "\<dots> = crc16_table"
    using four_quarters [of 64 crc16_table] by simp
  finally show ?thesis by simp
qed

lemma crc16_table_nth: "crc16_table ! unat b = ccitt_shift8 (push_bit 8 (ucast (b::u8)))"
proof -
  have b: "unat b < 256" using unsigned_less [of b] by simp
  have "(of_nat (256 * unat b) :: u16) = push_bit 8 (ucast b)"
    by (simp add: push_bit_eq_mult)
  with b show ?thesis
    by (simp add: crc16_table_eq nth_high_bytes length_high_bytes)
qed

text \<open>The bit step is linear, and a register whose high byte is zero is only shifted.\<close>

lemma ccitt_bit_xor: "ccitt_bit (a XOR b) = ccitt_bit a XOR ccitt_bit b"
  by (auto simp: ccitt_bit_def bit_xor_iff push_bit_xor xor.left_commute xor.commute xor.assoc)

lemma ccitt_shift8_xor: "ccitt_shift8 (a XOR b) = ccitt_shift8 a XOR ccitt_shift8 b"
  by (simp add: ccitt_shift8_def ccitt_bit_xor)

lemma ccitt_bit_low: "\<not> bit r 15 \<Longrightarrow> ccitt_bit r = push_bit 1 r"
  by (simp add: ccitt_bit_def)

lemma ccitt_shift8_low:
  assumes "drop_bit 8 r = (0 :: u16)"
  shows "ccitt_shift8 r = push_bit 8 r"
proof -
  have "\<not> bit r n" if "8 \<le> n" for n
  proof -
    from assms have "\<not> bit (drop_bit 8 r) (n - 8)" by simp
    with that show ?thesis by (simp add: bit_drop_bit_eq)
  qed
  then have "ccitt_bit (push_bit k r) = push_bit (Suc k) r" if "k < 8" for k
    using that by (simp add: ccitt_bit_low bit_push_bit_iff)
  from this [of 0] this [of 1] this [of 2] this [of 3] this [of 4] this [of 5] this [of 6] this [of 7]
  show ?thesis by (simp add: ccitt_shift8_def eval_nat_numeral)
qed

lemma word16_split: "(r :: u16) = push_bit 8 (drop_bit 8 r) XOR take_bit 8 r"
  by (rule word_eq_by_bits) (auto simp: bit_xor_iff bit_push_bit_iff bit_drop_bit_eq bit_take_bit_iff)

lemma ucast_hi_byte: "(ucast (ucast (drop_bit 8 (r :: u16)) :: u8) :: u16) = drop_bit 8 r"
  by (rule word_eq_by_bits) (auto simp: bit_ucast_iff bit_drop_bit_eq dest: bit_imp_le_length)

text \<open>
  One table step is eight bit steps of the polynomial: the index of the table is the high byte of
  the register plus the data byte, and the low byte is only shifted.
\<close>

lemma crc16_step_ccitt: "crc16_step r b = ccitt_byte r b"
proof -
  let ?i = "ucast (drop_bit 8 r) XOR b :: u8"
  have lt: "unat (drop_bit 8 r XOR ucast b) = unat ?i"
  proof -
    have "(ucast ?i :: u16) = drop_bit 8 r XOR ucast b"
      by (simp add: ucast_hi_byte unsigned_xor_eq)
    then show ?thesis by (metis unat_ucast_widen len_u8_u16)
  qed
  have "ccitt_byte r b = ccitt_shift8 (push_bit 8 (drop_bit 8 r XOR ucast b) XOR take_bit 8 r)"
    unfolding ccitt_byte_def ccitt_shift8_funpow
    by (subst word16_split [of r]) (simp add: push_bit_xor ac_simps)
  also have "\<dots> = ccitt_shift8 (push_bit 8 (ucast ?i)) XOR push_bit 8 (take_bit 8 r)"
  proof -
    have "drop_bit 8 (take_bit 8 r) = 0"
      by (rule word_eq_by_bits) (simp add: bit_drop_bit_eq bit_take_bit_iff)
    then show ?thesis
      by (simp add: ccitt_shift8_xor ccitt_shift8_low [of "take_bit 8 r"] ucast_hi_byte unsigned_xor_eq)
  qed
  also have "push_bit 8 (take_bit 8 r) = push_bit 8 r"
    by (rule word_eq_by_bits) (auto simp: bit_push_bit_iff bit_take_bit_iff)
  finally show ?thesis
    by (simp add: crc16_step_def lt crc16_table_nth)
qed

section \<open>The unrolled loop\<close>

lemma crc16_rest_foldl: "crc16_rest r bs = foldl ccitt_byte r bs"
  by (induction r bs rule: crc16_rest.induct) (simp_all add: crc16_step_ccitt)

lemma crc16_loop_rest: "crc16_loop r bs = crc16_rest r bs"
  by (induction r bs rule: crc16_loop.induct) simp_all

text \<open>
  The unrolled, table-driven CRC-16 is the bitwise remainder of the data modulo the
  polynomial \<open>x^16 + x^12 + x^5 + 1\<close> with initial value 0, for every length.
\<close>

theorem crc16_is_ccitt: "crc16 data len = foldl ccitt_byte 0 (take (unat len) data)"
  by (simp add: crc16_def crc16_loop_rest crc16_rest_foldl)

theorem crc16_false_is_ccitt: "crc16_false data len = foldl ccitt_byte 0xFFFF (take (unat len) data)"
  by (simp add: crc16_false_def crc16_rest_foldl)

section \<open>CRC-5: every single-bit error is caught\<close>

text \<open>The register of \<open>crc5\<close> as a function of its old value and the incoming bit.\<close>

definition crc5_shift :: "u8 \<Rightarrow> bool \<Rightarrow> u8" where
  "crc5_shift crc b = fst (crc5_bit (crc, if b then 0x80 else 0))"

lemma fst_crc5_bit: "fst (crc5_bit (crc, byte)) = crc5_shift crc (bit byte 7)"
proof -
  have "drop_bit 7 byte AND 1 = (if bit byte 7 then 1 else (0 :: u8))"
    by (rule word_eq_by_bits) (auto simp: bit_and_iff bit_drop_bit_eq bit_1_iff intro: gr0I)
  moreover have "drop_bit 7 (if b then 0x80 else 0) AND 1 = (if b then 1 else (0 :: u8))" for b
    by simp
  ultimately show ?thesis
    unfolding crc5_shift_def crc5_bit_def Let_def fst_conv snd_conv by (simp only:)
qed

lemma snd_crc5_bit: "snd (crc5_bit (crc, byte)) = push_bit 1 byte"
  by (simp add: crc5_bit_def)

text \<open>The bits of a byte, most significant first, and the register after a list of bits.\<close>

definition byte_bits :: "u8 \<Rightarrow> bool list" where
  "byte_bits b = map (\<lambda>i. bit b (7 - i)) [0..<8]"

lemma crc5_bit_funpow:
  "crc5_bit ((crc5_bit ^^ n) (crc, byte)) = (crc5_bit ^^ Suc n) (crc, byte)"
  by simp

lemma funpow_crc5_bit:
  "n \<le> 8 \<Longrightarrow> (crc5_bit ^^ n) (crc, byte) = (foldl crc5_shift crc (take n (byte_bits byte)), push_bit n byte)"
proof (induction n)
  case 0
  then show ?case by simp
next
  case (Suc n)
  then have n: "n < 8" and IH: "(crc5_bit ^^ n) (crc, byte) = (foldl crc5_shift crc (take n (byte_bits byte)), push_bit n byte)"
    by simp_all
  have "take (Suc n) (byte_bits byte) = take n (byte_bits byte) @ [bit byte (7 - n)]"
    using n by (simp add: byte_bits_def take_Suc_conv_app_nth)
  moreover have "bit (push_bit n byte) 7 = bit byte (7 - n)"
    using n by (simp add: bit_push_bit_iff)
  moreover have "crc5_bit (foldl crc5_shift crc (take n (byte_bits byte)), push_bit n byte) =
      (crc5_shift (foldl crc5_shift crc (take n (byte_bits byte))) (bit (push_bit n byte) 7), push_bit (Suc n) byte)"
    by (rule prod_eqI) (simp_all add: fst_crc5_bit snd_crc5_bit)
  ultimately show ?case using IH by simp
qed

lemma crc5_byte_bits: "crc5_byte crc byte = foldl crc5_shift crc (byte_bits byte)"
  by (simp add: crc5_byte_def funpow_crc5_bit byte_bits_def)

definition crc5_stream :: "bytes \<Rightarrow> bool list" where
  "crc5_stream bs = concat (map byte_bits bs)"

lemma crc5_stream: "crc5 data len = foldl crc5_shift 0x1F (crc5_stream (take (unat len) data))"
proof -
  have "foldl crc5_byte c bs = foldl crc5_shift c (crc5_stream bs)" for c bs
    by (induction bs arbitrary: c) (simp_all add: crc5_stream_def crc5_byte_bits)
  then show ?thesis by (simp add: crc5_def)
qed

text \<open>On five-bit registers a shift is injective, and it depends on the incoming bit.\<close>

definition five_bit :: "u8 \<Rightarrow> bool" where
  "five_bit c \<longleftrightarrow> unat c < 32"

lemma crc5_shift_five [simp]: "five_bit (crc5_shift c b)"
proof -
  have "unat (x AND 0x1F) \<le> unat (0x1F :: u8)" for x :: u8
    using word_and_le1 [of x "0x1F"] by (simp only: word_le_nat_alt)
  then have "unat (x AND 0x1F) < 32" for x :: u8
    using le_less_trans [of "unat (x AND 0x1F)" 31 32] by simp
  then show ?thesis by (simp add: five_bit_def crc5_shift_def crc5_bit_def Let_def)
qed

lemma crc5_shift_distinct:
  "distinct (map (\<lambda>m. crc5_shift (of_nat m) True) [0..<32])"
  "distinct (map (\<lambda>m. crc5_shift (of_nat m) False) [0..<32])"
  by code_simp+

lemma crc5_shift_bit_eval:
  "list_all (\<lambda>m. crc5_shift (of_nat m) True \<noteq> crc5_shift (of_nat m) False) [0..<32]"
  by code_simp

lemma crc5_shift_inj:
  assumes "five_bit c" "five_bit d" "c \<noteq> d"
  shows "crc5_shift c b \<noteq> crc5_shift d b"
proof -
  have "inj_on (\<lambda>m. crc5_shift (of_nat m) b) {0..<32}"
    using crc5_shift_distinct by (cases b) (simp_all add: distinct_map)
  moreover have "unat c \<in> {0..<32}" "unat d \<in> {0..<32}" "unat c \<noteq> unat d"
    using assms by (simp_all add: five_bit_def unat_neq)
  ultimately have "crc5_shift (of_nat (unat c)) b \<noteq> crc5_shift (of_nat (unat d)) b"
    by (blast dest: inj_onD)
  then show ?thesis by simp
qed

lemma crc5_shift_bit:
  assumes "five_bit c"
  shows "crc5_shift c True \<noteq> crc5_shift c False"
  using word_all_less [OF crc5_shift_bit_eval, of c] assms by (simp add: five_bit_def)

lemma five_bit_foldl: "five_bit c \<Longrightarrow> five_bit (foldl crc5_shift c xs)"
  by (induction xs arbitrary: c) simp_all

lemma foldl_crc5_neq:
  "five_bit c \<Longrightarrow> five_bit d \<Longrightarrow> c \<noteq> d \<Longrightarrow> foldl crc5_shift c xs \<noteq> foldl crc5_shift d xs"
  by (induction xs arbitrary: c d) (simp_all add: crc5_shift_inj)

lemma foldl_crc5_flip:
  assumes "five_bit c"
  shows "foldl crc5_shift c (xs @ b # ys) \<noteq> foldl crc5_shift c (xs @ (\<not> b) # ys)"
proof -
  let ?r = "foldl crc5_shift c xs"
  have "crc5_shift ?r b \<noteq> crc5_shift ?r (\<not> b)"
    using crc5_shift_bit [OF five_bit_foldl [OF assms, of xs]] by (cases b) auto
  then show ?thesis by (simp add: foldl_crc5_neq)
qed

text \<open>Flipping bit \<open>k\<close> of a byte flips exactly one element of its bit list.\<close>

lemma byte_bits_flip:
  assumes "k < 8"
  obtains xs b ys where "byte_bits x = xs @ b # ys" "byte_bits (x XOR 2 ^ k) = xs @ (\<not> b) # ys"
proof
  let ?p = "7 - k"
  have nth: "i < 8 \<Longrightarrow> byte_bits y ! i = bit y (7 - i)" for y i by (simp add: byte_bits_def)
  have len: "length (byte_bits y) = 8" for y by (simp add: byte_bits_def)
  have p: "?p < 8" "7 - ?p = k" using assms by simp_all
  have flip: "bit (x XOR 2 ^ k) j \<longleftrightarrow> bit x j \<noteq> (j = k)" if "j < 8" for j
    using that assms by (auto simp: bit_xor_iff bit_exp_iff)
  have upd: "byte_bits (x XOR 2 ^ k) = (byte_bits x)[?p := \<not> byte_bits x ! ?p]"
  proof (rule nth_equalityI)
    fix i assume "i < length (byte_bits (x XOR 2 ^ k))"
    then have i: "i < 8" by (simp add: len)
    with flip [of "7 - i"] p assms show "byte_bits (x XOR 2 ^ k) ! i = (byte_bits x)[?p := \<not> byte_bits x ! ?p] ! i"
      by (auto simp: nth nth_list_update len)
  qed (simp add: len)
  show "byte_bits x = take ?p (byte_bits x) @ byte_bits x ! ?p # drop (Suc ?p) (byte_bits x)"
    using p by (simp add: id_take_nth_drop [symmetric] len)
  show "byte_bits (x XOR 2 ^ k) = take ?p (byte_bits x) @ (\<not> byte_bits x ! ?p) # drop (Suc ?p) (byte_bits x)"
    using p by (simp add: upd upd_conv_take_nth_drop len)
qed

text \<open>
  A frame that differs from another in exactly one bit has a different CRC-5: the check of the
  receiver catches every single-bit error on the wire.
\<close>

theorem crc5_single_bit_error:
  assumes "i < unat len" "i < length data" "k < 8"
  shows "crc5 (data[i := data ! i XOR 2 ^ k]) len \<noteq> crc5 data len"
proof -
  let ?d = "take (unat len) data"
  have i: "i < length ?d" using assms by simp
  have nth: "?d ! i = data ! i" using assms(1) by simp
  have split: "?d = take i ?d @ data ! i # drop (Suc i) ?d"
    using id_take_nth_drop [OF i] nth by simp
  have "take (unat len) (data[i := data ! i XOR 2 ^ k]) = ?d[i := data ! i XOR 2 ^ k]"
    by (simp add: take_update_swap)
  also have "\<dots> = take i ?d @ (data ! i XOR 2 ^ k) # drop (Suc i) ?d"
    by (rule upd_conv_take_nth_drop [OF i])
  finally have upd: "take (unat len) (data[i := data ! i XOR 2 ^ k]) = \<dots>" .
  obtain xs b ys where bits: "byte_bits (data ! i) = xs @ b # ys"
    "byte_bits (data ! i XOR 2 ^ k) = xs @ (\<not> b) # ys"
    using assms(3) by (rule byte_bits_flip)
  let ?pre = "crc5_stream (take i ?d) @ xs" and ?post = "ys @ crc5_stream (drop (Suc i) ?d)"
  have s1: "crc5_stream ?d = ?pre @ b # ?post"
    by (subst split) (simp add: crc5_stream_def bits)
  have s2: "crc5_stream (take (unat len) (data[i := data ! i XOR 2 ^ k])) = ?pre @ (\<not> b) # ?post"
    unfolding upd by (simp add: crc5_stream_def bits)
  have "five_bit 0x1F" by (simp add: five_bit_def)
  from foldl_crc5_flip [OF this, of ?pre b ?post] show ?thesis
    unfolding crc5_stream s1 s2 by simp
qed

theorem crc5_single_bit_error_witness:
  "crc5 [0x51, 0x09, 0x00, 0xA4, 0x90, 0x00, 0xFF, 0xFF, 0x1D] 9 \<noteq> crc5 [0x51, 0x09, 0x00, 0xA4, 0x90, 0x00, 0xFF, 0xFF, 0x1C] 9"
  using crc5_single_bit_error [of 8 9 "[0x51, 0x09, 0x00, 0xA4, 0x90, 0x00, 0xFF, 0xFF, 0x1C]" 0] by simp

end
