(* ===== verification/Asic_Common.thy ===== *)
theory Asic_Common
  imports Crc
begin

text \<open>
  \<open>components/asic/asic_common.c\<close>: what the four ASIC drivers share. Counting the chips that
  answer on the serial chain, receiving and checking one response frame, the ticket mask that
  tells the chips which nonces to report, the tuning range derived from a preset table, and the
  bit helpers they need.

  The serial line is the environment: a call of \<open>SERIAL_rx\<close> is answered by one element of a list
  of receptions. When the list is used up every further read times out.
\<close>

section \<open>Bit helpers\<close>

definition reverse_step :: "u8 \<times> u8 \<Rightarrow> u8 \<times> u8" where
  "reverse_step s =
     (let reversed = fst s; num = snd s
      in (push_bit 1 reversed OR (num AND 1), drop_bit 1 num))"

definition reverse_bits :: "u8 \<Rightarrow> u8" where
  "reverse_bits num = fst ((reverse_step ^^ 8) (0, num))"

text \<open>The loop of \<open>_largest_power_of_two\<close> and of \<open>get_difficulty_mask\<close>: count the halvings.\<close>

fun halvings :: "nat \<Rightarrow> nat \<Rightarrow> nat" where
  "halvings num pow = (if 1 < num then halvings (num div 2) (pow + 1) else pow)"

declare halvings.simps [simp del]

text \<open>For a non-positive \<open>int\<close> the loop is not entered.\<close>

definition largest_power_of_two :: "int \<Rightarrow> int" where
  "largest_power_of_two num = 2 ^ halvings (nat num) 0"

text \<open>
  \<open>_next_power_of_two\<close>: \<open>power <<= 1\<close> on a 32-bit \<open>int\<close>. Above \<open>2^30\<close> the shift leaves the
  range of \<open>int\<close>, and on the two's complement target the register becomes \<open>-2^31\<close> and then 0,
  from where the loop never ends; \<open>None\<close> is that case.
\<close>

definition int32 :: "int \<Rightarrow> int" where
  "int32 i = (i + 2 ^ 31) mod 2 ^ 32 - 2 ^ 31"

partial_function (option) next_power_loop :: "int \<Rightarrow> int \<Rightarrow> int option" where
  "next_power_loop pow num =
     (if pow < num then next_power_loop (int32 (2 * pow)) num else Some pow)"

definition next_power_of_two :: "int \<Rightarrow> int option" where
  "next_power_of_two num = (if num \<le> 1 then Some 1 else next_power_loop 1 num)"

section \<open>The ticket mask\<close>

text \<open>
  \<open>get_difficulty_mask\<close>: the difficulty is a \<open>double\<close>, rounded up and converted to \<open>uint32_t\<close>.
  The six bytes are the payload of the write to register 0x14.
\<close>

definition get_difficulty_mask :: "rat \<Rightarrow> bytes" where
  "get_difficulty_mask difficulty =
     (let diff_int = nat \<lceil>difficulty\<rceil>;
          pow = halvings diff_int 0;
          mask = (push_bit pow 1 - 1 :: u32)
      in [0x00, 0x14,
          reverse_bits (ucast (drop_bit 24 mask AND 0xFF)),
          reverse_bits (ucast (drop_bit 16 mask AND 0xFF)),
          reverse_bits (ucast (drop_bit 8 mask AND 0xFF)),
          reverse_bits (ucast (mask AND 0xFF))])"

section \<open>Preset tables and tuning range\<close>

text \<open>
  A preset table is a pointer to a 0-terminated array; \<open>None\<close> is the null pointer. The loops stop
  at the first 0.
\<close>

fun options_max_loop :: "u16 list \<Rightarrow> u16 \<Rightarrow> u16" where
  "options_max_loop [] mx = mx"
| "options_max_loop (x # xs) mx =
     (if x = 0 then mx else options_max_loop xs (if x > mx then x else mx))"

definition asic_options_max :: "u16 list option \<Rightarrow> u16" where
  "asic_options_max options = (case options of None \<Rightarrow> 0 | Some xs \<Rightarrow> options_max_loop xs 0)"

fun options_min_loop :: "u16 list \<Rightarrow> u16 \<Rightarrow> u16" where
  "options_min_loop [] mn = mn"
| "options_min_loop (x # xs) mn =
     (if x = 0 then mn else options_min_loop xs (if mn = 0 \<or> x < mn then x else mn))"

definition asic_options_min :: "u16 list option \<Rightarrow> u16" where
  "asic_options_min options = (case options of None \<Rightarrow> 0 | Some xs \<Rightarrow> options_min_loop xs 0)"

record asic_range =
  range_min :: u16
  range_max :: u16

definition asic_tuning_range :: "u16 list option \<Rightarrow> u16 \<Rightarrow> u16 \<Rightarrow> bool \<Rightarrow> asic_range" where
  "asic_tuning_range options oc_min oc_max overclock =
     (let r = \<lparr>range_min = asic_options_min options, range_max = asic_options_max options\<rparr>
      in if overclock \<and> oc_max \<noteq> 0
         then let r1 = (if range_max r = 0 \<or> oc_max > range_max r then r\<lparr>range_max := oc_max\<rparr> else r)
              in if range_min r1 = 0 \<or> (oc_min \<noteq> 0 \<and> oc_min < range_min r1)
                 then r1\<lparr>range_min := oc_min\<rparr> else r1
         else r)"

section \<open>The serial chain\<close>

text \<open>One call of \<open>SERIAL_rx\<close>: an error (-1), or the bytes read, none of them on a timeout.\<close>

datatype reception = Rx_Error | Rx_Bytes bytes

text \<open>The 16-bit fields of a frame: \<open>(buffer[i] << 8) | buffer[i + 1]\<close>.\<close>

definition be16_at :: "nat \<Rightarrow> bytes \<Rightarrow> u16" where
  "be16_at i buf = push_bit 8 (ucast (buf ! i)) OR ucast (buf ! (i + 1))"

definition PREAMBLE :: u16 where
  "PREAMBLE = 0xAA55"

text \<open>
  The loop of \<open>count_asic_chips\<close>, with the receptions still to come. A frame of the wrong length
  or an error ends it, a frame that fails a check is skipped, a good one is counted.
\<close>

fun count_loop :: "u16 \<Rightarrow> nat \<Rightarrow> int \<Rightarrow> reception list \<Rightarrow> int" where
  "count_loop chip_id len n [] = n"
| "count_loop chip_id len n (Rx_Error # rs) = n"
| "count_loop chip_id len n (Rx_Bytes buf # rs) =
     (if buf = [] then n
      else if length buf \<noteq> len then n
      else if be16_at 0 buf \<noteq> PREAMBLE then count_loop chip_id len n rs
      else if be16_at 2 buf \<noteq> chip_id then count_loop chip_id len n rs
      else if crc5 (drop 2 buf) (of_nat (length buf - 2)) \<noteq> 0 then count_loop chip_id len n rs
      else count_loop chip_id len (n + 1) rs)"

text \<open>
  \<open>format_asic_indices\<close> writes the indices into a buffer of \<open>sz\<close> bytes, separated by commas; as
  soon as one does not fit, the whole text is replaced by a range. \<open>acc\<close> is what the buffer holds.
\<close>

fun format_loop :: "nat \<Rightarrow> int \<Rightarrow> int \<Rightarrow> int list \<Rightarrow> string \<Rightarrow> string" where
  "format_loop sz first_index end_index [] acc = acc"
| "format_loop sz first_index end_index (i # js) acc =
     (let piece = (if i = first_index then '''' else '','') @ dec_int i
      in if length piece \<ge> sz - length acc
         then snprintf_text sz (dec_int first_index @ ''-'' @ dec_int (end_index - 1))
         else format_loop sz first_index end_index js (acc @ piece))"

definition format_asic_indices :: "nat \<Rightarrow> int \<Rightarrow> int \<Rightarrow> string" where
  "format_asic_indices sz first_index end_index =
     format_loop sz first_index end_index [first_index..end_index - 1] ''''"

text \<open>The result of \<open>count_asic_chips\<close>, and the text it leaves in \<open>asic_chain_error\<close>.\<close>

definition count_asic_chips :: "u16 \<Rightarrow> u16 \<Rightarrow> nat \<Rightarrow> reception list \<Rightarrow> int \<times> string" where
  "count_asic_chips asic_count chip_id len rs =
     (let chip_counter = count_loop chip_id len 0 rs; expected = int (unat asic_count)
      in if chip_counter \<noteq> expected
         then (0,
               if chip_counter < expected
               then snprintf_text 96 (''ASIC '' @ format_asic_indices 64 chip_counter expected @ '' not found'')
               else snprintf_text 96 (''Unexpected ASIC '' @ format_asic_indices 64 expected chip_counter @ '' detected''))
         else (chip_counter, ''''))"

definition get_asic_chain_error :: "string \<Rightarrow> string option" where
  "get_asic_chain_error err = (if err = '''' then None else Some err)"

text \<open>
  \<open>receive_work\<close>: \<open>Some\<close> of the frame for \<open>ESP_OK\<close>, \<open>None\<close> for \<open>ESP_FAIL\<close>; the flag tells
  whether the input buffer was flushed.
\<close>

definition receive_work :: "nat \<Rightarrow> reception \<Rightarrow> bytes option \<times> bool" where
  "receive_work buffer_size r =
     (case r of
        Rx_Error \<Rightarrow> (None, False)
      | Rx_Bytes buf \<Rightarrow>
          if buf = [] then (None, False)
          else if length buf \<noteq> buffer_size then (None, True)
          else if be16_at 0 buf \<noteq> PREAMBLE then (None, True)
          else if crc5 (drop 2 buf) (of_nat (buffer_size - 2)) \<noteq> 0 then (None, True)
          else (Some buf, False))"

section \<open>Properties of the bit helpers\<close>

lemma reverse_step_sels:
  "fst (reverse_step s) = push_bit 1 (fst s) OR (snd s AND 1)"
  "snd (reverse_step s) = drop_bit 1 (snd s)"
  by (simp_all add: reverse_step_def Let_def)

lemma reverse_step_funpow:
  assumes "n \<le> 8"
  shows "bit (fst ((reverse_step ^^ n) (0, x))) j \<longleftrightarrow> j < n \<and> bit x (n - 1 - j)"
    and "snd ((reverse_step ^^ n) (0, x)) = drop_bit n x"
  using assms
proof (induction n arbitrary: j)
  case 0
  { case 1 show ?case by simp }
  { case 2 show ?case by simp }
next
  case (Suc n)
  { case 1
    then have "bit (fst ((reverse_step ^^ Suc n) (0, x))) j \<longleftrightarrow>
        j < 8 \<and> (0 < j \<and> bit (fst ((reverse_step ^^ n) (0, x))) (j - 1) \<or> j = 0 \<and> bit x n)"
      by (auto simp: reverse_step_sels Suc.IH(2) bit_or_iff bit_push_bit_iff bit_and_iff
          bit_1_iff bit_drop_bit_eq)
    with 1 Suc.IH(1) [of "j - 1"] show ?case by (cases j) auto }
  { case 2
    then show ?case by (simp add: reverse_step_sels Suc.IH(2)) }
qed

lemma bit_reverse_bits: "bit (reverse_bits x) j \<longleftrightarrow> j < 8 \<and> bit x (7 - j)"
  by (simp add: reverse_bits_def reverse_step_funpow)

lemma reverse_bits_involution: "reverse_bits (reverse_bits x) = x"
  by (rule word_eq_by_bits) (auto simp: bit_reverse_bits)

lemma halvings_add: "halvings n k = halvings n 0 + k"
proof (induction n arbitrary: k rule: less_induct)
  case (less n)
  show ?case
  proof (cases "1 < n")
    case True
    then have d: "n div 2 < n" by simp
    from True less.IH [OF d, of "k + 1"] less.IH [OF d, of 1]
    show ?thesis by (simp add: halvings.simps [of n k] halvings.simps [of n 0])
  qed (simp add: halvings.simps [of n])
qed

lemma halvings_bounds: "0 < n \<Longrightarrow> 2 ^ halvings n 0 \<le> n \<and> n < 2 * 2 ^ halvings n 0"
proof (induction n rule: less_induct)
  case (less n)
  show ?case
  proof (cases "1 < n")
    case True
    then have d: "n div 2 < n" "0 < n div 2" by simp_all
    from True have "halvings n 0 = halvings (n div 2) 0 + 1"
      by (simp add: halvings.simps [of n 0] halvings_add [of _ "Suc 0"])
    with less.IH [OF d] show ?thesis by (auto simp: power_add)
  qed (use less.prems in \<open>simp add: halvings.simps [of n]\<close>)
qed

lemma int32_double: "0 \<le> p \<Longrightarrow> p < 2 ^ 30 \<Longrightarrow> int32 (2 * p) = 2 * p"
  by (simp add: int32_def)

lemma next_power_loop_some:
  assumes "num \<le> 2 ^ (k + d)" "k + d \<le> 30"
  shows "\<exists>j. k \<le> j \<and> j \<le> k + d \<and> next_power_loop (2 ^ k) num = Some (2 ^ j) \<and> num \<le> 2 ^ j \<and> (j = k \<or> 2 ^ (j - 1) < num)"
  using assms
proof (induction d arbitrary: k)
  case 0
  then show ?case by (intro exI [of _ k]) (simp add: next_power_loop.simps)
next
  case (Suc d)
  show ?case
  proof (cases "2 ^ k < num")
    case True
    have "(2::int) ^ k < 2 ^ 30" using Suc.prems(2) by (intro power_strict_increasing) simp_all
    then have w: "int32 (2 * 2 ^ k) = 2 ^ Suc k" by (subst int32_double) simp_all
    from Suc.IH [of "Suc k"] Suc.prems obtain j where
      j: "Suc k \<le> j" "j \<le> Suc k + d" "next_power_loop (2 ^ Suc k) num = Some (2 ^ j)" "num \<le> 2 ^ j"
         "j = Suc k \<or> 2 ^ (j - 1) < num"
      by auto
    from True have "next_power_loop (2 ^ k) num = next_power_loop (2 ^ Suc k) num"
      by (subst next_power_loop.simps) (simp add: w)
    with j True show ?thesis by (intro exI [of _ j]) auto
  next
    case False
    then show ?thesis by (intro exI [of _ k]) (simp add: next_power_loop.simps)
  qed
qed

lemma next_power_loop_stuck: "0 < num \<Longrightarrow> next_power_loop 0 num = None"
proof (rule ccontr)
  assume num: "0 < num" and "next_power_loop 0 num \<noteq> None"
  then obtain r where r: "next_power_loop 0 num = Some r" by auto
  have "\<not> (0 = (0::int) \<and> 0 < num)"
  proof (rule next_power_loop.raw_induct [where P = "\<lambda>pow num r. \<not> (pow = 0 \<and> 0 < num)", OF _ r])
    fix f pow num' r
    assume IH: "\<And>pow num r. f pow num = Some r \<Longrightarrow> \<not> (pow = 0 \<and> 0 < num)"
      and eq: "(if pow < num' then f (int32 (2 * pow)) num' else Some pow) = Some r"
    show "\<not> (pow = 0 \<and> 0 < num')"
      using IH [of "int32 (2 * pow)" num' r] eq by (auto simp: int32_def split: if_splits)
  qed
  with num show False by simp
qed

lemma next_power_loop_climb:
  assumes "2 ^ 30 < num" "k \<le> 30"
  shows "next_power_loop 1 num = next_power_loop (2 ^ k) num"
  using assms(2)
proof (induction k)
  case 0
  then show ?case by simp
next
  case (Suc k)
  have k: "(2::int) ^ k < 2 ^ 30" using Suc.prems by (intro power_strict_increasing) simp_all
  have "next_power_loop (2 ^ k) num = next_power_loop (int32 (2 * 2 ^ k)) num"
    using k assms(1) by (subst next_power_loop.simps) simp
  also have "int32 (2 * 2 ^ k) = 2 ^ Suc k"
    using k by (subst int32_double) simp_all
  finally show ?case using Suc by simp
qed

lemma next_power_loop_never: "2 ^ 30 < num \<Longrightarrow> next_power_loop 1 num = None"
proof -
  assume num: "(2::int) ^ 30 < num"
  then have "next_power_loop 1 num = next_power_loop (2 ^ 30) num"
    by (rule next_power_loop_climb) simp
  also have "\<dots> = next_power_loop (int32 (2 ^ 31)) num"
    using num by (subst next_power_loop.simps) simp
  also have "\<dots> = next_power_loop (int32 (2 * - (2 ^ 31))) num"
    using num by (subst next_power_loop.simps) (simp add: int32_def)
  also have "\<dots> = None"
    using num by (simp add: int32_def next_power_loop_stuck)
  finally show ?thesis .
qed

text \<open>
  C40. \<open>_next_power_of_two\<close> returns the least power of two that is not below its argument for every
  argument up to \<open>2^30\<close>, and never returns above that.
\<close>

theorem next_power_of_two_correct:
  "(num \<le> 2 ^ 30 \<longrightarrow>
      (\<exists>k. next_power_of_two num = Some (2 ^ k) \<and> num \<le> 2 ^ k \<and> (k = 0 \<or> 2 ^ (k - 1) < num))) \<and>
   (num > 2 ^ 30 \<longrightarrow> next_power_of_two num = None)"
proof (cases "num \<le> 1")
  case True
  then show ?thesis by (auto simp: next_power_of_two_def intro!: exI [of _ 0])
next
  case False
  then have eq: "next_power_of_two num = next_power_loop 1 num"
    by (simp add: next_power_of_two_def)
  have "\<exists>k. next_power_loop 1 num = Some (2 ^ k) \<and> num \<le> 2 ^ k \<and> (k = 0 \<or> 2 ^ (k - 1) < num)"
    if "num \<le> 2 ^ 30"
    using next_power_loop_some [of num 0 30] that by auto
  then show ?thesis using next_power_loop_never [of num] eq by auto
qed

theorem next_power_of_two_correct_witness:
  "\<exists>k. next_power_of_two 80 = Some (2 ^ k) \<and> 80 \<le> (2 :: int) ^ k \<and> (k = 0 \<or> 2 ^ (k - 1) < (80 :: int))"
  using next_power_of_two_correct [of 80] by simp

section \<open>The ticket mask has no holes\<close>

text \<open>
  The chip reads the four mask bytes with the bits of each byte reversed: mask bit \<open>i\<close> is bit
  \<open>7 - i mod 8\<close> of payload byte \<open>5 - i div 8\<close>.
\<close>

definition ticket_bit :: "bytes \<Rightarrow> nat \<Rightarrow> bool" where
  "ticket_bit payload i = bit (payload ! (5 - i div 8)) (7 - i mod 8)"

lemma bit_mask_word: "bit (push_bit k 1 - 1 :: u32) i \<longleftrightarrow> i < k \<and> i < 32"
proof -
  have "(push_bit k 1 - 1 :: u32) = mask k"
    by (simp add: mask_eq_exp_minus_1)
  then show ?thesis by (simp add: bit_mask_iff) (auto)
qed

lemma ticket_bit_mask:
  assumes "i < 32"
  shows "ticket_bit (get_difficulty_mask d) i \<longleftrightarrow> i < halvings (nat \<lceil>d\<rceil>) 0"
proof -
  let ?k = "halvings (nat \<lceil>d\<rceil>) 0"
  let ?m = "push_bit ?k 1 - 1 :: u32"
  have b: "bit (ucast (drop_bit n ?m AND 0xFF) :: u8) j \<longleftrightarrow> j < 8 \<and> n + j < ?k \<and> n + j < 32" for n j
  proof -
    have "(0xFF :: u32) = mask 8" by (simp add: mask_eq_exp_minus_1)
    then have "bit (0xFF :: u32) j \<longleftrightarrow> j < 8" by (simp only: bit_mask_iff) auto
    then show ?thesis
      by (auto simp: bit_ucast_iff bit_and_iff bit_drop_bit_eq bit_mask_word simp del: push_bit_of_1)
  qed
  have pl: "get_difficulty_mask d ! (5 - c) = reverse_bits (ucast (drop_bit (8 * c) ?m AND 0xFF))" if "c < 4" for c
  proof -
    from that have "c = 0 \<or> c = 1 \<or> c = 2 \<or> c = 3" by linarith
    then show ?thesis
      by (elim disjE) (simp_all only: get_difficulty_mask_def Let_def, simp_all)
  qed
  have c: "i div 8 < 4" and i: "8 * (i div 8) + i mod 8 = i" "7 - (7 - i mod 8) = i mod 8" "7 - i mod 8 < 8"
    using assms by simp_all
  show ?thesis
    unfolding ticket_bit_def pl [OF c] bit_reverse_bits b i(2) using i assms by simp
qed

text \<open>
  The ticket mask that the chips get is the low bits \<open>0 .. k - 1\<close> without holes, where
  \<open>2^k\<close> is the largest power of two not above the difficulty rounded up: the chips never filter
  harder than the requested difficulty, and less than twice as weakly.
\<close>

theorem difficulty_mask_contiguous:
  assumes "0 < d" "\<lceil>d\<rceil> < 2 ^ 32"
  shows "\<exists>k. 2 ^ k \<le> \<lceil>d\<rceil> \<and> \<lceil>d\<rceil> < 2 * 2 ^ k \<and>
           (\<forall>i < 32. ticket_bit (get_difficulty_mask d) i \<longleftrightarrow> i < k)"
proof -
  have pos: "0 < nat \<lceil>d\<rceil>" using assms(1) by simp
  have "2 ^ halvings (nat \<lceil>d\<rceil>) 0 \<le> nat \<lceil>d\<rceil> \<and> nat \<lceil>d\<rceil> < 2 * 2 ^ halvings (nat \<lceil>d\<rceil>) 0"
    using halvings_bounds [OF pos] .
  then have "int (2 ^ halvings (nat \<lceil>d\<rceil>) 0) \<le> \<lceil>d\<rceil> \<and> \<lceil>d\<rceil> < int (2 * 2 ^ halvings (nat \<lceil>d\<rceil>) 0)"
    using assms(1) by linarith
  then show ?thesis
    by (intro exI [of _ "halvings (nat \<lceil>d\<rceil>) 0"]) (simp add: ticket_bit_mask)
qed

theorem difficulty_mask_contiguous_witness:
  "\<exists>k. 2 ^ k \<le> \<lceil>256 :: rat\<rceil> \<and> \<lceil>256 :: rat\<rceil> < 2 * 2 ^ k \<and>
       (\<forall>i < 32. ticket_bit (get_difficulty_mask 256) i \<longleftrightarrow> i < k)"
  using difficulty_mask_contiguous [of 256] by simp

section \<open>The tuning range\<close>

text \<open>The presets of a table: the entries before its terminator.\<close>

definition presets :: "u16 list option \<Rightarrow> u16 list" where
  "presets options = (case options of None \<Rightarrow> [] | Some xs \<Rightarrow> takeWhile (\<lambda>x. x \<noteq> 0) xs)"

lemma options_max_loop_fold: "options_max_loop xs mx = fold max (takeWhile (\<lambda>x. x \<noteq> 0) xs) mx"
proof (induction xs mx rule: options_max_loop.induct)
  case (2 x xs mx)
  have "(if x > mx then x else mx) = max x mx"
    by (auto simp: max_def)
  with 2 show ?case by (simp only: options_max_loop.simps) simp
qed simp

lemma options_min_loop_fold:
  "mn \<noteq> 0 \<Longrightarrow> options_min_loop xs mn = fold min (takeWhile (\<lambda>x. x \<noteq> 0) xs) mn"
  by (induction xs mn rule: options_min_loop.induct) (auto simp: min_def)

lemma asic_options_max_presets:
  "asic_options_max options = (if presets options = [] then 0 else Max (set (presets options)))"
proof -
  have "options_max_loop xs 0 = (if takeWhile (\<lambda>x. x \<noteq> 0) xs = [] then 0 else Max (set (takeWhile (\<lambda>x. x \<noteq> 0) xs)))" for xs
    by (cases xs) (auto simp: options_max_loop_fold Max.set_eq_fold simp del: set_simps list.set word_gt_0)
  then show ?thesis
    by (auto simp: asic_options_max_def presets_def split: option.splits)
qed

lemma asic_options_min_presets:
  "asic_options_min options = (if presets options = [] then 0 else Min (set (presets options)))"
proof -
  have "options_min_loop xs 0 = (if takeWhile (\<lambda>x. x \<noteq> 0) xs = [] then 0 else Min (set (takeWhile (\<lambda>x. x \<noteq> 0) xs)))" for xs
    by (cases xs) (auto simp: options_min_loop_fold Min.set_eq_fold simp del: set_simps list.set)
  then show ?thesis
    by (auto simp: asic_options_min_def presets_def split: option.splits)
qed

lemma presets_nonzero: "x \<in> set (presets options) \<Longrightarrow> x \<noteq> 0"
  by (auto simp: presets_def dest: set_takeWhileD split: option.splits)

definition in_range :: "asic_range \<Rightarrow> u16 \<Rightarrow> bool" where
  "in_range r x \<longleftrightarrow> range_min r \<le> x \<and> x \<le> range_max r"

text \<open>
  The tuning range keeps its promises. Every preset stays allowed, with or without overclock;
  without overclock, or when the chip has no ceiling, nothing above the highest or below the lowest
  preset is allowed; with overclock nothing above both the presets and the ceiling is allowed; and an
  empty table allows no value but 0 unless overclock supplies the range.
\<close>

theorem asic_tuning_range_contract:
  fixes options oc_min oc_max overclock
  defines "r \<equiv> asic_tuning_range options oc_min oc_max overclock"
  shows "(\<forall>x \<in> set (presets options). in_range r x) \<and>
    (\<not> overclock \<or> oc_max = 0 \<longrightarrow>
       (presets options = [] \<longrightarrow> (\<forall>x. in_range r x \<longrightarrow> x = 0)) \<and>
       (presets options \<noteq> [] \<longrightarrow>
          range_min r = Min (set (presets options)) \<and> range_max r = Max (set (presets options)))) \<and>
    (\<forall>x. in_range r x \<and> (\<forall>p \<in> set (presets options). p < x) \<and> x \<noteq> 0 \<longrightarrow> overclock \<and> x \<le> oc_max) \<and>
    (overclock \<and> oc_max \<noteq> 0 \<longrightarrow> oc_max \<le> range_max r)"
proof -
  have lo: "asic_options_min options \<le> x" and hi: "x \<le> asic_options_max options" if "x \<in> set (presets options)" for x
    using that by (auto simp: asic_options_min_presets asic_options_max_presets)
  have nz: "x \<noteq> 0" if "x \<in> set (presets options)" for x
    using that by (rule presets_nonzero)
  have mem: "asic_options_max options \<in> set (presets options)" "asic_options_min options \<in> set (presets options)"
    if "presets options \<noteq> []"
    using that by (simp_all add: asic_options_min_presets asic_options_max_presets)
  show ?thesis
  proof (cases "overclock \<and> oc_max \<noteq> 0")
    case False
    then have "r = \<lparr>range_min = asic_options_min options, range_max = asic_options_max options\<rparr>"
      unfolding r_def asic_tuning_range_def by auto
    then have r: "range_min r = asic_options_min options" "range_max r = asic_options_max options"
      by simp_all
    show ?thesis
    proof (cases "presets options = []")
      case True
      with False r show ?thesis
        by (auto simp: in_range_def asic_options_min_presets asic_options_max_presets)
    next
      case ne: False
      then have top: "\<not> (\<forall>p \<in> set (presets options). p < x)" if "in_range r x" for x
        using that mem(1) r(2) by (auto simp: in_range_def dest: leD)
      have "in_range r x" if "x \<in> set (presets options)" for x
        using that lo hi r by (simp add: in_range_def)
      with top ne False r show ?thesis
        by (auto simp: asic_options_min_presets asic_options_max_presets)
    qed
  next
    case True
    show ?thesis
    proof (cases "presets options = []")
      case True': True
      with True show ?thesis
        by (auto simp: r_def asic_tuning_range_def Let_def in_range_def asic_options_min_presets asic_options_max_presets)
    next
      case False
      then have "asic_options_max options \<noteq> 0" "asic_options_min options \<noteq> 0"
        using mem nz by blast+
      with True have "range_max r = max (asic_options_max options) oc_max" "range_min r \<le> asic_options_min options"
        by (auto simp: r_def asic_tuning_range_def Let_def max_def)
      with True False lo hi mem show ?thesis
        by (fastforce simp: in_range_def le_max_iff_disj)
    qed
  qed
qed

theorem asic_tuning_range_contract_witness:
  "in_range (asic_tuning_range (Some [400, 490, 525, 0]) 300 800 True) 490"
proof -
  have "490 \<in> set (presets (Some [400, 490, 525, 0]))" by (simp add: presets_def)
  then show ?thesis
    using asic_tuning_range_contract [of "Some [400, 490, 525, 0]" 300 800 True] by blast
qed

section \<open>Counting chips and receiving frames\<close>

text \<open>A well-formed response of \<open>n\<close> bytes: the preamble, and a checksum that comes out as 0.\<close>

definition frame_ok :: "nat \<Rightarrow> bytes \<Rightarrow> bool" where
  "frame_ok n buf \<longleftrightarrow>
     length buf = n \<and> buf \<noteq> [] \<and> be16_at 0 buf = PREAMBLE \<and> crc5 (drop 2 buf) (of_nat (n - 2)) = 0"

definition chip_frame :: "u16 \<Rightarrow> nat \<Rightarrow> reception \<Rightarrow> bool" where
  "chip_frame chip_id n r \<longleftrightarrow> (case r of Rx_Error \<Rightarrow> False | Rx_Bytes buf \<Rightarrow> frame_ok n buf \<and> be16_at 2 buf = chip_id)"

definition full_read :: "nat \<Rightarrow> reception \<Rightarrow> bool" where
  "full_read n r \<longleftrightarrow> (case r of Rx_Error \<Rightarrow> False | Rx_Bytes buf \<Rightarrow> buf \<noteq> [] \<and> length buf = n)"

lemma count_loop_filter:
  "count_loop chip_id len n rs = n + int (length (filter (chip_frame chip_id len) (takeWhile (full_read len) rs)))"
  by (induction chip_id len n rs rule: count_loop.induct)
     (auto simp: chip_frame_def full_read_def frame_ok_def)

text \<open>
  The chain comes up only if the number of good answers, before the first timeout, error or short
  read, is exactly the configured number of chips; otherwise the result is 0 and an error text is left
  for the user.
\<close>

theorem count_asic_chips_exact:
  fixes asic_count chip_id len rs
  defines "good \<equiv> length (filter (chip_frame chip_id len) (takeWhile (full_read len) rs))"
  shows "fst (count_asic_chips asic_count chip_id len rs) = (if good = unat asic_count then int good else 0) \<and>
    (get_asic_chain_error (snd (count_asic_chips asic_count chip_id len rs)) = None \<longleftrightarrow> good = unat asic_count)"
proof -
  have "count_loop chip_id len 0 rs = int good"
    by (simp add: count_loop_filter good_def)
  moreover have "good = unat asic_count \<longleftrightarrow> int good = uint asic_count"
    using of_nat_eq_iff [of good "unat asic_count", where 'a = int] by simp
  ultimately show ?thesis
    by (auto simp: count_asic_chips_def get_asic_chain_error_def Let_def snprintf_text_def)
qed

text \<open>
  \<open>receive_work\<close> hands a frame on exactly if it was read in full and is well formed; a frame that
  arrived but failed a check flushes the input buffer, a timeout or an error does not.
\<close>

theorem receive_work_checks:
  "fst (receive_work n r) = (case r of Rx_Bytes buf \<Rightarrow> (if frame_ok n buf then Some buf else None) | Rx_Error \<Rightarrow> None) \<and>
   snd (receive_work n r) = (case r of Rx_Bytes buf \<Rightarrow> buf \<noteq> [] \<and> \<not> frame_ok n buf | Rx_Error \<Rightarrow> False)"
  by (auto simp: receive_work_def frame_ok_def split: reception.splits)

text \<open>The list of chip indices is written in full when it fits, and as a range when it does not.\<close>

lemma format_loop_spec:
  "format_loop sz a b js acc =
     (let full = acc @ concat (map (\<lambda>i. (if i = a then '''' else '','') @ dec_int i) js)
      in if js = [] \<or> length full < sz then full
         else snprintf_text sz (dec_int a @ ''-'' @ dec_int (b - 1)))"
proof (induction js arbitrary: acc)
  case Nil
  then show ?case by simp
next
  case (Cons j js)
  show ?case
    by (simp add: Let_def Cons.IH) (auto simp: not_le)
qed

lemma format_asic_indices_full:
  "length (concat (map (\<lambda>i. (if i = a then '''' else '','') @ dec_int i) [a..b - 1])) < sz \<Longrightarrow>
   format_asic_indices sz a b = concat (map (\<lambda>i. (if i = a then '''' else '','') @ dec_int i) [a..b - 1])"
  by (simp add: format_asic_indices_def format_loop_spec Let_def)

end
