(* ===== verification/Work_Queue.thy ===== *)
theory Work_Queue
  imports Prelude "HOL-Library.Signed_Division"
begin

text \<open>
  \<open>main/work_queue.c\<close>: the bounded queue between the protocol tasks (producers of jobs) and the job
  task (consumer). It is a ring buffer of \<open>QUEUE_SIZE\<close> slots with a count, a lock and two condition
  variables; every slot remembers the free function that was current when its item was enqueued.

  Every operation runs under the lock, so it is one atomic step of the model. An operation that would
  wait on a condition variable returns \<open>None\<close>: it is not enabled in this state.
\<close>

section \<open>The queue of the code\<close>

definition QUEUE_SIZE :: nat where
  "QUEUE_SIZE = 12"

text \<open>
  \<open>'a\<close> are the work pointers, \<open>'f\<close> the free functions; \<open>None\<close> as a free function is the null pointer,
  for which the code calls \<open>free\<close>.
\<close>

record ('a, 'f) work_queue =
  buffer :: "'a list"
  item_free_fn :: "'f option list"
  head :: nat
  tail :: nat
  count :: nat
  free_fn :: "'f option"

text \<open>The slots are not initialised by \<open>queue_init\<close>: they keep what the memory held.\<close>

definition queue_init :: "('a, 'f) work_queue \<Rightarrow> ('a, 'f) work_queue" where
  "queue_init q = q\<lparr>head := 0, tail := 0, count := 0, free_fn := None\<rparr>"

definition queue_enqueue :: "'a \<Rightarrow> ('a, 'f) work_queue \<Rightarrow> ('a, 'f) work_queue option" where
  "queue_enqueue new_work q =
     (if count q = QUEUE_SIZE then None
      else Some (q\<lparr>buffer := (buffer q)[tail q := new_work],
                   item_free_fn := (item_free_fn q)[tail q := free_fn q],
                   tail := (tail q + 1) mod QUEUE_SIZE,
                   count := count q + 1\<rparr>))"

text \<open>The part that the dequeue operations share: take the item at the head.\<close>

definition pop_head :: "('a, 'f) work_queue \<Rightarrow> ('a \<times> 'f option) \<times> ('a, 'f) work_queue" where
  "pop_head q =
     ((buffer q ! head q, item_free_fn q ! head q),
      q\<lparr>head := (head q + 1) mod QUEUE_SIZE, count := count q - 1\<rparr>)"

definition queue_dequeue :: "('a, 'f) work_queue \<Rightarrow> ('a \<times> ('a, 'f) work_queue) option" where
  "queue_dequeue q =
     (if count q = 0 then None else (case pop_head q of (e, q') \<Rightarrow> Some (fst e, q')))"

text \<open>
  The deadline of a timed wait: \<open>timeout_ms\<close> is added to the current time, and the nanoseconds are
  carried into the seconds. The division of C truncates (\<open>sdiv\<close>, \<open>smod\<close>): \<open>create_jobs_task\<close> subtracts the
  time it waited from its time-out and may pass a negative one.
\<close>

record timespec =
  tv_sec :: int
  tv_nsec :: int

definition deadline :: "timespec \<Rightarrow> int \<Rightarrow> timespec" where
  "deadline now timeout_ms =
     (let t = now\<lparr>tv_sec := tv_sec now + timeout_ms sdiv 1000,
                  tv_nsec := tv_nsec now + (timeout_ms smod 1000) * 1000000\<rparr>
      in if tv_nsec t \<ge> 1000000000
         then t\<lparr>tv_sec := tv_sec t + 1, tv_nsec := tv_nsec t - 1000000000\<rparr> else t)"

text \<open>
  How a timed wait ends: the deadline passed, or the thread was woken (by a signal or spuriously)
  and holds the lock again, with the queue as the other threads left it meanwhile.
\<close>

datatype ('a, 'f) wake = Timed_Out "('a, 'f) work_queue" | Woken "('a, 'f) work_queue"

text \<open>
  \<open>queue_dequeue_timeout_ex\<close>. The result is \<open>None\<close> while the thread still waits; otherwise the
  returned item with its free function (\<open>None\<close> is the null pointer of a time-out) and the queue.
\<close>

fun queue_dequeue_timeout_ex ::
  "('a, 'f) work_queue \<Rightarrow> ('a, 'f) wake list \<Rightarrow> (('a \<times> 'f option) option \<times> ('a, 'f) work_queue) option" where
  "queue_dequeue_timeout_ex q ws =
     (if count q = 0
      then (case ws of
              [] \<Rightarrow> None
            | Timed_Out q' # _ \<Rightarrow> Some (None, q')
            | Woken q' # ws' \<Rightarrow> queue_dequeue_timeout_ex q' ws')
      else (case pop_head q of (e, q') \<Rightarrow> Some (Some e, q')))"

declare queue_dequeue_timeout_ex.simps [simp del]

text \<open>\<open>queue_dequeue_timeout\<close> passes a null pointer for the free function.\<close>

definition queue_dequeue_timeout ::
  "('a, 'f) work_queue \<Rightarrow> ('a, 'f) wake list \<Rightarrow> ('a option \<times> ('a, 'f) work_queue) option" where
  "queue_dequeue_timeout q ws =
     map_option (\<lambda>(r, q'). (map_option fst r, q')) (queue_dequeue_timeout_ex q ws)"

text \<open>
  \<open>queue_clear\<close>: the queue it leaves, and the calls it made to free the items, in order; the item
  is passed to its own free function, or to \<open>free\<close> when that is null.
\<close>

function queue_clear_loop ::
  "('a, 'f) work_queue \<Rightarrow> ('a \<times> 'f option) list \<Rightarrow> ('a \<times> 'f option) list \<times> ('a, 'f) work_queue" where
  "queue_clear_loop q freed =
     (if count q > 0 then (case pop_head q of (e, q') \<Rightarrow> queue_clear_loop q' (freed @ [e]))
      else (freed, q))"
  by pat_completeness auto
termination
  by (relation "measure (\<lambda>(q, freed). count q)") (auto simp: pop_head_def)

declare queue_clear_loop.simps [simp del]

definition queue_clear :: "('a, 'f) work_queue \<Rightarrow> ('a \<times> 'f option) list \<times> ('a, 'f) work_queue" where
  "queue_clear q = queue_clear_loop q []"

text \<open>What the protocol coordinator does when it switches protocols: \<open>queue->free_fn = f\<close>.\<close>

definition set_free_fn :: "'f option \<Rightarrow> ('a, 'f) work_queue \<Rightarrow> ('a, 'f) work_queue" where
  "set_free_fn f q = q\<lparr>free_fn := f\<rparr>"

section \<open>The contract: a bounded FIFO whose entries carry the tag of their enqueue\<close>

datatype ('a, 'f) fifo_op = Put 'a | Get | Tag 'f

text \<open>
  A run of operations against any implementation: an operation that is not enabled has no effect
  (its thread keeps waiting). The second and third component collect, in order, the entries that
  went in and those that came out.
\<close>

fun fifo_run ::
  "('q \<Rightarrow> 'f) \<Rightarrow> ('f \<Rightarrow> 'q \<Rightarrow> 'q) \<Rightarrow> ('a \<Rightarrow> 'q \<Rightarrow> 'q option) \<Rightarrow> ('q \<Rightarrow> (('a \<times> 'f) \<times> 'q) option) \<Rightarrow>
   ('a, 'f) fifo_op list \<Rightarrow> 'q \<Rightarrow> 'q \<times> ('a \<times> 'f) list \<times> ('a \<times> 'f) list" where
  "fifo_run tag set_tag put get [] q = (q, [], [])"
| "fifo_run tag set_tag put get (Put x # ops) q =
     (case put x q of
        None \<Rightarrow> fifo_run tag set_tag put get ops q
      | Some q' \<Rightarrow> (case fifo_run tag set_tag put get ops q' of (r, i, out) \<Rightarrow> (r, (x, tag q) # i, out)))"
| "fifo_run tag set_tag put get (Get # ops) q =
     (case get q of
        None \<Rightarrow> fifo_run tag set_tag put get ops q
      | Some (e, q') \<Rightarrow> (case fifo_run tag set_tag put get ops q' of (r, i, out) \<Rightarrow> (r, i, e # out)))"
| "fifo_run tag set_tag put get (Tag f # ops) q = fifo_run tag set_tag put get ops (set_tag f q)"

locale tagged_fifo =
  fixes cap :: nat
    and invar :: "'q \<Rightarrow> bool"
    and contents :: "'q \<Rightarrow> ('a \<times> 'f) list"
    and tag :: "'q \<Rightarrow> 'f"
    and set_tag :: "'f \<Rightarrow> 'q \<Rightarrow> 'q"
    and put :: "'a \<Rightarrow> 'q \<Rightarrow> 'q option"
    and get :: "'q \<Rightarrow> (('a \<times> 'f) \<times> 'q) option"
  assumes bounded: "invar q \<Longrightarrow> length (contents q) \<le> cap"
    and put_blocks: "invar q \<Longrightarrow> put x q = None \<longleftrightarrow> length (contents q) = cap"
    and put_contents: "invar q \<Longrightarrow> put x q = Some q' \<Longrightarrow> contents q' = contents q @ [(x, tag q)]"
    and put_invar: "invar q \<Longrightarrow> put x q = Some q' \<Longrightarrow> invar q'"
    and get_blocks: "invar q \<Longrightarrow> get q = None \<longleftrightarrow> contents q = []"
    and get_contents: "invar q \<Longrightarrow> get q = Some (e, q') \<Longrightarrow> contents q = e # contents q'"
    and get_invar: "invar q \<Longrightarrow> get q = Some (e, q') \<Longrightarrow> invar q'"
    and set_tag_contents: "invar q \<Longrightarrow> contents (set_tag f q) = contents q"
    and set_tag_invar: "invar q \<Longrightarrow> invar (set_tag f q)"
begin

lemma run_fifo:
  assumes "invar q" "fifo_run tag set_tag put get ops q = (q', i, out)"
  shows "invar q' \<and> contents q @ i = out @ contents q'"
  using assms
proof (induction ops arbitrary: q q' i out)
  case Nil
  then show ?case by simp
next
  case (Cons op ops)
  show ?case
  proof (cases op)
    case (Put x)
    show ?thesis
    proof (cases "put x q")
      case None
      with Cons Put show ?thesis by simp
    next
      case (Some q1)
      obtain r i1 out1 where run: "fifo_run tag set_tag put get ops q1 = (r, i1, out1)"
        by (rule prod_cases3)
      from Cons.prems(1) Some have "invar q1" "contents q1 = contents q @ [(x, tag q)]"
        by (auto dest: put_invar put_contents)
      with Cons.IH [OF _ run] Cons.prems(2) Put Some run show ?thesis by simp
    qed
  next
    case Get
    show ?thesis
    proof (cases "get q")
      case None
      with Cons Get show ?thesis by simp
    next
      case (Some p)
      obtain e q1 where p: "p = (e, q1)" by (cases p)
      obtain r i1 out1 where run: "fifo_run tag set_tag put get ops q1 = (r, i1, out1)"
        by (rule prod_cases3)
      from Cons.prems(1) Some p have "invar q1" "contents q = e # contents q1"
        by (auto dest: get_invar get_contents)
      with Cons.IH [OF _ run] Cons.prems(2) Get Some p run show ?thesis by auto
    qed
  next
    case (Tag f)
    with Cons.IH [of "set_tag f q"] Cons.prems show ?thesis
      by (simp add: set_tag_invar set_tag_contents)
  qed
qed

lemma run_in_order:
  assumes "invar q" "contents q = []" "fifo_run tag set_tag put get ops q = (q', i, out)"
  shows "i = out @ contents q' \<and> length (contents q') \<le> cap"
  using run_fifo [OF assms(1,3)] assms(2) bounded by auto

lemma never_deadlocked:
  assumes "invar q" "0 < cap"
  shows "(\<exists>q'. put x q = Some q') \<or> (\<exists>e q'. get q = Some (e, q'))"
proof (cases "contents q = []")
  case True
  with assms have "put x q \<noteq> None" by (simp add: put_blocks)
  then show ?thesis by auto
next
  case False
  with assms have "get q \<noteq> None" by (simp add: get_blocks)
  then show ?thesis by auto
qed

end

section \<open>The ring buffer implements the contract\<close>

definition queue_contents :: "('a, 'f) work_queue \<Rightarrow> ('a \<times> 'f option) list" where
  "queue_contents q =
     map (\<lambda>i. (buffer q ! ((head q + i) mod QUEUE_SIZE), item_free_fn q ! ((head q + i) mod QUEUE_SIZE)))
       [0..<count q]"

definition queue_invar :: "('a, 'f) work_queue \<Rightarrow> bool" where
  "queue_invar q \<longleftrightarrow>
     length (buffer q) = QUEUE_SIZE \<and> length (item_free_fn q) = QUEUE_SIZE \<and>
     head q < QUEUE_SIZE \<and> count q \<le> QUEUE_SIZE \<and> tail q = (head q + count q) mod QUEUE_SIZE"

definition queue_get :: "('a, 'f) work_queue \<Rightarrow> (('a \<times> 'f option) \<times> ('a, 'f) work_queue) option" where
  "queue_get q = (if count q = 0 then None else Some (pop_head q))"

lemma length_queue_contents [simp]: "length (queue_contents q) = count q"
  by (simp add: queue_contents_def)

lemma slot_neq:
  assumes "h < n" "i < c" "c < n"
  shows "(h + i) mod n \<noteq> (h + c) mod (n :: nat)"
proof
  assume "(h + i) mod n = (h + c) mod n"
  then have "i mod n = c mod n" by (simp add: mod_add_cong nat_mod_eq_iff mod_eq_iff_dvd_symdiff_nat) 
  with assms show False by simp
qed

lemma enqueue_contents:
  assumes "queue_invar q" "queue_enqueue x q = Some q'"
  shows "queue_contents q' = queue_contents q @ [(x, free_fn q)]"
proof -
  from assms have c: "count q < QUEUE_SIZE" and q': "q' = q\<lparr>buffer := (buffer q)[tail q := x],
      item_free_fn := (item_free_fn q)[tail q := free_fn q], tail := (tail q + 1) mod QUEUE_SIZE, count := count q + 1\<rparr>"
    by (auto simp: queue_enqueue_def queue_invar_def split: if_splits)
  have ne: "(head q + i) mod QUEUE_SIZE \<noteq> tail q" if "i < count q" for i
    using slot_neq [of "head q" QUEUE_SIZE i "count q"] that c assms(1) by (simp add: queue_invar_def)
  have tl: "tail q < QUEUE_SIZE" "(head q + count q) mod QUEUE_SIZE = tail q"
    and len: "length (buffer q) = QUEUE_SIZE" "length (item_free_fn q) = QUEUE_SIZE"
    using assms(1) by (auto simp: queue_invar_def QUEUE_SIZE_def)
  have old: "(buffer q)[tail q := x] ! ((head q + i) mod QUEUE_SIZE) = buffer q ! ((head q + i) mod QUEUE_SIZE)"
    "(item_free_fn q)[tail q := f] ! ((head q + i) mod QUEUE_SIZE) = item_free_fn q ! ((head q + i) mod QUEUE_SIZE)"
    if "i < count q" for i f
    using ne [OF that] by simp_all
  show ?thesis
    by (simp add: queue_contents_def q' old tl len)
qed

lemma enqueue_invar: "queue_invar q \<Longrightarrow> queue_enqueue x q = Some q' \<Longrightarrow> queue_invar q'"
  by (auto simp: queue_enqueue_def queue_invar_def mod_Suc_eq split: if_splits)

lemma get_contents:
  assumes "queue_invar q" "queue_get q = Some (e, q')"
  shows "queue_contents q = e # queue_contents q'"
proof -
  from assms have c: "0 < count q" and e: "e = (buffer q ! head q, item_free_fn q ! head q)"
    and q': "q' = q\<lparr>head := (head q + 1) mod QUEUE_SIZE, count := count q - 1\<rparr>"
    by (auto simp: queue_get_def pop_head_def split: if_splits)
  have shift: "(Suc (head q) mod QUEUE_SIZE + i) mod QUEUE_SIZE = (head q + Suc i) mod QUEUE_SIZE" for i
    by (simp add: mod_add_left_eq)
  have upt: "[0..<count q] = 0 # map Suc [0..<count q - 1]"
    using c by (metis Suc_pred map_Suc_upt upt_conv_Cons One_nat_def)
  have hd: "head q mod QUEUE_SIZE = head q"
    using assms(1) by (simp add: queue_invar_def)
  show ?thesis
    unfolding queue_contents_def upt q' e by (simp add: shift hd comp_def)
qed

lemma get_invar:
  assumes "queue_invar q" "queue_get q = Some (e, q')"
  shows "queue_invar q'"
proof -
  from assms have c: "0 < count q"
    and q': "q' = q\<lparr>head := (head q + 1) mod QUEUE_SIZE, count := count q - 1\<rparr>"
    by (auto simp: queue_get_def pop_head_def split: if_splits)
  have "((head q + 1) mod QUEUE_SIZE + (count q - 1)) mod QUEUE_SIZE = (head q + count q) mod QUEUE_SIZE"
  proof -
    obtain n where "count q = Suc n" using c by (cases "count q") auto
    then show ?thesis by (simp add: mod_add_left_eq)
  qed
  moreover have "(head q + 1) mod QUEUE_SIZE < QUEUE_SIZE" by (simp add: QUEUE_SIZE_def)
  ultimately show ?thesis
    using assms(1) c by (auto simp: queue_invar_def q')
qed

interpretation wq: tagged_fifo QUEUE_SIZE queue_invar queue_contents free_fn set_free_fn queue_enqueue queue_get
proof (unfold_locales, goal_cases)
  case (1 q)
  then show ?case by (simp add: queue_invar_def)
next
  case (2 q x)
  then show ?case by (simp add: queue_enqueue_def)
next
  case (3 q x q')
  then show ?case by (rule enqueue_contents)
next
  case (4 q x q')
  then show ?case by (rule enqueue_invar)
next
  case (5 q)
  then show ?case by (simp add: queue_get_def flip: length_0_conv)
next
  case (6 q e q')
  then show ?case by (rule get_contents)
next
  case (7 q e q')
  then show ?case by (rule get_invar)
next
  case (8 q f)
  then show ?case by (simp add: set_free_fn_def queue_contents_def)
next
  case (9 q f)
  then show ?case by (simp add: set_free_fn_def queue_invar_def)
qed

section \<open>Properties of the queue\<close>

lemma queue_init_invar:
  "length (buffer q) = QUEUE_SIZE \<Longrightarrow> length (item_free_fn q) = QUEUE_SIZE \<Longrightarrow>
   queue_invar (queue_init q) \<and> queue_contents (queue_init q) = []"
  by (simp add: queue_init_def queue_invar_def queue_contents_def QUEUE_SIZE_def)

lemma queue_dequeue_get:
  "queue_dequeue q = map_option (\<lambda>(e, q'). (fst e, q')) (queue_get q)"
  by (simp add: queue_dequeue_def queue_get_def split: prod.splits)

text \<open>
  C3. In any interleaving of enqueues, dequeues and changes of the free function on an initialised queue,
  the items come out in the order they went in, none lost and none twice, each with the free function
  that was current when it was enqueued, and never more than 12 are held.
\<close>

theorem queue_fifo:
  fixes q0 :: "('a, 'f) work_queue"
  assumes "length (buffer q0) = QUEUE_SIZE" "length (item_free_fn q0) = QUEUE_SIZE"
    and "fifo_run free_fn set_free_fn queue_enqueue queue_get ops (queue_init q0) = (q', entered, left)"
  shows "entered = left @ queue_contents q' \<and> length (queue_contents q') \<le> QUEUE_SIZE"
  using wq.run_in_order [OF _ _ assms(3)] queue_init_invar [OF assms(1,2)] by blast

definition sample_queue :: "(nat, nat) work_queue" where
  "sample_queue = \<lparr>buffer = replicate 12 0, item_free_fn = replicate 12 None, head = 3, tail = 5, count = 7, free_fn = Some 1\<rparr>"

theorem queue_fifo_witness:
  "fst (snd (fifo_run free_fn set_free_fn queue_enqueue queue_get [Put 5, Tag (Some 2), Put 6, Get] (queue_init sample_queue)))
     = [(5, None), (6, Some 2)] \<and>
   snd (snd (fifo_run free_fn set_free_fn queue_enqueue queue_get [Put 5, Tag (Some 2), Put 6, Get] (queue_init sample_queue)))
     = [(5, None)]"
proof -
  obtain q' entered left where
    r: "fifo_run free_fn set_free_fn queue_enqueue queue_get [Put 5, Tag (Some 2), Put 6, Get] (queue_init sample_queue) = (q', entered, left)"
    by (rule prod_cases3)
  have "entered = left @ queue_contents q' \<and> length (queue_contents q') \<le> QUEUE_SIZE"
    by (rule queue_fifo [OF _ _ r]) (simp_all add: sample_queue_def QUEUE_SIZE_def)
  with r show ?thesis
    by (auto simp: sample_queue_def queue_init_def queue_enqueue_def queue_get_def pop_head_def
        set_free_fn_def QUEUE_SIZE_def)
qed

lemma queue_clear_loop_contents:
  "queue_invar q \<Longrightarrow>
   fst (queue_clear_loop q freed) = freed @ queue_contents q \<and>
   queue_invar (snd (queue_clear_loop q freed)) \<and> queue_contents (snd (queue_clear_loop q freed)) = []"
proof (induction q freed rule: queue_clear_loop.induct)
  case (1 q freed)
  show ?case
  proof (cases "count q > 0")
    case True
    obtain e q1 where p: "pop_head q = (e, q1)" by (cases "pop_head q")
    with True have g: "queue_get q = Some (e, q1)" by (simp add: queue_get_def)
    from 1 True p get_invar [OF "1.prems" g] get_contents [OF "1.prems" g] show ?thesis
      by (subst (1 2 3) queue_clear_loop.simps) simp
  next
    case False
    then show ?thesis using "1.prems"
      by (subst (1 2 3) queue_clear_loop.simps) (simp add: queue_contents_def)
  qed
qed

text \<open>
  Clearing the queue frees every item in it exactly once, oldest first, each with the free function
  captured at its enqueue, and leaves it empty.
\<close>

theorem queue_clear_frees_all:
  assumes "queue_invar q"
  shows "fst (queue_clear q) = queue_contents q \<and> queue_contents (snd (queue_clear q)) = [] \<and> queue_invar (snd (queue_clear q))"
  using queue_clear_loop_contents [OF assms, of "[]"] by (simp add: queue_clear_def)

definition sample_queue2 :: "(nat, nat) work_queue" where
  "sample_queue2 = \<lparr>buffer = [0..<12], item_free_fn = replicate 12 (Some 4), head = 11, tail = 1, count = 2, free_fn = None\<rparr>"

theorem queue_clear_frees_all_witness: "fst (queue_clear sample_queue2) = [(11, Some 4), (0, Some 4)]"
proof -
  have "queue_invar sample_queue2" by (simp add: sample_queue2_def queue_invar_def QUEUE_SIZE_def)
  then have "fst (queue_clear sample_queue2) = queue_contents sample_queue2"
    using queue_clear_frees_all by blast
  then show ?thesis
    by (simp add: sample_queue2_def queue_contents_def QUEUE_SIZE_def upt_rec)
qed

text \<open>
  A timed dequeue returns either the oldest item of the queue as it was at the moment of the return, or
  nothing, and then only because the wait timed out.
\<close>

lemma dequeue_timeout_result:
  assumes "queue_invar q" "\<forall>q1. Woken q1 \<in> set ws \<longrightarrow> queue_invar q1"
    and "queue_dequeue_timeout_ex q ws = Some (r, q')"
  shows "case r of
      None \<Rightarrow> Timed_Out q' \<in> set ws
    | Some e \<Rightarrow> \<exists>q1. (q1 = q \<or> Woken q1 \<in> set ws) \<and> queue_contents q1 = e # queue_contents q' \<and> queue_invar q'"
  using assms
proof (induction q ws rule: queue_dequeue_timeout_ex.induct)
  case (1 q ws)
  show ?case
  proof (cases "count q = 0")
    case True
    show ?thesis
    proof (cases ws)
      case Nil
      with True "1.prems"(3) show ?thesis by (simp add: queue_dequeue_timeout_ex.simps)
    next
      case (Cons w ws')
      show ?thesis
      proof (cases w)
        case (Timed_Out q1)
        with True Cons "1.prems"(3) show ?thesis by (auto simp: queue_dequeue_timeout_ex.simps)
      next
        case (Woken q1)
        with True Cons "1.prems" have "queue_dequeue_timeout_ex q1 ws' = Some (r, q')" "queue_invar q1"
          by (simp_all add: queue_dequeue_timeout_ex.simps [of q])
        with "1.IH" [OF True Cons Woken] "1.prems"(2) Cons Woken show ?thesis
          by (fastforce split: option.splits)
      qed
    qed
  next
    case False
    obtain e q1 where p: "pop_head q = (e, q1)" by (cases "pop_head q")
    with False have g: "queue_get q = Some (e, q1)" by (simp add: queue_get_def)
    from False p "1.prems"(3) have "r = Some e" "q' = q1"
      by (simp_all add: queue_dequeue_timeout_ex.simps [of q])
    with get_contents [OF "1.prems"(1) g] get_invar [OF "1.prems"(1) g] show ?thesis by auto
  qed
qed

theorem dequeue_timeout_result_witness:
  "\<exists>e q'. queue_dequeue_timeout_ex (queue_init sample_queue) [Woken sample_queue2] = Some (Some e, q') \<and> e = (11, Some 4)"
proof -
  have w: "queue_invar (queue_init sample_queue)" "queue_invar sample_queue2" "queue_contents (queue_init sample_queue) = []"
    by (simp_all add: sample_queue_def sample_queue2_def queue_init_def queue_invar_def queue_contents_def QUEUE_SIZE_def)
  obtain e q' where r: "queue_dequeue_timeout_ex (queue_init sample_queue) [Woken sample_queue2] = Some (Some e, q')"
    by (simp add: queue_dequeue_timeout_ex.simps queue_init_def sample_queue2_def sample_queue_def pop_head_def)
  have "\<exists>q1. (q1 = queue_init sample_queue \<or> Woken q1 \<in> set [Woken sample_queue2]) \<and> queue_contents q1 = e # queue_contents q' \<and> queue_invar q'"
    using dequeue_timeout_result [OF w(1) _ r] w(2) by simp
  then have "queue_contents sample_queue2 = e # queue_contents q'" using w(3) by auto
  then have "e = hd (queue_contents sample_queue2)" by simp
  also have "\<dots> = (11, Some 4)"
    by (simp add: sample_queue2_def queue_contents_def QUEUE_SIZE_def upt_conv_Cons)
  finally have "e = (11, Some 4)" .
  with r show ?thesis by blast
qed

text \<open>
  The deadline is the current time plus the time-out to the nanosecond; the nanoseconds are in the range that
  \<open>pthread_cond_timedwait\<close> accepts when the time-out is not negative.
\<close>

lemma deadline_exact:
  assumes "0 \<le> tv_nsec now" "tv_nsec now < 1000000000"
  shows "tv_sec (deadline now timeout_ms) * 1000000000 + tv_nsec (deadline now timeout_ms) =
      tv_sec now * 1000000000 + tv_nsec now + timeout_ms * 1000000 \<and>
    (0 \<le> timeout_ms \<longrightarrow> 0 \<le> tv_nsec (deadline now timeout_ms) \<and> tv_nsec (deadline now timeout_ms) < 1000000000)"
proof -
  obtain a b where ab: "timeout_ms sdiv 1000 = a" "timeout_ms smod 1000 = b" by blast
  have sum: "timeout_ms = 1000 * a + b" using sdiv_mult_smod_eq [of timeout_ms 1000] ab by simp
  have range: "0 \<le> timeout_ms \<Longrightarrow> 0 \<le> b \<and> b < 1000" using ab(2) by (auto simp: smod_mod_positive)
  show ?thesis
  proof (cases "0 \<le> timeout_ms")
    case True
    from range [OF this] assms sum show ?thesis unfolding deadline_def Let_def ab by simp
  next
    case False
    with sum show ?thesis unfolding deadline_def Let_def ab by simp
  qed
qed

end
