(* ===== verification/Binary_Float.thy ===== *)
theory Binary_Float
  imports Prelude
begin

text \<open>
  The floating-point arithmetic of C on the target, as far as the program uses it: a \<open>float\<close> has 24 and
  a \<open>double\<close> 53 significant bits, and every operation returns its exact result rounded to the nearest
  representable value, ties to the even one. A value is the rational it denotes. Infinities, NaN, the
  sign of zero and the limits of the exponent are not represented: the values the modelled code computes
  stay far inside the exponent range, and where the code tests for a zero divisor the model does, too.
\<close>

section \<open>Rounding\<close>

text \<open>The number of binary digits of a natural number.\<close>

fun bit_count :: "nat \<Rightarrow> nat" where
  "bit_count n = (if n = 0 then 0 else Suc (bit_count (n div 2)))"

declare bit_count.simps [simp del]

text \<open>The exponent of the leading binary digit of a positive rational.\<close>

definition floor_log2 :: "rat \<Rightarrow> int" where
  "floor_log2 x =
     (case quotient_of x of (a, b) \<Rightarrow>
        let e = int (bit_count (nat a)) - int (bit_count (nat b))
        in if 2 powi e \<le> x then e else e - 1)"

definition round_half_even :: "rat \<Rightarrow> int" where
  "round_half_even x =
     (let f = \<lfloor>x\<rfloor>; r = x - of_int f
      in if r < 1 / 2 then f else if r > 1 / 2 then f + 1 else if even f then f else f + 1)"

definition rnd :: "nat \<Rightarrow> rat \<Rightarrow> rat" where
  "rnd p x =
     (if x = 0 then 0
      else let e = floor_log2 \<bar>x\<bar> - (int p - 1)
           in of_int (round_half_even (x / 2 powi e)) * 2 powi e)"

definition f32 :: "rat \<Rightarrow> rat" where
  "f32 = rnd 24"

definition f64 :: "rat \<Rightarrow> rat" where
  "f64 = rnd 53"

text \<open>
  Where a result can leave the range of \<open>double\<close> (a division by zero, a power that overflows), it is one
  of these; \<open>double_of\<close> turns a magnitude of \<open>2^1024\<close> or more into infinity.
\<close>

datatype double_value = Finite rat | Infinite | Not_a_number

definition double_of :: "rat \<Rightarrow> double_value" where
  "double_of x = (if \<bar>x\<bar> \<ge> 2 ^ 1024 then Infinite else Finite (f64 x))"

section \<open>Facts\<close>

lemma bit_count_bounds: "0 < n \<Longrightarrow> 0 < bit_count n \<and> 2 ^ (bit_count n - 1) \<le> n \<and> n < 2 ^ bit_count n"
proof (induction n rule: less_induct)
  case (less n)
  show ?case
  proof (cases "n = 1")
    case True
    then show ?thesis by (simp add: bit_count.simps)
  next
    case False
    with less.prems have d: "n div 2 < n" "0 < n div 2" by auto
    from less.prems have b: "bit_count n = Suc (bit_count (n div 2))"
      by (simp add: bit_count.simps [of n])
    from less.IH [OF d] obtain k where k: "bit_count (n div 2) = Suc k" "2 ^ k \<le> n div 2" "n div 2 < 2 * 2 ^ k"
      by (cases "bit_count (n div 2)") auto
    then show ?thesis using b by auto
  qed
qed

lemma floor_log2_bounds:
  assumes "0 < x"
  shows "2 powi floor_log2 x \<le> x \<and> x < 2 * 2 powi floor_log2 x"
proof -
  obtain a b where q: "quotient_of x = (a, b)" by (cases "quotient_of x")
  then have b: "0 < b" and x: "x = of_int a / of_int b"
    by (auto dest: quotient_of_denom_pos quotient_of_div)
  with assms have a: "0 < a" by (simp add: zero_less_divide_iff)
  define m n where "m = bit_count (nat a)" and "n = bit_count (nat b)"
  have ab: "of_int a = (of_nat (nat a) :: rat)" "of_int b = (of_nat (nat b) :: rat)"
    using a b by simp_all
  have m: "0 < m" "(2::rat) ^ (m - 1) \<le> of_int a" "of_int a < (2::rat) ^ m"
    using bit_count_bounds [of "nat a"] a unfolding ab m_def
    by (simp_all flip: of_nat_power_le_of_nat_cancel_iff of_nat_less_of_nat_power_cancel_iff)
  have n: "0 < n" "(2::rat) ^ (n - 1) \<le> of_int b" "of_int b < (2::rat) ^ n"
    using bit_count_bounds [of "nat b"] b unfolding ab n_def
    by (simp_all flip: of_nat_power_le_of_nat_cancel_iff of_nat_less_of_nat_power_cancel_iff)
  let ?e = "int m - int n"
  have pe: "(2::rat) powi ?e = 2 ^ m / 2 ^ n" by (simp add: power_int_diff)
  have "x < 2 ^ m / 2 ^ (n - 1)"
    unfolding x using m n a b by (intro frac_less) auto
  also have "\<dots> = 2 * 2 powi ?e"
    using n(1) unfolding pe by (cases n) simp_all
  finally have hi: "x < 2 * 2 powi ?e" .
  have "2 ^ (m - 1) / 2 ^ n < x"
    unfolding x using m n a b by (intro frac_less2) auto
  moreover have "2 ^ (m - 1) / 2 ^ n = (2::rat) powi (?e - 1)"
    using m(1) by (cases m) (simp_all add: pe power_int_diff)
  ultimately have lo: "2 powi (?e - 1) \<le> x" by simp
  have half: "2 * (2::rat) powi (?e - 1) = 2 powi ?e" by (simp add: power_int_diff)
  show ?thesis
    using hi lo half by (simp add: floor_log2_def q m_def [symmetric] n_def [symmetric] Let_def)
qed

lemma round_half_even_error: "\<bar>of_int (round_half_even x) - x\<bar> \<le> 1 / 2"
proof -
  have "0 \<le> x - of_int \<lfloor>x\<rfloor>" "x - of_int \<lfloor>x\<rfloor> < 1" by linarith+
  then show ?thesis by (auto simp: round_half_even_def Let_def abs_le_iff)
qed

lemma round_half_even_int: "round_half_even (of_int n) = n"
  by (simp add: round_half_even_def)

lemma round_half_even_mono:
  assumes "x \<le> y"
  shows "round_half_even x \<le> round_half_even y"
proof -
  have f: "\<lfloor>x\<rfloor> \<le> \<lfloor>y\<rfloor>" using assms by (rule floor_mono)
  have b: "\<lfloor>z\<rfloor> \<le> round_half_even z \<and> round_half_even z \<le> \<lfloor>z\<rfloor> + 1" for z
    by (auto simp: round_half_even_def Let_def)
  show ?thesis
  proof (cases "\<lfloor>x\<rfloor> = \<lfloor>y\<rfloor>")
    case True
    with assms show ?thesis by (auto simp: round_half_even_def Let_def)
  next
    case False
    with f b [of x] b [of y] show ?thesis by linarith
  qed
qed

text \<open>The relative error of one operation is at most half a unit in the last place.\<close>

lemma rnd_error:
  assumes "1 \<le> p"
  shows "\<bar>rnd p x - x\<bar> \<le> \<bar>x\<bar> / 2 ^ p"
proof (cases "x = 0")
  case True
  then show ?thesis by (simp add: rnd_def)
next
  case False
  define l where "l = floor_log2 \<bar>x\<bar>"
  define u where "u = (2::rat) powi (l - (int p - 1))"
  have u: "0 < u" by (simp add: u_def)
  have r: "rnd p x = of_int (round_half_even (x / u)) * u"
    using False by (simp add: rnd_def l_def u_def Let_def)
  have "\<bar>rnd p x - x\<bar> = \<bar>of_int (round_half_even (x / u)) - x / u\<bar> * u"
  proof -
    have "rnd p x - x = (of_int (round_half_even (x / u)) - x / u) * u"
      using u by (simp add: r left_diff_distrib)
    then show ?thesis using u by (simp add: abs_mult)
  qed
  also have "\<dots> \<le> 1 / 2 * u"
    using round_half_even_error u by (intro mult_right_mono) auto
  also have "\<dots> = 2 powi l / 2 ^ p"
    using assms by (simp add: u_def power_int_diff)
  also have "\<dots> \<le> \<bar>x\<bar> / 2 ^ p"
    using floor_log2_bounds [of "\<bar>x\<bar>"] False by (intro divide_right_mono) (simp_all add: l_def)
  finally show ?thesis .
qed

text \<open>Values with at most \<open>p\<close> significant bits are not changed: small integers, for instance.\<close>

lemma power2_int_less_iff: "(2::rat) powi a < 2 powi b \<longleftrightarrow> a < b"
proof
  show "a < b \<Longrightarrow> (2::rat) powi a < 2 powi b"
    by (rule power_int_strict_increasing) simp_all
  show "(2::rat) powi a < 2 powi b \<Longrightarrow> a < b"
    using power_int_increasing [of b a "2::rat"] by (meson leD leI one_le_numeral)
qed

lemma floor_log2_unique:
  assumes "2 powi e \<le> x" "x < 2 * 2 powi e" "0 < x"
  shows "floor_log2 x = e"
proof -
  have s: "2 * (2::rat) powi k = 2 powi (k + 1)" for k by (simp add: power_int_add)
  from floor_log2_bounds [OF assms(3)] assms(1,2)
  have "(2::rat) powi floor_log2 x < 2 powi (e + 1)" "(2::rat) powi e < 2 powi (floor_log2 x + 1)"
    unfolding s by linarith+
  then show ?thesis by (simp add: power2_int_less_iff)
qed

lemma rnd_exact:
  assumes "\<bar>m\<bar> < 2 ^ p"
  shows "rnd p (of_int m * 2 powi k) = of_int m * 2 powi k"
proof (cases "m = 0")
  case True
  then show ?thesis by (simp add: rnd_def)
next
  case False
  define x where "x = of_int m * (2::rat) powi k"
  have x: "x \<noteq> 0" "\<bar>x\<bar> = of_int \<bar>m\<bar> * 2 powi k"
    using False by (simp_all add: x_def abs_mult)
  define l where "l = floor_log2 \<bar>x\<bar>"
  have "2 powi l \<le> \<bar>x\<bar>" using floor_log2_bounds [of "\<bar>x\<bar>"] x(1) by (simp add: l_def)
  also have "\<dots> < 2 ^ p * 2 powi k"
  proof -
    have "of_int \<bar>m\<bar> < (of_int (2 ^ p) :: rat)" using assms by (simp only: of_int_less_iff)
    then show ?thesis unfolding x(2) by (intro mult_strict_right_mono) simp_all
  qed
  also have "\<dots> = 2 powi (int p + k)" by (simp add: power_int_add)
  finally have "l < int p + k" by (simp add: power2_int_less_iff)
  then obtain d where d: "k - (l - (int p - 1)) = int d" by (metis diff_ge_0_iff_ge nat_0_le zless_imp_add1_zle add.commute diff_diff_eq2 le_diff_eq nonneg_int_cases add_diff_eq)
  let ?e = "l - (int p - 1)"
  have "x / 2 powi ?e = of_int m * 2 powi (k - ?e)"
    by (simp add: x_def power_int_diff)
  also have "\<dots> = of_int (m * 2 ^ d)" by (simp add: d)
  finally have q: "x / 2 powi ?e = of_int (m * 2 ^ d)" .
  have "rnd p x = of_int (round_half_even (x / 2 powi ?e)) * 2 powi ?e"
    using x(1) by (simp add: rnd_def l_def Let_def)
  also have "\<dots> = x / 2 powi ?e * 2 powi ?e"
    unfolding q round_half_even_int by simp
  also have "\<dots> = x" by simp
  finally show ?thesis by (simp add: x_def)
qed

lemma rnd_int: "\<bar>m\<bar> < 2 ^ p \<Longrightarrow> rnd p (of_int m) = of_int m"
  using rnd_exact [of m p 0] by simp

lemma rnd_zero [simp]: "rnd p 0 = 0"
  by (simp add: rnd_def)

lemma rnd_nonneg:
  assumes "0 \<le> x"
  shows "0 \<le> rnd p x"
proof (cases "x = 0")
  case False
  let ?e = "floor_log2 \<bar>x\<bar> - (int p - 1)"
  have "round_half_even (of_int 0) \<le> round_half_even (x / 2 powi ?e)"
    using assms by (intro round_half_even_mono) simp
  then have "0 \<le> round_half_even (x / 2 powi ?e)" by (simp only: round_half_even_int)
  then show ?thesis using False by (simp add: rnd_def Let_def)
qed simp

text \<open>Scaling by a power of two is exact.\<close>

lemma rnd_scale: "rnd p (x * 2 powi k) = rnd p x * 2 powi k"
proof (cases "x = 0")
  case False
  have ax: "\<bar>x * 2 powi k\<bar> = \<bar>x\<bar> * 2 powi k" by (simp add: abs_mult)
  have "floor_log2 (\<bar>x\<bar> * 2 powi k) = floor_log2 \<bar>x\<bar> + k"
    using floor_log2_bounds [of "\<bar>x\<bar>"] False by (intro floor_log2_unique) (simp_all add: power_int_add)
  then have e: "floor_log2 \<bar>x * 2 powi k\<bar> - (int p - 1) = (floor_log2 \<bar>x\<bar> - (int p - 1)) + k"
    by (simp add: ax)
  have q: "x * 2 powi k / 2 powi (a + k) = x / 2 powi a" for a
    by (simp add: power_int_add)
  show ?thesis
    using False unfolding rnd_def Let_def e q by (simp add: power_int_add)
qed simp

text \<open>Rounding preserves the order.\<close>

lemma rnd_pos_mono:
  assumes "0 < x" "x \<le> y" "1 \<le> p"
  shows "rnd p x \<le> rnd p y"
proof -
  have y: "0 < y" using assms by simp
  define l1 l2 where "l1 = floor_log2 x" and "l2 = floor_log2 y"
  have b1: "2 powi l1 \<le> x" "x < 2 powi (l1 + 1)" and b2: "2 powi l2 \<le> y"
    using floor_log2_bounds [OF assms(1)] floor_log2_bounds [OF y] by (simp_all add: l1_def l2_def power_int_add)
  have rx: "rnd p x = of_int (round_half_even (x / 2 powi (l1 - (int p - 1)))) * 2 powi (l1 - (int p - 1))"
    and ry: "rnd p y = of_int (round_half_even (y / 2 powi (l2 - (int p - 1)))) * 2 powi (l2 - (int p - 1))"
    using assms(1) y by (simp_all add: rnd_def Let_def l1_def l2_def)
  show ?thesis
  proof (cases "l1 = l2")
    case True
    have "round_half_even (x / 2 powi (l1 - (int p - 1))) \<le> round_half_even (y / 2 powi (l1 - (int p - 1)))"
      using assms(2) by (intro round_half_even_mono divide_right_mono) simp_all
    then show ?thesis unfolding rx ry True by (intro mult_right_mono) simp_all
  next
    case False
    have "l1 < l2"
    proof -
      from b1(1) assms(2) have "(2::rat) powi l1 < 2 powi (l2 + 1)"
        using floor_log2_bounds [OF y] by (simp add: l2_def power_int_add)
      with False show ?thesis by (simp add: power2_int_less_iff)
    qed
    let ?e1 = "l1 - (int p - 1)" and ?e2 = "l2 - (int p - 1)"
    have "x / 2 powi ?e1 \<le> 2 powi (l1 + 1) / 2 powi ?e1"
      using b1(2) by (intro divide_right_mono) simp_all
    also have "\<dots> = 2 powi int p" by (simp flip: power_int_diff)
    finally have "x / 2 powi ?e1 \<le> of_int (2 ^ p)" by simp
    then have "round_half_even (x / 2 powi ?e1) \<le> 2 ^ p"
      using round_half_even_mono round_half_even_int by metis
    then have "rnd p x \<le> of_int (2 ^ p) * 2 powi ?e1"
      unfolding rx by (intro mult_right_mono) (simp_all only: of_int_le_iff, simp)
    also have "\<dots> = 2 powi (l1 + 1)" by (simp flip: power_int_of_nat power_int_add)
    also have "\<dots> \<le> 2 powi l2" using \<open>l1 < l2\<close> by (intro power_int_increasing) simp_all
    also have "\<dots> \<le> rnd p y"
    proof -
      have "(2::rat) powi l2 / 2 powi ?e2 = of_int (2 ^ (p - 1))"
        using assms(3) by (simp add: of_nat_diff flip: power_int_diff power_int_of_nat)
      moreover have "2 powi l2 / 2 powi ?e2 \<le> y / 2 powi ?e2"
        using b2 by (intro divide_right_mono) simp_all
      ultimately have "2 ^ (p - 1) \<le> round_half_even (y / 2 powi ?e2)"
        using round_half_even_mono round_half_even_int by metis
      then have "of_int (2 ^ (p - 1)) * 2 powi ?e2 \<le> rnd p y"
        unfolding ry by (intro mult_right_mono) (simp_all only: of_int_le_iff, simp)
      moreover have "of_int (2 ^ (p - 1)) * (2::rat) powi ?e2 = 2 powi l2"
        using assms(3) by (simp add: of_nat_diff flip: power_int_of_nat power_int_add)
      ultimately show ?thesis by simp
    qed
    finally show ?thesis .
  qed
qed

section \<open>Accumulated error of a computation on non-negative doubles\<close>

text \<open>\<open>rounded n x v\<close>: \<open>x\<close> came from the exact value \<open>v\<close> by at most \<open>n\<close> roundings to \<open>double\<close>.\<close>

definition ulp64 :: rat where
  "ulp64 = 1 / 2 ^ 53"

definition rounded :: "nat \<Rightarrow> rat \<Rightarrow> rat \<Rightarrow> bool" where
  "rounded n x v \<longleftrightarrow> 0 \<le> v \<and> v * (1 - ulp64) ^ n \<le> x \<and> x \<le> v * (1 + ulp64) ^ n"

lemma ulp64_bounds: "0 < ulp64" "ulp64 < 1"
  by (simp_all add: ulp64_def)

lemma rounded_refl: "0 \<le> v \<Longrightarrow> rounded 0 v v"
  by (simp add: rounded_def)

lemma rounded_nonneg: "rounded n x v \<Longrightarrow> 0 \<le> x"
proof -
  assume r: "rounded n x v"
  then have "0 \<le> v * (1 - ulp64) ^ n"
    using ulp64_bounds by (simp add: rounded_def)
  with r show ?thesis by (simp add: rounded_def)
qed

lemma rounded_f64:
  assumes "rounded n x v"
  shows "rounded (Suc n) (f64 x) v"
proof -
  have x: "0 \<le> x" using assms by (rule rounded_nonneg)
  have e: "\<bar>f64 x - x\<bar> \<le> x * ulp64"
    using rnd_error [of 53 x] x by (simp add: f64_def ulp64_def)
  then have "x * (1 - ulp64) \<le> f64 x" "f64 x \<le> x * (1 + ulp64)"
    by (simp_all add: abs_le_iff algebra_simps)
  moreover have "v * (1 - ulp64) ^ n * (1 - ulp64) \<le> x * (1 - ulp64)"
    "x * (1 + ulp64) \<le> v * (1 + ulp64) ^ n * (1 + ulp64)"
    using assms ulp64_bounds by (auto simp: rounded_def intro!: mult_right_mono)
  ultimately have "v * (1 - ulp64) ^ n * (1 - ulp64) \<le> f64 x" "f64 x \<le> v * (1 + ulp64) ^ n * (1 + ulp64)"
    by (blast intro: order_trans)+
  then show ?thesis
    using assms by (simp add: rounded_def algebra_simps)
qed

lemma rounded_mono:
  assumes "rounded n x v" "n \<le> k"
  shows "rounded k x v"
proof -
  have "(1 - ulp64) ^ k \<le> (1 - ulp64) ^ n"
    using assms(2) ulp64_bounds by (intro power_decreasing) auto
  moreover have "(1 + ulp64) ^ n \<le> (1 + ulp64) ^ k"
    using assms(2) ulp64_bounds by (intro power_increasing) auto
  moreover have v: "0 \<le> v" using assms(1) by (simp add: rounded_def)
  ultimately have "v * (1 - ulp64) ^ k \<le> v * (1 - ulp64) ^ n" "v * (1 + ulp64) ^ n \<le> v * (1 + ulp64) ^ k"
    by (auto intro: mult_left_mono)
  with assms(1) show ?thesis by (auto simp: rounded_def)
qed

lemma rounded_add: "rounded n x v \<Longrightarrow> rounded n y w \<Longrightarrow> rounded n (x + y) (v + w)"
  by (auto simp: rounded_def distrib_right add_mono)

lemma rounded_scale: "rounded n x v \<Longrightarrow> 0 \<le> c \<Longrightarrow> rounded n (x * c) (v * c)"
  by (auto simp: rounded_def mult.assoc mult.left_commute [of _ c] mult.commute [of _ c] mult_left_mono)

text \<open>Integers with at most 53 (24) bits are doubles (floats), and a rounding at most doubles a value.\<close>

lemma f64_numeral [simp]: "(numeral n :: int) < 2 ^ 53 \<Longrightarrow> f64 (numeral n) = numeral n"
  using rnd_int [of "numeral n" 53] by (simp add: f64_def)

lemma f32_numeral [simp]: "(numeral n :: int) < 2 ^ 24 \<Longrightarrow> f32 (numeral n) = numeral n"
  using rnd_int [of "numeral n" 24] by (simp add: f32_def)

lemma f64_small [simp]: "f64 0 = 0" "f64 1 = 1" and f32_zero_one [simp]: "f32 0 = 0" "f32 1 = 1"
  using rnd_int [of 1 53] rnd_int [of 1 24] by (simp_all add: f64_def f32_def)

lemma rnd_at_most: "1 \<le> p \<Longrightarrow> \<bar>rnd p x\<bar> \<le> 2 * \<bar>x\<bar>"
proof -
  assume p: "1 \<le> p"
  have "\<bar>x\<bar> / 2 ^ p \<le> \<bar>x\<bar> / 1" by (rule divide_left_mono) simp_all
  then have "\<bar>rnd p x - x\<bar> \<le> \<bar>x\<bar>" using rnd_error [OF p, of x] by simp
  then show ?thesis by linarith
qed

lemma f64_at_most: "\<bar>f64 x\<bar> \<le> 2 * \<bar>x\<bar>" and f32_at_most: "\<bar>f32 x\<bar> \<le> 2 * \<bar>x\<bar>"
  by (simp_all add: f64_def f32_def rnd_at_most)

lemma f64_nonneg: "0 \<le> x \<Longrightarrow> 0 \<le> f64 x" and f32_nonneg: "0 \<le> x \<Longrightarrow> 0 \<le> f32 x"
  by (simp_all add: f64_def f32_def rnd_nonneg)

section \<open>Signs and order\<close>

lemma floor_minus: "\<lfloor>- x\<rfloor> = (if x = of_int \<lfloor>x\<rfloor> then - \<lfloor>x\<rfloor> else - \<lfloor>x\<rfloor> - 1)" for x :: rat
proof (cases "x = of_int \<lfloor>x\<rfloor>")
  case True
  then show ?thesis by (metis floor_of_int of_int_minus)
next
  case False
  then have "of_int \<lfloor>x\<rfloor> < x" "x < of_int \<lfloor>x\<rfloor> + 1" by linarith+
  then have "\<lfloor>- x\<rfloor> = - \<lfloor>x\<rfloor> - 1" by linarith
  then show ?thesis using False by simp
qed

lemma round_half_even_minus: "round_half_even (- x) = - round_half_even x"
proof (cases "x = of_int \<lfloor>x\<rfloor>")
  case True
  then show ?thesis by (metis of_int_minus round_half_even_int)
next
  case False
  then have "\<lfloor>- x\<rfloor> = - \<lfloor>x\<rfloor> - 1" using floor_minus [of x] by simp
  then show ?thesis by (auto simp: round_half_even_def Let_def)
qed

lemma rnd_minus: "rnd p (- x) = - rnd p x"
  by (simp add: rnd_def Let_def round_half_even_minus)

lemma f32_minus: "f32 (- x) = - f32 x"
  by (simp add: f32_def rnd_minus)

lemma rnd_mono: "x \<le> y \<Longrightarrow> 1 \<le> p \<Longrightarrow> rnd p x \<le> rnd p y"
proof -
  assume p: "1 \<le> p" and xy: "x \<le> y"
  have pos: "rnd p a \<le> rnd p b" if "0 \<le> a" "a \<le> b" for a b
    using that p rnd_pos_mono [of a b p] rnd_nonneg [of b p] by (cases "a = 0") auto
  consider "0 \<le> x" | "x < 0" "0 \<le> y" | "y < 0" by linarith
  then show "rnd p x \<le> rnd p y"
  proof cases
    case 2
    then have "0 \<le> rnd p (- x)" "0 \<le> rnd p y" using p by (simp_all add: rnd_nonneg)
    then show ?thesis by (simp add: rnd_minus)
  next
    case 3
    then have "rnd p (- y) \<le> rnd p (- x)" using xy by (intro pos) simp_all
    then show ?thesis by (simp add: rnd_minus)
  qed (use xy pos in simp)
qed

lemma f32_mono: "x \<le> y \<Longrightarrow> f32 x \<le> f32 y" and f64_mono: "x \<le> y \<Longrightarrow> f64 x \<le> f64 y"
  by (simp_all add: f32_def f64_def rnd_mono)

end
