(* ===== verification/Stratum_Utils.thy ===== *)
theory Stratum_Utils
  imports Binary_Float
begin

text \<open>
  \<open>components/stratum/utils.c\<close>: hexadecimal text, the byte orders of the mining protocols, SHA-256 calls,
  256-bit numbers as doubles and URL decoding. SHA-256 itself is mbedTLS, a library outside the
  repository: it is a parameter of the definitions.
\<close>

section \<open>Hexadecimal text\<close>

text \<open>
  C strings are lists of non-zero bytes here; the terminator is the end of the list. The two
  lookup tables: the digits, and the value of a character, 0 for one that is no digit.
\<close>

definition hex_table :: bytes where
  "hex_table = [48, 49, 50, 51, 52, 53, 54, 55, 56, 57, 97, 98, 99, 100, 101, 102]"

definition hex_val_table :: "u8 \<Rightarrow> u8" where
  "hex_val_table c =
     (if 48 \<le> c \<and> c \<le> 57 then c - 48
      else if 97 \<le> c \<and> c \<le> 102 then c - 97 + 10
      else if 65 \<le> c \<and> c \<le> 70 then c - 65 + 10
      else 0)"

text \<open>
  \<open>bin2hex\<close>: the result is the number of characters written and the text, and the destination is left
  alone (\<open>None\<close>) when it has no room for the text and its terminator.
\<close>

definition hex_of_byte :: "u8 \<Rightarrow> bytes" where
  "hex_of_byte b = [hex_table ! unat (drop_bit 4 b), hex_table ! unat (b AND 0x0F)]"

definition bin2hex :: "bytes \<Rightarrow> nat \<Rightarrow> nat \<times> bytes option" where
  "bin2hex buf hexlen =
     (if hexlen \<le> length buf * 2 then (0, None)
      else (2 * length buf, Some (concat (map hex_of_byte buf))))"

text \<open>
  \<open>hex2bin\<close> writes at most \<open>bin_len\<close> bytes and returns how many: here, the bytes written. An odd last
  digit is the high half of a byte.
\<close>

fun hex2bin :: "bytes \<Rightarrow> nat \<Rightarrow> bytes" where
  "hex2bin hex 0 = []"
| "hex2bin [] (Suc n) = []"
| "hex2bin [a] (Suc n) = [push_bit 4 (hex_val_table a)]"
| "hex2bin (a # b # hex) (Suc n) =
     (push_bit 4 (hex_val_table a) OR hex_val_table b) # hex2bin hex n"

section \<open>SHA-256\<close>

text \<open>
  What the code uses of mbedTLS: the one-shot hash, the context state after the first block of 64
  bytes, and a hash resumed from such a state with a number of bytes already counted.
\<close>

record sha_lib =
  mbedtls_sha256 :: "bytes \<Rightarrow> bytes"
  sha_state_after :: "bytes \<Rightarrow> bytes"
  sha_resume_from :: "bytes \<Rightarrow> nat \<Rightarrow> bytes \<Rightarrow> bytes"

definition double_sha256_bin :: "sha_lib \<Rightarrow> bytes \<Rightarrow> bytes" where
  "double_sha256_bin L data = mbedtls_sha256 L (mbedtls_sha256 L data)"

text \<open>\<open>mbedtls_sha256_update(&ctx, data, 64)\<close>: always the first 64 bytes.\<close>

definition midstate_sha256_bin :: "sha_lib \<Rightarrow> bytes \<Rightarrow> bytes" where
  "midstate_sha256_bin L data = sha_state_after L (take 64 data)"

definition sha256_resume_bin :: "sha_lib \<Rightarrow> bytes \<Rightarrow> bytes \<Rightarrow> bytes" where
  "sha256_resume_bin L midstate data = sha_resume_from L midstate 64 data"

text \<open>
  The documented behaviour of SHA-256 (FIPS 180-4) that the code relies on: digests and states have 32
  bytes, and a hash resumed from the state after the first block is the hash of the whole message.
\<close>

definition sha_laws :: "sha_lib \<Rightarrow> bool" where
  "sha_laws L \<longleftrightarrow>
     (\<forall>m. length (mbedtls_sha256 L m) = 32) \<and>
     (\<forall>b. length (sha_state_after L b) = 32) \<and>
     (\<forall>b m. length b = 64 \<longrightarrow> sha_resume_from L (sha_state_after L b) 64 m = mbedtls_sha256 L (b @ m))"

section \<open>Byte orders\<close>

text \<open>
  \<open>reverse_32bit_words\<close> reads eight 32-bit words and writes them in reverse order; the bytes inside a
  word keep their order. \<open>reverse_endianness_per_word\<close> swaps the bytes inside each word.
\<close>

definition word_at :: "nat \<Rightarrow> bytes \<Rightarrow> bytes" where
  "word_at i data = slice (4 * i) 4 data"

definition reverse_32bit_words :: "bytes \<Rightarrow> bytes" where
  "reverse_32bit_words src =
     word_at 7 src @ word_at 6 src @ word_at 5 src @ word_at 4 src @
     word_at 3 src @ word_at 2 src @ word_at 1 src @ word_at 0 src"

definition reverse_endianness_per_word :: "bytes \<Rightarrow> bytes" where
  "reverse_endianness_per_word data =
     rev (word_at 0 data) @ rev (word_at 1 data) @ rev (word_at 2 data) @ rev (word_at 3 data) @
     rev (word_at 4 data) @ rev (word_at 5 data) @ rev (word_at 6 data) @ rev (word_at 7 data)"

section \<open>256-bit numbers as doubles\<close>

definition truediffone :: rat where
  "truediffone = 26959535291011309493156476344723991336010898738574164086137773096960"

text \<open>The four 64-bit words are converted (rounding) and added from the top (rounding).\<close>

definition le64_double :: "bytes \<Rightarrow> rat" where
  "le64_double bs = f64 (of_nat (unat (le_word bs :: u64)))"

definition le256todouble :: "bytes \<Rightarrow> rat" where
  "le256todouble target =
     (let dcut64 = f64 (le64_double (slice 24 8 target) * 6277101735386680763835789423207666416102355444464034512896);
          dcut64 = f64 (dcut64 + f64 (le64_double (slice 16 8 target) * 340282366920938463463374607431768211456));
          dcut64 = f64 (dcut64 + f64 (le64_double (slice 8 8 target) * 18446744073709551616))
      in f64 (dcut64 + le64_double (slice 0 8 target)))"

text \<open>
  \<open>networkDifficulty\<close>: the target is \<open>mantissa * 256^(exponent - 3)\<close>; \<open>exponent\<close> is promoted to \<open>int\<close>
  before the subtraction, so the power may be negative, and it is infinite from \<open>256^128\<close> on. Nothing
  in the code keeps these cases out, so they are written out: a zero mantissa gives infinity, a target
  too large for a \<open>double\<close> gives 0, and zero times infinity is not a number.
\<close>

definition networkDifficulty :: "u32 \<Rightarrow> double_value" where
  "networkDifficulty nBits =
     (let mantissa = of_nat (unat (nBits AND 0x007fffff)) :: rat;
          exponent = (ucast (drop_bit 24 nBits AND 0xff) :: u8);
          power_value = double_of (256 powi (int (unat exponent) - 3));
          target = (case power_value of
                      Finite w \<Rightarrow> double_of (mantissa * w)
                    | _ \<Rightarrow> if mantissa = 0 then Not_a_number else Infinite)
      in case target of
           Finite t \<Rightarrow> if t = 0 then Infinite else Finite (f64 (f64 (2 ^ 208 * 65535) / t))
         | Infinite \<Rightarrow> Finite 0
         | Not_a_number \<Rightarrow> Not_a_number)"

text \<open>\<open>hashCounterToGhs\<close>: \<open>float\<close> arithmetic, with the division by \<open>1000000.0\<close> done in \<open>double\<close>.\<close>

definition hashCounterToGhs :: "u64 \<Rightarrow> u32 \<Rightarrow> rat" where
  "hashCounterToGhs duration_us counter =
     (if duration_us = 0 then 0
      else let seconds = f32 (f64 (f64 (of_nat (unat duration_us)) / 1000000));
               hashrate = f32 (f32 (f32 (of_nat (unat counter)) / seconds) * 4294967296)
           in f32 (hashrate / f32 1000000000))"

section \<open>URL decoding\<close>

text \<open>
  \<open>url_decode\<close> on the bytes of the source string; a percent sign is decoded when two more characters
  follow it, whatever they are.
\<close>

fun url_decode :: "bytes \<Rightarrow> bytes" where
  "url_decode [] = []"
| "url_decode (c # a # b # rest) =
     (if c = 37 then (push_bit 4 (hex_val_table a) OR hex_val_table b) # url_decode rest
      else (if c = 43 then 32 else c) # url_decode (a # b # rest))"
| "url_decode (c # src) = (if c = 43 then 32 else c) # url_decode src"

section \<open>Hexadecimal text and back\<close>

lemma hex_digit_value: "n < 16 \<Longrightarrow> hex_val_table (hex_table ! n) = of_nat n"
proof -
  have "list_all (\<lambda>n. hex_val_table (hex_table ! n) = of_nat n) [0..<16]" by code_simp
  then show "n < 16 \<Longrightarrow> hex_val_table (hex_table ! n) = of_nat n" by (simp add: list_all_iff)
qed

lemma nibbles:
  fixes b :: u8
  shows "push_bit 4 (drop_bit 4 b) OR (b AND 0x0F) = b" "unat (drop_bit 4 b) < 16" "unat (b AND 0x0F) < 16"
proof -
  have "(0x0F :: u8) = mask 4" by (simp add: mask_eq_exp_minus_1)
  then have m: "bit (0x0F :: u8) i \<longleftrightarrow> i < 4" for i by (simp only: bit_mask_iff) auto
  show "push_bit 4 (drop_bit 4 b) OR (b AND 0x0F) = b"
  proof (rule word_eq_by_bits)
    fix i assume "i < LENGTH(8)"
    then show "bit (push_bit 4 (drop_bit 4 b) OR (b AND 0x0F)) i \<longleftrightarrow> bit b i"
      using m [of i] by (cases "i < 4") (simp_all add: bit_or_iff bit_push_bit_iff bit_drop_bit_eq bit_and_iff)
  qed
  show "unat (drop_bit 4 b) < 16"
    using unat_u8_less [of b] by (simp add: drop_bit_eq_div unat_div less_mult_imp_div_less)
  have "unat (b AND 0x0F) \<le> unat (0x0F :: u8)"
    using word_and_le1 [of b "0x0F"] by (simp only: word_le_nat_alt)
  then show "unat (b AND 0x0F) < 16" by simp
qed

lemma hex2bin_hex_of_byte: "hex2bin (hex_of_byte b @ hex) (Suc n) = b # hex2bin hex n"
  by (simp add: hex_of_byte_def hex_digit_value nibbles)

lemma hex2bin_concat: "hex2bin (concat (map hex_of_byte bs)) n = take n bs"
proof (induction bs arbitrary: n)
  case Nil
  then show ?case by (cases n) simp_all
next
  case (Cons b bs)
  then show ?case by (cases n) (simp_all add: hex2bin_hex_of_byte)
qed

text \<open>
  Reading back what \<open>bin2hex\<close> wrote gives the bytes, for any buffer large enough; a buffer that is too
  small is left alone.
\<close>

theorem hex_round_trip:
  "(length buf * 2 < hexlen \<longrightarrow>
      (\<exists>hex. bin2hex buf hexlen = (2 * length buf, Some hex) \<and> length hex = 2 * length buf \<and> hex2bin hex (length buf) = buf)) \<and>
   (hexlen \<le> length buf * 2 \<longrightarrow> bin2hex buf hexlen = (0, None))"
proof -
  have "length (concat (map hex_of_byte buf)) = 2 * length buf"
    by (induction buf) (simp_all add: hex_of_byte_def)
  then show ?thesis by (simp add: bin2hex_def hex2bin_concat)
qed

theorem hex_round_trip_witness:
  "\<exists>hex. bin2hex [0xDE, 0xAD] 5 = (4, Some hex) \<and> hex2bin hex 2 = [0xDE, 0xAD]"
  using hex_round_trip [of "[0xDE, 0xAD]" 5] by (auto simp: numeral_2_eq_2)

lemma length_hex2bin: "length (hex2bin hex n) \<le> n \<and> length (hex2bin hex n) = min n ((length hex + 1) div 2)"
  by (induction hex n rule: hex2bin.induct) auto

section \<open>Byte orders\<close>

lemma split_words:
  assumes "length d = 32"
  shows "d = word_at 0 d @ word_at 1 d @ word_at 2 d @ word_at 3 d @ word_at 4 d @ word_at 5 d @ word_at 6 d @ word_at 7 d"
proof -
  have step: "drop n d = slice n 4 d @ drop (n + 4) d" for n
    by (simp add: slice_def) (metis append_take_drop_id drop_drop add.commute)
  have "d = drop 0 d" by simp
  also have "\<dots> = word_at 0 d @ word_at 1 d @ word_at 2 d @ word_at 3 d @ word_at 4 d @ word_at 5 d @ word_at 6 d @ word_at 7 d @ drop 32 d"
    unfolding word_at_def by (simp add: step [of 0] step [of 4] step [of 8] step [of 12] step [of 16] step [of 20] step [of 24] step [of 28] del: drop0)
  finally show ?thesis using assms by simp
qed

lemma word_at_length: "length d = 32 \<Longrightarrow> i < 8 \<Longrightarrow> length (word_at i d) = 4"
  by (simp add: word_at_def)

lemma length_reverse_32bit_words [simp]: "length d = 32 \<Longrightarrow> length (reverse_32bit_words d) = 32"
  by (simp add: reverse_32bit_words_def word_at_length)

lemma length_reverse_endianness [simp]: "length d = 32 \<Longrightarrow> length (reverse_endianness_per_word d) = 32"
  by (simp add: reverse_endianness_per_word_def word_at_length)

lemma word_at_append:
  assumes "length w0 = 4" "length w1 = 4" "length w2 = 4" "length w3 = 4" "length w4 = 4" "length w5 = 4" "length w6 = 4" "length w7 = 4"
  shows "word_at 0 (w0 @ w1 @ w2 @ w3 @ w4 @ w5 @ w6 @ w7) = w0" "word_at 1 (w0 @ w1 @ w2 @ w3 @ w4 @ w5 @ w6 @ w7) = w1"
    "word_at 2 (w0 @ w1 @ w2 @ w3 @ w4 @ w5 @ w6 @ w7) = w2" "word_at 3 (w0 @ w1 @ w2 @ w3 @ w4 @ w5 @ w6 @ w7) = w3"
    "word_at 4 (w0 @ w1 @ w2 @ w3 @ w4 @ w5 @ w6 @ w7) = w4" "word_at 5 (w0 @ w1 @ w2 @ w3 @ w4 @ w5 @ w6 @ w7) = w5"
    "word_at 6 (w0 @ w1 @ w2 @ w3 @ w4 @ w5 @ w6 @ w7) = w6" "word_at 7 (w0 @ w1 @ w2 @ w3 @ w4 @ w5 @ w6 @ w7) = w7"
  using assms by (simp_all add: word_at_def slice_def)

lemma reverse_32bit_words_twice:
  assumes "length d = 32"
  shows "reverse_32bit_words (reverse_32bit_words d) = d"
proof -
  have "reverse_32bit_words (reverse_32bit_words d) =
      word_at 0 d @ word_at 1 d @ word_at 2 d @ word_at 3 d @ word_at 4 d @ word_at 5 d @ word_at 6 d @ word_at 7 d"
    unfolding reverse_32bit_words_def by (simp add: word_at_append word_at_append(2) [unfolded One_nat_def] word_at_length assms)
  then show ?thesis using split_words [OF assms] by simp
qed

lemma reverse_words_and_bytes:
  assumes "length d = 32"
  shows "reverse_32bit_words (reverse_endianness_per_word d) = rev d"
proof -
  have "reverse_32bit_words (reverse_endianness_per_word d) =
      rev (word_at 0 d @ word_at 1 d @ word_at 2 d @ word_at 3 d @ word_at 4 d @ word_at 5 d @ word_at 6 d @ word_at 7 d)"
    unfolding reverse_32bit_words_def reverse_endianness_per_word_def
    by (simp add: word_at_append word_at_append(2) [unfolded One_nat_def] word_at_length assms)
  then show ?thesis by (simp only: split_words [OF assms, symmetric])
qed

section \<open>URL decoding never grows the text\<close>

text \<open>
  The decoded text is never longer than the source, so the in-place use of the buffer by the callers
  is safe, and a text without percent and plus signs is not changed.
\<close>

lemma url_decode_bounded:
  "length (url_decode s) \<le> length s \<and> (37 \<notin> set s \<and> 43 \<notin> set s \<longrightarrow> url_decode s = s)"
  by (induction s rule: url_decode.induct) auto

theorem url_decode_bounded_witness: "url_decode [97, 98, 99, 100] = [97, 98, 99, 100]"
  using url_decode_bounded [of "[97, 98, 99, 100]"] by simp

section \<open>The value of a 256-bit hash as a double\<close>

text \<open>The number that 32 little-endian bytes denote, and its four 64-bit digits.\<close>

definition le256_value :: "bytes \<Rightarrow> nat" where
  "le256_value target = unat (le_word target :: 256 word)"

fun nat_of_le :: "bytes \<Rightarrow> nat" where
  "nat_of_le [] = 0"
| "nat_of_le (b # bs) = unat b + 256 * nat_of_le bs"

lemma nat_of_le_append: "nat_of_le (xs @ ys) = nat_of_le xs + 256 ^ length xs * nat_of_le ys"
  by (induction xs) (simp_all add: algebra_simps)

lemma nat_of_le_less: "nat_of_le bs < 256 ^ length bs"
proof (induction bs)
  case Nil
  then show ?case by simp
next
  case (Cons b bs)
  have "unat b + 256 * nat_of_le bs < 256 * (nat_of_le bs + 1)"
    by (simp add: algebra_simps)
  also have "\<dots> \<le> 256 * 256 ^ length bs"
    using Cons.IH by (intro mult_left_mono) simp_all
  finally show ?case by simp
qed

lemma unat_le_word:
  assumes "8 * length bs \<le> LENGTH('a::len)"
  shows "unat (le_word bs :: 'a word) = nat_of_le bs"
  using assms
proof (induction bs)
  case Nil
  then show ?case by simp
next
  case (Cons b bs)
  let ?w = "le_word bs :: 'a word"
  have IH: "unat ?w = nat_of_le bs" using Cons by simp
  have "unat b + 256 * unat ?w < 2 ^ LENGTH('a)"
  proof -
    have "unat b + 256 * nat_of_le bs < 256 ^ length (b # bs)" using nat_of_le_less [of "b # bs"] by simp
    also have "\<dots> = 2 ^ (8 * length (b # bs))" by (subst power_mult) simp
    also have "\<dots> \<le> 2 ^ LENGTH('a)" using Cons.prems by (intro power_increasing) simp_all
    finally show ?thesis using IH by simp
  qed
  moreover have "ucast b OR push_bit 8 ?w = ucast b + push_bit 8 ?w"
    by (rule disjunctive_add [symmetric]) (auto simp: bit_ucast_iff bit_push_bit_iff dest: bit_imp_le_length)
  moreover have "unat (ucast b + push_bit 8 ?w) = (unat b + 256 * unat ?w) mod 2 ^ LENGTH('a)"
  proof -
    have "ucast b + push_bit 8 ?w = of_nat (unat b + 256 * unat ?w)"
      by (simp add: push_bit_eq_mult mult.commute)
    then show ?thesis by (simp only: unat_of_nat take_bit_eq_mod)
  qed
  ultimately show ?case using IH by simp
qed

lemma le256_value_digits:
  assumes "length h = 32"
  shows "le256_value h = nat_of_le (slice 0 8 h) + 2 ^ 64 * nat_of_le (slice 8 8 h)
           + 2 ^ 128 * nat_of_le (slice 16 8 h) + 2 ^ 192 * nat_of_le (slice 24 8 h)"
proof -
  have step: "drop n h = slice n 8 h @ drop (n + 8) h" for n
    by (simp add: slice_def) (metis append_take_drop_id drop_drop add.commute)
  have "h = slice 0 8 h @ slice 8 8 h @ slice 16 8 h @ slice 24 8 h"
    using assms step [of 0] step [of 8] step [of 16] step [of 24] by simp
  then have "nat_of_le h = nat_of_le (slice 0 8 h @ slice 8 8 h @ slice 16 8 h @ slice 24 8 h)"
    by (rule arg_cong)
  also have "\<dots> = nat_of_le (slice 0 8 h) + 256 ^ 8 * (nat_of_le (slice 8 8 h) + 256 ^ 8 * (nat_of_le (slice 16 8 h) + 256 ^ 8 * nat_of_le (slice 24 8 h)))"
    using assms by (simp add: nat_of_le_append)
  finally have "nat_of_le h = \<dots>" .
  then show ?thesis
    using assms by (simp add: le256_value_def unat_le_word)
qed

lemma rounded_le64:
  "length bs = 8 \<Longrightarrow> rounded 1 (le64_double bs) (of_nat (nat_of_le bs))"
  using rounded_f64 [OF rounded_refl [of "of_nat (nat_of_le bs)"]]
  by (simp add: le64_double_def unat_le_word)

lemma le256todouble_rounded:
  assumes "length h = 32"
  shows "rounded 5 (le256todouble h) (of_nat (le256_value h))"
proof -
  let ?d = "\<lambda>k. of_nat (nat_of_le (slice k 8 h)) :: rat"
  have d: "rounded 1 (le64_double (slice k 8 h)) (?d k)" if "k \<le> 24" for k
    using assms that by (intro rounded_le64) simp
  have top: "rounded 2 (f64 (le64_double (slice 24 8 h) * 2 ^ 192)) (?d 24 * 2 ^ 192)"
    using rounded_f64 [OF rounded_scale [OF d]] by (simp add: numeral_2_eq_2)
  have m1: "rounded 2 (f64 (le64_double (slice 16 8 h) * 2 ^ 128)) (?d 16 * 2 ^ 128)"
    using rounded_f64 [OF rounded_scale [OF d]] by (simp add: numeral_2_eq_2)
  have m2: "rounded 2 (f64 (le64_double (slice 8 8 h) * 2 ^ 64)) (?d 8 * 2 ^ 64)"
    using rounded_f64 [OF rounded_scale [OF d]] by (simp add: numeral_2_eq_2)
  let ?s1 = "f64 (f64 (le64_double (slice 24 8 h) * 2 ^ 192) + f64 (le64_double (slice 16 8 h) * 2 ^ 128))"
  have s1: "rounded 3 ?s1 (?d 24 * 2 ^ 192 + ?d 16 * 2 ^ 128)"
    using rounded_f64 [OF rounded_add [OF top m1]] by (simp add: eval_nat_numeral)
  let ?s2 = "f64 (?s1 + f64 (le64_double (slice 8 8 h) * 2 ^ 64))"
  have s2: "rounded 4 ?s2 (?d 24 * 2 ^ 192 + ?d 16 * 2 ^ 128 + ?d 8 * 2 ^ 64)"
    using rounded_f64 [OF rounded_add [OF s1 rounded_mono [OF m2]], of] by (simp add: eval_nat_numeral)
  have s3: "rounded 5 (f64 (?s2 + le64_double (slice 0 8 h))) (?d 24 * 2 ^ 192 + ?d 16 * 2 ^ 128 + ?d 8 * 2 ^ 64 + ?d 0)"
    using rounded_f64 [OF rounded_add [OF s2 rounded_mono [OF d [of 0]]]] by (simp add: eval_nat_numeral)
  have "le256todouble h = f64 (?s2 + le64_double (slice 0 8 h))"
    by (simp add: le256todouble_def Let_def)
  moreover have "of_nat (le256_value h) = ?d 24 * 2 ^ 192 + ?d 16 * 2 ^ 128 + ?d 8 * 2 ^ 64 + ?d 0"
    unfolding le256_value_digits [OF assms] by (simp only: of_nat_add of_nat_mult of_nat_power of_nat_numeral) (simp only: ac_simps)
  ultimately show ?thesis using s3 by simp
qed

end
