(* ===== verification/Mining.thy ===== *)
theory Mining
  imports Stratum_Utils
begin

text \<open>
  \<open>components/stratum/mining.c\<close>: building the header of a block template and the job for the ASIC, and
  checking the nonces it returns. The 80-byte header is
  \<open>version (4) | previous block (32) | merkle root (32) | time (4) | target (4) | nonce (4)\<close>; its first
  64 bytes are the block whose SHA-256 state is the midstate.
\<close>

section \<open>Data\<close>

definition MAX_EXTRANONCE_STR_LEN :: nat where "MAX_EXTRANONCE_STR_LEN = 64"

text \<open>The fields of \<open>mining_notify\<close> (\<open>components/stratum/include/stratum_api.h\<close>).\<close>

record mining_notify =
  notify_job_id :: bytes
  notify_prev_block_hash :: bytes
  notify_coinbase_1 :: bytes
  notify_coinbase_2 :: bytes
  notify_merkle_branches :: "bytes list"
  notify_version :: u32
  notify_target :: u32
  notify_ntime :: u32
  notify_clean_jobs :: bool

record bm_job =
  version :: u32
  version_mask :: u32
  prev_block_hash :: bytes
  merkle_root :: bytes
  ntime :: u32
  target :: u32
  starting_nonce :: u32
  num_midstates :: u8
  midstate :: bytes
  midstate1 :: bytes
  midstate2 :: bytes
  midstate3 :: bytes
  pool_diff :: rat
  jobid :: bytes
  extranonce2 :: bytes

section \<open>Coinbase transaction and merkle root\<close>

text \<open>
  The four hexadecimal parts are decoded one after the other into a buffer of half their total length,
  each limited to the room that is left.
\<close>

definition coinbase_tx_bin :: "bytes \<Rightarrow> bytes \<Rightarrow> bytes \<Rightarrow> bytes \<Rightarrow> bytes" where
  "coinbase_tx_bin coinbase_1 coinbase_2 extranonce extranonce_2 =
     (let len = (length coinbase_1 + length extranonce + length extranonce_2 + length coinbase_2) div 2;
          b1 = hex2bin coinbase_1 len;
          b2 = b1 @ hex2bin extranonce (len - length b1);
          b3 = b2 @ hex2bin extranonce_2 (len - length b2)
      in b3 @ hex2bin coinbase_2 (len - length b3))"

definition calculate_coinbase_tx_hash :: "sha_lib \<Rightarrow> bytes \<Rightarrow> bytes \<Rightarrow> bytes \<Rightarrow> bytes \<Rightarrow> bytes" where
  "calculate_coinbase_tx_hash L coinbase_1 coinbase_2 extranonce extranonce_2 =
     double_sha256_bin L (coinbase_tx_bin coinbase_1 coinbase_2 extranonce extranonce_2)"

text \<open>The binary variant for Stratum V2; \<open>None\<close> when \<open>malloc\<close> fails, and \<open>dest\<close> is left alone.\<close>

definition calculate_coinbase_tx_hash_bin ::
  "sha_lib \<Rightarrow> bool \<Rightarrow> bytes \<Rightarrow> bytes \<Rightarrow> bytes \<Rightarrow> bytes \<Rightarrow> bytes option" where
  "calculate_coinbase_tx_hash_bin L malloc_ok prefix extranonce_prefix extranonce_2 suffix =
     (if \<not> malloc_ok then None
      else Some (double_sha256_bin L (prefix @ extranonce_prefix @ extranonce_2 @ suffix)))"

text \<open>The loop folds the branches into the first half of a 64-byte buffer.\<close>

fun merkle_loop :: "sha_lib \<Rightarrow> bytes \<Rightarrow> bytes list \<Rightarrow> bytes" where
  "merkle_loop L acc [] = acc"
| "merkle_loop L acc (b # bs) = merkle_loop L (double_sha256_bin L (acc @ b)) bs"

definition calculate_merkle_root_hash :: "sha_lib \<Rightarrow> bytes \<Rightarrow> bytes list \<Rightarrow> bytes" where
  "calculate_merkle_root_hash L coinbase_tx_hash merkle_branches = merkle_loop L coinbase_tx_hash merkle_branches"

section \<open>Rolling the version\<close>

text \<open>
  \<open>increment_bitmask\<close> adds one to the number in the bits of the mask; a carry that leaves the mask is
  put into the mask again one bit further left, by recursion.
\<close>

definition low_zeros :: "u32 \<Rightarrow> nat" where
  "low_zeros m = length (takeWhile (\<lambda>i. \<not> bit m i) [0..<32])"

lemma low_zeros_bits: "i < low_zeros m \<Longrightarrow> \<not> bit m i"
proof -
  assume i: "i < low_zeros m"
  then have "[0..<32] ! i \<in> set (takeWhile (\<lambda>i. \<not> bit m i) [0..<32])"
    by (metis low_zeros_def nth_mem takeWhile_nth)
  moreover have "i < 32" using i length_takeWhile_le [of _ "[0..<32]"] unfolding low_zeros_def
    by (metis (no_types, lifting) diff_zero le_trans length_upt not_le)
  ultimately show "\<not> bit m i" by (auto dest: set_takeWhileD)
qed

lemma low_zeros_le: "low_zeros m \<le> 32"
  using length_takeWhile_le [of "\<lambda>i. \<not> bit m i" "[0..<32]"] by (simp add: low_zeros_def)

lemma low_zeros_gt:
  assumes "\<And>i. i \<le> k \<Longrightarrow> \<not> bit m i" "k < 32"
  shows "k < low_zeros m"
proof (rule ccontr)
  assume "\<not> k < low_zeros m"
  then have le: "low_zeros m \<le> k" by simp
  with assms(2) have "low_zeros m < length [0..<32]" by simp
  then have "\<not> \<not> bit m ([0..<32] ! low_zeros m)"
    unfolding low_zeros_def by (rule nth_length_takeWhile)
  with le assms show False by simp
qed

lemma low_zeros_bit: "m \<noteq> 0 \<Longrightarrow> low_zeros m < 32 \<and> bit m (low_zeros m)"
proof -
  assume "m \<noteq> 0"
  then have "\<not> (\<forall>i < 32. \<not> bit m i)" using word_eq_by_bits [of m 0] by auto
  then obtain j where j: "j < 32" "bit m j" by blast
  have lt: "low_zeros m < 32"
  proof (rule ccontr)
    assume "\<not> low_zeros m < 32"
    with j have "j < low_zeros m" by simp
    with j show False using low_zeros_bits by blast
  qed
  then have "low_zeros m < length [0..<32]" by simp
  then have "\<not> \<not> bit m ([0..<32] ! low_zeros m)"
    unfolding low_zeros_def by (rule nth_length_takeWhile)
  with lt show ?thesis by simp
qed

lemma take_bit_zero_iff: "take_bit k (w :: u32) = 0 \<longleftrightarrow> (\<forall>i < k. \<not> bit w i)"
proof
  assume zero: "take_bit k w = 0"
  show "\<forall>i < k. \<not> bit w i"
  proof (intro allI impI)
    fix i assume "i < k"
    then have "bit w i \<longleftrightarrow> bit (take_bit k w) i" by (simp add: bit_take_bit_iff)
    then show "\<not> bit w i" by (simp add: zero)
  qed
next
  assume "\<forall>i < k. \<not> bit w i"
  then show "take_bit k w = 0" by (intro word_eq_by_bits) (simp add: bit_take_bit_iff)
qed

lemma increment_carry_low:
  fixes msk val :: u32
  assumes "msk \<noteq> 0"
  defines "carry \<equiv> (val AND msk) + (msk AND - msk)"
  shows "low_zeros msk < low_zeros (push_bit 1 (carry AND NOT msk))"
proof -
  let ?k = "low_zeros msk"
  have k: "?k < 32" "bit msk ?k" using low_zeros_bit [OF assms(1)] by simp_all
  have "take_bit ?k msk = 0" by (simp add: take_bit_zero_iff low_zeros_bits)
  then have "take_bit ?k (val AND msk) = 0" "take_bit ?k (msk AND - msk) = 0" by simp_all
  then have "push_bit ?k (drop_bit ?k (val AND msk)) = val AND msk" "push_bit ?k (drop_bit ?k (msk AND - msk)) = msk AND - msk"
    using bits_ident [of ?k "val AND msk"] bits_ident [of ?k "msk AND - msk"] by simp_all
  then have "carry = push_bit ?k (drop_bit ?k (val AND msk) + drop_bit ?k (msk AND - msk))"
    by (simp only: carry_def push_bit_add)
  then have low: "\<not> bit carry i" if "i < ?k" for i
    using that by (simp add: bit_push_bit_iff)
  show ?thesis
  proof (rule low_zeros_gt)
    fix i assume i: "i \<le> ?k"
    show "\<not> bit (push_bit 1 (carry AND NOT msk)) i"
      using low [of "i - 1"] i by (auto simp: bit_push_bit_iff bit_and_iff simp del: push_bit_Suc)
  qed (rule k)
qed

function increment_bitmask :: "u32 \<Rightarrow> u32 \<Rightarrow> u32" where
  "increment_bitmask val msk =
     (if msk = 0 then val
      else let carry = (val AND msk) + (msk AND - msk);
               overflow = carry AND NOT msk;
               new_value = (val AND NOT msk) OR (carry AND msk)
           in if overflow > 0 then increment_bitmask new_value (push_bit 1 overflow) else new_value)"
  by pat_completeness auto
termination
proof (relation "measure (\<lambda>(val, msk). 32 - low_zeros msk)", goal_cases)
  case 1
  then show ?case by simp
next
  case (2 val msk carry overflow new_value)
  then show ?case
    using increment_carry_low [of msk val] low_zeros_le [of "push_bit 1 overflow"] by simp
qed

declare increment_bitmask.simps [simp del]

text \<open>
  \<open>construct_bm_job\<close>. The fields it does not write keep what was in the job: \<open>version_mask\<close>, \<open>jobid\<close>,
  \<open>extranonce2\<close>, and the rolled midstates when the mask is zero. \<open>junk\<close> is the uninitialised stack
  buffer that a short \<open>prev_block_hash\<close> string fills only in part.
\<close>

definition header_block :: "u32 \<Rightarrow> bytes \<Rightarrow> bytes \<Rightarrow> bytes" where
  "header_block ver prev mroot = le_bytes 4 ver @ prev @ take 28 mroot"

definition construct_bm_job ::
  "sha_lib \<Rightarrow> bytes \<Rightarrow> mining_notify \<Rightarrow> bytes \<Rightarrow> u32 \<Rightarrow> rat \<Rightarrow> bm_job \<Rightarrow> bm_job" where
  "construct_bm_job L junk params mroot msk difficulty new_job =
     (let ver = notify_version params;
          prev = reverse_endianness_per_word (store_at 0 (hex2bin (notify_prev_block_hash params) 32) junk);
          state = (\<lambda>v. reverse_32bit_words (midstate_sha256_bin L (header_block v prev mroot)));
          job = new_job \<lparr>version := ver, target := notify_target params, ntime := notify_ntime params,
                  starting_nonce := 0, pool_diff := difficulty,
                  merkle_root := reverse_32bit_words mroot,
                  prev_block_hash := reverse_32bit_words prev,
                  midstate := state ver\<rparr>
      in if msk \<noteq> 0 then
           let rolled1 = increment_bitmask ver msk;
               rolled2 = increment_bitmask rolled1 msk;
               rolled3 = increment_bitmask rolled2 msk
           in job \<lparr>midstate1 := state rolled1, midstate2 := state rolled2, midstate3 := state rolled3,
                   num_midstates := 4\<rparr>
         else job \<lparr>num_midstates := 1\<rparr>)"

definition extranonce_2_generate :: "u64 \<Rightarrow> nat \<Rightarrow> bytes option" where
  "extranonce_2_generate extranonce_2 len =
     (let copy_len = (if len < 8 then len else 8);
          extranonce_2_bytes = store_at 0 (le_bytes copy_len extranonce_2) (replicate len 0)
      in snd (bin2hex extranonce_2_bytes (len * 2 + 1)))"

definition hash_to_pdiff :: "bytes \<Rightarrow> rat" where
  "hash_to_pdiff hash =
     (let s64 = le256todouble hash
      in if s64 = 0 then 4294967295 else f64 (truediffone / s64))"

text \<open>
  \<open>test_nonce_value\<close>: the stored midstate when the index names one, the whole 80-byte header otherwise.
\<close>

definition stored_midstate :: "bm_job \<Rightarrow> u8 \<Rightarrow> bytes option" where
  "stored_midstate job midstate_index =
     (if midstate_index < num_midstates job then
        if midstate_index = 0 then Some (midstate job)
        else if midstate_index = 1 then Some (midstate1 job)
        else if midstate_index = 2 then Some (midstate2 job)
        else if midstate_index = 3 then Some (midstate3 job)
        else None
      else None)"

definition header_tail :: "bm_job \<Rightarrow> u32 \<Rightarrow> bytes" where
  "header_tail job nonce =
     slice 28 4 (reverse_32bit_words (merkle_root job)) @ le_bytes 4 (ntime job) @ le_bytes 4 (target job) @ le_bytes 4 nonce"

definition full_header :: "bm_job \<Rightarrow> u32 \<Rightarrow> u32 \<Rightarrow> bytes" where
  "full_header job rolled_version nonce =
     le_bytes 4 rolled_version @ reverse_32bit_words (prev_block_hash job) @ reverse_32bit_words (merkle_root job)
       @ le_bytes 4 (ntime job) @ le_bytes 4 (target job) @ le_bytes 4 nonce"

definition nonce_hash :: "sha_lib \<Rightarrow> bm_job \<Rightarrow> u32 \<Rightarrow> u32 \<Rightarrow> u8 \<Rightarrow> bytes" where
  "nonce_hash L job nonce rolled_version midstate_index =
     (case stored_midstate job midstate_index of
        Some ms \<Rightarrow> mbedtls_sha256 L (sha256_resume_bin L ms (header_tail job nonce))
      | None \<Rightarrow> double_sha256_bin L (full_header job rolled_version nonce))"

definition test_nonce_value :: "sha_lib \<Rightarrow> bm_job \<Rightarrow> u32 \<Rightarrow> u32 \<Rightarrow> u8 \<Rightarrow> rat" where
  "test_nonce_value L job nonce rolled_version midstate_index =
     hash_to_pdiff (nonce_hash L job nonce rolled_version midstate_index)"

section \<open>Rolling within a contiguous mask\<close>

text \<open>The number in the mask of \<open>w\<close> bits from bit \<open>s\<close> on.\<close>

definition field :: "nat \<Rightarrow> nat \<Rightarrow> u32 \<Rightarrow> nat" where
  "field s w v = unat (take_bit w (drop_bit s v))"

lemma odd_and_minus: "odd y \<Longrightarrow> y AND - y = (1 :: u32)"
proof -
  assume y: "odd y"
  then have "- y = NOT y + 1" by (simp add: minus_eq_not_plus_1)
  also have "NOT y + 1 = NOT y OR 1"
    using y by (intro disjunctive_add) (auto simp: bit_simps bit_0)
  finally show "y AND - y = 1"
    using y by (intro word_eq_by_bits) (auto simp: bit_simps bit_0)
qed

lemma lowest_bit_of_mask:
  assumes "0 < w" "s + w \<le> 32"
  shows "push_bit s (mask w) AND - push_bit s (mask w) = (push_bit s 1 :: u32)"
proof -
  have "- push_bit s (mask w) = push_bit s (- mask w :: u32)"
    by (simp add: push_bit_eq_mult)
  then have "push_bit s (mask w) AND - push_bit s (mask w) = push_bit s (mask w AND - mask w :: u32)"
    by simp
  moreover have "odd (mask w :: u32)" using assms(1) by (simp add: even_mask_iff)
  ultimately show ?thesis by (simp add: odd_and_minus)
qed

lemma masked_part:
  assumes "s + w \<le> 32"
  shows "(v :: u32) AND push_bit s (mask w) = push_bit s (take_bit w (drop_bit s v))"
  by (rule word_eq_by_bits) (auto simp: bit_simps)

lemma field_less: "w \<le> 32 \<Longrightarrow> field s w v < 2 ^ w"
  unfolding field_def by (simp add: unsigned_take_bit_eq)

lemma increment_no_carry:
  assumes "0 < w" "s + w \<le> 32" and free: "field s w v + 1 < 2 ^ w"
  shows "increment_bitmask v (push_bit s (mask w)) AND NOT (push_bit s (mask w)) = v AND NOT (push_bit s (mask w))"
    and "field s w (increment_bitmask v (push_bit s (mask w))) = field s w v + 1"
proof -
  let ?m = "push_bit s (mask w) :: u32"
  let ?f = "take_bit w (drop_bit s v) + 1"
  have w: "(2::nat) ^ w \<le> 2 ^ 32" using assms(2) by (intro power_increasing) simp_all
  have f: "unat ?f = field s w v + 1"
    using free w unfolding field_def by (subst unat_word_ariths) simp
  have "unat (take_bit w ?f) = take_bit w (field s w v + 1)" by (simp only: unsigned_take_bit_eq f)
  also have "\<dots> = field s w v + 1" using free by (rule take_bit_nat_eq_self)
  finally have small: "take_bit w ?f = ?f" by (simp only: word_unat_eq_iff f)
  have "bit ?m s" using assms(1,2) by (simp add: bit_simps)
  then have "?m \<noteq> 0" by auto
  have carry: "(v AND ?m) + (?m AND - ?m) = push_bit s ?f"
    by (simp only: masked_part [OF assms(2)] lowest_bit_of_mask [OF assms(1,2)] push_bit_add)
  have inside: "push_bit s ?f AND ?m = push_bit s ?f"
    by (subst small [symmetric]) (auto intro!: word_eq_by_bits simp: bit_simps)
  then have outside: "push_bit s ?f AND NOT ?m = 0"
    by (metis (no_types, lifting) and.assoc and.right_idem and_zero_eq bit.conj_cancel_right)
  have result: "increment_bitmask v ?m = (v AND NOT ?m) OR push_bit s ?f"
    using \<open>?m \<noteq> 0\<close> by (simp add: increment_bitmask.simps [of v ?m] carry inside outside Let_def)
  show "increment_bitmask v ?m AND NOT ?m = v AND NOT ?m"
    by (simp add: result outside bit.conj_disj_distrib2)
  have "take_bit w (drop_bit s (increment_bitmask v ?m)) = take_bit w ?f"
    unfolding result using assms(2) by (intro word_eq_by_bits) (auto simp: bit_simps)
  then show "field s w (increment_bitmask v ?m) = field s w v + 1"
    by (simp add: field_def [of s w "increment_bitmask v ?m"] small f)
qed

text \<open>
  Rolling the version \<open>n\<close> times within a contiguous mask adds \<open>n\<close> to the number in the mask and
  changes no bit outside it, as long as the number does not overflow the mask.
\<close>

theorem version_rolling:
  assumes "0 < w" "s + w \<le> 32" "field s w v + n < 2 ^ w"
  defines "msk \<equiv> push_bit s (mask w) :: u32"
  defines "rolled \<equiv> ((\<lambda>v. increment_bitmask v msk) ^^ n) v"
  shows "field s w rolled = field s w v + n \<and> rolled AND NOT msk = v AND NOT msk"
  unfolding rolled_def using assms(3)
proof (induction n)
  case 0
  then show ?case by simp
next
  case (Suc n)
  let ?v = "((\<lambda>v. increment_bitmask v msk) ^^ n) v"
  have IH: "field s w ?v = field s w v + n" "?v AND NOT msk = v AND NOT msk" using Suc by simp_all
  then have free: "field s w ?v + 1 < 2 ^ w" using Suc.prems by simp
  show ?case
    using increment_no_carry [OF assms(1,2) free] IH by (simp add: msk_def)
qed

theorem version_rolling_witness:
  "field 13 16 (((\<lambda>v. increment_bitmask v 0x1fffe000) ^^ 3) 0x20000004) = 3"
proof -
  have m: "(push_bit 13 (mask 16) :: u32) = 0x1fffe000" by code_simp
  have f: "field 13 16 0x20000004 = 0" by code_simp
  show ?thesis using version_rolling [of 16 13 "0x20000004" 3] unfolding m f by simp
qed

text \<open>The carry out of the mask is not dropped: it is put back one bit above it, outside the mask.\<close>

theorem increment_carry_leaves_mask:
  "increment_bitmask 0x3fffe004 0x1fffe000 = 0x60000004"
  by (simp add: increment_bitmask.simps)

section \<open>Difficulty of a hash\<close>

lemma quotient_rounded:
  assumes s: "rounded 5 s v" and v: "0 < v" and t: "0 < t"
  shows "0 < s" "\<bar>f64 (t / s) * v - t\<bar> \<le> 8 * ulp64 * t"
proof -
  have lo: "v * (1 - ulp64) ^ 5 \<le> s" and hi: "s \<le> v * (1 + ulp64) ^ 5"
    using s by (simp_all add: rounded_def)
  have pos: "0 < v * (1 - ulp64) ^ 5" using v by (simp add: ulp64_def)
  show s0: "0 < s" by (rule less_le_trans [OF pos lo])
  define q where "q = t / s"
  have q0: "0 < q" and qs: "q * s = t" using s0 t by (simp_all add: q_def)
  have e: "\<bar>f64 q - q\<bar> \<le> q * ulp64"
    using rnd_error [of 53 q] q0 by (simp add: f64_def ulp64_def)
  have upper: "q * v * (1 - ulp64) ^ 5 \<le> t" "t \<le> q * v * (1 + ulp64) ^ 5"
    using mult_left_mono [OF lo less_imp_le [OF q0]] mult_left_mono [OF hi less_imp_le [OF q0]] qs
    by (simp_all add: mult.assoc)
  have "q * v \<le> t * (1 + 6 * ulp64)"
  proof -
    have "t \<le> t * ((1 + 6 * ulp64) * (1 - ulp64) ^ 5)" using t by (simp add: ulp64_def power_divide)
    then have "q * v * (1 - ulp64) ^ 5 \<le> t * (1 + 6 * ulp64) * (1 - ulp64) ^ 5"
      using upper(1) by (simp only: mult.assoc)
    then show ?thesis by (rule mult_right_le_imp_le) (simp add: ulp64_def)
  qed
  moreover have "t * (1 - 5 * ulp64) \<le> q * v"
  proof -
    have "t * ((1 - 5 * ulp64) * (1 + ulp64) ^ 5) \<le> t" using t by (simp add: ulp64_def power_divide)
    then have "t * (1 - 5 * ulp64) * (1 + ulp64) ^ 5 \<le> q * v * (1 + ulp64) ^ 5"
      using upper(2) by (simp only: mult.assoc)
    then show ?thesis by (rule mult_right_le_imp_le) (simp add: ulp64_def)
  qed
  moreover have "\<bar>f64 q * v - q * v\<bar> \<le> q * v * ulp64"
  proof -
    have "\<bar>f64 q * v - q * v\<bar> = \<bar>f64 q - q\<bar> * v" using v by (simp add: left_diff_distrib [symmetric] abs_mult)
    also have "\<dots> \<le> q * ulp64 * v" using e v by (intro mult_right_mono) simp_all
    finally show ?thesis by (simp only: ac_simps)
  qed
  moreover have "q * v * ulp64 \<le> 2 * (ulp64 * t)"
  proof -
    have "q * v * ulp64 \<le> t * (1 + 6 * ulp64) * ulp64"
      using calculation(1) by (intro mult_right_mono) (simp_all add: ulp64_def)
    also have "\<dots> \<le> 2 * (ulp64 * t)" using t by (simp add: ulp64_def)
    finally show ?thesis .
  qed
  ultimately have "q * v \<le> t + 6 * (ulp64 * t)" "t - 5 * (ulp64 * t) \<le> q * v" "\<bar>f64 q * v - q * v\<bar> \<le> 2 * (ulp64 * t)"
    by (simp_all add: algebra_simps)
  moreover have "0 \<le> ulp64 * t" using t by (simp add: ulp64_def)
  ultimately have "\<bar>f64 q * v - t\<bar> \<le> 8 * (ulp64 * t)" by linarith
  then show "\<bar>f64 (t / s) * v - t\<bar> \<le> 8 * ulp64 * t" by (simp add: q_def mult.assoc)
qed

text \<open>
  The difficulty computed for a hash \<open>H\<close> times \<open>H\<close> is the difficulty-1 target up to a relative error
  of eight units of \<open>2^-53\<close>; the hash zero gets the largest 32-bit number instead of a division by zero.
\<close>

theorem pdiff_accuracy:
  assumes "length h = 32"
  shows "if le256_value h = 0 then hash_to_pdiff h = 4294967295
         else \<bar>hash_to_pdiff h * of_nat (le256_value h) - truediffone\<bar> \<le> 8 / 2 ^ 53 * truediffone"
proof (cases "le256_value h = 0")
  case True
  then have "le256todouble h = 0" using le256todouble_rounded [OF assms] by (simp add: rounded_def)
  with True show ?thesis by (simp add: hash_to_pdiff_def)
next
  case False
  let ?v = "of_nat (le256_value h) :: rat"
  have v: "0 < ?v" using False by simp
  have t: "0 < truediffone" by (simp add: truediffone_def)
  note q = quotient_rounded [OF le256todouble_rounded [OF assms] v t]
  show ?thesis using q False by (simp add: hash_to_pdiff_def Let_def ulp64_def)
qed

theorem pdiff_accuracy_witness: "hash_to_pdiff (replicate 32 0) = 4294967295"
proof -
  have "le256_value (replicate 32 0) = 0" by code_simp
  then show ?thesis using pdiff_accuracy [of "replicate 32 0"] by simp
qed

section \<open>Header, midstates and extranonce\<close>

definition hex_text :: "bytes \<Rightarrow> bytes" where
  "hex_text bs = concat (map hex_of_byte bs)"

lemma length_hex_text [simp]: "length (hex_text bs) = 2 * length bs"
  by (induction bs) (simp_all add: hex_text_def hex_of_byte_def)

lemma hex2bin_hex_text [simp]: "hex2bin (hex_text bs) n = take n bs"
  by (simp add: hex_text_def hex2bin_concat)

text \<open>
  The coinbase hash from hexadecimal text (Stratum V1) and from bytes (Stratum V2) agree: both are the
  double hash of prefix, extranonce, second extranonce and suffix, in this order.
\<close>

lemma coinbase_hash_agrees:
  "calculate_coinbase_tx_hash L (hex_text c1) (hex_text c2) (hex_text e1) (hex_text e2) =
     double_sha256_bin L (c1 @ e1 @ e2 @ c2) \<and>
   calculate_coinbase_tx_hash_bin L True c1 e1 e2 c2 =
     Some (calculate_coinbase_tx_hash L (hex_text c1) (hex_text c2) (hex_text e1) (hex_text e2))"
proof -
  have "(2 * length c1 + 2 * length e1 + 2 * length e2 + 2 * length c2) div 2 =
      length c1 + length e1 + length e2 + length c2" by simp
  then have "coinbase_tx_bin (hex_text c1) (hex_text c2) (hex_text e1) (hex_text e2) = c1 @ e1 @ e2 @ c2"
    by (simp add: coinbase_tx_bin_def Let_def)
  then show ?thesis
    by (simp add: calculate_coinbase_tx_hash_def calculate_coinbase_tx_hash_bin_def)
qed

lemma extranonce_2_text:
  "extranonce_2_generate n len = Some (hex_text (le_bytes (min len 8) n @ replicate (len - 8) 0))"
  by (cases "len < 8") (auto simp: extranonce_2_generate_def bin2hex_def hex_text_def store_at_def min_def Let_def)

lemma le_bytes_word_inj:
  assumes "le_bytes k a = le_bytes k (b :: u64)" "k \<le> 8" "unat a < 256 ^ k" "unat b < 256 ^ k"
  shows "a = b"
proof (rule word_eq_by_bits)
  fix i assume i: "i < LENGTH(64)"
  show "bit a i \<longleftrightarrow> bit b i"
  proof (cases "i < 8 * k")
    case True
    then have "bit (le_bytes k a ! (i div 8)) (i mod 8) \<longleftrightarrow> bit (le_bytes k b ! (i div 8)) (i mod 8)"
      by (simp add: assms(1))
    with True show ?thesis by (simp add: bit_ucast_iff bit_drop_bit_eq less_mult_imp_div_less mult.commute)
  next
    case False
    have "\<not> bit w i" if "unat w < 256 ^ k" for w :: u64
    proof -
      have "unat w < 2 ^ (8 * k)" using that by (simp add: power_mult)
      also have "(2::nat) ^ (8 * k) \<le> 2 ^ i" using False by (intro power_increasing) simp_all
      finally have "unat w < 2 ^ i" .
      then have "\<not> bit (unat w) i" by (simp add: bit_iff_odd)
      then show ?thesis by (simp add: bit_unsigned_iff)
    qed
    then show ?thesis using assms(3,4) by blast
  qed
qed

text \<open>
  The second extranonce is the counter in little-endian bytes, padded with zeros to the wanted length,
  as hexadecimal text; different counters that fit the length give different texts.
\<close>

lemma extranonce_2_round_trip:
  "\<exists>hex. extranonce_2_generate n len = Some hex \<and> length hex = 2 * len \<and>
     hex2bin hex len = le_bytes (min len 8) n @ replicate (len - 8) 0 \<and>
     (\<forall>m. unat n < 256 ^ min len 8 \<and> unat m < 256 ^ min len 8 \<and> extranonce_2_generate m len = Some hex \<longrightarrow> m = n)"
proof -
  let ?b = "\<lambda>n. le_bytes (min len 8) n @ replicate (len - 8) 0"
  have len: "length (?b n) = len" for n :: u64 by simp
  have hex: "hex2bin (hex_text (?b n)) len = ?b n" for n :: u64 by (simp add: len)
  have "m = n" if "unat n < 256 ^ min len 8" "unat m < 256 ^ min len 8" "hex_text (?b m) = hex_text (?b n)" for m
  proof -
    have "?b m = ?b n" using hex [of m] hex [of n] that(3) by metis
    then have "le_bytes (min len 8) m = le_bytes (min len 8) n" by simp
    then show ?thesis using le_bytes_word_inj that by simp
  qed
  then show ?thesis by (auto simp: extranonce_2_text hex simp del: hex2bin_hex_text)
qed

theorem extranonce_2_round_trip_witness:
  "\<exists>hex. extranonce_2_generate 0x0102 4 = Some hex \<and> (\<forall>m. unat m < 256 ^ 4 \<and> extranonce_2_generate m 4 = Some hex \<longrightarrow> m = 0x0102)"
  using extranonce_2_round_trip [of "0x0102" 4] by auto

section \<open>The hash of a nonce\<close>

text \<open>The 80-byte header as the network defines it, from the template and a rolled version.\<close>

definition block_header :: "mining_notify \<Rightarrow> bytes \<Rightarrow> bytes \<Rightarrow> u32 \<Rightarrow> u32 \<Rightarrow> bytes" where
  "block_header params prev mroot rolled_version nonce =
     le_bytes 4 rolled_version @ reverse_endianness_per_word prev @ mroot @
     le_bytes 4 (notify_ntime params) @ le_bytes 4 (notify_target params) @ le_bytes 4 nonce"

lemma job_fields:
  fixes L :: sha_lib and msk :: u32 and diff :: rat and old :: bm_job
  assumes "notify_prev_block_hash params = hex_text prev" "length prev = 32" "length junk = 32" "length mroot = 32"
  defines "job \<equiv> construct_bm_job L junk params mroot msk diff old"
  shows "reverse_32bit_words (prev_block_hash job) = reverse_endianness_per_word prev"
    and "reverse_32bit_words (merkle_root job) = mroot"
    and "ntime job = notify_ntime params" and "target job = notify_target params"
    and "num_midstates job = (if msk \<noteq> 0 then 4 else 1)"
  using assms by (simp_all add: construct_bm_job_def Let_def reverse_32bit_words_twice store_at_def)

text \<open>
  A nonce that comes without a midstate index is judged by the double hash of the 80-byte header of the
  template with the rolled version: version, previous block, merkle root, time, target, nonce.
\<close>

lemma full_header_hash:
  assumes "notify_prev_block_hash params = hex_text prev" "length prev = 32" "length junk = 32" "length mroot = 32"
    and "4 \<le> midstate_index"
  shows "test_nonce_value L (construct_bm_job L junk params mroot msk diff old) nonce rolled_version midstate_index =
           hash_to_pdiff (double_sha256_bin L (block_header params prev mroot rolled_version nonce)) \<and>
         length (block_header params prev mroot rolled_version nonce) = 80"
proof -
  note f = job_fields [OF assms(1-4)]
  have "\<not> midstate_index < (4 :: u8)" "\<not> midstate_index < (1 :: u8)"
    using assms(5) by (auto simp: word_less_nat_alt word_le_nat_alt)
  then have "stored_midstate (construct_bm_job L junk params mroot msk diff old) midstate_index = None"
    by (cases "msk = 0") (simp_all only: stored_midstate_def f if_True if_False simp_thms)
  then show ?thesis
    using assms(2,4) by (simp add: test_nonce_value_def nonce_hash_def full_header_def block_header_def f)
qed

text \<open>A concrete function with the interface of SHA-256, for examples: the first 32 bytes, padded.\<close>

definition first_bytes :: sha_lib where
  "first_bytes = \<lparr>mbedtls_sha256 = \<lambda>m. take 32 (m @ replicate 32 0),
                  sha_state_after = \<lambda>b. take 32 (b @ replicate 32 0),
                  sha_resume_from = \<lambda>s n m. take 32 (s @ replicate 32 0)\<rparr>"

definition example_notify :: mining_notify where
  "example_notify = \<lparr>notify_job_id = [], notify_prev_block_hash = hex_text (replicate 32 0), notify_coinbase_1 = [],
     notify_coinbase_2 = [], notify_merkle_branches = [], notify_version = 1, notify_target = 2, notify_ntime = 3,
     notify_clean_jobs = False\<rparr>"

definition empty_job :: bm_job where
  "empty_job = \<lparr>version = 0, version_mask = 0, prev_block_hash = replicate 32 0, merkle_root = replicate 32 0, ntime = 0,
     target = 0, starting_nonce = 0, num_midstates = 0, midstate = replicate 32 0, midstate1 = replicate 32 0,
     midstate2 = replicate 32 0, midstate3 = replicate 32 0, pool_diff = 0, jobid = [], extranonce2 = []\<rparr>"

theorem full_header_hash_witness:
  "test_nonce_value first_bytes (construct_bm_job first_bytes (replicate 32 7) example_notify (replicate 32 5) 0 1000 empty_job) 9 1 0xFF =
     hash_to_pdiff (double_sha256_bin first_bytes (block_header example_notify (replicate 32 0) (replicate 32 5) 1 9))"
  using full_header_hash [of example_notify "replicate 32 0" "replicate 32 7" "replicate 32 5" "0xFF" first_bytes 0 1000 empty_job 9 1]
  by (simp add: example_notify_def)

text \<open>
  C16. Each stored midstate, its words put back in order, resumes to the hash of the full header with the
  version rolled that many times.
\<close>

theorem midstates_resume:
  fixes L :: sha_lib and msk :: u32 and diff :: rat and old :: bm_job
  assumes "sha_laws L" "notify_prev_block_hash params = hex_text prev" "length prev = 32" "length junk = 32" "length mroot = 32"
  defines "job \<equiv> construct_bm_job L junk params mroot msk diff old"
  shows "\<forall>i < 4. i < unat (num_midstates job) \<longrightarrow>
     (\<exists>ms. stored_midstate job (of_nat i) = Some ms \<and>
        mbedtls_sha256 L (sha256_resume_bin L (reverse_32bit_words ms) (header_tail job nonce)) =
          double_sha256_bin L (block_header params prev mroot (((\<lambda>v. increment_bitmask v msk) ^^ i) (notify_version params)) nonce))"
proof (intro allI impI)
  fix i :: nat assume i: "i < 4" "i < unat (num_midstates job)"
  note f = job_fields [OF assms(2-5), where L = L and msk = msk and diff = diff and old = old, folded job_def]
  let ?v = "((\<lambda>v. increment_bitmask v msk) ^^ i) (notify_version params)"
  let ?block = "header_block ?v (reverse_endianness_per_word prev) mroot"
  have len: "length ?block = 64" using assms(3,5) by (simp add: header_block_def)
  have twice: "(g ^^ 2) x = g (g x)" "(g ^^ 3) x = g (g (g x))" for g :: "u32 \<Rightarrow> u32" and x
    by (simp_all add: eval_nat_numeral)
  have "i \<in> {0, 1, 2, 3}" using i(1) by auto
  moreover have "i = 0 \<or> msk \<noteq> 0" using i(2) f(5) by (auto split: if_splits)
  ultimately have stored: "stored_midstate job (of_nat i) = Some (reverse_32bit_words (midstate_sha256_bin L ?block))"
    using assms(2-5) unfolding job_def stored_midstate_def
    by (elim insertE emptyE disjE) (simp_all add: construct_bm_job_def Let_def store_at_def twice)
  have tail: "?block @ header_tail job nonce = block_header params prev mroot ?v nonce"
    using assms(3,5) append_take_drop_id [of 28 mroot]
    by (simp add: header_block_def header_tail_def block_header_def f slice_def)
  have "sha256_resume_bin L (midstate_sha256_bin L ?block) (header_tail job nonce) =
      mbedtls_sha256 L (block_header params prev mroot ?v nonce)"
    using assms(1) len by (simp add: sha_laws_def sha256_resume_bin_def midstate_sha256_bin_def tail [symmetric])
  moreover have "length (midstate_sha256_bin L ?block) = 32"
    using assms(1) by (simp add: sha_laws_def midstate_sha256_bin_def)
  ultimately show "\<exists>ms. stored_midstate job (of_nat i) = Some ms \<and>
      mbedtls_sha256 L (sha256_resume_bin L (reverse_32bit_words ms) (header_tail job nonce)) =
        double_sha256_bin L (block_header params prev mroot ?v nonce)"
    by (simp add: stored reverse_32bit_words_twice double_sha256_bin_def)
qed

lemma first_bytes_laws: "sha_laws first_bytes"
  by (auto simp: sha_laws_def first_bytes_def min_def)

theorem midstates_resume_witness:
  "\<exists>ms. stored_midstate (construct_bm_job first_bytes (replicate 32 7) example_notify (replicate 32 5) 0x1fffe000 1000 empty_job) 1 = Some ms \<and>
     mbedtls_sha256 first_bytes (sha256_resume_bin first_bytes (reverse_32bit_words ms)
        (header_tail (construct_bm_job first_bytes (replicate 32 7) example_notify (replicate 32 5) 0x1fffe000 1000 empty_job) 9)) =
     double_sha256_bin first_bytes (block_header example_notify (replicate 32 0) (replicate 32 5) 0x2001 9)"
proof -
  have inc: "increment_bitmask 1 0x1fffe000 = 0x2001" by (simp add: increment_bitmask.simps)
  have v: "notify_version example_notify = 1" "notify_prev_block_hash example_notify = hex_text (replicate 32 0)"
    by (simp_all add: example_notify_def)
  have n: "num_midstates (construct_bm_job first_bytes (replicate 32 7) example_notify (replicate 32 5) 0x1fffe000 1000 empty_job) = 4"
    by (simp add: construct_bm_job_def Let_def)
  show ?thesis
    using midstates_resume [of first_bytes example_notify "replicate 32 0" "replicate 32 7" "replicate 32 5" "0x1fffe000" 1000 empty_job 9] first_bytes_laws
    by (auto simp: v n inc dest!: spec [of _ 1])
qed

text \<open>
  The word order of the stored midstate is that of the ASIC packet, and \<open>test_nonce_value\<close> hands it to
  \<open>sha256_resume_bin\<close> as it is: the two ways of hashing the same nonce then differ.
\<close>

theorem resumed_hash_differs:
  "\<exists>L job. sha_laws L \<and> job = construct_bm_job L (replicate 32 7) example_notify (replicate 32 5) 0 1000 empty_job \<and>
     nonce_hash L job 9 (version job) 0 \<noteq> nonce_hash L job 9 (version job) (num_midstates job)"
proof -
  let ?job = "construct_bm_job first_bytes (replicate 32 7) example_notify (replicate 32 5) 0 1000 empty_job"
  have "nonce_hash first_bytes ?job 9 (version ?job) 0 \<noteq> nonce_hash first_bytes ?job 9 (version ?job) (num_midstates ?job)"
    by code_simp
  then show ?thesis using first_bytes_laws by blast
qed

end
