(* ===== verification/Pll.thy ===== *)
theory Pll
  imports Binary_Float
begin

text \<open>
  \<open>components/asic/pll.c\<close>: the search for the PLL dividers of a frequency, and
  \<open>components/asic/frequency_transition_bmXX.c\<close>: the ramp from one frequency to another.
  A \<open>float\<close> or \<open>double\<close> operation is the exact operation followed by \<open>f32\<close> or \<open>f64\<close>.
\<close>

section \<open>The divider search\<close>

definition FREQ_MULT :: rat where
  "FREQ_MULT = 25"

definition EPSILON :: rat where
  "EPSILON = f32 (1 / 10000)"

definition FLT_MAX :: rat where
  "FLT_MAX = (2 - 1 / 2 ^ 23) * 2 ^ 127"

text \<open>\<open>round\<close> of a non-negative \<open>double\<close>, converted to \<open>uint16_t\<close> (for a value in its range).\<close>

definition round_u16 :: "rat \<Rightarrow> u16" where
  "round_u16 x = of_int \<lfloor>x + 1 / 2\<rfloor>"

record pll =
  best_freq :: rat
  best_refdiv :: nat
  best_fb_divider :: u8
  best_postdiv1 :: nat
  best_postdiv2 :: nat
  min_diff :: rat
  min_vco_freq :: rat
  min_postdiv :: nat

definition pll_start :: pll where
  "pll_start = \<lparr>best_freq = 0, best_refdiv = 0, best_fb_divider = 0, best_postdiv1 = 0, best_postdiv2 = 0,
     min_diff = FLT_MAX, min_vco_freq = FLT_MAX, min_postdiv = 65535\<rparr>"

definition pll_fb_divider :: "rat \<Rightarrow> nat \<times> nat \<times> nat \<Rightarrow> u16" where
  "pll_fb_divider target_freq = (\<lambda>(refdiv, postdiv1, postdiv2).
     round_u16 (f64 (f64 (target_freq / FREQ_MULT) * of_nat (refdiv * postdiv1 * postdiv2))))"

definition pll_frequency :: "u16 \<Rightarrow> nat \<Rightarrow> rat" where
  "pll_frequency fb_divider divider = f32 (f64 (f64 (FREQ_MULT * of_nat (unat fb_divider)) / of_nat divider))"

definition pll_step :: "rat \<Rightarrow> u16 \<Rightarrow> u16 \<Rightarrow> nat \<times> nat \<times> nat \<Rightarrow> pll \<Rightarrow> pll" where
  "pll_step target_freq fb_divider_min fb_divider_max = (\<lambda>(refdiv, postdiv1, postdiv2) s.
     let divider = refdiv * postdiv1 * postdiv2;
         fb_divider = pll_fb_divider target_freq (refdiv, postdiv1, postdiv2)
     in if postdiv2 < postdiv1 \<and> fb_divider_min \<le> fb_divider \<and> fb_divider \<le> fb_divider_max then
          let new_freq = pll_frequency fb_divider divider;
              curr_diff = \<bar>f32 (target_freq - new_freq)\<bar>;
              vco_freq = pll_frequency fb_divider refdiv
          in if curr_diff < min_diff s \<or>
                (\<bar>f32 (curr_diff - min_diff s)\<bar> < EPSILON \<and> vco_freq < min_vco_freq s) \<or>
                (\<bar>f32 (curr_diff - min_diff s)\<bar> < EPSILON \<and> \<bar>f32 (vco_freq - min_vco_freq s)\<bar> < EPSILON \<and>
                 postdiv1 * postdiv2 < min_postdiv s)
             then \<lparr>best_freq = new_freq, best_refdiv = refdiv, best_fb_divider = ucast fb_divider,
                    best_postdiv1 = postdiv1, best_postdiv2 = postdiv2,
                    min_diff = curr_diff, min_vco_freq = vco_freq, min_postdiv = postdiv1 * postdiv2\<rparr>
             else s
        else s)"

text \<open>The three nested loops count down: \<open>refdiv\<close> from 2, \<open>postdiv1\<close> and \<open>postdiv2\<close> from 7, each to 1.\<close>

definition pll_combinations :: "(nat \<times> nat \<times> nat) list" where
  "pll_combinations = concat (map (\<lambda>refdiv. concat (map (\<lambda>postdiv1. map (\<lambda>postdiv2. (refdiv, postdiv1, postdiv2))
     (rev [1..<8])) (rev [1..<8]))) (rev [1..<3]))"

definition pll_get_parameters :: "rat \<Rightarrow> u16 \<Rightarrow> u16 \<Rightarrow> pll" where
  "pll_get_parameters target_freq fb_divider_min fb_divider_max =
     fold (pll_step target_freq fb_divider_min fb_divider_max) pll_combinations pll_start"

section \<open>The ramp\<close>

definition STEP_SIZE :: rat where
  "STEP_SIZE = 25 / 4"

text \<open>
  The steps of the \<open>while\<close> loop, and the frequencies handed to \<open>set_frequency_fn\<close> by a transition, in
  order; the flag marks the ones followed by a delay of 100 ms.
\<close>

function ramp_steps :: "int \<Rightarrow> int \<Rightarrow> int \<Rightarrow> int list" where
  "ramp_steps signum target_step current_step =
     (if 0 < signum \<and> current_step < target_step \<or> signum < 0 \<and> target_step < current_step
      then (current_step + signum) # ramp_steps signum target_step (current_step + signum)
      else [])"
  by pat_completeness auto
termination
  by (relation "measure (\<lambda>(signum, target_step, current_step).
        if 0 < signum then nat (target_step - current_step) else nat (current_step - target_step))") auto

declare ramp_steps.simps [simp del]

definition step_frequency :: "int \<Rightarrow> rat" where
  "step_frequency current_step = f32 (f64 (of_int current_step * STEP_SIZE))"

definition frequency_transition :: "rat \<Rightarrow> rat \<Rightarrow> (rat \<times> bool) list" where
  "frequency_transition target_frequency current_frequency =
     (if \<bar>f32 (current_frequency - target_frequency)\<bar> < EPSILON then []
      else if \<bar>f32 (target_frequency - current_frequency)\<bar> < STEP_SIZE then [(target_frequency, False)]
      else
        let rising = current_frequency < target_frequency;
            current_step = (if rising then \<lfloor>f64 (current_frequency / STEP_SIZE)\<rfloor> else \<lceil>f64 (current_frequency / STEP_SIZE)\<rceil>);
            target_step = (if rising then \<lfloor>f64 (target_frequency / STEP_SIZE)\<rfloor> else \<lceil>f64 (target_frequency / STEP_SIZE)\<rceil>);
            signum = (if rising then 1 else - 1);
            steps = (if current_step \<noteq> target_step then ramp_steps signum target_step current_step else []);
            reached = (if steps = [] then current_frequency else step_frequency (last steps))
        in map (\<lambda>s. (step_frequency s, True)) steps @
           (if EPSILON < \<bar>f32 (reached - target_frequency)\<bar> then [(target_frequency, False)] else []))"

section \<open>The search finds a near-best candidate\<close>

definition pll_candidate :: "rat \<Rightarrow> u16 \<Rightarrow> u16 \<Rightarrow> nat \<times> nat \<times> nat \<Rightarrow> bool" where
  "pll_candidate t lo hi = (\<lambda>(refdiv, postdiv1, postdiv2).
     postdiv2 < postdiv1 \<and> lo \<le> pll_fb_divider t (refdiv, postdiv1, postdiv2) \<and> pll_fb_divider t (refdiv, postdiv1, postdiv2) \<le> hi)"

definition candidate_frequency :: "rat \<Rightarrow> nat \<times> nat \<times> nat \<Rightarrow> rat" where
  "candidate_frequency t = (\<lambda>(refdiv, postdiv1, postdiv2).
     pll_frequency (pll_fb_divider t (refdiv, postdiv1, postdiv2)) (refdiv * postdiv1 * postdiv2))"

definition candidate_diff :: "rat \<Rightarrow> nat \<times> nat \<times> nat \<Rightarrow> rat" where
  "candidate_diff t c = \<bar>f32 (t - candidate_frequency t c)\<bar>"

text \<open>What the state holds when the candidate \<open>c\<close> was chosen.\<close>

definition chosen :: "rat \<Rightarrow> nat \<times> nat \<times> nat \<Rightarrow> pll \<Rightarrow> bool" where
  "chosen t c s \<longleftrightarrow> (best_refdiv s, best_postdiv1 s, best_postdiv2 s) = c \<and> best_fb_divider s = ucast (pll_fb_divider t c) \<and>
     best_freq s = candidate_frequency t c \<and> min_diff s = candidate_diff t c"

lemma f32_small: "\<bar>f32 x\<bar> < EPSILON \<Longrightarrow> \<bar>x\<bar> < 1 / 9800"
proof -
  have "\<bar>EPSILON - 1 / 10000\<bar> \<le> 1 / 167772160000" using rnd_error [of 24 "1 / 10000"] by (simp add: EPSILON_def f32_def)
  then have e: "EPSILON < 1 / 9900" by linarith
  have "\<bar>f32 x - x\<bar> \<le> \<bar>x\<bar> / 2 ^ 24" using rnd_error [of 24 x] by (simp add: f32_def)
  moreover assume "\<bar>f32 x\<bar> < EPSILON"
  ultimately show ?thesis using e by (simp add: abs_if split: if_splits)
qed

lemma pll_step_cases:
  assumes "pll_candidate t lo hi c"
  obtains (kept) "pll_step t lo hi c s = s" "min_diff s \<le> candidate_diff t c"
  | (taken) "chosen t c (pll_step t lo hi c s)" "candidate_diff t c < min_diff s + 1 / 9800"
proof -
  obtain r p1 p2 where c: "c = (r, p1, p2)" by (cases c)
  let ?d = "candidate_diff t c"
  have near: "\<bar>f32 (?d - min_diff s)\<bar> < EPSILON \<Longrightarrow> ?d < min_diff s + 1 / 9800"
    using f32_small [of "?d - min_diff s"] by (auto simp: abs_if split: if_splits)
  have "pll_step t lo hi c s = s \<and> \<not> ?d < min_diff s \<or>
      chosen t c (pll_step t lo hi c s) \<and> (?d < min_diff s \<or> \<bar>f32 (?d - min_diff s)\<bar> < EPSILON)"
    using assms by (auto simp: c pll_candidate_def pll_step_def Let_def candidate_diff_def candidate_frequency_def chosen_def)
  then consider "pll_step t lo hi c s = s" "\<not> ?d < min_diff s" | "chosen t c (pll_step t lo hi c s)" "?d < min_diff s \<or> \<bar>f32 (?d - min_diff s)\<bar> < EPSILON"
    by blast
  then show thesis
  proof cases
    case 1
    then show thesis by (intro kept) simp_all
  next
    case 2
    then have "?d < min_diff s + 1 / 9800" using near by auto
    then show thesis using 2 by (intro taken)
  qed
qed

lemma pll_step_other: "\<not> pll_candidate t lo hi c \<Longrightarrow> pll_step t lo hi c s = s"
  by (cases c) (auto simp: pll_step_def pll_candidate_def Let_def)

text \<open>Along the loop the difference is at most the best seen so far plus one tolerance per iteration.\<close>

definition near_best :: "rat \<Rightarrow> u16 \<Rightarrow> u16 \<Rightarrow> (nat \<times> nat \<times> nat) list \<Rightarrow> pll \<Rightarrow> pll \<Rightarrow> bool" where
  "near_best t lo hi cs start s \<longleftrightarrow>
     (\<forall>d. d = min_diff start \<or> (\<exists>c \<in> set cs. pll_candidate t lo hi c \<and> d = candidate_diff t c) \<longrightarrow>
        min_diff s \<le> d + of_nat (length cs) / 9800) \<and>
     (s = start \<or> (\<exists>c \<in> set cs. pll_candidate t lo hi c \<and> chosen t c s))"

lemma near_best_step:
  assumes "near_best t lo hi cs start s"
  shows "near_best t lo hi (cs @ [c]) start (pll_step t lo hi c s)"
proof -
  let ?n = "of_nat (length cs) / 9800 :: rat"
  have n: "of_nat (length (cs @ [c])) / 9800 = ?n + 1 / 9800" "0 \<le> ?n" by (simp_all add: add_divide_distrib)
  have old: "min_diff s \<le> d + ?n" if "d = min_diff start \<or> (\<exists>c \<in> set cs. pll_candidate t lo hi c \<and> d = candidate_diff t c)" for d
    using assms that by (simp only: near_best_def)
  have src: "s = start \<or> (\<exists>c \<in> set cs. pll_candidate t lo hi c \<and> chosen t c s)"
    using assms by (simp only: near_best_def)
  have new: "min_diff (pll_step t lo hi c s) < min_diff s + 1 / 9800 \<and>
      (pll_candidate t lo hi c \<longrightarrow> min_diff (pll_step t lo hi c s) \<le> candidate_diff t c) \<and>
      (pll_step t lo hi c s = s \<or> pll_candidate t lo hi c \<and> chosen t c (pll_step t lo hi c s))"
  proof (cases "pll_candidate t lo hi c")
    case True
    then show ?thesis by (cases rule: pll_step_cases [of _ _ _ _ s]) (simp_all add: chosen_def True)
  qed (simp add: pll_step_other)
  have "min_diff (pll_step t lo hi c s) \<le> d + (?n + 1 / 9800)"
    if "d = min_diff start \<or> (\<exists>c \<in> set (cs @ [c]). pll_candidate t lo hi c \<and> d = candidate_diff t c)" for d
  proof (cases "d = min_diff start \<or> (\<exists>c \<in> set cs. pll_candidate t lo hi c \<and> d = candidate_diff t c)")
    case True
    then show ?thesis using old [of d] new by linarith
  next
    case False
    then have "pll_candidate t lo hi c" "d = candidate_diff t c" using that by auto
    then show ?thesis using new n(2) by linarith
  qed
  moreover have "pll_step t lo hi c s = start \<or> (\<exists>c' \<in> set (cs @ [c]). pll_candidate t lo hi c' \<and> chosen t c' (pll_step t lo hi c s))"
    using new src by auto
  ultimately show ?thesis unfolding near_best_def n(1) by blast
qed

lemma pll_fold: "near_best t lo hi cs start (fold (pll_step t lo hi) cs start)"
proof (induction cs rule: rev_induct)
  case Nil
  then show ?case by (simp add: near_best_def)
next
  case (snoc c cs)
  then show ?case using near_best_step by simp
qed

lemma pll_frequency_bound: "0 \<le> pll_frequency fb d \<and> pll_frequency fb d \<le> 13107000"
proof (cases "d = 0")
  case True
  then show ?thesis by (simp add: pll_frequency_def f64_def f32_def)
next
  case False
  let ?x = "FREQ_MULT * of_nat (unat fb)"
  have "unat fb \<le> 65535" using unsigned_less [of fb, where 'a = nat] by simp
  then have "rat_of_nat (unat fb) \<le> of_nat 65535" by (simp only: of_nat_le_iff)
  then have u: "of_nat (unat fb) \<le> (65535 :: rat)" by simp
  have x: "0 \<le> ?x" "?x \<le> 1638375" using u of_nat_0_le_iff [of "unat fb", where 'a = rat] unfolding FREQ_MULT_def by linarith+
  then have y: "0 \<le> f64 ?x" "f64 ?x \<le> 2 * 1638375"
    using f64_nonneg [of ?x] f64_at_most [of ?x] by linarith+
  let ?z = "f64 ?x / of_nat d"
  have "f64 ?x / of_nat d \<le> f64 ?x / 1" using y(1) False by (intro divide_left_mono) simp_all
  then have z: "0 \<le> ?z" "?z \<le> 2 * 1638375" using y by simp_all
  then have w: "0 \<le> f64 ?z" "f64 ?z \<le> 4 * 1638375" using f64_nonneg [of ?z] f64_at_most [of ?z] by linarith+
  then have "0 \<le> f32 (f64 ?z)" "f32 (f64 ?z) \<le> 8 * 1638375"
    using f32_nonneg [of "f64 ?z"] f32_at_most [of "f64 ?z"] by linarith+
  then show ?thesis by (simp add: pll_frequency_def)
qed

lemma candidate_diff_bound:
  assumes "0 \<le> t" "t \<le> 100000"
  shows "candidate_diff t c + 1 < FLT_MAX"
proof -
  obtain r p1 p2 where c: "c = (r, p1, p2)" by (cases c)
  have "\<bar>t - candidate_frequency t c\<bar> \<le> 13207000"
    using assms pll_frequency_bound [of "pll_fb_divider t c" "r * p1 * p2"] by (simp add: c candidate_frequency_def abs_le_iff)
  then have "\<bar>f32 (t - candidate_frequency t c)\<bar> \<le> 26414000"
    by (intro order_trans [OF f32_at_most]) simp
  then show ?thesis by (simp add: candidate_diff_def FLT_MAX_def)
qed

text \<open>
  The divider the target asks for with dividers of product \<open>d\<close>, in exact arithmetic, and how close the rounded
  one comes to it: as close as any integer, up to the rounding of the double operations.
\<close>

definition ideal_divider :: "rat \<Rightarrow> nat \<Rightarrow> rat" where
  "ideal_divider t d = t * of_nat d / 25"

lemma nearest_integer:
  fixes x :: rat
  shows "\<bar>of_int \<lfloor>x + 1 / 2\<rfloor> - x\<bar> \<le> \<bar>of_int n - x\<bar>"
proof -
  let ?k = "\<lfloor>x + 1 / 2\<rfloor>"
  have k: "of_int ?k \<le> x + 1 / 2" "x + 1 / 2 < of_int ?k + 1" by linarith+
  consider "n = ?k" | "?k + 1 \<le> n" | "n \<le> ?k - 1" by linarith
  then show ?thesis
  proof cases
    case 2
    then have "of_int (?k + 1) \<le> (of_int n :: rat)" by (simp only: of_int_le_iff)
    then show ?thesis using k by linarith
  next
    case 3
    then have "of_int n \<le> (of_int (?k - 1) :: rat)" by (simp only: of_int_le_iff)
    then show ?thesis using k by linarith
  qed simp
qed

lemma double_divider:
  assumes "0 \<le> t" "ideal_divider t d \<le> 255"
  shows "\<bar>f64 (f64 (t / FREQ_MULT) * of_nat d) - ideal_divider t d\<bar> \<le> 1 / 10 ^ 9"
proof -
  define a where "a = t / 25"
  have a: "0 \<le> a" "a * of_nat d \<le> 255" "ideal_divider t d = a * of_nat d" using assms by (simp_all add: a_def ideal_divider_def)
  have "\<bar>f64 a - a\<bar> \<le> a / 2 ^ 53" using rnd_error [of 53 a] a(1) by (simp add: f64_def)
  then have "\<bar>f64 a - a\<bar> * of_nat d \<le> a / 2 ^ 53 * of_nat d" by (rule mult_right_mono) simp
  then have y: "\<bar>f64 a * of_nat d - a * of_nat d\<bar> \<le> 255 / 2 ^ 53" using a(2) by (simp add: abs_mult flip: left_diff_distrib)
  have nn: "0 \<le> a * of_nat d" using a(1) by simp
  have small: "(255 :: rat) / 2 ^ 53 \<le> 1" by simp
  have "\<bar>f64 a * of_nat d\<bar> \<le> 256" using y a(2) nn small by (simp only: abs_le_iff) linarith
  then have "\<bar>f64 (f64 a * of_nat d) - f64 a * of_nat d\<bar> \<le> 256 / 2 ^ 53"
    using rnd_error [of 53 "f64 a * of_nat d"] by (simp add: f64_def)
  then have "\<bar>f64 (f64 a * of_nat d) - a * of_nat d\<bar> \<le> 255 / 2 ^ 53 + 256 / 2 ^ 53" using y by linarith
  then show ?thesis by (simp add: a(3) a_def FREQ_MULT_def)
qed

lemma frequency_close:
  assumes "unat fb < 256" "2 \<le> d"
  shows "\<bar>pll_frequency fb d - 25 * of_nat (unat fb) / of_nat d\<bar> \<le> 1 / 1000"
proof -
  define m where "m = (of_nat (unat fb) :: rat)"
  have "of_nat (unat fb) \<le> (of_nat 255 :: rat)" using assms(1) by (simp only: of_nat_le_iff)
  then have m: "0 \<le> m" "m \<le> 255" unfolding m_def by - (rule of_nat_0_le_iff, simp)
  have "f64 (25 * m) = 25 * m"
  proof -
    have "\<bar>25 * int (unat fb)\<bar> < 2 ^ 53" using assms(1) by (simp del: of_nat_unat)
    then have "rnd 53 (of_int (25 * int (unat fb))) = of_int (25 * int (unat fb))" by (rule rnd_int)
    then show ?thesis by (simp add: f64_def m_def)
  qed
  moreover define q where "q = 25 * m / of_nat d"
  have "25 * m / of_nat d \<le> 25 * m / 2" using assms(2) m(1) by (intro divide_left_mono) (simp_all add: of_nat_le_iff [of 2, where 'a = rat, simplified])
  then have q: "0 \<le> q" "q \<le> 3200" using m by (simp_all add: q_def)
  have "\<bar>f64 q - q\<bar> \<le> q / 2 ^ 53" using rnd_error [of 53 q] q(1) by (simp add: f64_def)
  moreover have "q / 2 ^ 53 \<le> 3200 / 2 ^ 53" using q(2) by (rule divide_right_mono) simp
  ultimately have e: "\<bar>f64 q - q\<bar> \<le> 3200 / 2 ^ 53" "f64 (25 * m) = 25 * m" by linarith+
  moreover have "(3200 :: rat) / 2 ^ 53 \<le> 1" by simp
  ultimately have "\<bar>f64 q\<bar> \<le> 3201" using q by linarith
  then have "\<bar>f32 (f64 q) - f64 q\<bar> \<le> 3201 / 2 ^ 24"
    using rnd_error [of 24 "f64 q"] by (simp add: f32_def)
  then have "\<bar>f32 (f64 q) - q\<bar> \<le> 3201 / 2 ^ 24 + 3200 / 2 ^ 53" using e(1) by linarith
  then show ?thesis unfolding pll_frequency_def FREQ_MULT_def m_def [symmetric] e(2) q_def [symmetric] by simp
qed

text \<open>A combination whose ideal divider lies between the limits is one the search tries, with the nearest divider.\<close>

lemma ideal_candidate:
  assumes "0 \<le> t" "p2 < p1" "0 < p2" "0 < r" "of_nat (unat lo) \<le> ideal_divider t (r * p1 * p2)" "ideal_divider t (r * p1 * p2) \<le> of_nat (unat hi)" "hi < 256"
  shows "pll_candidate t lo hi (r, p1, p2)"
    "\<bar>t - candidate_frequency t (r, p1, p2)\<bar> \<le> \<bar>t - 25 * of_int n / of_nat (r * p1 * p2)\<bar> + 2 / 1000"
proof -
  define d where "d = r * p1 * p2"
  define i where "i = ideal_divider t d"
  define x where "x = f64 (f64 (t / FREQ_MULT) * of_nat d)"
  define k where "k = \<lfloor>x + 1 / 2\<rfloor>"
  have hi: "unat hi \<le> 255" using assms(7) by (simp add: word_less_nat_alt)
  then have "rat_of_nat (unat hi) \<le> of_nat 255" by (simp only: of_nat_le_iff)
  then have i: "of_nat (unat lo) \<le> i" "i \<le> of_nat (unat hi)" "i \<le> 255" using assms(5,6) by (simp_all add: i_def d_def)
  then have x: "\<bar>x - i\<bar> \<le> 1 / 10 ^ 9" unfolding x_def i_def using assms(1) by (intro double_divider) (simp_all add: i_def)
  have e: "(1 :: rat) / 10 ^ 9 < 1 / 2" by simp
  have "of_int (int (unat lo)) \<le> x + 1 / 2" unfolding of_int_of_nat_eq using x i(1) e by linarith
  then have "int (unat lo) \<le> k" unfolding k_def le_floor_iff .
  moreover have "x + 1 / 2 < of_int (int (unat hi) + 1)" unfolding of_int_add of_int_of_nat_eq of_int_1 using x i(2) e by linarith
  then have "k < int (unat hi) + 1" unfolding k_def floor_less_iff .
  ultimately have k: "int (unat lo) \<le> k" "k \<le> int (unat hi)" "0 \<le> k" "k \<le> 255" using hi by linarith+
  have fb: "pll_fb_divider t (r, p1, p2) = of_int k" by (simp add: pll_fb_divider_def round_u16_def k_def x_def d_def mult.assoc)
  have un: "unat (of_int k :: u16) = nat k"
    using k(3,4) by (simp add: unsigned_of_int take_bit_int_eq_self)
  show "pll_candidate t lo hi (r, p1, p2)"
    using k assms(2) unfolding pll_candidate_def by (simp add: fb word_le_nat_alt un nat_le_iff le_nat_iff)
  have "2 \<le> p1" "1 \<le> p2" "1 \<le> r" using assms by linarith+
  then have "1 * 2 * 1 \<le> r * p1 * p2" by (intro mult_le_mono)
  then have d: "2 \<le> d" by (simp add: d_def)
  have "\<bar>candidate_frequency t (r, p1, p2) - 25 * of_nat (unat (of_int k :: u16)) / of_nat d\<bar> \<le> 1 / 1000"
    unfolding candidate_frequency_def prod.case fb d_def [symmetric] using d un k by (intro frequency_close) (simp_all add: nat_less_iff)
  then have f: "\<bar>candidate_frequency t (r, p1, p2) - 25 * of_int k / of_nat d\<bar> \<le> 1 / 1000" using un k(3) by simp
  have "\<bar>of_int k - x\<bar> \<le> \<bar>of_int n - x\<bar>" unfolding k_def by (rule nearest_integer)
  then have near: "\<bar>of_int k - i\<bar> \<le> \<bar>of_int n - i\<bar> + 2 / 10 ^ 9" using x by linarith
  have small: "(50 :: rat) / 10 ^ 9 \<le> 1 / 1000" by simp
  have dist: "\<bar>t - 25 * of_int j / of_nat d\<bar> = 25 / of_nat d * \<bar>of_int j - i\<bar>" for j :: int
  proof -
    have e: "t - 25 * of_int j / of_nat d = 25 / of_nat d * (i - of_int j)" using d by (simp add: i_def ideal_divider_def field_simps)
    show ?thesis unfolding e abs_mult by (simp add: abs_minus_commute)
  qed
  have q: "0 \<le> 25 / rat_of_nat d" "25 / rat_of_nat d \<le> 25"
  proof -
    have "1 \<le> rat_of_nat d" using d by simp
    then show "25 / rat_of_nat d \<le> 25" by (simp add: divide_le_eq)
  qed simp
  have "25 / of_nat d * \<bar>of_int k - i\<bar> \<le> 25 / of_nat d * (\<bar>of_int n - i\<bar> + 2 / 10 ^ 9)" using near q(1) by (rule mult_left_mono)
  also have "\<dots> \<le> 25 / of_nat d * \<bar>of_int n - i\<bar> + 25 * (2 / 10 ^ 9)"
    unfolding distrib_left using q(2) by (intro add_left_mono mult_right_mono) simp_all
  finally have "\<bar>t - 25 * of_int k / of_nat d\<bar> \<le> \<bar>t - 25 * of_int n / of_nat d\<bar> + 50 / 10 ^ 9" by (simp add: dist)
  then show "\<bar>t - candidate_frequency t (r, p1, p2)\<bar> \<le> \<bar>t - 25 * of_int n / of_nat (r * p1 * p2)\<bar> + 2 / 1000"
    unfolding d_def [symmetric] using f small by linarith
qed

lemma candidate_dividers:
  assumes "c \<in> set pll_combinations"
  obtains r p1 p2 where "c = (r, p1, p2)" "r = 1 \<or> r = 2" "0 < p2" "p1 \<le> 7"
proof -
  have "list_all (\<lambda>(r, p1, p2). (r = 1 \<or> r = 2) \<and> 0 < p2 \<and> p1 \<le> 7) pll_combinations" by code_simp
  then show thesis using assms that by (cases c) (auto simp: list_all_iff)
qed

lemma dividers_combination:
  assumes "r = 1 \<or> r = 2" "0 < p2" "p2 < p1" "p1 \<le> 7"
  shows "(r, p1, p2) \<in> set pll_combinations"
proof -
  have "list_all (\<lambda>r. list_all (\<lambda>p1. list_all (\<lambda>p2. (r, p1, p2) \<in> set pll_combinations) [1..<8]) [1..<8]) [1, 2]" by code_simp
  then show ?thesis using assms by (auto simp: list_all_iff)
qed

text \<open>What the search returns, in terms of the combinations it tries.\<close>

lemma pll_returns:
  fixes lo :: u16
  assumes "0 \<le> t" "t \<le> 100000" "hi < 256"
  defines "p \<equiv> pll_get_parameters t lo hi"
  shows "p = pll_start \<and> (\<forall>c \<in> set pll_combinations. \<not> pll_candidate t lo hi c) \<or>
    (lo \<le> ucast (best_fb_divider p) \<and> ucast (best_fb_divider p) \<le> hi \<and>
     best_refdiv p \<in> {1, 2} \<and> 0 < best_postdiv2 p \<and> best_postdiv2 p < best_postdiv1 p \<and> best_postdiv1 p \<le> 7 \<and>
     best_freq p = pll_frequency (ucast (best_fb_divider p)) (best_refdiv p * best_postdiv1 p * best_postdiv2 p) \<and>
     (\<forall>c \<in> set pll_combinations. pll_candidate t lo hi c \<longrightarrow> \<bar>f32 (t - best_freq p)\<bar> \<le> \<bar>f32 (t - candidate_frequency t c)\<bar> + 1 / 100))"
proof (cases "\<exists>c \<in> set pll_combinations. pll_candidate t lo hi c")
  case False
  have "near_best t lo hi pll_combinations pll_start p" unfolding p_def pll_get_parameters_def by (rule pll_fold)
  with False show ?thesis by (auto simp: near_best_def)
next
  case True
  have len: "length pll_combinations = 98" by code_simp
  have nb: "near_best t lo hi pll_combinations pll_start p" unfolding p_def pll_get_parameters_def by (rule pll_fold)
  have best: "min_diff p \<le> candidate_diff t c + 1 / 100" if "c \<in> set pll_combinations" "pll_candidate t lo hi c" for c
  proof -
    have "min_diff p \<le> candidate_diff t c + of_nat (length pll_combinations) / 9800"
      using nb that by (auto simp: near_best_def)
    then show ?thesis by (simp add: len)
  qed
  have "p \<noteq> pll_start"
  proof
    assume "p = pll_start"
    moreover obtain c where "c \<in> set pll_combinations" "pll_candidate t lo hi c" using True by blast
    ultimately show False using best [of c] candidate_diff_bound [OF assms(1,2), of c] by (simp add: pll_start_def)
  qed
  then obtain c where c: "c \<in> set pll_combinations" "pll_candidate t lo hi c" "chosen t c p"
    using nb by (auto simp: near_best_def)
  obtain r p1 p2 where rp: "c = (r, p1, p2)" "r = 1 \<or> r = 2" "0 < p2" "p1 \<le> 7" using c(1) by (rule candidate_dividers)
  have small: "unat (pll_fb_divider t c) < 256"
    using c(2) assms(3) by (simp add: rp(1) pll_candidate_def word_less_nat_alt word_le_nat_alt)
  then have fb: "ucast (best_fb_divider p) = pll_fb_divider t c"
    using c(3) by (simp add: chosen_def word_unat_eq_iff unsigned_ucast_eq take_bit_eq_mod)
  show ?thesis
    using c rp(2-4) fb best by (auto simp: rp(1) chosen_def pll_candidate_def candidate_frequency_def candidate_diff_def)
qed

lemma f32_margin:
  assumes "\<bar>f32 a\<bar> \<le> \<bar>f32 b\<bar> + 1 / 100" "\<bar>b\<bar> \<le> 10000"
  shows "\<bar>a\<bar> \<le> \<bar>b\<bar> + 12 / 1000"
proof -
  have "\<bar>f32 b - b\<bar> \<le> \<bar>b\<bar> / 2 ^ 24" "\<bar>f32 a - a\<bar> \<le> \<bar>a\<bar> / 2 ^ 24" using rnd_error [of 24] by (simp_all add: f32_def)
  moreover have "\<bar>b\<bar> / 2 ^ 24 \<le> 10000 / 2 ^ 24" using assms(2) by (rule divide_right_mono) simp
  ultimately show ?thesis using assms by (simp add: abs_if split: if_splits)
qed

text \<open>
  C35. The search returns dividers of the allowed ranges with the frequency they give, and no combination of dividers
  is closer to the target by more than a fiftieth of a MHz: take any reference and post dividers for which the
  feedback divider the target asks for (in exact arithmetic) lies between the limits, and any feedback divider
  whatever. It returns zeros only when no reference and post dividers have that divider between the limits.
\<close>

theorem pll_near_best:
  fixes lo :: u16
  assumes "0 \<le> t" "t \<le> 100000" "hi < 256"
  defines "p \<equiv> pll_get_parameters t lo hi"
    and "asked \<equiv> (\<lambda>r p1 p2. r \<in> {1, 2} \<and> 0 < p2 \<and> p2 < p1 \<and> p1 \<le> 7 \<and>
      of_nat (unat lo) \<le> t * of_nat (r * p1 * p2) / 25 \<and> t * of_nat (r * p1 * p2) / 25 \<le> of_nat (unat hi))"
  shows "p = pll_start \<and> (\<nexists>r p1 p2. asked r p1 p2) \<or>
    (lo \<le> ucast (best_fb_divider p) \<and> ucast (best_fb_divider p) \<le> hi \<and>
     best_refdiv p \<in> {1, 2} \<and> 0 < best_postdiv2 p \<and> best_postdiv2 p < best_postdiv1 p \<and> best_postdiv1 p \<le> 7 \<and>
     best_freq p = pll_frequency (ucast (best_fb_divider p)) (best_refdiv p * best_postdiv1 p * best_postdiv2 p) \<and>
     (\<forall>r p1 p2 n. asked r p1 p2 \<longrightarrow> \<bar>t - best_freq p\<bar> \<le> \<bar>t - 25 * of_int n / of_nat (r * p1 * p2)\<bar> + 1 / 50))"
proof -
  have cand: "(r, p1, p2) \<in> set pll_combinations" "pll_candidate t lo hi (r, p1, p2)"
    "\<bar>t - candidate_frequency t (r, p1, p2)\<bar> \<le> \<bar>t - 25 * of_int n / of_nat (r * p1 * p2)\<bar> + 2 / 1000"
    if "asked r p1 p2" for r p1 p2 n
    using that ideal_candidate(1) [of t p2 p1 r lo hi] ideal_candidate(2) [of t p2 p1 r lo hi n] dividers_combination [of r p2 p1] assms(1,3)
    by (auto simp: asked_def ideal_divider_def)
  have "\<bar>t - best_freq p\<bar> \<le> \<bar>t - 25 * of_int n / of_nat (r * p1 * p2)\<bar> + 1 / 50"
    if a: "asked r p1 p2" and b: "\<bar>f32 (t - best_freq p)\<bar> \<le> \<bar>f32 (t - candidate_frequency t (r, p1, p2))\<bar> + 1 / 100" for r p1 p2 n
  proof -
    have "1 \<le> r * p1 * p2" using a by (auto simp: asked_def)
    then have "rat_of_nat 1 \<le> of_nat (r * p1 * p2)" by (simp only: of_nat_le_iff)
    then have "(1 :: rat) \<le> of_nat (r * p1 * p2)" unfolding of_nat_1 .
    then have "t * 1 \<le> t * of_nat (r * p1 * p2)" using assms(1) by (rule mult_left_mono)
    moreover have "unat hi \<le> 255" using assms(3) by (simp add: word_less_nat_alt)
    then have "rat_of_nat (unat hi) \<le> of_nat 255" by (simp only: of_nat_le_iff)
    ultimately have "\<bar>t\<bar> \<le> 6375" using a assms(1) by (simp add: asked_def)
    then have "\<bar>t - candidate_frequency t (r, p1, p2)\<bar> \<le> 10000"
      using cand(3) [OF a, of 0] by simp
    then have "\<bar>t - best_freq p\<bar> \<le> \<bar>t - candidate_frequency t (r, p1, p2)\<bar> + 12 / 1000" using b by (intro f32_margin)
    then show ?thesis using cand(3) [OF a, of n] by linarith
  qed
  then show ?thesis using pll_returns [OF assms(1-3), of lo, folded p_def] cand(1,2) by blast
qed

text \<open>The witness: 524.999 MHz is met within 0.021 MHz, although the next smaller divider is 2.5 MHz away.\<close>

theorem pll_near_best_witness:
  "best_fb_divider (pll_get_parameters (524999 / 1000) 160 239) \<noteq> 0 \<and>
   \<bar>524999 / 1000 - best_freq (pll_get_parameters (524999 / 1000) 160 239)\<bar> \<le> 21 / 1000"
proof -
  let ?p = "pll_get_parameters (524999 / 1000) 160 239" and ?t = "524999 / 1000 :: rat"
  have h: "2 \<in> {1, 2 :: nat} \<and> 0 < (1 :: nat) \<and> 1 < (5 :: nat) \<and> 5 \<le> (7 :: nat) \<and> of_nat (unat (160 :: u16)) \<le> ?t * of_nat (2 * 5 * 1) / 25 \<and>
      ?t * of_nat (2 * 5 * 1) / 25 \<le> of_nat (unat (239 :: u16))" by simp
  have n: "(160 :: u16) \<le> ucast (best_fb_divider ?p)" "\<bar>?t - best_freq ?p\<bar> \<le> \<bar>?t - 25 * of_int 210 / of_nat (2 * 5 * 1)\<bar> + 1 / 50"
  proof -
    have "0 \<le> ?t" "?t \<le> 100000" "(239 :: u16) < 256" by simp_all
    note n = pll_near_best [OF this, of 160]
    show "(160 :: u16) \<le> ucast (best_fb_divider ?p)" using n h by blast
    show "\<bar>?t - best_freq ?p\<bar> \<le> \<bar>?t - 25 * of_int 210 / of_nat (2 * 5 * 1)\<bar> + 1 / 50" using n h by blast
  qed
  have "best_fb_divider ?p \<noteq> 0" using n(1) by auto
  then show ?thesis using n(2) by simp
qed

section \<open>The ramp moves in small steps and arrives\<close>

lemma f64_close:
  assumes "0 \<le> x" "x \<le> 16000"
  shows "\<bar>f64 x - x\<bar> \<le> 1 / 1000000"
proof -
  have "\<bar>f64 x - x\<bar> \<le> x / 2 ^ 53" using rnd_error [of 53 x] assms(1) by (simp add: f64_def)
  also have "\<dots> \<le> 16000 / 2 ^ 53" using assms(2) by (rule divide_right_mono) simp
  finally show ?thesis by simp
qed

lemma step_frequency_exact:
  assumes "\<bar>s\<bar> \<le> 20000"
  shows "step_frequency s = of_int s * 25 / 4"
proof -
  have r: "rnd p (of_int (25 * s) * 2 powi (- 2)) = of_int (25 * s) * 2 powi (- 2)" if "24 \<le> p" for p
  proof -
    have "\<bar>25 * s\<bar> < 2 ^ 24" using assms by (simp add: abs_mult)
    also have "(2::int) ^ 24 \<le> 2 ^ p" using that by (rule power_increasing) simp
    finally show ?thesis by (simp only: rnd_scale rnd_int)
  qed
  have "of_int s * STEP_SIZE = of_int (25 * s) * 2 powi (- 2)" by (simp add: STEP_SIZE_def)
  then have "step_frequency s = of_int (25 * s) * 2 powi (- 2)"
    by (simp only: step_frequency_def f64_def f32_def r)
  then show ?thesis by simp
qed

lemma ramp_steps_up: "ramp_steps 1 t c = [c + 1..t]"
proof (induction "1::int" t c rule: ramp_steps.induct)
  case (1 t c)
  then show ?case by (subst ramp_steps.simps) (simp add: upto_rec1)
qed

lemma ramp_steps_down: "ramp_steps (- 1) t c = rev [t..c - 1]"
proof (induction "- 1::int" t c rule: ramp_steps.induct)
  case (1 t c)
  then show ?case by (subst ramp_steps.simps) (simp add: upto_rec2)
qed

text \<open>Neighbours in a list of frequencies are at most a step of 6.25 MHz and the rounding apart.\<close>

definition small_steps :: "rat list \<Rightarrow> bool" where
  "small_steps = successively (\<lambda>a b. \<bar>b - a\<bar> \<le> 6251 / 1000)"

lemma small_steps_up:
  assumes "\<bar>c\<bar> \<le> 20000" "\<bar>t\<bar> \<le> 20000"
  shows "small_steps (map step_frequency [c..t])"
  unfolding small_steps_def successively_conv_nth
proof (intro allI impI)
  fix i assume "Suc i < length (map step_frequency [c..t])"
  then have i: "c + int i < t" by simp
  then show "\<bar>map step_frequency [c..t] ! Suc i - map step_frequency [c..t] ! i\<bar> \<le> 6251 / 1000"
    using assms by (simp add: nth_upto step_frequency_exact algebra_simps add_divide_distrib)
qed

lemma small_steps_rev: "small_steps (rev xs) = small_steps xs"
  by (simp add: small_steps_def successively_rev abs_minus_commute)

lemma small_steps_Cons: "small_steps (a # xs) \<longleftrightarrow> (xs \<noteq> [] \<longrightarrow> \<bar>hd xs - a\<bar> \<le> 6251 / 1000) \<and> small_steps xs"
  by (cases xs) (auto simp: small_steps_def)

lemma small_steps_snoc: "small_steps (xs @ [b]) \<longleftrightarrow> (xs \<noteq> [] \<longrightarrow> \<bar>b - last xs\<bar> \<le> 6251 / 1000) \<and> small_steps xs"
  by (auto simp: small_steps_def successively_append_iff)

text \<open>Rounding a frequency down (up) to a step.\<close>

lemma floor_step:
  assumes "0 \<le> x" "x \<le> 100000"
  defines "s \<equiv> \<lfloor>f64 (x / STEP_SIZE)\<rfloor>"
  shows "\<bar>s\<bar> \<le> 16001" "- (1 / 10000) \<le> x - of_int s * 25 / 4" "x - of_int s * 25 / 4 \<le> 25 / 4 + 1 / 10000"
proof -
  define y where "y = x / STEP_SIZE"
  have x: "x = y * 25 / 4" "0 \<le> y" "y \<le> 16000" using assms by (simp_all add: y_def STEP_SIZE_def)
  then have "\<bar>f64 y - y\<bar> \<le> 1 / 1000000" by (intro f64_close)
  then have e: "f64 y \<le> y + 1 / 1000000" "y - 1 / 1000000 \<le> f64 y" by linarith+
  have s: "of_int s \<le> f64 y" "f64 y < of_int s + 1"
    unfolding s_def y_def by linarith+
  show "- (1 / 10000) \<le> x - of_int s * 25 / 4" "x - of_int s * 25 / 4 \<le> 25 / 4 + 1 / 10000"
    using e s x by linarith+
  have "(of_int s :: rat) < of_int 16002" using e s x(3) by simp
  moreover have "of_int (- 2) < (of_int s :: rat)" using e s x(2) by simp
  ultimately have "s < 16002" "- 2 < s" by (simp_all only: of_int_less_iff)
  then show "\<bar>s\<bar> \<le> 16001" by linarith
qed

lemma ceiling_step:
  assumes "0 \<le> x" "x \<le> 100000"
  defines "s \<equiv> \<lceil>f64 (x / STEP_SIZE)\<rceil>"
  shows "\<bar>s\<bar> \<le> 16001" "- (1 / 10000) \<le> of_int s * 25 / 4 - x" "of_int s * 25 / 4 - x \<le> 25 / 4 + 1 / 10000"
proof -
  define y where "y = x / STEP_SIZE"
  have x: "x = y * 25 / 4" "0 \<le> y" "y \<le> 16000" using assms by (simp_all add: y_def STEP_SIZE_def)
  then have "\<bar>f64 y - y\<bar> \<le> 1 / 1000000" by (intro f64_close)
  then have e: "f64 y \<le> y + 1 / 1000000" "y - 1 / 1000000 \<le> f64 y" by linarith+
  have s: "f64 y \<le> of_int s" "of_int s < f64 y + 1"
    unfolding s_def y_def by linarith+
  show "- (1 / 10000) \<le> of_int s * 25 / 4 - x" "of_int s * 25 / 4 - x \<le> 25 / 4 + 1 / 10000"
    using e s x by linarith+
  have "(of_int s :: rat) < of_int 16002" using e s x(3) by simp
  moreover have "of_int (- 2) < (of_int s :: rat)" using e s x(2) by simp
  ultimately have "s < 16002" "- 2 < s" by (simp_all only: of_int_less_iff)
  then show "\<bar>s\<bar> \<le> 16001" by linarith
qed

lemma hd_map_upto: "a \<le> b \<Longrightarrow> hd (map f [a..b]) = f a"
  by (subst upto_rec1) simp_all

lemma last_map_upto: "a \<le> b \<Longrightarrow> last (map f [a..b]) = f b"
  by (subst upto_rec2) simp_all

text \<open>The frequencies of the \<open>while\<close> loop, from the current one on.\<close>

definition ramp_path :: "bool \<Rightarrow> rat \<Rightarrow> rat \<Rightarrow> rat list" where
  "ramp_path rising target current =
     current # map step_frequency
       (if rising then ramp_steps 1 \<lfloor>f64 (target / STEP_SIZE)\<rfloor> \<lfloor>f64 (current / STEP_SIZE)\<rfloor>
        else ramp_steps (- 1) \<lceil>f64 (target / STEP_SIZE)\<rceil> \<lceil>f64 (current / STEP_SIZE)\<rceil>)"

lemma ramp_path_rising:
  assumes "0 \<le> current" "current \<le> target" "target \<le> 100000"
  shows "small_steps (ramp_path True target current) \<and> \<bar>target - last (ramp_path True target current)\<bar> \<le> 6251 / 1000"
proof -
  define t c where "t = \<lfloor>f64 (target / STEP_SIZE)\<rfloor>" and "c = \<lfloor>f64 (current / STEP_SIZE)\<rfloor>"
  have bc: "\<bar>c\<bar> \<le> 16001" "- (1 / 10000) \<le> current - of_int c * 25 / 4" "current - of_int c * 25 / 4 \<le> 25 / 4 + 1 / 10000"
    using floor_step [of current] assms by (simp_all add: c_def)
  have bt: "\<bar>t\<bar> \<le> 16001" "- (1 / 10000) \<le> target - of_int t * 25 / 4" "target - of_int t * 25 / 4 \<le> 25 / 4 + 1 / 10000"
    using floor_step [of target] assms by (simp_all add: t_def)
  have path: "ramp_path True target current = current # map step_frequency [c + 1..t]"
    by (simp add: ramp_path_def ramp_steps_up t_def c_def)
  show ?thesis
  proof (cases "c + 1 \<le> t")
    case True
    define fs where "fs = map step_frequency [c + 1..t]"
    have "hd fs = of_int c * 25 / 4 + 25 / 4" "last fs = of_int t * 25 / 4"
      unfolding fs_def hd_map_upto [OF True] last_map_upto [OF True] using bc(1) bt(1) by (simp_all add: step_frequency_exact algebra_simps add_divide_distrib diff_divide_distrib)
    then have "\<bar>hd fs - current\<bar> \<le> 6251 / 1000" "\<bar>target - last fs\<bar> \<le> 6251 / 1000"
      using bc(2,3) bt(2,3) by - (rule abs_leI; linarith)+
    moreover have "fs \<noteq> []" "small_steps fs" using True bc(1) bt(1) by (simp_all add: fs_def small_steps_up)
    ultimately show ?thesis by (simp add: path small_steps_Cons flip: fs_def)
  next
    case False
    then have "of_int t \<le> (of_int c :: rat)" by simp
    then have "\<bar>target - current\<bar> \<le> 6251 / 1000" using bc bt assms by linarith
    with False show ?thesis by (simp add: path small_steps_def)
  qed
qed

lemma ramp_path_falling:
  assumes "0 \<le> target" "target \<le> current" "current \<le> 100000"
  shows "small_steps (ramp_path False target current) \<and> \<bar>target - last (ramp_path False target current)\<bar> \<le> 6251 / 1000"
proof -
  define t c where "t = \<lceil>f64 (target / STEP_SIZE)\<rceil>" and "c = \<lceil>f64 (current / STEP_SIZE)\<rceil>"
  have bc: "\<bar>c\<bar> \<le> 16001" "- (1 / 10000) \<le> of_int c * 25 / 4 - current" "of_int c * 25 / 4 - current \<le> 25 / 4 + 1 / 10000"
    using ceiling_step [of current] assms by (simp_all add: c_def)
  have bt: "\<bar>t\<bar> \<le> 16001" "- (1 / 10000) \<le> of_int t * 25 / 4 - target" "of_int t * 25 / 4 - target \<le> 25 / 4 + 1 / 10000"
    using ceiling_step [of target] assms by (simp_all add: t_def)
  have path: "ramp_path False target current = current # rev (map step_frequency [t..c - 1])"
    by (simp add: ramp_path_def ramp_steps_down t_def c_def rev_map)
  show ?thesis
  proof (cases "t \<le> c - 1")
    case True
    define fs where "fs = rev (map step_frequency [t..c - 1])"
    have "hd fs = of_int c * 25 / 4 - 25 / 4" "last fs = of_int t * 25 / 4"
      unfolding fs_def hd_rev last_rev hd_map_upto [OF True] last_map_upto [OF True] using bc(1) bt(1) by (simp_all add: step_frequency_exact algebra_simps add_divide_distrib diff_divide_distrib)
    then have "\<bar>hd fs - current\<bar> \<le> 6251 / 1000" "\<bar>target - last fs\<bar> \<le> 6251 / 1000"
      using bc(2,3) bt(2,3) by - (rule abs_leI; linarith)+
    moreover have "fs \<noteq> []" "small_steps fs" using True bc(1) bt(1) by (simp_all add: fs_def small_steps_up small_steps_rev)
    ultimately show ?thesis by (simp add: path small_steps_Cons flip: fs_def)
  next
    case False
    then have "of_int c \<le> (of_int t :: rat)" by simp
    then have "\<bar>target - current\<bar> \<le> 6251 / 1000" using bc bt assms by linarith
    with False show ?thesis by (simp add: path small_steps_def)
  qed
qed

lemma transition_as_path:
  assumes "EPSILON \<le> \<bar>f32 (current - target)\<bar>" "STEP_SIZE \<le> \<bar>f32 (target - current)\<bar>"
  defines "path \<equiv> ramp_path (current < target) target current"
  shows "current # map fst (frequency_transition target current) =
           path @ (if EPSILON < \<bar>f32 (last path - target)\<bar> then [target] else [])"
proof -
  have same: "ramp_steps 1 c c = []" "ramp_steps (- 1) c c = []" for c
    by (subst ramp_steps.simps; simp)+
  show ?thesis
    using assms by (auto simp: frequency_transition_def Let_def ramp_path_def last_map same)
qed

text \<open>
  Changing the frequency never moves the PLL by more than 6.251 MHz at once, and the last frequency set
  (or the current one when none is set) is the target within the tolerance of 0.0001.
\<close>

theorem transition_small_steps:
  assumes "0 \<le> current" "current \<le> 100000" "0 \<le> target" "target \<le> 100000"
  shows "(\<forall>i < length (frequency_transition target current).
            \<bar>(current # map fst (frequency_transition target current)) ! Suc i -
             (current # map fst (frequency_transition target current)) ! i\<bar> \<le> 6251 / 1000) \<and>
         (last (current # map fst (frequency_transition target current)) = target \<or>
          \<bar>f32 (last (current # map fst (frequency_transition target current)) - target)\<bar> \<le> EPSILON)"
proof -
  let ?fs = "current # map fst (frequency_transition target current)"
  have "small_steps ?fs \<and> (last ?fs = target \<or> \<bar>f32 (last ?fs - target)\<bar> \<le> EPSILON)"
  proof (cases "\<bar>f32 (current - target)\<bar> < EPSILON")
    case True
    then show ?thesis by (simp add: frequency_transition_def small_steps_def)
  next
    case far: False
    show ?thesis
    proof (cases "\<bar>f32 (target - current)\<bar> < STEP_SIZE")
      case True
      have "\<bar>target - current\<bar> \<le> 6251 / 1000"
      proof (rule ccontr)
        assume big: "\<not> \<bar>target - current\<bar> \<le> 6251 / 1000"
        have "\<bar>f32 (target - current) - (target - current)\<bar> \<le> \<bar>target - current\<bar> / 2 ^ 24"
          using rnd_error [of 24 "target - current"] by (simp add: f32_def)
        then have "\<bar>target - current\<bar> * (1 - 1 / 2 ^ 24) \<le> \<bar>f32 (target - current)\<bar>" by (simp add: abs_if split: if_splits)
        moreover have "6251 / 1000 * (1 - 1 / 2 ^ 24) \<le> \<bar>target - current\<bar> * (1 - 1 / 2 ^ 24)"
          using big by (intro mult_right_mono) simp_all
        ultimately have "6251 / 1000 * (1 - 1 / 2 ^ 24) \<le> \<bar>f32 (target - current)\<bar>" by linarith
        with True show False by (simp add: STEP_SIZE_def)
      qed
      with True far show ?thesis by (simp add: frequency_transition_def small_steps_def)
    next
      case False
      let ?path = "ramp_path (current < target) target current"
      have path: "small_steps ?path" "\<bar>target - last ?path\<bar> \<le> 6251 / 1000"
        using ramp_path_rising [of current target] ramp_path_falling [of target current] assms
        by (cases "current < target"; simp)+
      have ne: "?path \<noteq> []" by (simp add: ramp_path_def)
      have fs: "?fs = ?path @ (if EPSILON < \<bar>f32 (last ?path - target)\<bar> then [target] else [])"
        using far False by (intro transition_as_path) simp_all
      show ?thesis unfolding fs using path ne by (auto simp: small_steps_snoc)
    qed
  qed
  then show ?thesis unfolding small_steps_def successively_conv_nth by simp
qed

theorem transition_small_steps_witness:
  "last (50 # map fst (frequency_transition 525 50)) = 525 \<or> \<bar>f32 (last (50 # map fst (frequency_transition 525 50)) - 525)\<bar> \<le> EPSILON"
  using transition_small_steps [of 50 525] by simp

end
