(* ===== verification/Asic_Driver.thy ===== *)
theory Asic_Driver
  imports Asic_Common Mining Pll "HOL-Library.Multiset"
begin

text \<open>
  What the four ASIC drivers (\<open>components/asic/bm1397.c\<close>, \<open>bm1366.c\<close>, \<open>bm1368.c\<close>, \<open>bm1370.c\<close>) share:
  the data of \<open>asic_common.h\<close>, the job tables of the global state, the frames of the serial protocol, the
  execution of a frequency ramp, and the contract every driver keeps towards the job tables.

  A driver operation returns the events it causes on the serial line, in order, and the changed state.
\<close>

section \<open>Data\<close>

datatype register_type =
  REGISTER_INVALID | REGISTER_HASHRATE | REGISTER_TOTAL_COUNT | REGISTER_DOMAIN_0_COUNT | REGISTER_DOMAIN_1_COUNT
| REGISTER_DOMAIN_2_COUNT | REGISTER_DOMAIN_3_COUNT | REGISTER_ERROR_COUNT | REGISTER_PLL_PARAM

text \<open>\<open>MIDSTATE_INDEX_NONE\<close>: no precomputed midstate applies.\<close>

definition MIDSTATE_INDEX_NONE :: u8 where
  "MIDSTATE_INDEX_NONE = 0xFF"

record task_result =
  result_job_id :: u8
  result_nonce :: u32
  result_rolled_version :: u32
  result_midstate_index :: u8
  result_register_type :: register_type
  result_asic_nr :: u8
  result_value :: u32
  result_core_id :: u8
  result_small_core_id :: u8
  result_timestamp_us :: u64

text \<open>\<open>memset(&result, 0, sizeof(task_result))\<close>, and the time stamp that \<open>receive_work\<close> fills in.\<close>

definition empty_result :: "u64 \<Rightarrow> task_result" where
  "empty_result now = \<lparr>result_job_id = 0, result_nonce = 0, result_rolled_version = 0, result_midstate_index = 0,
     result_register_type = REGISTER_INVALID, result_asic_nr = 0, result_value = 0, result_core_id = 0,
     result_small_core_id = 0, result_timestamp_us = now\<rparr>"

text \<open>What \<open>process_work\<close> gives: null, a result, or a division by an \<open>address_interval\<close> of zero.\<close>

datatype outcome = No_Result | Result task_result | Division_By_Zero

text \<open>Static variables of a driver, and the part of the device configuration it reads.\<close>

record driver =
  address_interval :: int
  job_counter :: u8

record device =
  asic_count :: u8
  difficulty :: u16
  core_count :: u16
  small_core_count :: u16
  default_asic_timeout :: u16

text \<open>\<open>active_jobs\<close> and \<open>valid_jobs\<close> of the global state, with the 128 entries that \<open>create_jobs_task\<close> allocates.\<close>

record job_tables =
  active_jobs :: "bm_job option list"
  valid_jobs :: "u8 list"

text \<open>Events on the serial line: a frame written, a delay in milliseconds.\<close>

datatype event = Tx bytes | Delay nat

section \<open>Headers\<close>

definition TYPE_JOB :: u8 where "TYPE_JOB = 0x20"
definition TYPE_CMD :: u8 where "TYPE_CMD = 0x40"
definition GROUP_SINGLE :: u8 where "GROUP_SINGLE = 0x00"
definition GROUP_ALL :: u8 where "GROUP_ALL = 0x10"
definition CMD_SETADDRESS :: u8 where "CMD_SETADDRESS = 0x00"
definition CMD_WRITE :: u8 where "CMD_WRITE = 0x01"
definition CMD_READ :: u8 where "CMD_READ = 0x02"
definition CMD_INACTIVE :: u8 where "CMD_INACTIVE = 0x03"

definition write_all :: u8 where "write_all = TYPE_CMD OR GROUP_ALL OR CMD_WRITE"
definition write_single :: u8 where "write_single = TYPE_CMD OR GROUP_SINGLE OR CMD_WRITE"
definition read_all :: u8 where "read_all = TYPE_CMD OR GROUP_ALL OR CMD_READ"
definition job_single :: u8 where "job_single = TYPE_JOB OR GROUP_SINGLE OR CMD_WRITE"

lemmas header_defs =
  TYPE_JOB_def TYPE_CMD_def GROUP_SINGLE_def GROUP_ALL_def CMD_SETADDRESS_def CMD_WRITE_def CMD_READ_def CMD_INACTIVE_def
  write_all_def write_single_def read_all_def job_single_def

definition STRATUM_DEFAULT_VERSION_MASK :: u32 where
  "STRATUM_DEFAULT_VERSION_MASK = 0x1fffe000"

section \<open>Numbers shared by the drivers\<close>

text \<open>
  The conversion of a \<open>double\<close> to \<open>uint32_t\<close> truncates; outside the range of \<open>uint32_t\<close> it is undefined.
\<close>

definition double_to_u32 :: "rat \<Rightarrow> u32 option" where
  "double_to_u32 x = (if - 1 < x \<and> x < 2 ^ 32 then Some (of_int (if 0 \<le> x then \<lfloor>x\<rfloor> else \<lceil>x\<rceil>)) else None)"

text \<open>
  \<open>hcn_max\<close> of the \<open>set_nonce_space\<close> functions: the nonce space of a chip in units of its clock.
  \<open>None\<close> when the frequency is zero (the quotient is infinite) or a power of two is not found.
\<close>

definition hcn_max :: "rat \<Rightarrow> u16 \<Rightarrow> u16 \<Rightarrow> rat option" where
  "hcn_max frequency asic_n cores =
     (case (next_power_of_two (int (unat cores)), next_power_of_two (int (unat asic_n))) of
        (Some cores_up, Some asic_count_up) \<Rightarrow>
          if frequency = 0 then None
          else let hcn_space = f32 (f32 (4294967296 / f32 (of_int cores_up)) / f32 (of_int asic_count_up))
               in Some (f64 (f64 (f64 (hcn_space * FREQ_MULT) / frequency) * (1 / 2)))
      | _ \<Rightarrow> None)"

section \<open>The result fields\<close>

text \<open>Addresses in the response: the number of the chip is the address divided by the interval.\<close>

definition chip_of_address :: "int \<Rightarrow> u8 \<Rightarrow> u8 option" where
  "chip_of_address interval address =
     (if interval = 0 then None else Some (of_int (int (unat address) div interval)))"

text \<open>
  The response to a register read, the same in the four drivers: the entry of the register map decides;
  the map ends at its last register, and an address beyond it is rejected.
\<close>

definition register_response :: "register_type list \<Rightarrow> int \<Rightarrow> u64 \<Rightarrow> bytes \<Rightarrow> outcome" where
  "register_response REGISTER_MAP interval now frame =
     (let asic_address = frame ! 6; register_address = frame ! 7
      in if length REGISTER_MAP \<le> unat register_address then No_Result
         else let register = REGISTER_MAP ! unat register_address
              in if register = REGISTER_INVALID then No_Result
                 else case chip_of_address interval asic_address of
                        None \<Rightarrow> Division_By_Zero
                      | Some nr \<Rightarrow> Result (empty_result now \<lparr>result_register_type := register, result_asic_nr := nr,
                                      result_value := be_word (slice 2 4 frame)\<rparr>))"

definition is_job_response :: "bytes \<Rightarrow> bool" where
  "is_job_response frame \<longleftrightarrow> bit (last frame) 7"

section \<open>Storing a job\<close>

text \<open>
  The critical section of the \<open>send_work\<close> functions: the job already in the slot is freed, the new one
  stored and marked valid. The freed job is returned.
\<close>

definition store_job :: "u8 \<Rightarrow> bm_job \<Rightarrow> job_tables \<Rightarrow> bm_job option \<times> job_tables" where
  "store_job i job tables =
     (active_jobs tables ! unat i,
      tables \<lparr>active_jobs := (active_jobs tables)[unat i := Some job], valid_jobs := (valid_jobs tables)[unat i := 1]\<rparr>)"

section \<open>Running a ramp\<close>

text \<open>
  \<open>do_frequency_transition\<close>: each frequency of the ramp goes to the function of the driver, whose result
  becomes \<open>actual_frequency\<close>.
\<close>

fun run_transition :: "(rat \<Rightarrow> rat \<times> event list) \<Rightarrow> (rat \<times> bool) list \<Rightarrow> rat \<Rightarrow> rat \<times> event list" where
  "run_transition set_frequency [] actual = (actual, [])"
| "run_transition set_frequency ((freq, delay) # fs) actual =
     (let step = set_frequency freq;
          rest = run_transition set_frequency fs (fst step)
      in (fst rest, snd step @ (if delay then [Delay 100] else []) @ snd rest))"

definition do_frequency_transition :: "(rat \<Rightarrow> rat \<times> event list) \<Rightarrow> rat \<Rightarrow> rat \<Rightarrow> rat \<times> event list" where
  "do_frequency_transition set_frequency frequency_value actual_frequency =
     run_transition set_frequency (frequency_transition frequency_value actual_frequency) actual_frequency"

section \<open>Well-formed frames\<close>

text \<open>
  A frame for the chips: the preamble 55 AA, the header, the number of bytes from the header on, the data
  and the checksum over everything from the header to the data, a CRC-16 for jobs and a CRC-5 otherwise.
\<close>

definition well_formed :: "bytes \<Rightarrow> bool" where
  "well_formed frame \<longleftrightarrow>
     5 \<le> length frame \<and> length frame < 256 \<and> take 2 frame = [0x55, 0xAA] \<and> unat (frame ! 3) = length frame - 2 \<and>
     (if bit (frame ! 2) 5
      then crc16_false (drop 2 frame) (of_nat (length frame - 2)) = 0
      else last frame = crc5 (drop 2 (butlast frame)) (of_nat (length frame - 3)))"

primrec event_ok :: "event \<Rightarrow> bool" where
  "event_ok (Tx frame) = well_formed frame"
| "event_ok (Delay n) = True"

abbreviation events_well_formed :: "event list \<Rightarrow> bool" where
  "events_well_formed \<equiv> list_all event_ok"

lemma events_well_formed_concat [simp]: "events_well_formed (concat ess) \<longleftrightarrow> list_all events_well_formed ess"
  by (induction ess) simp_all

text \<open>The two frames that the \<open>_send_BM13xx\<close> functions build are well formed.\<close>

lemma ccitt_residue: "foldl ccitt_byte r [ucast (drop_bit 8 r), ucast r] = 0"
proof -
  have hi: "r XOR push_bit 8 (ucast (ucast (drop_bit 8 r) :: u8)) = take_bit 8 r"
    by (rule word_eq_by_bits) (auto simp: bit_simps)
  have "drop_bit 8 (take_bit 8 r) = 0" by (rule word_eq_by_bits) (auto simp: bit_simps)
  then have "ccitt_byte r (ucast (drop_bit 8 r)) = push_bit 8 (take_bit 8 r)"
    unfolding ccitt_byte_def hi ccitt_shift8_funpow by (rule ccitt_shift8_low)
  also have "\<dots> = push_bit 8 (ucast (ucast r :: u8))" by (rule word_eq_by_bits) (auto simp: bit_simps)
  finally have "foldl ccitt_byte r [ucast (drop_bit 8 r), ucast r] = ccitt_byte (push_bit 8 (ucast (ucast r :: u8))) (ucast r)" by simp
  also have "\<dots> = ccitt_shift8 0" by (simp add: ccitt_byte_def ccitt_shift8_funpow)
  also have "\<dots> = 0" by (simp add: ccitt_shift8_def ccitt_bit_def)
  finally show ?thesis .
qed

lemma unat_of_nat_eq: "n < 2 ^ LENGTH('a) \<Longrightarrow> unat (of_nat n :: 'a::len word) = n"
  by (simp add: unat_of_nat take_bit_nat_eq_self)

lemma crc16_false_all: "length xs < 65536 \<Longrightarrow> crc16_false xs (of_nat (length xs)) = foldl ccitt_byte 0xFFFF xs"
  by (simp add: crc16_false_def crc16_rest_foldl unat_of_nat_eq)

lemma job_frame_well_formed:
  assumes "bit h 5" "length data \<le> 249"
  defines "body \<equiv> h # of_nat (length data + 4) # data"
  defines "crc \<equiv> crc16_false body (of_nat (length data + 2))"
  shows "well_formed ([0x55, 0xAA] @ body @ [ucast (drop_bit 8 crc), ucast crc])"
proof -
  have crc: "crc = foldl ccitt_byte 0xFFFF body"
    using crc16_false_all [of body] assms(2) by (simp add: crc_def body_def)
  have "crc16_false (body @ [ucast (drop_bit 8 crc), ucast crc]) (of_nat (length body + 2)) = foldl ccitt_byte crc [ucast (drop_bit 8 crc), ucast crc]"
    using crc16_false_all [of "body @ [ucast (drop_bit 8 crc), ucast crc]"] assms(2) by (simp add: crc body_def)
  then have "crc16_false (body @ [ucast (drop_bit 8 crc), ucast crc]) (of_nat (length body + 2)) = 0" by (simp only: ccitt_residue)
  moreover have "unat (of_nat (length data + 4) :: u8) = length data + 4" using assms(2) by (intro unat_of_nat_eq) simp
  ultimately show ?thesis
    using assms(1,2) by (simp add: well_formed_def body_def)
qed

lemma command_frame_well_formed:
  assumes "\<not> bit h 5" "length data \<le> 250"
  defines "body \<equiv> h # of_nat (length data + 3) # data"
  shows "well_formed ([0x55, 0xAA] @ body @ [crc5 body (of_nat (length data + 2))])"
proof -
  have "unat (of_nat (length data + 3) :: u8) = length data + 3" using assms(2) by (intro unat_of_nat_eq) simp
  then show ?thesis using assms(1,2) by (simp add: well_formed_def body_def butlast_append)
qed

lemma run_transition_well_formed:
  assumes "\<And>freq. events_well_formed (snd (set_frequency freq))"
  shows "events_well_formed (snd (run_transition set_frequency fs actual))"
  using assms by (induction set_frequency fs actual rule: run_transition.induct) (simp_all add: Let_def)

lemma do_frequency_transition_well_formed:
  assumes "\<And>freq. events_well_formed (snd (set_frequency freq))"
  shows "events_well_formed (snd (do_frequency_transition set_frequency frequency_value actual))"
  unfolding do_frequency_transition_def by (rule run_transition_well_formed) (rule assms)

lemma length_get_difficulty_mask [simp]: "length (get_difficulty_mask diff) = 6"
  by (simp add: get_difficulty_mask_def Let_def)

section \<open>Answers\<close>

text \<open>A result is a register of the map or refers to a valid job of the tables.\<close>

definition reported :: "job_tables \<Rightarrow> task_result \<Rightarrow> bool" where
  "reported t r \<longleftrightarrow> result_register_type r \<noteq> REGISTER_INVALID \<or>
     (unat (result_job_id r) < 128 \<and> active_jobs t ! unat (result_job_id r) \<noteq> None \<and> valid_jobs t ! unat (result_job_id r) \<noteq> 0)"

lemma register_response_reported: "register_response m interval now frame = Result r \<Longrightarrow> reported t r"
  by (auto simp: register_response_def reported_def Let_def split: if_splits option.splits)

lemma register_response_defined: "interval \<noteq> 0 \<Longrightarrow> register_response m interval now frame \<noteq> Division_By_Zero"
  by (auto simp: register_response_def chip_of_address_def Let_def)

section \<open>The contract of a driver\<close>

text \<open>
  What every \<open>send_work\<close> promises: the job counter moves by a fixed step modulo 128, the job is stored in
  the slot of the new counter, and the frame is well formed and carries the slot as its job number.
  \<open>period\<close> consecutive counters are different.
\<close>

definition tables_ok :: "job_tables \<Rightarrow> bool" where
  "tables_ok t \<longleftrightarrow> length (active_jobs t) = 128 \<and> length (valid_jobs t) = 128"

definition slot_holds :: "job_tables \<Rightarrow> u8 \<Rightarrow> bm_job \<Rightarrow> bool" where
  "slot_holds t i job \<longleftrightarrow> active_jobs t ! unat i = Some job \<and> valid_jobs t ! unat i = 1"

definition jobs_in :: "bm_job option list \<Rightarrow> bm_job multiset" where
  "jobs_in xs = mset (concat (map (\<lambda>x. case x of None \<Rightarrow> [] | Some j \<Rightarrow> [j]) xs))"

lemma mod_128_cancel: "(a + m) mod 128 = (a :: nat) \<Longrightarrow> m mod 128 = 0"
proof -
  assume "(a + m) mod 128 = a"
  then have "a + m = (a + m) div 128 * 128 + a" using div_mult_mod_eq [of "a + m" 128] by simp
  then have "m = (a + m) div 128 * 128" by simp
  then show ?thesis by (metis mod_mult_self2_is_0)
qed

text \<open>Fewer than sixteen steps of a job counter, or thirty-two short ones, never come back to the same number.\<close>

lemma job_numbers_apart:
  "0 < k \<Longrightarrow> k < 32 \<Longrightarrow> 4 * k mod 128 \<noteq> (0 :: nat)"
  "0 < k \<Longrightarrow> k < 16 \<Longrightarrow> 8 * k mod 128 \<noteq> (0 :: nat)"
  "0 < k \<Longrightarrow> k < 16 \<Longrightarrow> 24 * k mod 128 \<noteq> (0 :: nat)"
proof -
  have all: "list_all (\<lambda>k. 4 * k mod 128 \<noteq> (0 :: nat)) [1..<32]" "list_all (\<lambda>k. 8 * k mod 128 \<noteq> (0 :: nat)) [1..<16]"
      "list_all (\<lambda>k. 24 * k mod 128 \<noteq> (0 :: nat)) [1..<16]"
    by (simp_all add: upt_rec)
  show "0 < k \<Longrightarrow> k < 32 \<Longrightarrow> 4 * k mod 128 \<noteq> (0 :: nat)" using all(1) by (simp only: list_all_iff) simp
  show "0 < k \<Longrightarrow> k < 16 \<Longrightarrow> 8 * k mod 128 \<noteq> (0 :: nat)" using all(2) by (simp only: list_all_iff) simp
  show "0 < k \<Longrightarrow> k < 16 \<Longrightarrow> 24 * k mod 128 \<noteq> (0 :: nat)" using all(3) by (simp only: list_all_iff) simp
qed

definition job_ok :: "bm_job \<Rightarrow> bool" where
  "job_ok j \<longleftrightarrow> length (merkle_root j) = 32 \<and> length (prev_block_hash j) = 32 \<and> length (midstate j) = 32 \<and>
     length (midstate1 j) = 32 \<and> length (midstate2 j) = 32 \<and> length (midstate3 j) = 32"

locale asic_driver =
  fixes send_work :: "'d \<Rightarrow> job_tables \<Rightarrow> bm_job \<Rightarrow> bytes \<times> bm_job option \<times> job_tables \<times> 'd"
    and counter :: "'d \<Rightarrow> u8" and step :: nat and period :: nat
  assumes counter_step: "send_work d t j = (f, freed, t', d') \<Longrightarrow> unat (counter d') = (unat (counter d) + step) mod 128"
    and stored: "send_work d t j = (f, freed, t', d') \<Longrightarrow> (freed, t') = store_job (counter d') j t"
    and frame_ok: "send_work d t j = (f, freed, t', d') \<Longrightarrow> job_ok j \<Longrightarrow> well_formed f \<and> bit (f ! 2) 5 \<and> f ! 4 = counter d'"
    and distinct_ids: "0 < k \<Longrightarrow> k < period \<Longrightarrow> (step * k) mod 128 \<noteq> 0"
begin

text \<open>Sending a sequence of jobs: the tables, the driver and the freed jobs at the end.\<close>

fun send_all :: "'d \<Rightarrow> job_tables \<Rightarrow> bm_job list \<Rightarrow> bm_job option list \<times> job_tables \<times> 'd" where
  "send_all d t [] = ([], t, d)"
| "send_all d t (j # js) =
     (case send_work d t j of (f, freed, t', d') \<Rightarrow>
        case send_all d' t' js of (freeds, t'', d'') \<Rightarrow> (freed # freeds, t'', d''))"

lemma send_cases:
  obtains f freed t' d' where "send_work d t j = (f, freed, t', d')"
  by (cases "send_work d t j")

lemma counter_less: "send_work d t j = (f, freed, t', d') \<Longrightarrow> unat (counter d') < 128"
  by (simp add: counter_step)

lemma send_tables_ok: "send_work d t j = (f, freed, t', d') \<Longrightarrow> tables_ok t \<Longrightarrow> tables_ok t'"
  using stored by (fastforce simp: store_job_def tables_ok_def)

lemma send_holds: "send_work d t j = (f, freed, t', d') \<Longrightarrow> tables_ok t \<Longrightarrow> slot_holds t' (counter d') j"
  using stored [of d t j f freed t' d'] counter_less [of d t j f freed t' d'] by (simp add: store_job_def tables_ok_def slot_holds_def)

lemma send_keeps:
  "send_work d t j = (f, freed, t', d') \<Longrightarrow> counter d' \<noteq> i \<Longrightarrow> slot_holds t i old \<Longrightarrow> slot_holds t' i old"
  using stored [of d t j f freed t' d'] unat_neq [of "counter d'" i] by (simp add: store_job_def slot_holds_def)

text \<open>A job stays in its slot while fewer than \<open>period\<close> further jobs are sent.\<close>

lemma still_held:
  assumes "tables_ok t" "slot_holds t i job" "n + length js < period" "unat (counter d) = (unat i + step * n) mod 128" "unat i < 128"
    and "send_all d t js = (freeds, t', d')"
  shows "slot_holds t' i job"
  using assms
proof (induction js arbitrary: d t n freeds)
  case Nil
  then show ?case by simp
next
  case (Cons j js)
  obtain f freed t1 d1 where s: "send_work d t j = (f, freed, t1, d1)" by (rule send_cases)
  have c: "unat (counter d1) = (unat i + step * (n + 1)) mod 128"
    unfolding counter_step [OF s] Cons.prems(4) by (simp add: mod_simps algebra_simps)
  have "counter d1 \<noteq> i"
  proof
    assume "counter d1 = i"
    then have "(step * (n + 1)) mod 128 = 0" using c Cons.prems(5) by (intro mod_128_cancel [of "unat i"]) simp_all
    then show False using distinct_ids [of "n + 1"] Cons.prems(3) by simp
  qed
  then have "slot_holds t1 i job" using send_keeps [OF s] Cons.prems(2) by simp
  moreover have "tables_ok t1" using send_tables_ok [OF s] Cons.prems(1) by simp
  moreover obtain freeds1 where "send_all d1 t1 js = (freeds1, t', d')"
    using Cons.prems(6) s by (cases "send_all d1 t1 js") auto
  ultimately show ?case using Cons.IH [of t1 "n + 1" d1 freeds1] Cons.prems(3,5) c by simp
qed

text \<open>No job is lost and none is freed twice.\<close>

lemma store_conserves:
  assumes "store_job i j t = (freed, t')" "unat i < length (active_jobs t)"
  shows "add_mset j (jobs_in (active_jobs t)) = jobs_in (active_jobs t') + jobs_in [freed]"
proof -
  let ?f = "\<lambda>x. case x of None \<Rightarrow> [] | Some j \<Rightarrow> [j]"
  have "jobs_in xs = sum_list (map (\<lambda>x. mset (?f x)) xs)" for xs
    by (induction xs) (simp_all add: jobs_in_def)
  moreover have "add_mset j (sum_list (map (\<lambda>x. mset (?f x)) xs)) = sum_list (map (\<lambda>x. mset (?f x)) (xs[n := Some j])) + mset (?f (xs ! n))"
    if "n < length xs" for xs n
    using that by (induction xs arbitrary: n) (auto split: nat.splits simp: add_ac)
  ultimately show ?thesis using assms by (auto simp: store_job_def)
qed

lemma send_all_conserves:
  assumes "tables_ok t" "send_all d t js = (freeds, t', d')"
  shows "mset js + jobs_in (active_jobs t) = jobs_in (active_jobs t') + jobs_in freeds \<and> tables_ok t'"
  using assms
proof (induction js arbitrary: d t freeds)
  case Nil
  then show ?case by (simp add: jobs_in_def)
next
  case (Cons j js)
  obtain f freed t1 d1 where s: "send_work d t j = (f, freed, t1, d1)" by (rule send_cases)
  obtain freeds1 where r: "send_all d1 t1 js = (freeds1, t', d')" and fr: "freeds = freed # freeds1"
    using Cons.prems(2) s by (cases "send_all d1 t1 js") auto
  have "add_mset j (jobs_in (active_jobs t)) = jobs_in (active_jobs t1) + jobs_in [freed]"
    using stored [OF s] counter_less [OF s] Cons.prems(1) by (intro store_conserves) (auto simp: tables_ok_def)
  moreover have "mset js + jobs_in (active_jobs t1) = jobs_in (active_jobs t') + jobs_in freeds1 \<and> tables_ok t'"
    using Cons.IH [OF send_tables_ok [OF s Cons.prems(1)] r] .
  moreover have "jobs_in (freed # freeds1) = jobs_in [freed] + jobs_in freeds1" by (simp add: jobs_in_def)
  ultimately show ?case by (simp add: fr add_ac) (metis add.assoc add.commute union_mset_add_mset_right)
qed

end

text \<open>Evaluating the checksum of a concrete frame.\<close>

lemma crc5_byte_eval:
  "crc5_byte crc byte = fst (crc5_bit (crc5_bit (crc5_bit (crc5_bit (crc5_bit (crc5_bit (crc5_bit (crc5_bit (crc, byte)))))))))"
  by (simp add: crc5_byte_def eval_nat_numeral)

lemmas crc5_eval = crc5_def crc5_byte_eval crc5_bit_def Let_def

end
