(* ===== verification/Bm1368.thy ===== *)
theory Bm1368
  imports Asic_Driver
begin

text \<open>
  \<open>components/asic/bm1368.c\<close>: the driver of the BM1368. The operations return the frames they write; the
  static variables are those of \<open>driver\<close>.
\<close>

section \<open>Frames and registers\<close>

definition BM1368_REGISTER_MAP :: "register_type list" where
  "BM1368_REGISTER_MAP = (replicate 0x8D REGISTER_INVALID)
     [0x4C := REGISTER_ERROR_COUNT, 0x88 := REGISTER_DOMAIN_0_COUNT, 0x89 := REGISTER_DOMAIN_1_COUNT,
      0x8A := REGISTER_DOMAIN_2_COUNT, 0x8B := REGISTER_DOMAIN_3_COUNT, 0x8C := REGISTER_TOTAL_COUNT]"

definition send_BM1368 :: "u8 \<Rightarrow> bytes \<Rightarrow> bytes" where
  "send_BM1368 header data =
     (let job_packet = header AND TYPE_JOB \<noteq> 0;
          body = header # of_nat (if job_packet then length data + 4 else length data + 3) # data
      in [0x55, 0xAA] @ body @
         (if job_packet
          then let crc16_total = crc16_false body (of_nat (length data + 2))
               in [ucast (drop_bit 8 crc16_total), ucast crc16_total]
          else [crc5 body (of_nat (length data + 2))]))"

definition BM1368_send_chain_inactive :: event where
  "BM1368_send_chain_inactive = Tx (send_BM1368 (TYPE_CMD OR GROUP_ALL OR CMD_INACTIVE) [0x00, 0x00])"

definition BM1368_set_chip_address :: "u8 \<Rightarrow> event" where
  "BM1368_set_chip_address chipAddr = Tx (send_BM1368 (TYPE_CMD OR GROUP_SINGLE OR CMD_SETADDRESS) [chipAddr, 0x00])"

definition BM1368_set_version_mask :: "u32 \<Rightarrow> event" where
  "BM1368_set_version_mask msk =
     (let versions_to_roll = drop_bit 13 msk;
          version_byte0 = ucast (drop_bit 8 versions_to_roll);
          version_byte1 = ucast (versions_to_roll AND 0xFF)
      in Tx (send_BM1368 write_all [0x00, 0xA4, 0x90, 0x00, version_byte0, version_byte1]))"

definition BM1368_set_hash_counting_number :: "u32 \<Rightarrow> event" where
  "BM1368_set_hash_counting_number hcn =
     Tx (send_BM1368 write_all [0x00, 0x10, ucast (drop_bit 24 hcn AND 0xFF), ucast (drop_bit 16 hcn AND 0xFF),
                                ucast (drop_bit 8 hcn AND 0xFF), ucast (hcn AND 0xFF)])"

text \<open>The nonce space; \<open>None\<close> when the conversion to \<open>uint32_t\<close> is undefined.\<close>

definition BM1368_set_nonce_space :: "rat \<Rightarrow> rat \<Rightarrow> u16 \<Rightarrow> u16 \<Rightarrow> event option" where
  "BM1368_set_nonce_space nonce_percent frequency asic_n cores =
     (case hcn_max frequency asic_n cores of
        None \<Rightarrow> None
      | Some hcn \<Rightarrow>
          let hcn_frac = f64 (nonce_percent * hcn)
          in map_option BM1368_set_hash_counting_number (double_to_u32 hcn_frac))"

text \<open>
  With no allowed divider \<open>refdiv\<close> is zero and the comparison with 2400 is one with not-a-number, which is
  false; division by zero is 0 here, which gives the same.
\<close>

definition BM1368_send_hash_frequency :: "rat \<Rightarrow> rat \<times> event list" where
  "BM1368_send_hash_frequency target_freq =
     (let p = pll_get_parameters target_freq 144 235;
          vdo_scale = (if 2400 \<le> f64 (f64 (of_nat (unat (best_fb_divider p)) * FREQ_MULT) / of_nat (best_refdiv p)) then 0x50 else 0x40);
          postdiv = push_bit 4 ((of_nat (best_postdiv1 p) - 1) AND 0xf) OR ((of_nat (best_postdiv2 p) - 1) AND 0xf)
      in (best_freq p, [Tx (send_BM1368 write_all [0x00, 0x08, vdo_scale, best_fb_divider p, of_nat (best_refdiv p), postdiv])]))"

section \<open>Initialisation\<close>

definition BM1368_init_cmds :: "bytes list" where
  "BM1368_init_cmds =
     [[0x00, 0xA8, 0x00, 0x07, 0x00, 0x00],
      [0x00, 0x18, 0xFF, 0x0F, 0xC1, 0x00],
      [0x00, 0x3C, 0x80, 0x00, 0x8b, 0x00],
      [0x00, 0x3C, 0x80, 0x00, 0x80, 0x18],
      [0x00, 0x14, 0x00, 0x00, 0x00, 0xFF],
      [0x00, 0x54, 0x00, 0x00, 0x00, 0x03],
      [0x00, 0x58, 0x02, 0x11, 0x11, 0x11]]"

definition BM1368_chip_writes :: "u8 \<Rightarrow> event list" where
  "BM1368_chip_writes address = map (\<lambda>data. Tx (send_BM1368 write_single (address # data)))
     [[0xA8, 0x00, 0x07, 0x01, 0xF0],
      [0x18, 0xF0, 0x00, 0xC1, 0x00],
      [0x3C, 0x80, 0x00, 0x8b, 0x00],
      [0x3C, 0x80, 0x00, 0x80, 0x18],
      [0x3C, 0x80, 0x00, 0x82, 0xAA]] @ [Delay 500]"

text \<open>
  \<open>BM1368_init\<close>: the chips found (0 on failure), the events, the text of \<open>asic_chain_error\<close>, the actual
  frequency and the static variables. \<open>None\<close> is the undefined conversion of \<open>set_nonce_space\<close>.
\<close>

definition BM1368_init ::
  "device \<Rightarrow> rat \<Rightarrow> rat \<Rightarrow> reception list \<Rightarrow> driver \<Rightarrow> (u8 \<times> event list \<times> string \<times> rat \<times> driver) option" where
  "BM1368_init dev frequency_value actual_frequency rx d =
     (let before = replicate 4 (BM1368_set_version_mask STRATUM_DEFAULT_VERSION_MASK) @ [Tx (send_BM1368 read_all [0x00, 0x00])];
          counted = count_asic_chips (ucast (asic_count dev)) 0x1368 11 rx;
          chip_counter = fst counted
      in if chip_counter = 0 then Some (0, before, snd counted, actual_frequency, d)
         else
           let interval = 256 div chip_counter;
               addresses = map (\<lambda>i. of_int (i * interval)) [0..chip_counter - 1];
               setup =
                 [BM1368_send_chain_inactive] @
                 map (\<lambda>cmd. Tx (send_BM1368 write_all cmd)) BM1368_init_cmds @
                 map BM1368_set_chip_address addresses @
                 concat (map BM1368_chip_writes addresses) @
                 [Tx (send_BM1368 write_all (get_difficulty_mask (of_nat (unat (difficulty dev)))))];
               ramp = do_frequency_transition BM1368_send_hash_frequency frequency_value actual_frequency
           in case BM1368_set_nonce_space 1 frequency_value (ucast (asic_count dev)) (core_count dev) of
                None \<Rightarrow> None
              | Some nonce_space \<Rightarrow>
                  Some (of_int chip_counter,
                        before @ setup @ snd ramp @ [nonce_space, BM1368_set_version_mask STRATUM_DEFAULT_VERSION_MASK],
                        snd counted, fst ramp, d \<lparr>address_interval := interval\<rparr>))"

section \<open>Baud rates\<close>

definition BM1368_set_default_baud :: "int \<times> event list" where
  "BM1368_set_default_baud = (115749, [Tx (send_BM1368 write_all [0x00, 0x18, 0x00, 0x00, 0x7A, 0x31])])"

definition BM1368_set_max_baud :: "int \<times> event list" where
  "BM1368_set_max_baud = (1000000, [Tx (send_BM1368 write_all [0x00, 0x28, 0x11, 0x30, 0x02, 0x00])])"

section \<open>Work\<close>

text \<open>The packed \<open>BM1368_job\<close>.\<close>

definition BM1368_job :: "u8 \<Rightarrow> bm_job \<Rightarrow> bytes" where
  "BM1368_job i job =
     [i, 0x01] @ le_bytes 4 (starting_nonce job) @ le_bytes 4 (target job) @ le_bytes 4 (ntime job) @
     merkle_root job @ prev_block_hash job @ le_bytes 4 (version job)"

definition BM1368_send_work :: "driver \<Rightarrow> job_tables \<Rightarrow> bm_job \<Rightarrow> bytes \<times> bm_job option \<times> job_tables \<times> driver" where
  "BM1368_send_work d tables next_bm_job =
     (let i = (job_counter d + 24) mod 128;
          stored = store_job i next_bm_job tables
      in (send_BM1368 job_single (BM1368_job i next_bm_job), fst stored, snd stored, d \<lparr>job_counter := i\<rparr>))"

text \<open>
  \<open>BM1368_process_work\<close>, for one answer of the serial line; the flag tells that the input was flushed.
\<close>

definition BM1368_job_response :: "driver \<Rightarrow> job_tables \<Rightarrow> u64 \<Rightarrow> bytes \<Rightarrow> outcome" where
  "BM1368_job_response d tables now frame =
     (let idx = frame ! 7;
          job_id = drop_bit 1 (idx AND 0xf0);
          nonce_h = be_word (slice 2 4 frame) :: u32;
          core_id = ucast (drop_bit 25 nonce_h AND 0x7f);
          small_core_id = idx AND 0x0f;
          version_bits = push_bit 13 (ucast (be16_at 8 frame)) :: u32
      in case chip_of_address (address_interval d) (ucast (drop_bit 17 nonce_h AND 0xff)) of
           None \<Rightarrow> Division_By_Zero
         | Some nr \<Rightarrow>
             (case active_jobs tables ! unat job_id of
                None \<Rightarrow> No_Result
              | Some job \<Rightarrow>
                  if valid_jobs tables ! unat job_id = 0 then No_Result
                  else Result (empty_result now \<lparr>result_job_id := job_id, result_nonce := le_word (slice 2 4 frame),
                         result_rolled_version := version job OR version_bits, result_midstate_index := MIDSTATE_INDEX_NONE,
                         result_asic_nr := nr, result_core_id := core_id, result_small_core_id := small_core_id\<rparr>)))"

definition BM1368_process_work :: "driver \<Rightarrow> job_tables \<Rightarrow> u64 \<Rightarrow> reception \<Rightarrow> outcome \<times> bool" where
  "BM1368_process_work d tables now rx =
     (case receive_work 11 rx of
        (None, flushed) \<Rightarrow> (No_Result, flushed)
      | (Some frame, flushed) \<Rightarrow>
          (if \<not> is_job_response frame then register_response BM1368_REGISTER_MAP (address_interval d) now frame
           else BM1368_job_response d tables now frame, flushed))"

definition BM1368_read_registers :: "event list" where
  "BM1368_read_registers = concat (map (\<lambda>reg.
     if BM1368_REGISTER_MAP ! reg \<noteq> REGISTER_INVALID then [Tx (send_BM1368 read_all [0x00, of_nat reg]), Delay 1] else [])
     [0..<length BM1368_REGISTER_MAP])"

section \<open>The contract of the driver\<close>

lemma send_BM1368_command: "header AND TYPE_JOB = 0 \<Longrightarrow> \<not> bit header 5 \<Longrightarrow> length data \<le> 250 \<Longrightarrow> well_formed (send_BM1368 header data)"
  using command_frame_well_formed [of header data] by (simp add: send_BM1368_def Let_def)

lemma send_BM1368_job: "header AND TYPE_JOB \<noteq> 0 \<Longrightarrow> bit header 5 \<Longrightarrow> length data \<le> 249 \<Longrightarrow> well_formed (send_BM1368 header data)"
  using job_frame_well_formed [of header data] by (simp add: send_BM1368_def Let_def)

lemma BM1368_write_well_formed [simp]:
  "length data \<le> 250 \<Longrightarrow> well_formed (send_BM1368 write_all data)"
  "length data \<le> 250 \<Longrightarrow> well_formed (send_BM1368 write_single data)"
  "length data \<le> 250 \<Longrightarrow> well_formed (send_BM1368 read_all data)"
  "length data \<le> 250 \<Longrightarrow> well_formed (send_BM1368 (TYPE_CMD OR GROUP_ALL OR CMD_INACTIVE) data)"
  "length data \<le> 250 \<Longrightarrow> well_formed (send_BM1368 (TYPE_CMD OR GROUP_SINGLE OR CMD_SETADDRESS) data)"
  by (rule send_BM1368_command; simp add: header_defs)+

lemma BM1368_events_well_formed [simp]:
  "event_ok (BM1368_set_version_mask msk)" "event_ok (BM1368_set_hash_counting_number hcn)"
  "event_ok BM1368_send_chain_inactive" "event_ok (BM1368_set_chip_address a)"
  "events_well_formed (snd (BM1368_send_hash_frequency freq))"
  "events_well_formed (BM1368_chip_writes a)" "events_well_formed (snd BM1368_set_default_baud)"
  by (simp_all add: BM1368_set_version_mask_def BM1368_set_hash_counting_number_def BM1368_send_chain_inactive_def
      BM1368_set_chip_address_def BM1368_send_hash_frequency_def BM1368_chip_writes_def BM1368_set_default_baud_def Let_def)

lemma BM1368_nonce_space_well_formed: "BM1368_set_nonce_space p f n c = Some e \<Longrightarrow> event_ok e"
  by (auto simp: BM1368_set_nonce_space_def Let_def split: option.splits)

lemma BM1368_max_baud_well_formed [simp]: "events_well_formed (snd BM1368_set_max_baud)"
  by (simp add: BM1368_set_max_baud_def)

lemma BM1368_registers_well_formed [simp]: "events_well_formed BM1368_read_registers"
  by (simp add: BM1368_read_registers_def list_all_iff)

lemma BM1368_init_well_formed:
  assumes "BM1368_init dev freq actual rx d = Some (n, es, err, actual', d')"
  shows "events_well_formed es"
  using assms do_frequency_transition_well_formed [of BM1368_send_hash_frequency, OF BM1368_events_well_formed(5)]
  by (auto simp: BM1368_init_def Let_def list.pred_map comp_def BM1368_nonce_space_well_formed BM1368_init_cmds_def list.pred_True list_all_iff [of _ "replicate _ _"]
      simp flip: replicate_Suc split: if_splits option.splits)

lemma BM1368_send_contract:
  assumes "BM1368_send_work d t j = (f, freed, t', d')"
  shows "unat (job_counter d') = (unat (job_counter d) + 24) mod 128" "(freed, t') = store_job (job_counter d') j t"
    "job_ok j \<Longrightarrow> well_formed f \<and> bit (f ! 2) 5 \<and> f ! 4 = job_counter d'"
    "address_interval d' = address_interval d"
proof -
  have "job_counter d' = (job_counter d + 24) mod 128" and s: "(freed, t') = store_job (job_counter d') j t"
    and f: "f = send_BM1368 job_single (BM1368_job (job_counter d') j)"
    using assms by (auto simp: BM1368_send_work_def Let_def)
  then have "unat (job_counter d') = (unat (job_counter d) + 24) mod 256 mod 128"
    by (simp add: unat_mod unat_word_ariths)
  then show "unat (job_counter d') = (unat (job_counter d) + 24) mod 128" by (simp add: mod_mod_cancel)
  show "(freed, t') = store_job (job_counter d') j t" by (rule s)
  have "well_formed (send_BM1368 job_single (BM1368_job (job_counter d') j))" if "job_ok j"
    using that by (intro send_BM1368_job) (simp_all add: header_defs BM1368_job_def job_ok_def)
  then show "job_ok j \<Longrightarrow> well_formed f \<and> bit (f ! 2) 5 \<and> f ! 4 = job_counter d'"
    by (simp add: f send_BM1368_def Let_def BM1368_job_def header_defs)
  show "address_interval d' = address_interval d"
    using assms by (auto simp: BM1368_send_work_def Let_def)
qed

interpretation bm1368: asic_driver BM1368_send_work job_counter 24 16
proof unfold_locales
  fix k :: nat assume "0 < k" "k < 16"
  then show "24 * k mod 128 \<noteq> 0" by (rule job_numbers_apart)
qed (simp_all add: BM1368_send_contract)

section \<open>Answers\<close>

lemma BM1368_process_reported:
  assumes "BM1368_process_work d t now rx = (Result r, flushed)"
  shows "reported t r"
proof -
  have lt: "unat (x AND 120) < 128" for x :: u8
    using word_and_le1 [of x 120] by (simp add: word_le_nat_alt)
  have job: "reported t r" if "BM1368_job_response d t now frame = Result r" for frame
    using that by (auto simp: BM1368_job_response_def Let_def reported_def lt  split: option.splits if_splits)
  show ?thesis
    using assms register_response_reported job
    by (fastforce simp: BM1368_process_work_def split: prod.splits option.splits if_splits)
qed

lemma BM1368_process_defined:
  "address_interval d \<noteq> 0 \<Longrightarrow> fst (BM1368_process_work d t now rx) \<noteq> Division_By_Zero"
  by (auto simp: BM1368_process_work_def BM1368_job_response_def Let_def register_response_defined chip_of_address_def
      split: prod.splits option.splits)

end
