(* ===== verification/Bm1397.thy ===== *)
theory Bm1397
  imports Asic_Driver
begin

text \<open>
  \<open>components/asic/bm1397.c\<close>: the driver of the BM1397. It gets up to four midstates with every job and
  tells which one a nonce belongs to; it has no version rolling of its own.
\<close>

record bm1397_driver = driver +
  prev_nonce :: u32

section \<open>Frames and registers\<close>

definition BM1397_REGISTER_MAP :: "register_type list" where
  "BM1397_REGISTER_MAP = (replicate 0x4D REGISTER_INVALID) [0x04 := REGISTER_HASHRATE, 0x4C := REGISTER_ERROR_COUNT]"

definition send_BM1397 :: "u8 \<Rightarrow> bytes \<Rightarrow> bytes" where
  "send_BM1397 header data =
     (let job_packet = header AND TYPE_JOB \<noteq> 0;
          body = header # of_nat (if job_packet then length data + 4 else length data + 3) # data
      in [0x55, 0xAA] @ body @
         (if job_packet
          then let crc16_total = crc16_false body (of_nat (length data + 2))
               in [ucast (drop_bit 8 crc16_total), ucast crc16_total]
          else [crc5 body (of_nat (length data + 2))]))"

definition BM1397_send_read_address :: event where
  "BM1397_send_read_address = Tx (send_BM1397 read_all [0x00, 0x00])"

definition BM1397_send_chain_inactive :: event where
  "BM1397_send_chain_inactive = Tx (send_BM1397 (TYPE_CMD OR GROUP_ALL OR CMD_INACTIVE) [0x00, 0x00])"

definition BM1397_set_chip_address :: "u8 \<Rightarrow> event" where
  "BM1397_set_chip_address chipAddr = Tx (send_BM1397 (TYPE_CMD OR GROUP_SINGLE OR CMD_SETADDRESS) [chipAddr, 0x00])"

text \<open>A placeholder in the code too: nothing is sent.\<close>

definition BM1397_set_version_mask :: "u32 \<Rightarrow> event list" where
  "BM1397_set_version_mask msk = []"

definition BM1397_send_hash_frequency :: "rat \<Rightarrow> rat \<times> event list" where
  "BM1397_send_hash_frequency target_freq =
     (let p = pll_get_parameters target_freq 60 200;
          postdiv = push_bit 4 (of_nat (best_postdiv1 p) AND 0x7) + (of_nat (best_postdiv2 p) AND 0x7);
          freqbuf = [0x00, 0x08, 0x40, best_fb_divider p, of_nat (best_refdiv p), postdiv];
          prefreq1 = [0x00, 0x70, 0x0F, 0x0F, 0x0F, 0x00]
      in (best_freq p,
          concat (replicate 2 [Delay 10, Tx (send_BM1397 write_all prefreq1)]) @
          concat (replicate 2 [Delay 10, Tx (send_BM1397 write_all freqbuf)]) @ [Delay 10]))"

section \<open>Baud rates\<close>

definition BM1397_set_default_baud :: "int \<times> event list" where
  "BM1397_set_default_baud = (115749, [Tx (send_BM1397 write_all [0x00, 0x18, 0x00, 0x00, 0x7A, 0x31])])"

definition BM1397_set_max_baud :: "int \<times> event list" where
  "BM1397_set_max_baud = (3125000, [Tx (send_BM1397 write_all [0x00, 0x18, 0x00, 0x00, 0x60, 0x31])])"

section \<open>Initialisation\<close>

definition BM1397_init ::
  "device \<Rightarrow> rat \<Rightarrow> rat \<Rightarrow> reception list \<Rightarrow> bm1397_driver \<Rightarrow> u8 \<times> event list \<times> string \<times> rat \<times> bm1397_driver" where
  "BM1397_init dev frequency_value actual_frequency rx d =
     (let before = [BM1397_send_read_address];
          counted = count_asic_chips (ucast (asic_count dev)) 0x1397 9 rx;
          chip_counter = fst counted
      in if chip_counter = 0 then (0, before, snd counted, actual_frequency, d)
         else
           let interval = 256 div chip_counter;
               addresses = map (\<lambda>i. of_int (i * interval)) [0..chip_counter - 1];
               setup =
                 [Delay 20, BM1397_send_chain_inactive] @
                 map BM1397_set_chip_address addresses @
                 map (\<lambda>data. Tx (send_BM1397 write_all data))
                   [[0x00, 0x80, 0x00, 0x00, 0x00, 0x00],
                    [0x00, 0x84, 0x00, 0x00, 0x00, 0x00],
                    [0x00, 0x20, 0x00, 0x00, 0x00, 0x01],
                    [0x00, 0x3C, 0x80, 0x00, 0x80, 0x74],
                    get_difficulty_mask (of_nat (unat (difficulty dev))),
                    [0x00, 0x68, 0xC0, 0x70, 0x01, 0x11],
                    [0x00, 0x28, 0x06, 0x00, 0x00, 0x0F]] @
                 snd BM1397_set_default_baud;
               ramp = do_frequency_transition BM1397_send_hash_frequency frequency_value actual_frequency
           in (of_int chip_counter, before @ setup @ snd ramp, snd counted, fst ramp, d \<lparr>address_interval := interval\<rparr>))"

section \<open>Work\<close>

text \<open>
  The packed \<open>job_packet\<close>; the last three midstates are copied only when the job has four, and are the
  96 uninitialised bytes \<open>junk\<close> of the stack otherwise.
\<close>

definition BM1397_job :: "bytes \<Rightarrow> u8 \<Rightarrow> bm_job \<Rightarrow> bytes" where
  "BM1397_job junk i job =
     [i, num_midstates job] @ le_bytes 4 (starting_nonce job) @ le_bytes 4 (target job) @ le_bytes 4 (ntime job) @
     take 4 (merkle_root job) @ midstate job @
     (if num_midstates job = 4 then midstate1 job @ midstate2 job @ midstate3 job else take 96 junk)"

definition BM1397_send_work ::
  "bytes \<Rightarrow> bm1397_driver \<Rightarrow> job_tables \<Rightarrow> bm_job \<Rightarrow> bytes \<times> bm_job option \<times> job_tables \<times> bm1397_driver" where
  "BM1397_send_work junk d tables next_bm_job =
     (let i = (job_counter d + 4) mod 128;
          stored = store_job i next_bm_job tables
      in (send_BM1397 job_single (BM1397_job junk i next_bm_job), fst stored, snd stored, d \<lparr>job_counter := i\<rparr>))"

text \<open>
  A job response: the two low bits of the identifier are the midstate, the rest the job. The nonce that was
  reported last is dropped.
\<close>

definition BM1397_job_response :: "bm1397_driver \<Rightarrow> job_tables \<Rightarrow> u64 \<Rightarrow> bytes \<Rightarrow> outcome \<times> bm1397_driver" where
  "BM1397_job_response d tables now frame =
     (let idx = frame ! 7;
          rx_job_id = idx AND 0xfc;
          rx_midstate_index = idx AND 0x03;
          nonce = le_word (slice 2 4 frame)
      in if 128 \<le> rx_job_id then (No_Result, d)
         else case active_jobs tables ! unat rx_job_id of
                None \<Rightarrow> (No_Result, d)
              | Some job \<Rightarrow>
                  if valid_jobs tables ! unat rx_job_id = 0 then (No_Result, d)
                  else
                    let rolled_version = ((\<lambda>v. increment_bitmask v (version_mask job)) ^^ unat rx_midstate_index) (version job)
                    in if nonce = prev_nonce d then (No_Result, d)
                       else
                         let nonce_h = be_word (slice 2 4 frame) :: u32;
                             core_id = ucast (drop_bit 25 nonce_h AND 0x7f);
                             small_core_id = idx AND 0x0f
                         in (case chip_of_address (address_interval d) (ucast (drop_bit 17 nonce_h AND 0xff)) of
                               None \<Rightarrow> Division_By_Zero
                             | Some nr \<Rightarrow> Result (empty_result now \<lparr>result_job_id := rx_job_id, result_nonce := nonce,
                                 result_rolled_version := rolled_version, result_midstate_index := rx_midstate_index,
                                 result_asic_nr := nr, result_core_id := core_id, result_small_core_id := small_core_id\<rparr>),
                             d \<lparr>prev_nonce := nonce\<rparr>))"

definition BM1397_process_work ::
  "bm1397_driver \<Rightarrow> job_tables \<Rightarrow> u64 \<Rightarrow> reception \<Rightarrow> outcome \<times> bool \<times> bm1397_driver" where
  "BM1397_process_work d tables now rx =
     (case receive_work 9 rx of
        (None, flushed) \<Rightarrow> (No_Result, flushed, d)
      | (Some frame, flushed) \<Rightarrow>
          if \<not> is_job_response frame
          then (register_response BM1397_REGISTER_MAP (address_interval d) now frame, flushed, d)
          else let r = BM1397_job_response d tables now frame in (fst r, flushed, snd r))"

definition BM1397_read_registers :: "event list" where
  "BM1397_read_registers = concat (map (\<lambda>reg.
     if BM1397_REGISTER_MAP ! reg \<noteq> REGISTER_INVALID then [Tx (send_BM1397 read_all [0x00, of_nat reg]), Delay 1] else [])
     [0..<length BM1397_REGISTER_MAP])"

section \<open>The contract of the driver\<close>

lemma send_BM1397_command: "header AND TYPE_JOB = 0 \<Longrightarrow> \<not> bit header 5 \<Longrightarrow> length data \<le> 250 \<Longrightarrow> well_formed (send_BM1397 header data)"
  using command_frame_well_formed [of header data] by (simp add: send_BM1397_def Let_def)

lemma send_BM1397_job: "header AND TYPE_JOB \<noteq> 0 \<Longrightarrow> bit header 5 \<Longrightarrow> length data \<le> 249 \<Longrightarrow> well_formed (send_BM1397 header data)"
  using job_frame_well_formed [of header data] by (simp add: send_BM1397_def Let_def)

lemma BM1397_write_well_formed [simp]:
  "length data \<le> 250 \<Longrightarrow> well_formed (send_BM1397 write_all data)"
  "length data \<le> 250 \<Longrightarrow> well_formed (send_BM1397 write_single data)"
  "length data \<le> 250 \<Longrightarrow> well_formed (send_BM1397 read_all data)"
  "length data \<le> 250 \<Longrightarrow> well_formed (send_BM1397 (TYPE_CMD OR GROUP_ALL OR CMD_INACTIVE) data)"
  "length data \<le> 250 \<Longrightarrow> well_formed (send_BM1397 (TYPE_CMD OR GROUP_SINGLE OR CMD_SETADDRESS) data)"
  by (rule send_BM1397_command; simp add: header_defs)+

lemma BM1397_events_well_formed [simp]:
  "event_ok BM1397_send_read_address" "event_ok BM1397_send_chain_inactive" "event_ok (BM1397_set_chip_address a)"
  "events_well_formed (snd (BM1397_send_hash_frequency freq))" "events_well_formed (BM1397_set_version_mask msk)"
  "events_well_formed (snd BM1397_set_default_baud)" "events_well_formed (snd BM1397_set_max_baud)"
  by (simp_all add: BM1397_send_read_address_def BM1397_send_chain_inactive_def BM1397_set_chip_address_def
      BM1397_send_hash_frequency_def BM1397_set_version_mask_def BM1397_set_default_baud_def BM1397_set_max_baud_def
      Let_def list.pred_True list_all_iff)

lemma BM1397_registers_well_formed [simp]: "events_well_formed BM1397_read_registers"
  by (simp add: BM1397_read_registers_def list_all_iff)

lemma BM1397_init_well_formed:
  assumes "BM1397_init dev freq actual rx d = (n, es, err, actual', d')"
  shows "events_well_formed es"
  using assms do_frequency_transition_well_formed [of BM1397_send_hash_frequency, OF BM1397_events_well_formed(4)]
  by (auto simp: BM1397_init_def Let_def list.pred_map comp_def list.pred_True split: if_splits)

lemma BM1397_send_contract:
  assumes "BM1397_send_work junk d t j = (f, freed, t', d')"
  shows "unat (job_counter d') = (unat (job_counter d) + 4) mod 128" "(freed, t') = store_job (job_counter d') j t"
    "job_ok j \<Longrightarrow> well_formed f \<and> bit (f ! 2) 5 \<and> f ! 4 = job_counter d'"
proof -
  have "job_counter d' = (job_counter d + 4) mod 128" and s: "(freed, t') = store_job (job_counter d') j t"
    and f: "f = send_BM1397 job_single (BM1397_job junk (job_counter d') j)"
    using assms by (auto simp: BM1397_send_work_def Let_def)
  then have "unat (job_counter d') = (unat (job_counter d) + 4) mod 256 mod 128"
    by (simp add: unat_mod unat_word_ariths)
  then show "unat (job_counter d') = (unat (job_counter d) + 4) mod 128" by (simp add: mod_mod_cancel)
  show "(freed, t') = store_job (job_counter d') j t" by (rule s)
  have "well_formed (send_BM1397 job_single (BM1397_job junk (job_counter d') j))" if "job_ok j"
    using that by (intro send_BM1397_job) (auto simp: header_defs BM1397_job_def job_ok_def min_def)
  then show "job_ok j \<Longrightarrow> well_formed f \<and> bit (f ! 2) 5 \<and> f ! 4 = job_counter d'"
    by (simp add: f send_BM1397_def Let_def BM1397_job_def header_defs)
qed

interpretation bm1397: asic_driver "BM1397_send_work junk" job_counter 4 32
proof unfold_locales
  fix k :: nat assume "0 < k" "k < 32"
  then show "4 * k mod 128 \<noteq> 0" by (rule job_numbers_apart)
qed (simp_all add: BM1397_send_contract)

section \<open>Answers\<close>

lemma BM1397_process_reported:
  assumes "BM1397_process_work d t now rx = (Result r, flushed, d')"
  shows "reported t r"
proof -
  have job: "reported t r" if "fst (BM1397_job_response d t now frame) = Result r" for frame
    using that by (auto simp: BM1397_job_response_def Let_def reported_def word_le_nat_alt split: option.splits if_splits)
  show ?thesis
    using assms register_response_reported job
    by (fastforce simp: BM1397_process_work_def Let_def split: prod.splits option.splits if_splits)
qed

lemma BM1397_process_defined:
  "address_interval d \<noteq> 0 \<Longrightarrow> fst (BM1397_process_work d t now rx) \<noteq> Division_By_Zero"
  by (auto simp: BM1397_process_work_def BM1397_job_response_def Let_def register_response_defined chip_of_address_def
      split: prod.splits option.splits)

text \<open>No nonce is reported twice in a row.\<close>

lemma BM1397_no_repeat:
  assumes "BM1397_process_work d t now rx = (Result r, flushed, d')" "result_register_type r = REGISTER_INVALID"
  shows "result_nonce r \<noteq> prev_nonce d \<and> prev_nonce d' = result_nonce r"
proof -
  have reg: "result_register_type r \<noteq> REGISTER_INVALID" if "register_response m i now frame = Result r" for m i frame
    using that by (auto simp: register_response_def Let_def split: if_splits option.splits)
  have job: "result_nonce r \<noteq> prev_nonce d \<and> prev_nonce (snd (BM1397_job_response d t now frame)) = result_nonce r"
    if "fst (BM1397_job_response d t now frame) = Result r" for frame
    using that by (auto simp: BM1397_job_response_def Let_def split: option.splits if_splits)
  show ?thesis
    using assms reg job by (auto simp: BM1397_process_work_def Let_def split: prod.splits option.splits if_splits)
qed

end
