(* ===== verification/Asic.thy ===== *)
theory Asic
  imports Bm1397 Bm1366 Bm1368 Bm1370
begin

text \<open>
  \<open>components/asic/asic.c\<close>: the dispatch over the four drivers by the \<open>Asic\<close> of the device configuration,
  and \<open>main/power/asic_init.c\<close>: bringing the chain up. An identifier outside the enumeration takes the
  \<open>default\<close> branch of the switch statements; it is \<open>None\<close> here.
\<close>

section \<open>State\<close>

datatype asic_id = BM1397 | BM1366 | BM1368 | BM1370

text \<open>The static variables of the four driver files.\<close>

record asic_drivers =
  drv_BM1397 :: bm1397_driver
  drv_BM1366 :: driver
  drv_BM1368 :: driver
  drv_BM1370 :: driver

record asic_state =
  asic :: "asic_id option"
  dev :: device
  frequency_value :: rat
  actual_frequency :: rat
  tables :: job_tables
  drivers :: asic_drivers

section \<open>Job time\<close>

text \<open>
  \<open>calculate_bm_timeout_ms\<close> (\<open>asic_common.c\<close>); \<open>None\<close> when \<open>_next_power_of_two\<close> does not return. The sizes
  are converted to \<open>int\<close>.
\<close>

definition calculate_bm_timeout_ms :: "rat \<Rightarrow> nat \<Rightarrow> nat \<Rightarrow> nat \<Rightarrow> nat \<Rightarrow> rat \<Rightarrow> rat \<Rightarrow> rat option" where
  "calculate_bm_timeout_ms frequency_mhz asic_n small_cores cores version_size timeout_percent default_time_ms =
     (if asic_n = 0 then Some default_time_ms
      else case (next_power_of_two (int32 (int cores)), next_power_of_two (int32 (int small_cores)), next_power_of_two (int32 (int asic_n))) of
        (Some cores_up, Some small_cores_up, Some asic_count_up) \<Rightarrow>
          if small_cores_up < cores_up \<or> frequency_mhz \<le> 0 then Some default_time_ms
          else
            let midstates = f64 (of_int small_cores_up / of_int cores_up);
                serial_versions = f64 (f64 (of_nat version_size) / midstates);
                serial_nonces = f64 (f64 (4294967296 / of_int cores_up) / of_int asic_count_up);
                fullspace_timeout_ms = f64 (f64 (serial_versions * serial_nonces) / f64 (frequency_mhz * 1000))
            in if \<not> 0 < fullspace_timeout_ms then Some default_time_ms
               else Some (f64 (timeout_percent * fullspace_timeout_ms))
      | _ \<Rightarrow> None)"

definition ASIC_get_asic_job_frequency_ms :: "asic_state \<Rightarrow> rat option" where
  "ASIC_get_asic_job_frequency_ms s =
     (case next_power_of_two (int (unat (asic_count (dev s)))) of
        None \<Rightarrow> None
      | Some n \<Rightarrow>
          let divided = of_int (int (unat (default_asic_timeout (dev s))) div n)
          in case asic s of
               Some BM1397 \<Rightarrow> calculate_bm_timeout_ms (frequency_value s) (unat (asic_count (dev s)))
                 (unat (small_core_count (dev s))) (unat (core_count (dev s))) 4 1 divided
             | Some BM1366 \<Rightarrow> Some divided | Some BM1368 \<Rightarrow> Some divided | Some BM1370 \<Rightarrow> Some divided
             | None \<Rightarrow> Some 500)"

section \<open>Dispatch\<close>

text \<open>The chips found, the events, the chain error and the new state; \<open>None\<close> as in the drivers.\<close>

definition ASIC_init :: "asic_state \<Rightarrow> reception list \<Rightarrow> (u8 \<times> event list \<times> string \<times> asic_state) option" where
  "ASIC_init s rx =
     (let upd = (\<lambda>set. map_option (\<lambda>(n, es, err, actual, d). (n, es, err, s \<lparr>actual_frequency := actual, drivers := set d\<rparr>)));
          freq = frequency_value s; actual = actual_frequency s
      in case asic s of
           Some BM1397 \<Rightarrow>
             (case BM1397_init (dev s) freq actual rx (drv_BM1397 (drivers s)) of
                (n, es, err, actual', d) \<Rightarrow>
                  Some (n, es, err, s \<lparr>actual_frequency := actual', drivers := (drivers s) \<lparr>drv_BM1397 := d\<rparr>\<rparr>))
         | Some BM1366 \<Rightarrow> upd (\<lambda>d. (drivers s) \<lparr>drv_BM1366 := d\<rparr>) (BM1366_init (dev s) freq actual rx (drv_BM1366 (drivers s)))
         | Some BM1368 \<Rightarrow> upd (\<lambda>d. (drivers s) \<lparr>drv_BM1368 := d\<rparr>) (BM1368_init (dev s) freq actual rx (drv_BM1368 (drivers s)))
         | Some BM1370 \<Rightarrow> upd (\<lambda>d. (drivers s) \<lparr>drv_BM1370 := d\<rparr>) (BM1370_init (dev s) freq actual rx (drv_BM1370 (drivers s)))
         | None \<Rightarrow> Some (0, [], [], s))"

definition ASIC_process_work :: "asic_state \<Rightarrow> u64 \<Rightarrow> reception \<Rightarrow> outcome \<times> bool \<times> asic_state" where
  "ASIC_process_work s now rx =
     (let pass = (\<lambda>(r, flushed). (r, flushed, s))
      in case asic s of
           Some BM1397 \<Rightarrow>
             (case BM1397_process_work (drv_BM1397 (drivers s)) (tables s) now rx of
                (r, flushed, d) \<Rightarrow> (r, flushed, s \<lparr>drivers := (drivers s) \<lparr>drv_BM1397 := d\<rparr>\<rparr>))
         | Some BM1366 \<Rightarrow> pass (BM1366_process_work (drv_BM1366 (drivers s)) (tables s) now rx)
         | Some BM1368 \<Rightarrow> pass (BM1368_process_work (drv_BM1368 (drivers s)) (tables s) now rx)
         | Some BM1370 \<Rightarrow> pass (BM1370_process_work (drv_BM1370 (drivers s)) (tables s) now rx)
         | None \<Rightarrow> (No_Result, False, s))"

definition ASIC_set_max_baud :: "asic_state \<Rightarrow> int \<times> event list" where
  "ASIC_set_max_baud s =
     (case asic s of
        Some BM1397 \<Rightarrow> BM1397_set_max_baud
      | Some BM1366 \<Rightarrow> BM1366_set_max_baud
      | Some BM1368 \<Rightarrow> BM1368_set_max_baud
      | Some BM1370 \<Rightarrow> BM1370_set_max_baud
      | None \<Rightarrow> (0, []))"

text \<open>
  \<open>ASIC_send_work\<close>: the frame sent, if any, the job freed, if any, and the new state. \<open>junk\<close> is the stack of
  \<open>BM1397_send_work\<close>.
\<close>

definition ASIC_send_work :: "bytes \<Rightarrow> asic_state \<Rightarrow> bm_job \<Rightarrow> bytes option \<times> bm_job option \<times> asic_state" where
  "ASIC_send_work junk s next_job =
     (let done = (\<lambda>set (f, freed, t, d). (Some f, freed, s \<lparr>tables := t, drivers := set d\<rparr>))
      in case asic s of
           Some BM1397 \<Rightarrow>
             (case BM1397_send_work junk (drv_BM1397 (drivers s)) (tables s) next_job of
                (f, freed, t, d) \<Rightarrow> (Some f, freed, s \<lparr>tables := t, drivers := (drivers s) \<lparr>drv_BM1397 := d\<rparr>\<rparr>))
         | Some BM1366 \<Rightarrow> done (\<lambda>d. (drivers s) \<lparr>drv_BM1366 := d\<rparr>) (BM1366_send_work (drv_BM1366 (drivers s)) (tables s) next_job)
         | Some BM1368 \<Rightarrow> done (\<lambda>d. (drivers s) \<lparr>drv_BM1368 := d\<rparr>) (BM1368_send_work (drv_BM1368 (drivers s)) (tables s) next_job)
         | Some BM1370 \<Rightarrow> done (\<lambda>d. (drivers s) \<lparr>drv_BM1370 := d\<rparr>) (BM1370_send_work (drv_BM1370 (drivers s)) (tables s) next_job)
         | None \<Rightarrow> (None, None, s))"

definition ASIC_set_version_mask :: "asic_state \<Rightarrow> u32 \<Rightarrow> event list" where
  "ASIC_set_version_mask s msk =
     (case asic s of
        Some BM1397 \<Rightarrow> BM1397_set_version_mask msk
      | Some BM1366 \<Rightarrow> [BM1366_set_version_mask msk]
      | Some BM1368 \<Rightarrow> [BM1368_set_version_mask msk]
      | Some BM1370 \<Rightarrow> [BM1370_set_version_mask msk]
      | None \<Rightarrow> [])"

definition ASIC_set_frequency :: "asic_state \<Rightarrow> event list \<times> asic_state" where
  "ASIC_set_frequency s =
     (let go = (\<lambda>set_frequency.
            let r = do_frequency_transition set_frequency (frequency_value s) (actual_frequency s)
            in (snd r, s \<lparr>actual_frequency := fst r\<rparr>))
      in case asic s of
           Some BM1397 \<Rightarrow> go BM1397_send_hash_frequency
         | Some BM1366 \<Rightarrow> go BM1366_send_hash_frequency
         | Some BM1368 \<Rightarrow> go BM1368_send_hash_frequency
         | Some BM1370 \<Rightarrow> go BM1370_send_hash_frequency
         | None \<Rightarrow> ([], s))"

definition ASIC_set_nonce_space :: "asic_state \<Rightarrow> event list option" where
  "ASIC_set_nonce_space s =
     (let set = (\<lambda>f. map_option (\<lambda>e. [e]) (f 1 (actual_frequency s) (ucast (asic_count (dev s))) (core_count (dev s))))
      in case asic s of
           Some BM1397 \<Rightarrow> Some []
         | Some BM1366 \<Rightarrow> set BM1366_set_nonce_space
         | Some BM1368 \<Rightarrow> set BM1368_set_nonce_space
         | Some BM1370 \<Rightarrow> set BM1370_set_nonce_space
         | None \<Rightarrow> Some [])"

definition ASIC_read_registers :: "asic_state \<Rightarrow> event list" where
  "ASIC_read_registers s =
     (case asic s of
        Some BM1397 \<Rightarrow> BM1397_read_registers
      | Some BM1366 \<Rightarrow> BM1366_read_registers
      | Some BM1368 \<Rightarrow> BM1368_read_registers
      | Some BM1370 \<Rightarrow> BM1370_read_registers
      | None \<Rightarrow> [])"

section \<open>Bringing the chain up\<close>

text \<open>
  \<open>asic_initialize\<close> with the GPIO reset and the state of the UART driver as inputs. The result: the chips
  found, the \<open>asic_status\<close> text it sets, if any, whether it sets \<open>ASIC_initalized\<close>, and the events.
\<close>

datatype bring_up =
  Serial_Init
| Set_Baud int
| Line event
| Clear_Buffer

definition UART_FREQ :: int where
  "UART_FREQ = 115200"

definition asic_initialize ::
  "bool \<Rightarrow> bool \<Rightarrow> nat \<Rightarrow> asic_state \<Rightarrow> reception list \<Rightarrow> (u8 \<times> string option \<times> bool \<times> bring_up list \<times> asic_state) option" where
  "asic_initialize reset_ok uart_initialized stabilization_delay_ms s rx =
     (if \<not> reset_ok then Some (0, Some ''ASIC reset failed'', False, [], s)
      else
        let uart = (if \<not> uart_initialized then [Serial_Init] else [Set_Baud UART_FREQ, Line (Delay 100)])
        in case ASIC_init s rx of
             None \<Rightarrow> None
           | Some (chip_count, es, err, s') \<Rightarrow>
               if chip_count = 0
               then Some (0, Some (case get_asic_chain_error err of Some e \<Rightarrow> e | None \<Rightarrow> ''ASIC chain detection failed''),
                          False, uart @ map Line es, s')
               else
                 let baud = ASIC_set_max_baud s'
                 in Some (chip_count, None, True,
                          uart @ map Line es @ map Line (snd baud) @ [Set_Baud (fst baud), Clear_Buffer] @
                          (if 0 < stabilization_delay_ms then [Line (Delay stabilization_delay_ms)] else []), s'))"

section \<open>The dispatch as a driver\<close>

text \<open>The operations of the chip in use, in the shape of the contract of \<open>asic_driver\<close>.\<close>

definition asic_counter :: "asic_id \<Rightarrow> asic_state \<Rightarrow> u8" where
  "asic_counter c s =
     (case c of BM1397 \<Rightarrow> job_counter (drv_BM1397 (drivers s)) | BM1366 \<Rightarrow> job_counter (drv_BM1366 (drivers s))
              | BM1368 \<Rightarrow> job_counter (drv_BM1368 (drivers s)) | BM1370 \<Rightarrow> job_counter (drv_BM1370 (drivers s)))"

definition job_step :: "asic_id \<Rightarrow> nat" where
  "job_step c = (case c of BM1397 \<Rightarrow> 4 | BM1366 \<Rightarrow> 8 | BM1368 \<Rightarrow> 24 | BM1370 \<Rightarrow> 24)"

definition asic_send ::
  "asic_id \<Rightarrow> bytes \<Rightarrow> asic_state \<Rightarrow> job_tables \<Rightarrow> bm_job \<Rightarrow> bytes \<times> bm_job option \<times> job_tables \<times> asic_state" where
  "asic_send c junk s t j =
     (case ASIC_send_work junk (s \<lparr>asic := Some c, tables := t\<rparr>) j of (f, freed, s') \<Rightarrow> (the f, freed, tables s', s'))"

lemma asic_send_all_laws:
  assumes "asic_send c junk s t j = (f, freed, t', s')"
  shows "unat (asic_counter c s') = (unat (asic_counter c s) + job_step c) mod 128 \<and> (freed, t') = store_job (asic_counter c s') j t \<and>
    (job_ok j \<longrightarrow> well_formed f \<and> bit (f ! 2) 5 \<and> f ! 4 = asic_counter c s')"
proof (cases c)
  case BM1397
  obtain f1 fr1 t1 d1 where r: "BM1397_send_work junk (drv_BM1397 (drivers s)) t j = (f1, fr1, t1, d1)"
    by (cases "BM1397_send_work junk (drv_BM1397 (drivers s)) t j")
  have "f = f1" "freed = fr1" "t' = t1" "asic_counter c s' = job_counter d1"
    using assms by (auto simp: BM1397 asic_send_def ASIC_send_work_def asic_counter_def r)
  then show ?thesis
    using BM1397_send_contract(1-3) [OF r] by (simp add: BM1397 asic_counter_def job_step_def)
next
  case BM1366
  obtain f1 fr1 t1 d1 where r: "BM1366_send_work (drv_BM1366 (drivers s)) t j = (f1, fr1, t1, d1)"
    by (cases "BM1366_send_work (drv_BM1366 (drivers s)) t j")
  have "f = f1" "freed = fr1" "t' = t1" "asic_counter c s' = job_counter d1"
    using assms by (auto simp: BM1366 asic_send_def ASIC_send_work_def asic_counter_def r)
  then show ?thesis
    using BM1366_send_contract(1-3) [OF r] by (simp add: BM1366 asic_counter_def job_step_def)
next
  case BM1368
  obtain f1 fr1 t1 d1 where r: "BM1368_send_work (drv_BM1368 (drivers s)) t j = (f1, fr1, t1, d1)"
    by (cases "BM1368_send_work (drv_BM1368 (drivers s)) t j")
  have "f = f1" "freed = fr1" "t' = t1" "asic_counter c s' = job_counter d1"
    using assms by (auto simp: BM1368 asic_send_def ASIC_send_work_def asic_counter_def r)
  then show ?thesis
    using BM1368_send_contract(1-3) [OF r] by (simp add: BM1368 asic_counter_def job_step_def)
next
  case BM1370
  obtain f1 fr1 t1 d1 where r: "BM1370_send_work (drv_BM1370 (drivers s)) t j = (f1, fr1, t1, d1)"
    by (cases "BM1370_send_work (drv_BM1370 (drivers s)) t j")
  have "f = f1" "freed = fr1" "t' = t1" "asic_counter c s' = job_counter d1"
    using assms by (auto simp: BM1370 asic_send_def ASIC_send_work_def asic_counter_def r)
  then show ?thesis
    using BM1370_send_contract(1-3) [OF r] by (simp add: BM1370 asic_counter_def job_step_def)
qed

lemma asic_send_laws:
  assumes "asic_send c junk s t j = (f, freed, t', s')"
  shows "unat (asic_counter c s') = (unat (asic_counter c s) + job_step c) mod 128"
    and "(freed, t') = store_job (asic_counter c s') j t"
    and "job_ok j \<Longrightarrow> well_formed f \<and> bit (f ! 2) 5 \<and> f ! 4 = asic_counter c s'"
  using asic_send_all_laws [OF assms] by blast+

lemma job_steps_distinct: "0 < k \<Longrightarrow> k < 16 \<Longrightarrow> (job_step c * k) mod 128 \<noteq> 0"
proof -
  assume "0 < k" "k < 16"
  then have "4 * k mod 128 \<noteq> 0" "8 * k mod 128 \<noteq> 0" "24 * k mod 128 \<noteq> 0"
    using job_numbers_apart [of k] by linarith+
  then show ?thesis by (cases c) (simp_all only: job_step_def asic_id.case simp_thms)
qed

interpretation asic: asic_driver "asic_send c junk" "asic_counter c" "job_step c" 16
  by unfold_locales (erule asic_send_laws job_steps_distinct; assumption)+

text \<open>A sequence of calls of \<open>ASIC_send_work\<close>, with the jobs they freed.\<close>

fun ASIC_send_all :: "bytes \<Rightarrow> asic_state \<Rightarrow> bm_job list \<Rightarrow> bm_job option list \<times> asic_state" where
  "ASIC_send_all junk s [] = ([], s)"
| "ASIC_send_all junk s (j # js) =
     (case ASIC_send_work junk s j of (f, freed, s') \<Rightarrow>
        case ASIC_send_all junk s' js of (freeds, s'') \<Rightarrow> (freed # freeds, s''))"

lemma ASIC_send_work_as_driver:
  assumes "asic s = Some c" "ASIC_send_work junk s j = (f, freed, s')"
  shows "asic_send c junk s (tables s) j = (the f, freed, tables s', s')" "asic s' = Some c" "dev s' = dev s" "f \<noteq> None"
proof -
  have "s \<lparr>asic := Some c, tables := tables s\<rparr> = s" using assms(1) by simp
  then show "asic_send c junk s (tables s) j = (the f, freed, tables s', s')" by (simp add: asic_send_def assms(2))
  show "asic s' = Some c" "dev s' = dev s" "f \<noteq> None"
    using assms by (cases c; auto simp: ASIC_send_work_def Let_def split: prod.splits)+
qed

lemma ASIC_send_all_as_driver:
  "asic s = Some c \<Longrightarrow> ASIC_send_all junk s js = (freeds, s') \<Longrightarrow>
     asic.send_all c junk s (tables s) js = (freeds, tables s', s') \<and> asic s' = Some c"
proof (induction js arbitrary: s freeds)
  case Nil
  then show ?case by simp
next
  case (Cons j js)
  obtain f freed s1 where s1: "ASIC_send_work junk s j = (f, freed, s1)" by (cases "ASIC_send_work junk s j")
  obtain freeds1 where r: "ASIC_send_all junk s1 js = (freeds1, s')" "freeds = freed # freeds1"
    using Cons.prems(2) s1 by (auto split: prod.splits)
  note d = ASIC_send_work_as_driver [OF Cons.prems(1) s1]
  show ?case using Cons.IH [OF d(2) r(1)] by (simp add: d(1) r(2))
qed

text \<open>
  C18. A job handed to the chip stays in its slot, valid, while up to fifteen further jobs are sent, whichever
  of the four chips is in use; so the answers of the chip to the last sixteen jobs find their job.
\<close>

theorem job_window:
  assumes "tables_ok (tables s)" "asic s = Some c" "length js < 16"
    and "ASIC_send_work junk s job = (f, freed, s1)" "ASIC_send_all junk s1 js = (freeds, s2)"
  shows "slot_holds (tables s2) (asic_counter c s1) job"
proof -
  note d = ASIC_send_work_as_driver [OF assms(2,4)]
  have "slot_holds (tables s1) (asic_counter c s1) job" "tables_ok (tables s1)"
    using asic.send_holds [OF d(1) assms(1)] asic.send_tables_ok [OF d(1) assms(1)] by simp_all
  moreover have "asic.send_all c junk s1 (tables s1) js = (freeds, tables s2, s2)"
    using ASIC_send_all_as_driver [OF d(2) assms(5)] by simp
  ultimately show ?thesis
    using asic.still_held [of "tables s1" "asic_counter c s1" job 0 js c s1 junk freeds "tables s2" s2] assms(3) asic.counter_less [OF d(1)]
    by simp
qed

text \<open>
  C20. Sending jobs loses none and frees none twice: the jobs sent and those in the table before are exactly
  the ones in the table afterwards and the ones freed.
\<close>

theorem jobs_conserved:
  assumes "tables_ok (tables s)" "asic s = Some c" "ASIC_send_all junk s js = (freeds, s')"
  shows "mset js + jobs_in (active_jobs (tables s)) = jobs_in (active_jobs (tables s')) + jobs_in freeds"
  using asic.send_all_conserves [OF assms(1) conjunct1 [OF ASIC_send_all_as_driver [OF assms(2,3)]]] by simp

text \<open>A state for the examples: a BM1370 with an empty table.\<close>

definition example_driver :: driver where
  "example_driver = \<lparr>address_interval = 256, job_counter = 0\<rparr>"

definition example_state :: "asic_id \<Rightarrow> asic_state" where
  "example_state c = \<lparr>asic = Some c,
     dev = \<lparr>asic_count = 1, difficulty = 256, core_count = 128, small_core_count = 2040, default_asic_timeout = 500\<rparr>,
     frequency_value = 525, actual_frequency = 525,
     tables = \<lparr>active_jobs = replicate 128 None, valid_jobs = replicate 128 0\<rparr>,
     drivers = \<lparr>drv_BM1397 = \<lparr>address_interval = 256, job_counter = 0, prev_nonce = 0\<rparr>, drv_BM1366 = example_driver,
                drv_BM1368 = example_driver, drv_BM1370 = example_driver\<rparr>\<rparr>"

theorem job_window_witness:
  "slot_holds (tables (snd (snd (ASIC_send_work [] (example_state BM1370) empty_job)))) 24 empty_job"
proof -
  obtain f freed s1 where s1: "ASIC_send_work [] (example_state BM1370) empty_job = (f, freed, s1)"
    by (cases "ASIC_send_work [] (example_state BM1370) empty_job")
  have "asic_counter BM1370 s1 = 24"
    using s1 by (auto simp: ASIC_send_work_def example_state_def example_driver_def BM1370_send_work_def Let_def asic_counter_def)
  then show ?thesis
    using job_window [of "example_state BM1370" BM1370 "[]" "[]" empty_job f freed s1 "[]" s1] s1
    by (simp add: tables_ok_def example_state_def)
qed

theorem jobs_conserved_witness:
  "size (jobs_in (active_jobs (tables (snd (ASIC_send_all [] (example_state BM1366) [empty_job, empty_job]))))) \<le> 2"
proof -
  obtain freeds s' where r: "ASIC_send_all [] (example_state BM1366) [empty_job, empty_job] = (freeds, s')"
    by (cases "ASIC_send_all [] (example_state BM1366) [empty_job, empty_job]")
  have none: "jobs_in (active_jobs (tables (example_state BM1366))) = {#}"
    by (simp add: example_state_def jobs_in_def)
  have "size (mset [empty_job, empty_job] + jobs_in (active_jobs (tables (example_state BM1366)))) =
      size (jobs_in (active_jobs (tables s'))) + size (jobs_in freeds)"
    using jobs_conserved [of "example_state BM1366" BM1366 "[]" "[empty_job, empty_job]" freeds s'] r
    by (simp add: tables_ok_def example_state_def flip: size_union)
  then show ?thesis unfolding r by (simp add: none)
qed

section \<open>Frames\<close>

text \<open>
  Every frame that any operation writes to the serial line is well formed: preamble, length byte and
  checksum are right, the hand-written frames of the BM1366 initialisation included.
\<close>

theorem asic_frames_well_formed:
  "(ASIC_init s rx = Some (n, es, err, s') \<longrightarrow> events_well_formed es) \<and>
   events_well_formed (snd (ASIC_set_max_baud s)) \<and>
   events_well_formed (ASIC_set_version_mask s msk) \<and>
   events_well_formed (fst (ASIC_set_frequency s)) \<and>
   (ASIC_set_nonce_space s = Some es' \<longrightarrow> events_well_formed es') \<and>
   events_well_formed (ASIC_read_registers s) \<and>
   (job_ok j \<and> ASIC_send_work junk s j = (Some f, freed, s'') \<longrightarrow> well_formed f)"
proof -
  note ramps = do_frequency_transition_well_formed [of BM1397_send_hash_frequency, OF BM1397_events_well_formed(4)]
    do_frequency_transition_well_formed [of BM1366_send_hash_frequency, OF BM1366_events_well_formed(5)]
    do_frequency_transition_well_formed [of BM1368_send_hash_frequency, OF BM1368_events_well_formed(5)]
    do_frequency_transition_well_formed [of BM1370_send_hash_frequency, OF BM1370_events_well_formed(5)]
  have i: "ASIC_init s rx = Some (n, es, err, s') \<longrightarrow> events_well_formed es"
    by (auto simp: ASIC_init_def Let_def split: option.splits asic_id.splits prod.splits
        dest: BM1397_init_well_formed BM1366_init_well_formed BM1368_init_well_formed BM1370_init_well_formed)
  have b: "events_well_formed (snd (ASIC_set_max_baud s))" "events_well_formed (ASIC_set_version_mask s msk)"
    "events_well_formed (ASIC_read_registers s)" "events_well_formed (fst (ASIC_set_frequency s))"
    by (simp_all add: ASIC_set_max_baud_def ASIC_set_version_mask_def ASIC_read_registers_def ASIC_set_frequency_def Let_def ramps
        split: option.split asic_id.split)
  have n: "ASIC_set_nonce_space s = Some es' \<longrightarrow> events_well_formed es'"
    by (auto simp: ASIC_set_nonce_space_def Let_def split: option.splits asic_id.splits
        dest: BM1366_nonce_space_well_formed BM1368_nonce_space_well_formed BM1370_nonce_space_well_formed)
  have w: "well_formed f" if "job_ok j" "ASIC_send_work junk s j = (Some f, freed, s'')"
  proof (cases "asic s")
    case None
    with that(2) show ?thesis by (simp add: ASIC_send_work_def Let_def)
  next
    case (Some c)
    show ?thesis using asic_send_laws(3) [OF ASIC_send_work_as_driver(1) [OF Some that(2)] that(1)] by simp
  qed
  show ?thesis using i b n w by blast
qed

theorem asic_frames_well_formed_witness: "well_formed (the (fst (ASIC_send_work [] (example_state BM1366) empty_job)))"
proof -
  obtain f freed s where r: "ASIC_send_work [] (example_state BM1366) empty_job = (f, freed, s)"
    by (cases "ASIC_send_work [] (example_state BM1366) empty_job")
  moreover have "f \<noteq> None" using r by (auto simp: ASIC_send_work_def example_state_def Let_def split: prod.splits)
  moreover have "job_ok empty_job" by (simp add: job_ok_def empty_job_def)
  ultimately show ?thesis
    using asic_frames_well_formed [of "example_state BM1366" "[]" 0 "[]" "[]" s 0 "[]" empty_job "[]" "the f" freed s] by auto
qed

section \<open>Answers\<close>

definition interval_of :: "asic_id \<Rightarrow> asic_state \<Rightarrow> int" where
  "interval_of c s =
     (case c of BM1397 \<Rightarrow> address_interval (drv_BM1397 (drivers s)) | BM1366 \<Rightarrow> address_interval (drv_BM1366 (drivers s))
              | BM1368 \<Rightarrow> address_interval (drv_BM1368 (drivers s)) | BM1370 \<Rightarrow> address_interval (drv_BM1370 (drivers s)))"

text \<open>
  Whatever bytes arrive, an answer that is passed on names a known register or a job number below 128
  whose slot holds a valid job, and with the address interval that initialisation sets there is no division
  by zero.
\<close>

theorem process_work_safe:
  "(fst (ASIC_process_work s now rx) = Result r \<longrightarrow> reported (tables s) r) \<and>
   (asic s = Some c \<and> interval_of c s \<noteq> 0 \<longrightarrow> fst (ASIC_process_work s now rx) \<noteq> Division_By_Zero)"
proof (cases "asic s")
  case None
  then show ?thesis by (simp add: ASIC_process_work_def Let_def)
next
  case (Some a)
  show ?thesis
  proof (cases a)
    case BM1397
    obtain r0 fl d0 where p: "BM1397_process_work (drv_BM1397 (drivers s)) (tables s) now rx = (r0, fl, d0)"
      by (cases "BM1397_process_work (drv_BM1397 (drivers s)) (tables s) now rx")
    then have "fst (ASIC_process_work s now rx) = r0" by (simp add: ASIC_process_work_def Some BM1397)
    then show ?thesis
      using p BM1397_process_defined [of "drv_BM1397 (drivers s)" "tables s" now rx] Some
      by (auto simp: BM1397 interval_of_def dest: BM1397_process_reported)
  next
    case BM1366
    obtain r0 fl where p: "BM1366_process_work (drv_BM1366 (drivers s)) (tables s) now rx = (r0, fl)"
      by (cases "BM1366_process_work (drv_BM1366 (drivers s)) (tables s) now rx")
    then have "fst (ASIC_process_work s now rx) = r0" by (simp add: ASIC_process_work_def Some BM1366)
    then show ?thesis
      using p BM1366_process_defined [of "drv_BM1366 (drivers s)" "tables s" now rx] Some
      by (auto simp: BM1366 interval_of_def dest: BM1366_process_reported)
  next
    case BM1368
    obtain r0 fl where p: "BM1368_process_work (drv_BM1368 (drivers s)) (tables s) now rx = (r0, fl)"
      by (cases "BM1368_process_work (drv_BM1368 (drivers s)) (tables s) now rx")
    then have "fst (ASIC_process_work s now rx) = r0" by (simp add: ASIC_process_work_def Some BM1368)
    then show ?thesis
      using p BM1368_process_defined [of "drv_BM1368 (drivers s)" "tables s" now rx] Some
      by (auto simp: BM1368 interval_of_def dest: BM1368_process_reported)
  next
    case BM1370
    obtain r0 fl where p: "BM1370_process_work (drv_BM1370 (drivers s)) (tables s) now rx = (r0, fl)"
      by (cases "BM1370_process_work (drv_BM1370 (drivers s)) (tables s) now rx")
    then have "fst (ASIC_process_work s now rx) = r0" by (simp add: ASIC_process_work_def Some BM1370)
    then show ?thesis
      using p BM1370_process_defined [of "drv_BM1370 (drivers s)" "tables s" now rx] Some
      by (auto simp: BM1370 interval_of_def dest: BM1370_process_reported)
  qed
qed

theorem process_work_safe_witness:
  "fst (ASIC_process_work (example_state BM1370) 0 (Rx_Bytes [])) \<noteq> Division_By_Zero"
  using process_work_safe [of "example_state BM1370" 0 "Rx_Bytes []" "empty_result 0" BM1370]
  by (simp add: example_state_def interval_of_def example_driver_def)

section \<open>A job sent is recognised when it comes back\<close>

text \<open>
  The chips answer with the job number they were given: shifted by one above a small core number of four
  bits (BM1368, BM1370), above one of three bits (BM1366), or above the two bits of the midstate (BM1397).
\<close>

definition echo :: "asic_id \<Rightarrow> u8 \<Rightarrow> u8 \<Rightarrow> u8" where
  "echo c i low = (case c of BM1397 \<Rightarrow> i OR (low AND 3) | BM1366 \<Rightarrow> i OR (low AND 7)
                           | BM1368 \<Rightarrow> push_bit 1 i OR (low AND 15) | BM1370 \<Rightarrow> push_bit 1 i OR (low AND 15))"

definition response_length :: "asic_id \<Rightarrow> nat" where
  "response_length c = (if c = BM1397 then 9 else 11)"

text \<open>The granularity of the job numbers; every counter is a multiple of it below 128.\<close>

definition job_unit :: "asic_id \<Rightarrow> nat" where
  "job_unit c = (if c = BM1397 then 4 else 8)"

lemma bit_u8_div: "bit (i :: u8) n \<longleftrightarrow> odd (unat i div 2 ^ n)"
proof -
  have "bit i n \<longleftrightarrow> bit (unat i) n" by (auto simp: bit_unsigned_iff dest: bit_imp_le_length)
  then show ?thesis by (simp add: bit_iff_odd)
qed

lemma multiple_bits:
  fixes i :: u8
  assumes "unat i mod 2 ^ k = 0" "unat i < 128" "bit i n"
  shows "k \<le> n" "n < 7"
proof -
  obtain q where q: "unat i = 2 ^ k * q" using assms(1) by (auto simp: mod_eq_0_iff_dvd elim: dvdE)
  show "k \<le> n"
  proof (rule ccontr)
    assume "\<not> k \<le> n"
    then have "(2::nat) ^ k = 2 ^ n * (2 * 2 ^ (k - n - 1))" by (simp flip: power_add power_Suc)
    then have "unat i div 2 ^ n = 2 * (2 ^ (k - n - 1) * q)" by (simp add: q)
    with assms(3) show False by (simp add: bit_u8_div)
  qed
  show "n < 7"
  proof (rule ccontr)
    assume "\<not> n < 7"
    then have "(2::nat) ^ 7 \<le> 2 ^ n" by (intro power_increasing) simp_all
    then have "unat i div 2 ^ n = 0" using assms(2) by simp
    with assms(3) show False by (simp add: bit_u8_div)
  qed
qed

lemma echo_bits:
  fixes i low :: u8
  assumes "unat i < 128"
  shows "unat i mod 8 = 0 \<Longrightarrow> drop_bit 1 ((push_bit 1 i OR (low AND 15)) AND 0xf0) = i"
    and "unat i mod 8 = 0 \<Longrightarrow> (i OR (low AND 7)) AND 0xf8 = i"
    and "unat i mod 4 = 0 \<Longrightarrow> (i OR (low AND 3)) AND 0xfc = i"
    and "unat i mod 4 = 0 \<Longrightarrow> (i OR (low AND 3)) AND 3 = low AND 3"
proof -
  have eight: "n \<in> {0, 1, 2, 3, 4, 5, 6, 7}" if "n < LENGTH(8)" for n :: nat using that by auto
  note b3 = multiple_bits [of i 3] and b2 = multiple_bits [of i 2]
  have i8: "unat i mod 8 = 0 \<Longrightarrow> \<not> bit i 0 \<and> \<not> bit i 1 \<and> \<not> bit i 2 \<and> \<not> bit i 7"
    using assms b3 [of 0] b3 [of 1] b3 [of 2] b3 [of 7] by auto
  have i4: "unat i mod 4 = 0 \<Longrightarrow> \<not> bit i 0 \<and> \<not> bit i 1 \<and> \<not> bit i 7"
    using assms b2 [of 0] b2 [of 1] b2 [of 7] by auto
  show "unat i mod 8 = 0 \<Longrightarrow> drop_bit 1 ((push_bit 1 i OR (low AND 15)) AND 0xf0) = i"
    using i8 by (intro word_eq_by_bits) (drule eight; auto simp: bit_simps simp flip: numeral_eq_Suc)
  show "unat i mod 8 = 0 \<Longrightarrow> (i OR (low AND 7)) AND 0xf8 = i"
    using i8 by (intro word_eq_by_bits) (drule eight; auto simp: bit_simps)
  show "unat i mod 4 = 0 \<Longrightarrow> (i OR (low AND 3)) AND 0xfc = i"
    using i4 by (intro word_eq_by_bits) (drule eight; auto simp: bit_simps)
  show "unat i mod 4 = 0 \<Longrightarrow> (i OR (low AND 3)) AND 3 = low AND 3"
    using i4 by (intro word_eq_by_bits) (drule eight; auto simp: bit_simps)
qed

lemma send_keeps_statics:
  assumes "asic s = Some c" "ASIC_send_work junk s j = (f, freed, s1)"
  shows "interval_of c s1 = interval_of c s" "prev_nonce (drv_BM1397 (drivers s1)) = prev_nonce (drv_BM1397 (drivers s))"
  using assms
  by (cases c; auto simp: ASIC_send_work_def Let_def interval_of_def BM1397_send_work_def BM1366_send_work_def
      BM1368_send_work_def BM1370_send_work_def)+

lemma counter_multiple:
  assumes "asic s = Some c" "ASIC_send_work junk s j = (f, freed, s1)" "unat (asic_counter c s) mod job_unit c = 0"
  shows "unat (asic_counter c s1) mod job_unit c = 0" "unat (asic_counter c s1) < 128"
proof -
  have n: "unat (asic_counter c s1) = (unat (asic_counter c s) + job_step c) mod 128"
    using asic_send_laws(1) [OF ASIC_send_work_as_driver(1) [OF assms(1,2)]] .
  then show "unat (asic_counter c s1) < 128" by simp
  have u: "job_unit c dvd 128" "job_unit c dvd job_step c" by (cases c; simp add: job_unit_def job_step_def)+
  have "job_unit c dvd unat (asic_counter c s)" using assms(3) by (simp only: dvd_eq_mod_eq_0)
  then have "job_unit c dvd unat (asic_counter c s) + job_step c" using u(2) by (rule dvd_add)
  then show "unat (asic_counter c s1) mod job_unit c = 0" by (simp add: n mod_mod_cancel [OF u(1)] dvd_eq_mod_eq_0)
qed

text \<open>
  C4. When a chip answers with a frame that passes the checks and carries the number of the job sent last,
  the answer is recognised as that job: the result names its slot, the nonce of the frame, and the version of
  the job with the version bits of the frame (or rolled by the midstate index, for the BM1397).
\<close>

theorem job_recognised:
  assumes "asic s = Some c" "tables_ok (tables s)" "unat (asic_counter c s) mod job_unit c = 0" "interval_of c s \<noteq> 0"
    and "ASIC_send_work junk s j = (f, freed, s1)"
    and "receive_work (response_length c) (Rx_Bytes frame) = (Some frame, False)" "is_job_response frame"
    and "frame ! 7 = echo c (asic_counter c s1) low"
    and "le_word (slice 2 4 frame) \<noteq> prev_nonce (drv_BM1397 (drivers s))"
  shows "\<exists>r. fst (ASIC_process_work s1 now (Rx_Bytes frame)) = Result r \<and> result_job_id r = asic_counter c s1 \<and>
     result_nonce r = le_word (slice 2 4 frame) \<and>
     result_rolled_version r =
       (if c = BM1397 then ((\<lambda>v. increment_bitmask v (version_mask j)) ^^ unat (low AND 3)) (version j)
        else version j OR push_bit 13 (ucast (be16_at 8 frame)))"
proof -
  note d = ASIC_send_work_as_driver [OF assms(1,5)]
  note m = counter_multiple [OF assms(1,5,3)]
  have held: "active_jobs (tables s1) ! unat (asic_counter c s1) = Some j" "valid_jobs (tables s1) ! unat (asic_counter c s1) = 1"
    using asic.send_holds [OF d(1) assms(2)] by (simp_all add: slot_holds_def)
  have iv: "interval_of c s1 \<noteq> 0" and pn: "le_word (slice 2 4 frame) \<noteq> prev_nonce (drv_BM1397 (drivers s1))"
    using send_keeps_statics [OF assms(1,5)] assms(4,9) by simp_all
  note bits = echo_bits [OF m(2), of low]
  show ?thesis
  proof (cases c)
    case BM1397
    have rx: "receive_work 9 (Rx_Bytes frame) = (Some frame, False)" using assms(6) by (simp add: BM1397 response_length_def)
    have lt: "\<not> 128 \<le> asic_counter c s1" using m(2) by (simp add: word_le_nat_alt)
    have idx: "frame ! 7 AND 0xfc = asic_counter c s1" "frame ! 7 AND 3 = low AND 3"
      using assms(8) m(1) bits(3,4) by (simp_all add: BM1397 echo_def job_unit_def)
    note h = held [unfolded asic_counter_def BM1397 asic_id.case] and x = idx [unfolded asic_counter_def BM1397 asic_id.case]
    have iv1: "address_interval (drv_BM1397 (drivers s1)) \<noteq> 0" using iv by (simp add: BM1397 interval_of_def)
    have "fst (ASIC_process_work s1 now (Rx_Bytes frame)) = fst (BM1397_job_response (drv_BM1397 (drivers s1)) (tables s1) now frame)"
      using d(2) rx assms(7) by (simp add: ASIC_process_work_def BM1397 BM1397_process_work_def Let_def split: prod.split)
    then show ?thesis
      using h iv1 pn lt by (simp add: BM1397 BM1397_job_response_def Let_def x chip_of_address_def asic_counter_def)
  next
    case BM1366
    have rx: "receive_work 11 (Rx_Bytes frame) = (Some frame, False)" using assms(6) by (simp add: BM1366 response_length_def)
    have lt: "\<not> 128 \<le> asic_counter c s1" using m(2) by (simp add: word_le_nat_alt)
    have idx: "frame ! 7 AND 0xf8 = asic_counter c s1"
      using assms(8) m(1) bits(2) by (simp add: BM1366 echo_def job_unit_def)
    note h = held [unfolded asic_counter_def BM1366 asic_id.case] and x = idx [unfolded asic_counter_def BM1366 asic_id.case]
    have iv1: "address_interval (drv_BM1366 (drivers s1)) \<noteq> 0" using iv by (simp add: BM1366 interval_of_def)
    have "fst (ASIC_process_work s1 now (Rx_Bytes frame)) = BM1366_job_response (drv_BM1366 (drivers s1)) (tables s1) now frame"
      using d(2) rx assms(7) by (simp add: ASIC_process_work_def BM1366 BM1366_process_work_def Let_def split: prod.split)
    then show ?thesis
      using h iv1 pn lt by (simp add: BM1366 BM1366_job_response_def Let_def x chip_of_address_def asic_counter_def)
  next
    case BM1368
    have rx: "receive_work 11 (Rx_Bytes frame) = (Some frame, False)" using assms(6) by (simp add: BM1368 response_length_def)
    have idx: "drop_bit 1 (frame ! 7 AND 0xf0) = asic_counter c s1"
      using assms(8) m(1) bits(1) by (simp only: BM1368 echo_def job_unit_def asic_id.case asic_id.distinct if_False)
    note h = held [unfolded asic_counter_def BM1368 asic_id.case] and x = idx [unfolded asic_counter_def BM1368 asic_id.case, simplified]
    have iv1: "address_interval (drv_BM1368 (drivers s1)) \<noteq> 0" using iv by (simp add: BM1368 interval_of_def)
    have "fst (ASIC_process_work s1 now (Rx_Bytes frame)) = BM1368_job_response (drv_BM1368 (drivers s1)) (tables s1) now frame"
      using d(2) rx assms(7) by (simp add: ASIC_process_work_def BM1368 BM1368_process_work_def Let_def split: prod.split)
    then show ?thesis
      using h iv1 pn by (simp add: BM1368 BM1368_job_response_def Let_def x chip_of_address_def asic_counter_def)
  next
    case BM1370
    have rx: "receive_work 11 (Rx_Bytes frame) = (Some frame, False)" using assms(6) by (simp add: BM1370 response_length_def)
    have idx: "drop_bit 1 (frame ! 7 AND 0xf0) = asic_counter c s1"
      using assms(8) m(1) bits(1) by (simp only: BM1370 echo_def job_unit_def asic_id.case asic_id.distinct if_False)
    note h = held [unfolded asic_counter_def BM1370 asic_id.case] and x = idx [unfolded asic_counter_def BM1370 asic_id.case, simplified]
    have iv1: "address_interval (drv_BM1370 (drivers s1)) \<noteq> 0" using iv by (simp add: BM1370 interval_of_def)
    have "fst (ASIC_process_work s1 now (Rx_Bytes frame)) = BM1370_job_response (drv_BM1370 (drivers s1)) (tables s1) now frame"
      using d(2) rx assms(7) by (simp add: ASIC_process_work_def BM1370 BM1370_process_work_def Let_def split: prod.split)
    then show ?thesis
      using h iv1 pn by (simp add: BM1370 BM1370_job_response_def Let_def x chip_of_address_def asic_counter_def)
  qed
qed

theorem job_recognised_witness:
  "\<exists>r s1. snd (snd (ASIC_send_work [] (example_state BM1370) empty_job)) = s1 \<and>
     fst (ASIC_process_work s1 7 (Rx_Bytes [0xAA, 0x55, 1, 2, 3, 4, 0, 0x30, 0, 0, 0x83])) = Result r \<and>
     result_job_id r = 24 \<and> result_nonce r = 0x04030201"
proof -
  let ?frame = "[0xAA, 0x55, 1, 2, 3, 4, 0, 0x30, 0, 0, 0x83] :: bytes"
  obtain f freed s1 where s1: "ASIC_send_work [] (example_state BM1370) empty_job = (f, freed, s1)"
    by (cases "ASIC_send_work [] (example_state BM1370) empty_job")
  have c: "asic_counter BM1370 s1 = 24"
    using s1 by (auto simp: ASIC_send_work_def example_state_def example_driver_def BM1370_send_work_def Let_def asic_counter_def)
  have e: "asic (example_state BM1370) = Some BM1370" "tables_ok (tables (example_state BM1370))"
    "asic_counter BM1370 (example_state BM1370) = 0" "interval_of BM1370 (example_state BM1370) = 256"
    "prev_nonce (drv_BM1397 (drivers (example_state BM1370))) = 0"
    by (simp_all add: example_state_def tables_ok_def asic_counter_def interval_of_def example_driver_def)
  have r: "receive_work (response_length BM1370) (Rx_Bytes ?frame) = (Some ?frame, False)"
    by (simp add: response_length_def receive_work_def be16_at_def PREAMBLE_def crc5_eval)
  have n: "(le_word (slice 2 4 ?frame) :: u32) = 0x04030201" by (simp add: slice_def)
  have j: "is_job_response ?frame" by (simp add: is_job_response_def)
  have x: "?frame ! 7 = echo BM1370 (asic_counter BM1370 s1) 0" by (simp add: c echo_def)
  obtain r where "fst (ASIC_process_work s1 7 (Rx_Bytes ?frame)) = Result r" "result_job_id r = asic_counter BM1370 s1"
    "result_nonce r = le_word (slice 2 4 ?frame)"
    using job_recognised [of "example_state BM1370" BM1370 "[]" empty_job f freed s1 ?frame 0 7] e s1 r j x n by auto
  then show ?thesis by (auto simp: s1 c n)
qed

section \<open>Bringing the chain up\<close>

text \<open>
  \<open>asic_initialize\<close> reports chips exactly when it declares the ASIC initialised; it then leaves the line at
  the baud rate of the chip with an empty input buffer. Otherwise it returns 0 and leaves a status text.
\<close>

theorem asic_initialize_outcome:
  assumes "asic_initialize reset_ok uart_initialized delay s rx = Some (n, status, initialised, es, s')"
  shows "(n \<noteq> 0 \<longleftrightarrow> initialised) \<and> (status = None \<longleftrightarrow> initialised) \<and>
    (initialised \<longrightarrow> reset_ok \<and>
       (\<exists>before after. es = before @ [Set_Baud (fst (ASIC_set_max_baud s')), Clear_Buffer] @ after \<and>
          (\<forall>b. Set_Baud b \<notin> set after) \<and> (\<forall>f. Line (Tx f) \<notin> set after)))"
proof (cases "n = 0")
  case True
  then show ?thesis
    using assms by (auto simp: asic_initialize_def Let_def split: if_splits option.splits)
next
  case False
  let ?after = "if 0 < delay then [Line (Delay delay)] else []"
  let ?uart = "if \<not> uart_initialized then [Serial_Init] else [Set_Baud UART_FREQ, Line (Delay 100)]"
  obtain evs where es: "es = (?uart @ map Line evs @ map Line (snd (ASIC_set_max_baud s'))) @ [Set_Baud (fst (ASIC_set_max_baud s')), Clear_Buffer] @ ?after"
    and "initialised" "status = None" "reset_ok"
    using assms False by (auto simp: asic_initialize_def Let_def split: if_splits option.splits)
  moreover have "(\<forall>b. Set_Baud b \<notin> set ?after) \<and> (\<forall>f. Line (Tx f) \<notin> set ?after)" by simp
  ultimately show ?thesis using False by blast
qed

theorem asic_initialize_outcome_witness:
  "\<exists>status es s'. asic_initialize True False 0 (example_state BM1397) [] = Some (0, status, False, es, s') \<and> status \<noteq> None"
proof -
  have c: "fst (count_asic_chips (ucast (asic_count (dev (example_state BM1397)))) 0x1397 9 []) = 0"
    by (simp add: example_state_def count_asic_chips_def Let_def)
  then obtain status es s' where r: "asic_initialize True False 0 (example_state BM1397) [] = Some (0, status, False, es, s')"
    by (auto simp: asic_initialize_def ASIC_init_def BM1397_init_def Let_def example_state_def)
  then show ?thesis using asic_initialize_outcome [OF r] by auto
qed

end
