(* ===== verification/Sv2_Protocol.thy ===== *)
theory Sv2_Protocol
  imports Prelude
begin

text \<open>
  \<open>components/stratum_v2/sv2_protocol.c\<close>: the binary messages of Stratum V2. The builders write into a
  buffer and give the frame, or nothing (\<open>-1\<close>) when a string or the frame does not fit. The parsers read a
  payload of \<open>len\<close> bytes; a read beyond its end, which in C is undefined, is the error \<open>Overread\<close> here, so
  that its absence is a theorem and not an assumption.
\<close>

section \<open>Constants and data\<close>

definition SV2_FRAME_HEADER_SIZE :: nat where "SV2_FRAME_HEADER_SIZE = 6"
definition SV2_MSG_SETUP_CONNECTION :: u8 where "SV2_MSG_SETUP_CONNECTION = 0x00"
definition SV2_MSG_OPEN_STANDARD_MINING_CHANNEL :: u8 where "SV2_MSG_OPEN_STANDARD_MINING_CHANNEL = 0x10"
definition SV2_MSG_OPEN_EXTENDED_MINING_CHANNEL :: u8 where "SV2_MSG_OPEN_EXTENDED_MINING_CHANNEL = 0x13"
definition SV2_MSG_SUBMIT_SHARES_STANDARD :: u8 where "SV2_MSG_SUBMIT_SHARES_STANDARD = 0x1a"
definition SV2_MSG_SUBMIT_SHARES_EXTENDED :: u8 where "SV2_MSG_SUBMIT_SHARES_EXTENDED = 0x1b"
definition SV2_MAX_MERKLE_BRANCHES :: nat where "SV2_MAX_MERKLE_BRANCHES = 20"
definition SV2_CHANNEL_MSG_FLAG :: u16 where "SV2_CHANNEL_MSG_FLAG = 0x8000"
definition PAYLOAD_SIZE :: nat where "PAYLOAD_SIZE = 512"

lemmas sv2_constants =
  SV2_FRAME_HEADER_SIZE_def SV2_MSG_SETUP_CONNECTION_def SV2_MSG_OPEN_STANDARD_MINING_CHANNEL_def
  SV2_MSG_OPEN_EXTENDED_MINING_CHANNEL_def SV2_MSG_SUBMIT_SHARES_STANDARD_def SV2_MSG_SUBMIT_SHARES_EXTENDED_def
  SV2_MAX_MERKLE_BRANCHES_def SV2_CHANNEL_MSG_FLAG_def PAYLOAD_SIZE_def

record sv2_frame_header =
  extension_type :: u16
  msg_type :: u8
  msg_length :: u32

record sv2_ext_job =
  ext_job_id :: u32
  ext_version :: u32
  version_rolling_allowed :: bool
  ext_prev_hash :: bytes
  ext_ntime :: u32
  ext_nbits :: u32
  ext_clean_jobs :: bool
  merkle_path :: "bytes list"
  coinbase_prefix :: bytes
  coinbase_suffix :: bytes

section \<open>Little-endian helpers\<close>

definition read_u16_le :: "bytes \<Rightarrow> u16" where
  "read_u16_le p = ucast (p ! 0) OR push_bit 8 (ucast (p ! 1))"

definition read_u32_le :: "bytes \<Rightarrow> u32" where
  "read_u32_le p = ucast (p ! 0) OR push_bit 8 (ucast (p ! 1)) OR push_bit 16 (ucast (p ! 2)) OR push_bit 24 (ucast (p ! 3))"

definition write_u16_le :: "u16 \<Rightarrow> bytes" where
  "write_u16_le v = [ucast v, ucast (drop_bit 8 v)]"

definition write_u32_le :: "u32 \<Rightarrow> bytes" where
  "write_u32_le v = [ucast v, ucast (drop_bit 8 v), ucast (drop_bit 16 v), ucast (drop_bit 24 v)]"

text \<open>
  \<open>write_str0255\<close>: a null pointer is the empty string, a string of more than 255 bytes is cut.
\<close>

definition write_str0255 :: "nat \<Rightarrow> bytes option \<Rightarrow> bytes option" where
  "write_str0255 dest_len str =
     (let s = (case str of None \<Rightarrow> [] | Some s \<Rightarrow> s);
          slen = (if 255 < length s then 255 else length s)
      in if dest_len < 1 + slen then None else Some (of_nat slen # take slen s))"

section \<open>Frame header\<close>

definition sv2_parse_frame_header :: "bytes \<Rightarrow> sv2_frame_header" where
  "sv2_parse_frame_header data =
     \<lparr>extension_type = read_u16_le data, msg_type = data ! 2,
      msg_length = ucast (data ! 3) OR push_bit 8 (ucast (data ! 4)) OR push_bit 16 (ucast (data ! 5))\<rparr>"

definition sv2_encode_frame_header :: "u16 \<Rightarrow> u8 \<Rightarrow> u32 \<Rightarrow> bytes" where
  "sv2_encode_frame_header ext typ len =
     write_u16_le ext @ [typ, ucast len, ucast (drop_bit 8 len), ucast (drop_bit 16 len)]"

section \<open>Message builders\<close>

text \<open>
  The strings of \<open>sv2_build_setup_connection\<close> are written one after the other into a payload of 512
  bytes; \<open>append_str\<close> is one \<open>write_str0255\<close> with its check and the advance of \<open>pos\<close>.
\<close>

definition append_str :: "bytes option \<Rightarrow> bytes option \<Rightarrow> bytes option" where
  "append_str payload str =
     (case payload of
        None \<Rightarrow> None
      | Some p \<Rightarrow> map_option (\<lambda>w. p @ w) (write_str0255 (PAYLOAD_SIZE - length p) str))"

definition finish_frame :: "nat \<Rightarrow> u16 \<Rightarrow> u8 \<Rightarrow> bytes \<Rightarrow> bytes option" where
  "finish_frame buf_len ext typ payload =
     (if buf_len < SV2_FRAME_HEADER_SIZE + length payload then None
      else Some (sv2_encode_frame_header ext typ (of_nat (length payload)) @ payload))"

definition sv2_build_setup_connection ::
  "nat \<Rightarrow> bytes option \<Rightarrow> u16 \<Rightarrow> bytes option \<Rightarrow> bytes option \<Rightarrow> bytes option \<Rightarrow> bytes option \<Rightarrow> u32 \<Rightarrow> bytes option" where
  "sv2_build_setup_connection buf_len host port vendor hw_version firmware device_id flags =
     (let start = [0x00] @ write_u16_le 2 @ write_u16_le 2 @ write_u32_le flags;
          p1 = map_option (\<lambda>p. p @ write_u16_le port) (append_str (Some start) host);
          p2 = append_str p1 vendor;
          p3 = append_str p2 hw_version;
          p4 = append_str p3 firmware;
          p5 = append_str p4 device_id
      in case p5 of None \<Rightarrow> None | Some payload \<Rightarrow> finish_frame buf_len 0x0000 SV2_MSG_SETUP_CONNECTION payload)"

text \<open>\<open>f_bits\<close> is the object representation of \<open>nominal_hash_rate\<close>.\<close>

definition sv2_build_open_standard_mining_channel :: "nat \<Rightarrow> u32 \<Rightarrow> bytes option \<Rightarrow> u32 \<Rightarrow> bytes option" where
  "sv2_build_open_standard_mining_channel buf_len request_id user_identity f_bits =
     (case append_str (Some (write_u32_le request_id)) user_identity of
        None \<Rightarrow> None
      | Some p \<Rightarrow> finish_frame buf_len 0x0000 SV2_MSG_OPEN_STANDARD_MINING_CHANNEL (p @ write_u32_le f_bits @ replicate 32 0xFF))"

definition sv2_build_open_extended_mining_channel :: "nat \<Rightarrow> u32 \<Rightarrow> bytes option \<Rightarrow> u32 \<Rightarrow> u16 \<Rightarrow> bytes option" where
  "sv2_build_open_extended_mining_channel buf_len request_id user_identity f_bits min_extranonce_size =
     (case append_str (Some (write_u32_le request_id)) user_identity of
        None \<Rightarrow> None
      | Some p \<Rightarrow> finish_frame buf_len 0x0000 SV2_MSG_OPEN_EXTENDED_MINING_CHANNEL
          (p @ write_u32_le f_bits @ replicate 32 0xFF @ write_u16_le min_extranonce_size))"

definition sv2_build_submit_shares_standard :: "nat \<Rightarrow> u32 \<Rightarrow> u32 \<Rightarrow> u32 \<Rightarrow> u32 \<Rightarrow> u32 \<Rightarrow> u32 \<Rightarrow> bytes option" where
  "sv2_build_submit_shares_standard buf_len channel_id sequence_number job_id nonce ntime version =
     finish_frame buf_len SV2_CHANNEL_MSG_FLAG SV2_MSG_SUBMIT_SHARES_STANDARD
       (write_u32_le channel_id @ write_u32_le sequence_number @ write_u32_le job_id @ write_u32_le nonce @
        write_u32_le ntime @ write_u32_le version)"

text \<open>\<open>extranonce_len\<close> is a \<open>uint8_t\<close>, here the length of the list.\<close>

definition sv2_build_submit_shares_extended ::
  "nat \<Rightarrow> u32 \<Rightarrow> u32 \<Rightarrow> u32 \<Rightarrow> u32 \<Rightarrow> u32 \<Rightarrow> u32 \<Rightarrow> bytes \<Rightarrow> bytes option" where
  "sv2_build_submit_shares_extended buf_len channel_id sequence_number job_id nonce ntime version extranonce =
     finish_frame buf_len SV2_CHANNEL_MSG_FLAG SV2_MSG_SUBMIT_SHARES_EXTENDED
       (write_u32_le channel_id @ write_u32_le sequence_number @ write_u32_le job_id @ write_u32_le nonce @
        write_u32_le ntime @ write_u32_le version @ [of_nat (length extranonce)] @ extranonce)"

section \<open>Reading a payload\<close>

datatype parse_error = Rejected | Overread

text \<open>
  A reader gets the payload and the position and gives a value and the next position; \<open>next_read\<close> is the
  sequence of two reads, \<open>require\<close> an \<open>if (...) return -1\<close> on the position and the length.
\<close>

type_synonym 'a reader = "bytes \<Rightarrow> nat \<Rightarrow> parse_error + 'a \<times> nat"

definition next_read :: "'a reader \<Rightarrow> ('a \<Rightarrow> 'b reader) \<Rightarrow> 'b reader" where
  "next_read r f payload pos = (case r payload pos of Inl e \<Rightarrow> Inl e | Inr (x, pos') \<Rightarrow> f x payload pos')"

definition give :: "'a \<Rightarrow> 'a reader" where
  "give x payload pos = Inr (x, pos)"

definition require :: "(nat \<Rightarrow> nat \<Rightarrow> bool) \<Rightarrow> 'a reader \<Rightarrow> 'a reader" where
  "require ok r payload pos = (if ok pos (length payload) then r payload pos else Inl Rejected)"

definition rd_bytes :: "nat \<Rightarrow> bytes reader" where
  "rd_bytes n payload pos = (if pos + n \<le> length payload then Inr (slice pos n payload, pos + n) else Inl Overread)"

definition rd_u8 :: "u8 reader" where
  "rd_u8 = next_read (rd_bytes 1) (\<lambda>b. give (b ! 0))"

definition rd_u16 :: "u16 reader" where
  "rd_u16 = next_read (rd_bytes 2) (\<lambda>b. give (read_u16_le b))"

definition rd_u32 :: "u32 reader" where
  "rd_u32 = next_read (rd_bytes 4) (\<lambda>b. give (read_u32_le b))"

text \<open>A parser is a reader started at position 0, whose last position is not used.\<close>

definition parse :: "'a reader \<Rightarrow> bytes \<Rightarrow> parse_error + 'a" where
  "parse r payload = (case r payload 0 of Inl e \<Rightarrow> Inl e | Inr (x, pos) \<Rightarrow> Inr x)"

section \<open>Message parsers\<close>

definition sv2_parse_setup_connection_success :: "bytes \<Rightarrow> parse_error + u16 \<times> u32" where
  "sv2_parse_setup_connection_success = parse (require (\<lambda>pos len. 6 \<le> len) (
     next_read rd_u16 (\<lambda>used_version.
     next_read rd_u32 (\<lambda>flags.
     give (used_version, flags)))))"

definition sv2_parse_open_channel_success :: "bytes \<Rightarrow> parse_error + u32 \<times> u32 \<times> bytes \<times> bytes \<times> u32" where
  "sv2_parse_open_channel_success = parse (require (\<lambda>pos len. 45 \<le> len) (
     next_read rd_u32 (\<lambda>request_id.
     next_read rd_u32 (\<lambda>channel_id.
     next_read (rd_bytes 32) (\<lambda>target.
     next_read rd_u8 (\<lambda>prefix_len.
     require (\<lambda>pos len. unat prefix_len \<le> 32) (
     require (\<lambda>pos len. pos + unat prefix_len + 4 \<le> len) (
     next_read (rd_bytes (unat prefix_len)) (\<lambda>extranonce_prefix.
     next_read rd_u32 (\<lambda>group_channel_id.
     give (request_id, channel_id, target, extranonce_prefix, group_channel_id)))))))))))"

definition sv2_parse_new_mining_job :: "bytes \<Rightarrow> parse_error + u32 \<times> u32 \<times> u32 option \<times> u32 \<times> bytes" where
  "sv2_parse_new_mining_job = parse (require (\<lambda>pos len. 45 \<le> len) (
     next_read rd_u32 (\<lambda>channel_id.
     next_read rd_u32 (\<lambda>job_id.
     next_read rd_u8 (\<lambda>option_flag.
     next_read (if option_flag = 0x01
                then require (\<lambda>pos len. 49 \<le> len) (next_read rd_u32 (\<lambda>t. give (Some t)))
                else give None) (\<lambda>min_ntime.
     next_read rd_u32 (\<lambda>version.
     next_read (rd_bytes 32) (\<lambda>merkle_root.
     give (channel_id, job_id, min_ntime, version, merkle_root)))))))))"

definition sv2_parse_set_new_prev_hash :: "bytes \<Rightarrow> parse_error + u32 \<times> u32 \<times> bytes \<times> u32 \<times> u32" where
  "sv2_parse_set_new_prev_hash = parse (require (\<lambda>pos len. 48 \<le> len) (
     next_read rd_u32 (\<lambda>channel_id.
     next_read rd_u32 (\<lambda>job_id.
     next_read (rd_bytes 32) (\<lambda>prev_hash.
     next_read rd_u32 (\<lambda>min_ntime.
     next_read rd_u32 (\<lambda>nbits.
     give (channel_id, job_id, prev_hash, min_ntime, nbits))))))))"

definition sv2_parse_set_target :: "bytes \<Rightarrow> parse_error + u32 \<times> bytes" where
  "sv2_parse_set_target = parse (require (\<lambda>pos len. 36 \<le> len) (
     next_read rd_u32 (\<lambda>channel_id.
     next_read (rd_bytes 32) (\<lambda>max_target.
     give (channel_id, max_target)))))"

definition sv2_parse_submit_shares_success :: "bytes \<Rightarrow> parse_error + u32 \<times> u32 \<times> u32" where
  "sv2_parse_submit_shares_success = parse (require (\<lambda>pos len. 20 \<le> len) (
     next_read rd_u32 (\<lambda>channel_id.
     next_read rd_u32 (\<lambda>last_sequence_number.
     next_read rd_u32 (\<lambda>accepted_count.
     give (channel_id, last_sequence_number, accepted_count))))))"

text \<open>\<open>read_str0255\<close> keeps at most \<open>dest_size - 1\<close> bytes; no caller passes a size of zero.\<close>

definition read_str0255 :: "nat \<Rightarrow> bytes reader" where
  "read_str0255 dest_size = require (\<lambda>pos len. 1 \<le> len - pos) (
     next_read rd_u8 (\<lambda>slen.
     require (\<lambda>pos len. unat slen \<le> len - pos) (
     next_read (rd_bytes (unat slen)) (\<lambda>str.
     give (take (dest_size - 1) str)))))"

definition sv2_parse_submit_shares_error :: "nat \<Rightarrow> bytes \<Rightarrow> parse_error + u32 \<times> u32 \<times> bytes" where
  "sv2_parse_submit_shares_error error_code_size = parse (require (\<lambda>pos len. 9 \<le> len) (
     next_read rd_u32 (\<lambda>channel_id.
     next_read rd_u32 (\<lambda>seq_num.
     next_read (read_str0255 error_code_size) (\<lambda>error_code.
     give (channel_id, seq_num, error_code))))))"

definition sv2_parse_open_extended_channel_success :: "bytes \<Rightarrow> parse_error + u32 \<times> u32 \<times> bytes \<times> u16 \<times> bytes \<times> u32" where
  "sv2_parse_open_extended_channel_success = parse (require (\<lambda>pos len. 47 \<le> len) (
     next_read rd_u32 (\<lambda>request_id.
     next_read rd_u32 (\<lambda>channel_id.
     next_read (rd_bytes 32) (\<lambda>target.
     next_read rd_u16 (\<lambda>extranonce_size.
     next_read rd_u8 (\<lambda>prefix_len.
     require (\<lambda>pos len. unat prefix_len \<le> 32) (
     require (\<lambda>pos len. pos + unat prefix_len + 4 \<le> len) (
     next_read (rd_bytes (unat prefix_len)) (\<lambda>extranonce_prefix.
     next_read rd_u32 (\<lambda>group_channel_id.
     give (request_id, channel_id, target, extranonce_size, extranonce_prefix, group_channel_id))))))))))))"

text \<open>The loop that copies the merkle path, and a byte string with a two-byte length.\<close>

fun rd_hashes :: "nat \<Rightarrow> bytes list reader" where
  "rd_hashes 0 = give []"
| "rd_hashes (Suc n) = next_read (rd_bytes 32) (\<lambda>h. next_read (rd_hashes n) (\<lambda>hs. give (h # hs)))"

definition rd_b0_64k :: "bytes reader" where
  "rd_b0_64k = require (\<lambda>pos len. pos + 2 \<le> len) (
     next_read rd_u16 (\<lambda>n.
     require (\<lambda>pos len. pos + unat n \<le> len) (
     rd_bytes (unat n))))"

text \<open>
  \<open>sv2_parse_new_extended_mining_job\<close>: the channel and the job. \<open>alloc_ok\<close> tells whether the three
  allocations succeed; when one fails what was allocated is freed and the result is null (\<open>Rejected\<close>).
\<close>

definition sv2_parse_new_extended_mining_job :: "bool \<Rightarrow> bytes \<Rightarrow> parse_error + u32 \<times> sv2_ext_job" where
  "sv2_parse_new_extended_mining_job alloc_ok = parse (require (\<lambda>pos len. 19 \<le> len) (
     next_read rd_u32 (\<lambda>channel_id.
     next_read rd_u32 (\<lambda>job_id.
     next_read rd_u8 (\<lambda>option_flag.
     next_read (if option_flag = 0x01
                then require (\<lambda>pos len. pos + 4 \<le> len) (next_read rd_u32 (\<lambda>t. give (Some t)))
                else give None) (\<lambda>min_ntime.
     require (\<lambda>pos len. pos + 4 + 1 \<le> len) (
     next_read rd_u32 (\<lambda>version.
     next_read rd_u8 (\<lambda>rolling.
     require (\<lambda>pos len. pos + 1 \<le> len) (
     next_read rd_u8 (\<lambda>merkle_count.
     require (\<lambda>pos len. unat merkle_count \<le> SV2_MAX_MERKLE_BRANCHES) (
     require (\<lambda>pos len. pos + unat merkle_count * 32 \<le> len) (
     next_read (rd_hashes (unat merkle_count)) (\<lambda>path.
     next_read rd_b0_64k (\<lambda>prefix.
     next_read rd_b0_64k (\<lambda>suffix.
     require (\<lambda>pos len. alloc_ok) (
     give (channel_id,
       \<lparr>ext_job_id = job_id, ext_version = version, version_rolling_allowed = (rolling \<noteq> 0), ext_prev_hash = replicate 32 0,
        ext_ntime = (case min_ntime of Some t \<Rightarrow> t | None \<Rightarrow> 0), ext_nbits = 0, ext_clean_jobs = (min_ntime \<noteq> None),
        merkle_path = path, coinbase_prefix = prefix, coinbase_suffix = suffix\<rparr>))))))))))))))))))"

section \<open>No parser reads beyond the payload\<close>

text \<open>
  \<open>safe r Q payload pos\<close>: the reader does not overread, and when it gives a value at a position, \<open>Q\<close> holds of
  them. The equations below turn the safety of a parser into arithmetic on positions.
\<close>

definition safe :: "'a reader \<Rightarrow> ('a \<Rightarrow> nat \<Rightarrow> bool) \<Rightarrow> bytes \<Rightarrow> nat \<Rightarrow> bool" where
  "safe r Q payload pos = (case r payload pos of Inl e \<Rightarrow> e = Rejected | Inr (x, pos') \<Rightarrow> Q x pos')"

named_theorems safety

lemma safe_give [safety]: "safe (give x) Q payload pos = Q x pos"
  by (simp add: safe_def give_def)

lemma safe_next_read [safety]: "safe (next_read r f) Q payload pos = safe r (\<lambda>x pos'. safe (f x) Q payload pos') payload pos"
  by (auto simp: safe_def next_read_def split: sum.split prod.split)

lemma safe_require [safety]: "safe (require ok r) Q payload pos = (ok pos (length payload) \<longrightarrow> safe r Q payload pos)"
  by (simp add: safe_def require_def)

lemma safe_rd_bytes [safety]: "safe (rd_bytes n) Q payload pos = (pos + n \<le> length payload \<and> Q (slice pos n payload) (pos + n))"
  by (simp add: safe_def rd_bytes_def)

lemma safe_rd_u8 [safety]: "safe rd_u8 Q payload pos = (pos + 1 \<le> length payload \<and> Q (slice pos 1 payload ! 0) (pos + 1))"
  by (simp add: rd_u8_def safety)

lemma safe_rd_u16 [safety]: "safe rd_u16 Q payload pos = (pos + 2 \<le> length payload \<and> Q (read_u16_le (slice pos 2 payload)) (pos + 2))"
  by (simp add: rd_u16_def safety)

lemma safe_rd_u32 [safety]: "safe rd_u32 Q payload pos = (pos + 4 \<le> length payload \<and> Q (read_u32_le (slice pos 4 payload)) (pos + 4))"
  by (simp add: rd_u32_def safety)

lemma safe_if [safety]: "safe (if b then r else r') Q payload pos = (if b then safe r Q payload pos else safe r' Q payload pos)"
  by simp

lemma safe_rd_hashes: "pos + n * 32 \<le> length payload \<Longrightarrow> (\<And>hs. Q hs (pos + n * 32)) \<Longrightarrow> safe (rd_hashes n) Q payload pos"
proof (induction n arbitrary: pos Q)
  case 0
  then show ?case by (simp add: safety)
next
  case (Suc n)
  have "safe (rd_hashes n) (\<lambda>hs pos'. Q (h # hs) pos') payload (pos + 32)" for h
    using Suc.prems by (intro Suc.IH) (simp_all add: add_ac)
  then show ?case using Suc.prems(1) by (simp add: safety)
qed

lemma safe_rd_b0_64k: "(\<And>b pos'. pos' \<le> length payload \<Longrightarrow> Q b pos') \<Longrightarrow> safe rd_b0_64k Q payload pos"
  by (simp add: rd_b0_64k_def safety)

lemma parse_safe: "safe r (\<lambda>x pos. True) payload 0 \<Longrightarrow> parse r payload \<noteq> Inl Overread"
  by (auto simp: parse_def safe_def split: sum.splits prod.splits)

text \<open>
  C24. No message parser ever reads beyond the end of the payload, whatever bytes a pool sends: each gives
  the fields or rejects the message.
\<close>

theorem parsers_stay_in_bounds:
  "sv2_parse_setup_connection_success payload \<noteq> Inl Overread \<and>
   sv2_parse_open_channel_success payload \<noteq> Inl Overread \<and>
   sv2_parse_new_mining_job payload \<noteq> Inl Overread \<and>
   sv2_parse_set_new_prev_hash payload \<noteq> Inl Overread \<and>
   sv2_parse_set_target payload \<noteq> Inl Overread \<and>
   sv2_parse_submit_shares_success payload \<noteq> Inl Overread \<and>
   sv2_parse_submit_shares_error n payload \<noteq> Inl Overread \<and>
   sv2_parse_open_extended_channel_success payload \<noteq> Inl Overread \<and>
   sv2_parse_new_extended_mining_job alloc_ok payload \<noteq> Inl Overread"
proof (intro conjI)
  show "sv2_parse_setup_connection_success payload \<noteq> Inl Overread" "sv2_parse_open_channel_success payload \<noteq> Inl Overread"
    "sv2_parse_new_mining_job payload \<noteq> Inl Overread" "sv2_parse_set_new_prev_hash payload \<noteq> Inl Overread"
    "sv2_parse_set_target payload \<noteq> Inl Overread" "sv2_parse_submit_shares_success payload \<noteq> Inl Overread"
    "sv2_parse_open_extended_channel_success payload \<noteq> Inl Overread"
    unfolding sv2_parse_setup_connection_success_def sv2_parse_open_channel_success_def sv2_parse_new_mining_job_def
      sv2_parse_set_new_prev_hash_def sv2_parse_set_target_def sv2_parse_submit_shares_success_def sv2_parse_open_extended_channel_success_def
    by (rule parse_safe; simp add: safety)+
  show "sv2_parse_submit_shares_error n payload \<noteq> Inl Overread"
    unfolding sv2_parse_submit_shares_error_def read_str0255_def by (rule parse_safe) (auto simp: safety)
  show "sv2_parse_new_extended_mining_job alloc_ok payload \<noteq> Inl Overread"
    unfolding sv2_parse_new_extended_mining_job_def
    by (rule parse_safe) (auto simp: safety intro!: safe_rd_hashes safe_rd_b0_64k)
qed

section \<open>Reading back what was written\<close>

text \<open>\<open>reads r enc x\<close>: at any place of a payload where the bytes \<open>enc\<close> stand, the reader gives \<open>x\<close> and stops after them.\<close>

definition reads :: "'a reader \<Rightarrow> bytes \<Rightarrow> 'a \<Rightarrow> bool" where
  "reads r enc x \<longleftrightarrow> (\<forall>pre rest. r (pre @ enc @ rest) (length pre) = Inr (x, length pre + length enc))"

lemma reads_give: "reads (give x) [] x"
  by (simp add: reads_def give_def)

lemma reads_next: "reads r enc x \<Longrightarrow> reads (f x) enc' y \<Longrightarrow> reads (next_read r f) (enc @ enc') y"
proof -
  assume r: "reads r enc x" and f: "reads (f x) enc' y"
  have "next_read r f (pre @ (enc @ enc') @ rest) (length pre) = Inr (y, length pre + length (enc @ enc'))" for pre rest
  proof -
    have "r (pre @ enc @ (enc' @ rest)) (length pre) = Inr (x, length pre + length enc)" using r by (simp only: reads_def)
    moreover have "f x ((pre @ enc) @ enc' @ rest) (length (pre @ enc)) = Inr (y, length (pre @ enc) + length enc')"
      using f by (simp only: reads_def)
    ultimately show ?thesis by (simp add: next_read_def)
  qed
  then show ?thesis by (simp add: reads_def)
qed

lemma reads_require:
  "(\<And>pos len. pos + length enc \<le> len \<Longrightarrow> ok pos len) \<Longrightarrow> reads r enc x \<Longrightarrow> reads (require ok r) enc x"
  by (simp add: reads_def require_def)

lemma reads_bytes: "length b = n \<Longrightarrow> reads (rd_bytes n) b b"
  by (simp add: reads_def rd_bytes_def slice_def)

lemma u16_bytes [simp]: "read_u16_le (write_u16_le v) = v"
  by (rule word_eq_by_bits) (auto simp: read_u16_le_def write_u16_le_def bit_simps)

lemma u32_bytes [simp]: "read_u32_le (write_u32_le v) = v"
proof (rule word_eq_by_bits)
  fix i assume "i < LENGTH(32)"
  then have i: "i < 32" by simp
  consider "i < 8" | "8 \<le> i" "i < 16" | "16 \<le> i" "i < 24" | "24 \<le> i" by linarith
  then show "bit (read_u32_le (write_u32_le v)) i \<longleftrightarrow> bit v i"
    using i by cases (auto simp: read_u32_le_def write_u32_le_def bit_simps)
qed

lemma length_write [simp]: "length (write_u16_le a) = 2" "length (write_u32_le b) = 4"
  by (simp_all add: write_u16_le_def write_u32_le_def)

lemma reads_field: "length enc = n \<Longrightarrow> reads (next_read (rd_bytes n) (\<lambda>b. give (g b))) enc (g enc)"
  by (simp add: reads_def next_read_def rd_bytes_def give_def slice_def)

lemma reads_u8: "reads rd_u8 [b] b"
  using reads_field [of "[b]" 1 "\<lambda>b. b ! 0"] by (simp add: rd_u8_def)

lemma reads_u16: "reads rd_u16 (write_u16_le v) v"
  using reads_field [of "write_u16_le v" 2 read_u16_le] by (simp add: rd_u16_def)

lemma reads_u32: "reads rd_u32 (write_u32_le v) v"
  using reads_field [of "write_u32_le v" 4 read_u32_le] by (simp add: rd_u32_def)

lemma reads_hashes: "\<forall>h \<in> set hs. length h = 32 \<Longrightarrow> reads (rd_hashes (length hs)) (concat hs) hs"
proof (induction hs)
  case Nil
  then show ?case by (simp add: reads_give)
next
  case (Cons h hs)
  then have "reads (next_read (rd_hashes (length hs)) (\<lambda>hs. give (h # hs))) (concat hs @ []) (h # hs)"
    by (intro reads_next [OF _ reads_give]) simp
  then show ?case using Cons.prems reads_next [OF reads_bytes [of h 32]] by simp
qed

lemma parse_reads:
  assumes "reads r enc x"
  shows "parse r (enc @ rest) = Inr x"
  using assms [unfolded reads_def, rule_format, of "[]" rest] by (simp add: parse_def)

text \<open>
  The messages of the pool as the Stratum V2 specification lays them out, in the comments of the parsers:
  the reference that the parsers are checked against.
\<close>

definition opt_u32 :: "u32 option \<Rightarrow> bytes" where
  "opt_u32 t = (case t of None \<Rightarrow> [0x00] | Some v \<Rightarrow> [0x01] @ write_u32_le v)"

definition b0_64k :: "bytes \<Rightarrow> bytes" where
  "b0_64k b = write_u16_le (of_nat (length b)) @ b"

definition new_extended_mining_job :: "u32 \<Rightarrow> u32 \<Rightarrow> u32 option \<Rightarrow> u32 \<Rightarrow> bool \<Rightarrow> bytes list \<Rightarrow> bytes \<Rightarrow> bytes \<Rightarrow> bytes" where
  "new_extended_mining_job channel_id job_id min_ntime ver rolling path prefix suffix =
     write_u32_le channel_id @ write_u32_le job_id @ opt_u32 min_ntime @ write_u32_le ver @
     [if rolling then 1 else 0] @ [of_nat (length path)] @ concat path @ b0_64k prefix @ b0_64k suffix"

definition new_mining_job :: "u32 \<Rightarrow> u32 \<Rightarrow> u32 option \<Rightarrow> u32 \<Rightarrow> bytes \<Rightarrow> bytes" where
  "new_mining_job channel_id job_id min_ntime ver merkle_root =
     write_u32_le channel_id @ write_u32_le job_id @ opt_u32 min_ntime @ write_u32_le ver @ merkle_root"

lemma reads_opt_u32:
  "reads (next_read rd_u8 (\<lambda>option_flag. if option_flag = 0x01
      then require ok (next_read rd_u32 (\<lambda>t. give (Some t))) else give None)) (opt_u32 t) t"
  if "\<And>pos len. pos + 4 \<le> len \<Longrightarrow> ok pos len"
proof (cases t)
  case None
  have "reads (next_read rd_u8 (\<lambda>option_flag. if option_flag = 0x01
      then require ok (next_read rd_u32 (\<lambda>t. give (Some t))) else give None)) ([0x00] @ []) None"
    by (rule reads_next [OF reads_u8]) (simp add: reads_give)
  then show ?thesis by (simp add: None opt_u32_def)
next
  case (Some v)
  have "reads (require ok (next_read rd_u32 (\<lambda>t. give (Some t)))) (write_u32_le v @ []) (Some v)"
    using that by (intro reads_require reads_next [OF reads_u32 reads_give]) simp
  then have "reads (next_read rd_u8 (\<lambda>option_flag. if option_flag = 0x01
      then require ok (next_read rd_u32 (\<lambda>t. give (Some t))) else give None)) ([0x01] @ write_u32_le v @ []) (Some v)"
    by (intro reads_next [OF reads_u8]) simp
  then show ?thesis by (simp add: Some opt_u32_def)
qed

lemma reads_b0_64k:
  assumes "length b < 65536"
  shows "reads rd_b0_64k (b0_64k b) b"
proof -
  have n: "unat (of_nat (length b) :: u16) = length b" using assms by (simp add: unat_of_nat take_bit_nat_eq_self)
  have "reads (next_read rd_u16 (\<lambda>n. require (\<lambda>pos len. pos + unat n \<le> len) (rd_bytes (unat n)))) (b0_64k b) b"
    unfolding b0_64k_def by (intro reads_next [OF reads_u16] reads_require) (simp_all add: n reads_bytes)
  then show ?thesis unfolding rd_b0_64k_def by (intro reads_require) (simp_all add: b0_64k_def)
qed

lemma reads_opt_next:
  assumes ok: "\<And>pos len. pos + 4 \<le> len \<Longrightarrow> ok pos len" and f: "reads (f t) enc y"
  shows "reads (next_read rd_u8 (\<lambda>option_flag. next_read (if option_flag = 0x01
      then require ok (next_read rd_u32 (\<lambda>t. give (Some t))) else give None) f)) (opt_u32 t @ enc) y"
proof -
  have "next_read rd_u8 (\<lambda>option_flag. next_read (if option_flag = 0x01
      then require ok (next_read rd_u32 (\<lambda>t. give (Some t))) else give None) f) =
    next_read (next_read rd_u8 (\<lambda>option_flag. if option_flag = 0x01
      then require ok (next_read rd_u32 (\<lambda>t. give (Some t))) else give None)) f"
    by (intro ext) (simp add: next_read_def split: sum.split prod.split)
  moreover have "reads (next_read (next_read rd_u8 (\<lambda>option_flag. if option_flag = 0x01
      then require ok (next_read rd_u32 (\<lambda>t. give (Some t))) else give None)) f) (opt_u32 t @ enc) y"
    by (rule reads_next, rule reads_opt_u32, erule ok, rule f)
  ultimately show ?thesis by simp
qed

lemma reads_hashes_next:
  "n = length hs \<Longrightarrow> \<forall>h \<in> set hs. length h = 32 \<Longrightarrow> reads (f hs) enc y \<Longrightarrow> reads (next_read (rd_hashes n) f) (concat hs @ enc) y"
  by (auto intro: reads_next [OF reads_hashes])

lemma read_extended_job:
  assumes "length path \<le> 20" "\<forall>h \<in> set path. length h = 32" "length prefix < 65536" "length suffix < 65536"
  shows "sv2_parse_new_extended_mining_job True (new_extended_mining_job channel_id job_id min_ntime ver rolling path prefix suffix @ rest) =
       Inr (channel_id,
         \<lparr>ext_job_id = job_id, ext_version = ver, version_rolling_allowed = rolling, ext_prev_hash = replicate 32 0,
          ext_ntime = (case min_ntime of Some t \<Rightarrow> t | None \<Rightarrow> 0), ext_nbits = 0, ext_clean_jobs = (min_ntime \<noteq> None),
          merkle_path = path, coinbase_prefix = prefix, coinbase_suffix = suffix\<rparr>)" (is "_ = Inr ?job")
proof -
  have count: "unat (of_nat (length path) :: u8) = length path" using assms(1) by (simp add: unat_of_nat take_bit_nat_eq_self)
  have path: "length (concat path) = length path * 32" using assms(2) by (induction path) auto
  have opt: "1 \<le> length (opt_u32 min_ntime)" by (simp add: opt_u32_def split: option.split)
  have size: "length (concat path) = 32 * length path" "length (b0_64k b) = 2 + length b" for b
    by (simp_all add: path b0_64k_def)
  let ?enc = "write_u32_le channel_id @ write_u32_le job_id @ opt_u32 min_ntime @ write_u32_le ver @
     [if rolling then 1 else 0] @ [of_nat (length path)] @ concat path @ b0_64k prefix @ b0_64k suffix @ []"
  have "sv2_parse_new_extended_mining_job True (?enc @ rest) =
     Inr (channel_id,
       \<lparr>ext_job_id = job_id, ext_version = ver, version_rolling_allowed = ((if rolling then 1 else 0 :: u8) \<noteq> 0), ext_prev_hash = replicate 32 0,
        ext_ntime = (case min_ntime of Some t \<Rightarrow> t | None \<Rightarrow> 0), ext_nbits = 0, ext_clean_jobs = (min_ntime \<noteq> None),
        merkle_path = path, coinbase_prefix = prefix, coinbase_suffix = suffix\<rparr>)"
    unfolding sv2_parse_new_extended_mining_job_def
    by (intro parse_reads reads_require reads_next [OF reads_u32] reads_opt_next reads_next [OF reads_u8]
        reads_hashes_next reads_next [OF reads_b0_64k] reads_give)
      (use assms opt in \<open>auto simp: count size sv2_constants\<close>)
  then show ?thesis
    by (simp add: new_extended_mining_job_def)
qed

lemma read_standard_job:
  assumes "length merkle_root = 32"
  shows "sv2_parse_new_mining_job (new_mining_job channel_id job_id min_ntime ver merkle_root @ rest) =
       Inr (channel_id, job_id, min_ntime, ver, merkle_root)"
proof -
  have opt: "1 \<le> length (opt_u32 min_ntime)" by (simp add: opt_u32_def split: option.split)
  let ?rest = "\<lambda>min_ntime. next_read rd_u32 (\<lambda>version. next_read (rd_bytes 32) (\<lambda>merkle_root.
     give (channel_id, job_id, min_ntime, version, merkle_root)))"
  have tail: "reads (?rest t) (write_u32_le ver @ merkle_root @ []) (channel_id, job_id, t, ver, merkle_root)" for t
    by (intro reads_next [OF reads_u32] reads_next [OF reads_bytes] reads_give) (rule assms)
  show ?thesis
  proof (cases min_ntime)
    case None
    have "sv2_parse_new_mining_job ((write_u32_le channel_id @ write_u32_le job_id @ [0x00] @ [] @ write_u32_le ver @ merkle_root @ []) @ rest) =
        Inr (channel_id, job_id, None, ver, merkle_root)"
      unfolding sv2_parse_new_mining_job_def
      by (intro parse_reads reads_require reads_next [OF reads_u32] reads_next [OF reads_u8] reads_next [of _ "[]" None] tail)
        (use assms in \<open>auto simp: reads_give\<close>)
    then show ?thesis by (simp add: None new_mining_job_def opt_u32_def)
  next
    case (Some t)
    have one: "reads (if (0x01 :: u8) = 0x01 then require (\<lambda>pos len. 49 \<le> len) r else r') = reads (require (\<lambda>pos len. 49 \<le> len) r)"
      for r r' :: "u32 option reader" by simp
    have "sv2_parse_new_mining_job ((write_u32_le channel_id @ write_u32_le job_id @ [0x01] @ write_u32_le t @ write_u32_le ver @ merkle_root) @ rest) =
        Inr (channel_id, job_id, Some t, ver, merkle_root)"
      using assms by (simp add: sv2_parse_new_mining_job_def parse_def require_def next_read_def rd_u32_def rd_u8_def rd_bytes_def give_def slice_def)
    then show ?thesis by (simp add: Some new_mining_job_def opt_u32_def)
  qed
qed

text \<open>
  A job laid out as the specification says is read back exactly, whatever its values: the extended job
  with up to 20 merkle branches and coinbase parts of up to 65535 bytes, the standard job with and without a
  minimum time; trailing bytes are ignored.
\<close>

theorem jobs_read_back:
  assumes "length path \<le> 20" "\<forall>h \<in> set path. length h = 32" "length prefix < 65536" "length suffix < 65536" "length merkle_root = 32"
  shows "sv2_parse_new_extended_mining_job True (new_extended_mining_job channel_id job_id min_ntime ver rolling path prefix suffix @ rest) =
       Inr (channel_id,
         \<lparr>ext_job_id = job_id, ext_version = ver, version_rolling_allowed = rolling, ext_prev_hash = replicate 32 0,
          ext_ntime = (case min_ntime of Some t \<Rightarrow> t | None \<Rightarrow> 0), ext_nbits = 0, ext_clean_jobs = (min_ntime \<noteq> None),
          merkle_path = path, coinbase_prefix = prefix, coinbase_suffix = suffix\<rparr>) \<and>
     sv2_parse_new_mining_job (new_mining_job channel_id job_id min_ntime ver merkle_root @ rest) =
       Inr (channel_id, job_id, min_ntime, ver, merkle_root)"
  using read_extended_job [OF assms(1-4)] read_standard_job [OF assms(5)] by blast

theorem jobs_read_back_witness:
  "sv2_parse_new_mining_job (new_mining_job 1 2 (Some 3) 4 (replicate 32 7) @ [9]) = Inr (1, 2, Some 3, 4, replicate 32 7)"
  using jobs_read_back [of "[]" "[]" "[]" "replicate 32 7" 1 2 "Some 3" 4 True "[9]"] by simp

section \<open>Frames of the builders\<close>

lemma length_encode_frame_header [simp]: "length (sv2_encode_frame_header e t l) = 6"
  by (simp add: sv2_encode_frame_header_def)

lemma parse_encoded_header:
  "sv2_parse_frame_header (sv2_encode_frame_header e t l @ payload) = \<lparr>extension_type = e, msg_type = t, msg_length = take_bit 24 l\<rparr>"
proof -
  have "ucast (ucast l :: u8) OR push_bit 8 (ucast (ucast (drop_bit 8 l) :: u8)) OR push_bit 16 (ucast (ucast (drop_bit 16 l) :: u8)) = take_bit 24 l"
  proof (rule word_eq_by_bits)
    fix i assume "i < LENGTH(32)"
    then have i: "i < 32" by simp
    consider "i < 8" | "8 \<le> i" "i < 16" | "16 \<le> i" "i < 24" | "24 \<le> i" by linarith
    then show "bit (ucast (ucast l :: u8) OR push_bit 8 (ucast (ucast (drop_bit 8 l) :: u8)) OR push_bit 16 (ucast (ucast (drop_bit 16 l) :: u8)) :: u32) i \<longleftrightarrow> bit (take_bit 24 l) i"
      using i by cases (auto simp: bit_simps)
  qed
  moreover have "read_u16_le (write_u16_le e @ xs) = e" for xs
    using u16_bytes [of e] by (simp add: read_u16_le_def write_u16_le_def)
  ultimately show ?thesis
    by (simp add: sv2_parse_frame_header_def sv2_encode_frame_header_def write_u16_le_def)
qed

text \<open>
  The frame header written by the encoder is parsed back to the same extension type, message type and
  the low 24 bits of the length, with or without the payload behind it.
\<close>

lemma frame_header_round_trip:
  "sv2_parse_frame_header (sv2_encode_frame_header e t l @ payload) = \<lparr>extension_type = e, msg_type = t, msg_length = take_bit 24 l\<rparr>"
  by (rule parse_encoded_header)

text \<open>What a string contributes to a payload, and the payload of the connection message.\<close>

definition str0255 :: "bytes option \<Rightarrow> bytes" where
  "str0255 str = (let s = take 255 (case str of None \<Rightarrow> [] | Some s \<Rightarrow> s) in of_nat (length s) # s)"

definition setup_payload :: "bytes option \<Rightarrow> u16 \<Rightarrow> bytes option \<Rightarrow> bytes option \<Rightarrow> bytes option \<Rightarrow> bytes option \<Rightarrow> u32 \<Rightarrow> bytes" where
  "setup_payload host port vendor hw_version firmware device_id flags =
     [0] @ write_u16_le 2 @ write_u16_le 2 @ write_u32_le flags @ str0255 host @ write_u16_le port @
     str0255 vendor @ str0255 hw_version @ str0255 firmware @ str0255 device_id"

lemma write_str0255_str: "write_str0255 n str = (if n < length (str0255 str) then None else Some (str0255 str))"
  by (auto simp: write_str0255_def str0255_def Let_def min_def)

lemma append_str_str:
  "append_str (Some p) str = (if PAYLOAD_SIZE < length p + length (str0255 str) then None else Some (p @ str0255 str))"
  by (auto simp: append_str_def write_str0255_str str0255_def Let_def)

lemma append_str_none [simp]: "append_str None str = None"
  by (simp add: append_str_def)

lemma setup_connection_frame:
  "sv2_build_setup_connection buf_len host port vendor hw_version firmware device_id flags =
     (let payload = setup_payload host port vendor hw_version firmware device_id flags
      in if PAYLOAD_SIZE < length payload then None else finish_frame buf_len 0 SV2_MSG_SETUP_CONNECTION payload)"
proof -
  have one: "1 \<le> length (str0255 s)" "length (str0255 s) \<le> 256" for s by (simp_all add: str0255_def Let_def)
  show ?thesis
    using one [of host] one [of vendor] one [of hw_version] one [of firmware] one [of device_id]
    by (simp add: sv2_build_setup_connection_def append_str_str setup_payload_def Let_def PAYLOAD_SIZE_def)
qed

text \<open>
  The connection message is refused exactly when its payload exceeds 512 bytes or the frame the buffer;
  otherwise the frame is the header with the length of the payload followed by the payload, all fields in
  order and every string cut to 255 bytes.
\<close>

theorem setup_connection_exact:
  "(let payload = setup_payload host port vendor hw_version firmware device_id flags;
        frame = sv2_build_setup_connection buf_len host port vendor hw_version firmware device_id flags
    in (frame = None \<longleftrightarrow> 512 < length payload \<or> buf_len < 6 + length payload) \<and>
       (\<forall>f. frame = Some f \<longrightarrow> drop 6 f = payload \<and> length f \<le> buf_len \<and>
          sv2_parse_frame_header f = \<lparr>extension_type = 0, msg_type = SV2_MSG_SETUP_CONNECTION, msg_length = of_nat (length payload)\<rparr>))"
proof -
  have "take_bit 24 (of_nat n :: u32) = of_nat n" if "n \<le> 512" for n
  proof -
    have "unat (of_nat n :: u32) = n" using that by (simp add: unat_of_nat take_bit_nat_eq_self)
    then have "unat (take_bit 24 (of_nat n :: u32)) = n" using that by (simp add: unsigned_take_bit_eq take_bit_nat_eq_self)
    then show ?thesis using \<open>unat (of_nat n :: u32) = n\<close> by (simp only: word_unat_eq_iff)
  qed
  then show ?thesis
    by (auto simp: setup_connection_frame Let_def finish_frame_def sv2_constants parse_encoded_header)
qed

theorem setup_connection_exact_witness:
  "sv2_build_setup_connection 10 None 3333 None None None None 0 = None"
  using setup_connection_exact [of None 3333 None None None None 0 10]
  by (simp add: Let_def setup_payload_def str0255_def)

end
