(* ===== verification/C_Text.thy ===== *)
theory C_Text
  imports Binary_Float
begin

text \<open>
  The decimal text of the C library as the firmware uses it: what \<open>printf\<close> writes for \<open>%u\<close> and \<open>%.1f\<close>, and
  what \<open>strtoul\<close> and \<open>sscanf\<close> read back. Texts are lists of non-zero bytes, as in the Stratum helpers.
\<close>

text \<open>The bytes of a text of the source.\<close>

definition ascii :: "string \<Rightarrow> bytes" where
  "ascii = map of_char"

section \<open>Digits\<close>

definition is_digit :: "u8 \<Rightarrow> bool" where
  "is_digit c \<longleftrightarrow> 48 \<le> c \<and> c \<le> 57"

definition is_space :: "u8 \<Rightarrow> bool" where
  "is_space c \<longleftrightarrow> c = 32 \<or> 9 \<le> c \<and> c \<le> 13"

definition digits_value :: "bytes \<Rightarrow> nat" where
  "digits_value = foldl (\<lambda>a c. 10 * a + unat (c - 48)) 0"

text \<open>Hexadecimal digits of either case.\<close>

definition hex_digit :: "u8 \<Rightarrow> nat option" where
  "hex_digit c =
     (if 48 \<le> c \<and> c \<le> 57 then Some (unat (c - 48)) else if 97 \<le> c \<and> c \<le> 102 then Some (unat (c - 87))
      else if 65 \<le> c \<and> c \<le> 70 then Some (unat (c - 55)) else None)"

text \<open>\<open>%u\<close>, \<open>%lu\<close> and \<open>PRIu32\<close>.\<close>

fun dec_bytes :: "nat \<Rightarrow> bytes" where
  "dec_bytes n = (if n < 10 then [48 + of_nat n] else dec_bytes (n div 10) @ [48 + of_nat (n mod 10)])"

declare dec_bytes.simps [simp del]

text \<open>\<open>%d\<close>, \<open>%ld\<close> and \<open>PRId64\<close>.\<close>

definition dec_int_bytes :: "int \<Rightarrow> bytes" where
  "dec_int_bytes i = (if i < 0 then [45] else []) @ dec_bytes (nat \<bar>i\<bar>)"

text \<open>\<open>%.1f\<close> of a finite number: the exact value rounded to tenths, ties to even.\<close>

definition tenths :: "rat \<Rightarrow> nat" where
  "tenths x = nat (round_half_even (\<bar>x\<bar> * 10))"

definition fixed1_bytes :: "rat \<Rightarrow> bytes" where
  "fixed1_bytes x = (if x < 0 then [45] else []) @ dec_bytes (tenths x div 10) @ [46] @ dec_bytes (tenths x mod 10)"

section \<open>Scanning\<close>

text \<open>
  The scanners give the value and the rest of the text, or nothing for a matching failure. \<open>scan_lu\<close> is
  \<open>%lu\<close> with a 32-bit \<open>unsigned long\<close>: a value out of range is the largest one, a minus sign negates modulo
  \<open>2^32\<close>.
\<close>

definition scan_sign :: "bytes \<Rightarrow> bool \<times> bytes" where
  "scan_sign s = (case s of c # r \<Rightarrow> if c = 45 then (True, r) else if c = 43 then (False, r) else (False, s) | [] \<Rightarrow> (False, s))"

definition scan_lu :: "bytes \<Rightarrow> (u32 \<times> bytes) option" where
  "scan_lu s =
     (case scan_sign (dropWhile is_space s) of (neg, r) \<Rightarrow>
        let ds = takeWhile is_digit r; v = digits_value ds
        in if ds = [] then None
           else Some (if 2 ^ 32 \<le> v then - 1 else if neg then - of_nat v else of_nat v, dropWhile is_digit r))"

text \<open>\<open>strtoul(s, NULL, 10)\<close> gives 0 when there is no number.\<close>

definition strtoul10 :: "bytes \<Rightarrow> u32" where
  "strtoul10 s = (case scan_lu s of None \<Rightarrow> 0 | Some (v, r) \<Rightarrow> v)"

definition scan_char :: "u8 \<Rightarrow> bytes \<Rightarrow> bytes option" where
  "scan_char c s = (case s of [] \<Rightarrow> None | d # r \<Rightarrow> if d = c then Some r else None)"

text \<open>\<open>%n[^c]\<close>: between one and \<open>n\<close> characters other than \<open>c\<close>.\<close>

definition scan_until :: "nat \<Rightarrow> u8 \<Rightarrow> bytes \<Rightarrow> (bytes \<times> bytes) option" where
  "scan_until n c s =
     (let f = takeWhile (\<lambda>d. d \<noteq> c) (take n s) in if f = [] then None else Some (f, drop (length f) s))"

text \<open>
  \<open>%lf\<close> for a sign, digits and a fraction, which is all that \<open>%.1f\<close> writes; exponents, hexadecimal digits,
  infinities and NaNs are not scanned.
\<close>

definition scan_lf :: "bytes \<Rightarrow> (rat \<times> bytes) option" where
  "scan_lf s =
     (case scan_sign (dropWhile is_space s) of (neg, r) \<Rightarrow>
        let ds = takeWhile is_digit r; r1 = dropWhile is_digit r;
            fs = (case r1 of c # r2 \<Rightarrow> if c = 46 then takeWhile is_digit r2 else [] | [] \<Rightarrow> []);
            r3 = (case r1 of c # r2 \<Rightarrow> if c = 46 then dropWhile is_digit r2 else r1 | [] \<Rightarrow> []);
            v = of_nat (digits_value (ds @ fs)) / 10 ^ length fs
        in if ds @ fs = [] then None else Some (f64 (if neg then - v else v), r3))"

section \<open>Reading back what was written\<close>

lemma digit_byte: "n < 10 \<Longrightarrow> is_digit (48 + of_nat n) \<and> unat (48 + of_nat n - 48 :: u8) = n"
proof -
  assume "n < 10"
  then have "n \<in> set [0..<10]" by simp
  moreover have "list_all (\<lambda>n. is_digit (48 + of_nat n) \<and> unat (48 + of_nat n - 48 :: u8) = n) [0..<10]"
    by code_simp
  ultimately show ?thesis by (simp only: list_all_iff)
qed

lemma dec_bytes_small: "n < 10 \<Longrightarrow> dec_bytes n = [48 + of_nat n]"
  by (subst dec_bytes.simps) simp

lemma dec_bytes_nonempty [simp]: "dec_bytes n \<noteq> []"
  by (subst dec_bytes.simps) simp

lemma dec_bytes_digits [simp]: "\<forall>c \<in> set (dec_bytes n). is_digit c"
proof (induction n rule: dec_bytes.induct)
  case (1 n)
  then show ?case by (subst dec_bytes.simps) (auto simp: digit_byte simp del: of_nat_mod)
qed

lemma digits_value_snoc: "digits_value (ds @ [c]) = 10 * digits_value ds + unat (c - 48)"
  by (simp add: digits_value_def)

lemma digits_value_dec_bytes [simp]: "digits_value (dec_bytes n) = n"
proof (induction n rule: dec_bytes.induct)
  case (1 n)
  show ?case
  proof (cases "n < 10")
    case True
    then show ?thesis
      using digit_byte [of n] by (subst dec_bytes.simps) (simp add: digits_value_def)
  next
    case False
    then show ?thesis
      using 1 digit_byte [of "n mod 10"] by (subst dec_bytes.simps) (simp only: digits_value_snoc if_False, simp)
  qed
qed

lemma length_dec_bytes: "n < 10 ^ Suc k \<Longrightarrow> length (dec_bytes n) \<le> Suc k"
proof (induction k arbitrary: n)
  case 0
  then show ?case by (subst dec_bytes.simps) simp
next
  case (Suc k)
  then have "n div 10 < 10 ^ Suc k" by (simp add: div_less_iff_less_mult)
  then show ?case using Suc.IH [of "n div 10"] by (subst dec_bytes.simps) simp
qed

lemma digit_no_space: "is_digit c \<Longrightarrow> \<not> is_space c \<and> c \<noteq> 45 \<and> c \<noteq> 43"
  by (auto simp: is_digit_def is_space_def word_le_nat_alt)

lemma dec_bytes_start: "\<exists>c cs. dec_bytes n = c # cs \<and> is_digit c"
  using dec_bytes_digits [of n] dec_bytes_nonempty [of n] by (cases "dec_bytes n") auto

text \<open>The rest of the text after a number does not go on with a digit.\<close>

definition ends_number :: "bytes \<Rightarrow> bool" where
  "ends_number r \<longleftrightarrow> (case r of [] \<Rightarrow> True | c # _ \<Rightarrow> \<not> is_digit c)"

lemma span_digits:
  "ends_number r \<Longrightarrow> takeWhile is_digit (dec_bytes n @ r) = dec_bytes n \<and> dropWhile is_digit (dec_bytes n @ r) = r"
  using dec_bytes_digits [of n]
  by (cases r) (auto simp: ends_number_def takeWhile_append dropWhile_append takeWhile_eq_all_conv)

lemma no_sign: "scan_sign (dropWhile is_space (dec_bytes n @ r)) = (False, dec_bytes n @ r)"
  using dec_bytes_start [of n] by (auto simp: scan_sign_def digit_no_space)

lemma scan_lu_dec: "n < 2 ^ 32 \<Longrightarrow> ends_number r \<Longrightarrow> scan_lu (dec_bytes n @ r) = Some (of_nat n, r)"
  using span_digits [of r n] by (simp add: scan_lu_def no_sign Let_def)

lemma scan_lu_word: "ends_number r \<Longrightarrow> scan_lu (dec_bytes (unat (w :: u32)) @ r) = Some (w, r)"
  using scan_lu_dec [of "unat w" r] unsigned_less [of w] by simp

lemma strtoul10_word [simp]: "strtoul10 (dec_bytes (unat (w :: u32))) = w"
  using scan_lu_word [of "[]" w] by (simp add: strtoul10_def ends_number_def)

lemma scan_char_Cons [simp]: "scan_char c (c # r) = Some r"
  by (simp add: scan_char_def)

lemma scan_until_field:
  assumes "f \<noteq> []" "length f \<le> n" "c \<notin> set f"
  shows "scan_until n c (f @ c # r) = Some (f, c # r)"
proof -
  have "takeWhile (\<lambda>d. d \<noteq> c) (take n (f @ c # r)) = f"
    using assms by (cases "n - length f") (auto simp: takeWhile_append)
  with assms(1) show ?thesis by (simp add: scan_until_def)
qed

lemma scan_until_empty [simp]: "scan_until n c (c # r) = None"
  by (cases n) (simp_all add: scan_until_def)

lemma digits_value_append_digit: "n < 10 \<Longrightarrow> digits_value (ds @ dec_bytes n) = 10 * digits_value ds + n"
  using digit_byte [of n] by (subst dec_bytes.simps) (simp add: digits_value_def)

lemma scan_lf_fixed1:
  assumes "0 \<le> x" "ends_number r"
  shows "scan_lf (fixed1_bytes x @ r) = Some (f64 (of_nat (tenths x) / 10), r)"
proof -
  let ?a = "tenths x div 10" and ?b = "tenths x mod 10"
  have point: "ends_number (46 # s)" for s by (simp add: ends_number_def is_digit_def word_le_nat_alt)
  have b: "?b < 10" by simp
  then have one: "length (dec_bytes ?b) = 1" by (subst dec_bytes.simps) simp
  have "10 * ?a + ?b = tenths x" by simp
  with digits_value_append_digit [OF b, of "dec_bytes ?a"] have "digits_value (dec_bytes ?a @ dec_bytes ?b) = tenths x" by simp
  with span_digits [OF point, of ?a "dec_bytes ?b @ r"] span_digits [OF assms(2), of ?b] one
  show ?thesis
    using assms(1) no_sign [of ?a "46 # dec_bytes ?b @ r"] by (simp add: scan_lf_def fixed1_bytes_def Let_def)
qed

end
