(* ===== verification/Scoreboard.thy ===== *)
theory Scoreboard
  imports C_Text "HOL-Library.Multiset"
begin

text \<open>
  \<open>main/tasks/scoreboard.c\<close>: the twenty best shares found, kept in memory in descending order and in NVS as
  one text per rank. NVS is the array of these texts; \<open>None\<close> is a null pointer from \<open>nvs_config\<close>. The
  asynchronous writes of \<open>nvs_config\<close> are taken as done.
\<close>

section \<open>State\<close>

definition MAX_SCOREBOARD :: nat where
  "MAX_SCOREBOARD = 20"

record scoreboard_entry =
  entry_difficulty :: rat
  entry_job_id :: bytes
  entry_extranonce2 :: bytes
  entry_ntime :: u32
  entry_nonce :: u32
  entry_version_bits :: u32
  nvs_entry :: bytes

text \<open>\<open>board_mutex\<close>: whether the semaphore exists.\<close>

record scoreboard =
  board_entries :: "scoreboard_entry list"
  board_count :: nat
  board_mutex :: bool

type_synonym nvs_texts = "nat \<Rightarrow> bytes option"

datatype esp_err = ESP_OK | ESP_FAIL

section \<open>Operations\<close>

text \<open>The format \<open>%lf;%31[^;];%31[^;];%lu;%lu;%lu\<close>; nothing unless all six conversions succeed.\<close>

definition scan_entry :: "bytes \<Rightarrow> scoreboard_entry option" where
  "scan_entry s =
     Option.bind (scan_lf s) (\<lambda>(diff, s). Option.bind (scan_char 59 s) (\<lambda>s.
     Option.bind (scan_until 31 59 s) (\<lambda>(job, s). Option.bind (scan_char 59 s) (\<lambda>s.
     Option.bind (scan_until 31 59 s) (\<lambda>(en2, s). Option.bind (scan_char 59 s) (\<lambda>s.
     Option.bind (scan_lu s) (\<lambda>(nt, s). Option.bind (scan_char 59 s) (\<lambda>s.
     Option.bind (scan_lu s) (\<lambda>(non, s). Option.bind (scan_char 59 s) (\<lambda>s.
     Option.bind (scan_lu s) (\<lambda>(vb, s).
       Some \<lparr>entry_difficulty = diff, entry_job_id = job, entry_extranonce2 = en2, entry_ntime = nt,
             entry_nonce = non, entry_version_bits = vb, nvs_entry = []\<rparr>)))))))))))"

fun load_loop :: "nvs_texts \<Rightarrow> nat list \<Rightarrow> scoreboard \<Rightarrow> scoreboard" where
  "load_loop nvs [] b = b"
| "load_loop nvs (i # is) b =
     (case nvs i of
        None \<Rightarrow> b
      | Some txt \<Rightarrow>
          if txt = [] then b
          else case scan_entry txt of
                 None \<Rightarrow> load_loop nvs is b
               | Some e \<Rightarrow> load_loop nvs is (b\<lparr>board_entries := (board_entries b)[board_count b := e\<lparr>nvs_entry := take 127 txt\<rparr>],
                                              board_count := board_count b + 1\<rparr>))"

definition scoreboard_init :: "bool \<Rightarrow> nvs_texts \<Rightarrow> scoreboard \<Rightarrow> esp_err \<times> scoreboard" where
  "scoreboard_init mutex_ok nvs b =
     (if \<not> mutex_ok then (ESP_FAIL, b\<lparr>board_count := 0, board_mutex := False\<rparr>)
      else (ESP_OK, load_loop nvs [0..<MAX_SCOREBOARD] (b\<lparr>board_count := 0, board_mutex := True\<rparr>)))"

text \<open>The new entry with its strings cut to the fields, and the text \<open>%.1f;%s;%s;%lu;%lu;%lu\<close>.\<close>

definition entry_text :: "scoreboard_entry \<Rightarrow> bytes" where
  "entry_text e = fixed1_bytes (entry_difficulty e) @ [59] @ entry_job_id e @ [59] @ entry_extranonce2 e @ [59] @
     dec_bytes (unat (entry_ntime e)) @ [59] @ dec_bytes (unat (entry_nonce e)) @ [59] @ dec_bytes (unat (entry_version_bits e))"

definition new_entry :: "rat \<Rightarrow> bytes \<Rightarrow> bytes \<Rightarrow> u32 \<Rightarrow> u32 \<Rightarrow> u32 \<Rightarrow> scoreboard_entry" where
  "new_entry diff job_id extranonce_2 nt non version_bits =
     (let e = \<lparr>entry_difficulty = diff, entry_job_id = take 31 job_id, entry_extranonce2 = take 31 extranonce_2,
               entry_ntime = nt, entry_nonce = non, entry_version_bits = version_bits, nvs_entry = []\<rparr>
      in e\<lparr>nvs_entry := take 127 (entry_text e)\<rparr>)"

text \<open>The loop that makes room: the entries moved, the free slot, and the slots written so far.\<close>

fun shift_loop :: "rat \<Rightarrow> scoreboard_entry list \<Rightarrow> nat \<Rightarrow> nat list \<Rightarrow> scoreboard_entry list \<times> nat \<times> nat list" where
  "shift_loop diff es 0 dirty = (es, 0, dirty)"
| "shift_loop diff es (Suc i) dirty =
     (if entry_difficulty (es ! i) < diff then shift_loop diff (es[Suc i := es ! i]) i (dirty @ [Suc i])
      else (es, Suc i, dirty))"

definition scoreboard_save :: "nat \<Rightarrow> scoreboard_entry \<Rightarrow> nvs_texts \<Rightarrow> nvs_texts" where
  "scoreboard_save i e nvs = nvs(i \<mapsto> nvs_entry e)"

definition scoreboard_add ::
  "bool \<Rightarrow> rat \<Rightarrow> bytes \<Rightarrow> bytes \<Rightarrow> u32 \<Rightarrow> u32 \<Rightarrow> u32 \<Rightarrow> scoreboard \<times> nvs_texts \<Rightarrow> esp_err \<times> scoreboard \<times> nvs_texts" where
  "scoreboard_add take_ok diff job_id extranonce_2 nt non version_bits = (\<lambda>(b, nvs).
     (if \<not> board_mutex b then (ESP_OK, b, nvs)
      else let i = (if board_count b < MAX_SCOREBOARD then board_count b else MAX_SCOREBOARD - 1)
        in if board_count b = MAX_SCOREBOARD \<and> diff \<le> entry_difficulty (board_entries b ! i) then (ESP_OK, b, nvs)
           else if \<not> take_ok then (ESP_FAIL, b, nvs)
           else let new = new_entry diff job_id extranonce_2 nt non version_bits
             in case shift_loop diff (board_entries b) i [] of
                  (es, slot, dirty) \<Rightarrow>
                    let es' = es[slot := new];
                        b' = b\<lparr>board_entries := es', board_count := (if board_count b < MAX_SCOREBOARD then board_count b + 1 else board_count b)\<rparr>
                    in (ESP_OK, b', fold (\<lambda>idx. scoreboard_save idx (es' ! idx)) (dirty @ [slot]) nvs)))"

section \<open>The ranking\<close>

text \<open>
  The contract: the list of ranked entries, best first. A new share goes behind those that are at least as
  good, and the list is cut after twenty.
\<close>

definition ranking :: "scoreboard \<Rightarrow> scoreboard_entry list" where
  "ranking b = take (board_count b) (board_entries b)"

definition ranked :: "scoreboard_entry list \<Rightarrow> bool" where
  "ranked xs \<longleftrightarrow> sorted (map (\<lambda>e. - entry_difficulty e) xs)"

definition rank_insert :: "scoreboard_entry \<Rightarrow> scoreboard_entry list \<Rightarrow> scoreboard_entry list" where
  "rank_insert e xs = filter (\<lambda>x. entry_difficulty e \<le> entry_difficulty x) xs @ [e] @ filter (\<lambda>x. entry_difficulty x < entry_difficulty e) xs"

definition board_invar :: "scoreboard \<Rightarrow> bool" where
  "board_invar b \<longleftrightarrow> length (board_entries b) = MAX_SCOREBOARD \<and> board_count b \<le> MAX_SCOREBOARD \<and> ranked (ranking b)"

text \<open>NVS holds at every rank the text of the entry, and no text behind the last rank.\<close>

definition saved :: "scoreboard \<times> nvs_texts \<Rightarrow> bool" where
  "saved s \<longleftrightarrow> (\<forall>i. snd s i = (if i < board_count (fst s) then Some (nvs_entry (board_entries (fst s) ! i)) else None))"

lemma ranked_rank_insert: "ranked xs \<Longrightarrow> ranked (rank_insert e xs)"
  unfolding ranked_def rank_insert_def
  by (auto simp: sorted_append sorted_map intro: sorted_wrt_filter)

lemma ranked_take: "ranked xs \<Longrightarrow> ranked (take n xs)"
  unfolding ranked_def by (simp add: take_map [symmetric] sorted_wrt_take)

lemma length_rank_insert [simp]: "length (rank_insert e xs) = Suc (length xs)"
  using sum_length_filter_compl [of "\<lambda>x. entry_difficulty e \<le> entry_difficulty x" xs]
  by (simp add: rank_insert_def not_le)

lemma rank_insert_last: "\<forall>x \<in> set xs. entry_difficulty e \<le> entry_difficulty x \<Longrightarrow> rank_insert e xs = xs @ [e]"
  by (auto simp: rank_insert_def filter_id_conv filter_empty_conv not_less)

lemma rank_insert_snoc: "entry_difficulty x < entry_difficulty e \<Longrightarrow> rank_insert e (xs @ [x]) = rank_insert e xs @ [x]"
  by (simp add: rank_insert_def)

lemma ranked_above: "ranked (xs @ [x]) \<Longrightarrow> d \<le> entry_difficulty x \<Longrightarrow> \<forall>y \<in> set (xs @ [x]). d \<le> entry_difficulty y"
  by (auto simp: ranked_def sorted_append)

lemma shift_loop_result:
  "i < length es \<Longrightarrow> ranked (take i es) \<Longrightarrow> shift_loop (entry_difficulty e) es i dirty = (es', slot, dirty') \<Longrightarrow>
   es'[slot := e] = rank_insert e (take i es) @ drop (Suc i) es \<and> length es' = length es \<and>
   set dirty' = set dirty \<union> {slot<..i} \<and> slot \<le> i \<and> (\<forall>k. k \<notin> {slot<..i} \<longrightarrow> es' ! k = es ! k)"
proof (induction i arbitrary: es dirty)
  case 0
  then show ?case by (cases es) (auto simp: rank_insert_def)
next
  case (Suc i)
  have snoc: "take (Suc i) es = take i es @ [es ! i]" using Suc.prems(1) by (simp add: take_Suc_conv_app_nth)
  show ?case
  proof (cases "entry_difficulty (es ! i) < entry_difficulty e")
    case True
    let ?es = "es[Suc i := es ! i]"
    have t: "take i ?es = take i es" "i < length ?es" using Suc.prems(1) by simp_all
    have r: "ranked (take i es)" using ranked_take [OF Suc.prems(2), of i] by simp
    have d: "drop (Suc i) ?es = es ! i # drop (Suc (Suc i)) es"
      using Suc.prems(1) by (simp add: drop_update_swap Cons_nth_drop_Suc [symmetric])
    from Suc.IH [of ?es "dirty @ [Suc i]"] Suc.prems True t r
    have *: "es'[slot := e] = rank_insert e (take i es) @ drop (Suc i) ?es" "length es' = length es"
      "set dirty' = insert (Suc i) (set dirty) \<union> {slot<..i}" "slot \<le> i" "\<forall>k. k \<notin> {slot<..i} \<longrightarrow> es' ! k = ?es ! k" by simp_all
    then show ?thesis
      using True d by (auto simp: snoc rank_insert_snoc)
  next
    case False
    then have "\<forall>y \<in> set (take (Suc i) es). entry_difficulty e \<le> entry_difficulty y"
      unfolding snoc using Suc.prems(2) by (intro ranked_above) (simp_all add: snoc)
    then have "rank_insert e (take (Suc i) es) = take (Suc i) es @ [e]" by (rule rank_insert_last)
    with False Suc.prems show ?thesis by (auto simp: upd_conv_take_nth_drop)
  qed
qed

lemma fold_saves:
  "fold (\<lambda>idx. scoreboard_save idx (es ! idx)) is nvs = (\<lambda>k. if k \<in> set is then Some (nvs_entry (es ! k)) else nvs k)"
  by (induction "is" arbitrary: nvs) (auto simp: scoreboard_save_def)

lemma add_ranking:
  assumes "board_invar b" "board_mutex b" "saved (b, nvs)"
    and add: "scoreboard_add True diff job_id en2 nt non vb (b, nvs) = (err, b', nvs')"
  shows "board_invar b' \<and> board_mutex b' \<and> saved (b', nvs') \<and> err = ESP_OK \<and>
    ranking b' = take MAX_SCOREBOARD (rank_insert (new_entry diff job_id en2 nt non vb) (ranking b))"
proof -
  let ?e = "new_entry diff job_id en2 nt non vb" and ?es = "board_entries b" and ?n = "board_count b"
  let ?i = "if ?n < MAX_SCOREBOARD then ?n else MAX_SCOREBOARD - 1"
  have diff: "entry_difficulty ?e = diff" by (simp add: new_entry_def Let_def)
  have len: "length ?es = MAX_SCOREBOARD" "?n \<le> MAX_SCOREBOARD" and rk: "ranked (ranking b)"
    using assms(1) by (simp_all add: board_invar_def)
  have i: "?i < length ?es" by (simp add: len MAX_SCOREBOARD_def)
  have tk: "take ?i ?es = take ?i (ranking b)" by (auto simp: ranking_def MAX_SCOREBOARD_def)
  show ?thesis
  proof (cases "?n = MAX_SCOREBOARD \<and> diff \<le> entry_difficulty (?es ! ?i)")
    case True
    have full: "ranking b = take ?i ?es @ [?es ! ?i]"
      using True len by (simp add: ranking_def take_Suc_conv_app_nth [symmetric] MAX_SCOREBOARD_def)
    have "ranked (take ?i ?es @ [?es ! ?i])" using rk unfolding full .
    then have "\<forall>y \<in> set (take ?i ?es @ [?es ! ?i]). diff \<le> entry_difficulty y"
      by (rule ranked_above) (rule conjunct2 [OF True])
    then have "\<forall>y \<in> set (ranking b). diff \<le> entry_difficulty y" unfolding full .
    then have "rank_insert ?e (ranking b) = ranking b @ [?e]" by (intro rank_insert_last) (simp add: diff)
    moreover have "length (ranking b) = MAX_SCOREBOARD" using True len by (simp add: ranking_def)
    ultimately show ?thesis using add assms(1-3) True by (auto simp: scoreboard_add_def Let_def)
  next
    case False
    obtain es slot dirty where loop: "shift_loop diff ?es ?i [] = (es, slot, dirty)" by (rule prod_cases3)
    have loop': "shift_loop (entry_difficulty ?e) ?es ?i [] = (es, slot, dirty)" using loop by (simp only: diff)
    have "ranked (take ?i ?es)" unfolding tk by (rule ranked_take [OF rk])
    from shift_loop_result [OF i this loop']
    have r: "es[slot := ?e] = rank_insert ?e (take ?i ?es) @ drop (Suc ?i) ?es" "length es = MAX_SCOREBOARD"
      "set dirty = {slot<..?i}" "slot \<le> ?i" "\<And>k. k \<notin> {slot<..?i} \<Longrightarrow> es ! k = ?es ! k" by (auto simp: len)
    let ?n' = "if ?n < MAX_SCOREBOARD then ?n + 1 else ?n"
    from add loop False assms(2)
    have b': "b' = b\<lparr>board_entries := es[slot := ?e], board_count := ?n'\<rparr>" and err: "err = ESP_OK"
      and nvs': "nvs' = fold (\<lambda>idx. scoreboard_save idx (es[slot := ?e] ! idx)) (dirty @ [slot]) nvs"
      by (auto simp: scoreboard_add_def Let_def split: if_splits)
    have n': "?n' = Suc ?i" using len by (auto simp: MAX_SCOREBOARD_def)
    have rank: "ranking b' = rank_insert ?e (take ?i ?es)"
      unfolding b' ranking_def by (simp add: n' r(1) i less_imp_le min_def del: if_split_asm)
    also have "\<dots> = take MAX_SCOREBOARD (rank_insert ?e (ranking b))"
    proof (cases "?n < MAX_SCOREBOARD")
      case True
      then show ?thesis by (simp add: ranking_def)
    next
      case full: False
      then have n: "?n = MAX_SCOREBOARD" using len by simp
      then have "ranking b = take ?i ?es @ [?es ! ?i]"
        using len by (simp add: ranking_def take_Suc_conv_app_nth [symmetric] MAX_SCOREBOARD_def)
      moreover have "entry_difficulty (?es ! ?i) < entry_difficulty ?e" using False n by (simp add: diff)
      ultimately have "rank_insert ?e (ranking b) = rank_insert ?e (take ?i ?es) @ [?es ! ?i]" by (simp add: rank_insert_snoc)
      moreover have "length (rank_insert ?e (take ?i ?es)) = MAX_SCOREBOARD" using i by (simp add: n MAX_SCOREBOARD_def)
      ultimately show ?thesis by simp
    qed
    finally have ranking': "ranking b' = take MAX_SCOREBOARD (rank_insert ?e (ranking b))" .
    have "saved (b', nvs')"
      using assms(3) r(2-5) len n' unfolding saved_def b' nvs' fold_saves
      by (auto simp: nth_list_update split: if_splits)
    moreover have "board_invar b'"
      unfolding board_invar_def ranking' using rk len r(2)
      by (auto simp: b' MAX_SCOREBOARD_def intro!: ranked_take ranked_rank_insert)
    moreover have "board_mutex b'" using assms(2) by (simp add: b')
    ultimately show ?thesis using ranking' err by simp
  qed
qed

section \<open>The board after any sequence of shares\<close>

lemma rank_insert_sort: "rank_insert e (sort_key (\<lambda>e. - entry_difficulty e) xs) = sort_key (\<lambda>e. - entry_difficulty e) (xs @ [e])"
proof (rule sym, rule properties_for_sort_key)
  let ?f = "\<lambda>e. - entry_difficulty e" and ?ys = "sort_key (\<lambda>e. - entry_difficulty e) xs"
  show "mset (rank_insert e ?ys) = mset (xs @ [e])"
    using multiset_partition [of "mset xs" "\<lambda>x. entry_difficulty e \<le> entry_difficulty x"]
    by (simp add: rank_insert_def not_le)
  show "sorted (map ?f (rank_insert e ?ys))"
    using ranked_rank_insert [of ?ys e] by (simp add: ranked_def)
  fix k assume "k \<in> set (rank_insert e ?ys)"
  have ys: "filter (\<lambda>x. ?f k = ?f x) ?ys = filter (\<lambda>x. ?f k = ?f x) xs"
    using sort_key_stable [of ?f "?f k" xs] by (simp add: eq_commute)
  show "filter (\<lambda>x. ?f k = ?f x) (rank_insert e ?ys) = filter (\<lambda>x. ?f k = ?f x) (xs @ [e])"
  proof (cases "entry_difficulty e \<le> entry_difficulty k")
    case True
    then have "filter (\<lambda>x. ?f k = ?f x) (filter (\<lambda>x. entry_difficulty e \<le> entry_difficulty x) ?ys) = filter (\<lambda>x. ?f k = ?f x) ?ys"
      "filter (\<lambda>x. ?f k = ?f x) (filter (\<lambda>x. entry_difficulty x < entry_difficulty e) ?ys) = []"
      by (auto simp: filter_filter filter_empty_conv intro: filter_cong)
    then show ?thesis using ys by (simp add: rank_insert_def)
  next
    case False
    then have "filter (\<lambda>x. ?f k = ?f x) (filter (\<lambda>x. entry_difficulty e \<le> entry_difficulty x) ?ys) = []"
      "filter (\<lambda>x. ?f k = ?f x) (filter (\<lambda>x. entry_difficulty x < entry_difficulty e) ?ys) = filter (\<lambda>x. ?f k = ?f x) ?ys"
      by (auto simp: filter_filter filter_empty_conv intro: filter_cong)
    then show ?thesis using ys False by (simp add: rank_insert_def)
  qed
qed

lemma rank_insert_take:
  assumes "ranked xs"
  shows "take n (rank_insert e (take n xs)) = take n (rank_insert e xs)"
proof (cases "length xs \<le> n")
  case True
  then show ?thesis by simp
next
  case False
  define as bs where "as = take n xs" and "bs = drop n xs"
  have xs: "xs = as @ bs" "length as = n" using False by (simp_all add: as_def bs_def)
  show ?thesis
  proof (cases "\<exists>y \<in> set bs. entry_difficulty e \<le> entry_difficulty y")
    case True
    with assms xs have "\<forall>x \<in> set as. entry_difficulty e \<le> entry_difficulty x"
      by (fastforce simp: ranked_def sorted_append)
    moreover from this have "filter (\<lambda>x. entry_difficulty e \<le> entry_difficulty x) as = as" by (simp add: filter_id_conv)
    ultimately show ?thesis using xs rank_insert_last [of as e] by (simp add: rank_insert_def)
  next
    case False
    then have "filter (\<lambda>x. entry_difficulty e \<le> entry_difficulty x) bs = []" "filter (\<lambda>x. entry_difficulty x < entry_difficulty e) bs = bs"
      by (auto simp: filter_empty_conv filter_id_conv not_le)
    then have "rank_insert e xs = rank_insert e as @ bs" by (simp add: rank_insert_def xs)
    then show ?thesis using xs by simp
  qed
qed

text \<open>A share as \<open>asic_result_task\<close> reports it, and a run of reports.\<close>

record share =
  share_difficulty :: rat
  share_job_id :: bytes
  share_extranonce2 :: bytes
  share_ntime :: u32
  share_nonce :: u32
  share_version_bits :: u32

definition entry_of :: "share \<Rightarrow> scoreboard_entry" where
  "entry_of h = new_entry (share_difficulty h) (share_job_id h) (share_extranonce2 h) (share_ntime h) (share_nonce h) (share_version_bits h)"

fun add_shares :: "share list \<Rightarrow> scoreboard \<times> nvs_texts \<Rightarrow> scoreboard \<times> nvs_texts" where
  "add_shares [] s = s"
| "add_shares (h # hs) s = add_shares hs (snd (scoreboard_add True (share_difficulty h) (share_job_id h) (share_extranonce2 h)
     (share_ntime h) (share_nonce h) (share_version_bits h) s))"

lemma add_shares_result:
  "board_invar b \<Longrightarrow> board_mutex b \<Longrightarrow> saved (b, nvs) \<Longrightarrow> ranking b = take MAX_SCOREBOARD (sort_key (\<lambda>e. - entry_difficulty e) es) \<Longrightarrow>
   add_shares hs (b, nvs) = (b', nvs') \<Longrightarrow>
   board_invar b' \<and> saved (b', nvs') \<and> ranking b' = take MAX_SCOREBOARD (sort_key (\<lambda>e. - entry_difficulty e) (es @ map entry_of hs))"
proof (induction hs arbitrary: b nvs es)
  case Nil
  then show ?case by simp
next
  case (Cons h hs)
  let ?sort = "sort_key (\<lambda>e. - entry_difficulty e) :: scoreboard_entry list \<Rightarrow> _"
  obtain err b1 nvs1 where add: "scoreboard_add True (share_difficulty h) (share_job_id h) (share_extranonce2 h)
     (share_ntime h) (share_nonce h) (share_version_bits h) (b, nvs) = (err, b1, nvs1)" by (rule prod_cases3)
  from add_ranking [OF Cons.prems(1-3) add] Cons.prems(4)
  have b1: "board_invar b1" "board_mutex b1" "saved (b1, nvs1)"
    and r1: "ranking b1 = take MAX_SCOREBOARD (rank_insert (entry_of h) (take MAX_SCOREBOARD (?sort es)))"
    by (simp_all add: entry_of_def)
  have "ranked (?sort es)" by (simp add: ranked_def)
  with r1 have "ranking b1 = take MAX_SCOREBOARD (?sort (es @ [entry_of h]))" by (simp add: rank_insert_take rank_insert_sort)
  from Cons.IH [OF b1 this] Cons.prems(5) add show ?case by simp
qed

text \<open>
  C28. After any sequence of shares on an empty board the ranking is the twenty best of them in descending
  order, the earlier one first among equals, and NVS holds the text of each ranked entry at its rank and
  nothing behind.
\<close>

theorem scoreboard_top:
  assumes "length (board_entries b) = MAX_SCOREBOARD" "board_count b = 0" "board_mutex b"
    and "add_shares hs (b, \<lambda>i. None) = (b', nvs')"
  shows "ranking b' = take 20 (sort_key (\<lambda>e. - entry_difficulty e) (map entry_of hs)) \<and>
    nvs' = (\<lambda>i. if i < length (ranking b') then Some (nvs_entry (ranking b' ! i)) else None)"
proof -
  have "board_invar b" "saved (b, \<lambda>i. None)" "ranking b = take MAX_SCOREBOARD (sort_key (\<lambda>e. - entry_difficulty e) [])"
    using assms(1,2) by (simp_all add: board_invar_def saved_def ranking_def ranked_def)
  from add_shares_result [OF this(1) assms(3) this(2,3) assms(4)]
  have r: "board_invar b'" "saved (b', nvs')" "ranking b' = take MAX_SCOREBOARD (sort_key (\<lambda>e. - entry_difficulty e) (map entry_of hs))"
    by simp_all
  have len: "length (ranking b') = board_count b'" using r(1) by (simp add: ranking_def board_invar_def)
  have "nvs' = (\<lambda>i. if i < length (ranking b') then Some (nvs_entry (ranking b' ! i)) else None)"
    using r(2) unfolding len by (auto simp: saved_def ranking_def)
  with r(3) show ?thesis by (simp add: MAX_SCOREBOARD_def)
qed

definition empty_board :: scoreboard where
  "empty_board = \<lparr>board_entries = replicate 20 (new_entry 0 [] [] 0 0 0), board_count = 0, board_mutex = True\<rparr>"

definition share_of :: "rat \<Rightarrow> u32 \<Rightarrow> share" where
  "share_of d n = \<lparr>share_difficulty = d, share_job_id = [55], share_extranonce2 = [48, 49], share_ntime = 1, share_nonce = n, share_version_bits = 0\<rparr>"

theorem scoreboard_top_witness:
  "map entry_nonce (ranking (fst (add_shares [share_of 3 1, share_of 9 2, share_of 3 3, share_of 5 4] (empty_board, \<lambda>i. None)))) = [2, 4, 1, 3]"
proof -
  let ?r = "add_shares [share_of 3 1, share_of 9 2, share_of 3 3, share_of 5 4] (empty_board, \<lambda>i. None)"
  have "add_shares [share_of 3 1, share_of 9 2, share_of 3 3, share_of 5 4] (empty_board, \<lambda>i. None) = (fst ?r, snd ?r)" by simp
  from scoreboard_top [OF _ _ _ this] show ?thesis
    by (simp add: empty_board_def MAX_SCOREBOARD_def entry_of_def share_of_def new_entry_def Let_def)
qed

section \<open>The board after a restart\<close>

text \<open>
  What an entry becomes when its text is read back: the difficulty is the double next to the tenths written.
  An entry comes back when both its strings are not empty, have no separator and fit their fields, and its
  text fits the NVS field.
\<close>

definition restored :: "scoreboard_entry \<Rightarrow> scoreboard_entry" where
  "restored e = e\<lparr>entry_difficulty := f64 (of_nat (tenths (entry_difficulty e)) / 10)\<rparr>"

definition field_ok :: "bytes \<Rightarrow> bool" where
  "field_ok s \<longleftrightarrow> s \<noteq> [] \<and> length s \<le> 31 \<and> 59 \<notin> set s"

definition restorable :: "scoreboard_entry \<Rightarrow> bool" where
  "restorable e \<longleftrightarrow> 0 \<le> entry_difficulty e \<and> field_ok (entry_job_id e) \<and> field_ok (entry_extranonce2 e) \<and>
     nvs_entry e = entry_text e \<and> length (entry_text e) \<le> 127"

lemma ends_separator [simp]: "ends_number (59 # r)" "ends_number []"
  by (simp_all add: ends_number_def is_digit_def word_le_nat_alt)

lemma scan_entry_text:
  "0 \<le> entry_difficulty e \<Longrightarrow> field_ok (entry_job_id e) \<Longrightarrow> field_ok (entry_extranonce2 e) \<Longrightarrow>
   scan_entry (entry_text e) = Some ((restored e)\<lparr>nvs_entry := []\<rparr>)"
  using scan_lu_word [of "[]" "entry_version_bits e"]
  by (simp add: scan_entry_def entry_text_def scan_lf_fixed1 field_ok_def scan_until_field scan_lu_word restored_def)

lemma scan_entry_no_extranonce2:
  "0 \<le> entry_difficulty e \<Longrightarrow> field_ok (entry_job_id e) \<Longrightarrow> entry_extranonce2 e = [] \<Longrightarrow> scan_entry (entry_text e) = None"
  by (simp add: scan_entry_def entry_text_def scan_lf_fixed1 field_ok_def scan_until_field)

lemma entry_text_nonempty [simp]: "entry_text e \<noteq> []"
  by (simp add: entry_text_def fixed1_bytes_def)

lemma nvs_entry_of: "nvs_entry (entry_of h) = take 127 (entry_text (entry_of h))"
  by (simp add: entry_of_def new_entry_def entry_text_def Let_def)

lemma same_nvs_entry: "nvs_entry e = t \<Longrightarrow> e\<lparr>entry_difficulty := d, nvs_entry := t\<rparr> = e\<lparr>entry_difficulty := d\<rparr>"
  by (cases e) simp

lemma load_step:
  "nvs i = Some (entry_text e) \<Longrightarrow> restorable e \<Longrightarrow>
   load_loop nvs (i # is) b = load_loop nvs is (b\<lparr>board_entries := (board_entries b)[board_count b := restored e], board_count := board_count b + 1\<rparr>)"
  by (simp add: restorable_def scan_entry_text) (simp add: restored_def same_nvs_entry)

lemma load_loop_restores:
  assumes "\<And>i. i < length es \<Longrightarrow> nvs i = Some (entry_text (es ! i))" "nvs (length es) = None" "\<forall>e \<in> set es. restorable e"
    and "k + n = MAX_SCOREBOARD" "k \<le> length es" "length es \<le> MAX_SCOREBOARD"
    and "board_count b = k" "length (board_entries b) = MAX_SCOREBOARD" "take k (board_entries b) = map restored (take k es)"
  shows "ranking (load_loop nvs [k..<MAX_SCOREBOARD] b) = map restored es"
  using assms(4-)
proof (induction n arbitrary: k b)
  case 0
  then show ?case by (simp add: ranking_def)
next
  case (Suc n)
  then have upt: "[k..<MAX_SCOREBOARD] = k # [Suc k..<MAX_SCOREBOARD]" by (simp add: upt_rec)
  show ?case
  proof (cases "k < length es")
    case False
    then have "k = length es" using Suc.prems by simp
    with Suc.prems assms(2) show ?thesis unfolding upt by (simp add: ranking_def)
  next
    case True
    let ?b = "b\<lparr>board_entries := (board_entries b)[board_count b := restored (es ! k)], board_count := board_count b + 1\<rparr>"
    have "take (Suc k) (board_entries ?b) = map restored (take (Suc k) es)"
      using Suc.prems True by (simp add: take_Suc_conv_app_nth)
    then have "ranking (load_loop nvs [Suc k..<MAX_SCOREBOARD] ?b) = map restored es"
      using Suc.prems True by (intro Suc.IH) simp_all
    moreover have "nvs k = Some (entry_text (es ! k))" "restorable (es ! k)" using True assms by simp_all
    ultimately show ?thesis unfolding upt by (simp only: load_step)
  qed
qed

text \<open>
  A restart reads the saved ranking back, in order, every difficulty rounded to the tenths written; but an
  entry without an extranonce, which is what a standard Stratum V2 channel reports, is not read back.
\<close>

theorem scoreboard_restart:
  assumes "board_invar b" "saved (b, nvs)" "\<forall>e \<in> set (ranking b). restorable e" "length (board_entries b0) = MAX_SCOREBOARD"
    and "0 \<le> entry_difficulty e" "field_ok (entry_job_id e)" "entry_extranonce2 e = []"
  shows "fst (scoreboard_init True nvs b0) = ESP_OK \<and> ranking (snd (scoreboard_init True nvs b0)) = map restored (ranking b) \<and>
    scan_entry (entry_text e) = None"
proof -
  have len: "length (ranking b) = board_count b" "board_count b \<le> MAX_SCOREBOARD" using assms(1) by (auto simp: ranking_def board_invar_def)
  have texts: "nvs i = Some (entry_text (ranking b ! i))" if "i < length (ranking b)" for i
    using that assms(2,3) len nth_mem [OF that] by (auto simp: saved_def restorable_def ranking_def)
  have "nvs (length (ranking b)) = None" using assms(2) len by (simp add: saved_def)
  from load_loop_restores [OF texts this assms(3), of 0 MAX_SCOREBOARD "b0\<lparr>board_count := 0, board_mutex := True\<rparr>"] len assms(4)
  have "ranking (load_loop nvs [0..<MAX_SCOREBOARD] (b0\<lparr>board_count := 0, board_mutex := True\<rparr>)) = map restored (ranking b)" by simp
  then show ?thesis using scan_entry_no_extranonce2 [OF assms(5-7)] by (simp add: scoreboard_init_def)
qed

theorem scoreboard_restart_witness:
  "entry_difficulty (hd (ranking (snd (scoreboard_init True (\<lambda>i. if i = 0 then Some (entry_text (entry_of (share_of 3 1))) else None) empty_board)))) = 3"
proof -
  let ?e = "entry_of (share_of 3 1)" and ?f = "new_entry 5 [55] [] 1 2 3"
  let ?b = "empty_board\<lparr>board_entries := (board_entries empty_board)[0 := ?e], board_count := 1\<rparr>"
  let ?nvs = "\<lambda>i::nat. if i = 0 then Some (entry_text ?e) else None"
  have ten: "tenths 3 = 30" by (simp add: tenths_def round_half_even_int [of 30, simplified])
  have texts: "entry_text ?e = [51, 46, 48, 59, 55, 59, 48, 49, 59, 49, 59, 49, 59, 48]"
    by (simp add: entry_text_def entry_of_def share_of_def new_entry_def Let_def fixed1_bytes_def ten dec_bytes_small)
  have r: "ranking ?b = [?e]" by (simp add: ranking_def empty_board_def numeral_eq_Suc)
  have e: "nvs_entry ?e = entry_text ?e" by (simp only: nvs_entry_of texts) simp
  have "board_invar ?b" unfolding board_invar_def r by (simp add: ranked_def) (simp add: empty_board_def MAX_SCOREBOARD_def)
  moreover have "saved (?b, ?nvs)" using e by (auto simp: saved_def empty_board_def)
  moreover have "\<forall>e \<in> set (ranking ?b). restorable e"
    using e texts unfolding r by (simp add: restorable_def) (simp add: entry_of_def share_of_def new_entry_def Let_def field_ok_def)
  moreover have "length (board_entries empty_board) = MAX_SCOREBOARD" by (simp add: empty_board_def MAX_SCOREBOARD_def)
  moreover have "0 \<le> entry_difficulty ?f" "field_ok (entry_job_id ?f)" "entry_extranonce2 ?f = []"
    by (simp_all add: new_entry_def Let_def field_ok_def)
  ultimately have "ranking (snd (scoreboard_init True ?nvs empty_board)) = [restored ?e]"
    using scoreboard_restart [of ?b ?nvs empty_board ?f] r by simp
  then show ?thesis by (simp add: restored_def entry_of_def share_of_def new_entry_def Let_def ten)
qed

end
