(* ===== verification/Sv2_Client.thy ===== *)
theory Sv2_Client
  imports Sv2_Protocol Asic_Driver Work_Queue
begin

text \<open>
  \<open>main/tasks/stratum_v2_task.c\<close>: the Stratum V2 client. The first part are the handlers of the messages the
  pool sends, which hold back future jobs until their block is known and put jobs into the work queue; the
  second the submission of shares; the third the connection loop with its retries. The functions of
  \<open>main/system.c\<close> that it calls come first.
\<close>

section \<open>Work items and free functions\<close>

record sv2_job =
  std_job_id :: u32
  std_version :: u32
  std_merkle_root :: bytes
  std_prev_hash :: bytes
  std_ntime :: u32
  std_nbits :: u32
  std_clean_jobs :: bool

text \<open>
  What a \<open>void *\<close> in the work queue points to, and the functions that free it: \<open>free\<close> itself (also for a
  null pointer), \<open>sv2_ext_job_free\<close>, and \<open>STRATUM_V1_free_mining_notify\<close>. A pointer is freed properly when the
  function is the one for its type; \<open>sv2_ext_job_free\<close> of anything else frees pointers that are none, and
  \<open>free\<close> of an item that owns others loses them.
\<close>

datatype work = V1_Work mining_notify | V2_Work sv2_job | V2_Ext_Work sv2_ext_job
datatype free_function = Free | Ext_Job_Free | V1_Notify_Free

fun proper_free :: "work \<Rightarrow> free_function option \<Rightarrow> bool" where
  "proper_free (V1_Work _) f \<longleftrightarrow> f = Some V1_Notify_Free"
| "proper_free (V2_Work _) f \<longleftrightarrow> f = None \<or> f = Some Free"
| "proper_free (V2_Ext_Work _) f \<longleftrightarrow> f = Some Ext_Job_Free"

type_synonym jobs_queue = "(work, free_function) work_queue"

section \<open>State\<close>

definition SV2_PENDING_JOBS_SIZE :: nat where "SV2_PENDING_JOBS_SIZE = 8"
definition SV2_SUBMIT_TIMING_SLOTS :: nat where "SV2_SUBMIT_TIMING_SLOTS = 32"
definition MAX_RETRY_ATTEMPTS :: nat where "MAX_RETRY_ATTEMPTS = 3"

record sv2_pending_job =
  pend_job_id :: u32
  pend_version :: u32
  pend_merkle_root :: bytes
  pend_valid :: bool

datatype sv2_channel_type = SV2_CHANNEL_UNKNOWN | SV2_CHANNEL_STANDARD | SV2_CHANNEL_EXTENDED

record sv2_conn =
  channel_id :: u32
  sequence_number :: u32
  conn_target :: bytes
  channel_opened :: bool
  pending_jobs :: "sv2_pending_job list"
  conn_prev_hash :: bytes
  prev_hash_ntime :: u32
  prev_hash_nbits :: u32
  has_prev_hash :: bool
  channel_type :: sv2_channel_type
  extranonce_prefix :: bytes
  extranonce_prefix_len :: u8
  extranonce_size :: u8
  ext_pending_jobs :: "sv2_ext_job option list"

text \<open>
  Effects outside the state, in order: a pointer freed, the clock set, the hash rate measurements reset, a
  share counted as accepted or rejected, a frame handed to the encrypted transport.
\<close>

datatype sv2_event =
  Freed work "free_function option" | Clock_Set u32 | Measurements_Reset | Shares_Accepted nat | Share_Rejected bytes | Sent bytes

text \<open>
  The part of the global state the client works on. \<open>submit_time_us\<close> are the time stamps of the shares in
  flight; \<open>network_nonce_diff\<close> is \<open>None\<close> when the conversion from \<open>double\<close> is undefined.
\<close>

record sv2_state =
  sv2_conn :: sv2_conn
  stratum_queue :: jobs_queue
  job_marks :: "u8 list"
  pool_difficulty :: rat
  new_set_mining_difficulty_msg :: bool
  work_received :: u64
  last_clock_sync :: u32
  network_nonce_diff :: "u64 option"
  response_time :: rat
  response_share_batch :: u16
  submit_time_us :: "int list"
  events :: "sv2_event list"

section \<open>Functions of system.c\<close>

text \<open>\<open>SYSTEM_clean_jobs_queue\<close> clears the queue and every fourth mark: the job numbers of all chips are multiples of four.\<close>

definition clear_marks :: "u8 list \<Rightarrow> u8 list" where
  "clear_marks marks = fold (\<lambda>i m. m[4 * i := 0]) [0..<32] marks"

definition SYSTEM_clean_jobs_queue :: "sv2_state \<Rightarrow> sv2_state" where
  "SYSTEM_clean_jobs_queue s =
     (case queue_clear (stratum_queue s) of (freed, q) \<Rightarrow>
        s\<lparr>stratum_queue := q, job_marks := clear_marks (job_marks s),
          events := events s @ map (\<lambda>(w, f). Freed w f) freed @ [Measurements_Reset]\<rparr>)"

text \<open>\<open>lastClockSync\<close> and \<open>ntime\<close> are unsigned, so the sum wraps.\<close>

definition SYSTEM_notify_new_ntime :: "u32 \<Rightarrow> sv2_state \<Rightarrow> sv2_state" where
  "SYSTEM_notify_new_ntime nt s =
     (if last_clock_sync s + 60 * 60 > nt then s
      else s\<lparr>last_clock_sync := nt, events := events s @ [Clock_Set nt]\<rparr>)"

section \<open>Putting jobs into the queue\<close>

text \<open>
  The common end of the two enqueue functions: the clean-up on a clean job, the oldest item dropped when the
  queue is full, and the enqueue. \<open>drop_fn\<close> is what the dropped item is freed with. \<open>None\<close> stands for a queue
  operation that blocks.
\<close>

definition put_work :: "bool \<Rightarrow> free_function \<Rightarrow> work \<Rightarrow> sv2_state \<Rightarrow> sv2_state option" where
  "put_work clean drop_fn w s =
     (let s1 = (if clean \<and> 0 < count (stratum_queue s) then SYSTEM_clean_jobs_queue s else s);
          s2 = (if count (stratum_queue s1) = QUEUE_SIZE
                then map_option (\<lambda>(old, q). s1\<lparr>stratum_queue := q, events := events s1 @ [Freed old (Some drop_fn)]\<rparr>)
                       (queue_dequeue (stratum_queue s1))
                else Some s1)
      in Option.bind s2 (\<lambda>s2. map_option (\<lambda>q. s2\<lparr>stratum_queue := q\<rparr>) (queue_enqueue w (stratum_queue s2))))"

definition stratum_v2_enqueue_job ::
  "bool \<Rightarrow> u32 \<Rightarrow> u32 \<Rightarrow> bytes \<Rightarrow> bytes \<Rightarrow> u32 \<Rightarrow> u32 \<Rightarrow> bool \<Rightarrow> sv2_state \<Rightarrow> sv2_state option" where
  "stratum_v2_enqueue_job malloc_ok job_id ver mroot prev nt nbits clean s =
     (if \<not> malloc_ok then Some s
      else put_work clean Free
        (V2_Work \<lparr>std_job_id = job_id, std_version = ver, std_merkle_root = mroot, std_prev_hash = prev,
                  std_ntime = nt, std_nbits = nbits, std_clean_jobs = clean\<rparr>)
        (SYSTEM_notify_new_ntime nt (s\<lparr>work_received := work_received s + 1\<rparr>)))"

definition stratum_v2_enqueue_ext_job :: "sv2_ext_job \<Rightarrow> sv2_state \<Rightarrow> sv2_state option" where
  "stratum_v2_enqueue_ext_job job s =
     put_work (ext_clean_jobs job) Ext_Job_Free (V2_Ext_Work job)
       (SYSTEM_notify_new_ntime (ext_ntime job) (s\<lparr>work_received := work_received s + 1\<rparr>))"

section \<open>Message handlers\<close>

text \<open>
  The payload is what \<open>sv2_noise_recv\<close> stored, \<open>msg_length\<close> bytes. The channel named in a message is not
  looked at. The decoding of the coinbase for the display is not part of this theory.
\<close>

definition job_slot :: "u32 \<Rightarrow> nat" where
  "job_slot job_id = unat job_id mod SV2_PENDING_JOBS_SIZE"

definition store_ext_pending :: "sv2_ext_job \<Rightarrow> sv2_state \<Rightarrow> sv2_state" where
  "store_ext_pending job s =
     (let slot = job_slot (ext_job_id job); old = ext_pending_jobs (sv2_conn s) ! slot
      in s\<lparr>sv2_conn := (sv2_conn s)\<lparr>ext_pending_jobs := (ext_pending_jobs (sv2_conn s))[slot := Some job]\<rparr>,
           events := events s @ (case old of None \<Rightarrow> [] | Some j \<Rightarrow> [Freed (V2_Ext_Work j) (Some Ext_Job_Free)])\<rparr>)"

definition stratum_v2_handle_new_extended_mining_job :: "bool \<Rightarrow> bytes \<Rightarrow> sv2_state \<Rightarrow> sv2_state option" where
  "stratum_v2_handle_new_extended_mining_job alloc_ok payload s =
     (case sv2_parse_new_extended_mining_job alloc_ok payload of
        Inl _ \<Rightarrow> Some s
      | Inr (chan, job) \<Rightarrow>
          if 0 < ext_ntime job then
            (if has_prev_hash (sv2_conn s)
             then stratum_v2_enqueue_ext_job
                    (job\<lparr>ext_prev_hash := conn_prev_hash (sv2_conn s), ext_nbits := prev_hash_nbits (sv2_conn s), ext_clean_jobs := True\<rparr>) s
             else Some (store_ext_pending job s))
          else Some (store_ext_pending job s))"

definition store_pending :: "u32 \<Rightarrow> u32 \<Rightarrow> bytes \<Rightarrow> sv2_state \<Rightarrow> sv2_state" where
  "store_pending job_id ver mroot s =
     s\<lparr>sv2_conn := (sv2_conn s)\<lparr>pending_jobs := (pending_jobs (sv2_conn s))[job_slot job_id :=
         \<lparr>pend_job_id = job_id, pend_version = ver, pend_merkle_root = mroot, pend_valid = True\<rparr>]\<rparr>\<rparr>"

definition stratum_v2_handle_new_mining_job :: "(u32 \<Rightarrow> bool) \<Rightarrow> bytes \<Rightarrow> sv2_state \<Rightarrow> sv2_state option" where
  "stratum_v2_handle_new_mining_job malloc_ok payload s =
     (case sv2_parse_new_mining_job payload of
        Inl _ \<Rightarrow> Some s
      | Inr (chan, job_id, min_ntime, ver, mroot) \<Rightarrow>
          (case min_ntime of
             Some nt \<Rightarrow>
               (if has_prev_hash (sv2_conn s)
                then stratum_v2_enqueue_job (malloc_ok job_id) job_id ver mroot (conn_prev_hash (sv2_conn s)) nt (prev_hash_nbits (sv2_conn s)) True s
                else Some (store_pending job_id ver mroot s))
           | None \<Rightarrow> Some (store_pending job_id ver mroot s)))"

text \<open>
  \<open>SetNewPrevHash\<close>. \<open>release_pending i\<close> is the body that puts the standard job of slot \<open>i\<close> into the queue,
  \<open>release_ext_pending i\<close> the one for the extended job; each is used for the slot of the named job and, on the
  first block of the connection, for every slot that holds another job.
\<close>

definition release_pending :: "(u32 \<Rightarrow> bool) \<Rightarrow> bytes \<Rightarrow> u32 \<Rightarrow> u32 \<Rightarrow> nat \<Rightarrow> sv2_state \<Rightarrow> sv2_state option" where
  "release_pending malloc_ok prev nt nbits i s =
     (let p = pending_jobs (sv2_conn s) ! i
      in map_option (\<lambda>s'. s'\<lparr>sv2_conn := (sv2_conn s')\<lparr>pending_jobs := (pending_jobs (sv2_conn s'))[i := p\<lparr>pend_valid := False\<rparr>]\<rparr>\<rparr>)
           (stratum_v2_enqueue_job (malloc_ok (pend_job_id p)) (pend_job_id p) (pend_version p) (pend_merkle_root p) prev nt nbits True s))"

definition release_ext_pending :: "bytes \<Rightarrow> u32 \<Rightarrow> u32 \<Rightarrow> nat \<Rightarrow> sv2_state \<Rightarrow> sv2_state option" where
  "release_ext_pending prev nt nbits i s =
     (case ext_pending_jobs (sv2_conn s) ! i of
        None \<Rightarrow> Some s
      | Some job \<Rightarrow> stratum_v2_enqueue_ext_job
          (job\<lparr>ext_prev_hash := prev, ext_ntime := nt, ext_nbits := nbits, ext_clean_jobs := True\<rparr>)
          (s\<lparr>sv2_conn := (sv2_conn s)\<lparr>ext_pending_jobs := (ext_pending_jobs (sv2_conn s))[i := None]\<rparr>\<rparr>))"

text \<open>The loops over the slots: \<open>other\<close> tells whether the slot holds a job to release.\<close>

fun release_loop :: "(nat \<Rightarrow> sv2_state \<Rightarrow> bool) \<Rightarrow> (nat \<Rightarrow> sv2_state \<Rightarrow> sv2_state option) \<Rightarrow> nat list \<Rightarrow> sv2_state \<Rightarrow> sv2_state option" where
  "release_loop sel release [] s = Some s"
| "release_loop sel release (i # is) s =
     Option.bind (if sel i s then release i s else Some s) (release_loop sel release is)"

definition pending_at :: "(u32 \<Rightarrow> bool) \<Rightarrow> nat \<Rightarrow> sv2_state \<Rightarrow> bool" where
  "pending_at P i s \<longleftrightarrow> (let p = pending_jobs (sv2_conn s) ! i in pend_valid p \<and> P (pend_job_id p))"

definition ext_pending_at :: "(u32 \<Rightarrow> bool) \<Rightarrow> nat \<Rightarrow> sv2_state \<Rightarrow> bool" where
  "ext_pending_at P i s \<longleftrightarrow> (case ext_pending_jobs (sv2_conn s) ! i of None \<Rightarrow> False | Some j \<Rightarrow> P (ext_job_id j))"

text \<open>The conversion \<open>(uint64_t) networkDifficulty(nbits)\<close>.\<close>

definition double_to_u64 :: "double_value \<Rightarrow> u64 option" where
  "double_to_u64 d = (case d of Finite x \<Rightarrow> if -1 < x \<and> x < 2 ^ 64 then Some (of_int (if 0 \<le> x then \<lfloor>x\<rfloor> else \<lceil>x\<rceil>)) else None | _ \<Rightarrow> None)"

definition stratum_v2_handle_set_new_prev_hash :: "(u32 \<Rightarrow> bool) \<Rightarrow> bytes \<Rightarrow> sv2_state \<Rightarrow> sv2_state option" where
  "stratum_v2_handle_set_new_prev_hash malloc_ok payload s =
     (case sv2_parse_set_new_prev_hash payload of
        Inl _ \<Rightarrow> Some s
      | Inr (chan, job_id, prev, min_ntime, nbits) \<Rightarrow>
          let first_prev_hash = \<not> has_prev_hash (sv2_conn s);
              s0 = s\<lparr>network_nonce_diff := double_to_u64 (networkDifficulty nbits),
                     sv2_conn := (sv2_conn s)\<lparr>conn_prev_hash := prev, prev_hash_ntime := min_ntime, prev_hash_nbits := nbits, has_prev_hash := True\<rparr>\<rparr>;
              slot = job_slot job_id;
              std = release_pending malloc_ok prev min_ntime nbits;
              ext = release_ext_pending prev min_ntime nbits;
              slots = (if first_prev_hash then [0..<SV2_PENDING_JOBS_SIZE] else [])
          in Option.bind (release_loop (pending_at (\<lambda>id. id = job_id)) std [slot] s0) (\<lambda>s1.
             Option.bind (release_loop (pending_at (\<lambda>id. id \<noteq> job_id)) std slots s1) (\<lambda>s2.
             Option.bind (release_loop (ext_pending_at (\<lambda>id. id = job_id)) ext [slot] s2) (\<lambda>s3.
             release_loop (ext_pending_at (\<lambda>id. id \<noteq> job_id)) ext slots s3))))"

definition stratum_v2_handle_set_target :: "bytes \<Rightarrow> sv2_state \<Rightarrow> sv2_state" where
  "stratum_v2_handle_set_target payload s =
     (case sv2_parse_set_target payload of
        Inl _ \<Rightarrow> s
      | Inr (chan, max_target) \<Rightarrow>
          s\<lparr>sv2_conn := (sv2_conn s)\<lparr>conn_target := max_target\<rparr>, pool_difficulty := hash_to_pdiff max_target,
            new_set_mining_difficulty_msg := True\<rparr>)"

text \<open>\<open>now\<close> is \<open>esp_timer_get_time()\<close>; the response time is a \<open>float\<close>.\<close>

definition handle_submit_shares_success :: "int \<Rightarrow> bytes \<Rightarrow> sv2_state \<Rightarrow> sv2_state" where
  "handle_submit_shares_success now payload s =
     (case sv2_parse_submit_shares_success payload of
        Inl _ \<Rightarrow> s
      | Inr (chan, last_sequence_number, accepted_count) \<Rightarrow>
          let slot = unat last_sequence_number mod SV2_SUBMIT_TIMING_SLOTS;
              t = submit_time_us s ! slot;
              s1 = (if 0 < t
                    then s\<lparr>response_time := f32 (f32 (of_int (now - t)) / 1000), response_share_batch := ucast accepted_count,
                           submit_time_us := (submit_time_us s)[slot := 0]\<rparr>
                    else s)
          in s1\<lparr>events := events s1 @ [Shares_Accepted (unat accepted_count)]\<rparr>)"

definition handle_submit_shares_error :: "bytes \<Rightarrow> sv2_state \<Rightarrow> sv2_state" where
  "handle_submit_shares_error payload s =
     (case sv2_parse_submit_shares_error 64 payload of
        Inl _ \<Rightarrow> s
      | Inr (chan, seq_num, error_code) \<Rightarrow> s\<lparr>events := events s @ [Share_Rejected error_code]\<rparr>)"

definition SV2_MSG_NEW_MINING_JOB :: u8 where "SV2_MSG_NEW_MINING_JOB = 0x15"
definition SV2_MSG_NEW_EXTENDED_MINING_JOB :: u8 where "SV2_MSG_NEW_EXTENDED_MINING_JOB = 0x1f"
definition SV2_MSG_SET_NEW_PREV_HASH :: u8 where "SV2_MSG_SET_NEW_PREV_HASH = 0x20"
definition SV2_MSG_SET_TARGET :: u8 where "SV2_MSG_SET_TARGET = 0x21"
definition SV2_MSG_SUBMIT_SHARES_SUCCESS :: u8 where "SV2_MSG_SUBMIT_SHARES_SUCCESS = 0x1c"
definition SV2_MSG_SUBMIT_SHARES_ERROR :: u8 where "SV2_MSG_SUBMIT_SHARES_ERROR = 0x1d"

lemmas sv2_message_types =
  SV2_MSG_NEW_MINING_JOB_def SV2_MSG_NEW_EXTENDED_MINING_JOB_def SV2_MSG_SET_NEW_PREV_HASH_def SV2_MSG_SET_TARGET_def
  SV2_MSG_SUBMIT_SHARES_SUCCESS_def SV2_MSG_SUBMIT_SHARES_ERROR_def

text \<open>
  The dispatch of the receive loop on one frame. \<open>job_malloc_ok\<close> tells for a job number whether the allocations
  for its job succeed, \<open>ext_alloc_ok\<close> whether those of the parser of extended jobs do.
\<close>

record reception_env =
  job_malloc_ok :: "u32 \<Rightarrow> bool"
  ext_alloc_ok :: bool
  clock_us :: int

definition dispatch_frame :: "reception_env \<Rightarrow> u8 \<Rightarrow> bytes \<Rightarrow> sv2_state \<Rightarrow> sv2_state option" where
  "dispatch_frame env typ payload s =
     (if typ = SV2_MSG_NEW_MINING_JOB
        then stratum_v2_handle_new_mining_job (job_malloc_ok env) payload s
      else if typ = SV2_MSG_NEW_EXTENDED_MINING_JOB then stratum_v2_handle_new_extended_mining_job (ext_alloc_ok env) payload s
      else if typ = SV2_MSG_SET_NEW_PREV_HASH then stratum_v2_handle_set_new_prev_hash (job_malloc_ok env) payload s
      else if typ = SV2_MSG_SET_TARGET then Some (stratum_v2_handle_set_target payload s)
      else if typ = SV2_MSG_SUBMIT_SHARES_SUCCESS then Some (handle_submit_shares_success (clock_us env) payload s)
      else if typ = SV2_MSG_SUBMIT_SHARES_ERROR then Some (handle_submit_shares_error payload s)
      else Some s)"

section \<open>The queue under a message\<close>

lemma queue_clear_loop_free_fn: "free_fn (snd (queue_clear_loop q freed)) = free_fn q"
proof (induction q freed rule: queue_clear_loop.induct)
  case (1 q freed)
  obtain e q1 where p: "pop_head q = (e, q1)" by (cases "pop_head q")
  then have "free_fn q1 = free_fn q" by (auto simp: pop_head_def)
  with 1 p show ?case by (subst queue_clear_loop.simps) simp
qed

lemma queue_cleared:
  assumes "queue_invar q"
  obtains q' where "queue_clear q = (queue_contents q, q')" "queue_invar q'" "queue_contents q' = []" "free_fn q' = free_fn q"
  using queue_clear_loop_contents [OF assms, of "[]"] queue_clear_loop_free_fn [of q "[]"]
  by (cases "queue_clear_loop q []") (simp add: queue_clear_def)

lemma queue_put:
  assumes "queue_invar q" "length (queue_contents q) \<noteq> QUEUE_SIZE"
  obtains q' where "queue_enqueue w q = Some q'" "queue_invar q'" "queue_contents q' = queue_contents q @ [(w, free_fn q)]" "free_fn q' = free_fn q"
proof -
  obtain q' where q': "queue_enqueue w q = Some q'" using assms(2) by (auto simp: queue_enqueue_def)
  moreover from q' have "free_fn q' = free_fn q" by (auto simp: queue_enqueue_def split: if_splits)
  ultimately show ?thesis using that enqueue_contents [OF assms(1) q'] enqueue_invar [OF assms(1) q'] by blast
qed

text \<open>The frees that a clean job causes, and the state it leaves.\<close>

definition frees :: "(work \<times> free_function option) list \<Rightarrow> sv2_event list" where
  "frees items = map (\<lambda>(w, f). Freed w f) items @ (if items = [] then [] else [Measurements_Reset])"

lemma put_clean_work:
  assumes "queue_invar (stratum_queue s)"
  obtains q' m where "put_work True df w s = Some (s\<lparr>stratum_queue := q', job_marks := m, events := events s @ frees (queue_contents (stratum_queue s))\<rparr>)"
    "queue_invar q'" "queue_contents q' = [(w, free_fn (stratum_queue s))]" "free_fn q' = free_fn (stratum_queue s)"
proof (cases "count (stratum_queue s) = 0")
  case True
  then have empty: "queue_contents (stratum_queue s) = []" by (simp flip: length_0_conv)
  then have "length (queue_contents (stratum_queue s)) \<noteq> QUEUE_SIZE" by (simp add: QUEUE_SIZE_def)
  from queue_put [OF assms this, of w] obtain q' where q': "queue_enqueue w (stratum_queue s) = Some q'" "queue_invar q'"
    "queue_contents q' = [(w, free_fn (stratum_queue s))]" "free_fn q' = free_fn (stratum_queue s)" unfolding empty by auto
  then have "put_work True df w s = Some (s\<lparr>stratum_queue := q', job_marks := job_marks s, events := events s @ frees (queue_contents (stratum_queue s))\<rparr>)"
    by (simp add: put_work_def True empty frees_def QUEUE_SIZE_def)
  with q' show ?thesis using that by blast
next
  case False
  from queue_cleared [OF assms] obtain q where q: "queue_clear (stratum_queue s) = (queue_contents (stratum_queue s), q)"
    "queue_invar q" "queue_contents q = []" "free_fn q = free_fn (stratum_queue s)" .
  then have "length (queue_contents q) \<noteq> QUEUE_SIZE" by (simp add: QUEUE_SIZE_def)
  from queue_put [OF q(2) this, of w] q obtain q' where q': "queue_enqueue w q = Some q'" "queue_invar q'"
    "queue_contents q' = [(w, free_fn (stratum_queue s))]" "free_fn q' = free_fn (stratum_queue s)" by auto
  have "count q = 0" using q(3) by (simp flip: length_queue_contents)
  moreover have "queue_contents (stratum_queue s) \<noteq> []" using False by (simp flip: length_0_conv)
  ultimately have "put_work True df w s = Some (s\<lparr>stratum_queue := q', job_marks := clear_marks (job_marks s),
      events := events s @ frees (queue_contents (stratum_queue s))\<rparr>)"
    using q(1) q'(1) False by (simp add: put_work_def SYSTEM_clean_jobs_queue_def frees_def QUEUE_SIZE_def)
  with q' show ?thesis using that by blast
qed

text \<open>The block a job is for.\<close>

fun on_tip :: "sv2_conn \<Rightarrow> work \<Rightarrow> bool" where
  "on_tip c (V1_Work _) \<longleftrightarrow> False"
| "on_tip c (V2_Work j) \<longleftrightarrow> std_prev_hash j = conn_prev_hash c \<and> std_nbits j = prev_hash_nbits c"
| "on_tip c (V2_Ext_Work j) \<longleftrightarrow> ext_prev_hash j = conn_prev_hash c \<and> ext_nbits j = prev_hash_nbits c"

definition items :: "sv2_state \<Rightarrow> (work \<times> free_function option) list" where
  "items s = queue_contents (stratum_queue s)"

text \<open>
  A step of the client: it frees the items it takes out of the queue with their own free functions, other
  pending extended jobs properly, and leaves the queue alone or with one job of the newest block.
\<close>

definition tip_step :: "(work \<Rightarrow> bool) \<Rightarrow> sv2_state \<Rightarrow> sv2_state \<Rightarrow> bool" where
  "tip_step new s s' \<longleftrightarrow> queue_invar (stratum_queue s') \<and> free_fn (stratum_queue s') = free_fn (stratum_queue s) \<and>
     (items s' = items s \<or> (\<exists>w. new w \<and> items s' = [(w, free_fn (stratum_queue s))] \<and> on_tip (sv2_conn s') w))"

lemma tip_step_refl: "queue_invar (stratum_queue s) \<Longrightarrow> stratum_queue s' = stratum_queue s \<Longrightarrow> tip_step new s s'"
  by (simp add: tip_step_def items_def)

lemma tip_step_trans:
  "tip_step new s s1 \<Longrightarrow> tip_step new s1 s2 \<Longrightarrow> conn_prev_hash (sv2_conn s2) = conn_prev_hash (sv2_conn s1) \<Longrightarrow>
   prev_hash_nbits (sv2_conn s2) = prev_hash_nbits (sv2_conn s1) \<Longrightarrow> tip_step new s s2"
  unfolding tip_step_def by (auto elim: on_tip.elims)

lemma enqueue_job_step:
  assumes "queue_invar (stratum_queue s)"
  obtains s' where "stratum_v2_enqueue_job ok job_id ver mroot prev nt nbits True s = Some s'" "sv2_conn s' = sv2_conn s"
    "queue_invar (stratum_queue s')" "free_fn (stratum_queue s') = free_fn (stratum_queue s)"
    "items s' = (if ok then [(V2_Work \<lparr>std_job_id = job_id, std_version = ver, std_merkle_root = mroot, std_prev_hash = prev,
       std_ntime = nt, std_nbits = nbits, std_clean_jobs = True\<rparr>, free_fn (stratum_queue s))] else items s)"
    "set (events s') \<subseteq> set (events s) \<union> {Clock_Set nt} \<union> set (frees (items s))"
proof (cases ok)
  case False
  then have "stratum_v2_enqueue_job ok job_id ver mroot prev nt nbits True s = Some s" by (simp add: stratum_v2_enqueue_job_def)
  with assms False show ?thesis by (intro that) (auto simp: subset_iff)
next
  case True
  let ?s = "SYSTEM_notify_new_ntime nt (s\<lparr>work_received := work_received s + 1\<rparr>)"
  let ?w = "V2_Work \<lparr>std_job_id = job_id, std_version = ver, std_merkle_root = mroot, std_prev_hash = prev,
       std_ntime = nt, std_nbits = nbits, std_clean_jobs = True\<rparr>"
  have same: "stratum_queue ?s = stratum_queue s" "sv2_conn ?s = sv2_conn s" "set (events ?s) \<subseteq> set (events s) \<union> {Clock_Set nt}"
    by (auto simp: SYSTEM_notify_new_ntime_def)
  with assms have "queue_invar (stratum_queue ?s)" by simp
  from put_clean_work [OF this, of Free ?w] obtain q' m where
    p: "put_work True Free ?w ?s = Some (?s\<lparr>stratum_queue := q', job_marks := m, events := events ?s @ frees (queue_contents (stratum_queue ?s))\<rparr>)"
      "queue_invar q'" "queue_contents q' = [(?w, free_fn (stratum_queue ?s))]" "free_fn q' = free_fn (stratum_queue ?s)" .
  show ?thesis
    by (rule that [of "?s\<lparr>stratum_queue := q', job_marks := m, events := events ?s @ frees (queue_contents (stratum_queue ?s))\<rparr>"])
      (use p same True in \<open>auto simp: stratum_v2_enqueue_job_def items_def\<close>)
qed

lemma enqueue_ext_job_step:
  assumes "queue_invar (stratum_queue s)" "ext_clean_jobs job"
  obtains s' where "stratum_v2_enqueue_ext_job job s = Some s'" "sv2_conn s' = sv2_conn s"
    "queue_invar (stratum_queue s')" "free_fn (stratum_queue s') = free_fn (stratum_queue s)"
    "items s' = [(V2_Ext_Work job, free_fn (stratum_queue s))]"
    "set (events s') \<subseteq> set (events s) \<union> {Clock_Set (ext_ntime job)} \<union> set (frees (items s))"
proof -
  let ?s = "SYSTEM_notify_new_ntime (ext_ntime job) (s\<lparr>work_received := work_received s + 1\<rparr>)"
  have same: "stratum_queue ?s = stratum_queue s" "sv2_conn ?s = sv2_conn s" "set (events ?s) \<subseteq> set (events s) \<union> {Clock_Set (ext_ntime job)}"
    by (auto simp: SYSTEM_notify_new_ntime_def)
  with assms have "queue_invar (stratum_queue ?s)" by simp
  from put_clean_work [OF this, of Ext_Job_Free "V2_Ext_Work job"] obtain q' m where
    p: "put_work True Ext_Job_Free (V2_Ext_Work job) ?s = Some (?s\<lparr>stratum_queue := q', job_marks := m, events := events ?s @ frees (queue_contents (stratum_queue ?s))\<rparr>)"
      "queue_invar q'" "queue_contents q' = [(V2_Ext_Work job, free_fn (stratum_queue ?s))]" "free_fn q' = free_fn (stratum_queue ?s)" .
  show ?thesis
    by (rule that [of "?s\<lparr>stratum_queue := q', job_marks := m, events := events ?s @ frees (queue_contents (stratum_queue ?s))\<rparr>"])
      (use p same assms(2) in \<open>auto simp: stratum_v2_enqueue_ext_job_def items_def\<close>)
qed

text \<open>
  What a client of channel type \<open>t\<close> keeps: its queue holds only items of its type with the free function for
  them, it holds no pending jobs of the other type, and everything freed so far was freed properly.
\<close>

fun of_channel :: "sv2_channel_type \<Rightarrow> work \<Rightarrow> bool" where
  "of_channel t (V1_Work _) \<longleftrightarrow> False"
| "of_channel t (V2_Work _) \<longleftrightarrow> t = SV2_CHANNEL_STANDARD"
| "of_channel t (V2_Ext_Work _) \<longleftrightarrow> t = SV2_CHANNEL_EXTENDED"

fun channel_free_fn :: "sv2_channel_type \<Rightarrow> free_function option" where
  "channel_free_fn SV2_CHANNEL_EXTENDED = Some Ext_Job_Free"
| "channel_free_fn _ = Some Free"

definition event_proper :: "sv2_event \<Rightarrow> bool" where
  "event_proper e \<longleftrightarrow> (\<forall>w f. e = Freed w f \<longrightarrow> proper_free w f)"

definition client_typed :: "sv2_channel_type \<Rightarrow> sv2_state \<Rightarrow> bool" where
  "client_typed t s \<longleftrightarrow> queue_invar (stratum_queue s) \<and> free_fn (stratum_queue s) = channel_free_fn t \<and>
     (\<forall>(w, f) \<in> set (items s). of_channel t w \<and> f = channel_free_fn t) \<and> (\<forall>e \<in> set (events s). event_proper e) \<and>
     (t = SV2_CHANNEL_EXTENDED \<longrightarrow> (\<forall>p \<in> set (pending_jobs (sv2_conn s)). \<not> pend_valid p)) \<and>
     (t = SV2_CHANNEL_STANDARD \<longrightarrow> (\<forall>p \<in> set (ext_pending_jobs (sv2_conn s)). p = None)) \<and>
     length (pending_jobs (sv2_conn s)) = SV2_PENDING_JOBS_SIZE \<and> length (ext_pending_jobs (sv2_conn s)) = SV2_PENDING_JOBS_SIZE"

lemma of_channel_proper: "of_channel t w \<Longrightarrow> proper_free w (channel_free_fn t)"
  by (cases w; cases t) simp_all

lemma frees_proper: "\<forall>(w, f) \<in> set xs. of_channel t w \<and> f = channel_free_fn t \<Longrightarrow> e \<in> set (frees xs) \<Longrightarrow> event_proper e"
  by (auto simp: frees_def event_proper_def of_channel_proper split: if_splits)

lemma event_proper_simps [simp]:
  "event_proper (Clock_Set n)" "event_proper Measurements_Reset" "event_proper (Shares_Accepted k)" "event_proper (Share_Rejected b)"
  "event_proper (Sent b)" "event_proper (Freed w f) = proper_free w f"
  by (simp_all add: event_proper_def)

lemma job_slot_less [simp]: "job_slot j < SV2_PENDING_JOBS_SIZE"
  by (simp add: job_slot_def SV2_PENDING_JOBS_SIZE_def)

lemma release_loop_keeps:
  assumes "\<And>i s. i \<in> set is \<Longrightarrow> P s \<Longrightarrow> sel i s \<Longrightarrow> \<exists>s'. release i s = Some s' \<and> P s'" and "P s"
  shows "\<exists>s'. release_loop sel release is s = Some s' \<and> P s'"
  using assms
proof (induction "is" arbitrary: s)
  case Nil
  then show ?case by simp
next
  case (Cons i "is")
  have "\<exists>s1. (if sel i s then release i s else Some s) = Some s1 \<and> P s1" using Cons.prems by auto
  then obtain s1 where s1: "(if sel i s then release i s else Some s) = Some s1" "P s1" by blast
  then show ?case using Cons.IH [OF Cons.prems(1), of s1] by simp
qed

definition new_tip :: "bytes \<Rightarrow> u32 \<Rightarrow> u32 \<Rightarrow> sv2_state \<Rightarrow> sv2_state" where
  "new_tip prev nt nbits s = s\<lparr>network_nonce_diff := double_to_u64 (networkDifficulty nbits),
     sv2_conn := (sv2_conn s)\<lparr>conn_prev_hash := prev, prev_hash_ntime := nt, prev_hash_nbits := nbits, has_prev_hash := True\<rparr>\<rparr>"

lemma new_prev_hash_keeps:
  assumes parsed: "sv2_parse_set_new_prev_hash payload = Inr (chan, job_id, prev, nt, nbits)" and P: "P (new_tip prev nt nbits s)"
    and std: "\<And>i s. i < SV2_PENDING_JOBS_SIZE \<Longrightarrow> P s \<Longrightarrow> pend_valid (pending_jobs (sv2_conn s) ! i) \<Longrightarrow>
      \<exists>s'. release_pending ok prev nt nbits i s = Some s' \<and> P s'"
    and ext: "\<And>i s. i < SV2_PENDING_JOBS_SIZE \<Longrightarrow> P s \<Longrightarrow> ext_pending_jobs (sv2_conn s) ! i \<noteq> None \<Longrightarrow>
      \<exists>s'. release_ext_pending prev nt nbits i s = Some s' \<and> P s'"
  shows "\<exists>s'. stratum_v2_handle_set_new_prev_hash ok payload s = Some s' \<and> P s'"
proof -
  let ?slots = "if \<not> has_prev_hash (sv2_conn s) then [0..<SV2_PENDING_JOBS_SIZE] else []"
  have slots: "i \<in> set ?slots \<Longrightarrow> i < SV2_PENDING_JOBS_SIZE" for i by (simp split: if_splits)
  have one: "i \<in> set [job_slot job_id] \<Longrightarrow> i < SV2_PENDING_JOBS_SIZE" for i by simp
  have s: "\<exists>s'. release_loop (pending_at Q) (release_pending ok prev nt nbits) is s = Some s' \<and> P s'"
    if "\<And>i. i \<in> set is \<Longrightarrow> i < SV2_PENDING_JOBS_SIZE" "P s" for Q "is" s
    by (rule release_loop_keeps) (auto intro: that std simp: pending_at_def Let_def)
  have e: "\<exists>s'. release_loop (ext_pending_at Q) (release_ext_pending prev nt nbits) is s = Some s' \<and> P s'"
    if "\<And>i. i \<in> set is \<Longrightarrow> i < SV2_PENDING_JOBS_SIZE" "P s" for Q "is" s
    by (rule release_loop_keeps) (auto intro!: that ext simp: ext_pending_at_def split: option.splits)
  obtain s1 where s1: "release_loop (pending_at (\<lambda>id. id = job_id)) (release_pending ok prev nt nbits) [job_slot job_id] (new_tip prev nt nbits s) = Some s1" "P s1"
    using s [OF one P] by blast
  obtain s2 where s2: "release_loop (pending_at (\<lambda>id. id \<noteq> job_id)) (release_pending ok prev nt nbits)
      (if \<not> has_prev_hash (sv2_conn s) then [0..<SV2_PENDING_JOBS_SIZE] else []) s1 = Some s2" "P s2"
    using s [OF slots s1(2)] by blast
  obtain s3 where s3: "release_loop (ext_pending_at (\<lambda>id. id = job_id)) (release_ext_pending prev nt nbits) [job_slot job_id] s2 = Some s3" "P s3"
    using e [OF one s2(2)] by blast
  obtain s4 where s4: "release_loop (ext_pending_at (\<lambda>id. id \<noteq> job_id)) (release_ext_pending prev nt nbits) ?slots s3 = Some s4" "P s4"
    using e [OF slots s3(2)] by blast
  have "stratum_v2_handle_set_new_prev_hash ok payload s = Some s4"
    using s1(1) s2(1) s3(1) s4(1) unfolding new_tip_def
    by (simp only: stratum_v2_handle_set_new_prev_hash_def parsed sum.case prod.case Let_def bind.bind_lunit)
  with s4(2) show ?thesis by blast
qed

section \<open>Only jobs of the newest block\<close>

definition on_new_tip :: "(work \<times> free_function option) list \<Rightarrow> free_function option \<Rightarrow> bytes \<Rightarrow> u32 \<Rightarrow> sv2_state \<Rightarrow> bool" where
  "on_new_tip old f prev nbits s \<longleftrightarrow> queue_invar (stratum_queue s) \<and> free_fn (stratum_queue s) = f \<and>
     conn_prev_hash (sv2_conn s) = prev \<and> prev_hash_nbits (sv2_conn s) = nbits \<and>
     (items s = old \<or> (\<exists>w. items s = [(w, f)] \<and> on_tip (sv2_conn s) w))"

lemma on_tip_cong:
  "conn_prev_hash c = conn_prev_hash c' \<Longrightarrow> prev_hash_nbits c = prev_hash_nbits c' \<Longrightarrow> on_tip c w = on_tip c' w"
  by (cases w) simp_all

lemma release_pending_tip:
  assumes "on_new_tip old f prev nbits s"
  shows "\<exists>s'. release_pending ok prev nt nbits i s = Some s' \<and> on_new_tip old f prev nbits s'"
proof -
  let ?p = "pending_jobs (sv2_conn s) ! i"
  from assms have q: "queue_invar (stratum_queue s)" by (simp add: on_new_tip_def)
  from enqueue_job_step [OF q, of "ok (pend_job_id ?p)" "pend_job_id ?p" "pend_version ?p" "pend_merkle_root ?p" prev nt nbits]
  obtain s' where s': "stratum_v2_enqueue_job (ok (pend_job_id ?p)) (pend_job_id ?p) (pend_version ?p) (pend_merkle_root ?p) prev nt nbits True s = Some s'"
    "sv2_conn s' = sv2_conn s" "queue_invar (stratum_queue s')" "free_fn (stratum_queue s') = free_fn (stratum_queue s)"
    "items s' = (if ok (pend_job_id ?p) then [(V2_Work \<lparr>std_job_id = pend_job_id ?p, std_version = pend_version ?p, std_merkle_root = pend_merkle_root ?p,
       std_prev_hash = prev, std_ntime = nt, std_nbits = nbits, std_clean_jobs = True\<rparr>, free_fn (stratum_queue s))] else items s)" by blast
  let ?s = "s'\<lparr>sv2_conn := (sv2_conn s')\<lparr>pending_jobs := (pending_jobs (sv2_conn s'))[i := ?p\<lparr>pend_valid := False\<rparr>]\<rparr>\<rparr>"
  have "release_pending ok prev nt nbits i s = Some ?s" using s'(1) by (simp add: release_pending_def Let_def)
  moreover have "items ?s = items s'" by (simp add: items_def)
  moreover have "on_tip (sv2_conn ?s) w = on_tip (sv2_conn s) w" for w using s'(2) by (intro on_tip_cong) simp_all
  ultimately show ?thesis using assms s'(2-5) by (auto simp: on_new_tip_def)
qed

lemma release_ext_pending_tip:
  assumes "on_new_tip old f prev nbits s" "ext_pending_jobs (sv2_conn s) ! i \<noteq> None"
  shows "\<exists>s'. release_ext_pending prev nt nbits i s = Some s' \<and> on_new_tip old f prev nbits s'"
proof -
  obtain job where job: "ext_pending_jobs (sv2_conn s) ! i = Some job" using assms(2) by blast
  let ?s = "s\<lparr>sv2_conn := (sv2_conn s)\<lparr>ext_pending_jobs := (ext_pending_jobs (sv2_conn s))[i := None]\<rparr>\<rparr>"
  let ?job = "job\<lparr>ext_prev_hash := prev, ext_ntime := nt, ext_nbits := nbits, ext_clean_jobs := True\<rparr>"
  have q: "queue_invar (stratum_queue ?s)" "ext_clean_jobs ?job" using assms(1) by (simp_all add: on_new_tip_def)
  from enqueue_ext_job_step [OF q] obtain s' where "stratum_v2_enqueue_ext_job ?job ?s = Some s'" "sv2_conn s' = sv2_conn ?s"
    "queue_invar (stratum_queue s')" "free_fn (stratum_queue s') = free_fn (stratum_queue ?s)"
    "items s' = [(V2_Ext_Work ?job, free_fn (stratum_queue ?s))]" by blast
  then show ?thesis using assms(1) by (auto simp: release_ext_pending_def job on_new_tip_def)
qed

lemma new_mining_job_tip:
  assumes "queue_invar (stratum_queue s)"
  shows "\<exists>s'. stratum_v2_handle_new_mining_job ok payload s = Some s' \<and>
    on_new_tip (items s) (free_fn (stratum_queue s)) (conn_prev_hash (sv2_conn s)) (prev_hash_nbits (sv2_conn s)) s'"
proof (cases "sv2_parse_new_mining_job payload")
  case (Inl e)
  then show ?thesis using assms by (simp add: stratum_v2_handle_new_mining_job_def on_new_tip_def)
next
  case (Inr r)
  obtain chan job_id min_ntime ver mroot where r: "r = (chan, job_id, min_ntime, ver, mroot)" by (cases r) auto
  have store: "on_new_tip (items s) (free_fn (stratum_queue s)) (conn_prev_hash (sv2_conn s)) (prev_hash_nbits (sv2_conn s)) (store_pending job_id ver mroot s)"
    using assms by (simp add: on_new_tip_def store_pending_def items_def)
  show ?thesis
  proof (cases "min_ntime = None \<or> \<not> has_prev_hash (sv2_conn s)")
    case True
    then show ?thesis using store Inr r by (auto simp: stratum_v2_handle_new_mining_job_def split: option.splits)
  next
    case False
    then obtain nt where nt: "min_ntime = Some nt" by auto
    from enqueue_job_step [OF assms, of "ok job_id" job_id ver mroot "conn_prev_hash (sv2_conn s)" nt "prev_hash_nbits (sv2_conn s)"]
    obtain s' where "stratum_v2_enqueue_job (ok job_id) job_id ver mroot (conn_prev_hash (sv2_conn s)) nt (prev_hash_nbits (sv2_conn s)) True s = Some s'"
      "sv2_conn s' = sv2_conn s" "queue_invar (stratum_queue s')" "free_fn (stratum_queue s') = free_fn (stratum_queue s)"
      "items s' = (if ok job_id then [(V2_Work \<lparr>std_job_id = job_id, std_version = ver, std_merkle_root = mroot,
         std_prev_hash = conn_prev_hash (sv2_conn s), std_ntime = nt, std_nbits = prev_hash_nbits (sv2_conn s), std_clean_jobs = True\<rparr>,
         free_fn (stratum_queue s))] else items s)" by blast
    then show ?thesis
      using Inr r nt False by (simp add: stratum_v2_handle_new_mining_job_def on_new_tip_def)
  qed
qed

lemma new_extended_mining_job_tip:
  assumes "queue_invar (stratum_queue s)"
  shows "\<exists>s'. stratum_v2_handle_new_extended_mining_job ok payload s = Some s' \<and>
    on_new_tip (items s) (free_fn (stratum_queue s)) (conn_prev_hash (sv2_conn s)) (prev_hash_nbits (sv2_conn s)) s'"
proof (cases "sv2_parse_new_extended_mining_job ok payload")
  case (Inl e)
  then show ?thesis using assms by (simp add: stratum_v2_handle_new_extended_mining_job_def on_new_tip_def)
next
  case (Inr r)
  obtain chan job where r: "r = (chan, job)" by (cases r)
  have store: "on_new_tip (items s) (free_fn (stratum_queue s)) (conn_prev_hash (sv2_conn s)) (prev_hash_nbits (sv2_conn s)) (store_ext_pending job s)"
    using assms by (simp add: on_new_tip_def store_ext_pending_def items_def Let_def)
  show ?thesis
  proof (cases "ext_ntime job > 0 \<and> has_prev_hash (sv2_conn s)")
    case False
    then show ?thesis using store Inr r by (auto simp: stratum_v2_handle_new_extended_mining_job_def)
  next
    case True
    let ?job = "job\<lparr>ext_prev_hash := conn_prev_hash (sv2_conn s), ext_nbits := prev_hash_nbits (sv2_conn s), ext_clean_jobs := True\<rparr>"
    from enqueue_ext_job_step [OF assms, of ?job] obtain s' where "stratum_v2_enqueue_ext_job ?job s = Some s'" "sv2_conn s' = sv2_conn s"
      "queue_invar (stratum_queue s')" "free_fn (stratum_queue s') = free_fn (stratum_queue s)"
      "items s' = [(V2_Ext_Work ?job, free_fn (stratum_queue s))]" by auto
    then show ?thesis using Inr r True by (simp add: stratum_v2_handle_new_extended_mining_job_def on_new_tip_def)
  qed
qed

lemma set_new_prev_hash_tip:
  assumes "queue_invar (stratum_queue s)"
  shows "\<exists>s' prev nbits. stratum_v2_handle_set_new_prev_hash ok payload s = Some s' \<and> on_new_tip (items s) (free_fn (stratum_queue s)) prev nbits s'"
proof (cases "sv2_parse_set_new_prev_hash payload")
  case (Inl e)
  then show ?thesis using assms by (auto simp: stratum_v2_handle_set_new_prev_hash_def on_new_tip_def)
next
  case (Inr r)
  obtain chan job_id prev nt nbits where r: "r = (chan, job_id, prev, nt, nbits)" by (cases r) auto
  have "on_new_tip (items s) (free_fn (stratum_queue s)) prev nbits (new_tip prev nt nbits s)"
    using assms by (simp add: on_new_tip_def new_tip_def items_def)
  then have "\<exists>s'. stratum_v2_handle_set_new_prev_hash ok payload s = Some s' \<and> on_new_tip (items s) (free_fn (stratum_queue s)) prev nbits s'"
    by (rule new_prev_hash_keeps [OF Inr [unfolded r]]) (auto intro: release_pending_tip release_ext_pending_tip)
  then show ?thesis by blast
qed

text \<open>
  C6. Whatever frame the pool sends, handling it never blocks on the queue, and leaves the queue either
  as it was or with a single job, of the block of the latest \<open>SetNewPrevHash\<close>: its previous hash and target.
\<close>

theorem frame_keeps_newest_block:
  assumes "queue_invar (stratum_queue s)"
  shows "\<exists>s'. dispatch_frame env typ payload s = Some s' \<and> queue_invar (stratum_queue s') \<and>
    (items s' = items s \<or> (\<exists>w. items s' = [(w, free_fn (stratum_queue s))] \<and> on_tip (sv2_conn s') w))"
proof -
  have same: "queue_invar (stratum_queue s') \<and> items s' = items s" if "stratum_queue s' = stratum_queue s" for s'
    using that assms by (simp add: items_def)
  have "stratum_queue (stratum_v2_handle_set_target payload s) = stratum_queue s"
    "stratum_queue (handle_submit_shares_success (clock_us env) payload s) = stratum_queue s"
    "stratum_queue (handle_submit_shares_error payload s) = stratum_queue s"
    by (simp_all add: stratum_v2_handle_set_target_def handle_submit_shares_success_def handle_submit_shares_error_def Let_def
        split: sum.split prod.split)
  note quiet = this [THEN same]
  have tip: ?thesis if "\<exists>s'. dispatch_frame env typ payload s = Some s' \<and> on_new_tip (items s) (free_fn (stratum_queue s)) prev nbits s'" for prev nbits
    using that by (auto simp: on_new_tip_def)
  consider "typ = SV2_MSG_NEW_MINING_JOB" | "typ = SV2_MSG_NEW_EXTENDED_MINING_JOB" | "typ = SV2_MSG_SET_NEW_PREV_HASH"
    | "typ = SV2_MSG_SET_TARGET" | "typ = SV2_MSG_SUBMIT_SHARES_SUCCESS" | "typ = SV2_MSG_SUBMIT_SHARES_ERROR"
    | "typ \<notin> {SV2_MSG_NEW_MINING_JOB, SV2_MSG_NEW_EXTENDED_MINING_JOB, SV2_MSG_SET_NEW_PREV_HASH, SV2_MSG_SET_TARGET,
        SV2_MSG_SUBMIT_SHARES_SUCCESS, SV2_MSG_SUBMIT_SHARES_ERROR}" by blast
  then show ?thesis
  proof cases
    case 1
    then show ?thesis using tip new_mining_job_tip [OF assms, of "job_malloc_ok env" payload] by (simp add: dispatch_frame_def)
  next
    case 2
    then show ?thesis using tip new_extended_mining_job_tip [OF assms, of "ext_alloc_ok env" payload]
      by (simp add: dispatch_frame_def sv2_message_types)
  next
    case 3
    then show ?thesis using tip set_new_prev_hash_tip [OF assms, of "job_malloc_ok env" payload]
      by (auto simp: dispatch_frame_def sv2_message_types)
  qed (use quiet assms in \<open>auto simp: dispatch_frame_def sv2_message_types\<close>)
qed

section \<open>Types on a channel\<close>

text \<open>A change of the connection that adds no pending job of the wrong type.\<close>

lemma typed_enqueue:
  assumes "client_typed t s" "sv2_conn s' = sv2_conn s" "queue_invar (stratum_queue s')"
    "free_fn (stratum_queue s') = free_fn (stratum_queue s)"
    "items s' = items s \<or> (\<exists>w. items s' = [(w, free_fn (stratum_queue s))] \<and> of_channel t w)"
    "set (events s') \<subseteq> set (events s) \<union> {Clock_Set nt} \<union> set (frees (items s))"
  shows "client_typed t s'"
proof -
  have typed: "\<forall>(w, f) \<in> set (items s). of_channel t w \<and> f = channel_free_fn t"
    and old: "\<forall>e \<in> set (events s). event_proper e" and f: "free_fn (stratum_queue s) = channel_free_fn t"
    using assms(1) by (simp_all add: client_typed_def)
  have "\<forall>e \<in> set (events s'). event_proper e"
    using assms(6) old frees_proper [OF typed] by (auto dest!: subsetD)
  moreover have "\<forall>(w, f) \<in> set (items s'). of_channel t w \<and> f = channel_free_fn t"
    using assms(5) typed f by auto
  ultimately show ?thesis using assms(1-4) by (simp add: client_typed_def)
qed

lemma typed_enqueue_job:
  assumes "client_typed SV2_CHANNEL_STANDARD s"
  shows "\<exists>s'. stratum_v2_enqueue_job ok job_id ver mroot prev nt nbits True s = Some s' \<and> client_typed SV2_CHANNEL_STANDARD s' \<and> sv2_conn s' = sv2_conn s"
proof -
  have q: "queue_invar (stratum_queue s)" using assms by (simp add: client_typed_def)
  from enqueue_job_step [OF q, of ok job_id ver mroot prev nt nbits] obtain s' where
    s': "stratum_v2_enqueue_job ok job_id ver mroot prev nt nbits True s = Some s'" "sv2_conn s' = sv2_conn s"
      "queue_invar (stratum_queue s')" "free_fn (stratum_queue s') = free_fn (stratum_queue s)"
      "items s' = (if ok then [(V2_Work \<lparr>std_job_id = job_id, std_version = ver, std_merkle_root = mroot, std_prev_hash = prev,
         std_ntime = nt, std_nbits = nbits, std_clean_jobs = True\<rparr>, free_fn (stratum_queue s))] else items s)"
      "set (events s') \<subseteq> set (events s) \<union> {Clock_Set nt} \<union> set (frees (items s))" by blast
  have "client_typed SV2_CHANNEL_STANDARD s'"
    by (rule typed_enqueue [OF assms s'(2-4) _ s'(6)]) (use s'(5) in auto)
  with s'(1,2) show ?thesis by blast
qed

lemma typed_enqueue_ext_job:
  assumes "client_typed SV2_CHANNEL_EXTENDED s" "ext_clean_jobs job"
  shows "\<exists>s'. stratum_v2_enqueue_ext_job job s = Some s' \<and> client_typed SV2_CHANNEL_EXTENDED s' \<and> sv2_conn s' = sv2_conn s"
proof -
  have q: "queue_invar (stratum_queue s)" using assms by (simp add: client_typed_def)
  from enqueue_ext_job_step [OF q assms(2)] obtain s' where
    s': "stratum_v2_enqueue_ext_job job s = Some s'" "sv2_conn s' = sv2_conn s"
      "queue_invar (stratum_queue s')" "free_fn (stratum_queue s') = free_fn (stratum_queue s)"
      "items s' = [(V2_Ext_Work job, free_fn (stratum_queue s))]"
      "set (events s') \<subseteq> set (events s) \<union> {Clock_Set (ext_ntime job)} \<union> set (frees (items s))" by blast
  have "client_typed SV2_CHANNEL_EXTENDED s'"
    by (rule typed_enqueue [OF assms(1) s'(2-4) _ s'(6)]) (use s'(5) in auto)
  with s'(1,2) show ?thesis by blast
qed

lemma all_set_update: "\<forall>x \<in> set xs. Q x \<Longrightarrow> Q y \<Longrightarrow> \<forall>x \<in> set (xs[i := y]). Q x"
  using set_update_subset_insert [of xs i y] by blast

lemma typed_conn_change:
  assumes "client_typed t s" "stratum_queue s' = stratum_queue s" "\<forall>e \<in> set (events s'). event_proper e"
    "length (pending_jobs (sv2_conn s')) = SV2_PENDING_JOBS_SIZE" "length (ext_pending_jobs (sv2_conn s')) = SV2_PENDING_JOBS_SIZE"
    "t = SV2_CHANNEL_EXTENDED \<Longrightarrow> \<forall>p \<in> set (pending_jobs (sv2_conn s')). \<not> pend_valid p"
    "t = SV2_CHANNEL_STANDARD \<Longrightarrow> \<forall>p \<in> set (ext_pending_jobs (sv2_conn s')). p = None"
  shows "client_typed t s'"
  using assms by (auto simp: client_typed_def items_def)

lemma release_pending_typed:
  assumes "client_typed t s" "t = SV2_CHANNEL_STANDARD \<or> t = SV2_CHANNEL_EXTENDED" "i < SV2_PENDING_JOBS_SIZE" "pend_valid (pending_jobs (sv2_conn s) ! i)"
  shows "\<exists>s'. release_pending ok prev nt nbits i s = Some s' \<and> client_typed t s'"
proof -
  let ?p = "pending_jobs (sv2_conn s) ! i"
  have "?p \<in> set (pending_jobs (sv2_conn s))" using assms(1,3) by (simp add: client_typed_def)
  with assms have t: "t = SV2_CHANNEL_STANDARD" by (auto simp: client_typed_def)
  from typed_enqueue_job [OF assms(1) [unfolded t], of "ok (pend_job_id ?p)" "pend_job_id ?p" "pend_version ?p" "pend_merkle_root ?p" prev nt nbits]
  obtain s' where s': "stratum_v2_enqueue_job (ok (pend_job_id ?p)) (pend_job_id ?p) (pend_version ?p) (pend_merkle_root ?p) prev nt nbits True s = Some s'"
    "client_typed SV2_CHANNEL_STANDARD s'" by blast
  let ?s = "s'\<lparr>sv2_conn := (sv2_conn s')\<lparr>pending_jobs := (pending_jobs (sv2_conn s'))[i := ?p\<lparr>pend_valid := False\<rparr>]\<rparr>\<rparr>"
  have "release_pending ok prev nt nbits i s = Some ?s" using s'(1) by (simp add: release_pending_def Let_def)
  moreover have "client_typed t ?s"
    unfolding t by (rule typed_conn_change [OF s'(2)]) (use s'(2) in \<open>auto simp: client_typed_def\<close>)
  ultimately show ?thesis by blast
qed

lemma release_ext_pending_typed:
  assumes "client_typed t s" "t = SV2_CHANNEL_STANDARD \<or> t = SV2_CHANNEL_EXTENDED" "i < SV2_PENDING_JOBS_SIZE" "ext_pending_jobs (sv2_conn s) ! i \<noteq> None"
  shows "\<exists>s'. release_ext_pending prev nt nbits i s = Some s' \<and> client_typed t s'"
proof -
  obtain job where job: "ext_pending_jobs (sv2_conn s) ! i = Some job" using assms(4) by blast
  have "Some job \<in> set (ext_pending_jobs (sv2_conn s))" using assms(1,3) job by (metis client_typed_def nth_mem)
  with assms have t: "t = SV2_CHANNEL_EXTENDED" by (auto simp: client_typed_def)
  let ?s = "s\<lparr>sv2_conn := (sv2_conn s)\<lparr>ext_pending_jobs := (ext_pending_jobs (sv2_conn s))[i := None]\<rparr>\<rparr>"
  let ?job = "job\<lparr>ext_prev_hash := prev, ext_ntime := nt, ext_nbits := nbits, ext_clean_jobs := True\<rparr>"
  have "client_typed SV2_CHANNEL_EXTENDED ?s"
    by (rule typed_conn_change [OF assms(1) [unfolded t]]) (use assms(1) t in \<open>auto simp: client_typed_def\<close>)
  from typed_enqueue_ext_job [OF this, of ?job] show ?thesis by (auto simp: release_ext_pending_def job t)
qed

text \<open>
  On a channel whose pool only sends jobs of the channel's type, every frame keeps the queue and the
  pending jobs of that type, and everything that is freed is freed with the function for its type.
\<close>

lemma channel_types_kept:
  assumes "client_typed t s" "t = SV2_CHANNEL_STANDARD \<or> t = SV2_CHANNEL_EXTENDED"
    and "t = SV2_CHANNEL_STANDARD \<Longrightarrow> typ \<noteq> SV2_MSG_NEW_EXTENDED_MINING_JOB"
    and "t = SV2_CHANNEL_EXTENDED \<Longrightarrow> typ \<noteq> SV2_MSG_NEW_MINING_JOB"
  shows "\<exists>s'. dispatch_frame env typ payload s = Some s' \<and> client_typed t s'"
proof -
  note typed = assms(1)
  consider "typ = SV2_MSG_NEW_MINING_JOB" | "typ = SV2_MSG_NEW_EXTENDED_MINING_JOB" | "typ = SV2_MSG_SET_NEW_PREV_HASH"
    | "typ = SV2_MSG_SET_TARGET" | "typ = SV2_MSG_SUBMIT_SHARES_SUCCESS" | "typ = SV2_MSG_SUBMIT_SHARES_ERROR"
    | "typ \<notin> {SV2_MSG_NEW_MINING_JOB, SV2_MSG_NEW_EXTENDED_MINING_JOB, SV2_MSG_SET_NEW_PREV_HASH, SV2_MSG_SET_TARGET,
        SV2_MSG_SUBMIT_SHARES_SUCCESS, SV2_MSG_SUBMIT_SHARES_ERROR}" by blast
  then show ?thesis
  proof cases
    case 1
    then have t: "t = SV2_CHANNEL_STANDARD" using assms(2,4) by blast
    have "client_typed t (store_pending job_id ver mroot s)" for job_id ver mroot
      by (rule typed_conn_change [OF typed]) (use typed t in \<open>auto simp: client_typed_def store_pending_def\<close>)
    moreover have "\<exists>s'. stratum_v2_enqueue_job ok job_id ver mroot prev nt nbits True s = Some s' \<and> client_typed t s'"
      for ok job_id ver mroot prev nt nbits
      using typed_enqueue_job [of s ok job_id ver mroot prev nt nbits] typed t by blast
    ultimately show ?thesis
      using 1 typed by (auto simp: dispatch_frame_def stratum_v2_handle_new_mining_job_def split: sum.split prod.split option.split)
  next
    case 2
    then have t: "t = SV2_CHANNEL_EXTENDED" using assms(2,3) by blast
    have "client_typed t (store_ext_pending job s)" for job
      by (rule typed_conn_change [OF typed]) (use typed t in \<open>auto simp: client_typed_def store_ext_pending_def Let_def split: option.splits\<close>)
    moreover have "\<exists>s'. stratum_v2_enqueue_ext_job job s = Some s' \<and> client_typed t s'" if "ext_clean_jobs job" for job
      using typed_enqueue_ext_job [of s job] that typed t by blast
    ultimately show ?thesis
      using 2 typed by (auto simp: dispatch_frame_def sv2_message_types stratum_v2_handle_new_extended_mining_job_def split: sum.split prod.split)
  next
    case 3
    show ?thesis
    proof (cases "sv2_parse_set_new_prev_hash payload")
      case (Inl e)
      then show ?thesis using 3 typed by (simp add: dispatch_frame_def sv2_message_types stratum_v2_handle_set_new_prev_hash_def)
    next
      case (Inr r)
      obtain chan job_id prev nt nbits where r: "r = (chan, job_id, prev, nt, nbits)" by (cases r) auto
      have "client_typed t (new_tip prev nt nbits s)"
        by (rule typed_conn_change [OF typed]) (use typed in \<open>auto simp: client_typed_def new_tip_def\<close>)
      from new_prev_hash_keeps [OF Inr [unfolded r], of "client_typed t", OF this] show ?thesis
        using 3 release_pending_typed [OF _ assms(2)] release_ext_pending_typed [OF _ assms(2)]
        by (simp add: dispatch_frame_def sv2_message_types)
    qed
  next
    case 4
    have "client_typed t (stratum_v2_handle_set_target payload s)"
      by (rule typed_conn_change [OF typed]) (use typed in \<open>auto simp: client_typed_def stratum_v2_handle_set_target_def split: sum.splits prod.splits\<close>)
    then show ?thesis using 4 by (simp add: dispatch_frame_def sv2_message_types)
  next
    case 5
    have "client_typed t (handle_submit_shares_success (clock_us env) payload s)"
      by (rule typed_conn_change [OF typed]) (use typed in \<open>auto simp: client_typed_def handle_submit_shares_success_def Let_def split: sum.splits prod.splits if_splits\<close>)
    then show ?thesis using 5 by (simp add: dispatch_frame_def sv2_message_types)
  next
    case 6
    have "client_typed t (handle_submit_shares_error payload s)"
      by (rule typed_conn_change [OF typed]) (use typed in \<open>auto simp: client_typed_def handle_submit_shares_error_def split: sum.splits prod.splits\<close>)
    then show ?thesis using 6 by (simp add: dispatch_frame_def sv2_message_types)
  qed (use typed in \<open>auto simp: dispatch_frame_def sv2_message_types\<close>)
qed

section \<open>Every job is accounted for\<close>

text \<open>
  What has been freed so far, and the account of the jobs since \<open>work_received\<close> was \<open>n\<close> and the jobs freed before and the ones
  in the queue made up \<open>m\<close>: each of the jobs of \<open>m\<close> and of those that were put into the queue since, which \<open>work_received\<close>
  counts, has been freed exactly once, with the function it is tagged with, or is still in the queue. Nothing else has
  been freed but extended jobs that were waiting for their block, and those only on an extended channel.
\<close>

fun freed_of :: "sv2_event list \<Rightarrow> (work \<times> free_function option) list" where
  "freed_of [] = []"
| "freed_of (Freed w f # es) = (w, f) # freed_of es"
| "freed_of (_ # es) = freed_of es"

type_synonym account = "u64 \<times> (work \<times> free_function option) multiset"

definition account_of :: "sv2_state \<Rightarrow> account" where
  "account_of s = (work_received s, mset (freed_of (events s)) + mset (items s))"

definition jobs_accounted :: "account \<Rightarrow> sv2_channel_type \<Rightarrow> sv2_state \<Rightarrow> bool" where
  "jobs_accounted n0 t s \<longleftrightarrow> (\<exists>queued replaced. work_received s = fst n0 + of_nat (length queued) \<and>
     mset (freed_of (events s)) + mset (items s) = snd n0 + mset queued + mset replaced \<and>
     (\<forall>x \<in> set replaced. t = SV2_CHANNEL_EXTENDED \<and> (\<exists>j. x = (V2_Ext_Work j, Some Ext_Job_Free))))"

lemma accounted_now: "jobs_accounted (account_of s) t s"
  by (simp add: jobs_accounted_def account_of_def)

lemma freed_of_append [simp]: "freed_of (es @ fs) = freed_of es @ freed_of fs"
  by (induction es rule: freed_of.induct) simp_all

lemma freed_of_map [simp]: "freed_of (map (\<lambda>(w, f). Freed w f) xs) = xs"
  by (induction xs) auto

lemma freed_of_frees [simp]: "freed_of (frees xs) = xs"
  by (simp add: frees_def)

lemma accounted_same:
  "jobs_accounted n0 t s \<Longrightarrow> freed_of (events s') = freed_of (events s) \<Longrightarrow> stratum_queue s' = stratum_queue s \<Longrightarrow>
   work_received s' = work_received s \<Longrightarrow> jobs_accounted n0 t s'"
  by (simp add: jobs_accounted_def items_def)

lemma accounted_moved:
  assumes "jobs_accounted n0 t s" "work_received s' = work_received s + 1"
    "mset (freed_of (events s')) + mset (items s') = mset (freed_of (events s)) + mset (items s) + {#x#}"
  shows "jobs_accounted n0 t s'"
proof -
  obtain queued replaced where "work_received s = fst n0 + of_nat (length queued)"
    "mset (freed_of (events s)) + mset (items s) = snd n0 + mset queued + mset replaced"
    "\<forall>x \<in> set replaced. t = SV2_CHANNEL_EXTENDED \<and> (\<exists>j. x = (V2_Ext_Work j, Some Ext_Job_Free))"
    using assms(1) unfolding jobs_accounted_def by blast
  then show ?thesis
    using assms(2,3) unfolding jobs_accounted_def by (intro exI [of _ "queued @ [x]"] exI [of _ replaced]) (simp add: ac_simps)
qed

lemma accounted_replaced:
  assumes "jobs_accounted n0 SV2_CHANNEL_EXTENDED s" "work_received s' = work_received s"
    "mset (freed_of (events s')) + mset (items s') = mset (freed_of (events s)) + mset (items s) + {#(V2_Ext_Work j, Some Ext_Job_Free)#}"
  shows "jobs_accounted n0 SV2_CHANNEL_EXTENDED s'"
proof -
  obtain queued replaced where "work_received s = fst n0 + of_nat (length queued)"
    "mset (freed_of (events s)) + mset (items s) = snd n0 + mset queued + mset replaced"
    "\<forall>x \<in> set replaced. \<exists>j. x = (V2_Ext_Work j, Some Ext_Job_Free)"
    using assms(1) unfolding jobs_accounted_def by blast
  then show ?thesis
    using assms(2,3) unfolding jobs_accounted_def
    by (intro exI [of _ queued] exI [of _ "replaced @ [(V2_Ext_Work j, Some Ext_Job_Free)]"]) (auto simp: ac_simps)
qed

lemma put_clean_accounted:
  assumes "jobs_accounted n0 t s" "queue_invar (stratum_queue s)" "stratum_queue s1 = stratum_queue s"
    "freed_of (events s1) = freed_of (events s)" "work_received s1 = work_received s + 1" "put_work True df w s1 = Some s'"
  shows "jobs_accounted n0 t s'"
proof -
  obtain q' m where "s' = s1\<lparr>stratum_queue := q', job_marks := m, events := events s1 @ frees (queue_contents (stratum_queue s1))\<rparr>"
    "queue_contents q' = [(w, free_fn (stratum_queue s1))]"
    using put_clean_work [of s1 df w] assms(2,3,6) by (metis option.inject)
  then show ?thesis
    using assms(3-5) by (intro accounted_moved [OF assms(1)]) (simp_all add: items_def)
qed

lemma enqueue_job_accounted:
  assumes "jobs_accounted n0 t s" "queue_invar (stratum_queue s)" "stratum_v2_enqueue_job ok job_id ver mroot prev nt nbits True s = Some s'"
  shows "jobs_accounted n0 t s'"
proof (cases ok)
  case True
  let ?s = "SYSTEM_notify_new_ntime nt (s\<lparr>work_received := work_received s + 1\<rparr>)"
  have "stratum_queue ?s = stratum_queue s" "freed_of (events ?s) = freed_of (events s)" "work_received ?s = work_received s + 1"
    by (simp_all add: SYSTEM_notify_new_ntime_def)
  then show ?thesis
    using assms(3) True by (auto simp: stratum_v2_enqueue_job_def intro: put_clean_accounted [OF assms(1,2)])
qed (use assms in \<open>simp add: stratum_v2_enqueue_job_def\<close>)

lemma enqueue_ext_job_accounted:
  assumes "jobs_accounted n0 t s" "queue_invar (stratum_queue s)" "ext_clean_jobs job" "stratum_v2_enqueue_ext_job job s = Some s'"
  shows "jobs_accounted n0 t s'"
proof -
  let ?s = "SYSTEM_notify_new_ntime (ext_ntime job) (s\<lparr>work_received := work_received s + 1\<rparr>)"
  have "stratum_queue ?s = stratum_queue s" "freed_of (events ?s) = freed_of (events s)" "work_received ?s = work_received s + 1"
    by (simp_all add: SYSTEM_notify_new_ntime_def)
  then show ?thesis
    using assms(3,4) by (auto simp: stratum_v2_enqueue_ext_job_def intro: put_clean_accounted [OF assms(1,2)])
qed

lemma store_ext_pending_accounted:
  assumes "jobs_accounted n0 t s" "client_typed t s" "t = SV2_CHANNEL_EXTENDED"
  shows "jobs_accounted n0 t (store_ext_pending job s)"
proof (cases "ext_pending_jobs (sv2_conn s) ! job_slot (ext_job_id job)")
  case None
  then show ?thesis by (intro accounted_same [OF assms(1)]) (simp_all add: store_ext_pending_def Let_def)
next
  case (Some j)
  then show ?thesis
    using assms(1) unfolding assms(3)
    by (elim accounted_replaced [where j = j]) (simp_all add: store_ext_pending_def items_def Let_def)
qed

lemma new_job_accounted:
  assumes "jobs_accounted n0 t s" "queue_invar (stratum_queue s)" "stratum_v2_handle_new_mining_job ok payload s = Some s'"
  shows "jobs_accounted n0 t s'"
  using assms(3) enqueue_job_accounted [OF assms(1,2)] accounted_same [OF assms(1)]
  by (auto simp: stratum_v2_handle_new_mining_job_def store_pending_def assms(1) split: sum.splits prod.splits option.splits if_splits)

lemma new_ext_job_accounted:
  assumes "jobs_accounted n0 t s" "client_typed t s" "t = SV2_CHANNEL_EXTENDED" "stratum_v2_handle_new_extended_mining_job ok payload s = Some s'"
  shows "jobs_accounted n0 t s'"
proof -
  have q: "queue_invar (stratum_queue s)" using assms(2) by (simp add: client_typed_def)
  have "jobs_accounted n0 t s'" if "stratum_v2_enqueue_ext_job (job\<lparr>ext_prev_hash := h, ext_nbits := b, ext_clean_jobs := True\<rparr>) s = Some s'" for job h b
    using that by (intro enqueue_ext_job_accounted [OF assms(1) q]) simp_all
  then show ?thesis
    using assms(1,4) store_ext_pending_accounted [OF assms(1-3)]
    by (auto simp: stratum_v2_handle_new_extended_mining_job_def split: sum.splits prod.splits if_splits)
qed

lemma release_pending_accounted:
  assumes "jobs_accounted n0 t s" "queue_invar (stratum_queue s)" "release_pending ok prev nt nbits i s = Some s'"
  shows "jobs_accounted n0 t s'"
  using assms(3) by (auto simp: release_pending_def Let_def intro: accounted_same [OF enqueue_job_accounted [OF assms(1,2)]])

lemma release_ext_pending_accounted:
  assumes "jobs_accounted n0 t s" "queue_invar (stratum_queue s)" "release_ext_pending prev nt nbits i s = Some s'"
  shows "jobs_accounted n0 t s'"
proof (cases "ext_pending_jobs (sv2_conn s) ! i")
  case (Some job)
  let ?s = "s\<lparr>sv2_conn := (sv2_conn s)\<lparr>ext_pending_jobs := (ext_pending_jobs (sv2_conn s))[i := None]\<rparr>\<rparr>"
  have "jobs_accounted n0 t ?s" by (rule accounted_same [OF assms(1)]) simp_all
  then show ?thesis
    using assms(2,3) Some by (auto simp: release_ext_pending_def elim!: enqueue_ext_job_accounted [of n0 t ?s, rotated 3])
qed (use assms in \<open>simp add: release_ext_pending_def\<close>)

lemma dispatch_accounted:
  assumes "jobs_accounted n0 t s" "client_typed t s" "t = SV2_CHANNEL_STANDARD \<or> t = SV2_CHANNEL_EXTENDED"
    and "t = SV2_CHANNEL_STANDARD \<Longrightarrow> typ \<noteq> SV2_MSG_NEW_EXTENDED_MINING_JOB"
    and "dispatch_frame env typ payload s = Some s'"
  shows "jobs_accounted n0 t s'"
proof -
  have q: "queue_invar (stratum_queue s)" using assms(2) by (simp add: client_typed_def)
  have prev: "jobs_accounted n0 t s'" if new: "stratum_v2_handle_set_new_prev_hash (job_malloc_ok env) payload s = Some s'"
  proof (cases "sv2_parse_set_new_prev_hash payload")
    case (Inr r)
    obtain chan job_id prev nt nbits where r: "r = (chan, job_id, prev, nt, nbits)" by (cases r) auto
    let ?P = "\<lambda>s. client_typed t s \<and> jobs_accounted n0 t s"
    have "client_typed t (new_tip prev nt nbits s)"
      by (rule typed_conn_change [OF assms(2)]) (use assms(2) in \<open>auto simp: client_typed_def new_tip_def\<close>)
    moreover have "jobs_accounted n0 t (new_tip prev nt nbits s)" by (rule accounted_same [OF assms(1)]) (simp_all add: new_tip_def)
    moreover have "\<exists>s'. release_pending (job_malloc_ok env) prev nt nbits i s = Some s' \<and> ?P s'"
      if "i < SV2_PENDING_JOBS_SIZE" "?P s" "pend_valid (pending_jobs (sv2_conn s) ! i)" for i s
      using release_pending_typed [OF _ assms(3) that(1), of s] release_pending_accounted [of n0 t s] that by (metis client_typed_def)
    moreover have "\<exists>s'. release_ext_pending prev nt nbits i s = Some s' \<and> ?P s'"
      if "i < SV2_PENDING_JOBS_SIZE" "?P s" "ext_pending_jobs (sv2_conn s) ! i \<noteq> None" for i s
      using release_ext_pending_typed [OF _ assms(3) that(1), of s] release_ext_pending_accounted [of n0 t s] that by (metis client_typed_def)
    ultimately have "\<exists>s'. stratum_v2_handle_set_new_prev_hash (job_malloc_ok env) payload s = Some s' \<and> ?P s'"
      using new_prev_hash_keeps [OF Inr [unfolded r], of ?P] by blast
    then show ?thesis using new by simp
  qed (use new assms(1) in \<open>simp add: stratum_v2_handle_set_new_prev_hash_def\<close>)
  have quiet: "jobs_accounted n0 t (stratum_v2_handle_set_target payload s)"
    "jobs_accounted n0 t (handle_submit_shares_success (clock_us env) payload s)" "jobs_accounted n0 t (handle_submit_shares_error payload s)"
    by (rule accounted_same [OF assms(1)];
        simp add: stratum_v2_handle_set_target_def handle_submit_shares_success_def handle_submit_shares_error_def Let_def split: sum.split prod.split)+
  show ?thesis
    using assms(5) quiet prev new_job_accounted [OF assms(1) q] new_ext_job_accounted [OF assms(1,2)] assms(1,3,4)
    unfolding dispatch_frame_def by (auto split: if_splits)
qed

section \<open>A client at work\<close>

definition empty_pending :: sv2_pending_job where
  "empty_pending = \<lparr>pend_job_id = 0, pend_version = 0, pend_merkle_root = replicate 32 0, pend_valid = False\<rparr>"

text \<open>\<open>memset(conn, 0, sizeof(*conn))\<close>.\<close>

definition zero_conn :: sv2_conn where
  "zero_conn = \<lparr>channel_id = 0, sequence_number = 0, conn_target = replicate 32 0, channel_opened = False,
     pending_jobs = replicate 8 empty_pending, conn_prev_hash = replicate 32 0, prev_hash_ntime = 0, prev_hash_nbits = 0,
     has_prev_hash = False, channel_type = SV2_CHANNEL_UNKNOWN, extranonce_prefix = replicate 32 0, extranonce_prefix_len = 0,
     extranonce_size = 0, ext_pending_jobs = replicate 8 None\<rparr>"

definition fresh_client :: "sv2_channel_type \<Rightarrow> sv2_state" where
  "fresh_client t = \<lparr>sv2_conn = zero_conn\<lparr>channel_type := t\<rparr>,
     stratum_queue = \<lparr>buffer = replicate 12 (V2_Work \<lparr>std_job_id = 0, std_version = 0, std_merkle_root = [], std_prev_hash = [], std_ntime = 0, std_nbits = 0, std_clean_jobs = False\<rparr>),
       item_free_fn = replicate 12 None, head = 0, tail = 0, count = 0, free_fn = channel_free_fn t\<rparr>,
     job_marks = replicate 128 0, pool_difficulty = 1, new_set_mining_difficulty_msg = False, work_received = 0, last_clock_sync = 0,
     network_nonce_diff = Some 0, response_time = 0, response_share_batch = 0, submit_time_us = replicate 32 0, events = []\<rparr>"

lemma fresh_queue: "queue_invar (stratum_queue (fresh_client t))" "items (fresh_client t) = []"
  by (simp_all add: fresh_client_def queue_invar_def QUEUE_SIZE_def items_def queue_contents_def)

lemma fresh_typed: "client_typed t (fresh_client t)"
  using fresh_queue [of t] by (simp add: client_typed_def) (simp add: fresh_client_def zero_conn_def empty_pending_def SV2_PENDING_JOBS_SIZE_def)

lemma fresh_accounted: "jobs_accounted (0, {#}) t (fresh_client t)"
  using fresh_queue(2) [of t] by (simp add: jobs_accounted_def) (simp add: fresh_client_def)

definition env_ok :: reception_env where
  "env_ok = \<lparr>job_malloc_ok = \<lambda>id. True, ext_alloc_ok = True, clock_us = 0\<rparr>"

text \<open>\<open>SetNewPrevHash\<close> as the specification lays it out.\<close>

definition set_new_prev_hash :: "u32 \<Rightarrow> u32 \<Rightarrow> bytes \<Rightarrow> u32 \<Rightarrow> u32 \<Rightarrow> bytes" where
  "set_new_prev_hash chan job_id prev nt nbits = write_u32_le chan @ write_u32_le job_id @ prev @ write_u32_le nt @ write_u32_le nbits"

lemma read_new_prev_hash:
  assumes "length prev = 32"
  shows "sv2_parse_set_new_prev_hash (set_new_prev_hash chan job_id prev nt nbits) = Inr (chan, job_id, prev, nt, nbits)"
proof -
  have "sv2_parse_set_new_prev_hash ((write_u32_le chan @ write_u32_le job_id @ prev @ write_u32_le nt @ write_u32_le nbits @ []) @ []) =
      Inr (chan, job_id, prev, nt, nbits)"
    unfolding sv2_parse_set_new_prev_hash_def
    by (intro parse_reads reads_require reads_next [OF reads_u32] reads_next [OF reads_bytes] reads_give) (use assms in auto)
  then show ?thesis by (simp add: set_new_prev_hash_def)
qed

theorem frame_keeps_newest_block_witness:
  "\<exists>s'. dispatch_frame env_ok SV2_MSG_SET_NEW_PREV_HASH (set_new_prev_hash 0 1 (replicate 32 7) 3 4) (fresh_client SV2_CHANNEL_STANDARD) = Some s'"
  using frame_keeps_newest_block [OF fresh_queue(1), of env_ok SV2_MSG_SET_NEW_PREV_HASH "set_new_prev_hash 0 1 (replicate 32 7) 3 4"] by blast

section \<open>Two frames that go wrong\<close>

text \<open>
  The dispatch does not compare a job with the type of the channel: on an extended channel whose block is
  known, a standard job for immediate use becomes the only item of the queue, tagged with the free function
  of extended jobs, which would release what are no pointers.
\<close>

theorem standard_job_on_extended_channel:
  assumes "client_typed SV2_CHANNEL_EXTENDED s" "has_prev_hash (sv2_conn s)" "job_malloc_ok env job_id" "length mroot = 32"
  shows "\<exists>s' job. dispatch_frame env SV2_MSG_NEW_MINING_JOB (new_mining_job chan job_id (Some nt) ver mroot) s = Some s' \<and>
    items s' = [(V2_Work job, Some Ext_Job_Free)] \<and> \<not> proper_free (V2_Work job) (Some Ext_Job_Free)"
proof -
  have q: "queue_invar (stratum_queue s)" and f: "free_fn (stratum_queue s) = Some Ext_Job_Free"
    using assms(1) by (simp_all add: client_typed_def)
  from read_standard_job [OF assms(4), of chan job_id "Some nt" ver "[]"]
  have parsed: "sv2_parse_new_mining_job (new_mining_job chan job_id (Some nt) ver mroot) = Inr (chan, job_id, Some nt, ver, mroot)" by simp
  from enqueue_job_step [OF q, of "job_malloc_ok env job_id" job_id ver mroot "conn_prev_hash (sv2_conn s)" nt "prev_hash_nbits (sv2_conn s)"]
  obtain s' where "stratum_v2_enqueue_job (job_malloc_ok env job_id) job_id ver mroot (conn_prev_hash (sv2_conn s)) nt (prev_hash_nbits (sv2_conn s)) True s = Some s'"
    "items s' = (if job_malloc_ok env job_id then [(V2_Work \<lparr>std_job_id = job_id, std_version = ver, std_merkle_root = mroot,
       std_prev_hash = conn_prev_hash (sv2_conn s), std_ntime = nt, std_nbits = prev_hash_nbits (sv2_conn s), std_clean_jobs = True\<rparr>,
       free_fn (stratum_queue s))] else items s)" by blast
  then show ?thesis
    using assms(2,3) by (simp add: dispatch_frame_def stratum_v2_handle_new_mining_job_def parsed f)
qed

theorem standard_job_on_extended_channel_witness:
  "\<exists>s' job. dispatch_frame env_ok SV2_MSG_NEW_MINING_JOB (new_mining_job 1 2 (Some 3) 4 (replicate 32 7))
       (fresh_client SV2_CHANNEL_EXTENDED \<lparr>sv2_conn := (sv2_conn (fresh_client SV2_CHANNEL_EXTENDED))\<lparr>has_prev_hash := True\<rparr>\<rparr>) = Some s' \<and>
     items s' = [(V2_Work job, Some Ext_Job_Free)] \<and> \<not> proper_free (V2_Work job) (Some Ext_Job_Free)"
proof (rule standard_job_on_extended_channel)
  show "client_typed SV2_CHANNEL_EXTENDED
     (fresh_client SV2_CHANNEL_EXTENDED \<lparr>sv2_conn := (sv2_conn (fresh_client SV2_CHANNEL_EXTENDED))\<lparr>has_prev_hash := True\<rparr>\<rparr>)"
    by (rule typed_conn_change [OF fresh_typed]) (use fresh_typed [of SV2_CHANNEL_EXTENDED] in \<open>auto simp: client_typed_def\<close>)
qed (simp_all add: env_ok_def)

lemma release_pending_step:
  assumes "queue_invar (stratum_queue s)"
  obtains s' where "release_pending ok prev nt nbits i s = Some s'" "queue_invar (stratum_queue s')"
    "sv2_conn s' = (sv2_conn s)\<lparr>pending_jobs := (pending_jobs (sv2_conn s))[i := (pending_jobs (sv2_conn s) ! i)\<lparr>pend_valid := False\<rparr>]\<rparr>"
    "ok (pend_job_id (pending_jobs (sv2_conn s) ! i)) \<Longrightarrow> \<exists>j. map fst (items s') = [V2_Work j] \<and> std_job_id j = pend_job_id (pending_jobs (sv2_conn s) ! i)"
proof -
  let ?p = "pending_jobs (sv2_conn s) ! i"
  from enqueue_job_step [OF assms, of "ok (pend_job_id ?p)" "pend_job_id ?p" "pend_version ?p" "pend_merkle_root ?p" prev nt nbits]
  obtain s' where s': "stratum_v2_enqueue_job (ok (pend_job_id ?p)) (pend_job_id ?p) (pend_version ?p) (pend_merkle_root ?p) prev nt nbits True s = Some s'"
    "sv2_conn s' = sv2_conn s" "queue_invar (stratum_queue s')"
    "items s' = (if ok (pend_job_id ?p) then [(V2_Work \<lparr>std_job_id = pend_job_id ?p, std_version = pend_version ?p, std_merkle_root = pend_merkle_root ?p,
       std_prev_hash = prev, std_ntime = nt, std_nbits = nbits, std_clean_jobs = True\<rparr>, free_fn (stratum_queue s))] else items s)" by blast
  show ?thesis
    by (rule that [of "s'\<lparr>sv2_conn := (sv2_conn s')\<lparr>pending_jobs := (pending_jobs (sv2_conn s'))[i := ?p\<lparr>pend_valid := False\<rparr>]\<rparr>\<rparr>"])
      (use s' in \<open>simp_all add: release_pending_def items_def\<close>)
qed

lemma first_block_two_jobs:
  assumes q: "queue_invar (stratum_queue s)"
    and ps: "pending_jobs (sv2_conn s) = [empty_pending, pa, pb, empty_pending, empty_pending, empty_pending, empty_pending, empty_pending]"
    and ext: "ext_pending_jobs (sv2_conn s) = replicate 8 None"
    and first: "\<not> has_prev_hash (sv2_conn s)" and jobs: "pend_valid pa" "pend_job_id pa = 1" "pend_valid pb" "pend_job_id pb = 2"
    and prev: "length prev = 32"
  shows "\<exists>s' j. dispatch_frame env_ok SV2_MSG_SET_NEW_PREV_HASH (set_new_prev_hash 0 1 prev nt nbits) s = Some s' \<and>
        map fst (items s') = [V2_Work j] \<and> std_job_id j = 2"
proof -
  let ?start = "new_tip prev nt nbits s" and ?rel = "release_pending (\<lambda>id. True) prev nt nbits"
  have c: "pending_jobs (sv2_conn ?start) = pending_jobs (sv2_conn s)" "ext_pending_jobs (sv2_conn ?start) = ext_pending_jobs (sv2_conn s)"
    and q0: "queue_invar (stratum_queue ?start)" using q by (simp_all add: new_tip_def)
  have slots: "[0..<SV2_PENDING_JOBS_SIZE] = [0, 1, 2, 3, 4, 5, 6, 7]" "job_slot 1 = 1"
    by (simp_all add: SV2_PENDING_JOBS_SIZE_def upt_rec job_slot_def)
  obtain s1 where
    s1: "?rel 1 ?start = Some s1" "queue_invar (stratum_queue s1)"
      "sv2_conn s1 = (sv2_conn ?start)\<lparr>pending_jobs := (pending_jobs (sv2_conn ?start))[1 := (pending_jobs (sv2_conn ?start) ! 1)\<lparr>pend_valid := False\<rparr>]\<rparr>"
    by (rule release_pending_step [OF q0, of "\<lambda>id. True" prev nt nbits 1]) (rule that; assumption)
  obtain s2 where
    s2: "?rel 2 s1 = Some s2"
      "sv2_conn s2 = (sv2_conn s1)\<lparr>pending_jobs := (pending_jobs (sv2_conn s1))[2 := (pending_jobs (sv2_conn s1) ! 2)\<lparr>pend_valid := False\<rparr>]\<rparr>"
      "\<exists>j. map fst (items s2) = [V2_Work j] \<and> std_job_id j = pend_job_id (pending_jobs (sv2_conn s1) ! 2)"
    by (rule release_pending_step [OF s1(2), of "\<lambda>id. True" prev nt nbits 2]) (rule that, assumption+, simp)
  have p1: "pending_jobs (sv2_conn s1) = [empty_pending, pa\<lparr>pend_valid := False\<rparr>, pb, empty_pending, empty_pending, empty_pending, empty_pending, empty_pending]"
    by (simp add: s1(3) c ps)
  have p2: "pending_jobs (sv2_conn s2) = [empty_pending, pa\<lparr>pend_valid := False\<rparr>, pb\<lparr>pend_valid := False\<rparr>, empty_pending, empty_pending, empty_pending, empty_pending, empty_pending]"
    by (simp add: s2(2) p1)
  have e2: "ext_pending_jobs (sv2_conn s2) = replicate 8 None"
    by (simp add: s2(2) s1(3) c ext)
  have invalid: "\<not> pend_valid empty_pending" by (simp add: empty_pending_def)
  have loop1: "release_loop (pending_at (\<lambda>id. id = 1)) ?rel [job_slot 1] ?start = Some s1"
    using s1(1) jobs by (simp add: slots pending_at_def c ps Let_def)
  have loop2: "release_loop (pending_at (\<lambda>id. id \<noteq> 1)) ?rel [0..<SV2_PENDING_JOBS_SIZE] s1 = Some s2"
    using s2(1) jobs by (simp add: slots pending_at_def p1 p2 invalid Let_def)
  have loop3: "release_loop (ext_pending_at Q) (release_ext_pending prev nt nbits) is s2 = Some s2" if "\<forall>i \<in> set is. i < 8" for Q "is"
    using that
  proof (induction "is")
    case (Cons i "is")
    then have "ext_pending_jobs (sv2_conn s2) ! i = None" by (simp add: e2)
    with Cons show ?case by (simp add: ext_pending_at_def)
  qed simp
  have loop4: "release_loop (ext_pending_at (\<lambda>id. id = 1)) (release_ext_pending prev nt nbits) [job_slot 1] s2 = Some s2"
    by (rule loop3) (simp add: slots)
  have loop5: "release_loop (ext_pending_at (\<lambda>id. id \<noteq> 1)) (release_ext_pending prev nt nbits) [0..<SV2_PENDING_JOBS_SIZE] s2 = Some s2"
    by (rule loop3) (simp add: SV2_PENDING_JOBS_SIZE_def)
  have "stratum_v2_handle_set_new_prev_hash (\<lambda>id. True) (set_new_prev_hash 0 1 prev nt nbits) s = Some s2"
    using loop1 loop2 loop4 loop5 unfolding new_tip_def
    by (simp only: stratum_v2_handle_set_new_prev_hash_def read_new_prev_hash [OF prev] sum.case prod.case Let_def bind.bind_lunit
        first not_False_eq_True if_True)
  then have "dispatch_frame env_ok SV2_MSG_SET_NEW_PREV_HASH (set_new_prev_hash 0 1 prev nt nbits) s = Some s2"
    by (simp add: dispatch_frame_def sv2_message_types env_ok_def)
  then show ?thesis using s2(3) by (simp add: p1 jobs)
qed

text \<open>
  On the first block of a connection every other pending job is released after the named one, and as a clean
  job throws the queue away, the job the pool named is discarded: with jobs 1 and 2 pending,
  \<open>SetNewPrevHash\<close> for job 1 leaves job 2.
\<close>

theorem first_block_discards_named_job:
  "let c = sv2_conn (fresh_client SV2_CHANNEL_STANDARD);
       job = (\<lambda>i. \<lparr>pend_job_id = i, pend_version = 4, pend_merkle_root = replicate 32 9, pend_valid = True\<rparr>);
       s = fresh_client SV2_CHANNEL_STANDARD \<lparr>sv2_conn := c\<lparr>pending_jobs := (pending_jobs c)[1 := job 1, 2 := job 2]\<rparr>\<rparr>
   in \<exists>s' j. dispatch_frame env_ok SV2_MSG_SET_NEW_PREV_HASH (set_new_prev_hash 0 1 (replicate 32 7) 3 4) s = Some s' \<and>
        map fst (items s') = [V2_Work j] \<and> std_job_id j = 2"
proof -
  let ?job = "\<lambda>i. \<lparr>pend_job_id = i, pend_version = 4, pend_merkle_root = replicate 32 9, pend_valid = True\<rparr>"
  have eight: "replicate 8 x = [x, x, x, x, x, x, x, x]" for x :: 'a by (simp add: numeral_eq_Suc)
  show ?thesis
    unfolding Let_def
  proof (rule first_block_two_jobs [where pa = "?job 1" and pb = "?job 2"], goal_cases)
    case 1
    then show ?case using fresh_queue(1) by simp
  next
    case 2
    then show ?case by (simp add: fresh_client_def zero_conn_def eight)
  next
    case 3
    then show ?case by (simp add: fresh_client_def zero_conn_def eight)
  next
    case 4
    then show ?case by (simp add: fresh_client_def zero_conn_def)
  qed simp_all
qed

end
