(* ===== verification/Sv2_Connection.thy ===== *)
theory Sv2_Connection
  imports Sv2_Client
begin

text \<open>
  The rest of \<open>main/tasks/stratum_v2_task.c\<close>: submitting shares over the open channel, and the task itself, which
  connects, opens a channel, receives until the connection breaks, and gives up after three attempts. The
  transport, the Noise handshake and DNS are the environment; a round of the loop is a function of what they
  answer.
\<close>

section \<open>Submitting shares\<close>

text \<open>Whether \<open>transport\<close>, \<open>sv2_conn\<close> and \<open>sv2_noise_ctx\<close> of the global state are set.\<close>

record links =
  transport_up :: bool
  conn_published :: bool
  noise_up :: bool

definition all_up :: "links \<Rightarrow> bool" where
  "all_up l \<longleftrightarrow> transport_up l \<and> conn_published l \<and> noise_up l"

definition stratum_v2_record_submit_time :: "int \<Rightarrow> u32 \<Rightarrow> sv2_state \<Rightarrow> sv2_state" where
  "stratum_v2_record_submit_time now seq s =
     s\<lparr>submit_time_us := (submit_time_us s)[unat seq mod SV2_SUBMIT_TIMING_SLOTS := now]\<rparr>"

text \<open>
  The result is \<open>-1\<close> or what \<open>sv2_noise_send\<close> returns (\<open>sent\<close>). The channel and the sequence number are taken
  under the lock.
\<close>

definition submit_frame :: "int \<Rightarrow> int \<Rightarrow> (u32 \<Rightarrow> u32 \<Rightarrow> bytes option) \<Rightarrow> links \<Rightarrow> sv2_state \<Rightarrow> int \<times> sv2_state" where
  "submit_frame now sent build l s =
     (if \<not> all_up l then (-1, s)
      else let chan = channel_id (sv2_conn s); seq = sequence_number (sv2_conn s);
               s1 = s\<lparr>sv2_conn := (sv2_conn s)\<lparr>sequence_number := seq + 1\<rparr>\<rparr>
           in case build chan seq of
                None \<Rightarrow> (-1, s1)
              | Some frame \<Rightarrow> (sent, (stratum_v2_record_submit_time now seq s1)\<lparr>events := events s1 @ [Sent frame]\<rparr>))"

definition stratum_v2_submit_share :: "int \<Rightarrow> int \<Rightarrow> u32 \<Rightarrow> u32 \<Rightarrow> u32 \<Rightarrow> u32 \<Rightarrow> links \<Rightarrow> sv2_state \<Rightarrow> int \<times> sv2_state" where
  "stratum_v2_submit_share now sent job_id nonce nt ver =
     submit_frame now sent (\<lambda>chan seq. sv2_build_submit_shares_standard (SV2_FRAME_HEADER_SIZE + 24) chan seq job_id nonce nt ver)"

definition stratum_v2_submit_share_extended ::
  "int \<Rightarrow> int \<Rightarrow> u32 \<Rightarrow> u32 \<Rightarrow> u32 \<Rightarrow> u32 \<Rightarrow> bytes \<Rightarrow> links \<Rightarrow> sv2_state \<Rightarrow> int \<times> sv2_state" where
  "stratum_v2_submit_share_extended now sent job_id nonce nt ver extranonce =
     submit_frame now sent
       (\<lambda>chan seq. sv2_build_submit_shares_extended (SV2_FRAME_HEADER_SIZE + 24 + 1 + 32) chan seq job_id nonce nt ver extranonce)"

section \<open>The task\<close>

text \<open>\<open>sv2_select_channel_type\<close>: the standard channel only when asked for, and not on the BM1397.\<close>

definition sv2_select_channel_type :: "sv2_channel_type \<Rightarrow> bool \<Rightarrow> sv2_channel_type" where
  "sv2_select_channel_type parsed is_BM1397 =
     (if parsed = SV2_CHANNEL_STANDARD then (if \<not> is_BM1397 then SV2_CHANNEL_STANDARD else SV2_CHANNEL_EXTENDED)
      else SV2_CHANNEL_EXTENDED)"

definition SV2_MSG_SETUP_CONNECTION_SUCCESS :: u8 where "SV2_MSG_SETUP_CONNECTION_SUCCESS = 0x01"
definition SV2_MSG_OPEN_STANDARD_MINING_CHANNEL_SUCCESS :: u8 where "SV2_MSG_OPEN_STANDARD_MINING_CHANNEL_SUCCESS = 0x11"
definition SV2_MSG_OPEN_EXTENDED_MINING_CHANNEL_SUCCESS :: u8 where "SV2_MSG_OPEN_EXTENDED_MINING_CHANNEL_SUCCESS = 0x14"
definition SV2_MAX_FRAME_SIZE :: nat where "SV2_MAX_FRAME_SIZE = 8192"

text \<open>What the task takes from the configuration; \<open>None\<close> is a null pointer.\<close>

record pool =
  pool_url :: bytes
  pool_port :: u16
  pool_user :: "bytes option"
  asic_name :: "bytes option"

datatype notice = Notify_Success | Notify_Failure | Notify_V2_Exited

record client =
  client_state :: sv2_state
  client_links :: links
  client_channel :: sv2_channel_type
  extended_flag :: bool
  connection_info :: string
  client_version_mask :: u32
  version_rolling_msg :: bool
  retry_attempts :: nat
  notices :: "notice list"

text \<open>
  What the environment does in one round: the replies are the decrypted header and payload, or nothing when
  receiving fails, and \<open>frames\<close> are what arrives before the connection breaks.
\<close>

record round_env =
  shutdown_requested :: bool
  wifi_connected :: bool
  transport_init_ok :: bool
  resolve_ok :: bool
  connect_ok :: bool
  noise_create_ok :: bool
  handshake_ok :: bool
  peer_is_ipv6 :: bool
  setup_sent :: bool
  setup_reply :: "(bytes \<times> bytes) option"
  open_sent :: bool
  open_reply :: "(bytes \<times> bytes) option"
  frames :: "(reception_env \<times> bytes \<times> bytes) list"

definition stratum_v2_close_connection :: "client \<Rightarrow> client" where
  "stratum_v2_close_connection c =
     c\<lparr>client_links := (client_links c)\<lparr>noise_up := False, transport_up := False\<rparr>,
       client_state := SYSTEM_clean_jobs_queue (client_state c)\<rparr>"

definition sv2_conn_release :: "client \<Rightarrow> client" where
  "sv2_conn_release c = c\<lparr>extended_flag := False, client_links := (client_links c)\<lparr>conn_published := False\<rparr>\<rparr>"

text \<open>A failure after the transport exists: the status text, if one is set, and the connection closed.\<close>

definition retry :: "string option \<Rightarrow> client \<Rightarrow> client" where
  "retry info c =
     (let c1 = (case info of None \<Rightarrow> c | Some i \<Rightarrow> c\<lparr>connection_info := i\<rparr>)
      in (stratum_v2_close_connection c1)\<lparr>retry_attempts := retry_attempts c + 1\<rparr>)"

text \<open>A failure before the transport is published: nothing to close but the local transport.\<close>

definition retry_early :: "string \<Rightarrow> client \<Rightarrow> client" where
  "retry_early info c = c\<lparr>connection_info := info, retry_attempts := retry_attempts c + 1\<rparr>"

text \<open>The object representation of \<open>1e12f\<close>, the nominal hash rate of every channel.\<close>

definition hash_rate_bits :: u32 where
  "hash_rate_bits = 0x5368D4A5"

definition setup_frame :: "pool \<Rightarrow> sv2_channel_type \<Rightarrow> bytes option" where
  "setup_frame p t = sv2_build_setup_connection SV2_MAX_FRAME_SIZE (Some (pool_url p)) (pool_port p) (Some [98, 105, 116, 97, 120, 101])
     (Some (case asic_name p of Some n \<Rightarrow> n | None \<Rightarrow> [])) (Some []) (Some []) (if t = SV2_CHANNEL_STANDARD then 0x01 else 0x00)"

definition open_frame :: "pool \<Rightarrow> sv2_channel_type \<Rightarrow> bytes option" where
  "open_frame p t =
     (let user = Some (case pool_user p of Some u \<Rightarrow> u | None \<Rightarrow> [])
      in if t = SV2_CHANNEL_EXTENDED then sv2_build_open_extended_mining_channel SV2_MAX_FRAME_SIZE 1 user hash_rate_bits 2
         else sv2_build_open_standard_mining_channel SV2_MAX_FRAME_SIZE 1 user hash_rate_bits)"

text \<open>The parameters of the channel from the reply; \<open>None\<close> when it does not parse.\<close>

definition channel_parameters :: "sv2_channel_type \<Rightarrow> bytes \<Rightarrow> sv2_conn \<Rightarrow> sv2_conn option" where
  "channel_parameters t payload c =
     (let opened = (\<lambda>chan tgt c. c\<lparr>channel_id := chan, channel_opened := True, conn_target := tgt\<rparr>)
      in if t = SV2_CHANNEL_EXTENDED then
           (case sv2_parse_open_extended_channel_success payload of
              Inl _ \<Rightarrow> None
            | Inr (req, chan, tgt, esize, prefix, grp) \<Rightarrow>
                Some (opened chan tgt (c\<lparr>extranonce_size := ucast (if 32 < esize then 32 else esize),
                  extranonce_prefix_len := of_nat (length prefix), extranonce_prefix := store_at 0 prefix (extranonce_prefix c)\<rparr>)))
         else
           (case sv2_parse_open_channel_success payload of
              Inl _ \<Rightarrow> None
            | Inr (req, chan, tgt, prefix, grp) \<Rightarrow> Some (opened chan tgt c)))"

text \<open>The receive loop on the frames that arrive; \<open>None\<close> if a queue operation blocks.\<close>

fun receive_loop :: "(reception_env \<times> bytes \<times> bytes) list \<Rightarrow> sv2_state \<Rightarrow> sv2_state option" where
  "receive_loop [] s = Some s"
| "receive_loop ((env, hdr, payload) # fs) s =
     Option.bind (dispatch_frame env (msg_type (sv2_parse_frame_header hdr)) payload s) (receive_loop fs)"

text \<open>
  One round of the loop: \<open>Inl\<close> is the end of the task. The checks come in the order of the code.
\<close>

definition on_state :: "(sv2_state \<Rightarrow> sv2_state) \<Rightarrow> client \<Rightarrow> client" where
  "on_state f c = c\<lparr>client_state := f (client_state c)\<rparr>"

definition send_frame :: "bytes \<Rightarrow> client \<Rightarrow> client" where
  "send_frame f = on_state (\<lambda>s. s\<lparr>events := events s @ [Sent f]\<rparr>)"

text \<open>From the transport to the encrypted channel; \<open>Inl\<close> is a failed attempt.\<close>

definition v2_connect :: "round_env \<Rightarrow> client \<Rightarrow> client + client" where
  "v2_connect e c =
     (if \<not> transport_init_ok e then Inl (retry_early ''SV2: Internal error'' c)
      else if \<not> resolve_ok e then Inl (retry_early ''SV2: Pool unreachable'' c)
      else if \<not> connect_ok e then Inl (retry_early ''SV2: Pool unreachable'' c)
      else
        let c1 = on_state (\<lambda>s. s\<lparr>sv2_conn := zero_conn\<rparr>) (c\<lparr>client_links := (client_links c)\<lparr>transport_up := True, conn_published := True\<rparr>\<rparr>)
        in if \<not> noise_create_ok e then Inl (retry (Some ''SV2: Internal error'') c1)
           else let c2 = c1\<lparr>client_links := (client_links c1)\<lparr>noise_up := True\<rparr>\<rparr>
                in if \<not> handshake_ok e then Inl (retry (Some ''SV2: Auth failed - check key'') c2)
                   else Inr (on_state (\<lambda>s. s\<lparr>sv2_conn := (sv2_conn s)\<lparr>channel_type := client_channel c\<rparr>\<rparr>)
                     (c2\<lparr>connection_info := (if peer_is_ipv6 e then ''IPv6'' else ''IPv4''),
                         extended_flag := (client_channel c = SV2_CHANNEL_EXTENDED)\<rparr>)))"

text \<open>Sending a frame and receiving the reply, which must have the expected type: steps 1 and 2, and 3 and 4.\<close>

definition v2_exchange ::
  "bytes option \<Rightarrow> bool \<Rightarrow> (bytes \<times> bytes) option \<Rightarrow> u8 \<Rightarrow> string \<Rightarrow> client \<Rightarrow> client + client \<times> bytes" where
  "v2_exchange frame sent reply expected rejected c =
     (case frame of
        None \<Rightarrow> Inl (retry (Some ''SV2: Connection lost'') c)
      | Some f \<Rightarrow>
          let c1 = send_frame f c
          in if \<not> sent then Inl (retry (Some ''SV2: Connection lost'') c1)
             else case reply of
                    None \<Rightarrow> Inl (retry (Some ''SV2: Pool not responding'') c1)
                  | Some (hdr, payload) \<Rightarrow>
                      if msg_type (sv2_parse_frame_header hdr) \<noteq> expected then Inl (retry (Some rejected) c1)
                      else Inr (c1, payload))"

definition v2_setup :: "pool \<Rightarrow> round_env \<Rightarrow> client \<Rightarrow> client + client" where
  "v2_setup p e c =
     (case v2_exchange (setup_frame p (client_channel c)) (setup_sent e) (setup_reply e) SV2_MSG_SETUP_CONNECTION_SUCCESS
             ''SV2: Pool rejected config'' c of
        Inl c' \<Rightarrow> Inl c'
      | Inr (c', payload) \<Rightarrow> (case sv2_parse_setup_connection_success payload of Inl _ \<Rightarrow> Inl (retry None c') | Inr _ \<Rightarrow> Inr c'))"

definition v2_open :: "pool \<Rightarrow> round_env \<Rightarrow> client \<Rightarrow> client + client" where
  "v2_open p e c =
     (let t = client_channel c
      in case v2_exchange (open_frame p t) (open_sent e) (open_reply e)
                (if t = SV2_CHANNEL_EXTENDED then SV2_MSG_OPEN_EXTENDED_MINING_CHANNEL_SUCCESS else SV2_MSG_OPEN_STANDARD_MINING_CHANNEL_SUCCESS)
                ''SV2: Pool rejected miner'' c of
           Inl c' \<Rightarrow> Inl c'
         | Inr (c', payload) \<Rightarrow>
             (case channel_parameters t payload (sv2_conn (client_state c')) of
                None \<Rightarrow> Inl (retry None c')
              | Some conn \<Rightarrow>
                  Inr ((on_state (\<lambda>s. s\<lparr>sv2_conn := conn, pool_difficulty := hash_to_pdiff (conn_target conn), new_set_mining_difficulty_msg := True\<rparr>) c')
                    \<lparr>retry_attempts := 0, notices := notices c' @ [Notify_Success]\<rparr>)))"

definition v2_round :: "pool \<Rightarrow> round_env \<Rightarrow> client \<Rightarrow> (client + client) option" where
  "v2_round p e c =
     (if shutdown_requested e then
        Some (Inl ((sv2_conn_release (stratum_v2_close_connection c))\<lparr>notices := notices c @ [Notify_V2_Exited]\<rparr>))
      else if \<not> wifi_connected e then Some (Inr c)
      else if MAX_RETRY_ATTEMPTS \<le> retry_attempts c then
        Some (Inl ((sv2_conn_release (stratum_v2_close_connection c))\<lparr>notices := notices c @ [Notify_Failure]\<rparr>))
      else case v2_connect e c of
             Inl c' \<Rightarrow> Some (Inr c')
           | Inr c1 \<Rightarrow>
               (case v2_setup p e c1 of
                  Inl c' \<Rightarrow> Some (Inr c')
                | Inr c2 \<Rightarrow>
                    (case v2_open p e c2 of
                       Inl c' \<Rightarrow> Some (Inr c')
                     | Inr c3 \<Rightarrow> map_option (\<lambda>s. Inr (retry None (c3\<lparr>client_state := s\<rparr>))) (receive_loop (frames e) (client_state c3)))))"

text \<open>
  The task from its start to its loop: the free function of the queue, the version mask, the published
  connection and the frame buffers. \<open>Inl\<close> is the end of the task when memory runs out.
\<close>

definition stratum_v2_start :: "bool \<Rightarrow> bool \<Rightarrow> sv2_channel_type \<Rightarrow> bool \<Rightarrow> client \<Rightarrow> client + client" where
  "stratum_v2_start conn_alloc_ok buffers_ok configured is_BM1397 c =
     (let t = sv2_select_channel_type configured is_BM1397;
          c1 = on_state (\<lambda>s. s\<lparr>stratum_queue := set_free_fn (if t = SV2_CHANNEL_EXTENDED then Some Ext_Job_Free else Some Free) (stratum_queue s)\<rparr>)
             (c\<lparr>client_channel := t, client_version_mask := STRATUM_DEFAULT_VERSION_MASK, version_rolling_msg := True\<rparr>)
      in if \<not> conn_alloc_ok then Inl (c1\<lparr>notices := notices c1 @ [Notify_Failure]\<rparr>)
         else let c2 = on_state (\<lambda>s. s\<lparr>sv2_conn := zero_conn\<rparr>) (c1\<lparr>client_links := (client_links c1)\<lparr>conn_published := True\<rparr>\<rparr>)
              in if \<not> buffers_ok then Inl ((sv2_conn_release c2)\<lparr>notices := notices c2 @ [Notify_Failure]\<rparr>)
                 else Inr (c2\<lparr>retry_attempts := 0\<rparr>))"

fun v2_rounds :: "pool \<Rightarrow> round_env list \<Rightarrow> client \<Rightarrow> (client + client) option" where
  "v2_rounds p [] c = Some (Inr c)"
| "v2_rounds p (e # es) c = (case v2_round p e c of None \<Rightarrow> None | Some (Inl c') \<Rightarrow> Some (Inl c') | Some (Inr c') \<Rightarrow> v2_rounds p es c')"

section \<open>Shares go out in sequence\<close>

record submission =
  sub_extranonce :: "bytes option"
  sub_job_id :: u32
  sub_nonce :: u32
  sub_ntime :: u32
  sub_version :: u32
  sub_now :: int
  sub_sent :: int

text \<open>\<open>asic_result_task\<close> submits on an extended channel with the extranonce, on a standard one without.\<close>

definition submit :: "submission \<Rightarrow> links \<Rightarrow> sv2_state \<Rightarrow> int \<times> sv2_state" where
  "submit u = (case sub_extranonce u of
       None \<Rightarrow> stratum_v2_submit_share (sub_now u) (sub_sent u) (sub_job_id u) (sub_nonce u) (sub_ntime u) (sub_version u)
     | Some x \<Rightarrow> stratum_v2_submit_share_extended (sub_now u) (sub_sent u) (sub_job_id u) (sub_nonce u) (sub_ntime u) (sub_version u) x)"

fun submit_all :: "submission list \<Rightarrow> links \<Rightarrow> sv2_state \<Rightarrow> sv2_state" where
  "submit_all [] l s = s"
| "submit_all (u # us) l s = submit_all us l (snd (submit u l s))"

text \<open>The six numbers at the front of the payload of a share.\<close>

definition share_fields :: "bytes \<Rightarrow> u32 list" where
  "share_fields f = map (\<lambda>i. read_u32_le (drop (6 + 4 * i) f)) [0..<6]"

lemma read_u32_write [simp]: "read_u32_le (write_u32_le v @ r) = v" "read_u32_le (write_u32_le v) = v"
  using u32_bytes [of v] by (simp_all add: read_u32_le_def write_u32_le_def)

lemma share_fields_six:
  "length h = 6 \<Longrightarrow> share_fields (h @ write_u32_le a @ write_u32_le b @ write_u32_le c @ write_u32_le d @ write_u32_le e @ write_u32_le g @ r) = [a, b, c, d, e, g]"
  by (simp add: share_fields_def upt_rec drop_append)

text \<open>The frame of a submission with a given sequence number.\<close>

definition share_frame :: "sv2_conn \<Rightarrow> u32 \<Rightarrow> submission \<Rightarrow> bytes \<Rightarrow> bool" where
  "share_frame c seq u f \<longleftrightarrow>
     share_fields f = [channel_id c, seq, sub_job_id u, sub_nonce u, sub_ntime u, sub_version u] \<and>
     extension_type (sv2_parse_frame_header f) = SV2_CHANNEL_MSG_FLAG \<and>
     (case sub_extranonce u of
        None \<Rightarrow> msg_type (sv2_parse_frame_header f) = SV2_MSG_SUBMIT_SHARES_STANDARD \<and> length f = 30
      | Some x \<Rightarrow> msg_type (sv2_parse_frame_header f) = SV2_MSG_SUBMIT_SHARES_EXTENDED \<and> drop 30 f = of_nat (length x) # x)"

lemma length_write_u32 [simp]: "length (write_u32_le v) = 4"
  by (simp add: write_u32_le_def)

lemma submit_share_frame:
  assumes "all_up l" "\<forall>x. sub_extranonce u = Some x \<longrightarrow> length x \<le> 32"
  shows "\<exists>f s'. snd (submit u l s) = s' \<and> fst (submit u l s) = sub_sent u \<and> events s' = events s @ [Sent f] \<and>
    share_frame (sv2_conn s) (sequence_number (sv2_conn s)) u f \<and>
    sv2_conn s' = (sv2_conn s)\<lparr>sequence_number := sequence_number (sv2_conn s) + 1\<rparr>"
proof (cases "sub_extranonce u")
  case None
  then show ?thesis using assms(1)
    by (simp add: submit_def stratum_v2_submit_share_def submit_frame_def sv2_build_submit_shares_standard_def finish_frame_def Let_def
        SV2_FRAME_HEADER_SIZE_def stratum_v2_record_submit_time_def share_frame_def parse_encoded_header share_fields_six [of _ _ _ _ _ _ _ "[]", simplified])
next
  case (Some x)
  with assms(2) have "length x \<le> 32" by simp
  then show ?thesis using assms(1) Some
    by (simp add: submit_def stratum_v2_submit_share_extended_def submit_frame_def sv2_build_submit_shares_extended_def finish_frame_def Let_def
        SV2_FRAME_HEADER_SIZE_def stratum_v2_record_submit_time_def share_frame_def parse_encoded_header share_fields_six)
qed

text \<open>
  While the connection is up, each share submitted goes out in one frame with the fields of the share, the
  channel of the connection and the next sequence number: the numbers of a connection are consecutive.
\<close>

theorem shares_in_sequence:
  assumes "all_up l" "\<forall>u \<in> set us. \<forall>x. sub_extranonce u = Some x \<longrightarrow> length x \<le> 32"
  shows "\<exists>fs. events (submit_all us l s) = events s @ map Sent fs \<and> length fs = length us \<and>
    (\<forall>k < length us. share_frame (sv2_conn s) (sequence_number (sv2_conn s) + of_nat k) (us ! k) (fs ! k))"
  using assms(2)
proof (induction us arbitrary: s)
  case Nil
  then show ?case by simp
next
  case (Cons u us)
  from submit_share_frame [OF assms(1), of u s] Cons.prems obtain f s' where
    s': "snd (submit u l s) = s'" "events s' = events s @ [Sent f]" "share_frame (sv2_conn s) (sequence_number (sv2_conn s)) u f"
      "sv2_conn s' = (sv2_conn s)\<lparr>sequence_number := sequence_number (sv2_conn s) + 1\<rparr>" by auto
  from Cons.IH [of s'] Cons.prems obtain fs where
    fs: "events (submit_all us l s') = events s' @ map Sent fs" "length fs = length us"
      "\<forall>k < length us. share_frame (sv2_conn s') (sequence_number (sv2_conn s') + of_nat k) (us ! k) (fs ! k)" by auto
  have "share_frame (sv2_conn s') = share_frame (sv2_conn s)"
    by (intro ext) (simp add: share_frame_def s'(4))
  with fs(3) have "\<forall>k < length us. share_frame (sv2_conn s) (sequence_number (sv2_conn s) + of_nat (Suc k)) (us ! k) (fs ! k)"
    by (simp add: s'(4) algebra_simps)
  then have "\<forall>k < length (u # us). share_frame (sv2_conn s) (sequence_number (sv2_conn s) + of_nat k) ((u # us) ! k) ((f # fs) ! k)"
    using s'(3) by (auto simp: less_Suc_eq_0_disj)
  moreover have "events (submit_all (u # us) l s) = events s @ map Sent (f # fs)" "length (f # fs) = length (u # us)"
    using fs(1,2) s'(1,2) by simp_all
  ultimately show ?case by blast
qed

definition example_submission :: "bytes option \<Rightarrow> submission" where
  "example_submission x = \<lparr>sub_extranonce = x, sub_job_id = 5, sub_nonce = 6, sub_ntime = 7, sub_version = 8, sub_now = 100, sub_sent = 0\<rparr>"

theorem shares_in_sequence_witness:
  "\<exists>f g. events (submit_all [example_submission None, example_submission (Some [1, 2])] \<lparr>transport_up = True, conn_published = True, noise_up = True\<rparr>
      (fresh_client SV2_CHANNEL_STANDARD)) = [Sent f, Sent g] \<and> share_fields f = [0, 0, 5, 6, 7, 8] \<and> share_fields g = [0, 1, 5, 6, 7, 8]"
proof -
  let ?us = "[example_submission None, example_submission (Some [1, 2])]" and ?l = "\<lparr>transport_up = True, conn_published = True, noise_up = True\<rparr>"
  let ?s = "fresh_client SV2_CHANNEL_STANDARD"
  have "all_up ?l" "\<forall>u \<in> set ?us. \<forall>x. sub_extranonce u = Some x \<longrightarrow> length x \<le> 32" by (simp_all add: all_up_def example_submission_def)
  from shares_in_sequence [OF this, of ?s] obtain fs where
    fs: "events (submit_all ?us ?l ?s) = events ?s @ map Sent fs" "length fs = length ?us"
      "\<forall>k < length ?us. share_frame (sv2_conn ?s) (sequence_number (sv2_conn ?s) + of_nat k) (?us ! k) (fs ! k)" by blast
  then have two: "fs = [fs ! 0, fs ! 1]" by (cases fs; cases "tl fs") auto
  have c: "sequence_number (sv2_conn ?s) = 0" "channel_id (sv2_conn ?s) = 0" "events ?s = []" by (simp_all add: fresh_client_def zero_conn_def)
  have "share_frame (sv2_conn ?s) 0 (?us ! 0) (fs ! 0)" "share_frame (sv2_conn ?s) 1 (?us ! 1) (fs ! 1)"
    using fs(3) [rule_format, of 0] fs(3) [rule_format, of 1] by (simp_all add: c(1))
  then have "share_fields (fs ! 0) = [0, 0, 5, 6, 7, 8]" "share_fields (fs ! 1) = [0, 1, 5, 6, 7, 8]"
    by (simp_all add: share_frame_def c(2) example_submission_def)
  moreover have "events (submit_all ?us ?l ?s) = [Sent (fs ! 0), Sent (fs ! 1)]" using fs(1) two c(3) by (metis append_Nil list.simps(8,9))
  ultimately show ?thesis by blast
qed

section \<open>The task keeps the types of its channel\<close>

definition frames_fit :: "sv2_channel_type \<Rightarrow> (reception_env \<times> bytes \<times> bytes) list \<Rightarrow> bool" where
  "frames_fit t fs \<longleftrightarrow> (\<forall>(env, hdr, payload) \<in> set fs.
     (t = SV2_CHANNEL_STANDARD \<longrightarrow> msg_type (sv2_parse_frame_header hdr) \<noteq> SV2_MSG_NEW_EXTENDED_MINING_JOB) \<and>
     (t = SV2_CHANNEL_EXTENDED \<longrightarrow> msg_type (sv2_parse_frame_header hdr) \<noteq> SV2_MSG_NEW_MINING_JOB))"

definition client_sound :: "account \<Rightarrow> sv2_channel_type \<Rightarrow> sv2_state \<Rightarrow> bool" where
  "client_sound n0 t s \<longleftrightarrow> client_typed t s \<and> jobs_accounted n0 t s"

definition typed_client :: "account \<Rightarrow> sv2_channel_type \<Rightarrow> client \<Rightarrow> bool" where
  "typed_client n0 t c \<longleftrightarrow> client_channel c = t \<and> client_sound n0 t (client_state c)"

named_theorems typing

lemma client_sound_same:
  "client_sound n0 t s \<Longrightarrow> client_typed t s' \<Longrightarrow> freed_of (events s') = freed_of (events s) \<Longrightarrow> stratum_queue s' = stratum_queue s \<Longrightarrow>
   work_received s' = work_received s \<Longrightarrow> client_sound n0 t s'"
  by (auto simp: client_sound_def intro: accounted_same)

lemma typed_clean [typing]: "client_sound n0 t s \<Longrightarrow> client_sound n0 t (SYSTEM_clean_jobs_queue s)"
proof -
  assume sound: "client_sound n0 t s"
  then have typed: "client_typed t s" by (simp add: client_sound_def)
  then have q: "queue_invar (stratum_queue s)" by (simp add: client_typed_def)
  from queue_cleared [OF q] obtain q' where q': "queue_clear (stratum_queue s) = (queue_contents (stratum_queue s), q')" "queue_invar q'"
    "queue_contents q' = []" "free_fn q' = free_fn (stratum_queue s)" .
  have "\<forall>e \<in> set (events s @ map (\<lambda>(w, f). Freed w f) (queue_contents (stratum_queue s)) @ [Measurements_Reset]). event_proper e"
    using typed by (auto simp: client_typed_def items_def of_channel_proper)
  with typed q' have "client_typed t (SYSTEM_clean_jobs_queue s)" by (simp only: SYSTEM_clean_jobs_queue_def client_typed_def items_def prod.case) simp
  moreover have "jobs_accounted n0 t (SYSTEM_clean_jobs_queue s)"
    using sound q' by (simp add: client_sound_def jobs_accounted_def SYSTEM_clean_jobs_queue_def items_def)
  ultimately show ?thesis by (simp add: client_sound_def)
qed

lemma typed_simps [typing]:
  "typed_client n0 t c \<Longrightarrow> typed_client n0 t (c\<lparr>client_links := l\<rparr>)"
  "typed_client n0 t c \<Longrightarrow> typed_client n0 t (c\<lparr>connection_info := i\<rparr>)"
  "typed_client n0 t c \<Longrightarrow> typed_client n0 t (c\<lparr>extended_flag := b\<rparr>)"
  "typed_client n0 t c \<Longrightarrow> typed_client n0 t (c\<lparr>retry_attempts := n\<rparr>)"
  "typed_client n0 t c \<Longrightarrow> typed_client n0 t (c\<lparr>notices := ns\<rparr>)"
  by (simp_all add: typed_client_def)

lemma typed_on_state [typing]: "typed_client n0 t c \<Longrightarrow> client_sound n0 t (f (client_state c)) \<Longrightarrow> typed_client n0 t (on_state f c)"
  by (simp add: typed_client_def on_state_def)

lemma typed_close [typing]: "typed_client n0 t c \<Longrightarrow> typed_client n0 t (stratum_v2_close_connection c)"
  by (simp add: stratum_v2_close_connection_def typed_client_def typed_clean)

lemma typed_retry [typing]: "typed_client n0 t c \<Longrightarrow> typed_client n0 t (retry info c)"
  by (auto simp: retry_def Let_def intro: typing split: option.split)

lemma typed_retry_early [typing]: "typed_client n0 t c \<Longrightarrow> typed_client n0 t (retry_early info c)"
  by (auto simp: retry_early_def typed_client_def)

lemma typed_release [typing]: "typed_client n0 t c \<Longrightarrow> typed_client n0 t (sv2_conn_release c)"
  by (simp add: sv2_conn_release_def typed_client_def)

lemma typed_send [typing]: "typed_client n0 t c \<Longrightarrow> typed_client n0 t (send_frame f c)"
  by (simp add: send_frame_def on_state_def typed_client_def client_sound_def) (simp add: client_typed_def jobs_accounted_def items_def)

lemma typed_zero [typing]: "client_sound n0 t s \<Longrightarrow> client_sound n0 t (s\<lparr>sv2_conn := zero_conn\<rparr>)"
  by (rule client_sound_same, assumption, rule typed_conn_change [of t s])
    (auto simp: client_sound_def client_typed_def zero_conn_def empty_pending_def SV2_PENDING_JOBS_SIZE_def)

lemma typed_channel [typing]: "client_sound n0 t s \<Longrightarrow> client_sound n0 t (s\<lparr>sv2_conn := (sv2_conn s)\<lparr>channel_type := u\<rparr>\<rparr>)"
  by (simp add: client_sound_def client_typed_def jobs_accounted_def items_def)

lemma channel_parameters_pending:
  "channel_parameters t payload c = Some c' \<Longrightarrow> pending_jobs c' = pending_jobs c \<and> ext_pending_jobs c' = ext_pending_jobs c"
  by (auto simp: channel_parameters_def Let_def split: if_splits sum.splits prod.splits)

lemma typed_opened [typing]:
  "client_sound n0 t s \<Longrightarrow> channel_parameters u payload (sv2_conn s) = Some c \<Longrightarrow>
   client_sound n0 t (s\<lparr>sv2_conn := c, pool_difficulty := d, new_set_mining_difficulty_msg := b\<rparr>)"
  using channel_parameters_pending [of u payload "sv2_conn s" c] by (simp add: client_sound_def client_typed_def jobs_accounted_def items_def)

lemma receive_loop_typed:
  "client_sound n0 t s \<Longrightarrow> t = SV2_CHANNEL_STANDARD \<or> t = SV2_CHANNEL_EXTENDED \<Longrightarrow> frames_fit t fs \<Longrightarrow>
   \<exists>s'. receive_loop fs s = Some s' \<and> client_sound n0 t s'"
proof (induction fs arbitrary: s)
  case Nil
  then show ?case by simp
next
  case (Cons f fs)
  obtain env hdr payload where f: "f = (env, hdr, payload)" by (cases f)
  from Cons.prems(3) have fit: "frames_fit t fs"
    "t = SV2_CHANNEL_STANDARD \<Longrightarrow> msg_type (sv2_parse_frame_header hdr) \<noteq> SV2_MSG_NEW_EXTENDED_MINING_JOB"
    "t = SV2_CHANNEL_EXTENDED \<Longrightarrow> msg_type (sv2_parse_frame_header hdr) \<noteq> SV2_MSG_NEW_MINING_JOB"
    by (auto simp: frames_fit_def f)
  have s: "client_typed t s" "jobs_accounted n0 t s" using Cons.prems(1) by (simp_all add: client_sound_def)
  from channel_types_kept [OF s(1) Cons.prems(2) fit(2,3), of env payload] obtain s1 where
    s1: "dispatch_frame env (msg_type (sv2_parse_frame_header hdr)) payload s = Some s1" "client_typed t s1" by blast
  have "jobs_accounted n0 t s1" by (rule dispatch_accounted [OF s(2,1) Cons.prems(2) fit(2) s1(1)])
  with s1 have "client_sound n0 t s1" by (simp add: client_sound_def)
  with Cons.IH [OF _ Cons.prems(2) fit(1)] s1(1) show ?case by (simp add: f)
qed

lemma typed_client_state: "typed_client n0 t c \<Longrightarrow> client_sound n0 t (client_state c)"
  by (simp add: typed_client_def)

definition either :: "'a + 'a \<Rightarrow> 'a" where
  "either r = (case r of Inl x \<Rightarrow> x | Inr x \<Rightarrow> x)"

lemma either_simps [simp]: "either (Inl x) = x" "either (Inr x) = x"
  by (simp_all add: either_def)

lemma connect_typed: "typed_client n0 t c \<Longrightarrow> typed_client n0 t (either (v2_connect e c))"
  by (auto simp: v2_connect_def Let_def intro!: typing intro: typed_client_state)

lemma exchange_typed:
  "typed_client n0 t c \<Longrightarrow> (case v2_exchange f sent reply expected rejected c of Inl c' \<Rightarrow> typed_client n0 t c' | Inr (c', payload) \<Rightarrow> typed_client n0 t c')"
  by (auto simp: v2_exchange_def Let_def intro!: typing split: option.split)

lemma setup_typed: "typed_client n0 t c \<Longrightarrow> typed_client n0 t (either (v2_setup p e c))"
  using exchange_typed [of n0 t c "setup_frame p (client_channel c)" "setup_sent e" "setup_reply e" SV2_MSG_SETUP_CONNECTION_SUCCESS "''SV2: Pool rejected config''"]
  by (auto simp: v2_setup_def intro!: typing split: sum.splits)

lemma typed_opened_client:
  "typed_client n0 t c \<Longrightarrow> channel_parameters u payload (sv2_conn (client_state c)) = Some conn \<Longrightarrow>
   typed_client n0 t (on_state (\<lambda>s. s\<lparr>sv2_conn := conn, pool_difficulty := d, new_set_mining_difficulty_msg := b\<rparr>) c)"
  by (rule typed_on_state) (auto intro: typed_opened typed_client_state)

lemma open_typed: "typed_client n0 t c \<Longrightarrow> typed_client n0 t (either (v2_open p e c))"
  using exchange_typed [of n0 t c "open_frame p (client_channel c)" "open_sent e" "open_reply e"
      "if client_channel c = SV2_CHANNEL_EXTENDED then SV2_MSG_OPEN_EXTENDED_MINING_CHANNEL_SUCCESS else SV2_MSG_OPEN_STANDARD_MINING_CHANNEL_SUCCESS"
      "''SV2: Pool rejected miner''"]
  by (auto simp: v2_open_def Let_def intro!: typed_retry typed_simps typed_opened_client split: sum.splits option.splits)

lemma v2_round_typed:
  assumes "typed_client n0 t c" "t = SV2_CHANNEL_STANDARD \<or> t = SV2_CHANNEL_EXTENDED" "frames_fit t (frames e)"
  shows "\<exists>r. v2_round p e c = Some r \<and> typed_client n0 t (either r)"
proof (cases "shutdown_requested e \<or> \<not> wifi_connected e \<or> MAX_RETRY_ATTEMPTS \<le> retry_attempts c")
  case True
  then show ?thesis using assms(1) by (auto simp: v2_round_def intro!: typing)
next
  case False
  note c1 = connect_typed [OF assms(1), of e] and early = False
  show ?thesis
  proof (cases "v2_connect e c")
    case (Inl c')
    then show ?thesis using early c1 by (simp add: v2_round_def)
  next
    case connected: (Inr c1')
    then have c2: "typed_client n0 t (either (v2_setup p e c1'))" using c1 by (simp add: setup_typed)
    show ?thesis
    proof (cases "v2_setup p e c1'")
      case (Inl c')
      then show ?thesis using early connected c2 by (simp add: v2_round_def)
    next
      case set_up: (Inr c2')
      then have c3: "typed_client n0 t (either (v2_open p e c2'))" using c2 by (simp add: open_typed)
      show ?thesis
      proof (cases "v2_open p e c2'")
        case (Inl c')
        then show ?thesis using early connected set_up c3 by (simp add: v2_round_def)
      next
        case opened: (Inr c3')
        then have c3': "typed_client n0 t c3'" using c3 by simp
        from receive_loop_typed [OF typed_client_state [OF c3'] assms(2,3)] obtain s where
          s: "receive_loop (frames e) (client_state c3') = Some s" "client_sound n0 t s" by blast
        have "typed_client n0 t (c3'\<lparr>client_state := s\<rparr>)" using c3' s(2) by (simp add: typed_client_def)
        then have "typed_client n0 t (retry None (c3'\<lparr>client_state := s\<rparr>))" by (rule typed_retry)
        then show ?thesis using early connected set_up opened s(1) by (simp add: v2_round_def)
      qed
    qed
  qed
qed

lemma v2_rounds_typed:
  "typed_client n0 t c \<Longrightarrow> t = SV2_CHANNEL_STANDARD \<or> t = SV2_CHANNEL_EXTENDED \<Longrightarrow> \<forall>e \<in> set es. frames_fit t (frames e) \<Longrightarrow>
   \<exists>r. v2_rounds p es c = Some r \<and> typed_client n0 t (either r)"
proof (induction es arbitrary: c)
  case Nil
  then show ?case by simp
next
  case (Cons e es)
  from v2_round_typed [OF Cons.prems(1,2), of e p] Cons.prems(3) obtain r where
    r: "v2_round p e c = Some r" "typed_client n0 t (either r)" by auto
  show ?case
  proof (cases r)
    case (Inl c')
    then show ?thesis using r by simp
  next
    case (Inr c')
    then show ?thesis using r Cons.IH [of c'] Cons.prems by simp
  qed
qed

lemma start_typed:
  assumes "stratum_v2_start conn_ok buf_ok configured is_BM1397 c = Inr c'"
    and "queue_invar (stratum_queue (client_state c))" "items (client_state c) = []" "events (client_state c) = []"
  shows "typed_client (work_received (client_state c), {#}) (sv2_select_channel_type configured is_BM1397) c' \<and>
    (sv2_select_channel_type configured is_BM1397 = SV2_CHANNEL_STANDARD \<or> sv2_select_channel_type configured is_BM1397 = SV2_CHANNEL_EXTENDED)"
proof -
  have t: "sv2_select_channel_type configured is_BM1397 = SV2_CHANNEL_STANDARD \<or> sv2_select_channel_type configured is_BM1397 = SV2_CHANNEL_EXTENDED"
    by (simp add: sv2_select_channel_type_def)
  moreover have "queue_invar (set_free_fn f (stratum_queue (client_state c)))" "queue_contents (set_free_fn f (stratum_queue (client_state c))) = []" for f
    using assms(2,3) by (simp_all add: items_def wq.set_tag_invar wq.set_tag_contents)
  ultimately show ?thesis
    using assms(1,4)
    by (auto simp: stratum_v2_start_def Let_def on_state_def typed_client_def client_sound_def client_typed_def jobs_accounted_def items_def set_free_fn_def
        zero_conn_def empty_pending_def SV2_PENDING_JOBS_SIZE_def split: if_splits)
qed

lemma close_empties: "queue_invar (stratum_queue (client_state c)) \<Longrightarrow> items (client_state (stratum_v2_close_connection c)) = []"
  by (rule queue_cleared [of "stratum_queue (client_state c)"])
    (auto simp: stratum_v2_close_connection_def SYSTEM_clean_jobs_queue_def items_def)

text \<open>The task ends with an empty queue.\<close>

lemma v2_rounds_end:
  assumes "typed_client n0 t c" "t = SV2_CHANNEL_STANDARD \<or> t = SV2_CHANNEL_EXTENDED" "\<forall>e \<in> set es. frames_fit t (frames e)"
    "v2_rounds p es c = Some (Inl c')"
  shows "items (client_state c') = []"
  using assms(1,3,4)
proof (induction es arbitrary: c)
  case (Cons e es)
  obtain r where r: "v2_round p e c = Some r" "typed_client n0 t (either r)"
    using v2_round_typed [OF Cons.prems(1) assms(2), of e p] Cons.prems(2) by auto
  show ?case
  proof (cases r)
    case (Inl c1)
    then have "v2_round p e c = Some (Inl c')" using r(1) Cons.prems(3) by simp
    then have "items (client_state c') = items (client_state (stratum_v2_close_connection c))"
      by (auto simp: v2_round_def sv2_conn_release_def split: if_splits sum.splits)
    moreover have "queue_invar (stratum_queue (client_state c))"
      using Cons.prems(1) by (simp add: typed_client_def client_sound_def client_typed_def)
    ultimately show ?thesis by (simp add: close_empties)
  next
    case (Inr c1)
    then show ?thesis using Cons.IH [of c1] Cons.prems r by simp
  qed
qed simp


definition fresh_task :: client where
  "fresh_task = \<lparr>client_state = fresh_client SV2_CHANNEL_UNKNOWN, client_links = \<lparr>transport_up = False, conn_published = False, noise_up = False\<rparr>,
     client_channel = SV2_CHANNEL_UNKNOWN, extended_flag = False, connection_info = [], client_version_mask = 0, version_rolling_msg = False,
     retry_attempts = 0, notices = []\<rparr>"

definition silent_round :: round_env where
  "silent_round = \<lparr>shutdown_requested = False, wifi_connected = True, transport_init_ok = True, resolve_ok = True, connect_ok = True,
     noise_create_ok = True, handshake_ok = False, peer_is_ipv6 = False, setup_sent = False, setup_reply = None, open_sent = False,
     open_reply = None, frames = []\<rparr>"

definition example_pool :: pool where
  "example_pool = \<lparr>pool_url = [112], pool_port = 3333, pool_user = None, asic_name = None\<rparr>"

lemma fresh_sound: "client_sound (0, {#}) t (fresh_client t)"
  by (simp add: client_sound_def fresh_typed fresh_accounted)

text \<open>A round in which the standard channel opens and the pool sends a block and two jobs for it, and the round that ends the task.\<close>

definition example_header :: "u8 \<Rightarrow> bytes" where
  "example_header typ = [0, 0, typ, 0, 0, 0]"

lemma example_header_type [simp]: "msg_type (sv2_parse_frame_header (example_header typ)) = typ"
  by (simp add: example_header_def sv2_parse_frame_header_def)

definition job_round :: round_env where
  "job_round = silent_round\<lparr>handshake_ok := True, setup_sent := True, open_sent := True,
     setup_reply := Some (example_header SV2_MSG_SETUP_CONNECTION_SUCCESS, [2, 0, 0, 0, 0, 0]),
     open_reply := Some (example_header SV2_MSG_OPEN_STANDARD_MINING_CHANNEL_SUCCESS, [1, 0, 0, 0, 7, 0, 0, 0] @ replicate 32 255 @ [0, 0, 0, 0, 0]),
     frames := [(env_ok, example_header SV2_MSG_SET_NEW_PREV_HASH, set_new_prev_hash 7 0 (replicate 32 7) 3 4),
                (env_ok, example_header SV2_MSG_NEW_MINING_JOB, new_mining_job 7 1 (Some 5) 4 (replicate 32 9)),
                (env_ok, example_header SV2_MSG_NEW_MINING_JOB, new_mining_job 7 2 (Some 6) 4 (replicate 32 8))]\<rparr>"

definition last_round :: round_env where
  "last_round = silent_round\<lparr>shutdown_requested := True\<rparr>"

lemma block_example:
  assumes "queue_invar (stratum_queue s)" "\<forall>i < SV2_PENDING_JOBS_SIZE. \<not> pend_valid (pending_jobs (sv2_conn s) ! i) \<and> ext_pending_jobs (sv2_conn s) ! i = None"
  shows "\<exists>s'. dispatch_frame env_ok SV2_MSG_SET_NEW_PREV_HASH (set_new_prev_hash chan k (replicate 32 b) nt nbits) s = Some s' \<and>
    queue_invar (stratum_queue s') \<and> has_prev_hash (sv2_conn s') \<and> work_received s' = work_received s"
proof -
  let ?P = "\<lambda>s'. queue_invar (stratum_queue s') \<and> sv2_conn s' = sv2_conn (new_tip (replicate 32 b) nt nbits s) \<and> work_received s' = work_received s"
  have parsed: "sv2_parse_set_new_prev_hash (set_new_prev_hash chan k (replicate 32 b) nt nbits) = Inr (chan, k, replicate 32 b, nt, nbits)"
    by (rule read_new_prev_hash) simp
  have "\<exists>s'. stratum_v2_handle_set_new_prev_hash (job_malloc_ok env_ok) (set_new_prev_hash chan k (replicate 32 b) nt nbits) s = Some s' \<and> ?P s'"
    by (rule new_prev_hash_keeps [OF parsed]) (use assms in \<open>auto simp: new_tip_def\<close>)
  then show ?thesis by (auto simp: dispatch_frame_def sv2_message_types new_tip_def)
qed

lemma job_example:
  assumes "queue_invar (stratum_queue s)" "has_prev_hash (sv2_conn s)"
  shows "\<exists>s'. dispatch_frame env_ok SV2_MSG_NEW_MINING_JOB (new_mining_job chan k (Some nt) ver (replicate 32 b)) s = Some s' \<and>
    queue_invar (stratum_queue s') \<and> has_prev_hash (sv2_conn s') \<and> work_received s' = work_received s + 1"
proof -
  let ?s = "SYSTEM_notify_new_ntime nt (s\<lparr>work_received := work_received s + 1\<rparr>)"
  let ?w = "V2_Work \<lparr>std_job_id = k, std_version = ver, std_merkle_root = replicate 32 b, std_prev_hash = conn_prev_hash (sv2_conn s),
    std_ntime = nt, std_nbits = prev_hash_nbits (sv2_conn s), std_clean_jobs = True\<rparr>"
  have same: "stratum_queue ?s = stratum_queue s" "sv2_conn ?s = sv2_conn s" "work_received ?s = work_received s + 1"
    by (simp_all add: SYSTEM_notify_new_ntime_def)
  have parsed: "sv2_parse_new_mining_job (new_mining_job chan k (Some nt) ver (replicate 32 b)) = Inr (chan, k, Some nt, ver, replicate 32 b)"
    using read_standard_job [of "replicate 32 b" chan k "Some nt" ver "[]"] by simp
  have "queue_invar (stratum_queue ?s)" using assms(1) same by simp
  from put_clean_work [OF this, of Free ?w] obtain q' m where
    "put_work True Free ?w ?s = Some (?s\<lparr>stratum_queue := q', job_marks := m, events := events ?s @ frees (queue_contents (stratum_queue ?s))\<rparr>)"
    "queue_invar q'" by blast
  then show ?thesis
    using assms(2) same parsed
    by (simp add: dispatch_frame_def stratum_v2_handle_new_mining_job_def stratum_v2_enqueue_job_def env_ok_def)
qed

lemma job_round_replies:
  "sv2_parse_setup_connection_success [2, 0, 0, 0, 0, 0] = Inr (2, 0)"
  "sv2_parse_open_channel_success ([1, 0, 0, 0, 7, 0, 0, 0] @ replicate 32 255 @ [0, 0, 0, 0, 0]) = Inr (1, 7, replicate 32 255, [], 0)"
  "setup_frame example_pool SV2_CHANNEL_STANDARD \<noteq> None" "open_frame example_pool SV2_CHANNEL_STANDARD \<noteq> None"
  by code_simp+

lemma job_round_runs:
  assumes "retry_attempts c < 3" "client_channel c = SV2_CHANNEL_STANDARD" "queue_invar (stratum_queue (client_state c))"
  shows "\<exists>c'. v2_round example_pool job_round c = Some (Inr c') \<and> work_received (client_state c') = work_received (client_state c) + 2"
proof -
  obtain f g where fg: "setup_frame example_pool SV2_CHANNEL_STANDARD = Some f" "open_frame example_pool SV2_CHANNEL_STANDARD = Some g"
    using job_round_replies(3,4) by blast
  define c3 where "c3 = c\<lparr>client_links := (client_links c)\<lparr>transport_up := True, conn_published := True, noise_up := True\<rparr>, connection_info := ''IPv4'',
    extended_flag := False, retry_attempts := 0, notices := notices c @ [Notify_Success],
    client_state := (client_state c)\<lparr>events := events (client_state c) @ [Sent f, Sent g],
      sv2_conn := zero_conn\<lparr>channel_type := SV2_CHANNEL_STANDARD, channel_id := 7, channel_opened := True, conn_target := replicate 32 255\<rparr>,
      pool_difficulty := hash_to_pdiff (replicate 32 255), new_set_mining_difficulty_msg := True\<rparr>\<rparr>"
  have c3: "v2_round example_pool job_round c = map_option (\<lambda>s. Inr (retry None (c3\<lparr>client_state := s\<rparr>))) (receive_loop (frames job_round) (client_state c3))"
    "sv2_conn (client_state c3) = zero_conn\<lparr>channel_type := SV2_CHANNEL_STANDARD, channel_id := 7, channel_opened := True, conn_target := replicate 32 255\<rparr>"
    "stratum_queue (client_state c3) = stratum_queue (client_state c)" "work_received (client_state c3) = work_received (client_state c)"
    using assms(1,2) job_round_replies(1,2) fg
    by (simp_all add: v2_round_def v2_connect_def v2_setup_def v2_open_def v2_exchange_def job_round_def silent_round_def MAX_RETRY_ATTEMPTS_def
        on_state_def send_frame_def channel_parameters_def c3_def Let_def del: receive_loop.simps)
  let ?s = "client_state c3"
  have idle: "\<forall>i < SV2_PENDING_JOBS_SIZE. \<not> pend_valid (pending_jobs (sv2_conn ?s) ! i) \<and> ext_pending_jobs (sv2_conn ?s) ! i = None"
    by (simp add: c3(2) zero_conn_def empty_pending_def SV2_PENDING_JOBS_SIZE_def)
  obtain s1 where s1: "dispatch_frame env_ok SV2_MSG_SET_NEW_PREV_HASH (set_new_prev_hash 7 0 (replicate 32 7) 3 4) ?s = Some s1"
    "queue_invar (stratum_queue s1)" "has_prev_hash (sv2_conn s1)" "work_received s1 = work_received ?s"
    using block_example [OF _ idle] assms(3) c3(3) by metis
  obtain s2 where s2: "dispatch_frame env_ok SV2_MSG_NEW_MINING_JOB (new_mining_job 7 1 (Some 5) 4 (replicate 32 9)) s1 = Some s2"
    "queue_invar (stratum_queue s2)" "has_prev_hash (sv2_conn s2)" "work_received s2 = work_received s1 + 1"
    using job_example [OF s1(2,3)] by metis
  obtain s3 where s3: "dispatch_frame env_ok SV2_MSG_NEW_MINING_JOB (new_mining_job 7 2 (Some 6) 4 (replicate 32 8)) s2 = Some s3"
    "work_received s3 = work_received s2 + 1"
    using job_example [OF s2(2,3)] by metis
  have "receive_loop (frames job_round) ?s = Some s3" using s1(1) s2(1) s3(1) by (simp add: job_round_def)
  moreover have "work_received (client_state (retry None (c3\<lparr>client_state := s3\<rparr>))) = work_received s3"
    by (simp add: retry_def stratum_v2_close_connection_def SYSTEM_clean_jobs_queue_def split: prod.split)
  ultimately show ?thesis using c3(1,4) s1(4) s2(4) s3(2) by simp
qed


section \<open>Giving up\<close>

text \<open>Whether the environment lets the channel open: what a round needs to report success.\<close>

definition channel_opens :: "pool \<Rightarrow> sv2_channel_type \<Rightarrow> round_env \<Rightarrow> bool" where
  "channel_opens p t e \<longleftrightarrow> transport_init_ok e \<and> resolve_ok e \<and> connect_ok e \<and> noise_create_ok e \<and> handshake_ok e \<and>
     setup_frame p t \<noteq> None \<and> setup_sent e \<and>
     (case setup_reply e of None \<Rightarrow> False
      | Some (hdr, payload) \<Rightarrow> msg_type (sv2_parse_frame_header hdr) = SV2_MSG_SETUP_CONNECTION_SUCCESS \<and>
          (case sv2_parse_setup_connection_success payload of Inl _ \<Rightarrow> False | Inr _ \<Rightarrow> True)) \<and>
     open_frame p t \<noteq> None \<and> open_sent e \<and>
     (case open_reply e of None \<Rightarrow> False
      | Some (hdr, payload) \<Rightarrow>
          msg_type (sv2_parse_frame_header hdr) =
            (if t = SV2_CHANNEL_EXTENDED then SV2_MSG_OPEN_EXTENDED_MINING_CHANNEL_SUCCESS else SV2_MSG_OPEN_STANDARD_MINING_CHANNEL_SUCCESS) \<and>
          channel_parameters t payload zero_conn \<noteq> None)"

lemma retry_simps [simp]:
  "retry_attempts (retry i c) = retry_attempts c + 1" "notices (retry i c) = notices c" "client_channel (retry i c) = client_channel c"
  "retry_attempts (retry_early j c) = retry_attempts c + 1" "notices (retry_early j c) = notices c" "client_channel (retry_early j c) = client_channel c"
  "retry_attempts (send_frame f c) = retry_attempts c" "notices (send_frame f c) = notices c" "client_channel (send_frame f c) = client_channel c"
  "retry_attempts (on_state g c) = retry_attempts c" "notices (on_state g c) = notices c" "client_channel (on_state g c) = client_channel c"
  by (simp_all add: retry_def retry_early_def send_frame_def on_state_def stratum_v2_close_connection_def Let_def split: option.split)

definition counts_retry :: "client \<Rightarrow> client \<Rightarrow> bool" where
  "counts_retry c c' \<longleftrightarrow> retry_attempts c' = retry_attempts c + 1 \<and> notices c' = notices c \<and> client_channel c' = client_channel c"

definition same_counts :: "client \<Rightarrow> client \<Rightarrow> bool" where
  "same_counts c c' \<longleftrightarrow> retry_attempts c' = retry_attempts c \<and> notices c' = notices c \<and> client_channel c' = client_channel c"

lemma connect_counts:
  "case v2_connect e c of
     Inl c' \<Rightarrow> counts_retry c c'
   | Inr c' \<Rightarrow> same_counts c c' \<and> transport_init_ok e \<and> resolve_ok e \<and> connect_ok e \<and> noise_create_ok e \<and> handshake_ok e \<and>
       sv2_conn (client_state c') = zero_conn\<lparr>channel_type := client_channel c\<rparr>"
  by (simp add: v2_connect_def counts_retry_def same_counts_def Let_def) (simp add: on_state_def)

lemma exchange_counts:
  "case v2_exchange f sent reply expected rejected c of
     Inl c' \<Rightarrow> counts_retry c c'
   | Inr (c', payload) \<Rightarrow> same_counts c c' \<and> f \<noteq> None \<and> sent \<and> sv2_conn (client_state c') = sv2_conn (client_state c) \<and>
       (\<exists>hdr. reply = Some (hdr, payload) \<and> msg_type (sv2_parse_frame_header hdr) = expected)"
  by (simp add: v2_exchange_def counts_retry_def same_counts_def Let_def split: option.split) (simp add: send_frame_def on_state_def)

lemma channel_parameters_type:
  "channel_parameters t payload (c\<lparr>channel_type := u\<rparr>) = None \<longleftrightarrow> channel_parameters t payload c = None"
  by (simp add: channel_parameters_def Let_def split: sum.split prod.split)

lemma v2_round_refused:
  assumes "\<not> shutdown_requested e" "wifi_connected e" "retry_attempts c < MAX_RETRY_ATTEMPTS" "\<not> channel_opens p (client_channel c) e"
  shows "\<exists>c'. v2_round p e c = Some (Inr c') \<and> counts_retry c c'"
proof (cases "v2_connect e c")
  case (Inl c')
  then show ?thesis using assms connect_counts [of c e] by (simp add: v2_round_def)
next
  case connected: (Inr c1)
  then have c1: "same_counts c c1" "transport_init_ok e" "resolve_ok e" "connect_ok e" "noise_create_ok e" "handshake_ok e"
    "sv2_conn (client_state c1) = zero_conn\<lparr>channel_type := client_channel c\<rparr>"
    using connect_counts [of c e] by simp_all
  then have chan: "client_channel c1 = client_channel c" by (simp add: same_counts_def)
  let ?x = "v2_exchange (setup_frame p (client_channel c1)) (setup_sent e) (setup_reply e) SV2_MSG_SETUP_CONNECTION_SUCCESS
      ''SV2: Pool rejected config'' c1"
  have shift: "same_counts c a \<Longrightarrow> counts_retry a b \<Longrightarrow> counts_retry c b" for a b by (simp add: same_counts_def counts_retry_def)
  have retries: "counts_retry a (retry i a)" for i a by (simp add: counts_retry_def)
  show ?thesis
  proof (cases "v2_setup p e c1")
    case (Inl c')
    moreover have "counts_retry c1 c'"
      using Inl exchange_counts [of c1 "setup_frame p (client_channel c1)" "setup_sent e" "setup_reply e" SV2_MSG_SETUP_CONNECTION_SUCCESS
          "''SV2: Pool rejected config''"]
      by (auto simp: v2_setup_def counts_retry_def same_counts_def split: sum.splits)
    ultimately show ?thesis using assms(1-3) connected shift [OF c1(1)] by (simp add: v2_round_def)
  next
    case set_up: (Inr c2)
    then have c2: "same_counts c1 c2" "setup_frame p (client_channel c) \<noteq> None" "setup_sent e" "sv2_conn (client_state c2) = sv2_conn (client_state c1)"
      "\<exists>hdr payload v. setup_reply e = Some (hdr, payload) \<and> msg_type (sv2_parse_frame_header hdr) = SV2_MSG_SETUP_CONNECTION_SUCCESS \<and>
         sv2_parse_setup_connection_success payload = Inr v"
      using exchange_counts [of c1 "setup_frame p (client_channel c1)" "setup_sent e" "setup_reply e" SV2_MSG_SETUP_CONNECTION_SUCCESS
          "''SV2: Pool rejected config''"] chan
      by (auto simp: v2_setup_def split: sum.splits)
    have both: "same_counts c c2" using c1(1) c2(1) by (simp add: same_counts_def)
    then have chan2: "client_channel c2 = client_channel c" by (simp add: same_counts_def)
    show ?thesis
    proof (cases "v2_open p e c2")
      case (Inl c')
      moreover have "counts_retry c2 c'"
        using Inl exchange_counts [of c2 "open_frame p (client_channel c2)" "open_sent e" "open_reply e"
            "if client_channel c2 = SV2_CHANNEL_EXTENDED then SV2_MSG_OPEN_EXTENDED_MINING_CHANNEL_SUCCESS else SV2_MSG_OPEN_STANDARD_MINING_CHANNEL_SUCCESS"
            "''SV2: Pool rejected miner''"]
        by (auto simp: v2_open_def Let_def counts_retry_def same_counts_def split: sum.splits option.splits)
      ultimately show ?thesis using assms(1-3) connected set_up shift [OF both] by (simp add: v2_round_def)
    next
      case opened: (Inr c3)
      then have "open_frame p (client_channel c) \<noteq> None" "open_sent e"
        "\<exists>hdr payload. open_reply e = Some (hdr, payload) \<and> msg_type (sv2_parse_frame_header hdr) =
           (if client_channel c = SV2_CHANNEL_EXTENDED then SV2_MSG_OPEN_EXTENDED_MINING_CHANNEL_SUCCESS else SV2_MSG_OPEN_STANDARD_MINING_CHANNEL_SUCCESS) \<and>
           channel_parameters (client_channel c) payload (sv2_conn (client_state c2)) \<noteq> None"
        using exchange_counts [of c2 "open_frame p (client_channel c2)" "open_sent e" "open_reply e"
            "if client_channel c2 = SV2_CHANNEL_EXTENDED then SV2_MSG_OPEN_EXTENDED_MINING_CHANNEL_SUCCESS else SV2_MSG_OPEN_STANDARD_MINING_CHANNEL_SUCCESS"
            "''SV2: Pool rejected miner''"] chan2
        by (auto simp: v2_open_def Let_def split: sum.splits option.splits)
      then have False using assms(4) c1 c2(2-5) by (auto simp: channel_opens_def channel_parameters_type)
      then show ?thesis ..
    qed
  qed
qed

lemma v2_rounds_refused:
  "\<forall>e \<in> set es. \<not> shutdown_requested e \<and> wifi_connected e \<and> \<not> channel_opens p (client_channel c) e \<Longrightarrow>
   retry_attempts c + length es \<le> MAX_RETRY_ATTEMPTS \<Longrightarrow>
   \<exists>c'. v2_rounds p es c = Some (Inr c') \<and> retry_attempts c' = retry_attempts c + length es \<and> notices c' = notices c \<and> client_channel c' = client_channel c"
proof (induction es arbitrary: c)
  case Nil
  then show ?case by simp
next
  case (Cons e es)
  have "\<exists>c1. v2_round p e c = Some (Inr c1) \<and> counts_retry c c1"
    by (rule v2_round_refused) (use Cons.prems in simp_all)
  then obtain c1 where c1: "v2_round p e c = Some (Inr c1)" "retry_attempts c1 = retry_attempts c + 1" "notices c1 = notices c" "client_channel c1 = client_channel c"
    unfolding counts_retry_def by blast
  have "\<exists>c'. v2_rounds p es c1 = Some (Inr c') \<and> retry_attempts c' = retry_attempts c1 + length es \<and> notices c' = notices c1 \<and> client_channel c' = client_channel c1"
    by (rule Cons.IH) (use Cons.prems c1 in simp_all)
  then show ?case using c1 by simp
qed

lemma v2_rounds_append:
  "v2_rounds p es c = Some (Inr c') \<Longrightarrow> v2_rounds p (es @ fs) c = v2_rounds p fs c'"
  by (induction es arbitrary: c) (auto split: option.splits sum.splits)

text \<open>
  Three attempts in a row that do not open the channel end the task at the next round, not before: the
  coordinator gets exactly one failure notice, the connection is closed and no longer published, and the queue
  is empty.
\<close>

theorem gives_up_after_three:
  assumes "retry_attempts c = 0" "queue_invar (stratum_queue (client_state c'))" "v2_rounds p [a1, a2, a3] c = Some (Inr c')"
    and "\<forall>e \<in> {a1, a2, a3}. \<not> shutdown_requested e \<and> wifi_connected e \<and> \<not> channel_opens p (client_channel c) e"
    and "\<not> shutdown_requested e" "wifi_connected e"
  shows "notices c' = notices c \<and>
    (\<exists>c''. v2_rounds p [a1, a2, a3, e] c = Some (Inl c'') \<and> notices c'' = notices c @ [Notify_Failure] \<and>
      \<not> transport_up (client_links c'') \<and> \<not> noise_up (client_links c'') \<and> \<not> conn_published (client_links c'') \<and> items (client_state c'') = [])"
proof -
  have "\<exists>c'. v2_rounds p [a1, a2, a3] c = Some (Inr c') \<and> retry_attempts c' = retry_attempts c + length [a1, a2, a3] \<and> notices c' = notices c \<and>
      client_channel c' = client_channel c"
    by (rule v2_rounds_refused) (use assms(1,4) in \<open>simp_all add: MAX_RETRY_ATTEMPTS_def\<close>)
  with assms(1,3) have c': "retry_attempts c' = 3" "notices c' = notices c" by (auto simp del: v2_rounds.simps)
  from queue_cleared [OF assms(2)] obtain q where q: "queue_clear (stratum_queue (client_state c')) = (queue_contents (stratum_queue (client_state c')), q)"
    "queue_contents q = []" by blast
  let ?out = "(sv2_conn_release (stratum_v2_close_connection c'))\<lparr>notices := notices c' @ [Notify_Failure]\<rparr>"
  have "v2_rounds p ([a1, a2, a3] @ [e]) c = Some (Inl ?out)"
    unfolding v2_rounds_append [OF assms(3)] using assms(5,6) c'(1) by (simp add: v2_round_def MAX_RETRY_ATTEMPTS_def)
  then show ?thesis
    using c'(2) q by (simp add: sv2_conn_release_def stratum_v2_close_connection_def SYSTEM_clean_jobs_queue_def items_def)
qed

theorem gives_up_after_three_witness:
  "\<exists>c. v2_rounds example_pool [silent_round, silent_round, silent_round, silent_round] fresh_task = Some (Inl c) \<and> notices c = [Notify_Failure]"
proof -
  have typed: "typed_client (0, {#}) SV2_CHANNEL_UNKNOWN fresh_task" using fresh_sound by (simp add: typed_client_def fresh_task_def)
  have round: "v2_round example_pool silent_round c =
      Some (Inr (retry (Some ''SV2: Auth failed - check key'')
        ((on_state (\<lambda>s. s\<lparr>sv2_conn := zero_conn\<rparr>) (c\<lparr>client_links := (client_links c)\<lparr>transport_up := True, conn_published := True\<rparr>\<rparr>))
          \<lparr>client_links := (client_links (on_state (\<lambda>s. s\<lparr>sv2_conn := zero_conn\<rparr>) (c\<lparr>client_links := (client_links c)\<lparr>transport_up := True, conn_published := True\<rparr>\<rparr>)))\<lparr>noise_up := True\<rparr>\<rparr>)))"
    if "retry_attempts c < 3" for c
    using that by (simp add: v2_round_def v2_connect_def silent_round_def MAX_RETRY_ATTEMPTS_def Let_def)
  have step: "\<exists>c'. v2_round example_pool silent_round c = Some (Inr c') \<and> typed_client (0, {#}) t c' \<and> retry_attempts c' = retry_attempts c + 1"
    if "typed_client (0, {#}) t c" "retry_attempts c < 3" for c t
    using that round [OF that(2)] by (auto intro!: typing intro: typed_client_state)
  have zero: "retry_attempts fresh_task = 0" by (simp add: fresh_task_def)
  obtain c1 where c1: "v2_round example_pool silent_round fresh_task = Some (Inr c1)" "typed_client (0, {#}) SV2_CHANNEL_UNKNOWN c1" "retry_attempts c1 = 1"
    using step [OF typed] zero by auto
  obtain c2 where c2: "v2_round example_pool silent_round c1 = Some (Inr c2)" "typed_client (0, {#}) SV2_CHANNEL_UNKNOWN c2" "retry_attempts c2 = 2"
    using step [OF c1(2)] c1(3) by auto
  obtain c3 where c3: "v2_round example_pool silent_round c2 = Some (Inr c3)" "typed_client (0, {#}) SV2_CHANNEL_UNKNOWN c3" "retry_attempts c3 = 3"
    using step [OF c2(2)] c2(3) by auto
  have run: "v2_rounds example_pool [silent_round, silent_round, silent_round] fresh_task = Some (Inr c3)"
    using c1 c2 c3 by simp
  have q: "queue_invar (stratum_queue (client_state c3))" using c3(2) by (simp add: typed_client_def client_sound_def client_typed_def)
  have n: "notices fresh_task = []" by (simp add: fresh_task_def)
  have "\<forall>e \<in> {silent_round, silent_round, silent_round}. \<not> shutdown_requested e \<and> wifi_connected e \<and> \<not> channel_opens example_pool (client_channel fresh_task) e"
    "\<not> shutdown_requested silent_round" "wifi_connected silent_round"
    by (simp_all add: silent_round_def channel_opens_def)
  from gives_up_after_three [OF zero q run this] n show ?thesis by auto
qed

end
