(* ===== verification/Job_Creation.thy ===== *)
theory Job_Creation
  imports C_Text Sv2_Client Asic
begin

text \<open>
  \<open>main/tasks/create_jobs_task.c\<close>: the task that takes work from the queue and makes jobs for the ASIC. The first
  part builds a job from each kind of work; the second is the loop, which keeps the current work, replaces it
  when new work arrives or the protocol changes, and frees what it drops.
\<close>

section \<open>Building a job\<close>

definition MAX_EXTRANONCE2_LEN :: int where "MAX_EXTRANONCE2_LEN = 32"

text \<open>
  The outcome: nothing sent, a job sent, or a write beyond the stack buffers. \<open>strdup\<close> is taken to succeed.
  \<open>uninit\<close> is the memory of \<open>malloc\<close>, \<open>junk\<close> that of the stack.
\<close>

datatype generated = Job_Skipped | Buffer_Overflow | Job_Sent bm_job

text \<open>What a generator reads besides its arguments.\<close>

record generator_env =
  gen_sha :: sha_lib
  gen_malloc_ok :: bool
  gen_coinbase_malloc_ok :: bool
  gen_asic_initialized :: bool
  gen_version_mask :: u32
  gen_junk :: bytes
  gen_uninit :: bm_job

text \<open>
  \<open>generate_work\<close>: \<open>extranonce_str\<close> (or null) and \<open>extranonce_2_len\<close> are copied under their lock. The length is an
  \<open>int\<close> that only has an upper bound: a negative one becomes a huge \<open>uint32_t\<close>, and \<open>extranonce_2_generate\<close>
  writes that many bytes into a buffer for 32.
\<close>

definition generate_work :: "generator_env \<Rightarrow> bytes option \<Rightarrow> int \<Rightarrow> mining_notify \<Rightarrow> u64 \<Rightarrow> rat \<Rightarrow> generated" where
  "generate_work env extranonce_str extranonce_2_len notif counter diff =
     (case extranonce_str of
        None \<Rightarrow> Job_Skipped
      | Some extranonce_1 \<Rightarrow>
          if MAX_EXTRANONCE_STR_LEN + 1 \<le> length extranonce_1 then Job_Skipped
          else if MAX_EXTRANONCE2_LEN < extranonce_2_len then Job_Skipped
          else if extranonce_2_len < 0 then Buffer_Overflow
          else
            let extranonce_2_str = the (extranonce_2_generate counter (nat extranonce_2_len));
                coinbase_tx_hash = calculate_coinbase_tx_hash (gen_sha env) (notify_coinbase_1 notif) (notify_coinbase_2 notif)
                  extranonce_1 extranonce_2_str;
                mroot = calculate_merkle_root_hash (gen_sha env) coinbase_tx_hash (notify_merkle_branches notif)
            in if \<not> gen_malloc_ok env then Job_Skipped
               else let job = construct_bm_job (gen_sha env) (gen_junk env) notif mroot (gen_version_mask env) diff (gen_uninit env);
                        next_job = job\<lparr>extranonce2 := extranonce_2_str, jobid := notify_job_id notif, version_mask := gen_version_mask env\<rparr>
                    in if \<not> gen_asic_initialized env then Job_Skipped else Job_Sent next_job)"

text \<open>
  The code that the two Stratum V2 generators share: the header fields with their words reversed, and the
  midstates, four with a version mask and one without.
\<close>

definition sv2_header_fields :: "sha_lib \<Rightarrow> u32 \<Rightarrow> u32 \<Rightarrow> bytes \<Rightarrow> bytes \<Rightarrow> u32 \<Rightarrow> u32 \<Rightarrow> rat \<Rightarrow> bm_job \<Rightarrow> bm_job" where
  "sv2_header_fields L msk ver prev mroot nt nbits diff next_job =
     (let state = (\<lambda>v. reverse_32bit_words (midstate_sha256_bin L (header_block v prev mroot)));
          job = next_job\<lparr>version := ver, target := nbits, ntime := nt, starting_nonce := 0, pool_diff := diff,
                  merkle_root := reverse_32bit_words mroot, prev_block_hash := reverse_32bit_words prev, midstate := state ver\<rparr>
      in if msk \<noteq> 0 then
           let rolled1 = increment_bitmask ver msk; rolled2 = increment_bitmask rolled1 msk; rolled3 = increment_bitmask rolled2 msk
           in job\<lparr>midstate1 := state rolled1, midstate2 := state rolled2, midstate3 := state rolled3, num_midstates := 4\<rparr>
         else job\<lparr>num_midstates := 1\<rparr>)"

definition generate_work_sv2 :: "generator_env \<Rightarrow> sv2_job \<Rightarrow> rat \<Rightarrow> generated" where
  "generate_work_sv2 env j diff =
     (if \<not> gen_malloc_ok env then Job_Skipped
      else let job = sv2_header_fields (gen_sha env) (gen_version_mask env) (std_version j) (std_prev_hash j) (std_merkle_root j)
                 (std_ntime j) (std_nbits j) diff (gen_uninit env);
               next_job = job\<lparr>jobid := dec_bytes (unat (std_job_id j)), extranonce2 := [], version_mask := gen_version_mask env\<rparr>
           in if \<not> gen_asic_initialized env then Job_Skipped else Job_Sent next_job)"

text \<open>The loop that writes the counter in big-endian bytes, from the last byte of the extranonce downwards.\<close>

fun be_counter :: "nat \<Rightarrow> u64 \<Rightarrow> bytes \<Rightarrow> bytes" where
  "be_counter 0 counter buf = buf"
| "be_counter (Suc i) counter buf =
     (if counter > 0 then be_counter i (drop_bit 8 counter) (buf[i := ucast (counter AND 0xFF)]) else buf)"

text \<open>
  \<open>generate_work_sv2_ext\<close>: the connection (\<open>None\<close> when there is none) is copied under its lock. When the memory
  for the coinbase is not there, the hash buffer is the stack as it was.
\<close>

definition generate_work_sv2_ext :: "generator_env \<Rightarrow> sv2_conn option \<Rightarrow> sv2_ext_job \<Rightarrow> rat \<Rightarrow> u64 \<Rightarrow> generated" where
  "generate_work_sv2_ext env conn j diff counter =
     (case conn of
        None \<Rightarrow> Job_Skipped
      | Some c \<Rightarrow>
          if \<not> gen_malloc_ok env then Job_Skipped
          else let extranonce_2_len = (if 32 < extranonce_size c then 32 else unat (extranonce_size c));
                   buf = be_counter extranonce_2_len counter (replicate 32 0);
                   extranonce_2 = take extranonce_2_len buf;
                   coinbase_tx_hash = (case calculate_coinbase_tx_hash_bin (gen_sha env) (gen_coinbase_malloc_ok env) (coinbase_prefix j)
                       (take (unat (extranonce_prefix_len c)) (extranonce_prefix c)) extranonce_2 (coinbase_suffix j) of
                         None \<Rightarrow> take 32 (gen_junk env) | Some h \<Rightarrow> h);
                   mroot = calculate_merkle_root_hash (gen_sha env) coinbase_tx_hash (merkle_path j);
                   job = sv2_header_fields (gen_sha env) (gen_version_mask env) (ext_version j) (ext_prev_hash j) mroot
                     (ext_ntime j) (ext_nbits j) diff (gen_uninit env);
                   next_job = job\<lparr>jobid := dec_bytes (unat (ext_job_id j)), extranonce2 := the (snd (bin2hex extranonce_2 65)),
                     version_mask := gen_version_mask env\<rparr>
               in if \<not> gen_asic_initialized env then Job_Skipped else Job_Sent next_job)"

section \<open>The loop\<close>

datatype stratum_protocol = STRATUM_PROTOCOL_UNKNOWN | STRATUM_PROTOCOL_V1 | STRATUM_PROTOCOL_V2

text \<open>The local variables of \<open>create_jobs_task\<close>; \<open>None\<close> for the work is the null pointer.\<close>

record job_task =
  job_difficulty :: rat
  current_work :: "work option"
  current_work_free_fn :: "free_function option"
  current_work_protocol :: stratum_protocol
  job_extranonce_2 :: u64
  timeout_ms :: int

text \<open>
  What one iteration reads from outside: the protocol at its three reads, the channel flag at the reads that
  decide how the work is used, what the queue gave, the time waited, the job interval, the pool difficulty if
  its message flag is set, and whether the version mask is to be set.
\<close>

record iteration_env =
  protocol_first :: stratum_protocol
  protocol_second :: stratum_protocol
  protocol_third :: stratum_protocol
  extended_at_clean :: bool
  extended_at_resend :: bool
  extended_at_generate :: bool
  dequeued :: "(work \<times> free_function option) option"
  waited_ms :: int
  job_interval :: int
  new_difficulty :: "rat option"
  set_version_mask :: bool

datatype job_action =
  Free_Work work "free_function option" | Set_Version_Mask | Wait_Ms nat
| Generate mining_notify u64 rat | Generate_Sv2 sv2_job rat | Generate_Sv2_Ext sv2_ext_job rat u64

text \<open>\<open>free_work\<close> does nothing for a null pointer.\<close>

definition free_work :: "free_function option \<Rightarrow> work option \<Rightarrow> job_action list" where
  "free_work f w = (case w of None \<Rightarrow> [] | Some x \<Rightarrow> [Free_Work x f])"

text \<open>
  The casts of the code: the work is read as the type that the protocol and the channel flag select. \<open>None\<close> is a
  read of one structure as another, which is undefined.
\<close>

definition clean_flag :: "stratum_protocol \<Rightarrow> bool \<Rightarrow> work \<Rightarrow> bool option" where
  "clean_flag protocol extended w =
     (if protocol = STRATUM_PROTOCOL_V2 then
        (if extended then (case w of V2_Ext_Work j \<Rightarrow> Some (ext_clean_jobs j) | _ \<Rightarrow> None)
         else (case w of V2_Work j \<Rightarrow> Some (std_clean_jobs j) | _ \<Rightarrow> None))
      else (case w of V1_Work n \<Rightarrow> Some (notify_clean_jobs n) | _ \<Rightarrow> None))"

definition generate :: "stratum_protocol \<Rightarrow> bool \<Rightarrow> work \<Rightarrow> rat \<Rightarrow> u64 \<Rightarrow> (job_action \<times> u64) option" where
  "generate protocol extended w diff counter =
     (if protocol = STRATUM_PROTOCOL_V2 then
        (if extended then (case w of V2_Ext_Work j \<Rightarrow> Some (Generate_Sv2_Ext j diff counter, counter + 1) | _ \<Rightarrow> None)
         else (case w of V2_Work j \<Rightarrow> Some (Generate_Sv2 j diff, counter) | _ \<Rightarrow> None))
      else (case w of V1_Work n \<Rightarrow> Some (Generate n counter diff, counter + 1) | _ \<Rightarrow> None))"

text \<open>The end of an iteration: the last protocol check, and the job.\<close>

definition finish_iteration :: "iteration_env \<Rightarrow> job_action list \<Rightarrow> job_task \<Rightarrow> (job_task \<times> job_action list) option" where
  "finish_iteration e acts t =
     (if protocol_third e \<noteq> current_work_protocol t then
        Some (t\<lparr>current_work := None, current_work_protocol := protocol_third e, timeout_ms := job_interval e\<rparr>,
              acts @ free_work (current_work_free_fn t) (current_work t))
      else case current_work t of
             None \<Rightarrow> None
           | Some w \<Rightarrow> map_option (\<lambda>(act, counter). (t\<lparr>job_extranonce_2 := counter, timeout_ms := job_interval e\<rparr>, acts @ [act]))
                        (generate (protocol_third e) (extended_at_generate e) w (job_difficulty t) (job_extranonce_2 t)))"

definition job_iteration :: "iteration_env \<Rightarrow> job_task \<Rightarrow> (job_task \<times> job_action list) option" where
  "job_iteration e t0 =
     (let switched = protocol_first e \<noteq> current_work_protocol t0;
          t1 = (if switched then t0\<lparr>current_work := None, current_work_protocol := protocol_first e\<rparr> else t0);
          acts1 = (if switched then free_work (current_work_free_fn t0) (current_work t0) else []);
          t2 = t1\<lparr>timeout_ms := timeout_ms t1 - waited_ms e\<rparr>
      in case dequeued e of
           Some (new_work, new_work_free_fn) \<Rightarrow>
             let acts2 = acts1 @ free_work (current_work_free_fn t2) (current_work t2);
                 t3 = t2\<lparr>current_work := None\<rparr>
             in if protocol_second e \<noteq> current_work_protocol t3 then
                  Some (t3\<lparr>current_work_protocol := protocol_second e, timeout_ms := job_interval e\<rparr>,
                        acts2 @ free_work new_work_free_fn (Some new_work))
                else
                  let t4 = t3\<lparr>current_work := Some new_work, current_work_free_fn := new_work_free_fn,
                             job_difficulty := (case new_difficulty e of Some d \<Rightarrow> d | None \<Rightarrow> job_difficulty t3), job_extranonce_2 := 0\<rparr>;
                      acts4 = acts2 @ (if set_version_mask e then [Set_Version_Mask] else [])
                  in Option.bind (clean_flag (current_work_protocol t4) (extended_at_clean e) new_work) (\<lambda>clean.
                       if \<not> clean then Some (t4, acts4) else finish_iteration e acts4 t4)
         | None \<Rightarrow>
             (if current_work t2 = None then Some (t2, acts1 @ [Wait_Ms 100])
              else if protocol_first e = STRATUM_PROTOCOL_V2 \<and> \<not> extended_at_resend e then Some (t2\<lparr>timeout_ms := job_interval e\<rparr>, acts1)
              else finish_iteration e acts1 t2))"

definition job_task_init :: "rat \<Rightarrow> stratum_protocol \<Rightarrow> int \<Rightarrow> job_task" where
  "job_task_init diff protocol interval =
     \<lparr>job_difficulty = diff, current_work = None, current_work_free_fn = None, current_work_protocol = protocol,
      job_extranonce_2 = 0, timeout_ms = interval\<rparr>"

fun job_iterations :: "iteration_env list \<Rightarrow> job_task \<Rightarrow> (job_task \<times> job_action list) option" where
  "job_iterations [] t = Some (t, [])"
| "job_iterations (e # es) t =
     Option.bind (job_iteration e t) (\<lambda>(t1, acts1). map_option (\<lambda>(t2, acts2). (t2, acts1 @ acts2)) (job_iterations es t1))"

section \<open>Every item is freed once, and used as what it is\<close>

definition held :: "job_task \<Rightarrow> (work \<times> free_function option) list" where
  "held t = (case current_work t of None \<Rightarrow> [] | Some w \<Rightarrow> [(w, current_work_free_fn t)])"

definition freed_in :: "job_action list \<Rightarrow> (work \<times> free_function option) list" where
  "freed_in acts = concat (map (\<lambda>a. case a of Free_Work w f \<Rightarrow> [(w, f)] | _ \<Rightarrow> []) acts)"

definition taken :: "iteration_env \<Rightarrow> (work \<times> free_function option) list" where
  "taken e = (case dequeued e of None \<Rightarrow> [] | Some x \<Rightarrow> [x])"

text \<open>The type of work that belongs to a protocol and a kind of channel.\<close>

fun fits :: "stratum_protocol \<Rightarrow> bool \<Rightarrow> work \<Rightarrow> bool" where
  "fits p x (V1_Work _) \<longleftrightarrow> p \<noteq> STRATUM_PROTOCOL_V2"
| "fits p x (V2_Work _) \<longleftrightarrow> p = STRATUM_PROTOCOL_V2 \<and> \<not> x"
| "fits p x (V2_Ext_Work _) \<longleftrightarrow> p = STRATUM_PROTOCOL_V2 \<and> x"

text \<open>
  An item that is taken is thrown away when the protocol was switched during the wait, and read otherwise; then it
  has to be of the type of the protocol and the channel. \<open>consistent\<close>: an iteration whose channel flag is always \<open>x\<close>
  and whose item, if it is read, has that type.
\<close>

definition misfit :: "bool \<Rightarrow> iteration_env \<Rightarrow> bool" where
  "misfit x e \<longleftrightarrow> (\<exists>w f. dequeued e = Some (w, f) \<and> protocol_second e = protocol_first e \<and> \<not> fits (protocol_second e) x w)"

definition consistent :: "bool \<Rightarrow> iteration_env \<Rightarrow> bool" where
  "consistent x e \<longleftrightarrow> extended_at_clean e = x \<and> extended_at_resend e = x \<and> extended_at_generate e = x \<and>
     (\<forall>w f. dequeued e = Some (w, f) \<and> protocol_second e = protocol_first e \<longrightarrow> fits (protocol_second e) x w)"

definition task_fits :: "bool \<Rightarrow> job_task \<Rightarrow> bool" where
  "task_fits x t \<longleftrightarrow> (\<forall>w. current_work t = Some w \<longrightarrow> fits (current_work_protocol t) x w)"

lemma freed_in_simps [simp]:
  "freed_in [] = []" "freed_in (as @ bs) = freed_in as @ freed_in bs" "freed_in [Set_Version_Mask] = []" "freed_in [Wait_Ms n] = []"
  "freed_in [Generate m c d] = []" "freed_in [Generate_Sv2 j d] = []" "freed_in [Generate_Sv2_Ext i d c] = []"
  "freed_in (free_work f w) = (case w of None \<Rightarrow> [] | Some x \<Rightarrow> [(x, f)])"
  by (simp_all add: freed_in_def free_work_def split: option.split)

lemma clean_flag_fits: "fits p x w \<Longrightarrow> clean_flag p x w \<noteq> None"
  by (cases w) (auto simp: clean_flag_def)

lemma generate_fits: "fits p x w \<Longrightarrow> \<exists>act c'. generate p x w d c = Some (act, c') \<and> freed_in [act] = []"
  by (cases w) (auto simp: generate_def)

lemma finish_iteration_step:
  assumes "extended_at_generate e = x" "task_fits x t" "current_work t \<noteq> None"
  shows "\<exists>t' acts'. finish_iteration e acts t = Some (t', acts') \<and> task_fits x t' \<and>
    mset (freed_in acts') + mset (held t') = mset (freed_in acts) + mset (held t)"
proof -
  obtain w where w: "current_work t = Some w" using assms(3) by blast
  with assms(2) have fit: "fits (current_work_protocol t) x w" by (simp add: task_fits_def)
  show ?thesis
  proof (cases "protocol_third e = current_work_protocol t")
    case False
    then show ?thesis using w by (simp add: finish_iteration_def task_fits_def held_def)
  next
    case True
    from generate_fits [OF fit, of "job_difficulty t" "job_extranonce_2 t"] obtain act c' where
      "generate (current_work_protocol t) x w (job_difficulty t) (job_extranonce_2 t) = Some (act, c')" "freed_in [act] = []" by blast
    then show ?thesis using True w fit assms(1) by (simp add: finish_iteration_def task_fits_def held_def)
  qed
qed

lemma job_iteration_step:
  assumes "consistent x e" "task_fits x t"
  shows "\<exists>t' acts. job_iteration e t = Some (t', acts) \<and> task_fits x t' \<and>
    mset (freed_in acts) + mset (held t') = mset (held t) + mset (taken e)"
proof -
  define switched where "switched = (protocol_first e \<noteq> current_work_protocol t)"
  define t1 where "t1 = (if switched then t\<lparr>current_work := None, current_work_protocol := protocol_first e\<rparr> else t)"
  define acts1 where "acts1 = (if switched then free_work (current_work_free_fn t) (current_work t) else [])"
  define t2 where "t2 = t1\<lparr>timeout_ms := timeout_ms t1 - waited_ms e\<rparr>"
  have same: "current_work t2 = current_work t1" "current_work_protocol t2 = current_work_protocol t1"
    "current_work_free_fn t2 = current_work_free_fn t1" "job_difficulty t2 = job_difficulty t1" by (simp_all add: t2_def)
  have p2: "current_work_protocol t2 = protocol_first e" by (simp add: t2_def t1_def switched_def)
  have fit2: "task_fits x t2" using assms(2) by (auto simp: t2_def t1_def task_fits_def)
  have held2: "mset (freed_in acts1) + mset (held t2) = mset (held t)"
    by (auto simp: acts1_def t2_def t1_def held_def split: option.split)
  show ?thesis
  proof (cases "dequeued e")
    case None
    have unfold: "job_iteration e t =
      (if current_work t2 = None then Some (t2, acts1 @ [Wait_Ms 100])
       else if protocol_first e = STRATUM_PROTOCOL_V2 \<and> \<not> extended_at_resend e then Some (t2\<lparr>timeout_ms := job_interval e\<rparr>, acts1)
       else finish_iteration e acts1 t2)"
      by (simp add: job_iteration_def Let_def None same flip: switched_def t1_def acts1_def t2_def)
    have taken: "taken e = []" by (simp add: taken_def None)
    show ?thesis
    proof (cases "current_work t2 = None \<or> protocol_first e = STRATUM_PROTOCOL_V2 \<and> \<not> extended_at_resend e")
      case True
      then show ?thesis using held2 fit2 by (auto simp: unfold taken held_def task_fits_def)
    next
      case False
      have "extended_at_generate e = x" using assms(1) by (simp add: consistent_def)
      moreover have "job_iteration e t = finish_iteration e acts1 t2" using False by (auto simp: unfold)
      ultimately show ?thesis using finish_iteration_step [OF _ fit2, of e acts1] False held2 by (simp add: taken)
    qed
  next
    case (Some d)
    obtain w f where d: "d = (w, f)" by (cases d)
    define acts2 where "acts2 = acts1 @ free_work (current_work_free_fn t2) (current_work t2)"
    define t4 where "t4 = t2\<lparr>current_work := Some w, current_work_free_fn := f,
       job_difficulty := (case new_difficulty e of Some d \<Rightarrow> d | None \<Rightarrow> job_difficulty t2), job_extranonce_2 := 0\<rparr>"
    define acts4 where "acts4 = acts2 @ (if set_version_mask e then [Set_Version_Mask] else [])"
    have unfold: "job_iteration e t =
      (if protocol_second e \<noteq> current_work_protocol t2 then
         Some (t2\<lparr>current_work := None, current_work_protocol := protocol_second e, timeout_ms := job_interval e\<rparr>, acts2 @ free_work f (Some w))
       else Option.bind (clean_flag (current_work_protocol t4) (extended_at_clean e) w) (\<lambda>clean.
              if \<not> clean then Some (t4, acts4) else finish_iteration e acts4 t4))"
      unfolding job_iteration_def Let_def Some d option.case prod.case acts4_def acts2_def t4_def t2_def acts1_def t1_def switched_def by (simp cong: if_cong option.case_cong)
    have freed2: "mset (freed_in acts2) = mset (held t)"
      using held2 by (auto simp: acts2_def held_def split: option.splits)
    then have freed4: "mset (freed_in acts4) = mset (held t)" by (simp add: acts4_def)
    have taken: "taken e = [(w, f)]" by (simp add: taken_def Some d)
    show ?thesis
    proof (cases "protocol_second e = current_work_protocol t2")
      case False
      then show ?thesis using freed2 by (simp add: unfold taken held_def task_fits_def)
    next
      case True
      then have fit: "fits (current_work_protocol t4) x w" and ext: "extended_at_clean e = x" "extended_at_generate e = x"
        using assms(1) Some d p2 by (auto simp: consistent_def t4_def)
      then have fit4: "task_fits x t4" by (simp add: task_fits_def t4_def)
      have held4: "held t4 = [(w, f)]" by (simp add: held_def t4_def)
      obtain clean where clean: "clean_flag (current_work_protocol t4) (extended_at_clean e) w = Some clean"
        using clean_flag_fits [OF fit] ext(1) by auto
      have "current_work t4 \<noteq> None" by (simp add: t4_def)
      from finish_iteration_step [OF ext(2) fit4 this, of acts4] fit4 held4 freed4 show ?thesis
        using True by (cases clean) (auto simp: unfold clean taken)
    qed
  qed
qed

lemma consistent_misfit:
  "consistent x e \<longleftrightarrow> extended_at_clean e = x \<and> extended_at_resend e = x \<and> extended_at_generate e = x \<and> \<not> misfit x e"
  by (auto simp: consistent_def misfit_def)

lemma misfit_misread:
  assumes "misfit x e" "extended_at_clean e = x"
  shows "job_iteration e t = None"
proof -
  obtain w f where w: "dequeued e = Some (w, f)" "protocol_second e = protocol_first e" "\<not> fits (protocol_second e) x w"
    using assms(1) by (auto simp: misfit_def)
  then have "clean_flag (protocol_first e) x w = None" by (cases w) (auto simp: clean_flag_def)
  then show ?thesis using w(1,2) assms(2) by (simp add: job_iteration_def Let_def)
qed

lemma job_iterations_step:
  assumes "\<forall>e \<in> set es. consistent x e" "task_fits x t"
  shows "\<exists>t' acts. job_iterations es t = Some (t', acts) \<and> mset (freed_in acts) + mset (held t') = mset (held t) + mset (concat (map taken es))"
  using assms
proof (induction es arbitrary: t)
  case (Cons e es)
  from job_iteration_step [of x e t] Cons.prems obtain t1 acts1 where
    t1: "job_iteration e t = Some (t1, acts1)" "task_fits x t1" "mset (freed_in acts1) + mset (held t1) = mset (held t) + mset (taken e)" by auto
  from Cons.IH [OF _ t1(2)] Cons.prems obtain t2 acts2 where
    "job_iterations es t1 = Some (t2, acts2)" "mset (freed_in acts2) + mset (held t2) = mset (held t1) + mset (concat (map taken es))" by auto
  with t1 show ?case by (simp add: ac_simps)
qed simp

lemma job_iterations_misread:
  assumes "e \<in> set es" "misfit x e" "extended_at_clean e = x"
  shows "job_iterations es t = None"
  using assms(1)
proof (induction es arbitrary: t)
  case (Cons d es)
  show ?case
  proof (cases "d = e")
    case True
    then show ?thesis using misfit_misread [OF assms(2,3)] by simp
  next
    case False
    then have "job_iterations es t' = None" for t' using Cons by simp
    then show ?thesis by (cases "job_iteration d t") auto
  qed
qed simp

text \<open>
  C12. While the kind of channel does not change, the task reads an item of the queue as another type exactly when it
  takes one that is not of the type of the protocol and the channel and the protocol is not switched during that
  wait: nothing is assumed about the items here (what the protocol tasks put into the queue is the subject of
  \<open>V1_Task\<close> and \<open>Sv2_Connection\<close>). In every run without such an item, whenever the protocol is switched, every item
  the task took is either its current work or was freed exactly once, with the function that came with it.
\<close>

theorem job_task_safe:
  assumes "\<forall>e \<in> set es. extended_at_clean e = x \<and> extended_at_resend e = x \<and> extended_at_generate e = x"
  shows "case job_iterations es (job_task_init diff protocol interval) of
      None \<Rightarrow> \<exists>e \<in> set es. misfit x e
    | Some (t, acts) \<Rightarrow> (\<forall>e \<in> set es. \<not> misfit x e) \<and> mset (freed_in acts) + mset (held t) = mset (concat (map taken es))"
proof (cases "\<exists>e \<in> set es. misfit x e")
  case True
  then have "job_iterations es (job_task_init diff protocol interval) = None" using assms job_iterations_misread by blast
  then show ?thesis using True by simp
next
  case False
  have "task_fits x (job_task_init diff protocol interval)" "held (job_task_init diff protocol interval) = []"
    by (simp_all add: task_fits_def job_task_init_def held_def)
  moreover have "\<forall>e \<in> set es. consistent x e" using assms False by (simp add: consistent_misfit)
  ultimately show ?thesis using job_iterations_step [of es x "job_task_init diff protocol interval"] False by auto
qed

definition example_sv2_job :: sv2_job where
  "example_sv2_job = \<lparr>std_job_id = 7, std_version = 0x20000000, std_merkle_root = replicate 32 1, std_prev_hash = replicate 32 2,
     std_ntime = 5, std_nbits = 6, std_clean_jobs = True\<rparr>"

definition iteration :: "stratum_protocol \<Rightarrow> bool \<Rightarrow> (work \<times> free_function option) option \<Rightarrow> iteration_env" where
  "iteration p x d = \<lparr>protocol_first = p, protocol_second = p, protocol_third = p, extended_at_clean = x, extended_at_resend = x,
     extended_at_generate = x, dequeued = d, waited_ms = 1, job_interval = 500, new_difficulty = None, set_version_mask = False\<rparr>"

theorem job_task_safe_witness:
  "\<exists>t acts. job_iterations [iteration STRATUM_PROTOCOL_V2 False (Some (V2_Work example_sv2_job, Some Free)), iteration STRATUM_PROTOCOL_V1 False None]
      (job_task_init 1 STRATUM_PROTOCOL_V2 500) = Some (t, acts) \<and>
    mset (freed_in acts) + mset (held t) = {#(V2_Work example_sv2_job, Some Free)#}"
proof -
  let ?es = "[iteration STRATUM_PROTOCOL_V2 False (Some (V2_Work example_sv2_job, Some Free)), iteration STRATUM_PROTOCOL_V1 False None]"
  have "\<forall>e \<in> set ?es. extended_at_clean e = False \<and> extended_at_resend e = False \<and> extended_at_generate e = False" by (simp add: iteration_def)
  note n = job_task_safe [OF this, of 1 STRATUM_PROTOCOL_V2 500]
  have "\<not> (\<exists>e \<in> set ?es. misfit False e)" by (simp add: misfit_def iteration_def)
  moreover have "concat (map taken ?es) = [(V2_Work example_sv2_job, Some Free)]" by (simp add: taken_def iteration_def)
  ultimately show ?thesis
    using n by (cases "job_iterations ?es (job_task_init 1 STRATUM_PROTOCOL_V2 500)") (auto simp del: job_iterations.simps)
qed

text \<open>
  When both pools speak Stratum V2 and the channel changes from standard to extended, the protocol does not
  change, so the task keeps its standard job and, at the next time-out, reads it as an extended one.
\<close>

theorem channel_change_confuses_types:
  "job_iterations [iteration STRATUM_PROTOCOL_V2 False (Some (V2_Work example_sv2_job, Some Free)), iteration STRATUM_PROTOCOL_V2 True None]
     (job_task_init 1 STRATUM_PROTOCOL_V2 500) = None"
  by (simp add: job_iteration_def job_task_init_def iteration_def free_work_def clean_flag_def finish_iteration_def generate_def
      example_sv2_job_def Let_def)

end
