(* ===== verification/Asic_Result.thy ===== *)
theory Asic_Result
  imports Job_Creation Sv2_Connection
begin

text \<open>
  \<open>main/tasks/asic_result_task.c\<close>: what becomes of an answer of the ASIC. A register value goes to the hash rate
  monitor; a nonce is judged against the job it is for, and submitted when it meets the difficulty of the pool.
\<close>

section \<open>One answer\<close>

text \<open>
  The effects, in order. A submission carries the arguments of the submit functions: for Stratum V1 the message
  number, the user, the job, the second extranonce as text, time, nonce and the version bits; for V2 the job
  number, nonce, time and rolled version, and the extranonce on an extended channel.
\<close>

datatype result_action =
  Register_Read register_type u8 u32 u64
| Self_Test_Nonce rat
| Submit_V1 int "bytes option" bytes bytes u32 u32 u32
| Submit_Standard u32 u32 u32 u32
| Submit_Extended u32 u32 u32 u32 bytes
| Found_Nonce rat u32
| Scoreboard_Add rat bytes bytes u32 u32 u32

record result_env =
  res_sha :: sha_lib
  res_protocol :: stratum_protocol
  res_extended :: bool
  res_user :: "bytes option"
  res_transport_up :: bool
  res_self_test :: bool
  res_strdup_ok :: bool

definition submissions :: "result_env \<Rightarrow> bm_job \<Rightarrow> task_result \<Rightarrow> int \<Rightarrow> result_action list \<times> int" where
  "submissions env job r send_uid =
     (if res_protocol env = STRATUM_PROTOCOL_V2 then
        (let sv2_job_id = strtoul10 (jobid job)
         in if res_extended env
            then ([Submit_Extended sv2_job_id (result_nonce r) (ntime job) (result_rolled_version r) (hex2bin (extranonce2 job) 32)], send_uid)
            else ([Submit_Standard sv2_job_id (result_nonce r) (ntime job) (result_rolled_version r)], send_uid))
      else ((if res_transport_up env
             then [Submit_V1 send_uid (res_user env) (jobid job) (extranonce2 job) (ntime job) (result_nonce r)
                     (result_rolled_version r XOR version job)]
             else []), send_uid + 1))"

text \<open>The iteration of the task after \<open>ASIC_process_work\<close>; \<open>send_uid\<close> is the message counter of the global state.\<close>

definition asic_result_iteration :: "result_env \<Rightarrow> job_tables \<Rightarrow> outcome \<Rightarrow> int \<Rightarrow> result_action list \<times> int" where
  "asic_result_iteration env t res send_uid =
     (case res of
        Result r \<Rightarrow>
          if result_register_type r \<noteq> REGISTER_INVALID
          then ([Register_Read (result_register_type r) (result_asic_nr r) (result_value r) (result_timestamp_us r)], send_uid)
          else (case (if valid_jobs t ! unat (result_job_id r) \<noteq> 0 then active_jobs t ! unat (result_job_id r) else None) of
                  None \<Rightarrow> ([], send_uid)
                | Some job \<Rightarrow>
                    if \<not> res_strdup_ok env then ([], send_uid)
                    else let nonce_diff = test_nonce_value (res_sha env) job (result_nonce r) (result_rolled_version r) (result_midstate_index r)
                      in if res_self_test env then ([Self_Test_Nonce nonce_diff], send_uid)
                         else let version_bits = result_rolled_version r XOR version job;
                                  sub = (if pool_diff job \<le> nonce_diff then submissions env job r send_uid else ([], send_uid))
                              in (fst sub @ [Found_Nonce nonce_diff (target job),
                                    Scoreboard_Add nonce_diff (jobid job) (extranonce2 job) (ntime job) (result_nonce r) version_bits], snd sub))
      | _ \<Rightarrow> ([], send_uid))"

section \<open>The headers a pool recomputes\<close>

text \<open>
  The pool knows the work it handed out and gets the fields of the submission. For Stratum V1 it puts the
  coinbase together from its two parts, the extranonce it assigned and the one submitted, and replaces the bits of its
  version that lie in the mask it allowed by the version bits submitted, as BIP 310 says; for V2 it takes the version as
  submitted. These two are specifications, not code of the firmware.
\<close>

definition v1_pool_header :: "sha_lib \<Rightarrow> u32 \<Rightarrow> mining_notify \<Rightarrow> bytes \<Rightarrow> bytes \<Rightarrow> bytes \<Rightarrow> bytes \<Rightarrow> bytes \<Rightarrow> u32 \<Rightarrow> u32 \<Rightarrow> u32 \<Rightarrow> bytes" where
  "v1_pool_header L msk n c1 e1 e2 c2 prev nt nonce version_bits =
     le_bytes 4 ((notify_version n AND NOT msk) OR (version_bits AND msk)) @ reverse_endianness_per_word prev @
     calculate_merkle_root_hash L (double_sha256_bin L (c1 @ e1 @ e2 @ c2)) (notify_merkle_branches n) @
     le_bytes 4 nt @ le_bytes 4 (notify_target n) @ le_bytes 4 nonce"

definition v2_pool_header :: "bytes \<Rightarrow> bytes \<Rightarrow> u32 \<Rightarrow> u32 \<Rightarrow> u32 \<Rightarrow> u32 \<Rightarrow> bytes" where
  "v2_pool_header prev mroot nbits nt nonce ver =
     le_bytes 4 ver @ prev @ mroot @ le_bytes 4 nt @ le_bytes 4 nbits @ le_bytes 4 nonce"

definition sha_size :: "sha_lib \<Rightarrow> bool" where
  "sha_size L \<longleftrightarrow> (\<forall>m. length (mbedtls_sha256 L m) = 32)"

lemma merkle_size: "sha_size L \<Longrightarrow> length acc = 32 \<Longrightarrow> length (merkle_loop L acc bs) = 32"
  by (induction L acc bs rule: merkle_loop.induct) (simp_all add: sha_size_def double_sha256_bin_def)

lemma merkle_root_size [simp]: "sha_size L \<Longrightarrow> length (calculate_merkle_root_hash L (double_sha256_bin L m) bs) = 32"
  by (simp add: calculate_merkle_root_hash_def merkle_size) (simp add: sha_size_def double_sha256_bin_def merkle_size)

text \<open>
  The version bits submitted are the bits that differ from the version of the job. They give back the rolled version when
  only bits in the mask were rolled and the pool left those at zero; a pool that sets a bit in the mask computes another
  version.
\<close>

lemma version_given_back:
  fixes v r msk :: u32
  assumes "v AND msk = 0" "(r XOR v) AND NOT msk = 0"
  shows "(v AND NOT msk) OR ((r XOR v) AND msk) = r"
proof (rule word_eq_by_bits)
  fix n assume n: "n < LENGTH(32)"
  have "bit (v AND msk) n = False" "bit ((r XOR v) AND NOT msk) n = False" using assms by simp_all
  then show "bit ((v AND NOT msk) OR ((r XOR v) AND msk)) n = bit r n" using n by (auto simp: bit_simps)
qed

lemma version_not_given_back:
  "(0x20002000 AND NOT 0x1fffe000) OR ((0x20006000 XOR 0x20002000) AND 0x1fffe000) = (0x20004000 :: u32)"
  by simp

text \<open>What an answer is judged by: the midstate it names, when there is one, or the whole header.\<close>

definition judged_hash :: "sha_lib \<Rightarrow> bm_job \<Rightarrow> task_result \<Rightarrow> bytes \<Rightarrow> bytes" where
  "judged_hash L job r hdr =
     (if result_midstate_index r < num_midstates job
      then mbedtls_sha256 L (sha256_resume_bin L (the (stored_midstate job (result_midstate_index r))) (header_tail job (result_nonce r)))
      else double_sha256_bin L hdr)"

lemma judged_by:
  assumes "num_midstates job \<le> 4"
  shows "test_nonce_value L job (result_nonce r) v (result_midstate_index r) =
    hash_to_pdiff (judged_hash L job r (full_header job v (result_nonce r)))"
proof (cases "result_midstate_index r < num_midstates job")
  case True
  then have "result_midstate_index r \<in> {0, 1, 2, 3}"
    using assms by (auto simp: word_less_nat_alt word_le_nat_alt unat_arith_simps)
  then have "stored_midstate job (result_midstate_index r) \<noteq> None" using True by (auto simp: stored_midstate_def)
  then show ?thesis using True by (auto simp: judged_hash_def test_nonce_value_def nonce_hash_def)
next
  case False
  then show ?thesis by (simp add: judged_hash_def test_nonce_value_def nonce_hash_def stored_midstate_def)
qed

lemma no_midstate_judged:
  "num_midstates job \<le> 4 \<Longrightarrow> result_midstate_index r = MIDSTATE_INDEX_NONE \<Longrightarrow> judged_hash L job r hdr = double_sha256_bin L hdr"
  by (simp add: judged_hash_def MIDSTATE_INDEX_NONE_def word_less_nat_alt word_le_nat_alt)

text \<open>A nonce that names no midstate is judged by the full header.\<close>

lemma full_header_judged:
  assumes "num_midstates job \<le> 4"
  shows "test_nonce_value L job nonce ver MIDSTATE_INDEX_NONE = hash_to_pdiff (double_sha256_bin L (full_header job ver nonce))"
proof -
  have "\<not> MIDSTATE_INDEX_NONE < num_midstates job"
    using assms by (simp add: MIDSTATE_INDEX_NONE_def word_less_nat_alt word_le_nat_alt)
  then have "stored_midstate job MIDSTATE_INDEX_NONE = None" by (simp add: stored_midstate_def)
  then show ?thesis by (simp add: test_nonce_value_def nonce_hash_def)
qed

lemma sv2_header_full:
  assumes "length prev = 32" "length mroot = 32"
  shows "full_header (sv2_header_fields L msk ver prev mroot nt nbits diff old) v nonce = v2_pool_header prev mroot nbits nt nonce v"
    and "num_midstates (sv2_header_fields L msk ver prev mroot nt nbits diff old) \<le> 4"
    and "pool_diff (sv2_header_fields L msk ver prev mroot nt nbits diff old) = diff"
    and "version (sv2_header_fields L msk ver prev mroot nt nbits diff old) = ver"
    and "ntime (sv2_header_fields L msk ver prev mroot nt nbits diff old) = nt"
  using assms by (simp_all add: sv2_header_fields_def full_header_def v2_pool_header_def reverse_32bit_words_twice Let_def)

text \<open>Fields that a header does not depend on.\<close>

lemma full_header_update [simp]:
  "full_header (j\<lparr>jobid := a\<rparr>) v n = full_header j v n" "full_header (j\<lparr>extranonce2 := b\<rparr>) v n = full_header j v n"
  "full_header (j\<lparr>version_mask := c\<rparr>) v n = full_header j v n"
  by (simp_all add: full_header_def)

section \<open>The counter of the extended channel\<close>

lemma be_counter_length [simp]: "length (be_counter n c b) = length b"
  by (induction n c b rule: be_counter.induct) simp_all

lemma be_counter_keeps: "n \<le> i \<Longrightarrow> be_counter n c b ! i = b ! i"
  by (induction n c b rule: be_counter.induct) simp_all

lemma le_bytes_Suc: "le_bytes (Suc n) w = ucast w # le_bytes n (drop_bit 8 w)"
  by (rule nth_equalityI) (auto simp: nth_Cons drop_bit_drop_bit add.commute split: nat.split)

lemma low_byte: "ucast (c AND 0xFF :: u64) = (ucast c :: u8)"
proof -
  have "c AND 0xFF = take_bit 8 c" by (simp add: take_bit_eq_mask mask_eq_exp_minus_1)
  then show ?thesis by (auto intro!: word_eq_by_bits simp: bit_simps)
qed

lemma be_counter_bytes:
  "n \<le> length b \<Longrightarrow> take n b = replicate n 0 \<Longrightarrow> take n (be_counter n c b) = rev (le_bytes n c)"
proof (induction n c b rule: be_counter.induct)
  case (1 c b)
  then show ?case by (simp add: le_bytes_def)
next
  case (2 n c b)
  have zeros: "take n b = replicate n 0" "b ! n = 0"
    using "2.prems" by (auto simp: take_Suc_conv_app_nth replicate_append_same [symmetric])
  show ?case
  proof (cases "c > 0")
    case True
    let ?b = "b[n := ucast (c AND 0xFF)]"
    have "take n (be_counter n (drop_bit 8 c) ?b) = rev (le_bytes n (drop_bit 8 c))"
      using "2.IH" [OF True] "2.prems" zeros by simp
    moreover have "be_counter n (drop_bit 8 c) ?b ! n = ucast c"
      using "2.prems" by (simp add: be_counter_keeps low_byte)
    ultimately show ?thesis
      using "2.prems" True by (simp add: take_Suc_conv_app_nth le_bytes_Suc)
  next
    case False
    then have "c = 0" by (simp add: word_gt_0)
    moreover have "rev (le_bytes k (0 :: u64)) = replicate k 0" for k
      by (simp add: le_bytes_def map_replicate_const)
    ultimately show ?thesis using "2.prems" by simp
  qed
qed

lemma be_counter_fresh: "n \<le> 32 \<Longrightarrow> take n (be_counter n c (replicate 32 0)) = rev (le_bytes n c)"
  by (rule be_counter_bytes) simp_all

section \<open>Submitted shares are valid\<close>

text \<open>The state in which an answer finds its job.\<close>

definition job_in_slot :: "job_tables \<Rightarrow> task_result \<Rightarrow> bm_job \<Rightarrow> bool" where
  "job_in_slot t r job \<longleftrightarrow> valid_jobs t ! unat (result_job_id r) \<noteq> 0 \<and> active_jobs t ! unat (result_job_id r) = Some job"

lemma judged_submission:
  assumes "job_in_slot t r job" "result_register_type r = REGISTER_INVALID" "\<not> res_self_test env" "res_strdup_ok env"
  shows "fst (asic_result_iteration env t (Result r) uid) =
    (if pool_diff job \<le> test_nonce_value (res_sha env) job (result_nonce r) (result_rolled_version r) (result_midstate_index r)
     then fst (submissions env job r uid) else []) @
    [Found_Nonce (test_nonce_value (res_sha env) job (result_nonce r) (result_rolled_version r) (result_midstate_index r)) (target job),
     Scoreboard_Add (test_nonce_value (res_sha env) job (result_nonce r) (result_rolled_version r) (result_midstate_index r)) (jobid job) (extranonce2 job)
       (ntime job) (result_nonce r) (result_rolled_version r XOR version job)]"
  using assms by (simp add: asic_result_iteration_def job_in_slot_def Let_def)

lemma v1_job:
  assumes "generate_work g (Some (hex_text e1)) (int len) n counter diff = Job_Sent job"
    and "notify_coinbase_1 n = hex_text c1" "notify_coinbase_2 n = hex_text c2" "notify_prev_block_hash n = hex_text prev" "length prev = 32"
    and "length (gen_junk g) = 32" "sha_size (gen_sha g)"
  defines "e2 \<equiv> le_bytes (min len 8) counter @ replicate (len - 8) 0"
  shows "notify_version n AND msk = 0 \<Longrightarrow> (v XOR notify_version n) AND NOT msk = 0 \<Longrightarrow>
      full_header job v nonce = v1_pool_header (gen_sha g) msk n c1 e1 e2 c2 prev (notify_ntime n) nonce (v XOR notify_version n)"
    and "num_midstates job \<le> 4" "pool_diff job = diff" "extranonce2 job = hex_text e2" "jobid job = notify_job_id n"
    and "version job = notify_version n" "ntime job = notify_ntime n" "len \<le> 32"
proof -
  let ?mroot = "calculate_merkle_root_hash (gen_sha g) (double_sha256_bin (gen_sha g) (c1 @ e1 @ e2 @ c2)) (notify_merkle_branches n)"
  let ?job = "construct_bm_job (gen_sha g) (gen_junk g) n ?mroot (gen_version_mask g) diff (gen_uninit g)"
  note cb = coinbase_hash_agrees [THEN conjunct1, of "gen_sha g" c1 c2 e1 e2]
  have e2: "extranonce_2_generate counter len = Some (hex_text e2)" by (simp add: extranonce_2_text e2_def)
  have job: "job = ?job\<lparr>extranonce2 := hex_text e2, jobid := notify_job_id n, version_mask := gen_version_mask g\<rparr>"
    using assms(1) cb by (simp add: generate_work_def e2 assms(2,3) Let_def split: if_splits)
  show "len \<le> 32" using assms(1) by (simp add: generate_work_def MAX_EXTRANONCE2_LEN_def split: if_splits)
  have "length ?mroot = 32" using assms(7) by simp
  note f = job_fields [OF assms(4-6) this, of "gen_sha g" "gen_version_mask g" diff "gen_uninit g"]
  show "num_midstates job \<le> 4" by (simp add: job f(5))
  show "pool_diff job = diff" "version job = notify_version n" by (simp_all add: job construct_bm_job_def Let_def)
  show "extranonce2 job = hex_text e2" "jobid job = notify_job_id n" "ntime job = notify_ntime n" by (simp_all add: job f(3))
  show "full_header job v nonce = v1_pool_header (gen_sha g) msk n c1 e1 e2 c2 prev (notify_ntime n) nonce (v XOR notify_version n)"
    if "notify_version n AND msk = 0" "(v XOR notify_version n) AND NOT msk = 0"
    unfolding v1_pool_header_def version_given_back [OF that] by (simp add: job full_header_def f(1-4))
qed

text \<open>
  C1. Stratum V1: an answer for a job made from a notification leads to a submission exactly when what it is judged by meets
  the difficulty of the pool. For the chips that roll the version themselves, all but the BM1397, that is the header the
  pool recomputes from the fields submitted; for a BM1397 it is what resumes from the midstate the answer names, which
  differs from it. The submission names the job of the notification, its time, the nonce and the extranonce. It is taken
  for granted that the chip rolled bits of the allowed mask only, and that the pool left these at zero in its version.
\<close>

theorem v1_shares_valid:
  assumes "generate_work g (Some (hex_text e1)) (int len) n counter diff = Job_Sent job"
    and "notify_coinbase_1 n = hex_text c1" "notify_coinbase_2 n = hex_text c2" "notify_prev_block_hash n = hex_text prev" "length prev = 32"
    and "length (gen_junk g) = 32" "sha_size (gen_sha g)" "res_sha env = gen_sha g"
    and "job_in_slot t r job" "result_register_type r = REGISTER_INVALID" "\<not> res_self_test env" "res_strdup_ok env"
    and "res_protocol env \<noteq> STRATUM_PROTOCOL_V2" "res_transport_up env"
    and "notify_version n AND msk = 0" "(result_rolled_version r XOR notify_version n) AND NOT msk = 0"
  shows "(Submit_V1 uid user jid en2 nt nonce vb \<in> set (fst (asic_result_iteration env t (Result r) uid')) \<longleftrightarrow>
      uid = uid' \<and> user = res_user env \<and> jid = notify_job_id n \<and> nt = notify_ntime n \<and> nonce = result_nonce r \<and>
      vb = result_rolled_version r XOR notify_version n \<and> en2 = hex_text (le_bytes (min len 8) counter @ replicate (len - 8) 0) \<and>
      diff \<le> hash_to_pdiff (judged_hash (gen_sha g) job r (v1_pool_header (gen_sha g) msk n c1 e1 (hex2bin en2 32) c2 prev nt nonce vb))) \<and>
    (result_midstate_index r = MIDSTATE_INDEX_NONE \<longrightarrow> (\<forall>hdr. judged_hash (gen_sha g) job r hdr = double_sha256_bin (gen_sha g) hdr))"
proof -
  let ?e2 = "le_bytes (min len 8) counter @ replicate (len - 8) 0"
  note j = v1_job [OF assms(1-7)]
  have head: "full_header job (result_rolled_version r) (result_nonce r) =
      v1_pool_header (gen_sha g) msk n c1 e1 ?e2 c2 prev (notify_ntime n) (result_nonce r) (result_rolled_version r XOR notify_version n)"
    by (rule j(1) [OF assms(15,16)])
  have "hex2bin (hex_text ?e2) 32 = ?e2" using j(8) by simp
  then show ?thesis
    using assms(8,13,14) head j(3-7) no_midstate_judged [OF j(2)]
    by (auto simp: judged_submission [OF assms(9-12)] judged_by [OF j(2)] submissions_def)
qed

definition example_env :: generator_env where
  "example_env = \<lparr>gen_sha = first_bytes, gen_malloc_ok = True, gen_coinbase_malloc_ok = True, gen_asic_initialized = True,
     gen_version_mask = 0x1fffe000, gen_junk = replicate 32 7, gen_uninit = empty_job\<rparr>"

definition example_result_env :: "stratum_protocol \<Rightarrow> bool \<Rightarrow> result_env" where
  "example_result_env p x = \<lparr>res_sha = first_bytes, res_protocol = p, res_extended = x, res_user = None, res_transport_up = True,
     res_self_test = False, res_strdup_ok = True\<rparr>"

definition example_answer :: task_result where
  "example_answer = (empty_result 0)\<lparr>result_job_id := 8, result_nonce := 9, result_rolled_version := 0x2001,
     result_midstate_index := MIDSTATE_INDEX_NONE, result_register_type := REGISTER_INVALID\<rparr>"

definition slot_8 :: "bm_job \<Rightarrow> job_tables" where
  "slot_8 job = \<lparr>active_jobs = (replicate 128 None)[8 := Some job], valid_jobs = (replicate 128 0)[8 := 1]\<rparr>"

lemma slot_8: "job_in_slot (slot_8 job) example_answer job"
  by (simp add: job_in_slot_def slot_8_def example_answer_def)

lemma first_bytes_size: "sha_size first_bytes"
  by (simp add: sha_size_def first_bytes_def min_def)

lemma hex_text_Nil [simp]: "hex_text [] = []"
  by (simp add: hex_text_def)

lemma example_fields [simp]:
  "gen_sha example_env = first_bytes" "length (gen_junk example_env) = 32" "gen_coinbase_malloc_ok example_env"
  "res_sha (example_result_env p x) = first_bytes" "\<not> res_self_test (example_result_env p x)" "res_strdup_ok (example_result_env p x)"
  "res_protocol (example_result_env p x) = p" "res_transport_up (example_result_env p x)" "res_user (example_result_env p x) = None"
  "res_extended (example_result_env p x) = x"
  "result_register_type example_answer = REGISTER_INVALID" "result_midstate_index example_answer = MIDSTATE_INDEX_NONE"
  "result_nonce example_answer = 9" "result_rolled_version example_answer = 0x2001"
  by (simp_all add: example_env_def example_result_env_def example_answer_def)

lemma example_notify_fields [simp]:
  "notify_coinbase_1 example_notify = hex_text []" "notify_coinbase_2 example_notify = hex_text []"
  "notify_prev_block_hash example_notify = hex_text (replicate 32 0)" "notify_job_id example_notify = []"
  "notify_ntime example_notify = 3" "notify_version example_notify = 1"
  by (simp_all add: example_notify_def)

theorem v1_shares_valid_witness:
  "\<exists>job. generate_work example_env (Some (hex_text [1])) 1 example_notify 5 0 = Job_Sent job \<and>
    (Submit_V1 4 None [] (hex_text [5]) 3 9 0x2000 \<in> set (fst (asic_result_iteration (example_result_env STRATUM_PROTOCOL_V1 False) (slot_8 job) (Result example_answer) 4)) \<longleftrightarrow>
     0 \<le> hash_to_pdiff (double_sha256_bin first_bytes (v1_pool_header first_bytes 0x1fffe000 example_notify [] [1] (hex2bin (hex_text [5]) 32) [] (replicate 32 0) 3 9 0x2000)))"
proof -
  obtain job where job: "generate_work example_env (Some (hex_text [1])) (int 1) example_notify 5 0 = Job_Sent job"
    by (simp add: generate_work_def example_env_def MAX_EXTRANONCE_STR_LEN_def MAX_EXTRANONCE2_LEN_def Let_def)
  have prev: "length (replicate 32 (0 :: u8)) = 32" by simp
  have "le_bytes (min 1 8) (5 :: u64) @ replicate (1 - 8) 0 = [5]" by (simp add: le_bytes_def)
  then show ?thesis
    using v1_shares_valid [OF job example_notify_fields(1-3) prev example_fields(2), of "example_result_env STRATUM_PROTOCOL_V1 False"
        "slot_8 job" example_answer "0x1fffe000" 4 None "[]" "hex_text [5]" 3 9 "0x2000" 4] job
    by (intro exI [of _ job]) (simp add: first_bytes_size slot_8 del: hex_text_Nil)
qed

section \<open>Stratum V2\<close>

text \<open>Standard channel: the pool chose the Merkle root, and gets its job number back.\<close>

lemma v2_standard_job:
  assumes "generate_work_sv2 g j diff = Job_Sent job" "length (std_prev_hash j) = 32" "length (std_merkle_root j) = 32"
  shows "full_header job v nonce = v2_pool_header (std_prev_hash j) (std_merkle_root j) (std_nbits j) (std_ntime j) nonce v"
    and "num_midstates job \<le> 4" "pool_diff job = diff" "ntime job = std_ntime j" "strtoul10 (jobid job) = std_job_id j"
  using assms by (auto simp: generate_work_sv2_def Let_def sv2_header_full split: if_splits)

lemma v2_extended_job:
  assumes "generate_work_sv2_ext g (Some c) j diff counter = Job_Sent job" "gen_coinbase_malloc_ok g" "sha_size (gen_sha g)"
    and "length (ext_prev_hash j) = 32"
  defines "e2 \<equiv> rev (le_bytes (min 32 (unat (extranonce_size c))) counter)"
  shows "full_header job v nonce = v2_pool_header (ext_prev_hash j)
      (calculate_merkle_root_hash (gen_sha g) (double_sha256_bin (gen_sha g)
        (coinbase_prefix j @ take (unat (extranonce_prefix_len c)) (extranonce_prefix c) @ e2 @ coinbase_suffix j)) (merkle_path j))
      (ext_nbits j) (ext_ntime j) nonce v"
    and "num_midstates job \<le> 4" "pool_diff job = diff" "ntime job = ext_ntime j" "strtoul10 (jobid job) = ext_job_id j"
    and "hex2bin (extranonce2 job) 32 = e2"
proof -
  have len: "(if 32 < extranonce_size c then 32 else unat (extranonce_size c)) = min 32 (unat (extranonce_size c))"
    by (auto simp: word_less_nat_alt)
  have e2: "take (min 32 (unat (extranonce_size c))) (be_counter (min 32 (unat (extranonce_size c))) counter (replicate 32 0)) = e2"
    by (simp add: e2_def be_counter_fresh)
  have short: "length e2 \<le> 32" by (simp add: e2_def)
  then have "the (snd (bin2hex e2 65)) = hex_text e2" "hex2bin (hex_text e2) 32 = e2" by (simp_all add: bin2hex_def hex_text_def hex2bin_concat)
  note r = this
  have job: "\<exists>old. job = sv2_header_fields (gen_sha g) (gen_version_mask g) (ext_version j) (ext_prev_hash j)
      (calculate_merkle_root_hash (gen_sha g) (double_sha256_bin (gen_sha g)
        (coinbase_prefix j @ take (unat (extranonce_prefix_len c)) (extranonce_prefix c) @ e2 @ coinbase_suffix j)) (merkle_path j))
      (ext_ntime j) (ext_nbits j) diff old
      \<lparr>jobid := dec_bytes (unat (ext_job_id j)), extranonce2 := hex_text e2, version_mask := gen_version_mask g\<rparr>"
    using assms(1,2) by (auto simp: generate_work_sv2_ext_def Let_def len e2 r calculate_coinbase_tx_hash_bin_def split: if_splits)
  then show "full_header job v nonce = v2_pool_header (ext_prev_hash j)
      (calculate_merkle_root_hash (gen_sha g) (double_sha256_bin (gen_sha g)
        (coinbase_prefix j @ take (unat (extranonce_prefix_len c)) (extranonce_prefix c) @ e2 @ coinbase_suffix j)) (merkle_path j))
      (ext_nbits j) (ext_ntime j) nonce v" "num_midstates job \<le> 4" "pool_diff job = diff" "ntime job = ext_ntime j"
      "strtoul10 (jobid job) = ext_job_id j" "hex2bin (extranonce2 job) 32 = e2"
    using assms(3,4) short by (auto simp: sv2_header_full r)
qed

lemma v2_standard_shares:
  assumes "generate_work_sv2 g j diff = Job_Sent job" "length (std_prev_hash j) = 32" "length (std_merkle_root j) = 32"
    and "job_in_slot t r job" "result_register_type r = REGISTER_INVALID" "\<not> res_self_test env" "res_strdup_ok env"
    and "result_midstate_index r = MIDSTATE_INDEX_NONE" "res_protocol env = STRATUM_PROTOCOL_V2" "\<not> res_extended env"
  shows "Submit_Standard jid nonce nt ver \<in> set (fst (asic_result_iteration env t (Result r) uid)) \<longleftrightarrow>
    jid = std_job_id j \<and> nt = std_ntime j \<and> nonce = result_nonce r \<and> ver = result_rolled_version r \<and>
    diff \<le> hash_to_pdiff (double_sha256_bin (res_sha env)
      (v2_pool_header (std_prev_hash j) (std_merkle_root j) (std_nbits j) nt nonce ver))"
  using v2_standard_job [OF assms(1-3)] assms(8-10)
  by (auto simp: judged_submission [OF assms(4-7)] full_header_judged submissions_def)

text \<open>
  C2. Stratum V2, extended channel: an answer for a job made from an extended job leads to a submission exactly when what it
  is judged by meets the difficulty. For the chips that roll the version themselves, all but the BM1397, that is the header
  the pool recomputes, with its own coinbase and Merkle path around the submitted extranonce; for a BM1397 it is what
  resumes from the midstate the answer names, which differs from it. The submission gives the job's number, the whole
  rolled version and an extranonce of the size of the channel.
\<close>

theorem v2_extended_shares_valid:
  assumes "generate_work_sv2_ext g (Some c) j diff counter = Job_Sent job" "gen_coinbase_malloc_ok g" "sha_size (gen_sha g)"
    and "length (ext_prev_hash j) = 32" "res_sha env = gen_sha g"
    and "job_in_slot t r job" "result_register_type r = REGISTER_INVALID" "\<not> res_self_test env" "res_strdup_ok env"
    and "res_protocol env = STRATUM_PROTOCOL_V2" "res_extended env"
  shows "(Submit_Extended jid nonce nt ver en2 \<in> set (fst (asic_result_iteration env t (Result r) uid)) \<longleftrightarrow>
      jid = ext_job_id j \<and> nt = ext_ntime j \<and> nonce = result_nonce r \<and> ver = result_rolled_version r \<and>
      en2 = rev (le_bytes (min 32 (unat (extranonce_size c))) counter) \<and>
      diff \<le> hash_to_pdiff (judged_hash (gen_sha g) job r (v2_pool_header (ext_prev_hash j)
        (calculate_merkle_root_hash (gen_sha g) (double_sha256_bin (gen_sha g)
          (coinbase_prefix j @ take (unat (extranonce_prefix_len c)) (extranonce_prefix c) @ en2 @ coinbase_suffix j)) (merkle_path j))
        (ext_nbits j) nt nonce ver))) \<and>
    (result_midstate_index r = MIDSTATE_INDEX_NONE \<longrightarrow> (\<forall>hdr. judged_hash (gen_sha g) job r hdr = double_sha256_bin (gen_sha g) hdr))"
  using v2_extended_job [OF assms(1-4)] assms(5,10,11) no_midstate_judged [OF v2_extended_job(2) [OF assms(1-4)]]
  by (auto simp: judged_submission [OF assms(6-9)] judged_by submissions_def)

definition example_ext_job :: sv2_ext_job where
  "example_ext_job = \<lparr>ext_job_id = 7, ext_version = 0x20000000, version_rolling_allowed = True, ext_prev_hash = replicate 32 2,
     ext_ntime = 5, ext_nbits = 6, ext_clean_jobs = True, merkle_path = [replicate 32 3], coinbase_prefix = [1, 2], coinbase_suffix = [3]\<rparr>"

theorem v2_extended_shares_valid_witness:
  "\<exists>job. generate_work_sv2_ext example_env (Some (zero_conn\<lparr>extranonce_size := 2\<rparr>)) example_ext_job 0 0x102 = Job_Sent job \<and>
    (Submit_Extended 7 9 5 0x2001 [1, 2] \<in> set (fst (asic_result_iteration (example_result_env STRATUM_PROTOCOL_V2 True) (slot_8 job) (Result example_answer) 4)) \<longleftrightarrow>
     0 \<le> hash_to_pdiff (double_sha256_bin first_bytes (v2_pool_header (replicate 32 2)
       (calculate_merkle_root_hash first_bytes (double_sha256_bin first_bytes [1, 2, 1, 2, 3]) [replicate 32 3]) 6 5 9 0x2001)))"
proof -
  let ?c = "zero_conn\<lparr>extranonce_size := 2\<rparr>"
  obtain job where job: "generate_work_sv2_ext example_env (Some ?c) example_ext_job 0 0x102 = Job_Sent job"
    by (simp add: generate_work_sv2_ext_def example_env_def Let_def)
  have ext: "length (ext_prev_hash example_ext_job) = 32" "ext_job_id example_ext_job = 7" "ext_ntime example_ext_job = 5"
    "ext_nbits example_ext_job = 6" "ext_prev_hash example_ext_job = replicate 32 2" "merkle_path example_ext_job = [replicate 32 3]"
    "coinbase_prefix example_ext_job = [1, 2]" "coinbase_suffix example_ext_job = [3]" by (simp_all add: example_ext_job_def)
  have small: "rev (le_bytes 2 (0x102 :: u64)) = [1, 2]" "extranonce_prefix_len zero_conn = 0"
    by (simp_all add: le_bytes_def upt_rec zero_conn_def)
  from v2_extended_shares_valid [OF job example_fields(3) _ ext(1), of "example_result_env STRATUM_PROTOCOL_V2 True" "slot_8 job" example_answer
      7 9 5 "0x2001" "[1, 2]" 4] job
  show ?thesis
    by (intro exI [of _ job]) (simp add: first_bytes_size slot_8 ext(2-) small)
qed

end
