(* ===== verification/Coordinator.thy ===== *)
theory Coordinator
  imports Job_Creation
begin

text \<open>
  \<open>main/tasks/protocol_coordinator.c\<close>: the task that decides which pool is mined on. It starts a protocol task,
  hears of its successes and failures through an event queue, fails over between the primary and the fallback
  pool, parks mining when all pools failed, and probes for their return. The handlers are functions on a record
  of the static variables and the fields of the global state; the coordinator and the protocol tasks run as an
  interleaving of labelled steps.
\<close>

section \<open>State\<close>

datatype coordinator_state = COORD_STATE_IDLE | COORD_STATE_RUNNING_PRIMARY | COORD_STATE_RUNNING_FALLBACK | COORD_STATE_PAUSED

datatype coordinator_event =
  COORD_EVENT_PROTOCOL_FAILED | COORD_EVENT_PROTOCOL_SUCCESS | COORD_EVENT_V1_TASK_EXITED | COORD_EVENT_V2_TASK_EXITED

definition INITIAL_HEARTBEAT_DELAY_MS :: int where "INITIAL_HEARTBEAT_DELAY_MS = 10000"

text \<open>The statistics that a change of pool resets; a reason is its count and its text.\<close>

record share_stats =
  rejected_reason_stats :: "(u32 \<times> bytes) list"
  rejected_reason_stats_count :: nat
  shares_accepted :: u64
  shares_rejected :: u64
  stats_work_received :: u64

text \<open>
  What does not change while the firmware runs: the two pools, with a null or empty address of the second as no
  fallback pool, and whether the user chose the fallback.
\<close>

record coordinator_config =
  primary_protocol :: stratum_protocol
  fallback_protocol :: stratum_protocol
  fallback_url :: "bytes option"
  use_fallback_stratum :: bool

text \<open>
  Where the coordinator is: waiting for an event, probing the primary pool, or in the loop that waits for a
  task to stop, with so many turns left.
\<close>

datatype control = Main_Loop | Heartbeat_Probing | Stopping nat

text \<open>\<open>live_tasks\<close> are the protocol tasks that exist.\<close>

record coordinator =
  control :: control
  s_state :: coordinator_state
  event_queue :: "coordinator_event list"
  s_v1_should_shutdown :: bool
  s_v2_should_shutdown :: bool
  s_running_protocol :: stratum_protocol
  s_heartbeat_enabled :: bool
  s_consecutive_pool_failures :: int
  heartbeat_initial_delay :: bool
  is_using_fallback :: bool
  global_protocol :: stratum_protocol
  pools_unavailable :: bool
  coordinator_queue :: jobs_queue
  share_stats :: share_stats
  live_tasks :: "stratum_protocol list"

section \<open>Events and tasks\<close>

text \<open>The event queue holds 8 events; \<open>xQueueSend\<close> with no waiting time drops an event that does not fit.\<close>

definition send_event :: "coordinator_event \<Rightarrow> coordinator \<Rightarrow> coordinator" where
  "send_event e c = (if length (event_queue c) < 8 then c\<lparr>event_queue := event_queue c @ [e]\<rparr> else c)"

definition protocol_coordinator_init :: "coordinator \<Rightarrow> coordinator" where
  "protocol_coordinator_init c =
     c\<lparr>event_queue := [], s_v1_should_shutdown := False, s_v2_should_shutdown := False, s_heartbeat_enabled := False,
       s_consecutive_pool_failures := 0\<rparr>"

definition protocol_coordinator_notify_failure :: "coordinator \<Rightarrow> coordinator" where
  "protocol_coordinator_notify_failure = send_event COORD_EVENT_PROTOCOL_FAILED"

definition protocol_coordinator_notify_success :: "coordinator \<Rightarrow> coordinator" where
  "protocol_coordinator_notify_success = send_event COORD_EVENT_PROTOCOL_SUCCESS"

definition protocol_coordinator_v1_exited :: "coordinator \<Rightarrow> coordinator" where
  "protocol_coordinator_v1_exited = send_event COORD_EVENT_V1_TASK_EXITED"

definition protocol_coordinator_v2_exited :: "coordinator \<Rightarrow> coordinator" where
  "protocol_coordinator_v2_exited = send_event COORD_EVENT_V2_TASK_EXITED"

definition reset_share_stats :: "share_stats \<Rightarrow> share_stats" where
  "reset_share_stats st =
     st\<lparr>rejected_reason_stats := map (\<lambda>_. (0, [])) (take (rejected_reason_stats_count st) (rejected_reason_stats st)) @
          drop (rejected_reason_stats_count st) (rejected_reason_stats st),
        rejected_reason_stats_count := 0, shares_accepted := 0, shares_rejected := 0, stats_work_received := 0\<rparr>"

definition has_fallback_pool :: "coordinator_config \<Rightarrow> bool" where
  "has_fallback_pool cfg = (case fallback_url cfg of None \<Rightarrow> False | Some url \<Rightarrow> url \<noteq> [])"

text \<open>Starting a task; \<open>created\<close> says whether the system had the memory for it. A failure is only logged.\<close>

definition start_v1_task :: "bool \<Rightarrow> coordinator \<Rightarrow> coordinator" where
  "start_v1_task created c =
     (let c1 = c\<lparr>s_v1_should_shutdown := False\<rparr>
      in if created then c1\<lparr>live_tasks := live_tasks c1 @ [STRATUM_PROTOCOL_V1]\<rparr> else c1)"

definition start_v2_task :: "bool \<Rightarrow> coordinator \<Rightarrow> coordinator" where
  "start_v2_task created c =
     (let c1 = c\<lparr>s_v2_should_shutdown := False\<rparr>
      in if created then c1\<lparr>live_tasks := live_tasks c1 @ [STRATUM_PROTOCOL_V2]\<rparr> else c1)"

definition start_protocol_task :: "bool \<Rightarrow> stratum_protocol \<Rightarrow> coordinator \<Rightarrow> coordinator" where
  "start_protocol_task created protocol c =
     (if protocol = STRATUM_PROTOCOL_V2 then start_v2_task created c else start_v1_task created c)"

text \<open>\<open>stop_v1_task\<close> and \<open>stop_v2_task\<close> set the flag, close the transport and enter a loop of 100 turns.\<close>

definition stop_running_task :: "coordinator \<Rightarrow> coordinator" where
  "stop_running_task c =
     (if s_running_protocol c = STRATUM_PROTOCOL_V2 then c\<lparr>s_v2_should_shutdown := True, control := Stopping 100\<rparr>
      else c\<lparr>s_v1_should_shutdown := True, control := Stopping 100\<rparr>)"

text \<open>The events that end the loop.\<close>

definition ends_stop :: "stratum_protocol \<Rightarrow> coordinator_event \<Rightarrow> bool" where
  "ends_stop running evt \<longleftrightarrow>
     evt = COORD_EVENT_PROTOCOL_FAILED \<or>
     evt = (if running = STRATUM_PROTOCOL_V2 then COORD_EVENT_V2_TASK_EXITED else COORD_EVENT_V1_TASK_EXITED)"

text \<open>\<open>queue_clear\<close> on the job queue, with the freed items, and the new statistics.\<close>

definition clear_queue_and_stats :: "coordinator \<Rightarrow> coordinator" where
  "clear_queue_and_stats c =
     c\<lparr>coordinator_queue := snd (queue_clear (coordinator_queue c)), share_stats := reset_share_stats (share_stats c)\<rparr>"

section \<open>Changes of the pool\<close>

definition switch_to_fallback :: "coordinator_config \<Rightarrow> bool \<Rightarrow> coordinator \<Rightarrow> coordinator" where
  "switch_to_fallback cfg created c =
     (let c1 = clear_queue_and_stats c;
          c2 = c1\<lparr>is_using_fallback := True, global_protocol := fallback_protocol cfg, s_running_protocol := fallback_protocol cfg,
                  s_state := COORD_STATE_RUNNING_FALLBACK\<rparr>;
          c3 = start_protocol_task created (fallback_protocol cfg) c2
      in c3\<lparr>s_heartbeat_enabled := \<not> use_fallback_stratum cfg\<rparr>)"

text \<open>\<open>switch_to_primary\<close> after its \<open>stop_running_task\<close>; the failure handler has the same lines.\<close>

definition start_primary :: "coordinator_config \<Rightarrow> bool \<Rightarrow> coordinator \<Rightarrow> coordinator" where
  "start_primary cfg created c =
     (let c1 = clear_queue_and_stats c;
          c2 = c1\<lparr>is_using_fallback := False, global_protocol := primary_protocol cfg, s_running_protocol := primary_protocol cfg,
                  s_state := COORD_STATE_RUNNING_PRIMARY\<rparr>;
          c3 = start_protocol_task created (primary_protocol cfg) c2
      in c3\<lparr>s_heartbeat_enabled := False\<rparr>)"

definition pool_failure_threshold :: "coordinator_config \<Rightarrow> int" where
  "pool_failure_threshold cfg = (if has_fallback_pool cfg then 2 else 1)"

definition enter_paused_state :: "coordinator \<Rightarrow> coordinator" where
  "enter_paused_state c = c\<lparr>s_state := COORD_STATE_PAUSED, pools_unavailable := True, s_heartbeat_enabled := False\<rparr>"

definition resume_on_pool :: "coordinator_config \<Rightarrow> bool \<Rightarrow> bool \<Rightarrow> coordinator \<Rightarrow> coordinator" where
  "resume_on_pool cfg created use_fallback c =
     (let proto = (if use_fallback then fallback_protocol cfg else primary_protocol cfg);
          c1 = c\<lparr>s_consecutive_pool_failures := 0, pools_unavailable := False, is_using_fallback := use_fallback,
                 global_protocol := proto, s_running_protocol := proto,
                 s_state := (if use_fallback then COORD_STATE_RUNNING_FALLBACK else COORD_STATE_RUNNING_PRIMARY)\<rparr>;
          c2 = start_protocol_task created proto (clear_queue_and_stats c1)
      in c2\<lparr>s_heartbeat_enabled := use_fallback \<and> \<not> use_fallback_stratum cfg\<rparr>)"

text \<open>\<open>probe b\<close> is the outcome of probing the fallback (\<open>b\<close>) or the primary pool.\<close>

definition try_resume_from_paused :: "coordinator_config \<Rightarrow> bool \<Rightarrow> (bool \<Rightarrow> bool) \<Rightarrow> bool \<Rightarrow> coordinator \<Rightarrow> coordinator" where
  "try_resume_from_paused cfg wifi_is_connected probe created c =
     (if \<not> wifi_is_connected then c
      else
        let prefer_fallback = use_fallback_stratum cfg \<and> has_fallback_pool cfg
        in if prefer_fallback then
             (if probe True then resume_on_pool cfg created True c
              else if probe False then resume_on_pool cfg created False c
              else c)
           else
             (if probe False then resume_on_pool cfg created False c
              else if has_fallback_pool cfg \<and> probe True then resume_on_pool cfg created True c
              else c))"

section \<open>The event handler and the loop\<close>

definition handle_event :: "coordinator_config \<Rightarrow> bool \<Rightarrow> coordinator_event \<Rightarrow> coordinator \<Rightarrow> coordinator" where
  "handle_event cfg created evt c =
     (case evt of
        COORD_EVENT_PROTOCOL_FAILED \<Rightarrow>
          if s_state c = COORD_STATE_PAUSED then c
          else
            let c1 = c\<lparr>s_consecutive_pool_failures := s_consecutive_pool_failures c + 1\<rparr>
            in if s_consecutive_pool_failures c1 \<ge> pool_failure_threshold cfg then enter_paused_state c1
               else if s_state c1 = COORD_STATE_RUNNING_PRIMARY then switch_to_fallback cfg created c1
               else if s_state c1 = COORD_STATE_RUNNING_FALLBACK then start_primary cfg created c1
               else c1
      | COORD_EVENT_PROTOCOL_SUCCESS \<Rightarrow> c\<lparr>s_consecutive_pool_failures := 0, pools_unavailable := False\<rparr>
      | COORD_EVENT_V1_TASK_EXITED \<Rightarrow> c
      | COORD_EVENT_V2_TASK_EXITED \<Rightarrow> c)"

text \<open>\<open>protocol_coordinator_task\<close> up to the loop.\<close>

definition coordinator_start :: "coordinator_config \<Rightarrow> bool \<Rightarrow> coordinator \<Rightarrow> coordinator" where
  "coordinator_start cfg created c =
     (if is_using_fallback c then
        (start_protocol_task created (fallback_protocol cfg)
           (c\<lparr>global_protocol := fallback_protocol cfg, s_running_protocol := fallback_protocol cfg, s_state := COORD_STATE_RUNNING_FALLBACK\<rparr>))
          \<lparr>s_heartbeat_enabled := False, heartbeat_initial_delay := False, control := Main_Loop\<rparr>
      else
        (start_protocol_task created (primary_protocol cfg)
           (c\<lparr>s_running_protocol := primary_protocol cfg, s_state := COORD_STATE_RUNNING_PRIMARY\<rparr>))
          \<lparr>heartbeat_initial_delay := False, control := Main_Loop\<rparr>)"

text \<open>An event was received in the loop.\<close>

definition loop_event :: "coordinator_config \<Rightarrow> bool \<Rightarrow> coordinator_event \<Rightarrow> coordinator \<Rightarrow> coordinator" where
  "loop_event cfg created evt c =
     (let c1 = handle_event cfg created evt c
      in if s_heartbeat_enabled c1 \<and> \<not> s_heartbeat_enabled c then c1\<lparr>heartbeat_initial_delay := True\<rparr> else c1)"

text \<open>
  The wait of the loop is finite only while paused or with the heartbeat on. The time-out then probes: the
  recovery probe is one step, the heartbeat probe of the primary pool leaves the loop, since the running task
  goes on meanwhile.
\<close>

definition loop_timeout :: "coordinator_config \<Rightarrow> bool \<Rightarrow> (bool \<Rightarrow> bool) \<Rightarrow> bool \<Rightarrow> int \<Rightarrow> coordinator \<Rightarrow> coordinator" where
  "loop_timeout cfg wifi_is_connected probe created elapsed_ms c =
     (if s_state c = COORD_STATE_PAUSED then try_resume_from_paused cfg wifi_is_connected probe created c
      else if heartbeat_initial_delay c \<and> elapsed_ms < INITIAL_HEARTBEAT_DELAY_MS then c
      else
        let c1 = c\<lparr>heartbeat_initial_delay := False\<rparr>
        in if use_fallback_stratum cfg then c1\<lparr>s_heartbeat_enabled := False\<rparr>
           else if \<not> wifi_is_connected then c1
           else c1\<lparr>control := Heartbeat_Probing\<rparr>)"

text \<open>The answer of the heartbeat probe.\<close>

definition heartbeat_probed :: "bool \<Rightarrow> coordinator \<Rightarrow> coordinator" where
  "heartbeat_probed reachable c = (if reachable then stop_running_task c else c\<lparr>control := Main_Loop\<rparr>)"

text \<open>
  A turn of the loop that waits for the task to stop: an event or a time-out of 100 ms. After the last turn, or
  an event that ends it, the primary pool is started.
\<close>

definition stop_turn :: "coordinator_config \<Rightarrow> bool \<Rightarrow> coordinator_event option \<Rightarrow> nat \<Rightarrow> coordinator \<Rightarrow> coordinator" where
  "stop_turn cfg created evt left c =
     (if (case evt of None \<Rightarrow> False | Some e \<Rightarrow> ends_stop (s_running_protocol c) e) \<or> left = 1
      then (start_primary cfg created c)\<lparr>control := Main_Loop\<rparr>
      else c\<lparr>control := Stopping (left - 1)\<rparr>)"

section \<open>Coordinator and tasks together\<close>

text \<open>
  The faults of a step: an event that did not fit into the queue, a task that could not be created, a task that
  did not stop in its 100 turns.
\<close>

datatype fault = Event_Lost | Task_Not_Created | Stop_Timed_Out

definition queue_fault :: "coordinator \<Rightarrow> fault set" where
  "queue_fault c = (if length (event_queue c) < 8 then {} else {Event_Lost})"

definition create_fault :: "bool \<Rightarrow> fault set" where
  "create_fault created = (if created then {} else {Task_Not_Created})"

definition stop_fault :: "coordinator_event option \<Rightarrow> nat \<Rightarrow> coordinator \<Rightarrow> fault set" where
  "stop_fault evt left c =
     (if left = 1 \<and> \<not> (case evt of None \<Rightarrow> False | Some e \<Rightarrow> ends_stop (s_running_protocol c) e) then {Stop_Timed_Out} else {})"

definition should_shutdown :: "stratum_protocol \<Rightarrow> coordinator \<Rightarrow> bool" where
  "should_shutdown p c = (if p = STRATUM_PROTOCOL_V2 then s_v2_should_shutdown c else s_v1_should_shutdown c)"

definition task_exited :: "stratum_protocol \<Rightarrow> coordinator \<Rightarrow> coordinator" where
  "task_exited p = (if p = STRATUM_PROTOCOL_V2 then protocol_coordinator_v2_exited else protocol_coordinator_v1_exited)"

text \<open>
  A live task may report success any number of times. It ends in one of two ways: it reports its failure and
  deletes itself, or it sees its shutdown flag, reports its exit and deletes itself.
\<close>

inductive coord_step :: "coordinator_config \<Rightarrow> fault set \<Rightarrow> coordinator \<Rightarrow> coordinator \<Rightarrow> bool" for cfg where
  Task_Succeeds: "p \<in> set (live_tasks c) \<Longrightarrow> coord_step cfg (queue_fault c) c (protocol_coordinator_notify_success c)"
| Task_Fails: "p \<in> set (live_tasks c) \<Longrightarrow>
    coord_step cfg (queue_fault c) c (protocol_coordinator_notify_failure (c\<lparr>live_tasks := remove1 p (live_tasks c)\<rparr>))"
| Task_Exits: "p \<in> set (live_tasks c) \<Longrightarrow> should_shutdown p c \<Longrightarrow>
    coord_step cfg (queue_fault c) c (task_exited p (c\<lparr>live_tasks := remove1 p (live_tasks c)\<rparr>))"
| Loop_Event: "control c = Main_Loop \<Longrightarrow> event_queue c = e # q \<Longrightarrow>
    coord_step cfg (create_fault created) c (loop_event cfg created e (c\<lparr>event_queue := q\<rparr>))"
| Loop_Timeout: "control c = Main_Loop \<Longrightarrow> event_queue c = [] \<Longrightarrow> s_state c = COORD_STATE_PAUSED \<or> s_heartbeat_enabled c \<Longrightarrow>
    coord_step cfg (create_fault created) c (loop_timeout cfg wifi probe created elapsed_ms c)"
| Probed: "control c = Heartbeat_Probing \<Longrightarrow> coord_step cfg {} c (heartbeat_probed reachable c)"
| Stop_Event: "control c = Stopping left \<Longrightarrow> event_queue c = e # q \<Longrightarrow>
    coord_step cfg (create_fault created \<union> stop_fault (Some e) left c) c (stop_turn cfg created (Some e) left (c\<lparr>event_queue := q\<rparr>))"
| Stop_Quiet: "control c = Stopping left \<Longrightarrow> event_queue c = [] \<Longrightarrow>
    coord_step cfg (create_fault created \<union> stop_fault None left c) c (stop_turn cfg created None left c)"

text \<open>Runs, with the faults that occurred in them.\<close>

inductive coord_run :: "coordinator_config \<Rightarrow> fault set \<Rightarrow> coordinator \<Rightarrow> coordinator \<Rightarrow> bool" for cfg where
  Start: "coord_run cfg {} c c"
| Step: "coord_run cfg F c c1 \<Longrightarrow> coord_step cfg G c1 c2 \<Longrightarrow> coord_run cfg (F \<union> G) c c2"

inductive_cases coord_stepE: "coord_step cfg G c c'"

section \<open>The invariant\<close>

definition task_of :: "stratum_protocol \<Rightarrow> stratum_protocol" where
  "task_of p = (if p = STRATUM_PROTOCOL_V2 then STRATUM_PROTOCOL_V2 else STRATUM_PROTOCOL_V1)"

definition pool_protocol :: "coordinator_config \<Rightarrow> bool \<Rightarrow> stratum_protocol" where
  "pool_protocol cfg fallback = (if fallback then fallback_protocol cfg else primary_protocol cfg)"

definition successes :: "coordinator_event list \<Rightarrow> bool" where
  "successes q \<longleftrightarrow> set q \<subseteq> {COORD_EVENT_PROTOCOL_SUCCESS}"

definition stopping :: "coordinator \<Rightarrow> bool" where
  "stopping c \<longleftrightarrow> (\<exists>n. control c = Stopping n)"

text \<open>
  The running task is alive and has reported successes only; or it is gone and its last report waits at the end
  of the queue; or, after a fault, it is gone and nothing will be heard of it.
\<close>

definition accounted :: "fault set \<Rightarrow> coordinator \<Rightarrow> bool" where
  "accounted F c \<longleftrightarrow>
     live_tasks c = [task_of (s_running_protocol c)] \<and> successes (event_queue c) \<or>
     live_tasks c = [] \<and> (\<exists>q e. event_queue c = q @ [e] \<and> successes q \<and> ends_stop (s_running_protocol c) e \<and>
        (\<not> stopping c \<longrightarrow> e = COORD_EVENT_PROTOCOL_FAILED)) \<or>
     live_tasks c = [] \<and> successes (event_queue c) \<and> (Event_Lost \<in> F \<or> Task_Not_Created \<in> F)"

definition running_inv :: "coordinator_config \<Rightarrow> fault set \<Rightarrow> bool \<Rightarrow> coordinator \<Rightarrow> bool" where
  "running_inv cfg F fallback c \<longleftrightarrow>
     s_state c = (if fallback then COORD_STATE_RUNNING_FALLBACK else COORD_STATE_RUNNING_PRIMARY) \<and>
     is_using_fallback c = fallback \<and> s_running_protocol c = pool_protocol cfg fallback \<and> global_protocol c = pool_protocol cfg fallback \<and>
     \<not> pools_unavailable c \<and> 0 \<le> s_consecutive_pool_failures c \<and> s_consecutive_pool_failures c < pool_failure_threshold cfg \<and>
     (s_heartbeat_enabled c \<longrightarrow> fallback \<and> \<not> use_fallback_stratum cfg) \<and> (control c \<noteq> Main_Loop \<longrightarrow> s_heartbeat_enabled c) \<and>
     (\<not> stopping c \<longrightarrow> \<not> should_shutdown (s_running_protocol c) c) \<and> control c \<noteq> Stopping 0 \<and> accounted F c"

definition paused_inv :: "coordinator_config \<Rightarrow> coordinator \<Rightarrow> bool" where
  "paused_inv cfg c \<longleftrightarrow>
     s_state c = COORD_STATE_PAUSED \<and> control c = Main_Loop \<and> live_tasks c = [] \<and> event_queue c = [] \<and> pools_unavailable c \<and>
     \<not> s_heartbeat_enabled c \<and> s_consecutive_pool_failures c = pool_failure_threshold cfg"

definition coord_inv :: "coordinator_config \<Rightarrow> fault set \<Rightarrow> coordinator \<Rightarrow> bool" where
  "coord_inv cfg F c \<longleftrightarrow> paused_inv cfg c \<or> (\<exists>fallback. running_inv cfg F fallback c)"

text \<open>What starting a task does to the fields.\<close>

lemma start_protocol_task_fields [simp]:
  "control (start_protocol_task created p c) = control c" "s_state (start_protocol_task created p c) = s_state c"
  "event_queue (start_protocol_task created p c) = event_queue c" "s_running_protocol (start_protocol_task created p c) = s_running_protocol c"
  "s_heartbeat_enabled (start_protocol_task created p c) = s_heartbeat_enabled c"
  "s_consecutive_pool_failures (start_protocol_task created p c) = s_consecutive_pool_failures c"
  "heartbeat_initial_delay (start_protocol_task created p c) = heartbeat_initial_delay c"
  "is_using_fallback (start_protocol_task created p c) = is_using_fallback c" "global_protocol (start_protocol_task created p c) = global_protocol c"
  "pools_unavailable (start_protocol_task created p c) = pools_unavailable c"
  "coordinator_queue (start_protocol_task created p c) = coordinator_queue c" "share_stats (start_protocol_task created p c) = share_stats c"
  "live_tasks (start_protocol_task created p c) = live_tasks c @ (if created then [task_of p] else [])"
  "\<not> should_shutdown p (start_protocol_task created p c)"
  by (simp_all add: start_protocol_task_def start_v1_task_def start_v2_task_def Let_def task_of_def should_shutdown_def)

lemma clear_queue_and_stats_fields [simp]:
  "control (clear_queue_and_stats c) = control c" "event_queue (clear_queue_and_stats c) = event_queue c"
  "live_tasks (clear_queue_and_stats c) = live_tasks c" "s_consecutive_pool_failures (clear_queue_and_stats c) = s_consecutive_pool_failures c"
  "pools_unavailable (clear_queue_and_stats c) = pools_unavailable c" "s_state (clear_queue_and_stats c) = s_state c"
  "is_using_fallback (clear_queue_and_stats c) = is_using_fallback c" "global_protocol (clear_queue_and_stats c) = global_protocol c"
  "s_running_protocol (clear_queue_and_stats c) = s_running_protocol c"
  by (simp_all add: clear_queue_and_stats_def)

lemma successes_simps [simp]:
  "successes []" "successes (e # q) \<longleftrightarrow> e = COORD_EVENT_PROTOCOL_SUCCESS \<and> successes q" "successes (q @ q') \<longleftrightarrow> successes q \<and> successes q'"
  by (auto simp: successes_def)

lemma ends_stop_success [simp]: "\<not> ends_stop p COORD_EVENT_PROTOCOL_SUCCESS"
  by (simp add: ends_stop_def)

lemma threshold_pos [simp]: "0 < pool_failure_threshold cfg"
  by (simp add: pool_failure_threshold_def)

text \<open>A pool that is started in the loop with no task alive and no event waiting.\<close>

lemma started:
  assumes "s_state c = (if fallback then COORD_STATE_RUNNING_FALLBACK else COORD_STATE_RUNNING_PRIMARY)"
    and "is_using_fallback c = fallback" "s_running_protocol c = pool_protocol cfg fallback" "global_protocol c = pool_protocol cfg fallback"
    and "\<not> pools_unavailable c" "0 \<le> s_consecutive_pool_failures c" "s_consecutive_pool_failures c < pool_failure_threshold cfg"
    and "s_heartbeat_enabled c \<longrightarrow> fallback \<and> \<not> use_fallback_stratum cfg" "control c = Main_Loop"
    and "\<not> should_shutdown (s_running_protocol c) c"
    and "live_tasks c = (if created then [task_of (s_running_protocol c)] else [])" "successes (event_queue c)" "create_fault created \<subseteq> F"
  shows "running_inv cfg F fallback c"
  using assms by (cases created) (auto simp: running_inv_def accounted_def stopping_def create_fault_def)

section \<open>Every step keeps the invariant\<close>

lemma should_shutdown_update [simp]:
  "should_shutdown p (c\<lparr>event_queue := q\<rparr>) = should_shutdown p c" "should_shutdown p (c\<lparr>live_tasks := ts\<rparr>) = should_shutdown p c"
  "should_shutdown p (c\<lparr>s_heartbeat_enabled := b\<rparr>) = should_shutdown p c" "should_shutdown p (c\<lparr>heartbeat_initial_delay := d\<rparr>) = should_shutdown p c"
  "should_shutdown p (c\<lparr>control := k\<rparr>) = should_shutdown p c" "should_shutdown p (c\<lparr>s_consecutive_pool_failures := n\<rparr>) = should_shutdown p c"
  "should_shutdown p (c\<lparr>pools_unavailable := b\<rparr>) = should_shutdown p c"
  by (simp_all add: should_shutdown_def)

lemma running_inv_mono: "running_inv cfg F fallback c \<Longrightarrow> F \<subseteq> G \<Longrightarrow> running_inv cfg G fallback c"
  unfolding running_inv_def accounted_def by blast

lemma coord_inv_mono: "coord_inv cfg F c \<Longrightarrow> F \<subseteq> G \<Longrightarrow> coord_inv cfg G c"
  unfolding coord_inv_def using running_inv_mono by blast

text \<open>Failure, in the loop: the queue is empty afterwards, and no task is alive.\<close>

lemma failure_last:
  assumes "accounted F c" "event_queue c = COORD_EVENT_PROTOCOL_FAILED # q"
  shows "live_tasks c = []" "q = []"
  using assms by (auto simp: accounted_def append_eq_Cons_conv Cons_eq_append_conv)

lemma switch_to_fallback_inv:
  assumes "live_tasks c = []" "event_queue c = []" "control c = Main_Loop" "\<not> pools_unavailable c" "0 \<le> s_consecutive_pool_failures c"
    "s_consecutive_pool_failures c < pool_failure_threshold cfg"
  shows "running_inv cfg (F \<union> create_fault created) True (switch_to_fallback cfg created c)"
  by (rule started [where created = created]) (use assms in \<open>simp_all add: switch_to_fallback_def Let_def pool_protocol_def\<close>)

lemma start_primary_inv:
  assumes "live_tasks c = []" "successes (event_queue c)" "\<not> pools_unavailable c" "0 \<le> s_consecutive_pool_failures c"
    "s_consecutive_pool_failures c < pool_failure_threshold cfg"
  shows "running_inv cfg (F \<union> create_fault created) False ((start_primary cfg created c)\<lparr>control := Main_Loop\<rparr>)"
  by (rule started [where created = created]) (use assms in \<open>simp_all add: start_primary_def Let_def pool_protocol_def\<close>)

lemma resume_on_pool_inv:
  assumes "live_tasks c = []" "event_queue c = []" "control c = Main_Loop"
  shows "running_inv cfg (F \<union> create_fault created) fallback (resume_on_pool cfg created fallback c)"
  by (rule started [where created = created]) (use assms in \<open>simp_all add: resume_on_pool_def Let_def pool_protocol_def\<close>)

lemma initial_delay_inv: "running_inv cfg F fallback c \<Longrightarrow> running_inv cfg F fallback (c\<lparr>heartbeat_initial_delay := b\<rparr>)"
  by (auto simp: running_inv_def accounted_def stopping_def)

lemma coord_delay_inv: "coord_inv cfg F c \<Longrightarrow> coord_inv cfg F (c\<lparr>heartbeat_initial_delay := b\<rparr>)"
  unfolding coord_inv_def by (auto simp: paused_inv_def dest: initial_delay_inv)

lemma loop_event_inv:
  assumes "running_inv cfg F fallback c" "control c = Main_Loop" "event_queue c = e # q"
  shows "coord_inv cfg (F \<union> create_fault created) (loop_event cfg created e (c\<lparr>event_queue := q\<rparr>))"
proof -
  let ?c = "c\<lparr>event_queue := q\<rparr>" and ?F = "F \<union> create_fault created"
  have acc: "accounted F c" and nostop: "\<not> stopping c" using assms(1,2) by (auto simp: running_inv_def stopping_def)
  have "coord_inv cfg ?F (handle_event cfg created e ?c)"
  proof (cases e)
    case COORD_EVENT_PROTOCOL_SUCCESS
    have "accounted F (?c\<lparr>s_consecutive_pool_failures := 0, pools_unavailable := False\<rparr>)"
      using acc assms(3) COORD_EVENT_PROTOCOL_SUCCESS by (auto simp: accounted_def stopping_def Cons_eq_append_conv)
    then have "running_inv cfg F fallback (handle_event cfg created e ?c)"
      using assms(1) COORD_EVENT_PROTOCOL_SUCCESS by (auto simp: running_inv_def handle_event_def stopping_def)
    then show ?thesis unfolding coord_inv_def by (blast intro: running_inv_mono)
  next
    case COORD_EVENT_PROTOCOL_FAILED
    note empty = failure_last [OF acc assms(3) [unfolded COORD_EVENT_PROTOCOL_FAILED]]
    let ?n = "?c\<lparr>s_consecutive_pool_failures := s_consecutive_pool_failures c + 1\<rparr>"
    show ?thesis
    proof (cases "s_consecutive_pool_failures c + 1 \<ge> pool_failure_threshold cfg")
      case True
      then have "paused_inv cfg (handle_event cfg created e ?c)"
        using assms(1,2) empty COORD_EVENT_PROTOCOL_FAILED
        by (auto simp: handle_event_def paused_inv_def running_inv_def enter_paused_state_def split: if_splits)
      then show ?thesis by (simp add: coord_inv_def)
    next
      case False
      have "running_inv cfg ?F True (switch_to_fallback cfg created ?n)"
        by (rule switch_to_fallback_inv) (use assms(1,2) empty False in \<open>simp_all add: running_inv_def\<close>)
      moreover have "running_inv cfg ?F False ((start_primary cfg created ?n)\<lparr>control := Main_Loop\<rparr>)"
        by (rule start_primary_inv) (use assms(1,2) empty False in \<open>simp_all add: running_inv_def\<close>)
      moreover have "(start_primary cfg created ?n)\<lparr>control := Main_Loop\<rparr> = start_primary cfg created ?n"
        using assms(2) by (simp add: start_primary_def Let_def start_protocol_task_def start_v1_task_def start_v2_task_def clear_queue_and_stats_def)
      ultimately show ?thesis
        using assms(1) False COORD_EVENT_PROTOCOL_FAILED by (auto simp: handle_event_def coord_inv_def running_inv_def split: if_splits)
    qed
  qed (use acc assms(3) nostop in \<open>auto simp: accounted_def append_eq_Cons_conv Cons_eq_append_conv\<close>)
  then show ?thesis by (simp add: loop_event_def Let_def coord_delay_inv)
qed

lemma loop_timeout_inv:
  assumes "coord_inv cfg F c" "control c = Main_Loop" "event_queue c = []" "s_state c = COORD_STATE_PAUSED \<or> s_heartbeat_enabled c"
  shows "coord_inv cfg (F \<union> create_fault created) (loop_timeout cfg wifi probe created elapsed_ms c)"
proof (cases "s_state c = COORD_STATE_PAUSED")
  case True
  with assms(1) have paused: "paused_inv cfg c" by (auto simp: coord_inv_def running_inv_def split: if_splits)
  then have "running_inv cfg (F \<union> create_fault created) fallback (resume_on_pool cfg created fallback c)" for fallback
    by (intro resume_on_pool_inv) (simp_all add: paused_inv_def)
  with paused True show ?thesis by (auto simp: loop_timeout_def try_resume_from_paused_def coord_inv_def)
next
  case False
  with assms(1) obtain fallback where run: "running_inv cfg F fallback c" by (auto simp: coord_inv_def paused_inv_def)
  with False assms(4) have hb: "s_heartbeat_enabled c" by simp
  have probing: "running_inv cfg F fallback (c\<lparr>heartbeat_initial_delay := False, control := Heartbeat_Probing\<rparr>)"
    using run assms(2) hb by (auto simp: running_inv_def accounted_def stopping_def)
  have "\<not> use_fallback_stratum cfg" using run hb by (simp add: running_inv_def)
  then have "coord_inv cfg F (loop_timeout cfg wifi probe created elapsed_ms c)"
    using False probing assms(1) coord_delay_inv [OF assms(1)] by (auto simp: loop_timeout_def Let_def coord_inv_def)
  then show ?thesis by (rule coord_inv_mono) simp
qed

lemma heartbeat_probed_inv:
  assumes "coord_inv cfg F c" "control c = Heartbeat_Probing"
  shows "coord_inv cfg F (heartbeat_probed reachable c)"
  using assms by (auto simp: coord_inv_def paused_inv_def running_inv_def heartbeat_probed_def stop_running_task_def accounted_def stopping_def)

lemma stop_turn_inv:
  assumes "coord_inv cfg F c" "control c = Stopping left" "event_queue c = (case evt of None \<Rightarrow> q | Some e \<Rightarrow> e # q)" "evt = None \<Longrightarrow> q = []"
    and "Stop_Timed_Out \<notin> stop_fault evt left c"
  shows "coord_inv cfg (F \<union> create_fault created) (stop_turn cfg created evt left (c\<lparr>event_queue := q\<rparr>))"
proof -
  from assms(1,2) obtain fallback where run: "running_inv cfg F fallback c" by (auto simp: coord_inv_def paused_inv_def)
  then have acc: "accounted F c" and left: "left \<noteq> 0" using assms(2) by (auto simp: running_inv_def)
  let ?c = "c\<lparr>event_queue := q\<rparr>"
  show ?thesis
  proof (cases "\<exists>e. evt = Some e \<and> ends_stop (s_running_protocol c) e")
    case True
    then have "live_tasks c = []" "q = []"
      using acc assms(3) by (auto simp: accounted_def append_eq_Cons_conv Cons_eq_append_conv)
    then have "running_inv cfg (F \<union> create_fault created) False ((start_primary cfg created ?c)\<lparr>control := Main_Loop\<rparr>)"
      by (intro start_primary_inv) (use run in \<open>simp_all add: running_inv_def\<close>)
    then show ?thesis using True by (auto simp: stop_turn_def coord_inv_def)
  next
    case False
    then have more: "left \<noteq> 1" "stop_turn cfg created evt left ?c = ?c\<lparr>control := Stopping (left - 1)\<rparr>"
      using assms(5) by (auto simp: stop_fault_def stop_turn_def split: option.splits if_splits)
    have "accounted F (?c\<lparr>control := Stopping (left - 1)\<rparr>)"
      using acc assms(2-4) False
      by (cases evt) (auto simp: accounted_def stopping_def append_eq_Cons_conv Cons_eq_append_conv)
    then have "running_inv cfg F fallback (?c\<lparr>control := Stopping (left - 1)\<rparr>)"
      using run assms(2) left more(1) by (auto simp: running_inv_def stopping_def)
    then show ?thesis unfolding more(2) coord_inv_def by (blast intro: running_inv_mono)
  qed
qed

lemma report_inv:
  assumes "coord_inv cfg F c" "p \<in> set (live_tasks c)"
  shows "coord_inv cfg (F \<union> queue_fault c) (protocol_coordinator_notify_success c)"
    and "coord_inv cfg (F \<union> queue_fault c) (protocol_coordinator_notify_failure (c\<lparr>live_tasks := remove1 p (live_tasks c)\<rparr>))"
    and "should_shutdown p c \<Longrightarrow> coord_inv cfg (F \<union> queue_fault c) (task_exited p (c\<lparr>live_tasks := remove1 p (live_tasks c)\<rparr>))"
proof -
  from assms obtain fallback where run: "running_inv cfg F fallback c" and tasks: "live_tasks c = [p]" "p = task_of (s_running_protocol c)"
    and rest: "successes (event_queue c)"
    by (auto simp: coord_inv_def paused_inv_def running_inv_def accounted_def)
  have flag: "should_shutdown p c = should_shutdown (s_running_protocol c) c" by (simp add: tasks(2) should_shutdown_def task_of_def)
  note defs = running_inv_def accounted_def stopping_def send_event_def queue_fault_def
  have "running_inv cfg (F \<union> queue_fault c) fallback (protocol_coordinator_notify_success c)"
    using run tasks rest by (auto simp: defs protocol_coordinator_notify_success_def)
  then show "coord_inv cfg (F \<union> queue_fault c) (protocol_coordinator_notify_success c)" by (auto simp: coord_inv_def)
  have "running_inv cfg (F \<union> queue_fault c) fallback (protocol_coordinator_notify_failure (c\<lparr>live_tasks := remove1 p (live_tasks c)\<rparr>))"
    using run tasks(1) rest by (auto simp: defs protocol_coordinator_notify_failure_def ends_stop_def)
  then show "coord_inv cfg (F \<union> queue_fault c) (protocol_coordinator_notify_failure (c\<lparr>live_tasks := remove1 p (live_tasks c)\<rparr>))"
    by (auto simp: coord_inv_def)
  assume "should_shutdown p c"
  then have "stopping c" using run by (auto simp: running_inv_def flag)
  then have "running_inv cfg (F \<union> queue_fault c) fallback (task_exited p (c\<lparr>live_tasks := remove1 p (live_tasks c)\<rparr>))"
    using run tasks rest
    by (auto simp: defs task_exited_def task_of_def protocol_coordinator_v1_exited_def protocol_coordinator_v2_exited_def ends_stop_def)
  then show "coord_inv cfg (F \<union> queue_fault c) (task_exited p (c\<lparr>live_tasks := remove1 p (live_tasks c)\<rparr>))" by (auto simp: coord_inv_def)
qed

lemma coord_step_inv:
  assumes "coord_step cfg G c c'" "coord_inv cfg F c" "Stop_Timed_Out \<notin> G"
  shows "coord_inv cfg (F \<union> G) c'"
  using assms(1)
proof cases
  case Task_Succeeds
  then show ?thesis using report_inv(1) [OF assms(2)] by simp
next
  case Task_Fails
  then show ?thesis using report_inv(2) [OF assms(2)] by simp
next
  case Task_Exits
  then show ?thesis using report_inv(3) [OF assms(2)] by simp
next
  case (Loop_Event e q created)
  moreover from this assms(2) obtain fallback where "running_inv cfg F fallback c" by (auto simp: coord_inv_def paused_inv_def)
  ultimately show ?thesis using loop_event_inv by simp
next
  case Loop_Timeout
  then show ?thesis using loop_timeout_inv [OF assms(2)] by simp
next
  case Probed
  then show ?thesis using heartbeat_probed_inv [OF assms(2)] by simp
next
  case (Stop_Event left e q created)
  with assms(3) have "coord_inv cfg (F \<union> create_fault created) c'" using stop_turn_inv [OF assms(2), where left = left and evt = "Some e" and q = q and created = created] by simp
  then show ?thesis by (rule coord_inv_mono) (use Stop_Event in auto)
next
  case (Stop_Quiet left created)
  with assms(3) have "coord_inv cfg (F \<union> create_fault created) (stop_turn cfg created None left (c\<lparr>event_queue := []\<rparr>))"
    using stop_turn_inv [OF assms(2), where left = left and evt = None and q = "[]" and created = created] by simp
  moreover have "c\<lparr>event_queue := []\<rparr> = c" using Stop_Quiet by simp
  ultimately show ?thesis using Stop_Quiet by (auto intro: coord_inv_mono)
qed

lemma coord_run_inv: "coord_run cfg F c c' \<Longrightarrow> coord_inv cfg G c \<Longrightarrow> Stop_Timed_Out \<notin> F \<Longrightarrow> coord_inv cfg (G \<union> F) c'"
proof (induction rule: coord_run.induct)
  case (Start c)
  then show ?case by simp
next
  case (Step F c c1 H c2)
  then have "coord_inv cfg (G \<union> F) c1" by simp
  from coord_step_inv [OF Step.hyps(2) this] Step.prems show ?case by (simp add: Un_assoc)
qed

text \<open>The state in which the task begins, as \<open>SYSTEM_init_system\<close> and \<open>protocol_coordinator_init\<close> leave it.\<close>

definition booted :: "coordinator_config \<Rightarrow> coordinator \<Rightarrow> bool" where
  "booted cfg c \<longleftrightarrow> is_using_fallback c = use_fallback_stratum cfg \<and>
     global_protocol c = pool_protocol cfg (use_fallback_stratum cfg) \<and> \<not> pools_unavailable c \<and> live_tasks c = []"

lemma coordinator_start_inv:
  assumes "booted cfg c"
  shows "coord_inv cfg (create_fault created) (coordinator_start cfg created (protocol_coordinator_init c))"
proof -
  have "running_inv cfg (create_fault created) (use_fallback_stratum cfg) (coordinator_start cfg created (protocol_coordinator_init c))"
    by (rule started [where created = created])
      (use assms in \<open>auto simp: booted_def coordinator_start_def protocol_coordinator_init_def pool_protocol_def\<close>)
  then show ?thesis by (auto simp: coord_inv_def)
qed

section \<open>Properties of the runs\<close>

lemma queue_clear_count: "count (snd (queue_clear q)) = 0"
proof -
  have "count (snd (queue_clear_loop q freed)) = 0" for freed
    by (induction q freed rule: queue_clear_loop.induct) (subst queue_clear_loop.simps, simp split: prod.split)
  then show ?thesis by (simp add: queue_clear_def)
qed

lemma resumed:
  assumes "live_tasks c = []"
  shows "live_tasks (resume_on_pool cfg True fallback c) = [task_of (pool_protocol cfg fallback)] \<and>
    is_using_fallback (resume_on_pool cfg True fallback c) = fallback \<and> global_protocol (resume_on_pool cfg True fallback c) = pool_protocol cfg fallback \<and>
    \<not> pools_unavailable (resume_on_pool cfg True fallback c) \<and> s_consecutive_pool_failures (resume_on_pool cfg True fallback c) = 0 \<and>
    count (coordinator_queue (resume_on_pool cfg True fallback c)) = 0 \<and> shares_accepted (share_stats (resume_on_pool cfg True fallback c)) = 0"
  using assms by (simp add: resume_on_pool_def Let_def pool_protocol_def)
    (simp add: clear_queue_and_stats_def queue_clear_count reset_share_stats_def)

lemma resumes_when_reachable:
  assumes "s_state c = COORD_STATE_PAUSED" "probe False \<or> has_fallback_pool cfg \<and> probe True"
  shows "loop_timeout cfg True probe True elapsed_ms c =
    resume_on_pool cfg True (if use_fallback_stratum cfg \<and> has_fallback_pool cfg then probe True else \<not> probe False) c"
  using assms by (auto simp: loop_timeout_def try_resume_from_paused_def)

text \<open>
  C5. In every run in which no task overstays the shutdown loop, whatever else happens, at most one protocol
  task is alive, and it speaks the protocol of the pool in use, which is the one the job and result tasks read;
  the power flag for unreachable pools is set exactly while the coordinator is paused, and then no task is
  alive and the failures have reached the threshold.
\<close>

theorem coordinator_safe:
  assumes "booted cfg c0" "coord_run cfg F (coordinator_start cfg created (protocol_coordinator_init c0)) c" "Stop_Timed_Out \<notin> F"
  shows "(live_tasks c = [] \<or> live_tasks c = [task_of (global_protocol c)]) \<and>
    (s_state c \<noteq> COORD_STATE_PAUSED \<longrightarrow> global_protocol c = pool_protocol cfg (is_using_fallback c)) \<and>
    (pools_unavailable c \<longleftrightarrow> s_state c = COORD_STATE_PAUSED) \<and>
    (s_state c = COORD_STATE_PAUSED \<longrightarrow> live_tasks c = [] \<and> s_consecutive_pool_failures c = pool_failure_threshold cfg)"
proof -
  from coord_run_inv [OF assms(2) coordinator_start_inv [OF assms(1)] assms(3)]
  consider "paused_inv cfg c" | fallback where "running_inv cfg (create_fault created \<union> F) fallback c" by (auto simp: coord_inv_def)
  then show ?thesis
  proof cases
    case 1
    then show ?thesis by (simp add: paused_inv_def)
  next
    case 2
    then have "s_state c \<noteq> COORD_STATE_PAUSED" "live_tasks c = [] \<or> live_tasks c = [task_of (s_running_protocol c)]"
      by (auto simp: running_inv_def accounted_def split: if_splits)
    with 2 show ?thesis by (simp add: running_inv_def)
  qed
qed

text \<open>
  C22. In a run without faults the coordinator never waits for nothing: whenever it is in its loop, a task that
  has not been told to stop is alive, or a failure waits in the queue, or the coordinator is paused, and then its next time-out
  with a reachable pool, tried in the order of the user's choice, starts a task on that pool with an empty job
  queue, new statistics and no failures counted.
\<close>

theorem never_stuck:
  assumes "booted cfg c0" "coord_run cfg {} (coordinator_start cfg True (protocol_coordinator_init c0)) c" "control c = Main_Loop"
  shows "(\<exists>p. live_tasks c = [p] \<and> \<not> should_shutdown p c) \<or> COORD_EVENT_PROTOCOL_FAILED \<in> set (event_queue c) \<or>
    s_state c = COORD_STATE_PAUSED \<and> event_queue c = [] \<and>
     (\<forall>probe. probe False \<or> has_fallback_pool cfg \<and> probe True \<longrightarrow>
       (let fallback = (if use_fallback_stratum cfg \<and> has_fallback_pool cfg then probe True else \<not> probe False);
            c' = loop_timeout cfg True probe True elapsed_ms c
        in live_tasks c' = [task_of (pool_protocol cfg fallback)] \<and> is_using_fallback c' = fallback \<and>
           global_protocol c' = pool_protocol cfg fallback \<and> \<not> pools_unavailable c' \<and> s_consecutive_pool_failures c' = 0 \<and>
           count (coordinator_queue c') = 0 \<and> shares_accepted (share_stats c') = 0))"
proof -
  have "coord_inv cfg {} c" using coord_run_inv [OF assms(2) coordinator_start_inv [OF assms(1)]] by (simp add: create_fault_def)
  then consider fallback where "running_inv cfg {} fallback c" | "paused_inv cfg c" by (auto simp: coord_inv_def)
  then show ?thesis
  proof cases
    case 1
    then have "accounted {} c" "\<not> should_shutdown (s_running_protocol c) c" "\<not> stopping c"
      using assms(3) by (auto simp: running_inv_def stopping_def)
    moreover have "should_shutdown (task_of p) c = should_shutdown p c" for p by (simp add: should_shutdown_def task_of_def)
    ultimately have "(\<exists>p. live_tasks c = [p] \<and> \<not> should_shutdown p c) \<or> COORD_EVENT_PROTOCOL_FAILED \<in> set (event_queue c)"
      unfolding accounted_def by auto
    then show ?thesis by (elim disjE) (rule disjI1, assumption, rule disjI2, rule disjI1)
  next
    case 2
    then have paused: "s_state c = COORD_STATE_PAUSED" "event_queue c = []" "live_tasks c = []" by (simp_all add: paused_inv_def)
    show ?thesis
      using paused resumed [OF paused(3)] by (simp add: resumes_when_reachable [OF paused(1)] Let_def)
  qed
qed

text \<open>Two Stratum V1 pools, and the state after booting.\<close>

definition two_v1_pools :: coordinator_config where
  "two_v1_pools = \<lparr>primary_protocol = STRATUM_PROTOCOL_V1, fallback_protocol = STRATUM_PROTOCOL_V1, fallback_url = Some [112],
     use_fallback_stratum = False\<rparr>"

definition boot_state :: coordinator where
  "boot_state = \<lparr>control = Main_Loop, s_state = COORD_STATE_IDLE, event_queue = [], s_v1_should_shutdown = False, s_v2_should_shutdown = False,
     s_running_protocol = STRATUM_PROTOCOL_UNKNOWN, s_heartbeat_enabled = False, s_consecutive_pool_failures = 0, heartbeat_initial_delay = False,
     is_using_fallback = False, global_protocol = STRATUM_PROTOCOL_V1, pools_unavailable = False,
     coordinator_queue = stratum_queue (fresh_client SV2_CHANNEL_STANDARD),
     share_stats = \<lparr>rejected_reason_stats = replicate 10 (0, []), rejected_reason_stats_count = 0, shares_accepted = 0, shares_rejected = 0,
       stats_work_received = 0\<rparr>, live_tasks = []\<rparr>"

definition started_state :: coordinator where
  "started_state = coordinator_start two_v1_pools True (protocol_coordinator_init boot_state)"

lemma boot_state: "booted two_v1_pools boot_state"
  by (simp add: booted_def boot_state_def two_v1_pools_def pool_protocol_def)

lemma started_state_fields:
  "control started_state = Main_Loop" "event_queue started_state = []" "live_tasks started_state = [STRATUM_PROTOCOL_V1]"
  "s_consecutive_pool_failures started_state = 0" "s_state started_state = COORD_STATE_RUNNING_PRIMARY" "\<not> s_heartbeat_enabled started_state"
  by (simp_all add: started_state_def coordinator_start_def protocol_coordinator_init_def boot_state_def two_v1_pools_def task_of_def)

text \<open>The primary pool fails and the coordinator switches to the fallback pool.\<close>

lemma failover_run:
  obtains c where "coord_run two_v1_pools {} started_state c" "control c = Main_Loop" "event_queue c = []" "live_tasks c = [STRATUM_PROTOCOL_V1]"
    "s_heartbeat_enabled c" "s_state c = COORD_STATE_RUNNING_FALLBACK" "s_running_protocol c = STRATUM_PROTOCOL_V1" "is_using_fallback c"
proof -
  let ?failed = "protocol_coordinator_notify_failure (started_state\<lparr>live_tasks := remove1 STRATUM_PROTOCOL_V1 (live_tasks started_state)\<rparr>)"
  note f = started_state_fields
  have "coord_run two_v1_pools ({} \<union> queue_fault started_state) started_state ?failed"
    by (rule Step [OF Start], rule Task_Fails) (simp add: f)
  then have run: "coord_run two_v1_pools {} started_state ?failed" by (simp add: queue_fault_def f)
  let ?c = "loop_event two_v1_pools True COORD_EVENT_PROTOCOL_FAILED (?failed\<lparr>event_queue := []\<rparr>)"
  have "coord_run two_v1_pools ({} \<union> create_fault True) started_state ?c"
    by (rule Step [OF run], rule Loop_Event) (simp_all add: f protocol_coordinator_notify_failure_def send_event_def)
  moreover have "control ?c = Main_Loop" "event_queue ?c = []" "live_tasks ?c = [STRATUM_PROTOCOL_V1]" "s_heartbeat_enabled ?c"
    "s_state ?c = COORD_STATE_RUNNING_FALLBACK" "s_running_protocol ?c = STRATUM_PROTOCOL_V1" "is_using_fallback ?c"
    by (simp_all add: loop_event_def handle_event_def protocol_coordinator_notify_failure_def send_event_def f pool_failure_threshold_def
        has_fallback_pool_def two_v1_pools_def switch_to_fallback_def Let_def task_of_def)
  ultimately show thesis using that by (simp add: create_fault_def)
qed

theorem coordinator_safe_witness:
  "\<exists>c. coord_run two_v1_pools {} started_state c \<and> is_using_fallback c \<and> live_tasks c = [task_of (global_protocol c)] \<and> \<not> pools_unavailable c"
proof -
  obtain c where c: "coord_run two_v1_pools {} started_state c" "live_tasks c = [STRATUM_PROTOCOL_V1]" "s_state c = COORD_STATE_RUNNING_FALLBACK"
    "is_using_fallback c" by (rule failover_run)
  from coordinator_safe [OF boot_state c(1) [unfolded started_state_def]] c show ?thesis by auto
qed

theorem never_stuck_witness:
  "\<exists>c. coord_run two_v1_pools {} started_state c \<and> is_using_fallback c \<and>
    ((\<exists>p. live_tasks c = [p] \<and> \<not> should_shutdown p c) \<or> COORD_EVENT_PROTOCOL_FAILED \<in> set (event_queue c) \<or> s_state c = COORD_STATE_PAUSED)"
proof -
  obtain c where c: "coord_run two_v1_pools {} started_state c" "control c = Main_Loop" "is_using_fallback c" by (rule failover_run)
  from never_stuck [OF boot_state c(1) [unfolded started_state_def] c(2)] c show ?thesis by blast
qed

text \<open>Waiting in vain for a task to stop.\<close>

lemma waits_in_vain:
  "coord_run cfg F c0 c \<Longrightarrow> control c = Stopping (Suc n) \<Longrightarrow> event_queue c = [] \<Longrightarrow> coord_run cfg F c0 (c\<lparr>control := Stopping 1\<rparr>)"
proof (induction n arbitrary: c)
  case 0
  then have "c\<lparr>control := Stopping 1\<rparr> = c" by simp
  then show ?case using 0(1) by simp
next
  case (Suc n)
  have "coord_run cfg (F \<union> (create_fault True \<union> stop_fault None (Suc (Suc n)) c)) c0 (stop_turn cfg True None (Suc (Suc n)) c)"
    by (rule Step [OF Suc.prems(1)], rule Stop_Quiet) (use Suc.prems in simp_all)
  then have "coord_run cfg F c0 (c\<lparr>control := Stopping (Suc n)\<rparr>)" by (simp add: create_fault_def stop_fault_def stop_turn_def)
  from Suc.IH [OF this] Suc.prems(3) show ?case by simp
qed

text \<open>
  A task that does not stop within the 100 turns is left alone: the coordinator starts the task of the primary
  pool, which clears the shutdown flag when both pools speak the same protocol, and two tasks of one protocol
  run at once, neither of them told to stop.
\<close>

theorem overstaying_task_doubles:
  "\<exists>c. coord_run two_v1_pools {Stop_Timed_Out} started_state c \<and> control c = Main_Loop \<and>
     live_tasks c = [STRATUM_PROTOCOL_V1, STRATUM_PROTOCOL_V1] \<and> \<not> s_v1_should_shutdown c"
proof -
  obtain c where c: "coord_run two_v1_pools {} started_state c" "control c = Main_Loop" "event_queue c = []" "live_tasks c = [STRATUM_PROTOCOL_V1]"
    "s_heartbeat_enabled c" "s_state c = COORD_STATE_RUNNING_FALLBACK" "s_running_protocol c = STRATUM_PROTOCOL_V1" by (rule failover_run)
  let ?p = "c\<lparr>heartbeat_initial_delay := False, control := Heartbeat_Probing\<rparr>"
  let ?s = "stop_running_task ?p" let ?l = "?s\<lparr>control := Stopping 1\<rparr>"
  have probing: "loop_timeout two_v1_pools True (\<lambda>_. True) True 60000 c = ?p"
    by (simp add: loop_timeout_def c(6) INITIAL_HEARTBEAT_DELAY_MS_def two_v1_pools_def Let_def)
  have "coord_run two_v1_pools ({} \<union> create_fault True) started_state ?p"
    unfolding probing [symmetric] by (rule Step [OF c(1)], rule Loop_Timeout) (simp_all add: c)
  then have "coord_run two_v1_pools {} started_state ?p" by (simp add: create_fault_def)
  then have "coord_run two_v1_pools ({} \<union> {}) started_state (heartbeat_probed True ?p)" by (rule Step) (rule Probed, simp)
  then have "coord_run two_v1_pools {} started_state ?s" by (simp add: heartbeat_probed_def)
  then have last: "coord_run two_v1_pools {} started_state ?l"
    by (rule waits_in_vain [where n = 99]) (simp_all add: stop_running_task_def c(3))
  have "coord_run two_v1_pools ({} \<union> (create_fault True \<union> stop_fault None 1 ?l)) started_state (stop_turn two_v1_pools True None 1 ?l)"
    by (rule Step [OF last], rule Stop_Quiet) (simp_all add: stop_running_task_def c(3))
  then have "coord_run two_v1_pools {Stop_Timed_Out} started_state ((start_primary two_v1_pools True ?l)\<lparr>control := Main_Loop\<rparr>)"
    by (simp add: create_fault_def stop_fault_def stop_turn_def)
  moreover have "live_tasks (start_primary two_v1_pools True ?l) = [STRATUM_PROTOCOL_V1, STRATUM_PROTOCOL_V1]"
    "\<not> s_v1_should_shutdown (start_primary two_v1_pools True ?l)"
    by (simp_all add: start_primary_def Let_def stop_running_task_def c task_of_def two_v1_pools_def start_protocol_task_def start_v1_task_def)
  ultimately show ?thesis by (intro exI [of _ "(start_primary two_v1_pools True ?l)\<lparr>control := Main_Loop\<rparr>"]) simp
qed

end
