(* ===== verification/Tuning_Limits.thy ===== *)
theory Tuning_Limits
  imports Asic_Common Binary_Float
begin

text \<open>
  \<open>main/tuning_limits.c\<close>: the envelope of core voltage and frequency, and the functions that clamp a stored
  value into it. The stored settings are those of \<open>nvs_config\<close> that the power management and the autotuner use;
  the static variables of the clamping functions are kept with them.
\<close>

section \<open>Configuration and settings\<close>

record tuning_config =
  frequency_options :: "u16 list option"
  voltage_options :: "u16 list option"
  oc_min_voltage_mv :: u16
  oc_max_voltage_mv :: u16
  oc_min_frequency_mhz :: u16
  oc_max_frequency_mhz :: u16
  default_voltage_mv :: u16
  default_frequency_mhz :: u16
  tuned_core_count :: u16
  tuned_asic_count :: u8

text \<open>Frequencies are of type \<open>float\<close>.\<close>

record settings =
  nvs_asic_voltage :: u16
  nvs_asic_frequency :: rat
  nvs_overclock_enabled :: bool
  nvs_auto_fan_speed :: bool
  nvs_manual_fan_speed :: u16
  nvs_overheat_mode :: bool
  nvs_autotune_enabled :: bool
  nvs_autotune_frequency :: rat
  last_warned_mv :: u16
  last_warned_mhz :: rat

section \<open>The envelope\<close>

definition u16_float :: "u16 \<Rightarrow> rat" where
  "u16_float w = of_nat (unat w)"

definition tuning_voltage_range :: "tuning_config \<Rightarrow> bool \<Rightarrow> asic_range" where
  "tuning_voltage_range cfg overclock =
     asic_tuning_range (voltage_options cfg) (oc_min_voltage_mv cfg) (oc_max_voltage_mv cfg) overclock"

definition tuning_frequency_range :: "tuning_config \<Rightarrow> bool \<Rightarrow> asic_range" where
  "tuning_frequency_range cfg overclock =
     asic_tuning_range (frequency_options cfg) (oc_min_frequency_mhz cfg) (oc_max_frequency_mhz cfg) overclock"

definition tuning_voltage_allowed :: "tuning_config \<Rightarrow> bool \<Rightarrow> u16 \<Rightarrow> bool" where
  "tuning_voltage_allowed cfg overclock mv =
     (let r = tuning_voltage_range cfg overclock in range_min r \<le> mv \<and> mv \<le> range_max r)"

definition tuning_frequency_allowed :: "tuning_config \<Rightarrow> bool \<Rightarrow> rat \<Rightarrow> bool" where
  "tuning_frequency_allowed cfg overclock mhz =
     (let r = tuning_frequency_range cfg overclock in u16_float (range_min r) \<le> mhz \<and> mhz \<le> u16_float (range_max r))"

text \<open>
  The clamping functions return the value to use. They also store it, unless the value is the one they warned
  about last.
\<close>

definition tuning_clamp_voltage :: "tuning_config \<Rightarrow> u16 \<Rightarrow> settings \<Rightarrow> u16 \<times> settings" where
  "tuning_clamp_voltage cfg mv s =
     (let r = tuning_voltage_range cfg (nvs_overclock_enabled s);
          clamped = (if mv < range_min r then range_min r else if range_max r < mv then range_max r else mv)
      in (clamped, if clamped \<noteq> mv \<and> mv \<noteq> last_warned_mv s then s\<lparr>last_warned_mv := mv, nvs_asic_voltage := clamped\<rparr> else s))"

definition tuning_clamp_frequency :: "tuning_config \<Rightarrow> rat \<Rightarrow> settings \<Rightarrow> rat \<times> settings" where
  "tuning_clamp_frequency cfg mhz s =
     (let r = tuning_frequency_range cfg (nvs_overclock_enabled s);
          clamped = min (max mhz (u16_float (range_min r))) (u16_float (range_max r))
      in (clamped, if clamped \<noteq> mhz \<and> mhz \<noteq> last_warned_mhz s then s\<lparr>last_warned_mhz := mhz, nvs_asic_frequency := clamped\<rparr> else s))"

section \<open>Facts\<close>

text \<open>A range is not empty when the configured limits are in order; then a clamped value is allowed.\<close>

definition limits_ordered :: "tuning_config \<Rightarrow> bool" where
  "limits_ordered cfg \<longleftrightarrow>
     (\<forall>oc. range_min (tuning_voltage_range cfg oc) \<le> range_max (tuning_voltage_range cfg oc) \<and>
           range_min (tuning_frequency_range cfg oc) \<le> range_max (tuning_frequency_range cfg oc))"

lemma u16_float_mono: "u16_float v \<le> u16_float w \<longleftrightarrow> v \<le> w"
  unfolding u16_float_def word_le_nat_alt by (rule of_nat_le_iff)

lemma clamp_voltage_allowed:
  "limits_ordered cfg \<Longrightarrow> tuning_voltage_allowed cfg (nvs_overclock_enabled s) (fst (tuning_clamp_voltage cfg mv s))"
  by (auto simp: tuning_clamp_voltage_def tuning_voltage_allowed_def Let_def limits_ordered_def)

lemma clamp_frequency_allowed:
  "limits_ordered cfg \<Longrightarrow> tuning_frequency_allowed cfg (nvs_overclock_enabled s) (fst (tuning_clamp_frequency cfg mhz s))"
  by (auto simp: tuning_clamp_frequency_def tuning_frequency_allowed_def Let_def limits_ordered_def u16_float_mono)

lemma clamp_keeps_overclock [simp]:
  "nvs_overclock_enabled (snd (tuning_clamp_voltage cfg mv s)) = nvs_overclock_enabled s"
  "nvs_overclock_enabled (snd (tuning_clamp_frequency cfg mhz s)) = nvs_overclock_enabled s"
  by (simp_all add: tuning_clamp_voltage_def tuning_clamp_frequency_def Let_def)

text \<open>An allowed value is used as it is and nothing is stored.\<close>

lemma clamp_allowed:
  "tuning_voltage_allowed cfg (nvs_overclock_enabled s) mv \<Longrightarrow> tuning_clamp_voltage cfg mv s = (mv, s)"
  "tuning_frequency_allowed cfg (nvs_overclock_enabled s) mhz \<Longrightarrow> tuning_clamp_frequency cfg mhz s = (mhz, s)"
  by (auto simp: tuning_voltage_allowed_def tuning_clamp_voltage_def tuning_frequency_allowed_def tuning_clamp_frequency_def Let_def)

text \<open>
  A value outside the envelope that is stored again after it was clamped once is still clamped, but no longer
  corrected in the store.
\<close>

lemma second_clamp_not_stored:
  assumes "last_warned_mv s = mv"
  shows "snd (tuning_clamp_voltage cfg mv (s\<lparr>nvs_asic_voltage := mv\<rparr>)) = s\<lparr>nvs_asic_voltage := mv\<rparr>"
  using assms by (simp add: tuning_clamp_voltage_def Let_def)

end
