(* ===== verification/Power_Management.thy ===== *)
theory Power_Management
  imports Tuning_Limits
begin

text \<open>
  \<open>main/tasks/power_management_task.c\<close>: the task that watches temperatures and voltages every 100 ms, stops and
  starts mining, throttles the frequency, and reacts to overheating. One iteration of its loop is a function of
  the state and of what the sensors, the clock and the hardware answer during it; commands to the hardware are
  recorded in order. Temperatures, voltages and frequencies are of type \<open>float\<close>; NaN is not represented.
\<close>

section \<open>Constants\<close>

definition MAX_TEMP :: rat where "MAX_TEMP = 90"
definition THROTTLE_TEMP :: rat where "THROTTLE_TEMP = 75"
definition SAFE_TEMP :: rat where "SAFE_TEMP = 45"
definition VOLTAGE_START_THROTTLE :: rat where "VOLTAGE_START_THROTTLE = 4900"
definition VOLTAGE_MIN_THROTTLE :: rat where "VOLTAGE_MIN_THROTTLE = 3500"
definition VOLTAGE_RANGE :: rat where "VOLTAGE_RANGE = VOLTAGE_START_THROTTLE - VOLTAGE_MIN_THROTTLE"
definition THROTTLE_FLOOR_MHZ :: rat where "THROTTLE_FLOOR_MHZ = 50"
definition TPS546_THROTTLE_TEMP :: rat where "TPS546_THROTTLE_TEMP = 105"
definition TPS546_MAX_TEMP :: rat where "TPS546_MAX_TEMP = 145"
definition ASIC_REDUCTION :: rat where "ASIC_REDUCTION = 100"
definition MINING_START_BACKOFF_BASE_US :: int where "MINING_START_BACKOFF_BASE_US = 5000000"
definition MINING_START_BACKOFF_MAX_US :: int where "MINING_START_BACKOFF_MAX_US = 60000000"
definition MINING_START_MAX_FAILURES :: u32 where "MINING_START_MAX_FAILURES = 3"
definition TEMP_SENSOR_TIMEOUT_US :: int where "TEMP_SENSOR_TIMEOUT_US = 10000000"
definition TEMP_SENSOR_GRACE_US :: int where "TEMP_SENSOR_GRACE_US = 60000000"
definition POWER_SENSOR_STALE_READS :: u32 where "POWER_SENSOR_STALE_READS = 50"
definition MIN_COOLING_CYCLES :: int where "MIN_COOLING_CYCLES = 6"

section \<open>State\<close>

text \<open>Commands to the hardware.\<close>

datatype power_action = Asic_Set_Frequency rat | Asic_Set_Nonce_Space | Vcore_Set_Voltage rat | Hold_Reset_Low | Asic_Initialize | Vcore_Check_Fault

text \<open>
  The fields of the power module, of the system module and of the settings the task works on, and, from
  \<open>last_asic_frequency\<close>, its local variables.
\<close>

record power_state =
  frequency_value :: rat
  expected_hashrate :: rat
  input_voltage :: rat
  chip_temp_avg :: rat
  chip_temp2_avg :: rat
  vr_temp :: rat
  chip_temp_deadline_us :: int
  temp_sensor_fault :: bool
  power_sensor_fault :: bool
  pm_voltage_throttling :: bool
  pm_thermal_throttling :: bool
  mining_paused :: bool
  hardware_fault :: bool
  pools_down :: bool
  overheat_mode :: bool
  asic_initialized :: bool
  self_test_active :: bool
  power_settings :: settings
  power_actions :: "power_action list"
  last_asic_frequency :: rat
  last_core_voltage :: u16
  is_paused :: bool
  start_failures :: u32
  next_start_attempt_us :: int
  last_asic_initialized :: bool
  filtered_input_voltage :: rat
  filtered_chip_temp :: rat
  filtered_vr_temp :: rat

text \<open>
  What one iteration gets from outside: the readings, the clock at its reads, the results of setting the core
  voltage, the chips found when the ASIC is initialised, and the readings of the cooling loop (regulator and
  the two chip sensors, every five seconds). The sensors of the chip are read through functions that answer -1
  while the ASIC is not initialised.
\<close>

record tick =
  self_test_finished :: bool
  sensed_voltage :: rat
  sensed_chip :: rat
  sensed_chip2 :: rat
  sensed_vr :: rat
  read_failures :: u32
  sensor_time_us :: int
  start_time_us :: int
  failure_time_us :: int
  stop_voltage_ok :: bool
  start_voltage_ok :: bool
  start_chips :: u8
  hot_stop_ok :: bool
  hot_start_ok :: bool
  hot_start_chips :: u8
  cooling_readings :: "(rat \<times> rat \<times> rat) list"
  set_voltage_ok :: bool

text \<open>The board: whether its sensor is inside the EMC, and the least voltage of the regulator in mV (0 for none).\<close>

record board =
  tuning :: tuning_config
  emc_internal_temp :: bool
  voltage_min_mv :: int

section \<open>Stopping and starting\<close>

definition command :: "power_action list \<Rightarrow> power_state \<Rightarrow> power_state" where
  "command acts s = s\<lparr>power_actions := power_actions s @ acts\<rparr>"

definition mining_stop :: "bool \<Rightarrow> power_state \<Rightarrow> power_state" where
  "mining_stop voltage_ok s =
     (let s1 = command [Asic_Set_Frequency 50, Asic_Set_Nonce_Space, Vcore_Set_Voltage 0] (s\<lparr>frequency_value := 50, expected_hashrate := 0\<rparr>);
          s2 = (if voltage_ok then s1 else s1\<lparr>hardware_fault := True\<rparr>)
      in (command [Hold_Reset_Low] s2)\<lparr>asic_initialized := False\<rparr>)"

definition expected_hashrate_of :: "tuning_config \<Rightarrow> rat \<Rightarrow> rat" where
  "expected_hashrate_of cfg f =
     f32 (f64 (f32 (f32 (f * u16_float (tuned_core_count cfg)) * of_nat (unat (tuned_asic_count cfg))) / 1000))"

definition POWER_MANAGEMENT_init_frequency :: "tuning_config \<Rightarrow> power_state \<Rightarrow> power_state" where
  "POWER_MANAGEMENT_init_frequency cfg s =
     (case tuning_clamp_frequency cfg (nvs_asic_frequency (power_settings s)) (power_settings s) of
        (f, settings') \<Rightarrow> s\<lparr>power_settings := settings', frequency_value := f, expected_hashrate := expected_hashrate_of cfg f\<rparr>)"

text \<open>\<open>mining_start\<close> with the result of setting the voltage and the number of chips \<open>asic_initialize\<close> finds.\<close>

definition mining_start :: "tuning_config \<Rightarrow> bool \<Rightarrow> u8 \<Rightarrow> power_state \<Rightarrow> u8 \<times> power_state" where
  "mining_start cfg voltage_ok chips s =
     (case tuning_clamp_voltage cfg (nvs_asic_voltage (power_settings s)) (power_settings s) of
        (mv, settings') \<Rightarrow>
          let s1 = command [Vcore_Set_Voltage (f32 (f64 (u16_float mv / 1000)))] (s\<lparr>power_settings := settings'\<rparr>)
          in if \<not> voltage_ok then (0, s1\<lparr>hardware_fault := True\<rparr>)
             else let s2 = command [Asic_Initialize] (POWER_MANAGEMENT_init_frequency cfg s1)
                  in (chips, if chips > 0 then s2\<lparr>asic_initialized := True\<rparr> else s2))"

section \<open>The parts of an iteration\<close>

definition read_sensors :: "tick \<Rightarrow> power_state \<Rightarrow> power_state" where
  "read_sensors t s =
     s\<lparr>input_voltage := sensed_voltage t, chip_temp_avg := (if asic_initialized s then sensed_chip t else -1),
       chip_temp2_avg := (if asic_initialized s then sensed_chip2 t else -1), vr_temp := sensed_vr t\<rparr>"

definition check_temp_sensor :: "tick \<Rightarrow> power_state \<Rightarrow> power_state" where
  "check_temp_sensor t s =
     (let now_us = sensor_time_us t; asic_up = asic_initialized s;
          s1 = (if asic_up \<and> \<not> last_asic_initialized s then s\<lparr>chip_temp_deadline_us := now_us + TEMP_SENSOR_GRACE_US\<rparr> else s);
          s2 = s1\<lparr>last_asic_initialized := asic_up\<rparr>
      in if chip_temp_avg s2 > 0 \<or> chip_temp2_avg s2 > 0
         then s2\<lparr>chip_temp_deadline_us := now_us + TEMP_SENSOR_TIMEOUT_US, temp_sensor_fault := False\<rparr>
         else if asic_up \<and> \<not> is_paused s2 \<and> \<not> temp_sensor_fault s2 \<and> now_us > chip_temp_deadline_us s2
         then s2\<lparr>temp_sensor_fault := True, hardware_fault := True\<rparr>
         else s2)"

definition check_power_sensor :: "tick \<Rightarrow> power_state \<Rightarrow> power_state" where
  "check_power_sensor t s =
     (let stale = (read_failures t \<ge> POWER_SENSOR_STALE_READS)
      in if stale \<noteq> power_sensor_fault s
         then (let s1 = s\<lparr>power_sensor_fault := stale\<rparr> in if stale then s1\<lparr>filtered_input_voltage := -1\<rparr> else s1)
         else s)"

definition wants_stop :: "power_state \<Rightarrow> bool" where
  "wants_stop s \<longleftrightarrow> mining_paused s \<or> hardware_fault s \<or> pools_down s"

definition start_backoff_us :: "u32 \<Rightarrow> int" where
  "start_backoff_us failures =
     (let b = MINING_START_BACKOFF_BASE_US * 2 ^ (if failures < 4 then unat failures else 4)
      in if b > MINING_START_BACKOFF_MAX_US then MINING_START_BACKOFF_MAX_US else b)"

definition stop_or_start :: "board \<Rightarrow> tick \<Rightarrow> power_state \<Rightarrow> power_state" where
  "stop_or_start b t s =
     (if wants_stop s \<and> \<not> is_paused s then
        (mining_stop (stop_voltage_ok t) s)\<lparr>is_paused := True, start_failures := 0, next_start_attempt_us := 0\<rparr>
      else if \<not> wants_stop s \<and> is_paused s \<and> start_time_us t \<ge> next_start_attempt_us s then
        (case mining_start (tuning b) (start_voltage_ok t) (start_chips t) s of
           (chips, s1) \<Rightarrow>
             if chips > 0 then s1\<lparr>is_paused := False, start_failures := 0\<rparr>
             else let failures = start_failures s1 + 1;
                      s2 = s1\<lparr>start_failures := failures, next_start_attempt_us := failure_time_us t + start_backoff_us failures\<rparr>
                  in if failures \<ge> MINING_START_MAX_FAILURES \<and> \<not> hardware_fault s2 then s2\<lparr>hardware_fault := True\<rparr> else s2)
      else s)"

text \<open>
  The cooling loop, over the readings that arrive; \<open>None\<close> when they end before it does. The chip is not
  initialised while it runs, so its sensors answer -1.
\<close>

fun cooling_loop :: "bool \<Rightarrow> (rat \<times> rat \<times> rat) list \<Rightarrow> int \<Rightarrow> power_state \<Rightarrow> (int \<times> power_state) option" where
  "cooling_loop asic_temp_valid readings cycles s =
     (if cycles < MIN_COOLING_CYCLES \<or> vr_temp s > TPS546_THROTTLE_TEMP - 10 then
        (case readings of
           [] \<Rightarrow> None
         | (vr, chip, chip2) # rs \<Rightarrow>
             let s1 = s\<lparr>vr_temp := vr\<rparr>
             in if asic_temp_valid then
                  let s2 = s1\<lparr>chip_temp_avg := (if asic_initialized s then chip else -1),
                              chip_temp2_avg := (if asic_initialized s then chip2 else -1)\<rparr>
                  in cooling_loop asic_temp_valid rs
                       (if chip_temp_avg s2 > SAFE_TEMP \<or> chip_temp2_avg s2 > SAFE_TEMP then 0 else cycles + 1) s2
                else cooling_loop asic_temp_valid rs (cycles + 1) s1)
      else Some (cycles, s))"

declare cooling_loop.simps [simp del]

definition too_hot :: "power_state \<Rightarrow> bool" where
  "too_hot s \<longleftrightarrow> (vr_temp s > TPS546_MAX_TEMP \<or> chip_temp_avg s > MAX_TEMP \<or> chip_temp2_avg s > MAX_TEMP) \<and>
     (frequency_value s > 50 \<or> input_voltage s > 1000)"

text \<open>\<open>(uint16_t)(last_known_asic_voltage - 100.0)\<close> is exact, the subtraction being in \<open>double\<close>.\<close>

definition reduced_voltage :: "board \<Rightarrow> u16 \<Rightarrow> u16" where
  "reduced_voltage b last_known =
     (let reduced = (if u16_float last_known > ASIC_REDUCTION then last_known - 100 else 1000)
      in if voltage_min_mv b > 0 \<and> int (unat reduced) < voltage_min_mv b then of_int (voltage_min_mv b) else reduced)"

definition reduced_frequency :: "rat \<Rightarrow> rat" where
  "reduced_frequency last_known = (if last_known > ASIC_REDUCTION then f32 (f64 (last_known - ASIC_REDUCTION)) else 400)"

definition overheat_stop :: "board \<Rightarrow> tick \<Rightarrow> power_state \<Rightarrow> power_state" where
  "overheat_stop b t s =
     mining_stop (hot_stop_ok t) (s\<lparr>power_settings := (power_settings s)\<lparr>nvs_auto_fan_speed := False, nvs_manual_fan_speed := 100, nvs_overheat_mode := True\<rparr>\<rparr>)"

definition overheat_restart :: "board \<Rightarrow> tick \<Rightarrow> u16 \<Rightarrow> rat \<Rightarrow> power_state \<Rightarrow> power_state" where
  "overheat_restart b t known_voltage known_frequency s =
     (case mining_start (tuning b) (hot_start_ok t) (hot_start_chips t)
             (s\<lparr>power_settings := (power_settings s)\<lparr>nvs_asic_voltage := reduced_voltage b known_voltage,
                  nvs_asic_frequency := reduced_frequency known_frequency\<rparr>\<rparr>) of
        (chips, s1) \<Rightarrow> if chips > 0 then s1\<lparr>power_settings := (power_settings s1)\<lparr>nvs_overheat_mode := False\<rparr>\<rparr> else s1)"

definition overheat :: "board \<Rightarrow> tick \<Rightarrow> power_state \<Rightarrow> power_state option" where
  "overheat b t s =
     (if too_hot s then
        map_option (\<lambda>(_, s1). overheat_restart b t (nvs_asic_voltage (power_settings s)) (nvs_asic_frequency (power_settings s)) s1)
          (cooling_loop (emc_internal_temp b) (cooling_readings t) 0 (overheat_stop b t s))
      else Some s)"

section \<open>The governors\<close>

text \<open>\<open>0.2f * sample + 0.8f * filtered\<close>, or the first sample.\<close>

definition smooth :: "rat \<Rightarrow> rat \<Rightarrow> rat" where
  "smooth sample filtered = (if filtered < 0 then sample else f32 (f32 (f32 (1 / 5) * sample) + f32 (f32 (4 / 5) * filtered)))"

definition filter_voltage :: "power_state \<Rightarrow> power_state" where
  "filter_voltage s =
     (if input_voltage s > 0 \<and> \<not> power_sensor_fault s
      then s\<lparr>filtered_input_voltage := smooth (input_voltage s) (filtered_input_voltage s)\<rparr> else s)"

definition filter_temperatures :: "power_state \<Rightarrow> power_state" where
  "filter_temperatures s =
     (let chip_temp_max = max (max (-1) (chip_temp_avg s)) (chip_temp2_avg s);
          s1 = (if chip_temp_max > 0 then s\<lparr>filtered_chip_temp := smooth chip_temp_max (filtered_chip_temp s)\<rparr> else s)
      in if vr_temp s1 > 0 then s1\<lparr>filtered_vr_temp := smooth (vr_temp s1) (filtered_vr_temp s1)\<rparr> else s1)"

text \<open>\<open>freq_floor + (requested - freq_floor) * fraction\<close> in \<open>float\<close>.\<close>

definition derated :: "rat \<Rightarrow> rat \<Rightarrow> rat" where
  "derated requested fraction =
     (let freq_floor = min THROTTLE_FLOOR_MHZ requested
      in f32 (freq_floor + f32 (f32 (requested - freq_floor) * fraction)))"

definition voltage_fraction :: "rat \<Rightarrow> rat" where
  "voltage_fraction v = (if v \<le> VOLTAGE_MIN_THROTTLE then 0 else f32 (f32 (v - VOLTAGE_MIN_THROTTLE) / VOLTAGE_RANGE))"

definition voltage_frequency :: "power_state \<Rightarrow> rat \<Rightarrow> rat" where
  "voltage_frequency s requested =
     (if \<not> power_sensor_fault s \<and> filtered_input_voltage s > 0 \<and> filtered_input_voltage s < VOLTAGE_START_THROTTLE
      then derated requested (voltage_fraction (filtered_input_voltage s)) else requested)"

text \<open>\<open>1.0f - (temp - start) / (float)(limit - start)\<close>, in \<open>double\<close> and stored as \<open>float\<close>.\<close>

definition thermal_fraction :: "rat \<Rightarrow> rat \<Rightarrow> rat \<Rightarrow> rat" where
  "thermal_fraction start limit temp =
     (if temp > start then (if temp \<ge> limit then 0 else f32 (f64 (1 - f64 (f64 (temp - start) / (limit - start))))) else 1)"

definition thermal_throttle_fraction :: "power_state \<Rightarrow> rat" where
  "thermal_throttle_fraction s =
     min (thermal_fraction THROTTLE_TEMP MAX_TEMP (filtered_chip_temp s)) (thermal_fraction TPS546_THROTTLE_TEMP TPS546_MAX_TEMP (filtered_vr_temp s))"

definition thermal_frequency :: "power_state \<Rightarrow> rat \<Rightarrow> rat" where
  "thermal_frequency s requested =
     (if thermal_throttle_fraction s < 1 then derated requested (thermal_throttle_fraction s) else requested)"

text \<open>\<open>roundf\<close> rounds halves away from zero; the frequencies are not negative.\<close>

definition roundf :: "rat \<Rightarrow> int" where
  "roundf x = (if x \<ge> 0 then \<lfloor>x + 1 / 2\<rfloor> else - \<lfloor>1 / 2 - x\<rfloor>)"

definition round5 :: "rat \<Rightarrow> rat" where
  "round5 f = f32 (of_int (roundf (f32 (f / 5))) * 5)"

definition governed_frequency :: "power_state \<Rightarrow> rat \<Rightarrow> rat" where
  "governed_frequency s requested = round5 (min (voltage_frequency s requested) (thermal_frequency s requested))"

section \<open>One iteration\<close>

text \<open>The voltage and the frequency asked for: the stored ones, clamped, or those of the self test.\<close>

definition requested_settings :: "tuning_config \<Rightarrow> power_state \<Rightarrow> u16 \<times> rat \<times> power_state" where
  "requested_settings cfg s =
     (if self_test_active s then (default_voltage_mv cfg, u16_float (default_frequency_mhz cfg), s)
      else (case tuning_clamp_voltage cfg (nvs_asic_voltage (power_settings s)) (power_settings s) of (mv, st1) \<Rightarrow>
            case tuning_clamp_frequency cfg (nvs_asic_frequency st1) st1 of (mhz, st2) \<Rightarrow> (mv, mhz, s\<lparr>power_settings := st2\<rparr>)))"

definition set_core_voltage :: "tick \<Rightarrow> u16 \<Rightarrow> power_state \<Rightarrow> power_state" where
  "set_core_voltage t mv s =
     (if mv \<noteq> last_core_voltage s then
        (let s1 = command [Vcore_Set_Voltage (f32 (f64 (u16_float mv / 1000)))] s
         in if set_voltage_ok t then s1\<lparr>last_core_voltage := mv\<rparr> else s1\<lparr>hardware_fault := True\<rparr>)
      else s)"

definition set_frequency :: "tuning_config \<Rightarrow> rat \<Rightarrow> power_state \<Rightarrow> power_state" where
  "set_frequency cfg f s =
     (if f \<noteq> last_asic_frequency s
      then (command [Asic_Set_Frequency f, Asic_Set_Nonce_Space] (s\<lparr>frequency_value := f, expected_hashrate := expected_hashrate_of cfg f\<rparr>))
             \<lparr>last_asic_frequency := f\<rparr>
      else s)"

definition govern :: "board \<Rightarrow> tick \<Rightarrow> power_state \<Rightarrow> power_state" where
  "govern b t s =
     (case requested_settings (tuning b) s of (mv, requested, s1) \<Rightarrow>
        let s2 = filter_temperatures (filter_voltage s1);
            asic_frequency = governed_frequency s2 requested;
            s3 = s2\<lparr>pm_voltage_throttling := (voltage_frequency s2 requested < requested),
                    pm_thermal_throttling := (thermal_throttle_fraction s2 < 1)\<rparr>;
            s4 = set_frequency (tuning b) asic_frequency (set_core_voltage t mv s3)
        in command [Vcore_Check_Fault] (s4\<lparr>overheat_mode := nvs_overheat_mode (power_settings s4)\<rparr>))"

text \<open>An iteration ends the task, or stays in the cooling loop, or reaches the next one.\<close>

datatype iteration_result = Task_Deleted | Still_Cooling | Next power_state

definition supervise :: "board \<Rightarrow> tick \<Rightarrow> power_state \<Rightarrow> power_state" where
  "supervise b t s = stop_or_start b t (check_power_sensor t (check_temp_sensor t (read_sensors t s)))"

definition power_iteration :: "board \<Rightarrow> tick \<Rightarrow> power_state \<Rightarrow> iteration_result" where
  "power_iteration b t s =
     (if self_test_finished t then Task_Deleted
      else let s1 = supervise b t s
           in if is_paused s1 \<or> hardware_fault s1 then Next s1
              else (case overheat b t s1 of None \<Rightarrow> Still_Cooling | Some s2 \<Rightarrow> Next (govern b t s2)))"

text \<open>The state in which the loop begins.\<close>

definition power_start :: "board \<Rightarrow> int \<Rightarrow> power_state \<Rightarrow> power_state" where
  "power_start b now s =
     (let s1 = POWER_MANAGEMENT_init_frequency (tuning b) s
      in s1\<lparr>last_asic_frequency := frequency_value s1, last_core_voltage := 0, is_paused := False, start_failures := 0, next_start_attempt_us := 0,
           last_asic_initialized := False, filtered_input_voltage := -1, filtered_chip_temp := -1, filtered_vr_temp := -1,
           pm_voltage_throttling := False, pm_thermal_throttling := False, chip_temp_deadline_us := now + TEMP_SENSOR_GRACE_US,
           temp_sensor_fault := False\<rparr>)"

text \<open>
  What other tasks may change between two iterations: pause and resume, the flag of the coordinator, a fault seen
  by the fan controller, the self test, the settings. Nothing but a restart of the device clears a hardware fault.
\<close>

record outside =
  out_paused :: bool
  out_pools_down :: bool
  out_fault :: bool
  out_self_test :: bool
  out_settings :: "settings \<Rightarrow> settings"

definition outside_change :: "outside \<Rightarrow> power_state \<Rightarrow> power_state" where
  "outside_change x s =
     s\<lparr>mining_paused := out_paused x, pools_down := out_pools_down x, hardware_fault := (hardware_fault s \<or> out_fault x),
       self_test_active := out_self_test x, power_settings := out_settings x (power_settings s)\<rparr>"

fun power_run :: "board \<Rightarrow> (outside \<times> tick) list \<Rightarrow> power_state \<Rightarrow> iteration_result" where
  "power_run b [] s = Next s"
| "power_run b ((x, t) # xs) s =
     (case power_iteration b t (outside_change x s) of Next s' \<Rightarrow> power_run b xs s' | Task_Deleted \<Rightarrow> Task_Deleted | Still_Cooling \<Rightarrow> Still_Cooling)"

section \<open>Rounding and the governors\<close>

lemma f32_unit: "0 \<le> x \<Longrightarrow> x \<le> 1 \<Longrightarrow> 0 \<le> f32 x \<and> f32 x \<le> 1" and f64_unit: "0 \<le> x \<Longrightarrow> x \<le> 1 \<Longrightarrow> 0 \<le> f64 x \<and> f64 x \<le> 1"
  using f32_mono [of x 1] f64_mono [of x 1] by (simp_all add: f32_nonneg f64_nonneg)

lemma thermal_fraction_inner:
  assumes "f64 (limit - start) = limit - start" "start < temp" "temp < limit"
  shows "0 \<le> f64 (f64 (temp - start) / (limit - start)) \<and> f64 (f64 (temp - start) / (limit - start)) \<le> 1"
proof -
  have "f64 (temp - start) \<le> f64 (limit - start)" by (rule f64_mono) (use assms in simp_all)
  moreover have "0 \<le> f64 (temp - start)" by (rule f64_nonneg) (use assms in simp)
  ultimately have "0 \<le> f64 (temp - start) / (limit - start)" "f64 (temp - start) / (limit - start) \<le> 1"
    using assms by (simp_all add: divide_le_eq_1)
  then show ?thesis by (rule f64_unit)
qed

lemma thermal_fraction_unit:
  assumes "f64 (limit - start) = limit - start"
  shows "0 \<le> thermal_fraction start limit temp \<and> thermal_fraction start limit temp \<le> 1"
proof (cases "start < temp \<and> temp < limit")
  case True
  with thermal_fraction_inner [OF assms, of temp]
  have "0 \<le> f32 (f64 (1 - f64 (f64 (temp - start) / (limit - start)))) \<and> f32 (f64 (1 - f64 (f64 (temp - start) / (limit - start)))) \<le> 1"
    by (intro f32_unit f64_unit) (use f64_unit [of "1 - f64 (f64 (temp - start) / (limit - start))"] in auto)
  with True show ?thesis by (simp add: thermal_fraction_def)
qed (auto simp: thermal_fraction_def)

lemma thermal_fraction_antitone:
  assumes "f64 (limit - start) = limit - start" "temp \<le> temp'"
  shows "thermal_fraction start limit temp' \<le> thermal_fraction start limit temp"
proof (cases "start < temp \<and> temp' < limit")
  case True
  then have range: "start < temp" "temp < limit" "start < temp'" "temp' < limit" using assms(2) by auto
  have "f64 (temp - start) \<le> f64 (temp' - start)" by (rule f64_mono) (use assms(2) range in simp_all)
  then have "f64 (temp - start) / (limit - start) \<le> f64 (temp' - start) / (limit - start)"
    using range by (intro divide_right_mono) simp_all
  moreover have "0 \<le> f64 (temp - start)" by (rule f64_nonneg) (use range in simp)
  ultimately have "f64 (f64 (temp - start) / (limit - start)) \<le> f64 (f64 (temp' - start) / (limit - start))"
    using range by (intro f64_mono) simp_all
  then have "f32 (f64 (1 - f64 (f64 (temp' - start) / (limit - start)))) \<le> f32 (f64 (1 - f64 (f64 (temp - start) / (limit - start))))"
    using thermal_fraction_inner [OF assms(1) range(3,4)] by (intro f32_mono f64_mono f64_nonneg) simp_all
  with range show ?thesis by (simp add: thermal_fraction_def)
next
  case False
  with thermal_fraction_unit [OF assms(1), of temp] thermal_fraction_unit [OF assms(1), of temp'] assms(2) show ?thesis
    by (auto simp: thermal_fraction_def split: if_splits)
qed

lemma voltage_fraction_unit:
  assumes "v < VOLTAGE_START_THROTTLE"
  shows "0 \<le> voltage_fraction v \<and> voltage_fraction v \<le> 1"
proof (cases "v \<le> VOLTAGE_MIN_THROTTLE")
  case False
  have "f32 (v - 3500) \<le> f32 1400" by (rule f32_mono) (use assms False in \<open>simp_all add: VOLTAGE_START_THROTTLE_def VOLTAGE_MIN_THROTTLE_def\<close>)
  moreover have "0 \<le> f32 (v - 3500)" by (rule f32_nonneg) (use False in \<open>simp add: VOLTAGE_MIN_THROTTLE_def\<close>)
  ultimately have "0 \<le> f32 (f32 (v - 3500) / 1400) \<and> f32 (f32 (v - 3500) / 1400) \<le> 1" by (intro f32_unit) simp_all
  then show ?thesis using False by (simp add: voltage_fraction_def VOLTAGE_RANGE_def VOLTAGE_START_THROTTLE_def VOLTAGE_MIN_THROTTLE_def)
qed (simp add: voltage_fraction_def)

text \<open>A frequency above the floor is a multiple of the same power of two as the floor, so their difference is exact.\<close>

lemma above_floor_exact:
  assumes "f32 r = r" "50 \<le> r" "r < 2 ^ 16"
  shows "f32 (r - 50) = r - 50"
proof -
  define e where "e = floor_log2 \<bar>r\<bar> - 23"
  define m where "m = round_half_even (r / 2 powi e)"
  have r: "r = of_int m * 2 powi e"
    using assms(1,2) by (simp add: f32_def rnd_def Let_def e_def m_def)
  have lb: "2 powi floor_log2 \<bar>r\<bar> \<le> r" "r < 2 powi (floor_log2 \<bar>r\<bar> + 1)"
    using floor_log2_bounds [of "\<bar>r\<bar>"] assms(2) by (simp_all add: power_int_add)
  have "(2::rat) powi floor_log2 \<bar>r\<bar> < 2 powi 16" using lb(1) assms(3) by simp
  then have "e < 0" by (simp add: power2_int_less_iff e_def del: power_int_numeral)
  then obtain k where k: "e = - int k" by (metis nonneg_int_cases neg_0_le_iff_le less_imp_le minus_equation_iff)
  have "r - 50 = of_int (m - 50 * 2 ^ k) * 2 powi e"
    unfolding r by (simp add: k power_int_minus left_diff_distrib)
  moreover have "\<bar>m - 50 * 2 ^ k\<bar> < 2 ^ 24"
  proof -
    have pos: "(0::rat) < 2 powi e" by simp
    have "of_int m * 2 powi e < (2::rat) ^ 24 * 2 powi e"
    proof -
      have "(2::rat) powi (floor_log2 \<bar>r\<bar> + 1) = 2 powi (24 + e)" by (simp add: e_def add.commute)
      also have "\<dots> = 2 ^ 24 * 2 powi e" by (simp add: power_int_add)
      finally show ?thesis using lb(2) r by simp
    qed
    then have "of_int m < (2::rat) ^ 24" using pos by simp
    then have "m < 2 ^ 24" by (metis of_int_less_iff of_int_numeral of_int_power)
    moreover have "0 \<le> m - 50 * 2 ^ k"
    proof -
      have "0 \<le> of_int (m - 50 * 2 ^ k) * (2::rat) powi e"
        using \<open>r - 50 = of_int (m - 50 * 2 ^ k) * 2 powi e\<close> assms(2) by simp
      then have "(0::rat) \<le> of_int (m - 50 * 2 ^ k)" using pos by (simp add: zero_le_mult_iff)
      then show ?thesis by linarith
    qed
    moreover have "(0::int) \<le> 2 ^ k" by simp
    ultimately show ?thesis by linarith
  qed
  ultimately show ?thesis using rnd_exact [of "m - 50 * 2 ^ k" 24 e] by (simp only: f32_def)
qed

text \<open>What a frequency of the settings is: a \<open>float\<close> of at most 16 bits.\<close>

definition float_frequency :: "rat \<Rightarrow> bool" where
  "float_frequency r \<longleftrightarrow> f32 r = r \<and> 0 \<le> r \<and> r < 2 ^ 16"

lemma derated_ends:
  assumes "float_frequency r"
  shows "derated r 0 = min 50 r" "derated r 1 = r"
proof -
  have "f32 (r - min 50 r) = r - min 50 r"
    using assms above_floor_exact [of r] by (cases "50 \<le> r") (simp_all add: float_frequency_def min_def)
  then show "derated r 0 = min 50 r" "derated r 1 = r"
    using assms by (simp_all add: derated_def THROTTLE_FLOOR_MHZ_def float_frequency_def min_def)
qed

lemma derated_mono:
  assumes "float_frequency r" "0 \<le> p" "p \<le> q"
  shows "derated r p \<le> derated r q"
proof -
  have "0 \<le> f32 (r - min 50 r)" "0 \<le> min 50 r" by (rule f32_nonneg, simp) (use assms(1) in \<open>simp add: float_frequency_def\<close>)
  then show ?thesis
    unfolding derated_def Let_def THROTTLE_FLOOR_MHZ_def
    by (intro f32_mono add_left_mono add_nonneg_nonneg f32_nonneg mult_nonneg_nonneg mult_left_mono) (use assms in simp_all)
qed

lemma derated_bounds:
  "float_frequency r \<Longrightarrow> 0 \<le> p \<Longrightarrow> p \<le> 1 \<Longrightarrow> min 50 r \<le> derated r p \<and> derated r p \<le> r"
  using derated_mono [of r 0 p] derated_mono [of r p 1] derated_ends [of r] by simp

lemma round5_mono:
  assumes "0 \<le> f" "f \<le> g"
  shows "round5 f \<le> round5 g"
proof -
  have "f32 (f / 5) \<le> f32 (g / 5)" by (rule f32_mono) (use assms in simp_all)
  moreover have "0 \<le> f32 (f / 5)" by (rule f32_nonneg) (use assms in simp)
  ultimately have "0 \<le> roundf (f32 (f / 5))" "roundf (f32 (f / 5)) \<le> roundf (f32 (g / 5))"
    by (simp_all add: roundf_def floor_mono)
  then show ?thesis unfolding round5_def by (intro f32_mono) simp_all
qed

lemma thermal_ranges: "f64 (MAX_TEMP - THROTTLE_TEMP) = MAX_TEMP - THROTTLE_TEMP"
  "f64 (TPS546_MAX_TEMP - TPS546_THROTTLE_TEMP) = TPS546_MAX_TEMP - TPS546_THROTTLE_TEMP"
  by (simp_all add: MAX_TEMP_def THROTTLE_TEMP_def TPS546_MAX_TEMP_def TPS546_THROTTLE_TEMP_def)

lemma thermal_throttle_unit: "0 \<le> thermal_throttle_fraction s \<and> thermal_throttle_fraction s \<le> 1"
  using thermal_fraction_unit [OF thermal_ranges(1), of "filtered_chip_temp s"] thermal_fraction_unit [OF thermal_ranges(2), of "filtered_vr_temp s"]
  by (auto simp: thermal_throttle_fraction_def min_def)

lemma thermal_frequency_derated: "float_frequency r \<Longrightarrow> thermal_frequency s r = derated r (thermal_throttle_fraction s)"
  using thermal_throttle_unit [of s] derated_ends(2) [of r] by (auto simp: thermal_frequency_def)

lemma voltage_frequency_bounds: "float_frequency r \<Longrightarrow> min 50 r \<le> voltage_frequency s r \<and> voltage_frequency s r \<le> r"
  using derated_bounds [of r "voltage_fraction (filtered_input_voltage s)"] voltage_fraction_unit [of "filtered_input_voltage s"]
  by (auto simp: voltage_frequency_def)

lemma voltage_frequency_within: "float_frequency r \<Longrightarrow> min 50 r \<le> voltage_frequency s r \<and> voltage_frequency s r \<le> r"
  and thermal_frequency_within: "float_frequency r \<Longrightarrow> min 50 r \<le> thermal_frequency s r \<and> thermal_frequency s r \<le> r"
  using voltage_frequency_bounds [of r s] derated_bounds [of r "thermal_throttle_fraction s"] thermal_throttle_unit [of s]
  by (simp_all add: thermal_frequency_derated)

text \<open>At a limit the governors give the floor.\<close>

lemma governor_floor:
  assumes "float_frequency r"
    and "filtered_chip_temp s \<ge> 90 \<or> filtered_vr_temp s \<ge> 145 \<or> \<not> power_sensor_fault s \<and> 0 < filtered_input_voltage s \<and> filtered_input_voltage s \<le> 3500"
  shows "governed_frequency s r = round5 (min 50 r)"
proof -
  have "thermal_frequency s r = min 50 r \<or> voltage_frequency s r = min 50 r"
  proof (cases "filtered_chip_temp s \<ge> 90 \<or> filtered_vr_temp s \<ge> 145")
    case True
    then have "thermal_throttle_fraction s = 0"
      using thermal_fraction_unit [OF thermal_ranges(1), of "filtered_chip_temp s"] thermal_fraction_unit [OF thermal_ranges(2), of "filtered_vr_temp s"]
      by (auto simp: thermal_throttle_fraction_def thermal_fraction_def MAX_TEMP_def THROTTLE_TEMP_def TPS546_MAX_TEMP_def TPS546_THROTTLE_TEMP_def min_def)
    then show ?thesis by (simp add: thermal_frequency_derated [OF assms(1)] derated_ends [OF assms(1)])
  next
    case False
    with assms(2) have "voltage_frequency s r = derated r 0"
      by (simp add: voltage_frequency_def voltage_fraction_def VOLTAGE_START_THROTTLE_def VOLTAGE_MIN_THROTTLE_def)
    then show ?thesis by (simp add: derated_ends [OF assms(1)])
  qed
  then have "min (voltage_frequency s r) (thermal_frequency s r) = min 50 r"
    using voltage_frequency_within [OF assms(1), of s] thermal_frequency_within [OF assms(1), of s] by linarith
  then show ?thesis by (simp add: governed_frequency_def)
qed

text \<open>
  C30. The governors are safe: the frequency set is never above the requested one and never below the floor of
  50 MHz (or a smaller request), up to the final rounding to 5 MHz; a hotter chip or regulator never gives a higher one; at
  90 degrees of the chip, 145 of the regulator or 3.5 V of input it is the floor; and it is the requested one
  when the filtered values are below all thresholds.
\<close>

theorem governor_contract:
  assumes "float_frequency r"
  shows "round5 (min 50 r) \<le> governed_frequency s r \<and> governed_frequency s r \<le> round5 r \<and>
    (filtered_chip_temp s \<le> filtered_chip_temp s' \<and> filtered_vr_temp s \<le> filtered_vr_temp s' \<and>
       filtered_input_voltage s' = filtered_input_voltage s \<and> power_sensor_fault s' = power_sensor_fault s \<longrightarrow>
       governed_frequency s' r \<le> governed_frequency s r) \<and>
    (filtered_chip_temp s \<ge> 90 \<or> filtered_vr_temp s \<ge> 145 \<or>
       \<not> power_sensor_fault s \<and> 0 < filtered_input_voltage s \<and> filtered_input_voltage s \<le> 3500 \<longrightarrow> governed_frequency s r = round5 (min 50 r)) \<and>
    (filtered_chip_temp s \<le> 75 \<and> filtered_vr_temp s \<le> 105 \<and>
       (power_sensor_fault s \<or> filtered_input_voltage s \<le> 0 \<or> filtered_input_voltage s \<ge> 4900) \<longrightarrow> governed_frequency s r = round5 r)"
proof -
  note th = thermal_frequency_derated [OF assms]
  have r0: "0 \<le> min 50 r" using assms by (simp add: float_frequency_def)
  note vb = voltage_frequency_within [OF assms] and tb = thermal_frequency_within [OF assms]
  have bounds: "round5 (min 50 r) \<le> governed_frequency s r" "governed_frequency s r \<le> round5 r"
    unfolding governed_frequency_def by (rule round5_mono; use r0 vb [of s] tb [of s] in linarith)+
  have mono: "governed_frequency s' r \<le> governed_frequency s r"
    if "filtered_chip_temp s \<le> filtered_chip_temp s'" "filtered_vr_temp s \<le> filtered_vr_temp s'"
      "filtered_input_voltage s' = filtered_input_voltage s" "power_sensor_fault s' = power_sensor_fault s"
  proof -
    have "thermal_throttle_fraction s' \<le> thermal_throttle_fraction s"
      unfolding thermal_throttle_fraction_def using that thermal_fraction_antitone thermal_ranges by (intro min.mono) blast+
    then have "thermal_frequency s' r \<le> thermal_frequency s r" unfolding th by (intro derated_mono assms) (use thermal_throttle_unit in simp)
    moreover have "voltage_frequency s' r = voltage_frequency s r" using that by (simp add: voltage_frequency_def)
    ultimately show ?thesis unfolding governed_frequency_def by (intro round5_mono) (use r0 vb [of s'] tb [of s'] in linarith)+
  qed
  note floor = governor_floor [OF assms, of s]
  have free: "governed_frequency s r = round5 r"
    if "filtered_chip_temp s \<le> 75" "filtered_vr_temp s \<le> 105" "power_sensor_fault s \<or> filtered_input_voltage s \<le> 0 \<or> filtered_input_voltage s \<ge> 4900"
    using that by (auto simp: governed_frequency_def voltage_frequency_def thermal_frequency_def thermal_throttle_fraction_def thermal_fraction_def
        THROTTLE_TEMP_def TPS546_THROTTLE_TEMP_def VOLTAGE_START_THROTTLE_def)
  show ?thesis using bounds mono floor free by blast
qed

theorem governor_contract_witness:
  "\<exists>s. filtered_chip_temp s = 91 \<and> governed_frequency s 525 = round5 50"
proof -
  obtain s :: power_state where s: "filtered_chip_temp s = 91" by (metis power_state.select_convs(27))
  have "float_frequency 525" by (simp add: float_frequency_def)
  from governor_contract [OF this, of s s] s show ?thesis by auto
qed

section \<open>Stopping\<close>

definition stop_commands :: "power_action list" where
  "stop_commands = [Asic_Set_Frequency 50, Asic_Set_Nonce_Space, Vcore_Set_Voltage 0, Hold_Reset_Low]"

lemma mining_stop_fields [simp]:
  "power_actions (mining_stop ok s) = power_actions s @ stop_commands" "\<not> asic_initialized (mining_stop ok s)"
  "hardware_fault (mining_stop ok s) \<longleftrightarrow> hardware_fault s \<or> \<not> ok" "is_paused (mining_stop ok s) = is_paused s"
  "frequency_value (mining_stop ok s) = 50" "power_settings (mining_stop ok s) = power_settings s"
  "vr_temp (mining_stop ok s) = vr_temp s" "last_asic_frequency (mining_stop ok s) = last_asic_frequency s"
  "mining_paused (mining_stop ok s) = mining_paused s" "pools_down (mining_stop ok s) = pools_down s"
  "last_asic_initialized (mining_stop ok s) = last_asic_initialized s"
  by (simp_all add: mining_stop_def command_def stop_commands_def Let_def)

text \<open>The fields that the sensor checks leave alone.\<close>

lemma read_sensors_fields [simp]:
  "power_actions (read_sensors t s) = power_actions s" "is_paused (read_sensors t s) = is_paused s" "asic_initialized (read_sensors t s) = asic_initialized s"
  "mining_paused (read_sensors t s) = mining_paused s" "pools_down (read_sensors t s) = pools_down s" "power_settings (read_sensors t s) = power_settings s"
  "last_asic_frequency (read_sensors t s) = last_asic_frequency s" "next_start_attempt_us (read_sensors t s) = next_start_attempt_us s" "start_failures (read_sensors t s) = start_failures s"
  "frequency_value (read_sensors t s) = frequency_value s" "self_test_active (read_sensors t s) = self_test_active s" "last_core_voltage (read_sensors t s) = last_core_voltage s"
  "filtered_chip_temp (read_sensors t s) = filtered_chip_temp s" "filtered_vr_temp (read_sensors t s) = filtered_vr_temp s" "hardware_fault (read_sensors t s) = hardware_fault s"
  "chip_temp_avg (read_sensors t s) = (if asic_initialized s then sensed_chip t else -1)" "chip_temp2_avg (read_sensors t s) = (if asic_initialized s then sensed_chip2 t else -1)" "vr_temp (read_sensors t s) = sensed_vr t"
  "input_voltage (read_sensors t s) = sensed_voltage t" "chip_temp_deadline_us (read_sensors t s) = chip_temp_deadline_us s" "temp_sensor_fault (read_sensors t s) = temp_sensor_fault s"
  "last_asic_initialized (read_sensors t s) = last_asic_initialized s"
  by (simp_all add: read_sensors_def)

lemma check_temp_sensor_fields [simp]:
  "power_actions (check_temp_sensor t s) = power_actions s" "is_paused (check_temp_sensor t s) = is_paused s" "asic_initialized (check_temp_sensor t s) = asic_initialized s"
  "mining_paused (check_temp_sensor t s) = mining_paused s" "pools_down (check_temp_sensor t s) = pools_down s" "power_settings (check_temp_sensor t s) = power_settings s"
  "last_asic_frequency (check_temp_sensor t s) = last_asic_frequency s" "next_start_attempt_us (check_temp_sensor t s) = next_start_attempt_us s" "start_failures (check_temp_sensor t s) = start_failures s"
  "frequency_value (check_temp_sensor t s) = frequency_value s" "self_test_active (check_temp_sensor t s) = self_test_active s" "last_core_voltage (check_temp_sensor t s) = last_core_voltage s"
  "filtered_chip_temp (check_temp_sensor t s) = filtered_chip_temp s" "filtered_vr_temp (check_temp_sensor t s) = filtered_vr_temp s" "chip_temp_avg (check_temp_sensor t s) = chip_temp_avg s"
  "chip_temp2_avg (check_temp_sensor t s) = chip_temp2_avg s" "vr_temp (check_temp_sensor t s) = vr_temp s" "input_voltage (check_temp_sensor t s) = input_voltage s"
  "last_asic_initialized (check_temp_sensor t s) = asic_initialized s"
  by (simp_all add: check_temp_sensor_def Let_def)

lemma check_power_sensor_fields [simp]:
  "power_actions (check_power_sensor t s) = power_actions s" "is_paused (check_power_sensor t s) = is_paused s" "asic_initialized (check_power_sensor t s) = asic_initialized s"
  "mining_paused (check_power_sensor t s) = mining_paused s" "pools_down (check_power_sensor t s) = pools_down s" "power_settings (check_power_sensor t s) = power_settings s"
  "last_asic_frequency (check_power_sensor t s) = last_asic_frequency s" "next_start_attempt_us (check_power_sensor t s) = next_start_attempt_us s" "start_failures (check_power_sensor t s) = start_failures s"
  "frequency_value (check_power_sensor t s) = frequency_value s" "self_test_active (check_power_sensor t s) = self_test_active s" "last_core_voltage (check_power_sensor t s) = last_core_voltage s"
  "filtered_chip_temp (check_power_sensor t s) = filtered_chip_temp s" "filtered_vr_temp (check_power_sensor t s) = filtered_vr_temp s" "chip_temp_avg (check_power_sensor t s) = chip_temp_avg s"
  "chip_temp2_avg (check_power_sensor t s) = chip_temp2_avg s" "vr_temp (check_power_sensor t s) = vr_temp s" "input_voltage (check_power_sensor t s) = input_voltage s"
  "hardware_fault (check_power_sensor t s) = hardware_fault s" "last_asic_initialized (check_power_sensor t s) = last_asic_initialized s" "chip_temp_deadline_us (check_power_sensor t s) = chip_temp_deadline_us s"
  "temp_sensor_fault (check_power_sensor t s) = temp_sensor_fault s"
  by (simp_all add: check_power_sensor_def Let_def)

text \<open>The three together.\<close>

definition checked :: "tick \<Rightarrow> power_state \<Rightarrow> power_state" where
  "checked t s = check_power_sensor t (check_temp_sensor t (read_sensors t s))"

lemma checked_fields [simp]:
  "power_actions (checked t s) = power_actions s" "is_paused (checked t s) = is_paused s" "asic_initialized (checked t s) = asic_initialized s"
  "mining_paused (checked t s) = mining_paused s" "pools_down (checked t s) = pools_down s" "power_settings (checked t s) = power_settings s"
  "last_asic_frequency (checked t s) = last_asic_frequency s" "next_start_attempt_us (checked t s) = next_start_attempt_us s" "start_failures (checked t s) = start_failures s"
  "frequency_value (checked t s) = frequency_value s" "self_test_active (checked t s) = self_test_active s" "last_core_voltage (checked t s) = last_core_voltage s"
  "filtered_chip_temp (checked t s) = filtered_chip_temp s" "filtered_vr_temp (checked t s) = filtered_vr_temp s" "chip_temp_avg (checked t s) = (if asic_initialized s then sensed_chip t else -1)"
  "chip_temp2_avg (checked t s) = (if asic_initialized s then sensed_chip2 t else -1)" "vr_temp (checked t s) = sensed_vr t" "input_voltage (checked t s) = sensed_voltage t"
  "last_asic_initialized (checked t s) = asic_initialized s"
  by (simp_all add: checked_def)

lemma check_temp_fault: "hardware_fault s \<Longrightarrow> hardware_fault (check_temp_sensor t s)"
  by (simp add: check_temp_sensor_def Let_def)

lemma checked_fault: "hardware_fault s \<Longrightarrow> hardware_fault (checked t s)"
  by (simp add: checked_def check_temp_fault)

lemma supervise_checked: "supervise b t s = stop_or_start b t (checked t s)"
  by (simp add: supervise_def checked_def)

lemma stop_wanted:
  assumes "wants_stop (checked t s)" "\<not> self_test_finished t"
  shows "\<exists>s'. power_iteration b t s = Next s' \<and> is_paused s' \<and> (hardware_fault (checked t s) \<longrightarrow> hardware_fault s') \<and>
    power_actions s' = power_actions s @ (if is_paused s then [] else stop_commands) \<and> asic_initialized s' = (asic_initialized s \<and> is_paused s)"
  using assms by (simp add: power_iteration_def supervise_checked stop_or_start_def)

lemma faulty_iteration:
  assumes "hardware_fault s" "power_iteration b t (outside_change x s) = Next s'"
  shows "hardware_fault s' \<and> is_paused s' \<and> asic_initialized s' = (asic_initialized s \<and> is_paused s) \<and>
    power_actions s' = power_actions s @ (if is_paused s then [] else stop_commands)"
proof -
  let ?s = "outside_change x s"
  have same: "power_actions ?s = power_actions s" "asic_initialized ?s = asic_initialized s" "is_paused ?s = is_paused s" "hardware_fault ?s"
    using assms(1) by (simp_all add: outside_change_def)
  have "\<not> self_test_finished t" using assms(2) by (auto simp: power_iteration_def)
  moreover have fault: "hardware_fault (checked t ?s)" by (rule checked_fault) (rule same(4))
  then have "wants_stop (checked t ?s)" by (simp add: wants_stop_def)
  ultimately obtain s1 where "power_iteration b t ?s = Next s1" "is_paused s1" "hardware_fault (checked t ?s) \<longrightarrow> hardware_fault s1"
    "power_actions s1 = power_actions ?s @ (if is_paused ?s then [] else stop_commands)" "asic_initialized s1 = (asic_initialized ?s \<and> is_paused ?s)"
    using stop_wanted by metis
  with assms(2) fault show ?thesis by (simp add: same)
qed

lemma faulty_run:
  assumes "hardware_fault s" "power_run b ((x, t) # xs) s = Next s'"
  shows "hardware_fault s' \<and> is_paused s' \<and> asic_initialized s' = (asic_initialized s \<and> is_paused s) \<and>
    power_actions s' = power_actions s @ (if is_paused s then [] else stop_commands)"
  using assms
proof (induction xs arbitrary: x t s)
  case Nil
  then have "power_iteration b t (outside_change x s) = Next s'" by (auto split: iteration_result.splits)
  then show ?case by (rule faulty_iteration [OF Nil.prems(1)])
next
  case (Cons y ys)
  obtain x' t' where y: "y = (x', t')" by (cases y)
  from Cons.prems(2) obtain s1 where s1: "power_iteration b t (outside_change x s) = Next s1" "power_run b ((x', t') # ys) s1 = Next s'"
    unfolding y power_run.simps(2) [of b x t] by (auto split: iteration_result.splits)
  from faulty_iteration [OF Cons.prems(1) s1(1)] Cons.IH [OF _ s1(2)] show ?case by simp
qed

text \<open>The commands of one iteration: a stop or a start, then those of overheating and of the governors.\<close>

definition start_commands :: "power_action list \<Rightarrow> bool" where
  "start_commands acts \<longleftrightarrow> (\<exists>v. acts = [Vcore_Set_Voltage v] \<or> acts = [Vcore_Set_Voltage v, Asic_Initialize])"

definition overheat_commands :: "power_action list \<Rightarrow> bool" where
  "overheat_commands acts \<longleftrightarrow> acts = [] \<or> (\<exists>st. start_commands st \<and> acts = stop_commands @ st)"

definition govern_commands :: "power_action list \<Rightarrow> bool" where
  "govern_commands acts \<longleftrightarrow> (\<exists>volt freq. acts = volt @ freq @ [Vcore_Check_Fault] \<and> (volt = [] \<or> (\<exists>v. volt = [Vcore_Set_Voltage v])) \<and>
     (freq = [] \<or> (\<exists>f. freq = [Asic_Set_Frequency f, Asic_Set_Nonce_Space])))"

lemma mining_start_commands:
  "mining_start cfg ok n s = (chips, s') \<Longrightarrow> \<exists>acts. power_actions s' = power_actions s @ acts \<and> start_commands acts \<and> is_paused s' = is_paused s"
  by (auto simp: mining_start_def POWER_MANAGEMENT_init_frequency_def command_def start_commands_def Let_def split: prod.splits if_splits)

lemma stop_or_start_commands:
  "\<exists>acts. power_actions (stop_or_start b t s) = power_actions s @ acts \<and>
     (acts = [] \<or> acts = stop_commands \<and> is_paused (stop_or_start b t s) \<or> start_commands acts)"
proof (cases "wants_stop s \<and> \<not> is_paused s")
  case True
  then show ?thesis by (simp add: stop_or_start_def)
next
  case False
  obtain chips s1 where r: "mining_start (tuning b) (start_voltage_ok t) (start_chips t) s = (chips, s1)" by (cases "mining_start (tuning b) (start_voltage_ok t) (start_chips t) s")
  obtain acts where "power_actions s1 = power_actions s @ acts" "start_commands acts" using mining_start_commands [OF r] by blast
  then show ?thesis using False by (auto simp: stop_or_start_def r Let_def)
qed

lemma cooling_loop_actions: "cooling_loop v rs c s = Some (c', s') \<Longrightarrow> power_actions s' = power_actions s \<and> is_paused s' = is_paused s"
proof (induction rs arbitrary: v c s)
  case Nil
  then show ?case by (subst (asm) cooling_loop.simps) (auto split: if_splits)
next
  case (Cons r rs)
  from Cons.prems show ?case
    by (subst (asm) cooling_loop.simps) (auto simp: Let_def dest!: Cons.IH split: if_splits prod.splits)
qed

lemma overheat_gives:
  assumes "overheat b t s = Some s'"
  shows "\<exists>acts. power_actions s' = power_actions s @ acts \<and> overheat_commands acts \<and> is_paused s' = is_paused s"
proof (cases "too_hot s")
  case True
  then obtain c s1 where s1: "cooling_loop (emc_internal_temp b) (cooling_readings t) 0 (overheat_stop b t s) = Some (c, s1)"
      "s' = overheat_restart b t (nvs_asic_voltage (power_settings s)) (nvs_asic_frequency (power_settings s)) s1"
    using assms by (auto simp: overheat_def)
  obtain chips s2 where r: "mining_start (tuning b) (hot_start_ok t) (hot_start_chips t)
             (s1\<lparr>power_settings := (power_settings s1)\<lparr>nvs_asic_voltage := reduced_voltage b (nvs_asic_voltage (power_settings s)),
                  nvs_asic_frequency := reduced_frequency (nvs_asic_frequency (power_settings s))\<rparr>\<rparr>) = (chips, s2)" by fastforce
  obtain acts where a: "power_actions s2 = power_actions s1 @ acts" "start_commands acts" "is_paused s2 = is_paused s1"
    using mining_start_commands [OF r] by auto
  have "power_actions s1 = power_actions s @ stop_commands" "is_paused s1 = is_paused s"
    using cooling_loop_actions [OF s1(1)] by (simp_all add: overheat_stop_def)
  then show ?thesis using a by (auto simp: s1(2) overheat_restart_def r overheat_commands_def)
next
  case False
  then show ?thesis using assms by (simp add: overheat_def overheat_commands_def)
qed

lemma govern_gives: "\<exists>acts. power_actions (govern b t s) = power_actions s @ acts \<and> govern_commands acts \<and> is_paused (govern b t s) = is_paused s"
proof -
  obtain mv req s1 where r: "requested_settings (tuning b) s = (mv, req, s1)" by (cases "requested_settings (tuning b) s")
  have 1: "power_actions s1 = power_actions s" "is_paused s1 = is_paused s"
    using r by (auto simp: requested_settings_def split: prod.splits if_splits)
  have f: "power_actions (filter_temperatures (filter_voltage x)) = power_actions x" "is_paused (filter_temperatures (filter_voltage x)) = is_paused x" for x
    by (simp_all add: filter_temperatures_def filter_voltage_def Let_def)
  let ?f = "governed_frequency (filter_temperatures (filter_voltage s1)) req"
  define x where "x = (filter_temperatures (filter_voltage s1))\<lparr>pm_voltage_throttling := (voltage_frequency (filter_temperatures (filter_voltage s1)) req < req),
                    pm_thermal_throttling := (thermal_throttle_fraction (filter_temperatures (filter_voltage s1)) < 1)\<rparr>"
  have x: "power_actions x = power_actions s" "is_paused x = is_paused s" by (simp_all add: x_def f 1)
  define volt where "volt = (if mv \<noteq> last_core_voltage x then [Vcore_Set_Voltage (f32 (f64 (u16_float mv / 1000)))] else [])"
  define freq where "freq = (if ?f \<noteq> last_asic_frequency (set_core_voltage t mv x) then [Asic_Set_Frequency ?f, Asic_Set_Nonce_Space] else [])"
  have volt: "power_actions (set_core_voltage t mv x) = power_actions x @ volt" "is_paused (set_core_voltage t mv x) = is_paused x"
    by (simp_all add: volt_def set_core_voltage_def command_def Let_def)
  have freq: "power_actions (set_frequency (tuning b) ?f (set_core_voltage t mv x)) = power_actions (set_core_voltage t mv x) @ freq"
      "is_paused (set_frequency (tuning b) ?f (set_core_voltage t mv x)) = is_paused (set_core_voltage t mv x)"
    by (simp_all add: freq_def set_frequency_def command_def)
  have "power_actions (govern b t s) = power_actions s @ volt @ freq @ [Vcore_Check_Fault]" "is_paused (govern b t s) = is_paused s"
    by (simp_all add: govern_def r Let_def x_def [symmetric] command_def volt freq x)
  moreover have "govern_commands (volt @ freq @ [Vcore_Check_Fault])" 
    unfolding govern_commands_def by (intro exI [of _ volt] exI [of _ freq]) (simp add: volt_def freq_def)
  ultimately show ?thesis by blast
qed

lemma iteration_gives:
  assumes "power_iteration b t s = Next s'"
  shows "\<exists>acts. power_actions s' = power_actions s @ acts \<and>
    (acts = [] \<or> acts = stop_commands \<or> start_commands acts \<or>
     \<not> is_paused s' \<and> (\<exists>pre hot gov. acts = pre @ hot @ gov \<and> (pre = [] \<or> start_commands pre) \<and> overheat_commands hot \<and> govern_commands gov))"
proof -
  have t: "\<not> self_test_finished t" using assms by (auto simp: power_iteration_def)
  define s1 where "s1 = supervise b t s"
  obtain pre where pre: "power_actions s1 = power_actions s @ pre" "pre = [] \<or> pre = stop_commands \<and> is_paused s1 \<or> start_commands pre"
    using stop_or_start_commands [of b t "checked t s"] by (auto simp: s1_def supervise_checked)
  show ?thesis
  proof (cases "is_paused s1 \<or> hardware_fault s1")
    case True
    then have "s' = s1" using assms t by (simp add: power_iteration_def s1_def)
    then show ?thesis using pre by blast
  next
    case False
    then obtain s2 where s2: "overheat b t s1 = Some s2" "s' = govern b t s2"
      using assms t by (auto simp: power_iteration_def s1_def [symmetric] split: option.splits)
    obtain hot where hot: "power_actions s2 = power_actions s1 @ hot" "overheat_commands hot" "is_paused s2 = is_paused s1"
      using overheat_gives [OF s2(1)] by blast
    obtain gov where gov: "power_actions s' = power_actions s2 @ gov" "govern_commands gov" "is_paused s' = is_paused s2"
      using govern_gives [of b t s2] s2(2) by blast
    have "power_actions s' = power_actions s @ pre @ hot @ gov" "\<not> is_paused s'" "pre = [] \<or> start_commands pre"
      using pre hot(1,3) gov(1,3) False by auto
    then show ?thesis using hot(2) gov(2) by blast
  qed
qed

text \<open>
  C8. A hardware fault is final: from the iteration after the one that raised it, whatever the sensors say and the other
  tasks do, mining stays stopped, and no command is given to the hardware but the one stop sequence, which cuts the core
  voltage and holds the chip in reset, and not even that when mining was paused already. The iteration that raises the
  fault is not cut short: when it ends with mining paused it gave no command but a stop or a start, and otherwise it may
  have gone on to restart the chip after a stop for overheating and to set voltage and frequency.
\<close>

theorem fault_is_final:
  assumes "hardware_fault s" "power_run b ((x, t) # xs) s = Next s'"
  shows "(hardware_fault s' \<and> is_paused s' \<and> asic_initialized s' = (asic_initialized s \<and> is_paused s) \<and>
      power_actions s' = power_actions s @ (if is_paused s then [] else stop_commands)) \<and>
    (\<forall>t0 s0. power_iteration b t0 s0 = Next s \<longrightarrow> (\<exists>acts. power_actions s = power_actions s0 @ acts \<and>
      (acts = [] \<or> acts = stop_commands \<or> start_commands acts \<or>
       \<not> is_paused s \<and> (\<exists>pre hot gov. acts = pre @ hot @ gov \<and> (pre = [] \<or> start_commands pre) \<and> overheat_commands hot \<and> govern_commands gov))))"
proof (intro conjI allI impI)
  fix t0 s0 assume "power_iteration b t0 s0 = Next s"
  then show "\<exists>acts. power_actions s = power_actions s0 @ acts \<and>
      (acts = [] \<or> acts = stop_commands \<or> start_commands acts \<or>
       \<not> is_paused s \<and> (\<exists>pre hot gov. acts = pre @ hot @ gov \<and> (pre = [] \<or> start_commands pre) \<and> overheat_commands hot \<and> govern_commands gov))"
    by (rule iteration_gives)
qed (use faulty_run [OF assms] in blast)+

text \<open>
  The frequency is raised although setting the voltage just failed, which a comment of the code rules out: the two
  commands after a failed one.
\<close>

lemma frequency_after_failed_voltage:
  assumes "mv \<noteq> last_core_voltage s" "\<not> set_voltage_ok t" "f \<noteq> last_asic_frequency s"
  shows "hardware_fault (set_frequency cfg f (set_core_voltage t mv s)) \<and>
    power_actions (set_frequency cfg f (set_core_voltage t mv s)) =
      power_actions s @ [Vcore_Set_Voltage (f32 (f64 (u16_float mv / 1000))), Asic_Set_Frequency f, Asic_Set_Nonce_Space]"
  using assms by (simp add: set_frequency_def set_core_voltage_def command_def)

section \<open>A dead temperature sensor\<close>

lemma command_fields [simp]:
  "power_actions (command acts s) = power_actions s @ acts" "is_paused (command acts s) = is_paused s" "asic_initialized (command acts s) = asic_initialized s"
  "hardware_fault (command acts s) = hardware_fault s" "last_asic_initialized (command acts s) = last_asic_initialized s"
  "chip_temp_deadline_us (command acts s) = chip_temp_deadline_us s" "temp_sensor_fault (command acts s) = temp_sensor_fault s"
  "power_settings (command acts s) = power_settings s" "frequency_value (command acts s) = frequency_value s"
  "last_asic_frequency (command acts s) = last_asic_frequency s" "mining_paused (command acts s) = mining_paused s" "pools_down (command acts s) = pools_down s"
  by (simp_all add: command_def)

text \<open>What the governors leave alone.\<close>

definition run_fields :: "power_state \<Rightarrow> bool \<times> bool \<times> bool \<times> int \<times> bool \<times> bool \<times> bool" where
  "run_fields s = (is_paused s, asic_initialized s, last_asic_initialized s, chip_temp_deadline_us s, temp_sensor_fault s, mining_paused s, pools_down s)"

lemma govern_run_fields: "run_fields (govern b t s) = run_fields s"
proof -
  have "run_fields (command acts s) = run_fields s" for acts s by (simp add: run_fields_def)
  moreover have "run_fields (set_core_voltage t mv s) = run_fields s" for mv s by (simp add: run_fields_def set_core_voltage_def Let_def)
  moreover have "run_fields (set_frequency cfg f s) = run_fields s" for cfg f s by (simp add: run_fields_def set_frequency_def)
  moreover have "run_fields (filter_temperatures s) = run_fields s" for s by (simp add: run_fields_def filter_temperatures_def Let_def)
  moreover have "run_fields (filter_voltage s) = run_fields s" for s by (simp add: run_fields_def filter_voltage_def)
  moreover have "run_fields (snd (snd (requested_settings cfg s))) = run_fields s" for cfg s
    by (simp add: run_fields_def requested_settings_def split: prod.split)
  moreover have "run_fields (s\<lparr>overheat_mode := m\<rparr>) = run_fields s" "run_fields (s\<lparr>pm_voltage_throttling := v, pm_thermal_throttling := h\<rparr>) = run_fields s" for s m v h
    by (simp_all add: run_fields_def)
  ultimately show ?thesis by (simp add: govern_def Let_def split: prod.split) (metis snd_conv)
qed

lemma govern_keeps:
  "is_paused (govern b t s) = is_paused s" "asic_initialized (govern b t s) = asic_initialized s"
  "last_asic_initialized (govern b t s) = last_asic_initialized s" "chip_temp_deadline_us (govern b t s) = chip_temp_deadline_us s"
  "temp_sensor_fault (govern b t s) = temp_sensor_fault s"
  using govern_run_fields [of b t s] by (simp_all add: run_fields_def)

text \<open>No reading above zero from the chip, and the regulator not overheated; mining not paused from outside.\<close>

definition blind :: "outside \<times> tick \<Rightarrow> bool" where
  "blind xt \<longleftrightarrow> sensed_chip (snd xt) \<le> 0 \<and> sensed_chip2 (snd xt) \<le> 0 \<and> sensed_vr (snd xt) \<le> TPS546_MAX_TEMP \<and>
     \<not> out_paused (fst xt) \<and> \<not> out_pools_down (fst xt)"

definition mining_blind :: "int \<Rightarrow> power_state \<Rightarrow> bool" where
  "mining_blind deadline s \<longleftrightarrow> \<not> is_paused s \<and> asic_initialized s \<and>
     (hardware_fault s \<or> last_asic_initialized s \<and> chip_temp_deadline_us s = deadline \<and> \<not> temp_sensor_fault s)"

definition shut_down :: "power_state \<Rightarrow> bool" where
  "shut_down s \<longleftrightarrow> hardware_fault s \<and> is_paused s \<and> \<not> asic_initialized s \<and> (\<exists>before. power_actions s = before @ stop_commands)"

lemma checked_blind:
  assumes "asic_initialized s" "last_asic_initialized s" "\<not> is_paused s" "\<not> temp_sensor_fault s" "sensed_chip t \<le> 0" "sensed_chip2 t \<le> 0"
  shows "hardware_fault (checked t s) \<longleftrightarrow> hardware_fault s \<or> chip_temp_deadline_us s < sensor_time_us t"
    and "chip_temp_deadline_us (checked t s) = chip_temp_deadline_us s"
    and "temp_sensor_fault (checked t s) \<longleftrightarrow> chip_temp_deadline_us s < sensor_time_us t"
  using assms by (simp_all add: checked_def check_temp_sensor_def Let_def)

lemma blind_iteration:
  assumes "mining_blind deadline s" "blind (x, t)" "power_iteration b t (outside_change x s) = Next s'"
  shows "shut_down s' \<or> mining_blind deadline s' \<and> sensor_time_us t \<le> deadline"
proof (cases "hardware_fault s")
  case True
  from faulty_iteration [OF this assms(3)] assms(1) show ?thesis by (auto simp: shut_down_def mining_blind_def)
next
  case False
  let ?s = "outside_change x s" and ?c = "checked t (outside_change x s)"
  have s: "asic_initialized ?s" "last_asic_initialized ?s" "\<not> is_paused ?s" "\<not> temp_sensor_fault ?s" "chip_temp_deadline_us ?s = deadline"
    using assms(1) False by (simp_all add: mining_blind_def outside_change_def)
  have readings: "sensed_chip t \<le> 0" "sensed_chip2 t \<le> 0" "sensed_vr t \<le> TPS546_MAX_TEMP" using assms(2) by (simp_all add: blind_def)
  note c = checked_blind [OF s(1-4) readings(1,2)]
  have fin: "\<not> self_test_finished t" using assms(3) by (auto simp: power_iteration_def)
  have unpaused: "\<not> mining_paused ?c" "\<not> pools_down ?c" using assms(2) by (simp_all add: blind_def outside_change_def)
  show ?thesis
  proof (cases "hardware_fault ?c")
    case True
    then show ?thesis using stop_wanted [of t ?s b] fin assms(3) s(1,3) by (auto simp: wants_stop_def shut_down_def)
  next
    case False
    then have up: "stop_or_start b t ?c = ?c" using s(3) unpaused by (simp add: stop_or_start_def wants_stop_def)
    have "\<not> too_hot ?c" using readings s(1) by (simp add: too_hot_def MAX_TEMP_def)
    then have "s' = govern b t ?c"
      using assms(3) fin False s(3) by (simp add: power_iteration_def supervise_checked up overheat_def)
    then show ?thesis using False s c by (auto simp: mining_blind_def govern_keeps)
  qed
qed

lemma shut_down_iteration:
  assumes "shut_down s" "power_iteration b t (outside_change x s) = Next s'"
  shows "shut_down s'"
  using faulty_iteration [OF _ assms(2)] assms(1) by (auto simp: shut_down_def)

text \<open>
  C7. A chip sensor that dies is noticed: while the ASIC runs and the readings stay without a value, no iteration
  moves the deadline, and once one comes after it, at most ten seconds after the last good reading, mining has
  been stopped as a hardware fault: the last commands to the hardware are the stop sequence.
\<close>

theorem blind_sensor_stops:
  assumes "mining_blind deadline s" "\<forall>xt \<in> set xs. blind xt" "\<exists>xt \<in> set xs. deadline < sensor_time_us (snd xt)" "power_run b xs s = Next s'"
  shows "hardware_fault s' \<and> is_paused s' \<and> \<not> asic_initialized s' \<and> (\<exists>before. power_actions s' = before @ stop_commands)"
proof -
  have shut: "shut_down s'" if "power_run b xs s = Next s'" "shut_down s" for xs s
    using that
  proof (induction xs arbitrary: s)
    case (Cons xt xs)
    then show ?case by (cases xt) (auto split: iteration_result.splits intro: shut_down_iteration)
  qed simp
  have "shut_down s'"
    using assms
  proof (induction xs arbitrary: s)
    case (Cons xt xs)
    obtain x t where xt: "xt = (x, t)" by (cases xt)
    from Cons.prems(4) obtain s1 where s1: "power_iteration b t (outside_change x s) = Next s1" "power_run b xs s1 = Next s'"
      by (auto simp: xt split: iteration_result.splits)
    from blind_iteration [OF Cons.prems(1) _ s1(1)] Cons.prems(2) xt
    consider "shut_down s1" | "mining_blind deadline s1" "sensor_time_us t \<le> deadline" by auto
    then show ?case
    proof cases
      case 1
      then show ?thesis by (rule shut [OF s1(2)])
    next
      case 2
      then show ?thesis using Cons.IH [OF 2(1) _ _ s1(2)] Cons.prems(2,3) xt by auto
    qed
  qed simp
  then show ?thesis by (simp add: shut_down_def)
qed

text \<open>States and ticks for the examples.\<close>

definition example_settings :: settings where
  "example_settings = \<lparr>nvs_asic_voltage = 1150, nvs_asic_frequency = 450, nvs_overclock_enabled = False, nvs_auto_fan_speed = True,
     nvs_manual_fan_speed = 100, nvs_overheat_mode = False, nvs_autotune_enabled = False, nvs_autotune_frequency = 0, last_warned_mv = 0,
     last_warned_mhz = 0\<rparr>"

definition example_board :: board where
  "example_board = \<lparr>tuning = \<lparr>frequency_options = Some [400, 450, 0], voltage_options = Some [1100, 1150, 0], oc_min_voltage_mv = 1000,
     oc_max_voltage_mv = 1300, oc_min_frequency_mhz = 200, oc_max_frequency_mhz = 650, default_voltage_mv = 1150, default_frequency_mhz = 450,
     tuned_core_count = 2040, tuned_asic_count = 1\<rparr>, emc_internal_temp = True, voltage_min_mv = 1000\<rparr>"

definition example_power_state :: power_state where
  "example_power_state = \<lparr>frequency_value = 450, expected_hashrate = 0, input_voltage = 0, chip_temp_avg = 0, chip_temp2_avg = 0, vr_temp = 0,
     chip_temp_deadline_us = 100, temp_sensor_fault = False, power_sensor_fault = False, pm_voltage_throttling = False,
     pm_thermal_throttling = False, mining_paused = False, hardware_fault = False, pools_down = False, overheat_mode = False,
     asic_initialized = True, self_test_active = False, power_settings = example_settings, power_actions = [], last_asic_frequency = 450,
     last_core_voltage = 1150, is_paused = False, start_failures = 0, next_start_attempt_us = 0, last_asic_initialized = True,
     filtered_input_voltage = -1, filtered_chip_temp = -1, filtered_vr_temp = -1\<rparr>"

definition example_tick :: tick where
  "example_tick = \<lparr>self_test_finished = False, sensed_voltage = 0, sensed_chip = -1, sensed_chip2 = -1, sensed_vr = 0, read_failures = 0,
     sensor_time_us = 0, start_time_us = 0, failure_time_us = 0, stop_voltage_ok = True, start_voltage_ok = True, start_chips = 1,
     hot_stop_ok = True, hot_start_ok = True, hot_start_chips = 1, cooling_readings = [], set_voltage_ok = True\<rparr>"

definition quiet :: outside where
  "quiet = \<lparr>out_paused = False, out_pools_down = False, out_fault = False, out_self_test = False, out_settings = (\<lambda>s. s)\<rparr>"

lemma quiet_change [simp]: "\<not> hardware_fault s \<Longrightarrow> hardware_fault (outside_change quiet s) = False" "hardware_fault s \<Longrightarrow> hardware_fault (outside_change quiet s)"
  by (simp_all add: outside_change_def quiet_def)

theorem fault_is_final_witness:
  "\<exists>s'. power_run example_board [(quiet, example_tick)] (example_power_state\<lparr>hardware_fault := True\<rparr>) = Next s' \<and> is_paused s' \<and>
     power_actions s' = stop_commands"
proof -
  let ?s = "example_power_state\<lparr>hardware_fault := True\<rparr>"
  have "hardware_fault (checked example_tick (outside_change quiet ?s))" by (rule checked_fault) simp
  then have "wants_stop (checked example_tick (outside_change quiet ?s))" "\<not> self_test_finished example_tick"
    by (simp_all add: wants_stop_def example_tick_def)
  from stop_wanted [OF this, of example_board] obtain s' where s': "power_iteration example_board example_tick (outside_change quiet ?s) = Next s'" by blast
  then have run: "power_run example_board [(quiet, example_tick)] ?s = Next s'" by simp
  have "is_paused ?s = False" "power_actions ?s = []" by (simp_all add: example_power_state_def)
  with fault_is_final [OF _ run] run show ?thesis by auto
qed

theorem blind_sensor_stops_witness:
  "\<exists>s'. power_run example_board [(quiet, example_tick\<lparr>sensor_time_us := 101\<rparr>)] example_power_state = Next s' \<and> hardware_fault s' \<and>
     \<not> asic_initialized s'"
proof -
  let ?t = "example_tick\<lparr>sensor_time_us := 101\<rparr>" and ?s = "outside_change quiet example_power_state"
  have "hardware_fault (checked ?t ?s)"
    by (subst checked_blind) (simp_all add: outside_change_def example_power_state_def example_tick_def)
  then have "wants_stop (checked ?t ?s)" "\<not> self_test_finished ?t" by (simp_all add: wants_stop_def example_tick_def)
  from stop_wanted [OF this, of example_board] obtain s' where "power_iteration example_board ?t ?s = Next s'" by blast
  then have run: "power_run example_board [(quiet, ?t)] example_power_state = Next s'" by simp
  have "mining_blind 100 example_power_state" by (simp add: mining_blind_def example_power_state_def)
  moreover have "\<forall>xt \<in> set [(quiet, ?t)]. blind xt" by (simp add: blind_def quiet_def example_tick_def TPS546_MAX_TEMP_def)
  ultimately show ?thesis using blind_sensor_stops [of 100 example_power_state "[(quiet, ?t)]" example_board s'] run by auto
qed

section \<open>What the code does not mean to do\<close>

text \<open>
  The cooling loop does not look at the chip: the sensors answer -1 while the ASIC is not initialised, and the
  stop before the loop made it so. On every board the loop ends after six readings, thirty seconds, if the
  regulator is at 95 degrees or below, however hot the chip is.
\<close>

theorem cooling_ignores_chip:
  assumes "length chips = 6" "\<forall>v \<in> set vrs. v \<le> 95" "length vrs = 6"
  shows "\<exists>s'. cooling_loop (emc_internal_temp b) (zip vrs chips) 0 (overheat_stop b t s) = Some (6, s')"
proof -
  have loop: "\<exists>s'. cooling_loop v rs c s = Some (6, s')"
    if "\<not> asic_initialized s" "length rs = nat (6 - c)" "c \<le> 6" "\<forall>r \<in> set rs. fst r \<le> 95" "c = 6 \<longrightarrow> vr_temp s \<le> 95" for v rs c s
    using that
  proof (induction rs arbitrary: c s)
    case Nil
    then show ?case by (subst cooling_loop.simps) (simp add: MIN_COOLING_CYCLES_def TPS546_THROTTLE_TEMP_def)
  next
    case (Cons r rs)
    obtain vr chip chip2 where r: "r = (vr, chip, chip2)" by (cases r)
    have "\<exists>s'. cooling_loop v rs (c + 1) s1 = Some (6, s')" if "\<not> asic_initialized s1" "vr_temp s1 = vr" for s1
      using Cons.IH [of s1 "c + 1"] Cons.prems that r by auto
    then show ?case
      using Cons.prems by (subst cooling_loop.simps) (cases v; simp add: r MIN_COOLING_CYCLES_def SAFE_TEMP_def Let_def)
  qed
  have "\<forall>r \<in> set (zip vrs chips). fst r \<le> 95" using assms(2) by (auto dest: set_zip_leftD)
  then show ?thesis by (intro loop) (use assms in \<open>simp_all add: overheat_stop_def\<close>)
qed

theorem cooling_ignores_chip_witness:
  "\<exists>s'. cooling_loop True (zip (replicate 6 60) (replicate 6 (150, -1))) 0 (overheat_stop example_board example_tick example_power_state) = Some (6, s')"
  using cooling_ignores_chip [of "replicate 6 (150, -1)" "replicate 6 60" example_board example_tick example_power_state]
  by (simp add: example_board_def)

lemma outside_quiet: "outside_change quiet s = s\<lparr>mining_paused := False, pools_down := False, self_test_active := False\<rparr>"
  by (simp add: outside_change_def quiet_def)

text \<open>The sensor checks of a stopped chip with a working power sensor raise no fault.\<close>

lemma checked_stopped:
  assumes "\<not> asic_initialized s" "\<not> power_sensor_fault s" "read_failures t < POWER_SENSOR_STALE_READS"
  shows "hardware_fault (checked t s) = hardware_fault s" "power_sensor_fault (checked t s) = power_sensor_fault s"
    "filtered_input_voltage (checked t s) = filtered_input_voltage s"
proof -
  have "\<not> POWER_SENSOR_STALE_READS \<le> read_failures t" using assms(3) by simp
  then show "hardware_fault (checked t s) = hardware_fault s" "power_sensor_fault (checked t s) = power_sensor_fault s"
    "filtered_input_voltage (checked t s) = filtered_input_voltage s"
    using assms(1,2) by (simp_all add: checked_def check_power_sensor_def check_temp_sensor_def read_sensors_def Let_def)
qed

lemma mining_start_allowed:
  assumes "tuning_voltage_allowed cfg (nvs_overclock_enabled (power_settings s)) (nvs_asic_voltage (power_settings s))"
    and "tuning_frequency_allowed cfg (nvs_overclock_enabled (power_settings s)) (nvs_asic_frequency (power_settings s))"
  shows "mining_start cfg True chips s =
    (chips, s\<lparr>power_actions := power_actions s @ [Vcore_Set_Voltage (f32 (f64 (u16_float (nvs_asic_voltage (power_settings s)) / 1000))), Asic_Initialize],
       frequency_value := nvs_asic_frequency (power_settings s), expected_hashrate := expected_hashrate_of cfg (nvs_asic_frequency (power_settings s)),
       asic_initialized := (chips > 0 \<or> asic_initialized s)\<rparr>)"
  using clamp_allowed(1) [OF assms(1)] clamp_allowed(2) [OF assms(2)]
  by (simp add: mining_start_def POWER_MANAGEMENT_init_frequency_def command_def Let_def)

lemma third_start_fails:
  assumes "is_paused s" "\<not> asic_initialized s" "\<not> hardware_fault s" "start_failures s = 2" "\<not> power_sensor_fault s"
    and "\<not> self_test_finished t" "read_failures t < POWER_SENSOR_STALE_READS" "next_start_attempt_us s \<le> start_time_us t"
    and "start_voltage_ok t" "start_chips t = 0"
    and "tuning_voltage_allowed (tuning b) (nvs_overclock_enabled (power_settings s)) (nvs_asic_voltage (power_settings s))"
    and "tuning_frequency_allowed (tuning b) (nvs_overclock_enabled (power_settings s)) (nvs_asic_frequency (power_settings s))"
  shows "\<exists>s1. power_iteration b t (outside_change quiet s) = Next s1 \<and> hardware_fault s1 \<and> is_paused s1 \<and>
    power_actions s1 = power_actions s @ [Vcore_Set_Voltage (f32 (f64 (u16_float (nvs_asic_voltage (power_settings s)) / 1000))), Asic_Initialize]"
proof -
  let ?s = "outside_change quiet s" let ?c = "checked t ?s"
  have s: "\<not> asic_initialized ?s" "\<not> power_sensor_fault ?s" "\<not> hardware_fault ?s" "is_paused ?s" "start_failures ?s = 2"
    "power_settings ?s = power_settings s" "next_start_attempt_us ?s = next_start_attempt_us s" "\<not> mining_paused ?s" "\<not> pools_down ?s"
    "power_actions ?s = power_actions s"
    using assms(1-5) by (simp_all add: outside_quiet)
  have c: "\<not> hardware_fault ?c" using checked_stopped [OF s(1,2) assms(7)] s(3) by simp
  then have "\<not> wants_stop ?c" using s(8,9) by (simp add: wants_stop_def)
  then have "stop_or_start b t ?c = (let s1 = snd (mining_start (tuning b) True 0 ?c) in
      s1\<lparr>start_failures := 3, next_start_attempt_us := failure_time_us t + start_backoff_us 3, hardware_fault := True\<rparr>)"
    using c s assms(8-12) by (simp add: stop_or_start_def mining_start_allowed MINING_START_MAX_FAILURES_def Let_def)
  then show ?thesis
    using s assms(6,11,12) by (simp add: power_iteration_def supervise_checked mining_start_allowed Let_def)
qed

text \<open>
  After the third restart that finds no chip the hardware fault is set while mining counts as paused, so the
  stop sequence never comes: whatever happens then, the last commands stay the core voltage of the settings and
  the failed initialisation.
\<close>

theorem failed_restart_keeps_voltage:
  assumes "is_paused s" "\<not> asic_initialized s" "\<not> hardware_fault s" "start_failures s = 2" "\<not> power_sensor_fault s"
    and "\<not> self_test_finished t" "read_failures t < POWER_SENSOR_STALE_READS" "next_start_attempt_us s \<le> start_time_us t"
    and "start_voltage_ok t" "start_chips t = 0"
    and "tuning_voltage_allowed (tuning b) (nvs_overclock_enabled (power_settings s)) (nvs_asic_voltage (power_settings s))"
    and "tuning_frequency_allowed (tuning b) (nvs_overclock_enabled (power_settings s)) (nvs_asic_frequency (power_settings s))"
    and "power_run b ((quiet, t) # xs) s = Next s'"
  shows "hardware_fault s' \<and> is_paused s' \<and>
    power_actions s' = power_actions s @ [Vcore_Set_Voltage (f32 (f64 (u16_float (nvs_asic_voltage (power_settings s)) / 1000))), Asic_Initialize]"
proof -
  obtain s1 where s1: "power_iteration b t (outside_change quiet s) = Next s1" "hardware_fault s1" "is_paused s1"
      "power_actions s1 = power_actions s @ [Vcore_Set_Voltage (f32 (f64 (u16_float (nvs_asic_voltage (power_settings s)) / 1000))), Asic_Initialize]"
    using third_start_fails [OF assms(1-12)] by blast
  with assms(13) have run: "power_run b xs s1 = Next s'" by simp
  show ?thesis
  proof (cases xs)
    case Nil
    then show ?thesis using run s1 by simp
  next
    case (Cons y ys)
    then show ?thesis using faulty_run [OF s1(2), of b "fst y" "snd y" ys s'] run s1 by simp
  qed
qed

lemma example_allowed:
  "tuning_voltage_allowed (tuning example_board) False 1150" "tuning_frequency_allowed (tuning example_board) False 450"
  by (simp_all add: tuning_voltage_allowed_def tuning_frequency_allowed_def tuning_voltage_range_def tuning_frequency_range_def
      asic_tuning_range_def example_board_def asic_options_min_def asic_options_max_def u16_float_def)

definition stopped_state :: power_state where
  "stopped_state = example_power_state\<lparr>asic_initialized := False, is_paused := True, last_asic_initialized := False\<rparr>"

lemma stopped_state_fields [simp]:
  "is_paused stopped_state" "\<not> asic_initialized stopped_state" "\<not> hardware_fault stopped_state" "\<not> power_sensor_fault stopped_state"
  "power_settings stopped_state = example_settings" "next_start_attempt_us stopped_state = 0" "start_failures stopped_state = 0"
  "power_actions stopped_state = []" "\<not> self_test_active stopped_state" "filtered_chip_temp stopped_state = -1" "filtered_vr_temp stopped_state = -1"
  "\<not> self_test_finished example_tick" "read_failures example_tick = 0" "start_time_us example_tick = 0" "start_voltage_ok example_tick"
  "start_chips example_tick = 1" "sensed_vr example_tick = 0" "sensed_voltage example_tick = 0"
  "nvs_asic_voltage example_settings = 1150" "nvs_asic_frequency example_settings = 450" "\<not> nvs_overclock_enabled example_settings"
  by (simp_all add: stopped_state_def example_power_state_def example_tick_def example_settings_def)

theorem failed_restart_keeps_voltage_witness:
  "\<exists>s'. power_run example_board [(quiet, example_tick\<lparr>start_chips := 0\<rparr>)] (stopped_state\<lparr>start_failures := 2\<rparr>) = Next s' \<and>
     power_actions s' = [Vcore_Set_Voltage (f32 (f64 (u16_float 1150 / 1000))), Asic_Initialize] \<and> hardware_fault s'"
proof -
  let ?s = "stopped_state\<lparr>start_failures := 2\<rparr>" and ?t = "example_tick\<lparr>start_chips := 0\<rparr>"
  obtain s' where "power_iteration example_board ?t (outside_change quiet ?s) = Next s'"
    using third_start_fails [of ?s ?t example_board] example_allowed by (auto simp: POWER_SENSOR_STALE_READS_def)
  then have run: "power_run example_board [(quiet, ?t)] ?s = Next s'" by simp
  from failed_restart_keeps_voltage [OF _ _ _ _ _ _ _ _ _ _ _ _ run] run example_allowed show ?thesis
    by (auto simp: POWER_SENSOR_STALE_READS_def)
qed

lemma filters_skip:
  "sensed_voltage t \<le> 0 \<Longrightarrow> input_voltage s = sensed_voltage t \<Longrightarrow> filter_voltage s = s"
  "chip_temp_avg s \<le> 0 \<Longrightarrow> chip_temp2_avg s \<le> 0 \<Longrightarrow> vr_temp s \<le> 0 \<Longrightarrow> filter_temperatures s = s"
  by (simp_all add: filter_voltage_def filter_temperatures_def max_def)

text \<open>The governors read the filters and the sensor fault only.\<close>

lemma governed_cong:
  "filtered_input_voltage s' = filtered_input_voltage s \<Longrightarrow> power_sensor_fault s' = power_sensor_fault s \<Longrightarrow>
   filtered_chip_temp s' = filtered_chip_temp s \<Longrightarrow> filtered_vr_temp s' = filtered_vr_temp s \<Longrightarrow>
   governed_frequency s' r = governed_frequency s r"
  by (simp add: governed_frequency_def voltage_frequency_def thermal_frequency_def thermal_throttle_fraction_def)

text \<open>The governors when they ask for the frequency they asked for last.\<close>

lemma govern_same_frequency:
  assumes "tuning_voltage_allowed (tuning b) (nvs_overclock_enabled (power_settings s)) (nvs_asic_voltage (power_settings s))"
    and "tuning_frequency_allowed (tuning b) (nvs_overclock_enabled (power_settings s)) (nvs_asic_frequency (power_settings s))"
    and "\<not> self_test_active s" "filter_voltage s = s" "filter_temperatures s = s"
    and "governed_frequency s (nvs_asic_frequency (power_settings s)) = last_asic_frequency s"
  shows "frequency_value (govern b t s) = frequency_value s" "governed_frequency (govern b t s) r = governed_frequency s r"
    and "\<exists>acts. power_actions (govern b t s) = power_actions s @ acts \<and> (\<forall>f. Asic_Set_Frequency f \<notin> set acts)"
proof -
  have req: "requested_settings (tuning b) s = (nvs_asic_voltage (power_settings s), nvs_asic_frequency (power_settings s), s)"
    using clamp_allowed(1) [OF assms(1)] clamp_allowed(2) [OF assms(2)] assms(3) by (simp add: requested_settings_def)
  have f: "set_frequency (tuning b) (last_asic_frequency s) (set_core_voltage t mv (s\<lparr>pm_voltage_throttling := v, pm_thermal_throttling := h\<rparr>)) =
      set_core_voltage t mv (s\<lparr>pm_voltage_throttling := v, pm_thermal_throttling := h\<rparr>)" for mv v h
    by (simp add: set_frequency_def set_core_voltage_def command_def Let_def)
  show "frequency_value (govern b t s) = frequency_value s"
    by (simp add: govern_def req assms(4-6) f Let_def) (simp add: set_core_voltage_def Let_def)
  show "governed_frequency (govern b t s) r = governed_frequency s r"
    by (rule governed_cong) (simp_all add: govern_def req assms(4-6) Let_def set_frequency_def set_core_voltage_def command_def)
  show "\<exists>acts. power_actions (govern b t s) = power_actions s @ acts \<and> (\<forall>f. Asic_Set_Frequency f \<notin> set acts)"
    by (simp add: govern_def req assms(4-6) f Let_def) (simp add: set_core_voltage_def Let_def)
qed

text \<open>
  A throttle is lost over a pause: the restart runs the chip at the frequency of the settings, but the task
  still holds the throttled frequency as the last one set, so when the filters, which do not move while the chip
  is off, ask for the same frequency again, it is not set, and the chip runs above what the governors allow.
\<close>

theorem throttle_lost_after_restart:
  assumes "is_paused s" "\<not> asic_initialized s" "\<not> hardware_fault s" "\<not> power_sensor_fault s"
    and "\<not> self_test_finished t" "read_failures t < POWER_SENSOR_STALE_READS" "next_start_attempt_us s \<le> start_time_us t"
    and "start_voltage_ok t" "start_chips t > 0" "sensed_vr t \<le> 0" "sensed_voltage t \<le> 0"
    and "tuning_voltage_allowed (tuning b) (nvs_overclock_enabled (power_settings s)) (nvs_asic_voltage (power_settings s))"
    and "tuning_frequency_allowed (tuning b) (nvs_overclock_enabled (power_settings s)) (nvs_asic_frequency (power_settings s))"
    and "governed_frequency s (nvs_asic_frequency (power_settings s)) = last_asic_frequency s"
  shows "\<exists>s' acts. power_iteration b t (outside_change quiet s) = Next s' \<and> asic_initialized s' \<and> \<not> is_paused s' \<and>
    frequency_value s' = nvs_asic_frequency (power_settings s) \<and>
    governed_frequency s' (nvs_asic_frequency (power_settings s)) = last_asic_frequency s \<and>
    power_actions s' = power_actions s @ acts \<and> (\<forall>f. Asic_Set_Frequency f \<notin> set acts)"
proof -
  let ?s = "outside_change quiet s" let ?c = "checked t ?s"
  let ?n = "(snd (mining_start (tuning b) True (start_chips t) ?c))\<lparr>is_paused := False, start_failures := 0\<rparr>"
  have s: "\<not> asic_initialized ?s" "\<not> power_sensor_fault ?s" "\<not> hardware_fault ?s" "is_paused ?s" "power_settings ?s = power_settings s"
    "next_start_attempt_us ?s = next_start_attempt_us s" "\<not> mining_paused ?s" "\<not> pools_down ?s" "power_actions ?s = power_actions s"
    "\<not> self_test_active ?s" "last_asic_frequency ?s = last_asic_frequency s" "filtered_input_voltage ?s = filtered_input_voltage s"
    "filtered_chip_temp ?s = filtered_chip_temp s" "filtered_vr_temp ?s = filtered_vr_temp s" "power_sensor_fault ?s = power_sensor_fault s"
    using assms(1-4) by (simp_all add: outside_quiet)
  note c = checked_stopped [OF s(1,2) assms(6)]
  have "\<not> wants_stop ?c" using c s by (simp add: wants_stop_def)
  then have "stop_or_start b t ?c = ?n"
    using s assms(7-9,12,13) by (simp add: stop_or_start_def mining_start_allowed)
  moreover have n: "\<not> is_paused ?n" "\<not> hardware_fault ?n" "asic_initialized ?n" "power_settings ?n = power_settings s" "\<not> self_test_active ?n"
    "chip_temp_avg ?n \<le> 0" "chip_temp2_avg ?n \<le> 0" "vr_temp ?n \<le> 0" "input_voltage ?n = sensed_voltage t"
    "last_asic_frequency ?n = last_asic_frequency s" "frequency_value ?n = nvs_asic_frequency (power_settings s)"
    "power_actions ?n = power_actions s @ [Vcore_Set_Voltage (f32 (f64 (u16_float (nvs_asic_voltage (power_settings s)) / 1000))), Asic_Initialize]"
    using s c assms(9,10,12,13) by (simp_all add: mining_start_allowed)
  moreover have "\<not> too_hot ?n"
    using n(6-8) by (simp add: too_hot_def MAX_TEMP_def TPS546_MAX_TEMP_def del: checked_fields)
  ultimately have run: "power_iteration b t ?s = Next (govern b t ?n)"
    using assms(5) by (simp add: power_iteration_def supervise_checked overheat_def Let_def)
  have same: "governed_frequency ?n r = governed_frequency s r" for r
    by (rule governed_cong) (use s c assms(12,13) in \<open>simp_all add: mining_start_allowed\<close>)
  have g: "frequency_value (govern b t ?n) = frequency_value ?n" "governed_frequency (govern b t ?n) r = governed_frequency ?n r"
    "\<exists>acts. power_actions (govern b t ?n) = power_actions ?n @ acts \<and> (\<forall>f. Asic_Set_Frequency f \<notin> set acts)" for r
    using govern_same_frequency [of b ?n t] filters_skip(1) [OF assms(11) n(9)] filters_skip(2) [OF n(6-8)] n(4,5,10) assms(12-14) same by auto
  from g(3) obtain acts where "power_actions (govern b t ?n) = power_actions ?n @ acts" "\<forall>f. Asic_Set_Frequency f \<notin> set acts" by blast
  with run n(11,12) g(1,2) same assms(14) n(1,3) show ?thesis
    by (intro exI [of _ "govern b t ?n"] exI [of _ "[Vcore_Set_Voltage (f32 (f64 (u16_float (nvs_asic_voltage (power_settings s)) / 1000))), Asic_Initialize] @ acts"])
      (simp add: govern_keeps)
qed

theorem throttle_lost_after_restart_witness:
  "\<exists>s'. power_iteration example_board example_tick (outside_change quiet (stopped_state\<lparr>filtered_chip_temp := 95, last_asic_frequency := 50\<rparr>)) = Next s' \<and>
     asic_initialized s' \<and> frequency_value s' = 450 \<and> governed_frequency s' 450 = 50"
proof -
  let ?s = "stopped_state\<lparr>filtered_chip_temp := 95, last_asic_frequency := 50\<rparr>"
  have "float_frequency 450" by (simp add: float_frequency_def)
  moreover have "\<lfloor>(21::rat) / 2\<rfloor> = 10" by (rule floor_unique) simp_all
  ultimately have "governed_frequency ?s 450 = 50" using governor_floor [of 450 ?s] by (simp add: round5_def roundf_def)
  then show ?thesis
    using throttle_lost_after_restart [of ?s example_tick example_board] example_allowed by (auto simp: POWER_SENSOR_STALE_READS_def)
qed

end
