(* ===== verification/Autotune.thy ===== *)
theory Autotune
  imports Power_Management
begin

text \<open>
  \<open>main/tasks/autotune_task.c\<close>: the task that raises the frequency along the presets of the chip while the error
  rate is low, and lowers it when it is not. It changes two stored settings, which the power management task reads.
\<close>

section \<open>Constants and state\<close>

definition AUTOTUNE_WARMUP_MS :: u64 where "AUTOTUNE_WARMUP_MS = 300000"
definition AUTOTUNE_CLIMB_INTERVAL_MS :: u64 where "AUTOTUNE_CLIMB_INTERVAL_MS = 600000"
definition AUTOTUNE_BACKOFF_COOLDOWN_MS :: u64 where "AUTOTUNE_BACKOFF_COOLDOWN_MS = 60000"
definition AUTOTUNE_ERROR_STABLE_THRESHOLD :: rat where "AUTOTUNE_ERROR_STABLE_THRESHOLD = 1"
definition AUTOTUNE_ERROR_UNSTABLE_THRESHOLD :: rat where "AUTOTUNE_ERROR_UNSTABLE_THRESHOLD = 3"
definition AUTOTUNE_STABLE_WINDOW_SAMPLES :: int where "AUTOTUNE_STABLE_WINDOW_SAMPLES = 3"

datatype autotune_state = AUTOTUNE_STATE_WARMUP | AUTOTUNE_STATE_CLIMBING | AUTOTUNE_STATE_BACKOFF

text \<open>The local variables of the task.\<close>

record autotune =
  at_state :: autotune_state
  state_entered_at_ms :: u64
  last_climb_at_ms :: u64
  stable_samples :: int
  was_enabled :: bool

text \<open>What an iteration reads besides the settings.\<close>

record sample =
  now_ms :: u64
  self_testing :: bool
  asic_up :: bool
  governor_active :: bool
  error_percentage :: rat

text \<open>What an iteration did, for the statements about its timing.\<close>

datatype autotune_event = Enabled | Climb rat | Drop rat

section \<open>Steps on the presets\<close>

text \<open>The presets end with a zero.\<close>

fun floor_index_loop :: "u16 list \<Rightarrow> u16 \<Rightarrow> int \<Rightarrow> int \<Rightarrow> int" where
  "floor_index_loop [] frequency i idx = idx"
| "floor_index_loop (x # xs) frequency i idx =
     (if x = 0 then idx else if x \<le> frequency then floor_index_loop xs frequency (i + 1) i else idx)"

definition find_frequency_floor_index :: "u16 list \<Rightarrow> u16 \<Rightarrow> int" where
  "find_frequency_floor_index options frequency = floor_index_loop options frequency 0 (-1)"

definition rounded_u16 :: "rat \<Rightarrow> u16" where
  "rounded_u16 f = of_int (roundf f)"

definition resume_from_persisted_frequency :: "u16 list \<Rightarrow> settings \<Rightarrow> settings" where
  "resume_from_persisted_frequency options s =
     (let ceiling = u16_float (asic_options_max (Some options)); persisted = nvs_autotune_frequency s
      in if persisted \<le> 0 then s
         else let s1 = (if persisted > ceiling then s\<lparr>nvs_autotune_frequency := ceiling\<rparr> else s);
                  persisted1 = (if persisted > ceiling then ceiling else persisted)
              in if persisted1 > nvs_asic_frequency s1 then s1\<lparr>nvs_asic_frequency := persisted1\<rparr> else s1)"

definition step_frequency_up :: "u16 list \<Rightarrow> settings \<Rightarrow> bool \<times> settings" where
  "step_frequency_up options s =
     (let idx = find_frequency_floor_index options (rounded_u16 (nvs_asic_frequency s))
      in if idx \<ge> 0 \<and> options ! nat (idx + 1) = 0 then (False, s)
         else let next_freq = u16_float (options ! nat (if idx < 0 then 0 else idx + 1))
              in (True, s\<lparr>nvs_asic_frequency := next_freq, nvs_autotune_frequency := next_freq\<rparr>))"

definition step_frequency_down :: "u16 list \<Rightarrow> settings \<Rightarrow> bool \<times> settings" where
  "step_frequency_down options s =
     (let idx = find_frequency_floor_index options (rounded_u16 (nvs_asic_frequency s))
      in if idx \<le> 0 then (False, s)
         else let prev_freq = u16_float (options ! nat (idx - 1))
              in (True, s\<lparr>nvs_asic_frequency := prev_freq, nvs_autotune_frequency := prev_freq\<rparr>))"

section \<open>The task\<close>

definition enter_warmup :: "u64 \<Rightarrow> autotune \<Rightarrow> autotune" where
  "enter_warmup now a = a\<lparr>at_state := AUTOTUNE_STATE_WARMUP, state_entered_at_ms := now, stable_samples := 0, was_enabled := True\<rparr>"

definition begin_climbing :: "u64 \<Rightarrow> autotune \<Rightarrow> autotune" where
  "begin_climbing now a = a\<lparr>at_state := AUTOTUNE_STATE_CLIMBING, last_climb_at_ms := now, stable_samples := 0\<rparr>"

definition climbing :: "u16 list \<Rightarrow> sample \<Rightarrow> autotune \<Rightarrow> settings \<Rightarrow> autotune \<times> settings \<times> autotune_event list" where
  "climbing options e a s =
     (if error_percentage e \<ge> AUTOTUNE_ERROR_UNSTABLE_THRESHOLD then
        (case step_frequency_down options s of
           (moved, s1) \<Rightarrow> (a\<lparr>at_state := AUTOTUNE_STATE_BACKOFF, state_entered_at_ms := now_ms e, stable_samples := 0\<rparr>, s1,
                          [Drop (nvs_asic_frequency s1)]))
      else
        let a1 = (if \<not> governor_active e \<and> error_percentage e < AUTOTUNE_ERROR_STABLE_THRESHOLD
                  then (if stable_samples a < AUTOTUNE_STABLE_WINDOW_SAMPLES then a\<lparr>stable_samples := stable_samples a + 1\<rparr> else a)
                  else a\<lparr>stable_samples := 0\<rparr>)
        in if stable_samples a1 \<ge> AUTOTUNE_STABLE_WINDOW_SAMPLES \<and> now_ms e - last_climb_at_ms a1 \<ge> AUTOTUNE_CLIMB_INTERVAL_MS
           then (case step_frequency_up options s of
                   (moved, s1) \<Rightarrow> ((if moved then a1\<lparr>stable_samples := 0\<rparr> else a1)\<lparr>last_climb_at_ms := now_ms e\<rparr>, s1,
                                  if moved then [Climb (nvs_asic_frequency s1)] else []))
           else (a1, s, []))"

definition autotune_iteration :: "u16 list \<Rightarrow> sample \<Rightarrow> autotune \<Rightarrow> settings \<Rightarrow> autotune \<times> settings \<times> autotune_event list" where
  "autotune_iteration options e a s =
     (if \<not> nvs_autotune_enabled s then (a\<lparr>was_enabled := False\<rparr>, s, [])
      else
        let fresh = \<not> was_enabled a;
            s1 = (if fresh then resume_from_persisted_frequency options s else s);
            a1 = (if fresh then enter_warmup (now_ms e) a else a);
            evs = (if fresh then [Enabled] else [])
        in if self_testing e \<or> \<not> asic_up e then (a1, s1, evs)
           else case at_state a1 of
                  AUTOTUNE_STATE_WARMUP \<Rightarrow>
                    ((if now_ms e - state_entered_at_ms a1 \<ge> AUTOTUNE_WARMUP_MS then begin_climbing (now_ms e) a1 else a1), s1, evs)
                | AUTOTUNE_STATE_BACKOFF \<Rightarrow>
                    ((if now_ms e - state_entered_at_ms a1 \<ge> AUTOTUNE_BACKOFF_COOLDOWN_MS then begin_climbing (now_ms e) a1 else a1), s1, evs)
                | AUTOTUNE_STATE_CLIMBING \<Rightarrow>
                    (case climbing options e a1 s1 of (a2, s2, evs2) \<Rightarrow> (a2, s2, evs @ evs2)))"

definition autotune_init :: autotune where
  "autotune_init = \<lparr>at_state = AUTOTUNE_STATE_WARMUP, state_entered_at_ms = 0, last_climb_at_ms = 0, stable_samples = 0, was_enabled = False\<rparr>"

text \<open>
  A run: before each iteration the other tasks and the user may change the settings. The trace holds the events
  with the time of their iteration.
\<close>

fun autotune_run :: "u16 list \<Rightarrow> ((settings \<Rightarrow> settings) \<times> sample) list \<Rightarrow> autotune \<Rightarrow> settings \<Rightarrow>
    autotune \<times> settings \<times> (u64 \<times> autotune_event) list" where
  "autotune_run options [] a s = (a, s, [])"
| "autotune_run options ((change, e) # es) a s =
     (case autotune_iteration options e a (change s) of (a1, s1, evs) \<Rightarrow>
      case autotune_run options es a1 s1 of (a2, s2, trace) \<Rightarrow> (a2, s2, map (\<lambda>ev. (now_ms e, ev)) evs @ trace))"

section \<open>The presets\<close>

abbreviation ladder :: "u16 list \<Rightarrow> u16 list" where
  "ladder options \<equiv> takeWhile (\<lambda>x. x \<noteq> 0) options"

lemma floor_index_loop_length:
  "floor_index_loop options f i (i - 1) = i - 1 + int (length (takeWhile (\<lambda>x. x \<le> f) (ladder options)))"
proof (induction options arbitrary: i)
  case (Cons x xs)
  from Cons.IH [of "i + 1"] show ?case by simp
qed simp

lemma floor_index: "find_frequency_floor_index options f = int (length (takeWhile (\<lambda>x. x \<le> f) (ladder options))) - 1"
  using floor_index_loop_length [of options f 0] by (simp add: find_frequency_floor_index_def)

lemma ladder_nth:
  assumes "i < length (ladder options)"
  shows "options ! i = ladder options ! i" "ladder options ! i \<noteq> 0"
  using nth_mem [OF assms] by (auto simp: takeWhile_nth [OF assms] dest: set_takeWhileD)

lemma ladder_end: "0 \<in> set options \<Longrightarrow> options ! length (ladder options) = 0"
  by (induction options) auto

lemma ladder_max: "x \<in> set (ladder options) \<Longrightarrow> x \<le> asic_options_max (Some options)"
  using asic_options_max_presets [of "Some options"] by (auto simp: presets_def)

text \<open>The number of presets that are not above a frequency, and the one after them.\<close>

definition rung :: "u16 list \<Rightarrow> u16 \<Rightarrow> nat" where
  "rung options f = length (takeWhile (\<lambda>x. x \<le> f) (ladder options))"

lemma rung_le: "rung options f \<le> length (ladder options)"
  unfolding rung_def by (rule length_takeWhile_le)

lemma step_frequency_up_rung:
  fixes s :: settings
  assumes "0 \<in> set options" "ladder options \<noteq> []"
  defines "r \<equiv> rung options (rounded_u16 (nvs_asic_frequency s))"
  shows "step_frequency_up options s =
    (if r = length (ladder options) then (False, s)
     else (True, s\<lparr>nvs_asic_frequency := u16_float (ladder options ! r), nvs_autotune_frequency := u16_float (ladder options ! r)\<rparr>))"
proof -
  have idx: "find_frequency_floor_index options (rounded_u16 (nvs_asic_frequency s)) = int r - 1"
    unfolding floor_index r_def rung_def by simp
  have "r \<le> length (ladder options)" unfolding r_def by (rule rung_le)
  then consider "r = length (ladder options)" | "r < length (ladder options)" by linarith
  then show ?thesis
  proof cases
    case 1
    then have "r \<noteq> 0" "options ! r = 0" using assms(1,2) ladder_end by simp_all
    with 1 show ?thesis by (simp add: step_frequency_up_def idx Let_def)
  next
    case 2
    with ladder_nth [OF 2] show ?thesis by (cases "r = 0") (simp_all add: step_frequency_up_def idx Let_def)
  qed
qed

lemma step_frequency_down_rung:
  fixes s :: settings and options :: "u16 list"
  defines "r \<equiv> rung options (rounded_u16 (nvs_asic_frequency s))"
  shows "step_frequency_down options s =
    (if r \<le> 1 then (False, s)
     else (True, s\<lparr>nvs_asic_frequency := u16_float (ladder options ! (r - 2)), nvs_autotune_frequency := u16_float (ladder options ! (r - 2))\<rparr>))"
proof -
  have idx: "find_frequency_floor_index options (rounded_u16 (nvs_asic_frequency s)) = int r - 1"
    unfolding floor_index r_def rung_def by simp
  have "r \<le> length (ladder options)" unfolding r_def by (rule rung_le)
  then have "options ! (r - 2) = ladder options ! (r - 2)" if "\<not> r \<le> 1" using that ladder_nth [of "r - 2" options] by simp
  moreover have "nat (int r - 2) = r - 2" by simp
  ultimately show ?thesis by (simp add: step_frequency_down_def idx Let_def)
qed

section \<open>What the task does to the settings\<close>

definition ceiling_of :: "u16 list \<Rightarrow> rat" where
  "ceiling_of options = u16_float (asic_options_max (Some options))"

lemma ladder_below_ceiling: "i < length (ladder options) \<Longrightarrow> u16_float (ladder options ! i) \<le> ceiling_of options"
  unfolding ceiling_of_def u16_float_mono by (rule ladder_max) simp

text \<open>Only the two frequencies change, and only to values up to the highest preset.\<close>

definition tuned :: "u16 list \<Rightarrow> settings \<Rightarrow> settings \<Rightarrow> bool" where
  "tuned options s s' \<longleftrightarrow>
     s' = s\<lparr>nvs_asic_frequency := nvs_asic_frequency s', nvs_autotune_frequency := nvs_autotune_frequency s'\<rparr> \<and>
     (nvs_asic_frequency s' = nvs_asic_frequency s \<or> nvs_asic_frequency s' \<le> ceiling_of options)"

lemma tuned_refl [simp]: "tuned options s s"
  by (simp add: tuned_def)

lemma tuned_trans: "tuned options s s1 \<Longrightarrow> tuned options s1 s2 \<Longrightarrow> tuned options s s2"
  unfolding tuned_def by (cases s; cases s1; cases s2) auto

lemma resume_tuned: "tuned options s (resume_from_persisted_frequency options s)"
  by (auto simp: tuned_def resume_from_persisted_frequency_def ceiling_of_def Let_def)

lemma step_up_tuned: "0 \<in> set options \<Longrightarrow> ladder options \<noteq> [] \<Longrightarrow> tuned options s (snd (step_frequency_up options s))"
  using rung_le [of options "rounded_u16 (nvs_asic_frequency s)"] by (simp add: step_frequency_up_rung tuned_def ladder_below_ceiling)

lemma step_down_tuned: "tuned options s (snd (step_frequency_down options s))"
  using rung_le [of options "rounded_u16 (nvs_asic_frequency s)"] by (simp add: step_frequency_down_rung tuned_def ladder_below_ceiling)

lemma climbing_tuned:
  "0 \<in> set options \<Longrightarrow> ladder options \<noteq> [] \<Longrightarrow> tuned options s (fst (snd (climbing options e a s)))"
  using step_up_tuned [of options s] step_down_tuned [of options s] by (simp add: climbing_def Let_def case_prod_beta)

lemma iteration_tuned:
  assumes "0 \<in> set options" "ladder options \<noteq> []"
  shows "tuned options s (fst (snd (autotune_iteration options e a s)))"
  by (simp add: autotune_iteration_def enter_warmup_def Let_def case_prod_beta resume_tuned climbing_tuned [OF assms] split: autotune_state.split)

section \<open>Timing\<close>

text \<open>
  What is known of the variables after the events of a trace, in milliseconds. A warm-up began after every event.
  While climbing, the time of the last climb is not before any climb, at least a cool-down after any drop, and at
  least a warm-up after the task was enabled. A back-off began after every event, and a warm-up after the task
  was enabled.
\<close>

fun gap :: "autotune_event \<Rightarrow> nat" where
  "gap Enabled = 300000" | "gap (Climb f) = 0" | "gap (Drop f) = 60000"

fun backoff_gap :: "autotune_event \<Rightarrow> nat" where
  "backoff_gap Enabled = 300000" | "backoff_gap (Climb f) = 0" | "backoff_gap (Drop f) = 0"

definition timing :: "(u64 \<times> autotune_event) list \<Rightarrow> u64 \<Rightarrow> autotune \<Rightarrow> bool" where
  "timing trace now a \<longleftrightarrow>
     (\<forall>(u, ev) \<in> set trace. u \<le> now) \<and> state_entered_at_ms a \<le> now \<and> last_climb_at_ms a \<le> now \<and>
     (was_enabled a \<longrightarrow>
       (case at_state a of
          AUTOTUNE_STATE_WARMUP \<Rightarrow> \<forall>(u, ev) \<in> set trace. u \<le> state_entered_at_ms a
        | AUTOTUNE_STATE_CLIMBING \<Rightarrow> \<forall>(u, ev) \<in> set trace. unat u + gap ev \<le> unat (last_climb_at_ms a)
        | AUTOTUNE_STATE_BACKOFF \<Rightarrow> \<forall>(u, ev) \<in> set trace. unat u + backoff_gap ev \<le> unat (state_entered_at_ms a)))"

text \<open>A climb comes ten minutes after these.\<close>

definition spaced :: "(u64 \<times> autotune_event) list \<Rightarrow> u64 \<Rightarrow> autotune_event list \<Rightarrow> bool" where
  "spaced trace now evs \<longleftrightarrow>
     (\<forall>f. Climb f \<in> set evs \<longrightarrow> (\<forall>(u, ev) \<in> set trace. unat u + gap ev + 600000 \<le> unat now))"

lemma gap_backoff: "gap ev \<le> backoff_gap ev + 60000" "backoff_gap ev \<le> gap ev" "backoff_gap ev \<le> 300000" "gap ev \<le> 300000"
  by (cases ev; simp)+

lemma elapsed: "(a :: u64) \<le> b \<Longrightarrow> k \<le> b - a \<longleftrightarrow> unat a + unat k \<le> unat b"
  by (simp add: word_le_nat_alt unat_sub) arith

lemma begin_climbing_timing:
  assumes "timing trace t a" "t \<le> now" "was_enabled a"
    and "at_state a = AUTOTUNE_STATE_WARMUP \<and> AUTOTUNE_WARMUP_MS \<le> now - state_entered_at_ms a \<or>
         at_state a = AUTOTUNE_STATE_BACKOFF \<and> AUTOTUNE_BACKOFF_COOLDOWN_MS \<le> now - state_entered_at_ms a"
  shows "timing trace now (begin_climbing now a)"
proof -
  have le: "state_entered_at_ms a \<le> now" using assms(1,2) by (auto simp: timing_def)
  have "unat u + gap ev \<le> unat now" if "(u, ev) \<in> set trace" for u ev
  proof -
    from assms(4) show ?thesis
    proof (elim disjE conjE)
      assume st: "at_state a = AUTOTUNE_STATE_WARMUP" and "AUTOTUNE_WARMUP_MS \<le> now - state_entered_at_ms a"
      then have "unat (state_entered_at_ms a) + 300000 \<le> unat now" by (simp add: elapsed [OF le] AUTOTUNE_WARMUP_MS_def)
      moreover have "u \<le> state_entered_at_ms a" using assms(1,3) st that by (auto simp: timing_def)
      ultimately show ?thesis using gap_backoff(4) [of ev] by (simp add: word_le_nat_alt)
    next
      assume st: "at_state a = AUTOTUNE_STATE_BACKOFF" and "AUTOTUNE_BACKOFF_COOLDOWN_MS \<le> now - state_entered_at_ms a"
      then have "unat (state_entered_at_ms a) + 60000 \<le> unat now" by (simp add: elapsed [OF le] AUTOTUNE_BACKOFF_COOLDOWN_MS_def)
      moreover have "unat u + backoff_gap ev \<le> unat (state_entered_at_ms a)" using assms(1,3) st that by (auto simp: timing_def)
      ultimately show ?thesis using gap_backoff(1) [of ev] by simp
    qed
  qed
  then show ?thesis using assms(1,2) le by (auto simp: timing_def begin_climbing_def)
qed

lemma timing_later: "timing trace t a \<Longrightarrow> t \<le> now \<Longrightarrow> timing trace now a"
  by (auto simp: timing_def)

lemma timing_samples [simp]: "timing trace now (a\<lparr>stable_samples := n\<rparr>) = timing trace now a"
  by (cases "at_state a") (simp_all add: timing_def)

lemma enter_warmup_timing: "timing trace t a \<Longrightarrow> t \<le> now \<Longrightarrow> timing (trace @ [(now, Enabled)]) now (enter_warmup now a)"
  by (auto simp: timing_def enter_warmup_def)

lemma climbing_timing:
  assumes "timing trace (now_ms e) a" "was_enabled a" "at_state a = AUTOTUNE_STATE_CLIMBING" "climbing options e a s = (a', s', evs)"
  shows "spaced trace (now_ms e) evs \<and> timing (trace @ map (\<lambda>ev. (now_ms e, ev)) evs) (now_ms e) a'"
proof -
  let ?now = "now_ms e"
  have le: "last_climb_at_ms a \<le> ?now" "state_entered_at_ms a \<le> ?now" and old: "\<forall>(u, ev) \<in> set trace. u \<le> ?now"
    and gaps: "\<forall>(u, ev) \<in> set trace. unat u + gap ev \<le> unat (last_climb_at_ms a)"
    using assms(1-3) by (auto simp: timing_def)
  have nows: "\<forall>(u, ev) \<in> set trace. unat u + gap ev \<le> unat ?now" using gaps le(1) by (fastforce simp: word_le_nat_alt)
  show ?thesis
  proof (cases "error_percentage e \<ge> AUTOTUNE_ERROR_UNSTABLE_THRESHOLD")
    case True
    then have r: "a' = a\<lparr>at_state := AUTOTUNE_STATE_BACKOFF, state_entered_at_ms := ?now, stable_samples := 0\<rparr>" "evs = [Drop (nvs_asic_frequency s')]"
      using assms(4) by (auto simp: climbing_def case_prod_beta)
    have "unat u + backoff_gap ev \<le> unat ?now" if "(u, ev) \<in> set trace" for u ev
      using nows that gap_backoff(2) [of ev] by fastforce
    then show ?thesis unfolding r using le old by (auto simp: spaced_def timing_def)
  next
    case False
    define a1 where "a1 = (if \<not> governor_active e \<and> error_percentage e < AUTOTUNE_ERROR_STABLE_THRESHOLD
      then (if stable_samples a < AUTOTUNE_STABLE_WINDOW_SAMPLES then a\<lparr>stable_samples := stable_samples a + 1\<rparr> else a) else a\<lparr>stable_samples := 0\<rparr>)"
    have a1: "last_climb_at_ms a1 = last_climb_at_ms a" "at_state a1 = AUTOTUNE_STATE_CLIMBING" "state_entered_at_ms a1 = state_entered_at_ms a"
      "timing trace ?now a1" using assms(1,3) by (simp_all add: a1_def)
    show ?thesis
    proof (cases "stable_samples a1 \<ge> AUTOTUNE_STABLE_WINDOW_SAMPLES \<and> ?now - last_climb_at_ms a1 \<ge> AUTOTUNE_CLIMB_INTERVAL_MS")
      case True
      then have far: "unat (last_climb_at_ms a) + 600000 \<le> unat ?now" by (simp add: elapsed [OF le(1)] AUTOTUNE_CLIMB_INTERVAL_MS_def a1(1))
      obtain moved s1 where up: "step_frequency_up options s = (moved, s1)" by (cases "step_frequency_up options s")
      have r: "a' = (if moved then a1\<lparr>stable_samples := 0\<rparr> else a1)\<lparr>last_climb_at_ms := ?now\<rparr>"
        "evs = (if moved then [Climb (nvs_asic_frequency s1)] else [])"
        using assms(4) False True up by (auto simp: climbing_def a1_def [symmetric] Let_def)
      have "unat u + gap ev + 600000 \<le> unat ?now" if "(u, ev) \<in> set trace" for u ev using gaps that far by fastforce
      then have "spaced trace ?now evs" by (auto simp: spaced_def)
      moreover have "timing (trace @ map (\<lambda>ev. (?now, ev)) evs) ?now a'"
        unfolding r using a1 le old nows by (auto simp: timing_def)
      ultimately show ?thesis by blast
    next
      case none: False
      then have "a' = a1" "evs = []" using assms(4) False by (auto simp: climbing_def a1_def [symmetric] Let_def)
      then show ?thesis using a1(4) by (simp add: spaced_def)
    qed
  qed
qed

lemma iteration_timing:
  assumes "timing trace t a" "t \<le> now_ms e" "autotune_iteration options e a s = (a', s', evs)"
  shows "spaced trace (now_ms e) evs \<and> timing (trace @ map (\<lambda>ev. (now_ms e, ev)) evs) (now_ms e) a'"
proof -
  note later = timing_later [OF assms(1,2)]
  consider "\<not> nvs_autotune_enabled s" | "nvs_autotune_enabled s" "\<not> was_enabled a" | "nvs_autotune_enabled s" "was_enabled a" "self_testing e \<or> \<not> asic_up e"
    | "nvs_autotune_enabled s" "was_enabled a" "\<not> self_testing e" "asic_up e" "at_state a \<noteq> AUTOTUNE_STATE_CLIMBING"
    | "nvs_autotune_enabled s" "was_enabled a" "\<not> self_testing e" "asic_up e" "at_state a = AUTOTUNE_STATE_CLIMBING" by blast
  then show ?thesis
  proof cases
    case 1
    then have "a' = a\<lparr>was_enabled := False\<rparr>" "evs = []" using assms(3) by (simp_all add: autotune_iteration_def)
    then show ?thesis using later by (simp add: spaced_def timing_def)
  next
    case 2
    then have "a' = enter_warmup (now_ms e) a" "evs = [Enabled]"
      using assms(3) by (auto simp: autotune_iteration_def enter_warmup_def AUTOTUNE_WARMUP_MS_def Let_def split: if_splits)
    then show ?thesis using enter_warmup_timing [OF assms(1,2)] by (simp add: spaced_def)
  next
    case 3
    then have "a' = a" "evs = []" using assms(3) by (simp_all add: autotune_iteration_def)
    then show ?thesis using later by (simp add: spaced_def)
  next
    case 4
    then have "evs = []" "a' = a \<or> a' = begin_climbing (now_ms e) a \<and> timing trace (now_ms e) (begin_climbing (now_ms e) a)"
      using assms(3) begin_climbing_timing [OF assms(1,2)]
      by (auto simp: autotune_iteration_def Let_def split: autotune_state.splits if_splits)
    then show ?thesis using later by (auto simp: spaced_def)
  next
    case 5
    then have "climbing options e a s = (a', s', evs)" using assms(3) by (simp add: autotune_iteration_def case_prod_beta Let_def)
    from climbing_timing [OF later 5(2,5) this] show ?thesis .
  qed
qed

section \<open>Runs\<close>

lemma climbing_one_event: "climbing options e a s = (a', s', evs) \<Longrightarrow> length evs \<le> 1"
  by (auto simp: climbing_def Let_def case_prod_beta split: if_splits)

lemma iteration_one_event:
  assumes "autotune_iteration options e a s = (a', s', evs)"
  shows "length evs \<le> 1"
proof (cases "was_enabled a")
  case True
  then show ?thesis using assms climbing_one_event [of options e a s]
    by (auto simp: autotune_iteration_def Let_def case_prod_beta split: if_splits autotune_state.splits)
next
  case False
  then show ?thesis using assms by (auto simp: autotune_iteration_def enter_warmup_def AUTOTUNE_WARMUP_MS_def Let_def split: if_splits)
qed

lemma run_timing:
  assumes "timing trace t a" "sorted (map (\<lambda>x. now_ms (snd x)) es)" "\<forall>x \<in> set es. t \<le> now_ms (snd x)"
    and "autotune_run options es a s = (a', s', later)" "later = xs @ (u, Climb f) # ys" "(v, ev) \<in> set (trace @ xs)"
  shows "unat v + gap ev + 600000 \<le> unat u"
  using assms
proof (induction es arbitrary: trace t a s xs later)
  case (Cons x es)
  obtain change e where x: "x = (change, e)" by (cases x)
  obtain a1 s1 evs where it: "autotune_iteration options e a (change s) = (a1, s1, evs)" by (cases "autotune_iteration options e a (change s)") auto
  obtain a2 s2 rest where run: "autotune_run options es a1 s1 = (a2, s2, rest)" by (cases "autotune_run options es a1 s1") auto
  let ?evs = "map (\<lambda>ev. (now_ms e, ev)) evs"
  have "t \<le> now_ms e" using Cons.prems(3) x by simp
  from iteration_timing [OF Cons.prems(1) this it]
  have sp: "spaced trace (now_ms e) evs" and tm: "timing (trace @ ?evs) (now_ms e) a1" by simp_all
  have all: "later = ?evs @ rest" "a2 = a'" "s2 = s'" using Cons.prems(4) x it run by simp_all
  then have "?evs @ rest = xs @ (u, Climb f) # ys" using Cons.prems(5) by simp
  then consider (now) us where "?evs = xs @ (u, Climb f) # us" | (rest) us where "xs = ?evs @ us" "rest = us @ (u, Climb f) # ys"
    by (auto simp: append_eq_append_conv2 append_eq_Cons_conv)
  then show ?case
  proof cases
    case now
    then have "xs = []" "(u, Climb f) \<in> set ?evs" using iteration_one_event [OF it] by (cases xs; auto dest: arg_cong [of _ _ length])+
    then show ?thesis using Cons.prems(6) sp by (fastforce simp: spaced_def)
  next
    case rest
    have "sorted (map (\<lambda>x. now_ms (snd x)) es)" "\<forall>x \<in> set es. now_ms e \<le> now_ms (snd x)"
      using Cons.prems(2) x by auto
    from Cons.IH [OF tm this run [unfolded all(2,3)] rest(2)] Cons.prems(6) rest(1) show ?thesis by simp
  qed
qed simp

text \<open>
  C29. In every run of the task, whatever the other tasks and the user change meanwhile, a climb comes at least ten
  minutes after the climb before it, eleven minutes after the last step down, and fifteen minutes after the task was
  enabled, as long as the clock does not go back.
\<close>

theorem autotune_climbs_spaced:
  assumes "sorted (map (\<lambda>x. now_ms (snd x)) es)" "autotune_run options es autotune_init s = (a', s', xs @ (u, Climb f) # ys)"
    and "(v, ev) \<in> set xs"
  shows "unat v + (case ev of Enabled \<Rightarrow> 900000 | Drop f \<Rightarrow> 660000 | Climb f \<Rightarrow> 600000) \<le> unat u"
proof -
  have "timing [] 0 autotune_init" by (simp add: timing_def autotune_init_def)
  from run_timing [OF this assms(1) _ assms(2) refl] assms(3) have "unat v + gap ev + 600000 \<le> unat u" by simp
  then show ?thesis by (cases ev) simp_all
qed

definition example_samples :: "((settings \<Rightarrow> settings) \<times> sample) list" where
  "example_samples = map (\<lambda>t. (\<lambda>s. s, \<lparr>now_ms = t, self_testing = False, asic_up = True, governor_active = False, error_percentage = 1/2\<rparr>))
     [1000, 301000, 899000, 900000, 901000]"

lemma example_autotune_run:
  "autotune_run [400, 450, 0] example_samples autotune_init
     (example_settings\<lparr>nvs_asic_frequency := 400, nvs_autotune_enabled := True\<rparr>) =
   (autotune_init\<lparr>at_state := AUTOTUNE_STATE_CLIMBING, state_entered_at_ms := 1000, last_climb_at_ms := 901000, was_enabled := True\<rparr>,
    example_settings\<lparr>nvs_asic_frequency := 450, nvs_autotune_enabled := True, nvs_autotune_frequency := 450\<rparr>,
    [(1000, Enabled)] @ (901000, Climb 450) # [])"
proof -
  have "roundf 400 = 400" unfolding roundf_def by (simp, rule floor_unique) simp_all
  then have up: "step_frequency_up [400, 450, 0] s = (True, s\<lparr>nvs_asic_frequency := 450, nvs_autotune_frequency := 450\<rparr>)"
    if "nvs_asic_frequency s = 400" for s
    using that by (simp add: step_frequency_up_def find_frequency_floor_index_def rounded_u16_def u16_float_def Let_def)
  show ?thesis
    by (simp add: example_samples_def autotune_iteration_def enter_warmup_def begin_climbing_def climbing_def up autotune_init_def
        resume_from_persisted_frequency_def example_settings_def AUTOTUNE_WARMUP_MS_def AUTOTUNE_CLIMB_INTERVAL_MS_def
        AUTOTUNE_ERROR_UNSTABLE_THRESHOLD_def AUTOTUNE_ERROR_STABLE_THRESHOLD_def AUTOTUNE_STABLE_WINDOW_SAMPLES_def Let_def)
qed

theorem autotune_climbs_spaced_witness: "unat (1000 :: u64) + 900000 \<le> unat (901000 :: u64)"
  using autotune_climbs_spaced [OF _ example_autotune_run, of 1000 Enabled] by (simp add: example_samples_def)

section \<open>One iteration\<close>

text \<open>The next preset up and down, when the presets ascend.\<close>

lemma sorted_split:
  assumes "sorted_wrt (<) (xs :: u16 list)" "i < length xs"
  shows "x < xs ! i \<Longrightarrow> i < length (takeWhile (\<lambda>y. y \<le> x) xs) \<Longrightarrow> False"
    and "i < length (takeWhile (\<lambda>y. y \<le> x) xs) \<Longrightarrow> xs ! i \<le> x"
    and "length (takeWhile (\<lambda>y. y \<le> x) xs) \<le> i \<Longrightarrow> x < xs ! i"
proof -
  show below: "i < length (takeWhile (\<lambda>y. y \<le> x) xs) \<Longrightarrow> xs ! i \<le> x"
    using nth_mem [of i "takeWhile (\<lambda>y. y \<le> x) xs"] by (auto simp: takeWhile_nth dest: set_takeWhileD)
  then show "x < xs ! i \<Longrightarrow> i < length (takeWhile (\<lambda>y. y \<le> x) xs) \<Longrightarrow> False" by simp
  let ?n = "length (takeWhile (\<lambda>y. y \<le> x) xs)"
  assume le: "?n \<le> i"
  then have "x < xs ! ?n" using assms(2) nth_length_takeWhile [of "\<lambda>y. y \<le> x" xs] by simp
  moreover have "xs ! ?n \<le> xs ! i" using assms le by (cases "?n = i") (auto simp: sorted_wrt_nth_less order.strict_implies_order)
  ultimately show "x < xs ! i" by simp
qed

lemma rung_above:
  assumes "sorted_wrt (<) (ladder options)" "rung options x < length (ladder options)" "q \<in> set (ladder options)" "x < q"
  shows "ladder options ! rung options x \<le> q"
proof -
  from assms(3) obtain j where j: "j < length (ladder options)" "q = ladder options ! j" by (auto simp: in_set_conv_nth)
  then have "rung options x \<le> j" using sorted_split(2) [OF assms(1) j(1), of x] assms(4) by (fastforce simp: rung_def)
  then show ?thesis using assms(1) j by (cases "rung options x = j") (auto simp: sorted_wrt_nth_less order.strict_implies_order)
qed

lemma rung_gt:
  "sorted_wrt (<) (ladder options) \<Longrightarrow> rung options x < length (ladder options) \<Longrightarrow> x < ladder options ! rung options x"
  using sorted_split(3) [of "ladder options" "rung options x" x] by (simp add: rung_def)

lemma step_up_next:
  assumes "0 \<in> set options" "ladder options \<noteq> []" "sorted_wrt (<) (ladder options)" "step_frequency_up options s = (True, s')"
  shows "\<exists>p \<in> set (ladder options). nvs_asic_frequency s' = u16_float p \<and> rounded_u16 (nvs_asic_frequency s) < p \<and>
    (\<forall>q \<in> set (ladder options). rounded_u16 (nvs_asic_frequency s) < q \<longrightarrow> p \<le> q)"
proof -
  let ?x = "rounded_u16 (nvs_asic_frequency s)"
  have r: "rung options ?x < length (ladder options)" "nvs_asic_frequency s' = u16_float (ladder options ! rung options ?x)"
    using assms(4) rung_le [of options ?x] by (auto simp: step_frequency_up_rung [OF assms(1,2)] split: if_splits)
  then show ?thesis using rung_gt [OF assms(3) r(1)] rung_above [OF assms(3) r(1)] nth_mem [OF r(1)] by blast
qed

lemma step_down_previous:
  assumes "sorted_wrt (<) (ladder options)" "step_frequency_down options s = (moved, s')"
  shows "if moved then \<exists>i. Suc i < length (ladder options) \<and> nvs_asic_frequency s' = u16_float (ladder options ! i) \<and>
      ladder options ! Suc i \<le> rounded_u16 (nvs_asic_frequency s) \<and>
      (\<forall>q \<in> set (ladder options). q \<le> rounded_u16 (nvs_asic_frequency s) \<longrightarrow> q \<le> ladder options ! Suc i)
    else s' = s"
proof (cases "rung options (rounded_u16 (nvs_asic_frequency s)) \<le> 1")
  case True
  then show ?thesis using assms(2) by (simp add: step_frequency_down_rung)
next
  case False
  let ?x = "rounded_u16 (nvs_asic_frequency s)"
  obtain i where i: "rung options ?x = Suc (Suc i)" using False by (metis One_nat_def Suc_leI Suc_le_mono le0 nat.exhaust not_less_eq_eq)
  have len: "Suc i < length (ladder options)" using rung_le [of options ?x] i by simp
  have "q \<le> ladder options ! Suc i" if q: "q \<in> set (ladder options)" "q \<le> ?x" for q
  proof -
    from q(1) obtain j where j: "j < length (ladder options)" "q = ladder options ! j" by (auto simp: in_set_conv_nth)
    then have "j < Suc (Suc i)" using sorted_split(3) [OF assms(1) j(1), of ?x] q(2) i by (fastforce simp: rung_def)
    then show ?thesis using assms(1) len j by (cases "j = Suc i") (auto simp: sorted_wrt_nth_less order.strict_implies_order)
  qed
  moreover have "ladder options ! Suc i \<le> ?x" using sorted_split(2) [OF assms(1) len, of ?x] i by (simp add: rung_def)
  ultimately show ?thesis using assms(2) i len by (auto simp: step_frequency_down_rung)
qed

lemma iteration_events:
  assumes "autotune_iteration options e a s = (a', s', evs)" "Climb f \<in> set evs \<or> Drop f \<in> set evs"
  shows "climbing options e a s = (a', s', evs)"
proof (cases "nvs_autotune_enabled s \<and> was_enabled a")
  case True
  then show ?thesis using assms
    by (auto simp: autotune_iteration_def Let_def case_prod_beta split: if_splits autotune_state.splits)
next
  case False
  then have False using assms by (auto simp: autotune_iteration_def enter_warmup_def AUTOTUNE_WARMUP_MS_def Let_def split: if_splits)
  then show ?thesis ..
qed

text \<open>
  An iteration of the autotune task changes no setting but the two frequencies, and sets neither the running
  frequency above the highest preset. It climbs only while neither governor is active and the error rate is below
  one percent, to the least preset above the current frequency; it steps down only at an error rate of three percent
  or more, to the preset below the one in use, or stays where it is on the lowest.
\<close>

theorem autotune_step:
  assumes "0 \<in> set options" "ladder options \<noteq> []" "sorted_wrt (<) (ladder options)"
    and "autotune_iteration options e a s = (a', s', evs)"
  shows "tuned options s s' \<and>
    (\<forall>f. Climb f \<in> set evs \<longrightarrow> \<not> governor_active e \<and> error_percentage e < 1 \<and> nvs_asic_frequency s' = f \<and>
      (\<exists>p \<in> set (ladder options). f = u16_float p \<and> rounded_u16 (nvs_asic_frequency s) < p \<and>
        (\<forall>q \<in> set (ladder options). rounded_u16 (nvs_asic_frequency s) < q \<longrightarrow> p \<le> q))) \<and>
    (\<forall>f. Drop f \<in> set evs \<longrightarrow> error_percentage e \<ge> 3 \<and> nvs_asic_frequency s' = f \<and>
      (s' = s \<or> (\<exists>i. Suc i < length (ladder options) \<and> f = u16_float (ladder options ! i) \<and>
        ladder options ! Suc i \<le> rounded_u16 (nvs_asic_frequency s) \<and>
        (\<forall>q \<in> set (ladder options). q \<le> rounded_u16 (nvs_asic_frequency s) \<longrightarrow> q \<le> ladder options ! Suc i))))"
proof (intro conjI allI impI)
  show "tuned options s s'" using iteration_tuned [OF assms(1,2), of s e a] assms(4) by simp
next
  fix f assume f: "Climb f \<in> set evs"
  note c = iteration_events [OF assms(4) disjI1 [OF f]]
  have low: "\<not> error_percentage e \<ge> AUTOTUNE_ERROR_UNSTABLE_THRESHOLD" using c f by (auto simp: climbing_def case_prod_beta)
  then have up: "step_frequency_up options s = (True, s')" "f = nvs_asic_frequency s'"
    using c f by (auto simp: climbing_def Let_def case_prod_beta prod_eq_iff split: if_splits)
  have "\<not> governor_active e \<and> error_percentage e < AUTOTUNE_ERROR_STABLE_THRESHOLD"
    using c f low by (auto simp: climbing_def Let_def case_prod_beta AUTOTUNE_STABLE_WINDOW_SAMPLES_def split: if_splits)
  then show "\<not> governor_active e" "error_percentage e < 1" by (simp_all add: AUTOTUNE_ERROR_STABLE_THRESHOLD_def)
  show "nvs_asic_frequency s' = f" using up by simp
  show "\<exists>p \<in> set (ladder options). f = u16_float p \<and> rounded_u16 (nvs_asic_frequency s) < p \<and>
      (\<forall>q \<in> set (ladder options). rounded_u16 (nvs_asic_frequency s) < q \<longrightarrow> p \<le> q)"
    unfolding up(2) by (rule step_up_next [OF assms(1-3) up(1)])
next
  fix f assume f: "Drop f \<in> set evs"
  note c = iteration_events [OF assms(4) disjI2 [OF f]]
  have high: "error_percentage e \<ge> AUTOTUNE_ERROR_UNSTABLE_THRESHOLD" using c f by (auto simp: climbing_def Let_def case_prod_beta split: if_splits)
  then show "error_percentage e \<ge> 3" by (simp add: AUTOTUNE_ERROR_UNSTABLE_THRESHOLD_def)
  obtain moved where down: "step_frequency_down options s = (moved, s')" "f = nvs_asic_frequency s'"
    using c f high by (auto simp: climbing_def case_prod_beta prod_eq_iff)
  then show "nvs_asic_frequency s' = f" by simp
  show "s' = s \<or> (\<exists>i. Suc i < length (ladder options) \<and> f = u16_float (ladder options ! i) \<and>
      ladder options ! Suc i \<le> rounded_u16 (nvs_asic_frequency s) \<and>
      (\<forall>q \<in> set (ladder options). q \<le> rounded_u16 (nvs_asic_frequency s) \<longrightarrow> q \<le> ladder options ! Suc i))"
    using step_down_previous [OF assms(3) down(1)] unfolding down(2) by (cases moved) auto
qed

theorem autotune_step_witness:
  "\<exists>a' s'. autotune_iteration [400, 450, 0] \<lparr>now_ms = 9000000, self_testing = False, asic_up = True, governor_active = False, error_percentage = 4\<rparr>
       (autotune_init\<lparr>at_state := AUTOTUNE_STATE_CLIMBING, was_enabled := True\<rparr>)
       (example_settings\<lparr>nvs_asic_frequency := 450, nvs_autotune_enabled := True\<rparr>) = (a', s', [Drop 400]) \<and>
     nvs_asic_frequency s' = 400"
proof -
  let ?e = "\<lparr>now_ms = 9000000, self_testing = False, asic_up = True, governor_active = False, error_percentage = 4 :: rat\<rparr>"
    and ?a = "autotune_init\<lparr>at_state := AUTOTUNE_STATE_CLIMBING, was_enabled := True\<rparr>"
    and ?s = "example_settings\<lparr>nvs_asic_frequency := 450, nvs_autotune_enabled := True\<rparr>"
  have "roundf 450 = 450" unfolding roundf_def by (simp, rule floor_unique) simp_all
  then have "step_frequency_down [400, 450, 0] ?s = (True, ?s\<lparr>nvs_asic_frequency := 400, nvs_autotune_frequency := 400\<rparr>)"
    by (simp add: step_frequency_down_def find_frequency_floor_index_def rounded_u16_def u16_float_def Let_def)
  then obtain a' s' where it: "autotune_iteration [400, 450, 0] ?e ?a ?s = (a', s', [Drop 400])"
    by (simp add: autotune_iteration_def climbing_def autotune_init_def example_settings_def AUTOTUNE_ERROR_UNSTABLE_THRESHOLD_def)
  from autotune_step [OF _ _ _ it] have "nvs_asic_frequency s' = 400" by simp
  with it show ?thesis by blast
qed

section \<open>What the code does not mean to do\<close>

lemma rounding_exact: "\<bar>n\<bar> < 2 ^ 24 \<Longrightarrow> f32 (of_int n) = of_int n" "\<bar>n\<bar> < 2 ^ 24 \<Longrightarrow> f64 (of_int n) = of_int n"
  using rnd_int [of n 24] rnd_int [of n 53] by (simp_all add: f32_def f64_def)

lemma reduced_preset:
  assumes "100 < (x :: u16)"
  shows "reduced_frequency (u16_float x) = u16_float x - 100"
proof -
  have x: "unat x < 2 ^ 16" "100 < unat x" using unsigned_less [of x] assms by (simp_all add: word_less_nat_alt)
  have "u16_float x - 100 = of_int (int (unat x) - 100)" by (simp add: u16_float_def)
  moreover have "\<bar>int n - 100\<bar> < 2 ^ 24" if "n < 2 ^ 16" "100 < n" for n using that by simp
  note this [OF x]
  ultimately have "f32 (f64 (u16_float x - 100)) = u16_float x - 100" by (simp only: rounding_exact)
  moreover have "(100 :: rat) < u16_float x" using assms u16_float_mono [of x 100] by (simp add: u16_float_def not_le [symmetric])
  ultimately show ?thesis by (simp add: reduced_frequency_def ASIC_REDUCTION_def)
qed

text \<open>
  Overheating at a preset lowers the stored frequency by 100 MHz, but the frequency the autotune task keeps is the
  preset, stored at the climb to it and not at its confirmation: once the task starts again, as after a restart of
  the device, it puts the frequency at which the chip overheated back in its first iteration.
\<close>

theorem overheat_reduction_undone:
  assumes "x \<in> set (ladder options)" "100 < x" "nvs_autotune_frequency (power_settings s) = u16_float x" "nvs_autotune_enabled (power_settings s)"
    and "tuning_frequency_allowed (tuning b) (nvs_overclock_enabled (power_settings s)) (u16_float x - 100)" "\<not> was_enabled a"
  shows "let s1 = power_settings (overheat_restart b t mv (u16_float x) s) in
    nvs_asic_frequency s1 = u16_float x - 100 \<and> nvs_asic_frequency (fst (snd (autotune_iteration options e a s1))) = u16_float x"
proof -
  let ?s1 = "power_settings (overheat_restart b t mv (u16_float x) s)"
  have "nvs_asic_frequency ?s1 = u16_float x - 100 \<and> nvs_autotune_frequency ?s1 = u16_float x \<and> nvs_autotune_enabled ?s1"
    using assms(3-5) by (simp add: overheat_restart_def mining_start_def POWER_MANAGEMENT_init_frequency_def command_def case_prod_beta
        reduced_preset [OF assms(2)] clamp_allowed(2) tuning_clamp_voltage_def Let_def)
  then have s1: "nvs_asic_frequency ?s1 = u16_float x - 100" "nvs_autotune_frequency ?s1 = u16_float x" "nvs_autotune_enabled ?s1" by simp_all
  have "x \<le> asic_options_max (Some options)" using assms(1) by (rule ladder_max)
  then have "u16_float x \<le> u16_float (asic_options_max (Some options))" by (simp add: u16_float_mono)
  moreover have "0 < unat x" using assms(2) by (simp add: word_less_nat_alt)
  then have "0 < u16_float x" unfolding u16_float_def by (simp only: of_nat_0_less_iff)
  ultimately have "nvs_asic_frequency (resume_from_persisted_frequency options ?s1) = u16_float x"
    using s1 by (simp add: resume_from_persisted_frequency_def Let_def)
  then have "nvs_asic_frequency (fst (snd (autotune_iteration options e a ?s1))) = u16_float x"
    using s1(3) assms(6) by (simp add: autotune_iteration_def enter_warmup_def AUTOTUNE_WARMUP_MS_def Let_def)
  with s1(1) show ?thesis by (simp add: Let_def)
qed

definition hot_board :: board where
  "hot_board = example_board\<lparr>tuning := (tuning example_board)\<lparr>frequency_options := Some [400, 450, 550, 0]\<rparr>\<rparr>"

definition tuned_state :: power_state where
  "tuned_state = example_power_state\<lparr>power_settings := example_settings\<lparr>nvs_autotune_enabled := True, nvs_autotune_frequency := 550\<rparr>\<rparr>"

theorem overheat_reduction_undone_witness:
  "\<forall>e. let s1 = power_settings (overheat_restart hot_board example_tick 1150 550 tuned_state) in
     nvs_asic_frequency s1 = 450 \<and> nvs_asic_frequency (fst (snd (autotune_iteration [400, 450, 550, 0] e autotune_init s1))) = 550"
proof -
  have allowed: "tuning_frequency_allowed (tuning hot_board) (nvs_overclock_enabled (power_settings tuned_state)) (u16_float 550 - 100)"
    by (simp add: hot_board_def tuned_state_def example_board_def example_settings_def tuning_frequency_allowed_def
        tuning_frequency_range_def asic_tuning_range_def u16_float_def asic_options_min_def asic_options_max_def Let_def)
  have "nvs_autotune_frequency (power_settings tuned_state) = u16_float 550" "nvs_autotune_enabled (power_settings tuned_state)"
    "\<not> was_enabled autotune_init"
    by (simp_all add: tuned_state_def autotune_init_def u16_float_def)
  from overheat_reduction_undone [OF _ _ this(1,2) allowed this(3), of "[400, 450, 550, 0]"] show ?thesis
    by (intro allI) (simp add: u16_float_def Let_def)
qed

end
