(* ===== verification/Stratum_Api.thy ===== *)
theory Stratum_Api
  imports C_Text Mining
begin

text \<open>
  \<open>components/stratum/stratum_api.c\<close>: the lines of the Stratum V1 protocol. The first part cuts the bytes of the
  transport into lines, the second reads a line into a message, the third writes the requests. cJSON is not part
  of the repository: the definitions take its functions as a parameter.
\<close>

section \<open>Constants\<close>

definition BUFFER_SIZE :: nat where "BUFFER_SIZE = 1024"
definition MAX_JSON_RPC_LINE_LEN :: nat where "MAX_JSON_RPC_LINE_LEN = 16 * 1024"
definition MAX_EXTRANONCE_2_LEN :: int where "MAX_EXTRANONCE_2_LEN = 32"
definition MAX_MERKLE_BRANCHES :: nat where "MAX_MERKLE_BRANCHES = 32"
definition HASH_SIZE :: nat where "HASH_SIZE = 32"
definition MAX_REQUEST_IDS :: nat where "MAX_REQUEST_IDS = 1024"

section \<open>Lines\<close>

text \<open>
  The static buffer: its text without the final zero (\<open>None\<close> for a null pointer), and its size. The allocations
  succeed; the code restarts the device when one fails here.
\<close>

record rpc_buffer =
  rpc_text :: "bytes option"
  rpc_size :: nat

text \<open>What \<open>esp_transport_read\<close> gives: an error, or at most \<open>BUFFER_SIZE - 1\<close> bytes, none after the time-out.\<close>

datatype transport_read = Read_Failed | Read_Bytes bytes

definition STRATUM_V1_initialize_buffer :: "rpc_buffer" where
  "STRATUM_V1_initialize_buffer = \<lparr>rpc_text = Some [], rpc_size = BUFFER_SIZE\<rparr>"

definition realloc_json_buffer :: "nat \<Rightarrow> nat \<Rightarrow> nat \<Rightarrow> nat" where
  "realloc_json_buffer old len buffer_size =
     (let new = old + len + 1 in if new < buffer_size then buffer_size else new + (BUFFER_SIZE - new mod BUFFER_SIZE))"

text \<open>\<open>strncat\<close> stops at a zero byte.\<close>

definition append_received :: "bytes \<Rightarrow> bytes \<Rightarrow> rpc_buffer \<Rightarrow> rpc_buffer" where
  "append_received buf chunk b =
     \<lparr>rpc_text = Some (buf @ takeWhile (\<lambda>c. c \<noteq> 0) chunk),
      rpc_size = realloc_json_buffer (length buf) (length chunk) (rpc_size b)\<rparr>"

text \<open>The reads that are left when the function returns, or \<open>Waiting\<close> when it has not returned after all of them.\<close>

datatype line_result = Line bytes | No_Line | Waiting

definition extract_line :: "bytes \<Rightarrow> rpc_buffer \<Rightarrow> line_result \<times> rpc_buffer" where
  "extract_line buf b = (Line (takeWhile (\<lambda>c. c \<noteq> 10) buf), b\<lparr>rpc_text := Some (tl (dropWhile (\<lambda>c. c \<noteq> 10) buf))\<rparr>)"

fun jsonrpc_line_loop :: "transport_read list \<Rightarrow> bytes \<Rightarrow> rpc_buffer \<Rightarrow> line_result \<times> rpc_buffer \<times> transport_read list" where
  "jsonrpc_line_loop reads buf b =
     (if 10 \<in> set buf then (case extract_line buf b of (l, b1) \<Rightarrow> (l, b1, reads))
      else (case reads of
              [] \<Rightarrow> (Waiting, b\<lparr>rpc_text := Some buf\<rparr>, [])
            | Read_Failed # rs \<Rightarrow> (No_Line, b\<lparr>rpc_text := None\<rparr>, rs)
            | Read_Bytes chunk # rs \<Rightarrow>
                if chunk = [] then jsonrpc_line_loop rs buf b
                else let b1 = append_received buf chunk b; buf1 = the (rpc_text b1)
                     in if length buf1 > MAX_JSON_RPC_LINE_LEN then (No_Line, \<lparr>rpc_text = None, rpc_size = 0\<rparr>, rs)
                        else jsonrpc_line_loop rs buf1 b1))"

declare jsonrpc_line_loop.simps [simp del]

definition STRATUM_V1_receive_jsonrpc_line :: "transport_read list \<Rightarrow> rpc_buffer \<Rightarrow> line_result \<times> rpc_buffer \<times> transport_read list" where
  "STRATUM_V1_receive_jsonrpc_line reads b =
     (let b0 = (case rpc_text b of None \<Rightarrow> STRATUM_V1_initialize_buffer | Some _ \<Rightarrow> b)
      in jsonrpc_line_loop reads (the (rpc_text b0)) b0)"

section \<open>Messages\<close>

datatype stratum_method =
  METHOD_UNKNOWN | MINING_NOTIFY | MINING_SET_DIFFICULTY | MINING_SET_VERSION_MASK | MINING_SET_EXTRANONCE | MINING_PING
| STRATUM_RESULT | STRATUM_RESULT_SUBSCRIBE | STRATUM_RESULT_CONFIGURE | CLIENT_RECONNECT | CLIENT_SHOW_MESSAGE | CLIENT_GET_VERSION

record StratumApiV1Message =
  msg_extranonce_str :: "bytes option"
  msg_extranonce_2_len :: int
  message_id :: int
  msg_method :: stratum_method
  mining_notification :: "mining_notify option"
  new_difficulty :: rat
  msg_version_mask :: u32
  response_success :: bool
  error_str :: "bytes option"
  show_message :: "bytes option"
  version_string :: "bytes option"

text \<open>
  cJSON: parsing, the access functions, which take null pointers (\<open>None\<close>) and give one when there is no item, the
  tests of the type of an item, and its value.
\<close>

record 'j cjson_lib =
  cJSON_Parse :: "bytes \<Rightarrow> 'j option"
  cJSON_GetObjectItem :: "'j option \<Rightarrow> bytes \<Rightarrow> 'j option"
  cJSON_GetArrayItem :: "'j option \<Rightarrow> int \<Rightarrow> 'j option"
  cJSON_GetArraySize :: "'j option \<Rightarrow> int"
  cJSON_IsString :: "'j option \<Rightarrow> bool"
  cJSON_IsNumber :: "'j option \<Rightarrow> bool"
  cJSON_IsArray :: "'j option \<Rightarrow> bool"
  cJSON_IsObject :: "'j option \<Rightarrow> bool"
  cJSON_IsBool :: "'j option \<Rightarrow> bool"
  cJSON_IsTrue :: "'j option \<Rightarrow> bool"
  cJSON_IsNull :: "'j option \<Rightarrow> bool"
  valuestring :: "'j option \<Rightarrow> bytes"
  valueint :: "'j option \<Rightarrow> int"
  valuedouble :: "'j option \<Rightarrow> rat"

text \<open>
  \<open>strtoul(s, NULL, 16)\<close> of the C library, with a 32-bit \<open>unsigned long\<close>: white space, a sign, an optional \<open>0x\<close>
  before a digit, digits; a value out of range is the largest one.
\<close>

definition hex_value :: "bytes \<Rightarrow> nat" where
  "hex_value = foldl (\<lambda>a c. 16 * a + the (hex_digit c)) 0"

definition skip_0x :: "bytes \<Rightarrow> bytes" where
  "skip_0x s = (case s of z # x # d # r \<Rightarrow> if z = 48 \<and> (x = 120 \<or> x = 88) \<and> hex_digit d \<noteq> None then d # r else s | _ \<Rightarrow> s)"

definition strtoul16 :: "bytes \<Rightarrow> u32" where
  "strtoul16 s =
     (case scan_sign (dropWhile is_space s) of (neg, r) \<Rightarrow>
        let v = hex_value (takeWhile (\<lambda>c. hex_digit c \<noteq> None) (skip_0x r))
        in if 2 ^ 32 \<le> v then - 1 else if neg then - of_nat v else of_nat v)"

section \<open>Reading a message\<close>

definition STRATUM_V1_reset_message :: "StratumApiV1Message \<Rightarrow> StratumApiV1Message" where
  "STRATUM_V1_reset_message m =
     m\<lparr>error_str := None, msg_extranonce_str := None, show_message := None, version_string := None, mining_notification := None,
       msg_method := METHOD_UNKNOWN, message_id := -1, response_success := False, new_difficulty := 0, msg_version_mask := 0\<rparr>"

definition parse_method :: "'j cjson_lib \<Rightarrow> 'j option \<Rightarrow> stratum_method" where
  "parse_method J method_json =
     (if method_json = None \<or> \<not> cJSON_IsString J method_json then STRATUM_RESULT
      else let meth = valuestring J method_json
           in if meth = ascii ''mining.notify'' then MINING_NOTIFY
              else if meth = ascii ''mining.set_difficulty'' then MINING_SET_DIFFICULTY
              else if meth = ascii ''mining.set_extranonce'' then MINING_SET_EXTRANONCE
              else if meth = ascii ''mining.set_version_mask'' then MINING_SET_VERSION_MASK
              else if meth = ascii ''client.reconnect'' then CLIENT_RECONNECT
              else if meth = ascii ''mining.ping'' then MINING_PING
              else if meth = ascii ''client.show_message'' then CLIENT_SHOW_MESSAGE
              else if meth = ascii ''client.get_version'' then CLIENT_GET_VERSION
              else METHOD_UNKNOWN)"

text \<open>The slot of a branch is zeroed before the digits are written into it.\<close>

definition merkle_slot :: "bytes \<Rightarrow> bytes" where
  "merkle_slot hex = (let b = hex2bin hex HASH_SIZE in b @ replicate (HASH_SIZE - length b) 0)"

text \<open>
  Each parser says whether it succeeded, and gives the message with the fields it set. \<open>alloc_ok\<close> tells whether its
  allocations succeed.
\<close>

definition parse_mining_notify :: "'j cjson_lib \<Rightarrow> bool \<Rightarrow> 'j option \<Rightarrow> StratumApiV1Message \<Rightarrow> bool \<times> StratumApiV1Message" where
  "parse_mining_notify J alloc_ok json m =
     (let params = cJSON_GetObjectItem J json (ascii ''params'')
      in if params = None \<or> \<not> cJSON_IsArray J params then (False, m)
         else if cJSON_GetArraySize J params < 8 then (False, m)
         else
           let item = cJSON_GetArrayItem J params; merkle_branch = item 4;
               is_string = (\<lambda>i. item i \<noteq> None \<and> cJSON_IsString J (item i))
           in if \<not> (\<forall>i \<in> set [0, 1, 2, 3, 5, 6, 7]. is_string i) \<or> merkle_branch = None \<or> \<not> cJSON_IsArray J merkle_branch then (False, m)
              else
                let n_merkle_branches = nat (cJSON_GetArraySize J merkle_branch);
                    branch = (\<lambda>i. cJSON_GetArrayItem J merkle_branch (int i))
                in if n_merkle_branches > MAX_MERKLE_BRANCHES then (False, m)
                   else if \<exists>i \<in> set [0..<n_merkle_branches]. branch i = None \<or> \<not> cJSON_IsString J (branch i) then (False, m)
                   else if \<not> alloc_ok then (False, m)
                   else (True, m\<lparr>mining_notification := Some
                     \<lparr>notify_job_id = valuestring J (item 0), notify_prev_block_hash = valuestring J (item 1),
                      notify_coinbase_1 = valuestring J (item 2), notify_coinbase_2 = valuestring J (item 3),
                      notify_merkle_branches = map (\<lambda>i. merkle_slot (valuestring J (branch i))) [0..<n_merkle_branches],
                      notify_version = strtoul16 (valuestring J (item 5)), notify_target = strtoul16 (valuestring J (item 6)),
                      notify_ntime = strtoul16 (valuestring J (item 7)),
                      notify_clean_jobs = cJSON_IsTrue J (item (cJSON_GetArraySize J params - 1))\<rparr>\<rparr>))"

text \<open>The parameter list of the other requests, when it has at least \<open>n\<close> items.\<close>

definition params_of :: "'j cjson_lib \<Rightarrow> 'j option \<Rightarrow> int \<Rightarrow> 'j option" where
  "params_of J json n =
     (let params = cJSON_GetObjectItem J json (ascii ''params'')
      in if params = None \<or> \<not> cJSON_IsArray J params \<or> cJSON_GetArraySize J params < n then None else params)"

definition parse_set_difficulty :: "'j cjson_lib \<Rightarrow> 'j option \<Rightarrow> StratumApiV1Message \<Rightarrow> bool \<times> StratumApiV1Message" where
  "parse_set_difficulty J json m =
     (let params = params_of J json 1; difficulty = cJSON_GetArrayItem J params 0
      in if params = None \<or> difficulty = None \<or> \<not> cJSON_IsNumber J difficulty then (False, m)
         else (True, m\<lparr>new_difficulty := valuedouble J difficulty\<rparr>))"

definition parse_set_version_mask :: "'j cjson_lib \<Rightarrow> 'j option \<Rightarrow> StratumApiV1Message \<Rightarrow> bool \<times> StratumApiV1Message" where
  "parse_set_version_mask J json m =
     (let params = params_of J json 1; msk = cJSON_GetArrayItem J params 0
      in if params = None \<or> msk = None \<or> \<not> cJSON_IsString J msk then (False, m)
         else (True, m\<lparr>msg_version_mask := strtoul16 (valuestring J msk)\<rparr>))"

text \<open>The common end of the two messages that set the extranonce.\<close>

definition set_extranonce_fields :: "'j cjson_lib \<Rightarrow> bool \<Rightarrow> 'j option \<Rightarrow> 'j option \<Rightarrow> StratumApiV1Message \<Rightarrow> bool \<times> StratumApiV1Message" where
  "set_extranonce_fields J alloc_ok extranonce extranonce2_size m =
     (if extranonce = None \<or> extranonce2_size = None \<or> \<not> cJSON_IsString J extranonce \<or> \<not> cJSON_IsNumber J extranonce2_size then (False, m)
      else if length (valuestring J extranonce) > MAX_EXTRANONCE_STR_LEN then (False, m)
      else if \<not> alloc_ok then (False, m\<lparr>msg_extranonce_str := None\<rparr>)
      else (True, m\<lparr>msg_extranonce_str := Some (valuestring J extranonce),
                    msg_extranonce_2_len := min (valueint J extranonce2_size) MAX_EXTRANONCE_2_LEN\<rparr>))"

definition parse_set_extranonce :: "'j cjson_lib \<Rightarrow> bool \<Rightarrow> 'j option \<Rightarrow> StratumApiV1Message \<Rightarrow> bool \<times> StratumApiV1Message" where
  "parse_set_extranonce J alloc_ok json m =
     (let params = params_of J json 2
      in if params = None then (False, m)
         else set_extranonce_fields J alloc_ok (cJSON_GetArrayItem J params 0) (cJSON_GetArrayItem J params 1) m)"

definition parse_show_message :: "'j cjson_lib \<Rightarrow> bool \<Rightarrow> 'j option \<Rightarrow> StratumApiV1Message \<Rightarrow> bool \<times> StratumApiV1Message" where
  "parse_show_message J alloc_ok json m =
     (let params = params_of J json 1; msg = cJSON_GetArrayItem J params 0
      in if params = None \<or> msg = None \<or> \<not> cJSON_IsString J msg then (False, m)
         else if \<not> alloc_ok then (False, m\<lparr>show_message := None\<rparr>)
         else (True, m\<lparr>show_message := Some (valuestring J msg)\<rparr>))"

definition parse_get_version :: "bool \<Rightarrow> StratumApiV1Message \<Rightarrow> bool \<times> StratumApiV1Message" where
  "parse_get_version alloc_ok m = (True, m\<lparr>version_string := (if alloc_ok then Some (ascii ''unknown'') else None)\<rparr>)"

definition parse_subscribe_result :: "'j cjson_lib \<Rightarrow> bool \<Rightarrow> 'j option \<Rightarrow> StratumApiV1Message \<Rightarrow> bool \<times> StratumApiV1Message" where
  "parse_subscribe_result J alloc_ok json m =
     (let res = cJSON_GetObjectItem J json (ascii ''result'')
      in case set_extranonce_fields J alloc_ok (cJSON_GetArrayItem J res 1) (cJSON_GetArrayItem J res 2) m of
           (ok, m1) \<Rightarrow> (ok, if ok then m1\<lparr>response_success := True\<rparr> else m1))"

definition parse_configure_result :: "'j cjson_lib \<Rightarrow> 'j option \<Rightarrow> StratumApiV1Message \<Rightarrow> bool \<times> StratumApiV1Message" where
  "parse_configure_result J json m =
     (let res = cJSON_GetObjectItem J json (ascii ''result'');
          version_rolling = cJSON_GetObjectItem J res (ascii ''version-rolling'');
          msk = cJSON_GetObjectItem J res (ascii ''version-rolling.mask'')
      in if version_rolling = None \<or> \<not> cJSON_IsTrue J version_rolling \<or> msk = None \<or> \<not> cJSON_IsString J msk then (False, m)
         else (True, m\<lparr>msg_version_mask := strtoul16 (valuestring J msk), response_success := True\<rparr>))"

text \<open>A failure with its reason, the reason lost when it cannot be copied.\<close>

definition result_failed :: "bool \<Rightarrow> bytes \<Rightarrow> StratumApiV1Message \<Rightarrow> StratumApiV1Message" where
  "result_failed alloc_ok reason m = m\<lparr>response_success := False, error_str := (if alloc_ok then Some reason else None)\<rparr>"

text \<open>The text of an error that carries one: the second item of an array, a string, or the \<open>message\<close> of an object.\<close>

definition error_text :: "'j cjson_lib \<Rightarrow> 'j option \<Rightarrow> bytes option" where
  "error_text J err =
     (if err \<noteq> None \<and> cJSON_IsArray J err \<and> cJSON_GetArraySize J err \<ge> 2 then
        (let msg = cJSON_GetArrayItem J err 1 in if cJSON_IsString J msg then Some (valuestring J msg) else None)
      else if err \<noteq> None \<and> cJSON_IsString J err then Some (valuestring J err)
      else if err \<noteq> None \<and> cJSON_IsObject J err then
        (let msg = cJSON_GetObjectItem J err (ascii ''message'')
         in if msg \<noteq> None \<and> cJSON_IsString J msg then Some (valuestring J msg) else None)
      else None)"

definition parse_result :: "'j cjson_lib \<Rightarrow> bool \<Rightarrow> 'j option \<Rightarrow> StratumApiV1Message \<Rightarrow> bool \<times> StratumApiV1Message" where
  "parse_result J alloc_ok json m0 =
     (let res = cJSON_GetObjectItem J json (ascii ''result''); err = cJSON_GetObjectItem J json (ascii ''error'');
          reject_reason = cJSON_GetObjectItem J json (ascii ''reject-reason'');
          m = m0\<lparr>msg_method := STRATUM_RESULT\<rparr>;
          reason = (if reject_reason \<noteq> None \<and> cJSON_IsString J reject_reason then valuestring J reject_reason else ascii ''unknown'')
      in case error_text J err of
           Some msg \<Rightarrow> (True, result_failed alloc_ok msg m)
         | None \<Rightarrow>
             if (res = None \<or> cJSON_IsNull J res) \<and> err \<noteq> None \<and> \<not> cJSON_IsNull J err then (True, result_failed alloc_ok reason m)
             else if cJSON_IsBool J res then
               (True, if cJSON_IsTrue J res then m\<lparr>response_success := True\<rparr> else result_failed alloc_ok reason m)
             else if cJSON_IsArray J res \<and> cJSON_GetArraySize J res \<ge> 3 then
               parse_subscribe_result J alloc_ok json (m\<lparr>msg_method := STRATUM_RESULT_SUBSCRIBE\<rparr>)
             else if cJSON_IsObject J res \<and> cJSON_GetObjectItem J res (ascii ''version-rolling'') \<noteq> None then
               parse_configure_result J json (m\<lparr>msg_method := STRATUM_RESULT_CONFIGURE\<rparr>)
             else (False, m))"

definition dispatch_message :: "'j cjson_lib \<Rightarrow> bool \<Rightarrow> 'j option \<Rightarrow> StratumApiV1Message \<Rightarrow> bool \<times> StratumApiV1Message" where
  "dispatch_message J alloc_ok json m =
     (case msg_method m of
        STRATUM_RESULT \<Rightarrow> parse_result J alloc_ok json m
      | MINING_NOTIFY \<Rightarrow> parse_mining_notify J alloc_ok json m
      | MINING_SET_DIFFICULTY \<Rightarrow> parse_set_difficulty J json m
      | MINING_SET_VERSION_MASK \<Rightarrow> parse_set_version_mask J json m
      | MINING_SET_EXTRANONCE \<Rightarrow> parse_set_extranonce J alloc_ok json m
      | CLIENT_RECONNECT \<Rightarrow> (True, m)
      | MINING_PING \<Rightarrow> (True, m)
      | CLIENT_SHOW_MESSAGE \<Rightarrow> parse_show_message J alloc_ok json m
      | CLIENT_GET_VERSION \<Rightarrow> parse_get_version alloc_ok m
      | _ \<Rightarrow> (False, m))"

definition STRATUM_V1_parse :: "'j cjson_lib \<Rightarrow> bool \<Rightarrow> bytes \<Rightarrow> StratumApiV1Message \<Rightarrow> bool \<times> StratumApiV1Message" where
  "STRATUM_V1_parse J alloc_ok line m0 =
     (let m = STRATUM_V1_reset_message m0; json = cJSON_Parse J line
      in if json = None then (False, m\<lparr>msg_method := METHOD_UNKNOWN\<rparr>)
         else
           let id_json = cJSON_GetObjectItem J json (ascii ''id'');
               m1 = (if id_json \<noteq> None \<and> cJSON_IsNumber J id_json then m\<lparr>message_id := valueint J id_json\<rparr> else m)
           in dispatch_message J alloc_ok json (m1\<lparr>msg_method := parse_method J (cJSON_GetObjectItem J json (ascii ''method''))\<rparr>))"

section \<open>Response times\<close>

text \<open>The time stamps of the requests, one slot per identifier modulo 1024, and whether an answer is awaited.\<close>

type_synonym timings = "(int \<times> bool) list"

definition fresh_timings :: timings where
  "fresh_timings = replicate MAX_REQUEST_IDS (0, False)"

definition timing_slot :: "int \<Rightarrow> nat" where
  "timing_slot request_id = nat (request_id mod int MAX_REQUEST_IDS)"

definition stamp_tx :: "int \<Rightarrow> int \<Rightarrow> timings \<Rightarrow> timings" where
  "stamp_tx request_id now ts = (if request_id \<ge> 1 then ts[timing_slot request_id := (now, True)] else ts)"

definition STRATUM_V1_get_response_time_ms :: "int \<Rightarrow> int \<Rightarrow> timings \<Rightarrow> rat \<times> timings" where
  "STRATUM_V1_get_response_time_ms request_id receive_time_us ts =
     (if request_id < 0 then (-1, ts)
      else case ts ! timing_slot request_id of
             (t, tracking) \<Rightarrow>
               if \<not> tracking then (-1, ts)
               else (f32 (f32 (of_int (receive_time_us - t)) / 1000), ts[timing_slot request_id := (t, False)]))"

section \<open>Writing the requests\<close>

text \<open>\<open>%08lx\<close>, and \<open>snprintf\<close> into a buffer of \<open>BUFFER_SIZE\<close> bytes.\<close>

definition hex_char :: "u32 \<Rightarrow> u8" where
  "hex_char d = (if d < 10 then 48 + ucast d else 87 + ucast d)"

definition hex8 :: "u32 \<Rightarrow> bytes" where
  "hex8 w = map (\<lambda>i. hex_char (drop_bit (4 * (7 - i)) w AND 15)) [0..<8]"

definition line_text :: "bytes \<Rightarrow> bytes" where
  "line_text t = take (BUFFER_SIZE - 1) t"

definition STRATUM_V1_subscribe :: "int \<Rightarrow> bytes \<Rightarrow> bytes \<Rightarrow> bytes" where
  "STRATUM_V1_subscribe uid model ver =
     line_text (ascii ''{\"id\":'' @ dec_int_bytes uid @ ascii '',\"method\":\"mining.subscribe\",\"params\":[\"bitaxe/'' @ model @ ascii ''/'' @ ver @ ascii ''\"]}'' @ [10])"

definition STRATUM_V1_suggest_difficulty :: "int \<Rightarrow> u32 \<Rightarrow> bytes" where
  "STRATUM_V1_suggest_difficulty uid difficulty =
     line_text (ascii ''{\"id\":'' @ dec_int_bytes uid @ ascii '',\"method\":\"mining.suggest_difficulty\",\"params\":['' @ dec_int_bytes (sint difficulty) @ ascii '']}'' @ [10])"

definition STRATUM_V1_extranonce_subscribe :: "int \<Rightarrow> bytes" where
  "STRATUM_V1_extranonce_subscribe uid =
     line_text (ascii ''{\"id\":'' @ dec_int_bytes uid @ ascii '',\"method\":\"mining.extranonce.subscribe\",\"params\":[]}'' @ [10])"

definition STRATUM_V1_authorize :: "int \<Rightarrow> bytes \<Rightarrow> bytes \<Rightarrow> bytes" where
  "STRATUM_V1_authorize uid username pass =
     line_text (ascii ''{\"id\":'' @ dec_int_bytes uid @ ascii '',\"method\":\"mining.authorize\",\"params\":[\"'' @ username @ ascii ''\",\"'' @ pass @ ascii ''\"]}'' @ [10])"

definition STRATUM_V1_pong :: "int \<Rightarrow> bytes" where
  "STRATUM_V1_pong mid = line_text (ascii ''{\"id\":'' @ dec_int_bytes mid @ ascii '',\"method\":\"pong\",\"params\":[]}'' @ [10])"

definition STRATUM_V1_send_version :: "int \<Rightarrow> bytes \<Rightarrow> bytes" where
  "STRATUM_V1_send_version mid ver = line_text (ascii ''{\"id\":'' @ dec_int_bytes mid @ ascii '',\"result\":\"'' @ ver @ ascii ''\",\"error\":null}'' @ [10])"

definition STRATUM_V1_submit_share :: "int \<Rightarrow> bytes \<Rightarrow> bytes \<Rightarrow> bytes \<Rightarrow> u32 \<Rightarrow> u32 \<Rightarrow> u32 \<Rightarrow> bytes" where
  "STRATUM_V1_submit_share uid username job_id extranonce_2 nt nonce version_bits =
     line_text (ascii ''{\"id\":'' @ dec_int_bytes uid @ ascii '',\"method\":\"mining.submit\",\"params\":[\"'' @ username @ ascii ''\",\"'' @ job_id @
       ascii ''\",\"'' @ extranonce_2 @ ascii ''\",\"'' @ hex8 nt @ ascii ''\",\"'' @ hex8 nonce @ ascii ''\",\"'' @ hex8 version_bits @ ascii ''\"]}'' @ [10])"

definition STRATUM_V1_configure_version_rolling :: "int \<Rightarrow> bytes" where
  "STRATUM_V1_configure_version_rolling uid =
     line_text (ascii ''{\"id\":'' @ dec_int_bytes uid @ ascii '',\"method\":\"mining.configure\",\"params\":[[\"version-rolling\"],{\"version-rolling.mask\":\"ffffffff\"}]}'' @ [10])"

section \<open>Lines arrive whole\<close>

text \<open>The text fits into the buffer with its final zero, and a text without a newline is not too long.\<close>

definition rpc_fits :: "bytes \<Rightarrow> rpc_buffer \<Rightarrow> bool" where
  "rpc_fits buf b \<longleftrightarrow> length buf < rpc_size b \<and> (10 \<notin> set buf \<longrightarrow> length buf \<le> MAX_JSON_RPC_LINE_LEN)"

definition rpc_invar :: "rpc_buffer \<Rightarrow> bool" where
  "rpc_invar b \<longleftrightarrow> (case rpc_text b of None \<Rightarrow> True | Some buf \<Rightarrow> length buf < rpc_size b \<and> length buf \<le> MAX_JSON_RPC_LINE_LEN)"

lemma realloc_json_buffer_room: "old + len < realloc_json_buffer old len n"
proof -
  have "x mod BUFFER_SIZE < BUFFER_SIZE" for x by (simp add: BUFFER_SIZE_def)
  then show ?thesis by (simp add: realloc_json_buffer_def Let_def trans_less_add1)
qed

lemma append_received_room: "length (the (rpc_text (append_received buf chunk b))) < rpc_size (append_received buf chunk b)"
proof -
  have "length buf + length (takeWhile (\<lambda>c. c \<noteq> 0) chunk) \<le> length buf + length chunk" by (simp add: length_takeWhile_le)
  then show ?thesis using realloc_json_buffer_room [of "length buf" "length chunk" "rpc_size b"]
    by (simp add: append_received_def)
qed

lemma extract_line_invar:
  assumes "length buf < rpc_size b" "length buf \<le> MAX_JSON_RPC_LINE_LEN"
  shows "rpc_invar (snd (extract_line buf b))"
proof -
  have "length (tl (dropWhile (\<lambda>c. c \<noteq> 10) buf)) \<le> length buf" using length_dropWhile_le [of "\<lambda>c. c \<noteq> 10" buf] by simp
  then show ?thesis using assms by (auto simp: extract_line_def rpc_invar_def)
qed

lemma receive_loop_invar:
  "length buf < rpc_size b \<Longrightarrow> length buf \<le> MAX_JSON_RPC_LINE_LEN \<Longrightarrow> rpc_invar (fst (snd (jsonrpc_line_loop reads buf b)))"
proof (induction reads arbitrary: buf b)
  case Nil
  show ?case
  proof (cases "10 \<in> set buf")
    case True
    then show ?thesis using extract_line_invar [OF Nil] by (cases "extract_line buf b") (simp add: jsonrpc_line_loop.simps [of "[]"])
  next
    case False
    then show ?thesis using Nil by (simp add: jsonrpc_line_loop.simps [of "[]"] rpc_invar_def)
  qed
next
  case (Cons r rs)
  show ?case
  proof (cases "10 \<in> set buf")
    case True
    then show ?thesis using extract_line_invar [OF Cons.prems] by (cases "extract_line buf b") (simp add: jsonrpc_line_loop.simps [of "r # rs"])
  next
    case False
    show ?thesis
    proof (cases r)
      case Read_Failed
      then show ?thesis using False by (simp add: jsonrpc_line_loop.simps [of "_ # rs"] rpc_invar_def)
    next
      case (Read_Bytes chunk)
      let ?b1 = "append_received buf chunk b"
      consider "chunk = []" | "chunk \<noteq> []" "length (the (rpc_text ?b1)) > MAX_JSON_RPC_LINE_LEN"
        | "chunk \<noteq> []" "length (the (rpc_text ?b1)) \<le> MAX_JSON_RPC_LINE_LEN" by linarith
      then show ?thesis
      proof cases
        case 1
        then show ?thesis using Cons.IH [OF Cons.prems] False Read_Bytes by (simp add: jsonrpc_line_loop.simps [of "_ # rs"])
      next
        case 2
        then show ?thesis using False Read_Bytes by (simp add: jsonrpc_line_loop.simps [of "_ # rs"] rpc_invar_def Let_def)
      next
        case 3
        then show ?thesis using Cons.IH [OF append_received_room 3(2)] False Read_Bytes by (simp add: jsonrpc_line_loop.simps [of "_ # rs"] Let_def)
      qed
    qed
  qed
qed

lemma receive_line_invar: "rpc_invar b \<Longrightarrow> rpc_invar (fst (snd (STRATUM_V1_receive_jsonrpc_line reads b)))"
  by (auto simp: STRATUM_V1_receive_jsonrpc_line_def STRATUM_V1_initialize_buffer_def Let_def rpc_invar_def [of b] BUFFER_SIZE_def
      split: option.splits intro!: receive_loop_invar)

text \<open>Lines of at most \<open>MAX_LINE\<close> bytes are never dropped: one more read is at most \<open>BUFFER_SIZE - 1\<close> bytes.\<close>

definition MAX_LINE :: nat where "MAX_LINE = MAX_JSON_RPC_LINE_LEN - (BUFFER_SIZE - 1)"

definition good_chunk :: "bytes \<Rightarrow> bool" where
  "good_chunk chunk \<longleftrightarrow> 0 \<notin> set chunk \<and> length chunk \<le> BUFFER_SIZE - 1"

lemma good_chunk_append: "good_chunk chunk \<Longrightarrow> rpc_text (append_received buf chunk b) = Some (buf @ chunk)"
  by (auto simp: good_chunk_def append_received_def intro!: takeWhile_eq_all_conv [THEN iffD2])

text \<open>One call, in terms of the bytes that are in the buffer or still to come.\<close>

lemma receive_loop_line:
  assumes "\<forall>c \<in> set chunks. good_chunk c" "buf @ concat chunks = l @ 10 # later" "10 \<notin> set l" "length l \<le> MAX_LINE"
  shows "\<exists>buf1 b1 chunks1. jsonrpc_line_loop (map Read_Bytes chunks) buf b = (Line l, b1, map Read_Bytes chunks1) \<and> rpc_text b1 = Some buf1 \<and>
    buf1 @ concat chunks1 = later \<and> set chunks1 \<subseteq> set chunks"
  using assms
proof (induction chunks arbitrary: buf b)
  case Nil
  then show ?case by (subst jsonrpc_line_loop.simps) (simp add: extract_line_def dropWhile_append takeWhile_append)
next
  case (Cons c cs)
  show ?case
  proof (cases "10 \<in> set buf")
    case True
    then obtain l' rest where split: "buf = l' @ 10 # rest" "10 \<notin> set l'" by (meson split_list_first)
    have "takeWhile (\<lambda>c. c \<noteq> 10) (buf @ concat (c # cs)) = l" using Cons.prems(2,3) by (simp add: takeWhile_append)
    moreover have "takeWhile (\<lambda>c. c \<noteq> 10) (buf @ concat (c # cs)) = l'" using split by (simp add: takeWhile_append)
    ultimately have l: "l' = l" by simp
    then have "rest @ concat (c # cs) = later" using Cons.prems(2) split by simp
    with True split l show ?thesis
      by (subst jsonrpc_line_loop.simps) (auto simp: extract_line_def takeWhile_append dropWhile_append intro!: exI [of _ "c # cs"])
  next
    case False
    show ?thesis
    proof (cases "c = []")
      case True
      obtain buf1 b1 chunks1 where "jsonrpc_line_loop (map Read_Bytes cs) buf b = (Line l, b1, map Read_Bytes chunks1)" "rpc_text b1 = Some buf1"
        "buf1 @ concat chunks1 = later" "set chunks1 \<subseteq> set cs"
        using Cons.IH [of buf b] Cons.prems True by auto
      with True False show ?thesis by (subst jsonrpc_line_loop.simps) auto
    next
      case c: False
      let ?b1 = "append_received buf c b"
      have good: "good_chunk c" using Cons.prems(1) by simp
      have "length buf \<le> length l"
      proof (rule ccontr)
        assume "\<not> length buf \<le> length l"
        then have "buf ! length l = (buf @ concat (c # cs)) ! length l" by (simp add: nth_append)
        also have "\<dots> = 10" unfolding Cons.prems(2) by simp
        finally show False using False \<open>\<not> length buf \<le> length l\<close> nth_mem [of "length l" buf] by auto
      qed
      then have "length (buf @ c) \<le> MAX_JSON_RPC_LINE_LEN"
        using Cons.prems(4) good by (simp add: good_chunk_def MAX_LINE_def MAX_JSON_RPC_LINE_LEN_def BUFFER_SIZE_def)
      then have step: "jsonrpc_line_loop (map Read_Bytes (c # cs)) buf b = jsonrpc_line_loop (map Read_Bytes cs) (buf @ c) ?b1"
        using False c good_chunk_append [OF good, of buf b] by (subst jsonrpc_line_loop.simps) (simp add: Let_def)
      obtain buf1 b1 chunks1 where "jsonrpc_line_loop (map Read_Bytes cs) (buf @ c) ?b1 = (Line l, b1, map Read_Bytes chunks1)" "rpc_text b1 = Some buf1"
        "buf1 @ concat chunks1 = later" "set chunks1 \<subseteq> set cs"
        using Cons.IH [of "buf @ c" ?b1] Cons.prems by auto
      then show ?thesis unfolding step by auto
    qed
  qed
qed

lemma receive_loop_waits:
  assumes "\<forall>c \<in> set chunks. good_chunk c" "10 \<notin> set (buf @ concat chunks)" "length (buf @ concat chunks) \<le> MAX_JSON_RPC_LINE_LEN"
  shows "fst (jsonrpc_line_loop (map Read_Bytes chunks) buf b) = Waiting"
  using assms
proof (induction chunks arbitrary: buf b)
  case Nil
  then show ?case by (subst jsonrpc_line_loop.simps) simp
next
  case (Cons c cs)
  then show ?case using Cons.IH [of buf b] Cons.IH [of "buf @ c" "append_received buf c b"] good_chunk_append [of c buf b]
    by (subst jsonrpc_line_loop.simps) (simp add: Let_def)
qed

text \<open>Calling the function again and again, until it fails or waits.\<close>

fun receive_lines :: "nat \<Rightarrow> transport_read list \<Rightarrow> rpc_buffer \<Rightarrow> bytes list \<times> rpc_buffer" where
  "receive_lines 0 reads b = ([], b)"
| "receive_lines (Suc n) reads b =
     (case STRATUM_V1_receive_jsonrpc_line reads b of
        (Line l, b1, rs) \<Rightarrow> (case receive_lines n rs b1 of (ls, b2) \<Rightarrow> (l # ls, b2))
      | (_, b1, rs) \<Rightarrow> ([], b1))"

text \<open>
  Whatever the pool sends, and whenever the transport fails, the buffer of the line reader always has room for its
  text with the final zero, and the text that is kept from one call to the next is at most sixteen kilobytes.
\<close>

theorem line_buffer_fits:
  "case rpc_text (snd (receive_lines n reads STRATUM_V1_initialize_buffer)) of
     None \<Rightarrow> True
   | Some buf \<Rightarrow> length buf < rpc_size (snd (receive_lines n reads STRATUM_V1_initialize_buffer)) \<and> length buf \<le> 16384"
proof -
  have "rpc_invar b \<Longrightarrow> rpc_invar (snd (receive_lines n reads b))" for b
  proof (induction n arbitrary: reads b)
    case (Suc n)
    then show ?case using receive_line_invar [of b reads] by (auto simp: case_prod_beta split: prod.split line_result.split)
  qed simp
  moreover have "rpc_invar STRATUM_V1_initialize_buffer"
    by (simp add: rpc_invar_def STRATUM_V1_initialize_buffer_def BUFFER_SIZE_def MAX_JSON_RPC_LINE_LEN_def)
  ultimately have "rpc_invar (snd (receive_lines n reads STRATUM_V1_initialize_buffer))" by blast
  then show ?thesis by (simp add: rpc_invar_def MAX_JSON_RPC_LINE_LEN_def split: option.splits)
qed

lemma receive_lines_stream:
  assumes "\<forall>c \<in> set chunks. good_chunk c" "\<forall>l \<in> set ls. 10 \<notin> set l \<and> length l \<le> MAX_LINE" "10 \<notin> set rest" "length rest \<le> MAX_LINE"
    and "rpc_text b = Some buf" "buf @ concat chunks = concat (map (\<lambda>l. l @ [10]) ls) @ rest"
  shows "fst (receive_lines n (map Read_Bytes chunks) b) = take n ls"
  using assms
proof (induction ls arbitrary: n chunks b buf)
  case Nil
  have "length (buf @ concat chunks) \<le> MAX_JSON_RPC_LINE_LEN" using Nil.prems(4,6) by (simp add: MAX_LINE_def)
  moreover have "10 \<notin> set (buf @ concat chunks)" using Nil.prems(3,6) by simp
  ultimately have "fst (jsonrpc_line_loop (map Read_Bytes chunks) buf b) = Waiting" using receive_loop_waits [OF Nil.prems(1)] by blast
  then show ?case using Nil.prems(5) by (cases n) (auto simp: STRATUM_V1_receive_jsonrpc_line_def case_prod_beta)
next
  case (Cons l ls)
  show ?case
  proof (cases n)
    case (Suc k)
    have "buf @ concat chunks = l @ 10 # (concat (map (\<lambda>l. l @ [10]) ls) @ rest)" using Cons.prems(6) by simp
    from receive_loop_line [OF Cons.prems(1) this, of b] Cons.prems(2) obtain buf1 b1 chunks1 where
      r: "jsonrpc_line_loop (map Read_Bytes chunks) buf b = (Line l, b1, map Read_Bytes chunks1)" "rpc_text b1 = Some buf1"
        "buf1 @ concat chunks1 = concat (map (\<lambda>l. l @ [10]) ls) @ rest" "set chunks1 \<subseteq> set chunks" by auto
    have "fst (receive_lines k (map Read_Bytes chunks1) b1) = take k ls"
      using Cons.IH [of chunks1 b1 buf1 k] Cons.prems r by auto
    then show ?thesis using Suc r(1) Cons.prems(5) by (simp add: STRATUM_V1_receive_jsonrpc_line_def case_prod_beta)
  qed simp
qed

text \<open>
  C10. The lines of the pool arrive whole and in order, however the transport cuts the stream into reads, as long as
  no line is longer than 15361 bytes and the stream has no zero byte; the unfinished line at its end stays in the
  buffer.
\<close>

theorem lines_framed:
  assumes "\<forall>c \<in> set chunks. 0 \<notin> set c \<and> length c \<le> 1023"
    and "concat chunks = concat (map (\<lambda>l. l @ [10]) ls) @ rest"
    and "\<forall>l \<in> set ls. 10 \<notin> set l \<and> length l \<le> 15361" "10 \<notin> set rest" "length rest \<le> 15361"
  shows "fst (receive_lines n (map Read_Bytes chunks) STRATUM_V1_initialize_buffer) = take n ls"
proof (rule receive_lines_stream)
  show "\<forall>c \<in> set chunks. good_chunk c" using assms(1) by (simp add: good_chunk_def BUFFER_SIZE_def)
  show "rpc_text STRATUM_V1_initialize_buffer = Some []" by (simp add: STRATUM_V1_initialize_buffer_def)
  show "[] @ concat chunks = concat (map (\<lambda>l. l @ [10]) ls) @ rest" using assms(2) by simp
qed (use assms(3-5) in \<open>simp_all add: MAX_LINE_def MAX_JSON_RPC_LINE_LEN_def BUFFER_SIZE_def\<close>)

theorem lines_framed_witness:
  "fst (receive_lines 3 (map Read_Bytes [[123], [], [125, 10, 123], [125], [10, 123]]) STRATUM_V1_initialize_buffer) = [[123, 125], [123, 125]]"
  using lines_framed [of "[[123], [], [125, 10, 123], [125], [10, 123]]" "[[123, 125], [123, 125]]" "[123]" 3] by simp

section \<open>What a message contains\<close>

definition message_complete :: "bool \<Rightarrow> StratumApiV1Message \<Rightarrow> bool" where
  "message_complete alloc_ok m \<longleftrightarrow>
     msg_method m \<noteq> METHOD_UNKNOWN \<and>
     (case mining_notification m of
        None \<Rightarrow> msg_method m \<noteq> MINING_NOTIFY
      | Some n \<Rightarrow> msg_method m = MINING_NOTIFY \<and> length (notify_merkle_branches n) \<le> 32 \<and> (\<forall>b \<in> set (notify_merkle_branches n). length b = 32)) \<and>
     (msg_method m \<in> {MINING_SET_EXTRANONCE, STRATUM_RESULT_SUBSCRIBE} \<longrightarrow>
        (\<exists>e. msg_extranonce_str m = Some e \<and> length e \<le> 64) \<and> msg_extranonce_2_len m \<le> 32) \<and>
     (msg_method m = STRATUM_RESULT \<and> \<not> response_success m \<and> alloc_ok \<longrightarrow> error_str m \<noteq> None) \<and>
     (msg_method m \<in> {STRATUM_RESULT_SUBSCRIBE, STRATUM_RESULT_CONFIGURE} \<longrightarrow> response_success m) \<and>
     (msg_method m = CLIENT_SHOW_MESSAGE \<longrightarrow> show_message m \<noteq> None)"

lemma length_merkle_slot [simp]: "length (merkle_slot hex) = 32"
  using length_hex2bin [of hex HASH_SIZE] by (simp add: merkle_slot_def Let_def HASH_SIZE_def)

lemma parse_mining_notify_complete:
  "parse_mining_notify J alloc_ok json m = (True, m') \<Longrightarrow> msg_method m = MINING_NOTIFY \<Longrightarrow>
     \<exists>n. mining_notification m' = Some n \<and> m' = m\<lparr>mining_notification := Some n\<rparr> \<and> length (notify_merkle_branches n) \<le> 32 \<and> (\<forall>b \<in> set (notify_merkle_branches n). length b = 32)"
  unfolding parse_mining_notify_def Let_def by (auto simp: MAX_MERKLE_BRANCHES_def split: if_splits)

lemma set_extranonce_fields_complete:
  "set_extranonce_fields J alloc_ok e2 len m = (True, m') \<Longrightarrow>
     m' = m\<lparr>msg_extranonce_str := Some (valuestring J e2), msg_extranonce_2_len := min (valueint J len) 32\<rparr> \<and> length (valuestring J e2) \<le> 64"
  by (auto simp: set_extranonce_fields_def MAX_EXTRANONCE_STR_LEN_def MAX_EXTRANONCE_2_LEN_def split: if_splits)

lemma parse_result_complete:
  assumes "parse_result J alloc_ok json m = (True, m')" "mining_notification m = None"
  shows "message_complete alloc_ok m'"
proof -
  have sub: "message_complete alloc_ok m'" if "parse_subscribe_result J alloc_ok json (m\<lparr>msg_method := STRATUM_RESULT_SUBSCRIBE\<rparr>) = (True, m')"
    using that assms(2) set_extranonce_fields_complete [of J alloc_ok _ _ "m\<lparr>msg_method := STRATUM_RESULT_SUBSCRIBE\<rparr>"]
    by (fastforce simp: parse_subscribe_result_def message_complete_def Let_def split: prod.splits if_splits)
  have conf: "message_complete alloc_ok m'" if "parse_configure_result J json (m\<lparr>msg_method := STRATUM_RESULT_CONFIGURE\<rparr>) = (True, m')"
    using that assms(2) by (auto simp: parse_configure_result_def message_complete_def Let_def split: if_splits)
  have failed: "message_complete alloc_ok (result_failed alloc_ok reason (m\<lparr>msg_method := STRATUM_RESULT\<rparr>))" for reason
    using assms(2) by (simp add: message_complete_def result_failed_def)
  have succeeded: "message_complete alloc_ok (m\<lparr>msg_method := STRATUM_RESULT, response_success := True\<rparr>)"
    using assms(2) by (simp add: message_complete_def)
  show ?thesis
    using assms(1) failed succeeded sub conf unfolding parse_result_def Let_def by (auto split: option.splits if_splits)
qed

lemma dispatch_message_complete:
  assumes "dispatch_message J alloc_ok json m = (True, m')" "mining_notification m = None"
  shows "message_complete alloc_ok m'"
proof (cases "msg_method m")
  case STRATUM_RESULT
  then show ?thesis using assms parse_result_complete [of J alloc_ok json m m'] by (simp add: dispatch_message_def)
next
  case MINING_NOTIFY
  then show ?thesis using assms parse_mining_notify_complete [of J alloc_ok json m m'] by (auto simp: dispatch_message_def message_complete_def)
next
  case MINING_SET_EXTRANONCE
  then show ?thesis using assms
    by (auto simp: dispatch_message_def message_complete_def parse_set_extranonce_def Let_def split: if_splits dest!: set_extranonce_fields_complete)
qed (use assms in \<open>auto simp: dispatch_message_def message_complete_def parse_set_difficulty_def parse_set_version_mask_def
    parse_show_message_def parse_get_version_def Let_def split: if_splits\<close>)

lemma parsed_complete:
  assumes "STRATUM_V1_parse J alloc_ok line m = (True, m')"
  shows "message_complete alloc_ok m'"
proof -
  have "mining_notification (STRATUM_V1_reset_message m) = None" by (simp add: STRATUM_V1_reset_message_def)
  then show ?thesis using assms by (auto simp: STRATUM_V1_parse_def Let_def split: if_splits intro!: dispatch_message_complete)
qed

text \<open>
  Where the fields come from: the items that are used exist and have the type their value is read by.
\<close>

definition string_item :: "'j cjson_lib \<Rightarrow> 'j option \<Rightarrow> bytes \<Rightarrow> bool" where
  "string_item J x s \<longleftrightarrow> x \<noteq> None \<and> cJSON_IsString J x \<and> s = valuestring J x"

definition array_item :: "'j cjson_lib \<Rightarrow> 'j option \<Rightarrow> int \<Rightarrow> bool" where
  "array_item J x n \<longleftrightarrow> x \<noteq> None \<and> cJSON_IsArray J x \<and> n \<le> cJSON_GetArraySize J x"

definition number_item :: "'j cjson_lib \<Rightarrow> 'j option \<Rightarrow> bool" where
  "number_item J x \<longleftrightarrow> x \<noteq> None \<and> cJSON_IsNumber J x"

definition job_from :: "'j cjson_lib \<Rightarrow> 'j option \<Rightarrow> mining_notify \<Rightarrow> bool" where
  "job_from J params n \<longleftrightarrow>
     (let item = cJSON_GetArrayItem J params; bs = item 4
      in array_item J params 8 \<and> string_item J (item 0) (notify_job_id n) \<and> string_item J (item 1) (notify_prev_block_hash n) \<and>
         string_item J (item 2) (notify_coinbase_1 n) \<and> string_item J (item 3) (notify_coinbase_2 n) \<and>
         bs \<noteq> None \<and> cJSON_IsArray J bs \<and> length (notify_merkle_branches n) = nat (cJSON_GetArraySize J bs) \<and>
         (\<forall>i < length (notify_merkle_branches n). \<exists>hex. string_item J (cJSON_GetArrayItem J bs (int i)) hex \<and>
            notify_merkle_branches n ! i = merkle_slot hex) \<and>
         (\<exists>s. string_item J (item 5) s \<and> notify_version n = strtoul16 s) \<and>
         (\<exists>s. string_item J (item 6) s \<and> notify_target n = strtoul16 s) \<and>
         (\<exists>s. string_item J (item 7) s \<and> notify_ntime n = strtoul16 s) \<and>
         notify_clean_jobs n = cJSON_IsTrue J (item (cJSON_GetArraySize J params - 1)))"

definition extranonce_from :: "'j cjson_lib \<Rightarrow> 'j option \<Rightarrow> 'j option \<Rightarrow> StratumApiV1Message \<Rightarrow> bool" where
  "extranonce_from J e n m \<longleftrightarrow>
     (\<exists>s. string_item J e s \<and> msg_extranonce_str m = Some s) \<and> number_item J n \<and> msg_extranonce_2_len m = min (valueint J n) 32"

definition fields_from :: "'j cjson_lib \<Rightarrow> 'j option \<Rightarrow> StratumApiV1Message \<Rightarrow> bool" where
  "fields_from J json m \<longleftrightarrow>
     (let params = cJSON_GetObjectItem J json (ascii ''params''); item = cJSON_GetArrayItem J params;
          res = cJSON_GetObjectItem J json (ascii ''result'')
      in case msg_method m of
           MINING_NOTIFY \<Rightarrow> \<exists>n. mining_notification m = Some n \<and> job_from J params n
         | MINING_SET_DIFFICULTY \<Rightarrow> array_item J params 1 \<and> number_item J (item 0) \<and> new_difficulty m = valuedouble J (item 0)
         | MINING_SET_VERSION_MASK \<Rightarrow> array_item J params 1 \<and> (\<exists>s. string_item J (item 0) s \<and> msg_version_mask m = strtoul16 s)
         | MINING_SET_EXTRANONCE \<Rightarrow> array_item J params 2 \<and> extranonce_from J (item 0) (item 1) m
         | CLIENT_SHOW_MESSAGE \<Rightarrow> array_item J params 1 \<and> (\<exists>s. string_item J (item 0) s \<and> show_message m = Some s)
         | STRATUM_RESULT \<Rightarrow> response_success m \<longrightarrow> cJSON_IsBool J res \<and> cJSON_IsTrue J res
         | STRATUM_RESULT_SUBSCRIBE \<Rightarrow> extranonce_from J (cJSON_GetArrayItem J res 1) (cJSON_GetArrayItem J res 2) m
         | STRATUM_RESULT_CONFIGURE \<Rightarrow> cJSON_IsTrue J (cJSON_GetObjectItem J res (ascii ''version-rolling'')) \<and>
             (\<exists>s. string_item J (cJSON_GetObjectItem J res (ascii ''version-rolling.mask'')) s \<and> msg_version_mask m = strtoul16 s)
         | _ \<Rightarrow> True)"

lemma notify_from:
  assumes "parse_mining_notify J alloc_ok json m = (True, m')" "msg_method m = MINING_NOTIFY"
  shows "fields_from J json m'"
proof -
  let ?params = "cJSON_GetObjectItem J json (ascii ''params'')"
  have "\<exists>n. mining_notification m' = Some n \<and> job_from J ?params n \<and> msg_method m' = MINING_NOTIFY"
    using assms unfolding parse_mining_notify_def Let_def
    by (auto simp: job_from_def string_item_def array_item_def Let_def split: if_splits)
  then show ?thesis by (auto simp: fields_from_def Let_def)
qed

lemma extranonce_fields_from:
  "set_extranonce_fields J alloc_ok e n m = (True, m') \<Longrightarrow> extranonce_from J e n m' \<and> msg_method m' = msg_method m"
  by (auto simp: set_extranonce_fields_def extranonce_from_def string_item_def number_item_def MAX_EXTRANONCE_2_LEN_def split: if_splits)

lemma params_of_array: "params_of J json n = Some p \<Longrightarrow> cJSON_GetObjectItem J json (ascii ''params'') = Some p \<and> array_item J (Some p) n"
  by (auto simp: params_of_def array_item_def Let_def split: if_splits)

lemma result_from:
  assumes "parse_result J alloc_ok json m = (True, m')"
  shows "fields_from J json m'"
proof -
  let ?res = "cJSON_GetObjectItem J json (ascii ''result'')"
  have sub: "fields_from J json m'" if p: "parse_subscribe_result J alloc_ok json (m\<lparr>msg_method := STRATUM_RESULT_SUBSCRIBE\<rparr>) = (True, m')"
  proof -
    obtain m1 where m1: "set_extranonce_fields J alloc_ok (cJSON_GetArrayItem J ?res 1) (cJSON_GetArrayItem J ?res 2) (m\<lparr>msg_method := STRATUM_RESULT_SUBSCRIBE\<rparr>) = (True, m1)"
      "m' = m1\<lparr>response_success := True\<rparr>"
      using p
      by (cases "set_extranonce_fields J alloc_ok (cJSON_GetArrayItem J ?res 1) (cJSON_GetArrayItem J ?res 2) (m\<lparr>msg_method := STRATUM_RESULT_SUBSCRIBE\<rparr>)")
        (auto simp: parse_subscribe_result_def Let_def split: if_splits)
    then show ?thesis using extranonce_fields_from [OF m1(1)] by (simp add: fields_from_def extranonce_from_def Let_def)
  qed
  have conf: "fields_from J json m'" if "parse_configure_result J json (m\<lparr>msg_method := STRATUM_RESULT_CONFIGURE\<rparr>) = (True, m')"
    using that by (auto simp: parse_configure_result_def fields_from_def string_item_def Let_def split: if_splits)
  have failed: "fields_from J json (result_failed alloc_ok reason (m\<lparr>msg_method := STRATUM_RESULT\<rparr>))" for reason
    by (simp add: fields_from_def result_failed_def Let_def)
  have succeeded: "cJSON_IsBool J ?res \<Longrightarrow> cJSON_IsTrue J ?res \<Longrightarrow> fields_from J json (m\<lparr>msg_method := STRATUM_RESULT, response_success := True\<rparr>)"
    by (simp add: fields_from_def Let_def)
  show ?thesis
    using assms failed succeeded sub conf unfolding parse_result_def Let_def by (auto split: option.splits if_splits)
qed

lemma dispatched_from:
  assumes "dispatch_message J alloc_ok json m = (True, m')"
  shows "fields_from J json m'"
proof (cases "msg_method m")
  case STRATUM_RESULT
  then show ?thesis using assms result_from [of J alloc_ok json m m'] by (simp add: dispatch_message_def)
next
  case MINING_NOTIFY
  then show ?thesis using assms notify_from [of J alloc_ok json m m'] by (simp add: dispatch_message_def)
next
  case MINING_SET_EXTRANONCE
  then obtain p where p: "params_of J json 2 = Some p"
    "set_extranonce_fields J alloc_ok (cJSON_GetArrayItem J (Some p) 0) (cJSON_GetArrayItem J (Some p) 1) m = (True, m')"
    using assms by (auto simp: dispatch_message_def parse_set_extranonce_def Let_def split: if_splits)
  show ?thesis
    using params_of_array [OF p(1)] extranonce_fields_from [OF p(2)] MINING_SET_EXTRANONCE by (simp add: fields_from_def Let_def)
qed (use assms in \<open>auto simp: dispatch_message_def fields_from_def parse_set_difficulty_def parse_set_version_mask_def
    parse_show_message_def parse_get_version_def params_of_def array_item_def string_item_def number_item_def Let_def split: if_splits\<close>)

lemma parsed_from:
  "STRATUM_V1_parse J alloc_ok line m = (True, m') \<Longrightarrow> \<exists>json. cJSON_Parse J line = Some json \<and> fields_from J (Some json) m'"
  by (auto simp: STRATUM_V1_parse_def Let_def split: if_splits dest!: dispatched_from)

text \<open>
  C13. A message that was read has every field that its kind uses, and each field is the value of an item of the
  JSON text that exists and has the type the value is read by (\<open>fields_from\<close>), whatever the pool sent: for a job, the
  parameters are an array of at least eight items, the texts and numbers come from strings, and every branch, at most
  32 of 32 bytes, from the string of its place in the array of branches; an extranonce is a string of at most 64
  characters, its second length a number, cut to 32 (there is no lower limit: a negative length is passed on); a
  share counts as accepted only for the boolean true. A refusal has a reason unless it could not be copied, and no
  message but a job carries one.
\<close>

theorem parse_complete:
  assumes "STRATUM_V1_parse J alloc_ok line m = (True, m')"
  shows "message_complete alloc_ok m' \<and> (\<exists>json. cJSON_Parse J line = Some json \<and> fields_from J (Some json) m')"
  using parsed_complete [OF assms] parsed_from [OF assms] by (rule conjI)

section \<open>Shares as the pool reads them\<close>

text \<open>The pieces of a text between separators, and the strings in quotes: every second piece.\<close>

fun split_on :: "u8 \<Rightarrow> bytes \<Rightarrow> bytes list" where
  "split_on sep [] = [[]]"
| "split_on sep (c # cs) = (if c = sep then [] # split_on sep cs else (case split_on sep cs of p # ps \<Rightarrow> (c # p) # ps | [] \<Rightarrow> [[c]]))"

fun quoted :: "bytes list \<Rightarrow> bytes list" where
  "quoted (p # q # ps) = q # quoted ps"
| "quoted _ = []"

lemma split_on_piece: "sep \<notin> set p \<Longrightarrow> split_on sep (p @ sep # r) = p # split_on sep r"
  by (induction p) auto

lemma split_on_last: "sep \<notin> set p \<Longrightarrow> split_on sep p = [p]"
  by (induction p) auto

lemma quoted_piece: "34 \<notin> set p \<Longrightarrow> 34 \<notin> set q \<Longrightarrow> quoted (split_on 34 (p @ 34 # q @ 34 # r)) = q # quoted (split_on 34 r)"
  by (simp add: split_on_piece)

lemma ascii_simps [simp]: "ascii [] = []" "ascii (c # cs) = of_char c # ascii cs"
  by (simp_all add: ascii_def)

lemma hex_char_digit: "d \<le> 15 \<Longrightarrow> hex_digit (hex_char d) = Some (unat d) \<and> hex_char d \<noteq> 34"
proof -
  have "list_all (\<lambda>n. hex_digit (hex_char (of_nat n)) = Some (unat (of_nat n :: u32)) \<and> hex_char (of_nat n) \<noteq> 34) [0..<16]" by code_simp
  moreover assume "d \<le> 15"
  then have "unat d < 16" by (simp add: word_le_nat_alt)
  ultimately show ?thesis by (rule word_all_less)
qed

lemma nibble: "drop_bit n (w :: u32) AND 15 \<le> 15" "unat (drop_bit n w AND 15) = unat w div 2 ^ n mod 16"
proof -
  have "(15 :: u32) = mask 4" by (simp add: mask_eq_exp_minus_1)
  then show "unat (drop_bit n w AND 15) = unat w div 2 ^ n mod 16"
    using unsigned_less [where ?'a = nat, of w]
    by (simp only: take_bit_eq_mask [symmetric] unsigned_take_bit_eq unsigned_drop_bit_eq) (simp add: take_bit_eq_mod drop_bit_eq_div)
  then show "drop_bit n w AND 15 \<le> 15" by (simp add: word_le_nat_alt)
qed

lemma hex_digits_sum:
  fixes x :: nat
  assumes "x < 16 ^ 8"
  shows "foldl (\<lambda>a i. 16 * a + x div 2 ^ (4 * (7 - i)) mod 16) 0 [0..<8] = x"
proof -
  have step: "x div k = 16 * (x div (16 * k)) + x div k mod 16" for k
    by (metis div_mult2_eq mult.commute mult_div_mod_eq)
  have "x div 268435456 mod 16 = x div 268435456" using assms by simp
  then show ?thesis
    using step [of 1] step [of 16] step [of 256] step [of 4096] step [of 65536] step [of 1048576] step [of 16777216]
    by (simp add: upt_rec)
qed

lemma hex_value_hex8: "hex_value (hex8 w) = unat w"
proof -
  have "hex_value (hex8 w) = foldl (\<lambda>a i. 16 * a + unat w div 2 ^ (4 * (7 - i)) mod 16) 0 [0..<8]"
    by (simp add: hex_value_def hex8_def foldl_map hex_char_digit nibble)
  then show ?thesis using hex_digits_sum [of "unat w"] unsigned_less [of w] by simp
qed

lemma hex8_digits: "\<forall>c \<in> set (hex8 w). hex_digit c \<noteq> None \<and> c \<noteq> 34"
  using hex_char_digit nibble(1) by (auto simp: hex8_def)

lemma length_hex8 [simp]: "length (hex8 w) = 8"
  by (simp add: hex8_def)

lemma hex_digit_char: "hex_digit c \<noteq> None \<Longrightarrow> \<not> is_space c \<and> c \<noteq> 45 \<and> c \<noteq> 43 \<and> c \<noteq> 120 \<and> c \<noteq> 88"
  by (auto simp: hex_digit_def is_space_def word_le_nat_alt unat_neq split: if_splits)

lemma strtoul16_digits:
  assumes "\<forall>c \<in> set s. hex_digit c \<noteq> None" "hex_value s < 2 ^ 32"
  shows "strtoul16 s = of_nat (hex_value s)"
proof -
  have "dropWhile is_space s = s" "scan_sign s = (False, s)" using assms(1) hex_digit_char
    by (cases s; auto simp: scan_sign_def)+
  moreover have "skip_0x s = s" using assms(1) hex_digit_char by (auto simp: skip_0x_def split: list.split)
  moreover have "takeWhile (\<lambda>c. hex_digit c \<noteq> None) s = s" using assms(1) by (simp add: takeWhile_eq_all_conv)
  ultimately show ?thesis using assms(2) unfolding strtoul16_def by (simp only: Let_def case_prod_conv if_False not_le [symmetric])
qed

lemma hex8_read_back: "strtoul16 (hex8 w) = w"
  using strtoul16_digits [of "hex8 w"] hex8_digits [of w] unsigned_less [of w] by (simp add: hex_value_hex8)

lemma dec_int_no_quote: "0 \<le> i \<Longrightarrow> 34 \<notin> set (dec_int_bytes i)"
  using dec_bytes_digits [of "nat i"] by (auto simp: dec_int_bytes_def is_digit_def)

text \<open>
  A share line that fits into the buffer, with a user, job and extranonce without quotes, is one line whose strings
  are the method and the six parameters in their order, and the last three read back as the time, the nonce and the
  version bits.
\<close>

theorem share_reads_back:
  assumes "0 \<le> uid" "uid < 10 ^ 10" "34 \<notin> set username" "34 \<notin> set job_id" "34 \<notin> set extranonce_2"
    and "length username + length job_id + length extranonce_2 \<le> 900"
  shows "quoted (split_on 34 (STRATUM_V1_submit_share uid username job_id extranonce_2 nt nonce version_bits)) =
      [ascii ''id'', ascii ''method'', ascii ''mining.submit'', ascii ''params'', username, job_id, extranonce_2, hex8 nt, hex8 nonce, hex8 version_bits] \<and>
    last (STRATUM_V1_submit_share uid username job_id extranonce_2 nt nonce version_bits) = 10 \<and>
    strtoul16 (hex8 nt) = nt \<and> strtoul16 (hex8 nonce) = nonce \<and> strtoul16 (hex8 version_bits) = version_bits"
proof -
  let ?t = "ascii ''{\"id\":'' @ dec_int_bytes uid @ ascii '',\"method\":\"mining.submit\",\"params\":[\"'' @ username @ ascii ''\",\"'' @ job_id @
       ascii ''\",\"'' @ extranonce_2 @ ascii ''\",\"'' @ hex8 nt @ ascii ''\",\"'' @ hex8 nonce @ ascii ''\",\"'' @ hex8 version_bits @ ascii ''\"]}'' @ [10]"
  have "length (dec_int_bytes uid) \<le> 10" using assms(1,2) length_dec_bytes [of "nat uid" 9] by (simp add: dec_int_bytes_def)
  then have "length ?t \<le> 1023" using assms(6) by simp
  then have line: "STRATUM_V1_submit_share uid username job_id extranonce_2 nt nonce version_bits = ?t"
    by (simp add: STRATUM_V1_submit_share_def line_text_def BUFFER_SIZE_def)
  have pieces: "?t = [123] @ 34 # ascii ''id'' @ 34 # ([58] @ dec_int_bytes uid @ [44]) @ 34 # ascii ''method'' @ 34 # [58] @ 34 # ascii ''mining.submit'' @ 34 # [44] @
      34 # ascii ''params'' @ 34 # [58, 91] @ 34 # username @ 34 # [44] @ 34 # job_id @ 34 # [44] @ 34 # extranonce_2 @ 34 # [44] @ 34 # hex8 nt @
      34 # [44] @ 34 # hex8 nonce @ 34 # [44] @ 34 # hex8 version_bits @ 34 # [93, 125, 10]"
    by simp
  have no: "34 \<notin> set (hex8 w)" for w using hex8_digits [of w] by auto
  have uid: "34 \<notin> set ([58] @ dec_int_bytes uid @ [44])" using dec_int_no_quote [OF assms(1)] by simp
  have names: "34 \<notin> set (ascii ''id'')" "34 \<notin> set (ascii ''method'')" "34 \<notin> set (ascii ''mining.submit'')" "34 \<notin> set (ascii ''params'')" by simp_all
  have "quoted (split_on 34 ?t) = [ascii ''id'', ascii ''method'', ascii ''mining.submit'', ascii ''params'', username, job_id, extranonce_2,
      hex8 nt, hex8 nonce, hex8 version_bits]"
    unfolding pieces using assms(3-5) no uid names
    by (simp add: quoted_piece split_on_last del: append.simps split_on.simps ascii_simps append_assoc)
  then show ?thesis unfolding line by (simp add: hex8_read_back)
qed

theorem share_reads_back_witness:
  "quoted (split_on 34 (STRATUM_V1_submit_share 7 (ascii ''user'') (ascii ''1b4c'') (ascii ''00ff'') 0x64495522 0xdeadbeef 0x2000)) =
     map ascii [''id'', ''method'', ''mining.submit'', ''params'', ''user'', ''1b4c'', ''00ff'', ''64495522'', ''deadbeef'', ''00002000'']"
proof -
  have "hex8 0x64495522 = ascii ''64495522''" "hex8 0xdeadbeef = ascii ''deadbeef''" "hex8 0x2000 = ascii ''00002000''" by code_simp+
  then show ?thesis
    using share_reads_back [of 7 "ascii ''user''" "ascii ''1b4c''" "ascii ''00ff''" "0x64495522" "0xdeadbeef" "0x2000"] by simp
qed

text \<open>A cJSON over trees, for the examples: its parser knows a table of texts.\<close>

datatype tree = Null | Bool bool | Number int | String bytes | Array "tree list" | Object "(bytes \<times> tree) list"

definition tree_item :: "tree option \<Rightarrow> int \<Rightarrow> tree option" where
  "tree_item t i = (case t of Some (Array ts) \<Rightarrow> if 0 \<le> i \<and> nat i < length ts then Some (ts ! nat i) else None | _ \<Rightarrow> None)"

definition tree_lib :: "(bytes \<times> tree) list \<Rightarrow> tree cjson_lib" where
  "tree_lib table = \<lparr>cJSON_Parse = map_of table,
     cJSON_GetObjectItem = (\<lambda>t k. case t of Some (Object kvs) \<Rightarrow> map_of kvs k | _ \<Rightarrow> None),
     cJSON_GetArrayItem = tree_item, cJSON_GetArraySize = (\<lambda>t. case t of Some (Array ts) \<Rightarrow> int (length ts) | _ \<Rightarrow> 0),
     cJSON_IsString = (\<lambda>t. case t of Some (String _) \<Rightarrow> True | _ \<Rightarrow> False),
     cJSON_IsNumber = (\<lambda>t. case t of Some (Number _) \<Rightarrow> True | _ \<Rightarrow> False),
     cJSON_IsArray = (\<lambda>t. case t of Some (Array _) \<Rightarrow> True | _ \<Rightarrow> False),
     cJSON_IsObject = (\<lambda>t. case t of Some (Object _) \<Rightarrow> True | _ \<Rightarrow> False),
     cJSON_IsBool = (\<lambda>t. case t of Some (Bool _) \<Rightarrow> True | _ \<Rightarrow> False),
     cJSON_IsTrue = (\<lambda>t. t = Some (Bool True)), cJSON_IsNull = (\<lambda>t. t = Some Null),
     valuestring = (\<lambda>t. case t of Some (String s) \<Rightarrow> s | _ \<Rightarrow> []), valueint = (\<lambda>t. case t of Some (Number n) \<Rightarrow> n | _ \<Rightarrow> 0),
     valuedouble = (\<lambda>t. case t of Some (Number n) \<Rightarrow> of_int n | _ \<Rightarrow> 0)\<rparr>"

lemmas tree_lib_simps = tree_lib_def tree_item_def

definition example_subscribe :: bytes where
  "example_subscribe = ascii ''subscribe result''"

definition example_json :: "tree cjson_lib" where
  "example_json = tree_lib
     [(example_subscribe, Object [(ascii ''result'', Array [Array [], String (ascii ''4de05269''), Number 40]), (ascii ''id'', Number 2), (ascii ''error'', Null)]),
      (ascii ''reconnect'', Object [(ascii ''method'', String (ascii ''client.reconnect''))]),
      (ascii ''refused 4'', Object [(ascii ''id'', Number 4), (ascii ''result'', Null), (ascii ''error'', Array [Number 20, String (ascii ''unknown method'')])]),
      (ascii ''set difficulty'', Object [(ascii ''method'', String (ascii ''mining.set_difficulty'')), (ascii ''params'', Array [Number 1638])])]"

definition empty_message :: StratumApiV1Message where
  "empty_message = \<lparr>msg_extranonce_str = None, msg_extranonce_2_len = 0, message_id = 0, msg_method = METHOD_UNKNOWN, mining_notification = None,
     new_difficulty = 0, msg_version_mask = 0, response_success = False, error_str = None, show_message = None, version_string = None\<rparr>"

lemma example_subscribe_parsed:
  "STRATUM_V1_parse example_json True example_subscribe empty_message =
     (True, empty_message\<lparr>msg_method := STRATUM_RESULT_SUBSCRIBE, message_id := 2, response_success := True,
        msg_extranonce_str := Some (ascii ''4de05269''), msg_extranonce_2_len := 32\<rparr>)"
  by (simp add: STRATUM_V1_parse_def example_json_def tree_lib_simps example_subscribe_def dispatch_message_def parse_method_def
      parse_result_def error_text_def parse_subscribe_result_def set_extranonce_fields_def MAX_EXTRANONCE_STR_LEN_def
      MAX_EXTRANONCE_2_LEN_def STRATUM_V1_reset_message_def empty_message_def Let_def)

theorem parse_complete_witness:
  "\<exists>m. STRATUM_V1_parse example_json True example_subscribe empty_message = (True, m) \<and> message_complete True m \<and>
     (\<exists>json. cJSON_Parse example_json example_subscribe = Some json \<and> fields_from example_json (Some json) m)"
  using parse_complete [OF example_subscribe_parsed] example_subscribe_parsed by blast

end
