(* ===== verification/Radix.thy ===== *)
theory Radix
  imports Prelude
begin

text \<open>
  Texts of digits as numbers, the most significant digit first: shared by the two address encodings, which change the
  base of a number.
\<close>

definition radix :: "nat \<Rightarrow> bytes \<Rightarrow> nat" where
  "radix k = foldl (\<lambda>a d. a * k + unat d) 0"

lemma radix_from: "foldl (\<lambda>a d. a * k + unat d) acc ds = acc * k ^ length ds + radix k ds"
proof (induction ds arbitrary: acc)
  case (Cons d ds)
  show ?case using Cons.IH [of "acc * k + unat d"] Cons.IH [of "unat d"]
    by (simp add: radix_def algebra_simps)
qed (simp add: radix_def)

lemma radix_Nil [simp]: "radix k [] = 0"
  by (simp add: radix_def)

lemma radix_Cons: "radix k (d # ds) = unat d * k ^ length ds + radix k ds"
  using radix_from [of k "unat d" ds] by (simp add: radix_def)

lemma radix_append: "radix k (xs @ ys) = radix k xs * k ^ length ys + radix k ys"
  using radix_from [of k "radix k xs" ys] by (simp add: radix_def)

lemma radix_snoc: "radix k (xs @ [d]) = radix k xs * k + unat d"
  by (simp add: radix_def)

definition digits_below :: "nat \<Rightarrow> bytes \<Rightarrow> bool" where
  "digits_below k ds \<longleftrightarrow> (\<forall>d \<in> set ds. unat d < k)"

lemma digits_below_simps [simp]:
  "digits_below k []" "digits_below k (d # ds) \<longleftrightarrow> unat d < k \<and> digits_below k ds"
  "digits_below k (xs @ ys) \<longleftrightarrow> digits_below k xs \<and> digits_below k ys"
  by (auto simp: digits_below_def)

lemma bytes_below [simp]: "digits_below 256 bs"
  using unsigned_less [where ?'a = nat and ?'b = 8] by (auto simp: digits_below_def)

lemma radix_less: "digits_below k ds \<Longrightarrow> radix k ds < k ^ length ds"
proof (induction ds)
  case (Cons d ds)
  then have "unat d * k ^ length ds + radix k ds < (unat d + 1) * k ^ length ds" by simp
  also have "\<dots> \<le> k * k ^ length ds" using Cons.prems by (intro mult_le_mono1) simp
  finally show ?case by (simp add: radix_Cons)
qed simp

text \<open>As many digits with the same value are the same digits.\<close>

lemma radix_inj:
  "length xs = length ys \<Longrightarrow> digits_below k xs \<Longrightarrow> digits_below k ys \<Longrightarrow> radix k xs = radix k ys \<Longrightarrow> xs = ys"
proof (induction xs ys rule: list_induct2)
  case (Cons x xs y ys)
  have "radix k xs < k ^ length xs" "radix k ys < k ^ length xs" using Cons.prems radix_less [of k xs] radix_less [of k ys] Cons.hyps by simp_all
  moreover have "unat x * k ^ length xs + radix k xs = unat y * k ^ length xs + radix k ys" using Cons.prems Cons.hyps by (simp add: radix_Cons)
  ultimately have "unat x = unat y" "radix k xs = radix k ys"
    by (metis add.commute div_mult_self3 gr_implies_not0 less_nat_zero_code div_less add_0)
      (metis mod_less mod_mult_self3 \<open>unat x * k ^ length xs + radix k xs = unat y * k ^ length xs + radix k ys\<close> \<open>radix k xs < k ^ length xs\<close> \<open>radix k ys < k ^ length xs\<close>)
  then show ?case using Cons.IH Cons.prems by (simp add: word_unat_eq_iff)
qed simp

lemma radix_zeros [simp]: "radix k (replicate n 0 @ ds) = radix k ds"
  by (induction n) (simp_all add: radix_Cons)

lemma radix_replicate [simp]: "radix k (replicate n 0) = 0"
  using radix_zeros [of k n "[]"] by simp

end
