(* ===== verification/Segwit.thy ===== *)
theory Segwit
  imports Stratum_Api Radix
begin

text \<open>
  \<open>components/stratum/segwit_addr.c\<close>: Bech32 and the addresses of witness programs. A text is a list of bytes
  without zeros; an output buffer that is left partly written on a failure is not part of the model.
\<close>

section \<open>The checksum\<close>

definition bech32_generator :: "nat \<Rightarrow> u32 \<Rightarrow> u8 \<Rightarrow> u32" where
  "bech32_generator i g b = (if bit b i then g else 0)"

definition bech32_polymod_step :: "u32 \<Rightarrow> u32" where
  "bech32_polymod_step pre =
     (let b = ucast (drop_bit 25 pre) :: u8
      in push_bit 5 (pre AND 0x1FFFFFF) XOR bech32_generator 0 0x3b6a57b2 b XOR bech32_generator 1 0x26508e6d b XOR
         bech32_generator 2 0x1ea119fa b XOR bech32_generator 3 0x3d4233dd b XOR bech32_generator 4 0x2a1462b3 b)"

datatype bech32_encoding = BECH32_ENCODING_NONE | BECH32_ENCODING_BECH32 | BECH32_ENCODING_BECH32M

text \<open>The assertion for \<open>BECH32_ENCODING_NONE\<close> is not reached: no caller passes it.\<close>

definition bech32_final_constant :: "bech32_encoding \<Rightarrow> u32" where
  "bech32_final_constant enc = (if enc = BECH32_ENCODING_BECH32 then 1 else 0x2bc830a3)"

section \<open>Characters\<close>

definition charset :: bytes where
  "charset = ascii ''qpzry9x8gf2tvdw0s3jn54khce6mua7l''"

definition charset_rev :: "int list" where
  "charset_rev =
    [-1, -1, -1, -1, -1, -1, -1, -1, -1, -1, -1, -1, -1, -1, -1, -1,
     -1, -1, -1, -1, -1, -1, -1, -1, -1, -1, -1, -1, -1, -1, -1, -1,
     -1, -1, -1, -1, -1, -1, -1, -1, -1, -1, -1, -1, -1, -1, -1, -1,
     15, -1, 10, 17, 21, 20, 26, 30,  7,  5, -1, -1, -1, -1, -1, -1,
     -1, 29, -1, 24, 13, 25,  9,  8, 23, -1, 18, 22, 31, 27, 19, -1,
      1,  0,  3, 16, 11, 28, 12, 14,  6,  4,  2, -1, -1, -1, -1, -1,
     -1, 29, -1, 24, 13, 25,  9,  8, 23, -1, 18, 22, 31, 27, 19, -1,
      1,  0,  3, 16, 11, 28, 12, 14,  6,  4,  2, -1, -1, -1, -1, -1]"

definition is_upper :: "u8 \<Rightarrow> bool" where "is_upper c \<longleftrightarrow> 65 \<le> c \<and> c \<le> 90"
definition is_lower :: "u8 \<Rightarrow> bool" where "is_lower c \<longleftrightarrow> 97 \<le> c \<and> c \<le> 122"

text \<open>The value of a character, -1 for none.\<close>

definition char_value :: "u8 \<Rightarrow> int" where
  "char_value c = (if bit c 7 then -1 else charset_rev ! unat c)"

section \<open>Encoding\<close>

text \<open>The checksum runs over the high parts of the prefix, a zero, its low parts, the data.\<close>

definition hrp_checksum :: "bytes \<Rightarrow> u32" where
  "hrp_checksum hrp =
     foldl (\<lambda>chk ch. bech32_polymod_step chk XOR ucast (ch AND 0x1f))
       (bech32_polymod_step (foldl (\<lambda>chk ch. bech32_polymod_step chk XOR ucast (drop_bit 5 ch)) 1 hrp)) hrp"

definition data_checksum :: "u32 \<Rightarrow> bytes \<Rightarrow> u32" where
  "data_checksum = foldl (\<lambda>chk d. bech32_polymod_step chk XOR ucast d)"

definition bech32_encode :: "bytes \<Rightarrow> bytes \<Rightarrow> bech32_encoding \<Rightarrow> bytes option" where
  "bech32_encode hrp data enc =
     (if \<exists>ch \<in> set hrp. ch < 33 \<or> ch > 126 \<or> is_upper ch then None
      else if length hrp + 7 + length data > 90 then None
      else if \<exists>d \<in> set data. drop_bit 5 d \<noteq> 0 then None
      else
        let chk = (bech32_polymod_step ^^ 6) (data_checksum (hrp_checksum hrp) data) XOR bech32_final_constant enc
        in Some (hrp @ 49 # map (\<lambda>d. charset ! unat d) data @
             map (\<lambda>i. charset ! unat (drop_bit ((5 - i) * 5) chk AND 0x1f)) [0..<6]))"

section \<open>Decoding\<close>

text \<open>The encoding, the prefix in lower case, and the data without the checksum.\<close>

definition bech32_decode :: "bytes \<Rightarrow> bech32_encoding \<times> bytes \<times> bytes" where
  "bech32_decode input =
     (let input_len = length input; none = (BECH32_ENCODING_NONE, [], [])
      in if input_len < 8 \<or> input_len > 90 then none
         else
           let data_len = length (takeWhile (\<lambda>c. c \<noteq> 49) (rev input)); hrp_len = input_len - (1 + data_len)
           in if 1 + data_len \<ge> input_len \<or> data_len < 6 then none
              else
                let hrp_in = take hrp_len input; rest = drop (hrp_len + 1) input;
                    hrp = map (\<lambda>ch. if is_upper ch then ch - 65 + 97 else ch) hrp_in;
                    vs = map char_value rest
                in if (\<exists>ch \<in> set hrp_in. ch < 33 \<or> ch > 126) \<or> -1 \<in> set vs then none
                   else if (\<exists>c \<in> set (hrp_in @ rest). is_lower c) \<and> (\<exists>c \<in> set (hrp_in @ rest). is_upper c) then none
                   else
                     let chk1 = foldl (\<lambda>chk ch. bech32_polymod_step chk XOR ucast (drop_bit 5 ch)) 1 hrp;
                         chk2 = foldl (\<lambda>chk ch. bech32_polymod_step chk XOR ucast (ch AND 0x1f)) (bech32_polymod_step chk1) hrp_in;
                         chk = foldl (\<lambda>chk v. bech32_polymod_step chk XOR of_int v) chk2 vs;
                         data = map of_int (take (data_len - 6) vs)
                     in if chk = bech32_final_constant BECH32_ENCODING_BECH32 then (BECH32_ENCODING_BECH32, hrp, data)
                        else if chk = bech32_final_constant BECH32_ENCODING_BECH32M then (BECH32_ENCODING_BECH32M, hrp, data)
                        else none)"

section \<open>Regrouping of bits\<close>

text \<open>The groups that can be emitted, and the number of bits left over.\<close>

function emit_bits :: "nat \<Rightarrow> u32 \<Rightarrow> nat \<Rightarrow> bytes \<times> nat" where
  "emit_bits outbits val bits =
     (if bits \<ge> outbits \<and> outbits > 0
      then (case emit_bits outbits val (bits - outbits) of
              (out, left) \<Rightarrow> (ucast (drop_bit (bits - outbits) val AND (push_bit outbits 1 - 1)) # out, left))
      else ([], bits))"
  by auto
termination by (relation "measure (\<lambda>(outbits, val, bits). bits)") auto

declare emit_bits.simps [simp del]

fun convert_loop :: "nat \<Rightarrow> nat \<Rightarrow> bytes \<Rightarrow> u32 \<Rightarrow> nat \<Rightarrow> bytes \<Rightarrow> u32 \<times> nat \<times> bytes" where
  "convert_loop outbits inbits [] val bits out = (val, bits, out)"
| "convert_loop outbits inbits (b # bs) val bits out =
     (let val1 = push_bit inbits val OR ucast b
      in case emit_bits outbits val1 (bits + inbits) of
           (gs, bits1) \<Rightarrow> convert_loop outbits inbits bs val1 bits1 (out @ gs))"

definition convert_bits :: "nat \<Rightarrow> bytes \<Rightarrow> nat \<Rightarrow> bool \<Rightarrow> bytes option" where
  "convert_bits outbits input inbits pad =
     (let maxv = push_bit outbits 1 - 1
      in case convert_loop outbits inbits input 0 0 [] of
           (val, bits, out) \<Rightarrow>
             let last_group = push_bit (outbits - bits) val AND maxv
             in if pad then Some (if bits \<noteq> 0 then out @ [ucast last_group] else out)
                else if last_group \<noteq> 0 \<or> bits \<ge> inbits then None else Some out)"

section \<open>Addresses\<close>

definition segwit_addr_encode :: "bytes \<Rightarrow> int \<Rightarrow> bytes \<Rightarrow> bytes option" where
  "segwit_addr_encode hrp witver witprog =
     (if witver > 16 then None
      else if witver = 0 \<and> length witprog \<noteq> 20 \<and> length witprog \<noteq> 32 then None
      else if length witprog < 2 \<or> length witprog > 40 then None
      else
        let enc = (if witver > 0 then BECH32_ENCODING_BECH32M else BECH32_ENCODING_BECH32)
        in bech32_encode hrp (of_int witver # the (convert_bits 5 witprog 8 True)) enc)"

definition segwit_addr_decode :: "bytes \<Rightarrow> bytes \<Rightarrow> (int \<times> bytes) option" where
  "segwit_addr_decode hrp addr =
     (case bech32_decode addr of
        (enc, hrp_actual, data) \<Rightarrow>
          if enc = BECH32_ENCODING_NONE then None
          else if length data = 0 \<or> length data > 65 then None
          else if hrp \<noteq> hrp_actual then None
          else if data ! 0 > 16 then None
          else if data ! 0 = 0 \<and> enc \<noteq> BECH32_ENCODING_BECH32 then None
          else if data ! 0 > 0 \<and> enc \<noteq> BECH32_ENCODING_BECH32M then None
          else case convert_bits 8 (tl data) 5 False of
                 None \<Rightarrow> None
               | Some witdata \<Rightarrow>
                   if length witdata < 2 \<or> length witdata > 40 then None
                   else if data ! 0 = 0 \<and> length witdata \<noteq> 20 \<and> length witdata \<noteq> 32 then None
                   else Some (uint (data ! 0), witdata))"

section \<open>Regrouping keeps the number\<close>

lemma group_value:
  assumes "0 < outbits" "outbits \<le> 8"
  shows "unat (ucast (drop_bit n (val :: u32) AND (push_bit outbits 1 - 1)) :: u8) = unat val div 2 ^ n mod 2 ^ outbits"
proof -
  have m: "push_bit outbits (1 :: u32) - 1 = mask outbits" by (simp add: mask_eq_exp_minus_1 push_bit_eq_mult)
  have "unat val div 2 ^ n mod 2 ^ outbits < 2 ^ 8"
    using assms less_le_trans [OF mod_less_divisor power_increasing [of outbits 8 "2::nat"], of "unat val div 2 ^ n"] by simp
  moreover have "unat val mod 4294967296 = unat val" using unsigned_less [where ?'a = nat, of val] by simp
  ultimately show ?thesis unfolding m using assms
    by (simp add: take_bit_eq_mask [symmetric] unsigned_ucast_eq unsigned_take_bit_eq unsigned_drop_bit_eq)
      (simp add: take_bit_eq_mod drop_bit_eq_div min_def)
qed

lemma emit_bits_value:
  assumes "0 < outbits" "outbits \<le> 8" "emit_bits outbits val bits = (gs, left)"
  shows "left < outbits \<and> length gs * outbits + left = bits \<and> digits_below (2 ^ outbits) gs \<and>
    radix (2 ^ outbits) gs * 2 ^ left + unat val mod 2 ^ left = unat val mod 2 ^ bits"
  using assms
proof (induction outbits val bits arbitrary: gs left rule: emit_bits.induct)
  case (1 outbits val bits)
  show ?case
  proof (cases "bits \<ge> outbits")
    case False
    then show ?thesis using 1(2,4) by (simp add: emit_bits.simps [of outbits])
  next
    case True
    obtain gs' where rest: "emit_bits outbits val (bits - outbits) = (gs', left)"
      "gs = ucast (drop_bit (bits - outbits) val AND (push_bit outbits 1 - 1)) # gs'"
      using 1(2,4) True by (auto simp: emit_bits.simps [of outbits val bits] split: prod.splits)
    from 1(1) [OF _ 1(2,3) rest(1)] True 1(2) have ih: "left < outbits" "length gs' * outbits + left = bits - outbits"
      "digits_below (2 ^ outbits) gs'" "radix (2 ^ outbits) gs' * 2 ^ left + unat val mod 2 ^ left = unat val mod 2 ^ (bits - outbits)" by auto
    let ?n = "bits - outbits"
    have "(2 :: nat) ^ bits = 2 ^ ?n * 2 ^ outbits" using True by (simp flip: power_add)
    then have "unat val mod 2 ^ bits = 2 ^ ?n * (unat val div 2 ^ ?n mod 2 ^ outbits) + unat val mod 2 ^ ?n" by (simp add: mod_mult2_eq)
    moreover have "(2 ^ outbits) ^ length gs' * 2 ^ left = (2 :: nat) ^ ?n" using ih(2) by (simp flip: power_mult power_add add: mult.commute)
    then have "radix (2 ^ outbits) gs * 2 ^ left + unat val mod 2 ^ left =
        unat val div 2 ^ ?n mod 2 ^ outbits * 2 ^ ?n + (radix (2 ^ outbits) gs' * 2 ^ left + unat val mod 2 ^ left)"
      by (simp add: rest(2) radix_Cons group_value [OF 1(2,3)] distrib_right mult.assoc del: push_bit_of_1)
    ultimately show ?thesis using ih True rest(2) by (simp add: group_value [OF 1(2,3)] mult.commute del: push_bit_of_1)
  qed
qed

lemma shift_in:
  assumes "unat b < 2 ^ inbits" "bits + inbits \<le> 32"
  shows "unat (push_bit inbits val OR ucast (b :: u8) :: u32) mod 2 ^ (bits + inbits) = unat val mod 2 ^ bits * 2 ^ inbits + unat b"
proof -
  have b: "unat (ucast b :: u32) = unat b" by (rule unat_ucast_widen) simp
  have disjoint: "push_bit inbits n AND m = 0" if "m < 2 ^ inbits" for n m :: nat
    using that by (auto intro!: bit_eqI simp: bit_simps) (metis bit_take_bit_iff not_le take_bit_nat_eq_self)
  have "unat (push_bit inbits val OR ucast b :: u32) = take_bit 32 (push_bit inbits (unat val)) OR unat b"
    by (simp add: unsigned_or_eq unsigned_push_bit_eq b)
  then have "take_bit (bits + inbits) (unat (push_bit inbits val OR ucast b :: u32)) =
      take_bit (bits + inbits) (push_bit inbits (unat val)) OR take_bit (bits + inbits) (unat b)"
    using assms(2) by (simp add: min_def)
  also have "take_bit (bits + inbits) (push_bit inbits (unat val)) = push_bit inbits (take_bit bits (unat val))"
    by (simp add: take_bit_push_bit)
  also have "take_bit (bits + inbits) (unat b) = unat b"
    using assms(1) less_le_trans [OF assms(1) power_increasing [of inbits "bits + inbits" "2::nat"]] by (simp add: take_bit_nat_eq_self)
  also have "push_bit inbits (take_bit bits (unat val)) OR unat b = push_bit inbits (take_bit bits (unat val)) + unat b"
    by (rule disjunctive_add_eq_or [symmetric]) (rule disjoint [OF assms(1)])
  finally show ?thesis by (simp add: take_bit_eq_mod push_bit_eq_mult)
qed

lemma convert_loop_value:
  assumes "0 < outbits" "outbits \<le> 8" "outbits + inbits \<le> 32" "digits_below (2 ^ inbits) bs" "digits_below (2 ^ outbits) out"
    and "bits < outbits" "convert_loop outbits inbits bs val bits out = (val', bits', out')"
  shows "bits' < outbits \<and> length out' * outbits + bits' = length out * outbits + bits + length bs * inbits \<and> digits_below (2 ^ outbits) out' \<and>
    radix (2 ^ outbits) out' * 2 ^ bits' + unat val' mod 2 ^ bits' =
      (radix (2 ^ outbits) out * 2 ^ bits + unat val mod 2 ^ bits) * 2 ^ (length bs * inbits) + radix (2 ^ inbits) bs"
  using assms(4-7)
proof (induction bs arbitrary: val bits out)
  case (Cons b bs)
  let ?val1 = "push_bit inbits val OR ucast b :: u32"
  obtain gs bits1 where emit: "emit_bits outbits ?val1 (bits + inbits) = (gs, bits1)" by (cases "emit_bits outbits ?val1 (bits + inbits)")
  note e = emit_bits_value [OF assms(1,2) emit]
  have loop: "convert_loop outbits inbits bs ?val1 bits1 (out @ gs) = (val', bits', out')" using Cons.prems(4) emit by (simp add: Let_def)
  have ih: "bits' < outbits \<and> length out' * outbits + bits' = length (out @ gs) * outbits + bits1 + length bs * inbits \<and> digits_below (2 ^ outbits) out' \<and>
    radix (2 ^ outbits) out' * 2 ^ bits' + unat val' mod 2 ^ bits' =
      (radix (2 ^ outbits) (out @ gs) * 2 ^ bits1 + unat ?val1 mod 2 ^ bits1) * 2 ^ (length bs * inbits) + radix (2 ^ inbits) bs"
    using Cons.IH [of "out @ gs" bits1 ?val1] Cons.prems e loop by simp
  have "unat ?val1 mod 2 ^ (bits + inbits) = unat val mod 2 ^ bits * 2 ^ inbits + unat b"
    using shift_in [of b inbits bits val] Cons.prems(1,3) assms(3) by simp
  moreover have "(2 ^ outbits) ^ length gs * 2 ^ bits1 = (2 :: nat) ^ (bits + inbits)" using e by (simp flip: power_mult power_add add: mult.commute)
  then have "radix (2 ^ outbits) (out @ gs) * 2 ^ bits1 = radix (2 ^ outbits) out * 2 ^ (bits + inbits) + radix (2 ^ outbits) gs * 2 ^ bits1"
    by (simp add: radix_append distrib_right mult.assoc)
  ultimately have "radix (2 ^ outbits) (out @ gs) * 2 ^ bits1 + unat ?val1 mod 2 ^ bits1 =
      (radix (2 ^ outbits) out * 2 ^ bits + unat val mod 2 ^ bits) * 2 ^ inbits + unat b"
    using e by (simp add: power_add distrib_right)
  moreover have "(2 :: nat) ^ (length (b # bs) * inbits) = 2 ^ inbits * 2 ^ (length bs * inbits)" by (simp add: power_add)
  moreover have "radix (2 ^ inbits) (b # bs) = unat b * 2 ^ (length bs * inbits) + radix (2 ^ inbits) bs"
    by (simp add: radix_Cons mult.commute flip: power_mult)
  ultimately show ?case using ih e by (simp add: distrib_right)
qed simp

text \<open>Eight bits to five with padding, and back, gives the bytes.\<close>

lemma last_group_value:
  assumes "bits < outbits" "outbits \<le> 8"
  shows "unat (push_bit (outbits - bits) val AND (push_bit outbits 1 - 1) :: u32) = unat val mod 2 ^ bits * 2 ^ (outbits - bits)"
proof -
  have m: "push_bit outbits (1 :: u32) - 1 = mask outbits" by (simp add: mask_eq_exp_minus_1 push_bit_eq_mult)
  have "take_bit outbits (push_bit (outbits - bits) (unat val)) = push_bit (outbits - bits) (take_bit bits (unat val))"
    using assms(1) by (simp add: take_bit_push_bit)
  then show ?thesis unfolding m using assms
    by (simp add: take_bit_eq_mask [symmetric] unsigned_take_bit_eq unsigned_push_bit_eq min_def)
      (simp add: take_bit_eq_mod push_bit_eq_mult)
qed

lemma pad_groups:
  obtains gs p where "convert_bits 5 prog 8 True = Some gs" "digits_below 32 gs" "p < 5" "length gs * 5 = length prog * 8 + p"
    "radix 32 gs = radix 256 prog * 2 ^ p"
proof -
  obtain val bits out where loop: "convert_loop 5 8 prog 0 0 [] = (val, bits, out)" by (cases "convert_loop 5 8 prog 0 0 []")
  have "digits_below (2 ^ 8) prog" by simp
  from convert_loop_value [OF _ _ _ this _ _ loop] have l: "bits < 5" "length out * 5 + bits = length prog * 8" "digits_below 32 out"
    "radix 32 out * 2 ^ bits + unat val mod 2 ^ bits = radix 256 prog" by simp_all
  let ?last = "push_bit (5 - bits) val AND (push_bit 5 1 - 1) :: u32"
  have last: "unat ?last = unat val mod 2 ^ bits * 2 ^ (5 - bits)" using last_group_value [of bits 5 val] l(1) by simp
  have "unat val mod 2 ^ bits * 2 ^ (5 - bits) < 2 ^ bits * 2 ^ (5 - bits)" by simp
  also have "\<dots> = 32" using l(1) by (simp flip: power_add)
  finally have small: "unat ?last < 32" using last by simp
  then have "unat (ucast ?last :: u8) = unat ?last" by (simp add: unsigned_ucast_eq take_bit_nat_eq_self)
  show thesis
  proof (cases "bits = 0")
    case True
    then show thesis using that [of out 0] l by (simp add: convert_bits_def loop Let_def)
  next
    case False
    have "radix 32 (out @ [ucast ?last]) = radix 256 prog * 2 ^ (5 - bits)"
      using l(1) \<open>unat (ucast ?last :: u8) = unat ?last\<close> last
      by (simp add: radix_snoc l(4) [symmetric] distrib_right mult.assoc flip: power_add)
    with False show thesis using that [of "out @ [ucast ?last]" "5 - bits"] l small \<open>unat (ucast ?last :: u8) = unat ?last\<close>
      by (simp add: convert_bits_def loop Let_def)
  qed
qed

lemma unpad_groups:
  assumes "digits_below 32 gs" "p < 5" "length gs * 5 = length prog * 8 + p" "radix 32 gs = radix 256 prog * 2 ^ p"
  shows "convert_bits 8 gs 5 False = Some prog"
proof -
  obtain val bits out where loop: "convert_loop 8 5 gs 0 0 [] = (val, bits, out)" by (cases "convert_loop 8 5 gs 0 0 []")
  have "digits_below (2 ^ 5) gs" using assms(1) by simp
  from convert_loop_value [OF _ _ _ this _ _ loop] have l: "bits < 8" "length out * 8 + bits = length gs * 5" "digits_below 256 out"
    "radix 256 out * 2 ^ bits + unat val mod 2 ^ bits = radix 32 gs" by simp_all
  have eight: "length out * 8 + bits = length prog * 8 + p" using l(2) assms(3) by simp
  have "bits = (length out * 8 + bits) mod 8" using l(1) by simp
  also have "\<dots> = p" unfolding eight using assms(2) by simp
  finally have len: "bits = p" "length out = length prog" using eight by simp_all
  have split: "b = 0 \<and> a = c" if "a * k + b = c * k" "b < k" for a b c k :: nat
  proof -
    from that(1) have "(a * k + b) mod k = c * k mod k" by simp
    then have "b = 0" using that(2) by simp
    with that show ?thesis by simp
  qed
  have "radix 256 out * 2 ^ p + unat val mod 2 ^ p = radix 256 prog * 2 ^ p" using l(4) len assms(4) by simp
  from split [OF this] have r: "unat val mod 2 ^ p = 0" "radix 256 out = radix 256 prog" by simp_all
  have "push_bit (8 - bits) val AND (push_bit 8 1 - 1) = (0 :: u32)"
    using last_group_value [of bits 8 val] l(1) r(1) len(1) by (simp add: word_unat_eq_iff)
  moreover have "out = prog" by (rule radix_inj [OF len(2) l(3) _ r(2)]) simp
  ultimately show ?thesis using len(1) assms(2) by (simp add: convert_bits_def loop Let_def)
qed

section \<open>The checksum is linear\<close>

lemma bech32_polymod_step_xor: "bech32_polymod_step (x XOR y) = bech32_polymod_step x XOR bech32_polymod_step y"
proof -
  have gen: "bech32_generator i g (a XOR b) = bech32_generator i g a XOR bech32_generator i g b" for i g a b
    by (simp add: bech32_generator_def bit_xor_iff)
  have "push_bit 5 ((x XOR y) AND 0x1FFFFFF) = push_bit 5 (x AND 0x1FFFFFF) XOR push_bit 5 (y AND 0x1FFFFFF)"
    by (simp add: bit.conj_xor_distrib2 push_bit_xor)
  moreover have "(ucast (drop_bit 25 (x XOR y)) :: u8) = ucast (drop_bit 25 x) XOR ucast (drop_bit 25 y)"
    by (simp add: drop_bit_xor unsigned_xor_eq)
  ultimately show ?thesis by (simp add: bech32_polymod_step_def Let_def gen ac_simps)
qed

lemma take_bit_small: "take_bit 25 (v :: u32) = v \<longleftrightarrow> v < 2 ^ 25" "take_bit 5 (v :: u32) = v \<longleftrightarrow> v < 2 ^ 5"
  by (simp_all add: word_unat_eq_iff word_less_nat_alt unsigned_take_bit_eq take_bit_nat_eq_self_iff)

lemma bech32_polymod_step_small:
  assumes "v < 2 ^ 25"
  shows "bech32_polymod_step v = push_bit 5 v"
proof -
  have v: "take_bit 25 v = v" using assms by (simp add: take_bit_small)
  then have "drop_bit 25 v = drop_bit 25 (take_bit 25 v)" by simp
  then have "drop_bit 25 v = 0" by (simp add: drop_bit_take_bit)
  moreover have "(0x1FFFFFF :: u32) = mask 25" by (simp add: mask_eq_exp_minus_1)
  then have "v AND 0x1FFFFFF = v" using v by (simp add: take_bit_eq_mask)
  ultimately show ?thesis by (simp add: bech32_polymod_step_def bech32_generator_def)
qed

lemma bech32_polymod_step_30: "take_bit 30 (bech32_polymod_step x) = bech32_polymod_step x"
proof -
  have gen: "take_bit 30 (bech32_generator i g b) = bech32_generator i g b" if "take_bit 30 g = g" for i g b
    using that by (simp add: bech32_generator_def)
  have m: "(0x1FFFFFF :: u32) = mask 25" by (simp add: mask_eq_exp_minus_1)
  have "take_bit 30 (push_bit 5 (x AND 0x1FFFFFF)) = push_bit 5 (x AND 0x1FFFFFF)"
    unfolding m take_bit_eq_mask [symmetric] by (simp add: take_bit_push_bit)
  then show ?thesis by (simp add: bech32_polymod_step_def Let_def take_bit_xor gen)
qed

text \<open>Six symbols after a state: six steps, and the symbols side by side.\<close>

definition pack5 :: "u32 list \<Rightarrow> u32" where
  "pack5 = foldl (\<lambda>a d. push_bit 5 a XOR d) 0"

lemma pack5_less: "\<forall>d \<in> set ds. d < 32 \<Longrightarrow> length ds \<le> 6 \<Longrightarrow> take_bit (5 * length ds) (pack5 ds) = pack5 ds"
proof (induction ds rule: rev_induct)
  case (snoc d ds)
  have "take_bit 5 d = d" using snoc.prems(1) by (simp add: take_bit_small)
  then have d: "take_bit (5 + 5 * length ds) d = d" by (metis min.absorb2 le_add1 take_bit_take_bit)
  have "take_bit (5 + 5 * length ds) (push_bit 5 (pack5 ds)) = push_bit 5 (pack5 ds)"
    using snoc by (simp add: take_bit_push_bit)
  then show ?case using d by (simp add: pack5_def take_bit_xor)
qed (simp add: pack5_def)

lemma symbols_xor:
  assumes "\<forall>d \<in> set ds. d < 32" "length ds \<le> 6"
  shows "foldl (\<lambda>chk d. bech32_polymod_step chk XOR d) c ds = (bech32_polymod_step ^^ length ds) c XOR pack5 ds"
  using assms
proof (induction ds rule: rev_induct)
  case (snoc d ds)
  have "take_bit (5 * length ds) (pack5 ds) = pack5 ds" using pack5_less snoc.prems by simp
  moreover have "5 * length ds \<le> 25" using snoc.prems(2) by simp
  then have "take_bit 25 (take_bit (5 * length ds) (pack5 ds)) = take_bit (5 * length ds) (pack5 ds)" by (simp add: take_bit_take_bit min_def)
  ultimately have "take_bit 25 (pack5 ds) = pack5 ds" by simp
  then have "pack5 ds < 2 ^ 25" by (simp add: take_bit_small)
  then show ?case using snoc by (simp add: bech32_polymod_step_xor bech32_polymod_step_small xor.assoc) (simp add: pack5_def)
qed (simp add: pack5_def)

lemma unpack5:
  assumes "take_bit 30 chk = chk"
  shows "pack5 (map (\<lambda>i. drop_bit ((5 - i) * 5) chk AND 0x1f) [0..<6]) = chk"
proof -
  have m: "(0x1f :: u32) = mask 5" by (simp add: mask_eq_exp_minus_1)
  have step: "push_bit 5 (drop_bit (n + 5) chk) XOR take_bit 5 (drop_bit n chk) = drop_bit n chk" for n
    by (rule bit_word_eqI) (auto simp: bit_simps)
  have six: "[0..<6] = [0, 1, 2, 3, 4, 5 :: nat]" by (simp add: upt_rec)
  have "take_bit 5 (drop_bit 25 chk) = drop_bit 25 (take_bit 30 chk)" by (simp add: take_bit_drop_bit)
  then have "take_bit 5 (drop_bit 25 chk) = drop_bit 25 chk" using assms by simp
  then show ?thesis
    using step [of 20] step [of 15] step [of 10] step [of 5] step [of 0] six
    unfolding m take_bit_eq_mask [symmetric] by (simp add: pack5_def)
qed

lemma low5: "(z :: u32) AND 0x1f < 32"
proof -
  have "(0x1f :: u32) = mask 5" by (simp add: mask_eq_exp_minus_1)
  then show ?thesis using take_bit_small(2) [of "take_bit 5 z"] by (simp only: take_bit_eq_mask [symmetric]) simp
qed

section \<open>Characters back\<close>

lemma charset_values: "n < 32 \<Longrightarrow> char_value (charset ! n) = int n \<and> charset ! n \<noteq> 49 \<and> \<not> is_upper (charset ! n)"
proof -
  have "list_all (\<lambda>n. char_value (charset ! n) = int n \<and> charset ! n \<noteq> 49 \<and> \<not> is_upper (charset ! n)) [0..<32]"
    by (simp add: upt_rec charset_def ascii_def char_value_def charset_rev_def is_upper_def)
  then show "n < 32 \<Longrightarrow> ?thesis" by (simp add: list_all_iff)
qed

lemma unat_byte [simp]: "unat (ucast (d :: u8) :: u32) = unat d"
  by (rule unat_ucast_widen) simp

lemma byte_back [simp]: "ucast (ucast (d :: u8) :: u32) = d"
  by (rule bit_word_eqI) (simp add: bit_simps)

section \<open>Round trip\<close>

text \<open>Decoding the text of a prefix, a separator and symbols.\<close>

lemma symbol_values:
  assumes "\<forall>d \<in> set syms. unat d < 32"
  shows "map char_value (map (\<lambda>d. charset ! unat d) (syms :: u32 list)) = map (\<lambda>d. int (unat d)) syms"
    "49 \<notin> set (map (\<lambda>d. charset ! unat d) syms)" "\<forall>c \<in> set (map (\<lambda>d. charset ! unat d) syms). \<not> is_upper c"
proof -
  have "char_value (charset ! unat d) = int (unat d) \<and> charset ! unat d \<noteq> 49 \<and> \<not> is_upper (charset ! unat d)" if "d \<in> set syms" for d
    using charset_values [of "unat d"] assms that by blast
  then show "map char_value (map (\<lambda>d. charset ! unat d) syms) = map (\<lambda>d. int (unat d)) syms"
    "49 \<notin> set (map (\<lambda>d. charset ! unat d) syms)" "\<forall>c \<in> set (map (\<lambda>d. charset ! unat d) syms). \<not> is_upper c" by auto
qed

lemma decode_symbols:
  assumes "hrp \<noteq> []" "\<forall>ch \<in> set hrp. 33 \<le> ch \<and> ch \<le> 126 \<and> \<not> is_upper ch" "\<forall>d \<in> set syms. unat d < 32" "6 \<le> length syms"
    and "length hrp + 1 + length syms \<le> 90" "enc \<noteq> BECH32_ENCODING_NONE"
    and "foldl (\<lambda>chk d. bech32_polymod_step chk XOR d) (hrp_checksum hrp) syms = bech32_final_constant enc"
  shows "bech32_decode (hrp @ 49 # map (\<lambda>d. charset ! unat d) syms) = (enc, hrp, map ucast (take (length syms - 6) syms))"
proof -
  let ?rest = "map (\<lambda>d. charset ! unat d) syms" and ?input = "hrp @ 49 # map (\<lambda>d. charset ! unat d) syms"
  note v = symbol_values [OF assms(3)]
  have "takeWhile (\<lambda>c. c \<noteq> 49) (rev ?input) = rev ?rest"
    using v(2) by (auto simp: takeWhile_append image_iff)
  then have data_len: "length (takeWhile (\<lambda>c. c \<noteq> 49) (rev ?input)) = length syms" by simp
  have len: "length ?input = length hrp + 1 + length syms" by simp
  have hrp: "map (\<lambda>ch. if is_upper ch then ch - 65 + 97 else ch) hrp = hrp" using assms(2) by (simp add: map_idI)
  have parts: "take (length ?input - (1 + length syms)) ?input = hrp" "drop (length ?input - (1 + length syms) + 1) ?input = ?rest" by simp_all
  have chars: "\<not> (\<exists>ch \<in> set hrp. ch < 33 \<or> ch > 126)" using assms(2) by (auto simp: not_less)
  have upper: "\<not> (\<exists>c \<in> set (hrp @ ?rest). is_upper c)" using assms(2) v(3) by auto
  have vs: "-1 \<notin> set (map (\<lambda>d. int (unat d)) syms)"
  proof
    assume "-1 \<in> set (map (\<lambda>d. int (unat d)) syms)"
    then obtain d :: u32 where "-1 = int (unat d)" by (auto simp only: set_map image_iff)
    then show False by linarith
  qed
  have chk: "foldl (\<lambda>chk v. bech32_polymod_step chk XOR of_int v) (hrp_checksum hrp) (map (\<lambda>d. int (unat d)) syms) = bech32_final_constant enc"
    using assms(7) by (simp add: foldl_map)
  have data: "map of_int (take (length syms - 6) (map (\<lambda>d. int (unat d)) syms)) = (map ucast (take (length syms - 6) syms) :: bytes)"
    by (simp add: take_map)
  have two: "bech32_final_constant BECH32_ENCODING_BECH32M \<noteq> bech32_final_constant BECH32_ENCODING_BECH32"
    by (simp add: bech32_final_constant_def)
  have pos: "\<not> length hrp + length syms < 7" using assms(1,4) by (cases hrp) auto
  show ?thesis
    unfolding bech32_decode_def data_len parts hrp v(1) Let_def hrp_checksum_def [symmetric] chk data
    using chars upper vs assms(1,4-6) pos two len by (cases enc) auto
qed

lemma segwit_encode_symbols:
  assumes "segwit_addr_encode hrp v prog = Some addr" "0 \<le> v"
  obtains gs p enc chk where "enc = (if v > 0 then BECH32_ENCODING_BECH32M else BECH32_ENCODING_BECH32)"
    "digits_below 32 gs" "p < 5" "length gs * 5 = length prog * 8 + p" "radix 32 gs = radix 256 prog * 2 ^ p"
    "chk = (bech32_polymod_step ^^ 6) (data_checksum (hrp_checksum hrp) (of_int v # gs)) XOR bech32_final_constant enc"
    "addr = hrp @ 49 # map (\<lambda>d. charset ! unat d) (map ucast (of_int v # gs) @ map (\<lambda>i. drop_bit ((5 - i) * 5) chk AND 0x1f) [0..<6])"
    "\<forall>ch \<in> set hrp. 33 \<le> ch \<and> ch \<le> 126 \<and> \<not> is_upper ch" "length hrp + 8 + length gs \<le> 90" "v \<le> 16" "2 \<le> length prog" "length prog \<le> 40"
    "v = 0 \<longrightarrow> length prog = 20 \<or> length prog = 32"
proof -
  obtain gs p where gs: "convert_bits 5 prog 8 True = Some gs" "digits_below 32 gs" "p < 5" "length gs * 5 = length prog * 8 + p"
    "radix 32 gs = radix 256 prog * 2 ^ p" using pad_groups [of prog] by blast
  let ?enc = "if v > 0 then BECH32_ENCODING_BECH32M else BECH32_ENCODING_BECH32"
  have bech: "bech32_encode hrp (of_int v # gs) ?enc = Some addr" and lens: "v \<le> 16" "2 \<le> length prog" "length prog \<le> 40"
    "v = 0 \<longrightarrow> length prog = 20 \<or> length prog = 32"
    using assms(1) gs(1) by (auto simp: segwit_addr_encode_def Let_def split: if_splits)
  have ok: "\<forall>ch \<in> set hrp. 33 \<le> ch \<and> ch \<le> 126 \<and> \<not> is_upper ch" "length hrp + 8 + length gs \<le> 90"
    using bech by (auto simp: bech32_encode_def not_less split: if_splits)
  have "addr = hrp @ 49 # map (\<lambda>d. charset ! unat d) (map ucast (of_int v # gs) @ map (\<lambda>i. drop_bit ((5 - i) * 5)
      ((bech32_polymod_step ^^ 6) (data_checksum (hrp_checksum hrp) (of_int v # gs)) XOR bech32_final_constant ?enc) AND 0x1f) [0..<6])"
    using bech unfolding bech32_encode_def Let_def by (simp add: comp_def split: if_splits)
  from that [OF refl gs(2-5) refl this ok lens] show thesis .
qed

text \<open>
  Decoding the address of a witness program with its prefix gives back the version and the program, for every
  program that can be encoded.
\<close>

theorem segwit_round_trip:
  assumes "segwit_addr_encode hrp v prog = Some addr" "0 \<le> v" "hrp \<noteq> []"
  shows "segwit_addr_decode hrp addr = Some (v, prog)"
proof -
  from segwit_encode_symbols [OF assms(1,2)] obtain gs p enc chk where
    enc: "enc = (if v > 0 then BECH32_ENCODING_BECH32M else BECH32_ENCODING_BECH32)" and
    gs: "digits_below 32 gs" "p < 5" "length gs * 5 = length prog * 8 + p" "radix 32 gs = radix 256 prog * 2 ^ p" and
    chk: "chk = (bech32_polymod_step ^^ 6) (data_checksum (hrp_checksum hrp) (of_int v # gs)) XOR bech32_final_constant enc" and
    addr: "addr = hrp @ 49 # map (\<lambda>d. charset ! unat d) (map ucast (of_int v # gs) @ map (\<lambda>i. drop_bit ((5 - i) * 5) chk AND 0x1f) [0..<6])" and
    hrp: "\<forall>ch \<in> set hrp. 33 \<le> ch \<and> ch \<le> 126 \<and> \<not> is_upper ch" and
    len: "length hrp + 8 + length gs \<le> 90" "v \<le> 16" "2 \<le> length prog" "length prog \<le> 40" "v = 0 \<longrightarrow> length prog = 20 \<or> length prog = 32" .
  let ?data = "of_int v # gs" and ?cs = "map (\<lambda>i. drop_bit ((5 - i) * 5) chk AND 0x1f) [0..<6] :: u32 list"
  let ?syms = "map ucast ?data @ ?cs"
  have v: "uint (of_int v :: u8) = v" using assms(2) len(2) by (simp add: take_bit_int_eq_self_iff unsigned_of_int)
  then have nv: "unat (of_int v :: u8) = nat v" by (metis nat_uint_eq)
  have cs: "\<forall>d \<in> set ?cs. d < 32" using low5 by simp
  have "unat (ucast d :: u32) < 32" if "d \<in> set ?data" for d :: u8
    using that gs(1) nv len(2) assms(2) by (auto simp: unat_ucast_widen digits_below_def)
  then have small: "\<forall>d \<in> set ?syms. unat d < 32" using cs by (auto simp: word_less_nat_alt)
  have "take_bit 30 ((bech32_polymod_step ^^ 6) c) = (bech32_polymod_step ^^ 6) c" for c
    using bech32_polymod_step_30 [of "(bech32_polymod_step ^^ 5) c"] by (simp add: eval_nat_numeral)
  then have "take_bit 30 chk = chk" unfolding chk using bech32_polymod_step_30 by (simp add: take_bit_xor bech32_final_constant_def)
  then have "foldl (\<lambda>chk d. bech32_polymod_step chk XOR d) (hrp_checksum hrp) ?syms = bech32_final_constant enc"
    using symbols_xor [OF cs, of "data_checksum (hrp_checksum hrp) ?data"] unpack5 [of chk]
    by (simp add: data_checksum_def foldl_map chk)
  then have "bech32_decode addr = (enc, hrp, map ucast (take (length ?syms - 6) ?syms))"
    unfolding addr using decode_symbols [OF assms(3) hrp small, of enc] len(1) enc by auto
  also have "map ucast (take (length ?syms - 6) ?syms) = ?data" by (simp add: comp_def byte_back)
  finally have dec: "bech32_decode addr = (enc, hrp, ?data)" .
  have unpad: "convert_bits 8 gs 5 False = Some prog" by (rule unpad_groups [OF gs])
  have "length ?data \<le> 65" using gs(2,3) len(4) by simp
  moreover have "\<not> (of_int v :: u8) > 16" using nv len(2) by (simp add: word_less_nat_alt)
  moreover have "(of_int v :: u8) = 0 \<longleftrightarrow> v = 0" using v by (metis of_int_0 uint_0_eq)
  moreover have "(0 :: u8) < of_int v \<longleftrightarrow> 0 < v" using nv by (simp add: word_less_nat_alt)
  ultimately show ?thesis using len assms(2) v unpad enc by (auto simp: segwit_addr_decode_def dec)
qed

theorem segwit_round_trip_witness:
  "\<exists>addr. segwit_addr_encode (ascii ''bc'') 1 [7, 200] = Some addr \<and> segwit_addr_decode (ascii ''bc'') addr = Some (1, [7, 200])"
proof -
  have "convert_bits 5 [7, 200] 8 True = Some [0, 31, 4, 0]" by code_simp
  then obtain addr where addr: "segwit_addr_encode (ascii ''bc'') 1 [7, 200] = Some addr"
    by (simp add: segwit_addr_encode_def bech32_encode_def is_upper_def drop_bit_eq_div Let_def)
  from segwit_round_trip [OF addr] addr show ?thesis by simp
qed

end
