(* ===== verification/Base58.thy ===== *)
theory Base58
  imports Stratum_Api Radix
begin

text \<open>
  \<open>components/stratum/base58.c\<close>: Base-58 texts, with the checksum of addresses and without. The hash comes from
  the library; the wrapper the firmware installs never fails.
\<close>

section \<open>Digits\<close>

definition b58digits_ordered :: bytes where
  "b58digits_ordered = ascii ''123456789ABCDEFGHJKLMNPQRSTUVWXYZabcdefghijkmnopqrstuvwxyz''"

definition b58digits_map :: "int list" where
  "b58digits_map =
    [-1,-1,-1,-1,-1,-1,-1,-1, -1,-1,-1,-1,-1,-1,-1,-1,
     -1,-1,-1,-1,-1,-1,-1,-1, -1,-1,-1,-1,-1,-1,-1,-1,
     -1,-1,-1,-1,-1,-1,-1,-1, -1,-1,-1,-1,-1,-1,-1,-1,
     -1, 0, 1, 2, 3, 4, 5, 6,  7, 8,-1,-1,-1,-1,-1,-1,
     -1, 9,10,11,12,13,14,15, 16,-1,17,18,19,20,21,-1,
     22,23,24,25,26,27,28,29, 30,31,32,-1,-1,-1,-1,-1,
     -1,33,34,35,36,37,38,39, 40,41,42,43,-1,44,45,46,
     47,48,49,50,51,52,53,54, 55,56,57,-1,-1,-1,-1,-1]"

section \<open>Encoding\<close>

text \<open>
  The inner loop multiplies the digits behind \<open>high\<close> by 256 and adds the carry, from the last digit on; it ends at
  the first digit at or before \<open>high\<close> that gets no carry, and in any case after digit 0.
\<close>

fun enc_inner :: "nat \<Rightarrow> nat \<Rightarrow> nat \<Rightarrow> bytes \<Rightarrow> nat \<times> bytes" where
  "enc_inner j high carry buf =
     (if j > high \<or> carry \<noteq> 0 then
        let c = carry + 256 * unat (buf ! j); buf1 = buf[j := of_nat (c mod 58)]
        in (case j of 0 \<Rightarrow> (0, buf1) | Suc k \<Rightarrow> enc_inner k high (c div 58) buf1)
      else (j, buf))"

declare enc_inner.simps [simp del]

fun enc_outer :: "bytes \<Rightarrow> nat \<Rightarrow> bytes \<Rightarrow> bytes" where
  "enc_outer [] high buf = buf"
| "enc_outer (b # bs) high buf =
     (case enc_inner (length buf - 1) high (unat b) buf of (j, buf1) \<Rightarrow> enc_outer bs j buf1)"

text \<open>
  The text and the size the code reports. \<open>b58sz\<close> is the size of the buffer; a buffer that is too small is not
  written, and the size that would do is reported.
\<close>

definition b58enc :: "nat \<Rightarrow> bytes \<Rightarrow> bytes option \<times> nat" where
  "b58enc b58sz bin =
     (let zcount = length (takeWhile (\<lambda>b. b = 0) bin);
          size = (length bin - zcount) * 138 div 100 + 1;
          buf = enc_outer (drop zcount bin) (size - 1) (replicate size 0);
          j = length (takeWhile (\<lambda>b. b = 0) buf)
      in if b58sz \<le> zcount + size - j then (None, zcount + size - j + 1)
         else (Some (replicate zcount 49 @ map (\<lambda>d. b58digits_ordered ! unat d) (drop j buf)), zcount + size - j + 1))"

definition b58check_enc :: "sha_lib \<Rightarrow> nat \<Rightarrow> u8 \<Rightarrow> bytes \<Rightarrow> bytes option" where
  "b58check_enc L b58c_sz ver data =
     (let body = ver # data in fst (b58enc b58c_sz (body @ take 4 (double_sha256_bin L body))))"

section \<open>Decoding\<close>

text \<open>The number is kept in 32-bit words, the most significant first; a digit is added from the last word on.\<close>

fun mul58_add :: "u32 list \<Rightarrow> u32 \<Rightarrow> u32 \<times> u32 list" where
  "mul58_add [] c = (c, [])"
| "mul58_add (x # xs) c =
     (case mul58_add xs c of (c1, ys) \<Rightarrow>
        let t = ucast x * 58 + ucast c1 :: u64 in (ucast (drop_bit 32 t), ucast t # ys))"

fun b58_digits :: "u32 \<Rightarrow> bytes \<Rightarrow> u32 list \<Rightarrow> u32 list option" where
  "b58_digits zeromask [] outi = Some outi"
| "b58_digits zeromask (ch # chs) outi =
     (if bit ch 7 then None
      else if b58digits_map ! unat ch = -1 then None
      else case mul58_add outi (of_int (b58digits_map ! unat ch)) of
             (c, outi1) \<Rightarrow> if c \<noteq> 0 then None
                        else if hd outi1 AND zeromask \<noteq> 0 then None
                        else b58_digits zeromask chs outi1)"

text \<open>The bytes written, \<open>binsz\<close> of them, and the size reported. \<open>binsz\<close> must not be zero.\<close>

definition b58tobin :: "nat \<Rightarrow> bytes \<Rightarrow> (bytes \<times> nat) option" where
  "b58tobin binsz b58 =
     (let outisz = (binsz + 3) div 4; bytesleft = binsz mod 4;
          zeromask = (if bytesleft \<noteq> 0 then push_bit (bytesleft * 8) (- 1) else 0 :: u32);
          zerocount = length (takeWhile (\<lambda>c. c = 49) b58)
      in case b58_digits zeromask (drop zerocount b58) (replicate outisz 0) of
           None \<Rightarrow> None
         | Some outi \<Rightarrow>
             let bin = (if bytesleft \<noteq> 0 then be_bytes bytesleft (hd outi) @ concat (map (be_bytes 4) (tl outi))
                        else concat (map (be_bytes 4) outi))
             in Some (bin, binsz - length (takeWhile (\<lambda>b. b = 0) bin) + zerocount))"

section \<open>The encoder computes the digits\<close>

lemma digit58: "unat (of_nat (c mod 58) :: u8) = c mod 58"
  using less_le_trans [OF mod_less_divisor [of 58 c], of 256] by (simp add: unsigned_of_nat take_bit_nat_eq_self)

lemma digits_below_update: "digits_below k xs \<Longrightarrow> unat d < k \<Longrightarrow> digits_below k (xs[i := d])"
  using set_update_subset_insert [of xs i d] by (auto simp: digits_below_def)

lemma radix_take_Suc: "i < length xs \<Longrightarrow> radix k (take (Suc i) xs) = radix k (take i xs) * k + unat (xs ! i)"
  by (simp add: take_Suc_conv_app_nth radix_snoc)

lemma enc_inner_stop:
  assumes "\<not> (j > high \<or> carry \<noteq> 0)" "enc_inner j high carry buf = (j', buf')"
  shows "j' = j" "buf' = buf" "carry = 0" "j \<le> high"
  using assms by (simp_all add: enc_inner.simps [of j])

lemma enc_inner_value:
  assumes "j < length buf" "digits_below 58 buf" "\<forall>i \<le> j. i \<le> high \<longrightarrow> buf ! i = 0" "enc_inner j high carry buf = (j', buf')"
  shows "length buf' = length buf \<and> digits_below 58 buf' \<and> drop (Suc j) buf' = drop (Suc j) buf \<and> j' \<le> j \<and>
    (\<exists>c. radix 58 (take (Suc j) buf') + c * 58 ^ Suc j = 256 * radix 58 (take (Suc j) buf) + carry) \<and>
    (j' = 0 \<or> (\<forall>i \<le> j'. buf' ! i = 0))"
  using assms
proof (induction j arbitrary: high carry buf)
  case 0
  show ?case
  proof (cases "0 > high \<or> carry \<noteq> 0")
    case False
    from enc_inner_stop [OF False 0(4)] 0 show ?thesis by (auto simp: take_Suc_conv_app_nth radix_def intro!: exI [of _ 0])
  next
    case True
    let ?c = "carry + 256 * unat (buf ! 0)"
    have r: "j' = 0" "buf' = buf[0 := of_nat (?c mod 58)]" using 0(4) True by (simp_all add: enc_inner.simps [of 0] Let_def)
    have "radix 58 (take (Suc 0) buf') + ?c div 58 * 58 ^ Suc 0 = 256 * radix 58 (take (Suc 0) buf) + carry"
      using 0(1) r by (simp add: radix_take_Suc digit58)
    then show ?thesis using r 0(2) by (auto simp: digits_below_update digit58)
  qed
next
  case (Suc j)
  show ?case
  proof (cases "Suc j > high \<or> carry \<noteq> 0")
    case False
    note s = enc_inner_stop [OF False Suc.prems(4)]
    have "take (Suc (Suc j)) buf = replicate (Suc (Suc j)) 0"
      using Suc.prems(1,3) s(4) by (intro nth_equalityI) (auto simp del: replicate_Suc)
    then have "radix 58 (take (Suc (Suc j)) buf) = 0" by (metis radix_replicate)
    then show ?thesis using s Suc.prems by (auto intro!: exI [of _ 0])
  next
    case True
    let ?c = "carry + 256 * unat (buf ! Suc j)"
    let ?buf = "buf[Suc j := of_nat (?c mod 58)]"
    have step: "enc_inner j high (?c div 58) ?buf = (j', buf')" using Suc.prems(4) True by (simp add: enc_inner.simps [of "Suc j"] Let_def)
    have "j < length ?buf" "digits_below 58 ?buf" "\<forall>i \<le> j. i \<le> high \<longrightarrow> ?buf ! i = 0"
      using Suc.prems by (simp_all add: digits_below_update digit58)
    from Suc.IH [OF this step] obtain c where ih: "length buf' = length buf" "digits_below 58 buf'" "drop (Suc j) buf' = drop (Suc j) ?buf" "j' \<le> j"
      "radix 58 (take (Suc j) buf') + c * 58 ^ Suc j = 256 * radix 58 (take (Suc j) ?buf) + ?c div 58" "j' = 0 \<or> (\<forall>i \<le> j'. buf' ! i = 0)" by auto
    have "buf' ! Suc j = ?buf ! Suc j" using ih(1,3) Suc.prems(1) by (metis Cons_nth_drop_Suc length_list_update list.inject)
    then have d: "unat (buf' ! Suc j) = ?c mod 58" using Suc.prems(1) by (simp add: digit58)
    have "radix 58 (take (Suc (Suc j)) buf') + c * 58 ^ Suc (Suc j) = (radix 58 (take (Suc j) buf') + c * 58 ^ Suc j) * 58 + ?c mod 58"
      using Suc.prems(1) ih(1) d by (simp add: radix_take_Suc [of "Suc j"] algebra_simps)
    also have "\<dots> = 256 * radix 58 (take (Suc j) buf) * 58 + (?c div 58 * 58 + ?c mod 58)" unfolding ih(5) by (simp add: distrib_right)
    also have "\<dots> = 256 * radix 58 (take (Suc (Suc j)) buf) + carry"
      using Suc.prems(1) by (simp add: radix_take_Suc [of "Suc j"] distrib_left)
    finally have "radix 58 (take (Suc (Suc j)) buf') + c * 58 ^ Suc (Suc j) = 256 * radix 58 (take (Suc (Suc j)) buf) + carry" .
    moreover have "drop (Suc (Suc j)) buf' = drop (Suc (Suc j)) buf"
      using arg_cong [OF ih(3), of "drop 1"] by simp
    ultimately show ?thesis using ih by auto
  qed
qed

lemma radix_first: "xs \<noteq> [] \<Longrightarrow> radix k xs < k ^ (length xs - 1) \<Longrightarrow> xs ! 0 = 0"
proof (cases xs)
  case (Cons d ds)
  assume "radix k xs < k ^ (length xs - 1)"
  with Cons have "unat d * k ^ length ds + radix k ds < k ^ length ds" by (simp add: radix_Cons)
  then have less: "unat d * k ^ length ds < 1 * k ^ length ds" by linarith
  have "unat d = 0"
  proof (rule ccontr)
    assume "unat d \<noteq> 0"
    then have "1 * k ^ length ds \<le> unat d * k ^ length ds" by (intro mult_le_mono1) simp
    with less show False by simp
  qed
  then show ?thesis using Cons by (simp add: word_unat_eq_iff)
qed simp

lemma enc_outer_value:
  assumes "buf \<noteq> []" "digits_below 58 buf" "high < length buf" "\<forall>i \<le> high. buf ! i = 0"
    and "radix 58 buf * 256 ^ length bs + radix 256 bs < 58 ^ length buf"
  shows "length (enc_outer bs high buf) = length buf \<and> digits_below 58 (enc_outer bs high buf) \<and>
    radix 58 (enc_outer bs high buf) = radix 58 buf * 256 ^ length bs + radix 256 bs"
  using assms
proof (induction bs arbitrary: high buf)
  case (Cons b bs)
  let ?n = "length buf"
  obtain j buf1 where inner: "enc_inner (?n - 1) high (unat b) buf = (j, buf1)" by (cases "enc_inner (?n - 1) high (unat b) buf")
  have n: "?n - 1 < ?n" "Suc (?n - 1) = ?n" using Cons.prems(1) by simp_all
  from enc_inner_value [OF n(1) Cons.prems(2) _ inner, unfolded n(2)] Cons.prems(4) obtain c where
    i: "length buf1 = ?n" "digits_below 58 buf1" "j \<le> ?n - 1" "radix 58 buf1 + c * 58 ^ ?n = 256 * radix 58 buf + unat b"
    "j = 0 \<or> (\<forall>i \<le> j. buf1 ! i = 0)" by auto
  have whole: "radix 58 buf * 256 ^ length (b # bs) + radix 256 (b # bs) = (256 * radix 58 buf + unat b) * 256 ^ length bs + radix 256 bs"
    by (simp add: radix_Cons algebra_simps)
  have "256 * radix 58 buf + unat b \<le> (256 * radix 58 buf + unat b) * 256 ^ length bs" by simp
  then have "256 * radix 58 buf + unat b < 58 ^ ?n" using Cons.prems(5) whole by linarith
  then have "c = 0" using i(4) by (cases c) auto
  then have v: "radix 58 buf1 = 256 * radix 58 buf + unat b" using i(4) by simp
  show ?case
  proof (cases "bs = []")
    case True
    then show ?thesis using inner i v whole by simp
  next
    case False
    then have "256 ^ 1 \<le> (256 :: nat) ^ length bs" by (intro power_increasing) (auto simp: Suc_le_eq)
    then have "radix 58 buf1 * 256 \<le> radix 58 buf1 * 256 ^ length bs" by simp
    then have "radix 58 buf1 * 256 \<le> radix 58 buf * 256 ^ length (b # bs) + radix 256 (b # bs)" unfolding whole v [symmetric] by (rule trans_le_add1)
    then have "radix 58 buf1 * 256 < 58 ^ Suc (?n - 1)" unfolding n(2) using Cons.prems(5) by (rule le_less_trans)
    then have "radix 58 buf1 < 58 ^ (?n - 1)" by simp
    moreover have "buf1 \<noteq> []" using i(1) Cons.prems(1) by auto
    ultimately have "buf1 ! 0 = 0" using radix_first [of buf1 58] i(1) by simp
    then have zero: "\<forall>i \<le> j. buf1 ! i = 0" using i(5) by auto
    have "buf1 \<noteq> []" "j < length buf1" using i(1,3) Cons.prems(1) n(1) by (auto intro: le_less_trans)
    moreover have "radix 58 buf1 * 256 ^ length bs + radix 256 bs < 58 ^ length buf1" using Cons.prems(5) whole v i(1) by simp
    ultimately show ?thesis using Cons.IH [of buf1 j] i zero whole v inner by simp
  qed
qed simp

text \<open>The buffer is large enough: 138 digits hold a hundred bytes.\<close>

lemma digits_enough: "256 ^ n < (58 :: nat) ^ (n * 138 div 100 + 1)"
proof (rule power_less_imp_less_base)
  have "(256 ^ n) ^ 100 = ((256 :: nat) ^ 100) ^ n" by (simp only: power_mult [symmetric] mult.commute)
  also have "\<dots> \<le> (58 ^ 138) ^ n" by (rule power_mono) simp_all
  also have "\<dots> = 58 ^ (138 * n)" by (simp only: power_mult)
  also have "\<dots> < 58 ^ ((n * 138 div 100 + 1) * 100)" by (rule power_strict_increasing) simp_all
  also have "\<dots> = (58 ^ (n * 138 div 100 + 1)) ^ 100" by (simp only: power_mult)
  finally show "(256 ^ n) ^ 100 < ((58 :: nat) ^ (n * 138 div 100 + 1)) ^ 100" .
qed simp

text \<open>The digits of the text, after a one for every leading zero byte.\<close>

lemma leading_zeros: "bin = replicate (length (takeWhile (\<lambda>b. b = 0) bin)) (0 :: u8) @ dropWhile (\<lambda>b. b = 0) bin"
proof -
  have "takeWhile (\<lambda>b. b = 0) bin = replicate (length (takeWhile (\<lambda>b. b = 0) bin)) 0"
    by (rule replicate_length_same [symmetric]) (auto dest: set_takeWhileD)
  then show ?thesis by (metis takeWhile_dropWhile_id)
qed

lemma b58enc_digits:
  obtains ds z where "z = length (takeWhile (\<lambda>b. b = 0) bin)" "digits_below 58 ds" "radix 58 ds = radix 256 bin" "ds = [] \<or> hd ds \<noteq> 0"
    "\<And>sz. b58enc sz bin = (if sz \<le> z + length ds then None else Some (replicate z 49 @ map (\<lambda>d. b58digits_ordered ! unat d) ds), z + length ds + 1)"
proof -
  define z where "z = length (takeWhile (\<lambda>b. b = 0) bin)"
  define n where "n = (length bin - z) * 138 div 100 + 1"
  define buf where "buf = enc_outer (drop z bin) (n - 1) (replicate n 0)"
  define ds where "ds = dropWhile (\<lambda>b. b = 0) buf"
  have body: "drop z bin = dropWhile (\<lambda>b. b = 0) bin" by (simp add: z_def dropWhile_eq_drop)
  have val: "radix 256 (drop z bin) = radix 256 bin"
    using leading_zeros [of bin] by (metis body radix_zeros)
  have "radix 256 (drop z bin) < 256 ^ length (drop z bin)" by (intro radix_less bytes_below)
  also have "\<dots> < 58 ^ n" unfolding n_def using digits_enough [of "length bin - z"] by simp
  finally have "radix 58 (replicate n 0) * 256 ^ length (drop z bin) + radix 256 (drop z bin) < 58 ^ length (replicate n (0 :: u8))" by simp
  moreover have n: "0 < n" by (simp add: n_def)
  then have "replicate n (0 :: u8) \<noteq> []" "n - 1 < length (replicate n (0 :: u8))" "\<forall>i \<le> n - 1. replicate n (0 :: u8) ! i = 0" by auto
  moreover have "digits_below 58 (replicate n 0)" by (simp add: digits_below_def)
  ultimately have buf: "length buf = n" "digits_below 58 buf" "radix 58 buf = radix 256 bin"
    using enc_outer_value [of "replicate n 0" "n - 1" "drop z bin"] val unfolding buf_def by simp_all
  have drop: "ds = drop (length (takeWhile (\<lambda>b. b = 0) buf)) buf" by (simp add: ds_def dropWhile_eq_drop)
  have len: "n - length (takeWhile (\<lambda>b. b = 0) buf) = length ds" unfolding drop using buf(1) by simp
  have "radix 58 ds = radix 58 buf" unfolding ds_def using leading_zeros [of buf] by (metis radix_zeros)
  moreover have "digits_below 58 ds" using buf(2) unfolding ds_def by (auto simp: digits_below_def dest: set_dropWhileD)
  moreover have "ds = [] \<or> hd ds \<noteq> 0" unfolding ds_def using hd_dropWhile [of "\<lambda>b. b = 0" buf] by blast
  moreover have "b58enc sz bin = (if sz \<le> z + length ds then None else Some (replicate z 49 @ map (\<lambda>d. b58digits_ordered ! unat d) ds), z + length ds + 1)" for sz
  proof -
    have "length (takeWhile (\<lambda>b. b = 0) buf) \<le> n" using buf(1) length_takeWhile_le by metis
    then have "z + n - length (takeWhile (\<lambda>b. b = 0) buf) = z + length ds" using len by simp
    then show ?thesis unfolding b58enc_def Let_def z_def [symmetric] n_def [symmetric] buf_def [symmetric] drop [symmetric] by simp
  qed
  ultimately show thesis using that [OF z_def] buf(3) by simp
qed

section \<open>The decoder reads them back\<close>

definition words :: "u32 list \<Rightarrow> nat" where
  "words = foldl (\<lambda>a x. a * 2 ^ 32 + unat x) 0"

lemma words_from: "foldl (\<lambda>a x. a * 2 ^ 32 + unat x) acc xs = acc * (2 ^ 32) ^ length xs + words xs"
proof (induction xs arbitrary: acc)
  case (Cons x xs)
  show ?case using Cons.IH [of "acc * 2 ^ 32 + unat x"] Cons.IH [of "unat x"] by (simp add: words_def algebra_simps)
qed (simp add: words_def)

lemma words_Cons: "words (x # xs) = unat x * (2 ^ 32) ^ length xs + words xs"
  using words_from [of "unat x" xs] by (simp add: words_def)

lemma words_less: "words xs < (2 ^ 32) ^ length xs"
proof (induction xs)
  case (Cons x xs)
  have "unat x + 1 \<le> 2 ^ 32" using unsigned_less [where ?'a = nat, of x] by simp
  have "unat x * (2 ^ 32) ^ length xs + words xs < (unat x + 1) * (2 ^ 32) ^ length xs" using Cons by (simp add: distrib_right)
  also have "\<dots> \<le> 2 ^ 32 * (2 ^ 32) ^ length xs" using \<open>unat x + 1 \<le> 2 ^ 32\<close> by (rule mult_le_mono1)
  finally show ?case by (simp add: words_Cons)
qed (simp add: words_def)

lemma high_word: "unat (ucast (drop_bit 32 (t :: u64)) :: u32) = unat t div 2 ^ 32"
proof -
  have "unat t div 2 ^ 32 < 2 ^ 32" using unsigned_less [where ?'a = nat, of t] by (simp add: less_mult_imp_div_less)
  then show ?thesis using unsigned_less [where ?'a = nat, of t]
    by (simp only: unsigned_ucast_eq unsigned_drop_bit_eq) (simp add: drop_bit_eq_div take_bit_nat_eq_self)
qed

lemma mul58_add_value:
  assumes "mul58_add xs c = (c', ys)"
  shows "length ys = length xs \<and> unat c' * (2 ^ 32) ^ length xs + words ys = 58 * words xs + unat c"
  using assms
proof (induction xs arbitrary: c' ys)
  case (Cons x xs)
  obtain c1 zs where rest: "mul58_add xs c = (c1, zs)" by (cases "mul58_add xs c")
  let ?t = "ucast x * 58 + ucast c1 :: u64"
  have "unat x < 2 ^ 32" "unat c1 < 2 ^ 32" using unsigned_less [where ?'a = nat, of x] unsigned_less [where ?'a = nat, of c1] by simp_all
  moreover have "unat (ucast x :: u64) = unat x" "unat (ucast c1 :: u64) = unat c1" by (rule unat_ucast_widen; simp)+
  ultimately have t: "unat ?t = unat x * 58 + unat c1" by (simp add: unat_word_ariths)
  have r: "c' = ucast (drop_bit 32 ?t)" "ys = ucast ?t # zs" using Cons.prems rest by (simp_all add: Let_def)
  have "unat c' = unat ?t div 2 ^ 32" unfolding r(1) by (rule high_word)
  moreover have "unat (ucast ?t :: u32) = unat ?t mod 2 ^ 32" by (simp add: unsigned_ucast_eq take_bit_eq_mod)
  ultimately have "unat c' * 2 ^ 32 + unat (ucast ?t :: u32) = unat x * 58 + unat c1" using t by (metis div_mult_mod_eq)
  then have "(unat c' * 2 ^ 32 + unat (ucast ?t :: u32)) * (2 ^ 32) ^ length xs = (unat x * 58 + unat c1) * (2 ^ 32) ^ length xs" by simp
  then show ?case using Cons.IH [OF rest] r(2) by (simp add: words_Cons algebra_simps)
qed (simp add: words_def)

lemma radix_be_bytes: "radix 256 (be_bytes k w) = unat w mod 256 ^ k"
proof (induction k)
  case (Suc k)
  have split: "be_bytes (Suc k) w = ucast (drop_bit (8 * k) w) # be_bytes k w" by (simp add: be_bytes_def le_bytes_def)
  have "unat (ucast (drop_bit (8 * k) w) :: u8) = unat w div 256 ^ k mod 256"
    by (simp only: unsigned_ucast_eq unsigned_drop_bit_eq) (simp add: take_bit_eq_mod drop_bit_eq_div power_mult)
  then have "radix 256 (be_bytes (Suc k) w) = unat w div 256 ^ k mod 256 * 256 ^ k + unat w mod 256 ^ k"
    using Suc by (simp add: split radix_Cons)
  also have "\<dots> = unat w mod 256 ^ Suc k" using mod_mult2_eq [of "unat w" "256 ^ k" 256] by (simp add: mult.commute)
  finally show ?case .
qed (simp add: be_bytes_def le_bytes_def)

lemma radix_words: "length (concat (map (be_bytes 4) ws)) = 4 * length ws \<and> radix 256 (concat (map (be_bytes 4) ws)) = words ws"
proof (induction ws)
  case (Cons w ws)
  have "unat w mod 256 ^ 4 = unat w" using unsigned_less [where ?'a = nat, of w] by simp
  moreover have "(256 :: nat) ^ (4 * length ws) = (2 ^ 32) ^ length ws" by (simp add: power_mult)
  ultimately show ?case using Cons by (simp add: radix_append words_Cons radix_be_bytes)
qed (simp add: words_def)

text \<open>The words for \<open>binsz\<close> bytes: the first may be partly used.\<close>

definition mask_for :: "nat \<Rightarrow> u32" where
  "mask_for binsz = (if binsz mod 4 \<noteq> 0 then push_bit (binsz mod 4 * 8) (- 1) else 0)"

lemma first_word:
  assumes "length ws = (binsz + 3) div 4" "binsz mod 4 \<noteq> 0" "words ws < 256 ^ binsz"
  obtains w rest where "ws = w # rest" "length rest = binsz div 4" "unat w < 256 ^ (binsz mod 4)"
proof -
  have n: "(binsz + 3) div 4 = Suc (binsz div 4)" using assms(2) by presburger
  then obtain w rest where ws: "ws = w # rest" "length rest = binsz div 4" using assms(1) by (cases ws) auto
  have "(256 :: nat) ^ binsz = 256 ^ (4 * (binsz div 4) + binsz mod 4)" by simp
  also have "\<dots> = (256 ^ 4) ^ (binsz div 4) * 256 ^ (binsz mod 4)" unfolding power_add power_mult ..
  also have "\<dots> = 256 ^ (binsz mod 4) * (2 ^ 32) ^ (binsz div 4)" by simp
  finally have "unat w * (2 ^ 32) ^ (binsz div 4) + words rest < 256 ^ (binsz mod 4) * (2 ^ 32) ^ (binsz div 4)"
    using assms(3) ws by (simp only: words_Cons)
  then have "unat w * (2 ^ 32) ^ (binsz div 4) < 256 ^ (binsz mod 4) * (2 ^ 32) ^ (binsz div 4)" by (rule le_less_trans [OF le_add1])
  then have "unat w < 256 ^ (binsz mod 4)" by (simp only: mult_less_cancel2)
  with ws show thesis by (rule that)
qed

lemma mask_clear:
  assumes "length ws = (binsz + 3) div 4" "words ws < 256 ^ binsz"
  shows "hd ws AND mask_for binsz = 0"
proof (cases "binsz mod 4 = 0")
  case False
  obtain w rest where ws: "ws = w # rest" "unat w < 256 ^ (binsz mod 4)" using first_word [OF assms(1) False assms(2)] by blast
  let ?n = "binsz mod 4 * 8"
  have "(256 :: nat) ^ (binsz mod 4) = 2 ^ ?n" by (simp add: power_mult mult.commute [of _ 8])
  then have "take_bit ?n w = w" using ws(2) by (simp add: word_unat_eq_iff unsigned_take_bit_eq take_bit_nat_eq_self)
  then have "bit w i \<Longrightarrow> i < ?n" for i by (metis bit_take_bit_iff)
  then show ?thesis using False ws(1) by (auto simp: mask_for_def bit_simps intro!: bit_word_eqI)
qed (simp add: mask_for_def)

lemma b58digits_table:
  "length b58digits_ordered = 58" "map (\<lambda>c. b58digits_map ! unat c) b58digits_ordered = map int [0..<58]"
  "list_all (\<lambda>c. \<not> bit c 7) b58digits_ordered" "map (\<lambda>c. c = 49) b58digits_ordered = True # replicate 57 False"
  by code_simp+

lemma digit_value:
  assumes "unat d < 58"
  shows "b58digits_map ! unat (b58digits_ordered ! unat d) = int (unat d) \<and> \<not> bit (b58digits_ordered ! unat d) 7 \<and>
    (b58digits_ordered ! unat d = 49 \<longleftrightarrow> d = 0)"
proof -
  have "b58digits_map ! unat (b58digits_ordered ! n) = int n \<and> \<not> bit (b58digits_ordered ! n) 7 \<and>
    (b58digits_ordered ! n = 49 \<longleftrightarrow> n = 0)" if "n < 58" for n
    using arg_cong [OF b58digits_table(2), of "\<lambda>xs. xs ! n"] arg_cong [OF b58digits_table(4), of "\<lambda>xs. xs ! n"] b58digits_table(1,3) that
    by (simp add: list_all_length nth_Cons')
  from this [OF assms] show ?thesis by (simp add: unat_eq_zero)
qed

lemma b58_digits_value:
  assumes "length ws = (binsz + 3) div 4" "digits_below 58 ds" "words ws * 58 ^ length ds + radix 58 ds < 256 ^ binsz"
  shows "\<exists>outi. b58_digits (mask_for binsz) (map (\<lambda>d. b58digits_ordered ! unat d) ds) ws = Some outi \<and> length outi = length ws \<and>
    words outi = words ws * 58 ^ length ds + radix 58 ds"
  using assms
proof (induction ds arbitrary: ws)
  case (Cons d ds)
  have d: "unat d < 58" using Cons.prems(2) by simp
  note v = digit_value [OF d]
  have "int (unat d) \<noteq> -1" by linarith
  obtain c ws1 where add: "mul58_add ws (of_int (int (unat d))) = (c, ws1)" by (cases "mul58_add ws (of_int (int (unat d)))")
  have dv: "unat (of_int (int (unat d)) :: u32) = unat d" using d by (simp add: unsigned_ucast_eq take_bit_nat_eq_self)
  note m = mul58_add_value [OF add, unfolded dv]
  have whole: "words ws * 58 ^ length (d # ds) + radix 58 (d # ds) = (58 * words ws + unat d) * 58 ^ length ds + radix 58 ds"
    by (simp add: radix_Cons algebra_simps)
  have "(58 * words ws + unat d) * 1 \<le> (58 * words ws + unat d) * 58 ^ length ds" by (rule mult_le_mono2) simp
  also have "\<dots> \<le> words ws * 58 ^ length (d # ds) + radix 58 (d # ds)" unfolding whole by (rule le_add1)
  also note Cons.prems(3)
  finally have now: "58 * words ws + unat d < 256 ^ binsz" by simp
  have "binsz \<le> 4 * length ws" using Cons.prems(1) by presburger
  then have "(256 :: nat) ^ binsz \<le> 256 ^ (4 * length ws)" by (rule power_increasing) simp
  also have "\<dots> = (2 ^ 32) ^ length ws" by (simp add: power_mult)
  finally have "unat c * (2 ^ 32) ^ length ws < (2 ^ 32) ^ length ws" using m now by linarith
  then have "unat c = 0" by (cases "unat c") auto
  then have c: "c = 0" "words ws1 = 58 * words ws + unat d" "length ws1 = length ws" using m by (simp_all add: word_unat_eq_iff)
  have clear: "hd ws1 AND mask_for binsz = 0" by (rule mask_clear) (use c Cons.prems(1) now in simp_all)
  from Cons.IH [of ws1] c Cons.prems whole obtain outi where
    "b58_digits (mask_for binsz) (map (\<lambda>d. b58digits_ordered ! unat d) ds) ws1 = Some outi" "length outi = length ws"
    "words outi = words ws * 58 ^ length (d # ds) + radix 58 (d # ds)" by auto
  then show ?case using v add c clear \<open>int (unat d) \<noteq> -1\<close> by simp
qed simp

lemma bytes_of_words:
  assumes "length ws = (binsz + 3) div 4" "words ws < 256 ^ binsz"
  defines "bin \<equiv> (if binsz mod 4 \<noteq> 0 then be_bytes (binsz mod 4) (hd ws) @ concat (map (be_bytes 4) (tl ws)) else concat (map (be_bytes 4) ws))"
  shows "length bin = binsz \<and> radix 256 bin = words ws"
proof (cases "binsz mod 4 = 0")
  case True
  then have "4 * length ws = binsz" using assms(1) by presburger
  then show ?thesis using True radix_words [of ws] unfolding bin_def by simp
next
  case False
  obtain w rest where ws: "ws = w # rest" "length rest = binsz div 4" "unat w < 256 ^ (binsz mod 4)" using first_word [OF assms(1) False assms(2)] by blast
  have "(256 :: nat) ^ (4 * length rest) = (2 ^ 32) ^ length rest" by (simp add: power_mult)
  then show ?thesis using False ws radix_words [of rest] unfolding bin_def by (simp add: radix_append radix_be_bytes words_Cons)
qed

section \<open>Round trip\<close>

text \<open>
  Decoding a Base-58 text into as many bytes as it was made from gives the bytes back, leading zeros included, and
  the text is written whenever the buffer has room for it.
\<close>

theorem b58_round_trip:
  assumes "bin \<noteq> []" "snd (b58enc sz bin) \<le> sz"
  shows "\<exists>b58. fst (b58enc sz bin) = Some b58 \<and> length b58 + 1 = snd (b58enc sz bin) \<and> b58tobin (length bin) b58 = Some (bin, length bin)"
proof -
  obtain ds z where d: "z = length (takeWhile (\<lambda>b. b = 0) bin)" "digits_below 58 ds" "radix 58 ds = radix 256 bin" "ds = [] \<or> hd ds \<noteq> 0"
    "b58enc sz bin = (if sz \<le> z + length ds then None else Some (replicate z 49 @ map (\<lambda>d. b58digits_ordered ! unat d) ds), z + length ds + 1)"
    using b58enc_digits [of bin] by metis
  let ?chars = "map (\<lambda>d. b58digits_ordered ! unat d) ds" and ?n = "length bin"
  let ?b58 = "replicate z 49 @ ?chars"
  have enc: "fst (b58enc sz bin) = Some ?b58" "length ?b58 + 1 = snd (b58enc sz bin)" using assms(2) d(5) by auto
  have first: "takeWhile (\<lambda>c. c = 49) ?chars = []"
  proof (cases ds)
    case (Cons c cs)
    then have "unat c < 58" "c \<noteq> 0" using d(2,4) by simp_all
    then show ?thesis using Cons digit_value [of c] by simp
  qed simp
  have zeros: "takeWhile (\<lambda>c. c = 49) ?b58 = replicate z 49" using first by (simp add: takeWhile_append)
  have below: "radix 256 bin < 256 ^ ?n" by (intro radix_less bytes_below)
  let ?ws = "replicate ((?n + 3) div 4) (0 :: u32)"
  have "words (replicate k 0) = 0" for k by (induction k) (simp_all add: words_Cons words_def)
  then obtain outi where out: "b58_digits (mask_for ?n) ?chars ?ws = Some outi" "length outi = (?n + 3) div 4" "words outi = radix 256 bin"
    using b58_digits_value [of ?ws ?n ds] d(2,3) below by auto
  let ?bin = "if ?n mod 4 \<noteq> 0 then be_bytes (?n mod 4) (hd outi) @ concat (map (be_bytes 4) (tl outi)) else concat (map (be_bytes 4) outi)"
  have "length ?bin = ?n" "radix 256 ?bin = radix 256 bin" using bytes_of_words [OF out(2)] out(3) below by simp_all
  then have bin: "?bin = bin" using bytes_below by (intro radix_inj [of _ _ 256])
  have "z \<le> ?n" using d(1) length_takeWhile_le by metis
  then have "b58tobin ?n ?b58 = Some (bin, ?n)"
    using out(1) zeros bin d(1) unfolding b58tobin_def Let_def mask_for_def by simp
  with enc show ?thesis by blast
qed

end
