(* ===== verification/Coinbase_Decoder.thy ===== *)
theory Coinbase_Decoder
  imports Segwit Base58 Mining
begin

text \<open>
  \<open>components/stratum/coinbase_decoder.c\<close>: what the device shows of the coinbase transaction of a job, read from the
  two halves the pool sends. Everything here comes from the network, so a read outside a buffer is an outcome of the
  model: \<open>read_bytes\<close> gives nothing, and the whole function gives \<open>Read_Out_Of_Bounds\<close>. A text is a list of
  non-zero bytes; lengths stay far below \<open>2^31\<close>, so that \<open>int\<close> and \<open>size_t\<close> do not wrap.
\<close>

section \<open>Reading\<close>

definition read_bytes :: "nat \<Rightarrow> nat \<Rightarrow> bytes \<Rightarrow> bytes option" where
  "read_bytes off n data = (if off + n \<le> length data then Some (slice off n data) else None)"

text \<open>The value and the new offset; nothing for a read outside \<open>data\<close>.\<close>

definition coinbase_decode_varint :: "bytes \<Rightarrow> nat \<Rightarrow> nat \<Rightarrow> (u64 \<times> nat) option" where
  "coinbase_decode_varint data data_len offset =
     (if offset \<ge> data_len then Some (0, data_len)
      else case read_bytes offset 1 data of
        None \<Rightarrow> None
      | Some first_byte \<Rightarrow>
          let first_byte = hd first_byte; offset = offset + 1
          in if first_byte < 0xFD then Some (ucast first_byte, offset)
             else
               let extra_bytes = (if first_byte = 0xFD then 2 else if first_byte = 0xFE then 4 else 8)
               in if offset + extra_bytes > data_len then Some (0, data_len)
                  else case read_bytes offset extra_bytes data of
                         None \<Rightarrow> None
                       | Some bs \<Rightarrow> Some (le_word bs, offset + extra_bytes))"

section \<open>Addresses\<close>

definition MAX_ADDRESS_STRING_LEN :: nat where "MAX_ADDRESS_STRING_LEN = 128"
definition MAX_COINBASE_TX_OUTPUTS :: nat where "MAX_COINBASE_TX_OUTPUTS = 6"

definition OP_0 :: u8 where "OP_0 = 0x00"
definition OP_PUSHDATA_20 :: u8 where "OP_PUSHDATA_20 = 0x14"
definition OP_PUSHDATA_32 :: u8 where "OP_PUSHDATA_32 = 0x20"
definition OP_1 :: u8 where "OP_1 = 0x51"
definition OP_RETURN :: u8 where "OP_RETURN = 0x6a"
definition OP_DUP :: u8 where "OP_DUP = 0x76"
definition OP_EQUAL :: u8 where "OP_EQUAL = 0x87"
definition OP_EQUALVERIFY :: u8 where "OP_EQUALVERIFY = 0x88"
definition OP_HASH160 :: u8 where "OP_HASH160 = 0xa9"
definition OP_CHECKSIG :: u8 where "OP_CHECKSIG = 0xac"

definition isprint :: "u8 \<Rightarrow> bool" where "isprint c \<longleftrightarrow> 32 \<le> c \<and> c \<le> 126"

definition printable :: "u8 \<Rightarrow> u8" where "printable c = (if isprint c then c else 46)"

text \<open>A label and the bytes behind it in hexadecimal, when there is room for them.\<close>

definition hex_fallback :: "nat \<Rightarrow> string \<Rightarrow> bytes \<Rightarrow> bytes" where
  "hex_fallback output_len label bs =
     (case snd (bin2hex bs (output_len - length label)) of None \<Rightarrow> ascii label | Some hex \<Rightarrow> ascii label @ hex)"

definition coinbase_decode_address_from_scriptpubkey :: "sha_lib \<Rightarrow> bytes \<Rightarrow> nat \<Rightarrow> bytes \<Rightarrow> bool \<Rightarrow> bytes" where
  "coinbase_decode_address_from_scriptpubkey L script output_len bech32_hrp is_testnet =
     (let script_len = length script; or_else = (\<lambda>a label bs. case a of Some t \<Rightarrow> t | None \<Rightarrow> hex_fallback output_len label bs)
      in if script_len = 0 \<or> output_len < 65 then take (output_len - 1) (ascii ''unknown'')
         else if script_len = 25 \<and> script ! 0 = OP_DUP \<and> script ! 1 = OP_HASH160 \<and> script ! 2 = OP_PUSHDATA_20 \<and>
                script ! 23 = OP_EQUALVERIFY \<and> script ! 24 = OP_CHECKSIG then
           or_else (b58check_enc L output_len (if is_testnet then 0x6F else 0x00) (slice 3 20 script)) ''P2PKH:'' (slice 3 20 script)
         else if script_len = 23 \<and> script ! 0 = OP_HASH160 \<and> script ! 1 = OP_PUSHDATA_20 \<and> script ! 22 = OP_EQUAL then
           or_else (b58check_enc L output_len (if is_testnet then 0xC4 else 0x05) (slice 2 20 script)) ''P2SH:'' (slice 2 20 script)
         else if script_len = 22 \<and> script ! 0 = OP_0 \<and> script ! 1 = OP_PUSHDATA_20 then
           or_else (segwit_addr_encode bech32_hrp 0 (slice 2 20 script)) ''P2WPKH:'' (slice 2 20 script)
         else if script_len = 34 \<and> script ! 0 = OP_0 \<and> script ! 1 = OP_PUSHDATA_32 then
           or_else (segwit_addr_encode bech32_hrp 0 (slice 2 32 script)) ''P2WSH:'' (slice 2 32 script)
         else if script_len = 34 \<and> script ! 0 = OP_1 \<and> script ! 1 = OP_PUSHDATA_32 then
           or_else (segwit_addr_encode bech32_hrp 1 (slice 2 32 script)) ''P2TR:'' (slice 2 32 script)
         else if script ! 0 = OP_RETURN then
           let head = ascii ''OP_RETURN: '';
               offset = (if script_len > 1 \<and> script ! 1 > 0 \<and> script ! 1 \<le> 0x4b \<and> unat (script ! 1) + 2 = script_len then 2 else 1)
           in head @ map printable (take (output_len - 1 - length head) (drop offset script))
         else hex_fallback output_len ''UNKNOWN:'' (take 32 script))"

section \<open>Outputs\<close>

record coinbase_output =
  out_value_satoshis :: u64
  out_address :: bytes
  is_user_output :: bool

record mining_notification_result =
  network_difficulty :: double_value
  res_block_height :: u32
  scriptsig :: "bytes option"
  res_outputs :: "coinbase_output list"
  output_count :: nat
  total_value_satoshis :: u64
  user_value_satoshis :: u64
  res_decode_coinbase_tx :: bool
  bip54_signaling :: bool
  bip110_signaling :: bool

text \<open>What the caller passes down the loop, and the network the address of the user belongs to.\<close>

record decode_env =
  env_sha :: sha_lib
  env_user_address :: "bytes option"
  env_decode_tx :: bool
  env_hrp :: bytes
  env_testnet :: bool

definition network_of :: "bytes option \<Rightarrow> bytes \<times> bool" where
  "network_of user_address =
     (case user_address of
        None \<Rightarrow> (ascii ''bc'', False)
      | Some u \<Rightarrow>
          if take 4 u = ascii ''bcrt'' then (ascii ''bcrt'', True)
          else if take 3 u = ascii ''tb1'' then (ascii ''tb'', True)
          else if u \<noteq> [] \<and> hd u \<in> set (ascii ''mn2'') then (ascii ''tb'', True)
          else (ascii ''bc'', False))"

definition is_user_address :: "bytes option \<Rightarrow> bytes \<Rightarrow> bool" where
  "is_user_address user_address output_address =
     (case user_address of None \<Rightarrow> False | Some u \<Rightarrow> take (length output_address) u = output_address)"

text \<open>One output of the transaction, the \<open>i\<close>-th.\<close>

definition record_output :: "decode_env \<Rightarrow> u64 \<Rightarrow> u64 \<Rightarrow> bytes \<Rightarrow> mining_notification_result \<Rightarrow> mining_notification_result" where
  "record_output E i value_satoshis script r =
     (if env_decode_tx E then
        let output_address = coinbase_decode_address_from_scriptpubkey (env_sha E) script MAX_ADDRESS_STRING_LEN (env_hrp E) (env_testnet E);
            user = (value_satoshis > 0 \<and> is_user_address (env_user_address E) output_address);
            r = (if user then r\<lparr>user_value_satoshis := user_value_satoshis r + value_satoshis\<rparr> else r)
        in if i < of_nat MAX_COINBASE_TX_OUTPUTS then
             r\<lparr>res_outputs := (res_outputs r)[unat i := \<lparr>out_value_satoshis = value_satoshis, out_address = output_address, is_user_output = user\<rparr>],
               output_count := output_count r + 1\<rparr>
           else r
      else r)"

text \<open>The loop gives the offset it stopped at; nothing for a read outside the buffer.\<close>

function output_loop :: "decode_env \<Rightarrow> bytes \<Rightarrow> nat \<Rightarrow> u64 \<Rightarrow> u64 \<Rightarrow> nat \<Rightarrow> mining_notification_result \<Rightarrow> (nat \<times> mining_notification_result) option" where
  "output_loop E bin len num_outputs i offset r =
     (if i < num_outputs \<and> offset < len then
        if offset + 8 > len then Some (offset, r)
        else case read_bytes offset 8 bin of
          None \<Rightarrow> None
        | Some v \<Rightarrow>
            let value_satoshis = le_word v; offset = offset + 8;
                r = r\<lparr>total_value_satoshis := total_value_satoshis r + value_satoshis\<rparr>
            in if offset \<ge> len then Some (offset, r)
               else case coinbase_decode_varint bin len offset of
                 None \<Rightarrow> None
               | Some (script_len, offset) \<Rightarrow>
                   if script_len > of_int (int len - int offset) then Some (offset, r)
                   else case read_bytes offset (unat script_len) bin of
                     None \<Rightarrow> None
                   | Some script \<Rightarrow>
                       output_loop E bin len num_outputs (i + 1) (offset + unat script_len) (record_output E i value_satoshis script r)
      else Some (offset, r))"
  by pat_completeness auto
termination
proof (relation "measure (\<lambda>(E, bin, len, num, i, off, r). unat num - unat i)", goal_cases)
  case (2 E bin len num i)
  then have "unat i < unat num" "unat (i + 1) = unat i + 1"
    using unsigned_less [where ?'a = nat, of num] by (auto simp: word_less_nat_alt unat_word_ariths)
  then show ?case by simp
qed simp

declare output_loop.simps [simp del]

section \<open>The notification\<close>

datatype decode_err = ESP_OK | ESP_ERR_INVALID_ARG | ESP_ERR_NO_MEM

datatype decode_outcome = Returned decode_err mining_notification_result | Read_Out_Of_Bounds

text \<open>
  The tag of the miner, after the block height. \<open>coinbase_1_tag_len\<close> goes to \<open>hex2bin\<close> as a \<open>size_t\<close>: below zero it
  is no limit at all, and the text is read past its end.
\<close>

definition miner_tag :: "(nat \<Rightarrow> bool) \<Rightarrow> bytes \<Rightarrow> bytes \<Rightarrow> nat \<Rightarrow> int \<Rightarrow> bytes option \<Rightarrow> bytes option option" where
  "miner_tag malloc_ok coinbase_1 coinbase_2 coinbase_1_offset scriptsig_length before =
     (if scriptsig_length > 0 \<and> malloc_ok (nat (scriptsig_length + 1)) then
        let tag_len = min (int (length coinbase_1 div 2) - int coinbase_1_offset) scriptsig_length
        in if coinbase_1_offset * 2 > length coinbase_1 then None
           else
             let coinbase_2_tag_len = scriptsig_length - tag_len
             in if int (length coinbase_2 div 2) \<ge> coinbase_2_tag_len then
                  Some (Some (map printable (hex2bin (drop (coinbase_1_offset * 2) coinbase_1) (nat tag_len) @
                                             hex2bin coinbase_2 (nat coinbase_2_tag_len))))
                else Some before
      else Some before)"

text \<open>The second half: the sequence number, the outputs from \<open>offset\<close> on, the lock time.\<close>

definition coinbase_outputs :: "decode_env \<Rightarrow> (nat \<Rightarrow> bool) \<Rightarrow> bytes \<Rightarrow> nat \<Rightarrow> mining_notification_result \<Rightarrow> decode_outcome" where
  "coinbase_outputs E malloc_ok coinbase_2 offset r =
     (let coinbase_2_len = length coinbase_2 div 2; bin = hex2bin coinbase_2 coinbase_2_len
      in if \<not> malloc_ok coinbase_2_len then Returned ESP_ERR_NO_MEM r
         else if offset + 4 > coinbase_2_len then Returned ESP_ERR_INVALID_ARG r
         else case read_bytes offset 4 bin of
           None \<Rightarrow> Read_Out_Of_Bounds
         | Some seq \<Rightarrow>
             let nSequence = le_word seq :: u32; offset = offset + 4
             in if offset \<ge> coinbase_2_len then Returned ESP_ERR_INVALID_ARG r
                else case coinbase_decode_varint bin coinbase_2_len offset of
                  None \<Rightarrow> Read_Out_Of_Bounds
                | Some (num_outputs, offset) \<Rightarrow>
                    (case output_loop E bin coinbase_2_len num_outputs 0 offset (r\<lparr>output_count := 0\<rparr>) of
                       None \<Rightarrow> Read_Out_Of_Bounds
                     | Some (offset, r) \<Rightarrow>
                         (case (if offset + 4 \<le> coinbase_2_len then read_bytes offset 4 bin else Some []) of
                            None \<Rightarrow> Read_Out_Of_Bounds
                          | Some lock \<Rightarrow>
                              Returned ESP_OK (r\<lparr>bip54_signaling :=
                                (env_decode_tx E \<and> le_word lock = res_block_height r - 1 \<and> nSequence \<noteq> 0xffffffff)\<rparr>))))"

definition coinbase_process_notification ::
  "sha_lib \<Rightarrow> (nat \<Rightarrow> bool) \<Rightarrow> mining_notify \<Rightarrow> bytes option \<Rightarrow> int \<Rightarrow> bytes option \<Rightarrow> bool \<Rightarrow> mining_notification_result \<Rightarrow> decode_outcome" where
  "coinbase_process_notification L malloc_ok notification extranonce1 extranonce2_len user_address decode_tx result =
     (case extranonce1 of None \<Rightarrow> Returned ESP_ERR_INVALID_ARG result | Some extranonce1 \<Rightarrow>
      let coinbase_1 = notify_coinbase_1 notification; coinbase_2 = notify_coinbase_2 notification;
          E = \<lparr>env_sha = L, env_user_address = user_address, env_decode_tx = decode_tx,
               env_hrp = fst (network_of user_address), env_testnet = snd (network_of user_address)\<rparr>;
          r = result\<lparr>total_value_satoshis := 0, user_value_satoshis := 0, res_decode_coinbase_tx := decode_tx,
                network_difficulty := networkDifficulty (notify_target notification)\<rparr>;
          coinbase_1_len = length coinbase_1 div 2
      in if coinbase_1_len < 42 then Returned ESP_ERR_INVALID_ARG r
         else
           let scriptsig_len = hd (hex2bin (drop 82 coinbase_1) 1)
           in if coinbase_1_len < 43 then Returned ESP_ERR_INVALID_ARG r
              else
                let block_height_len = hd (hex2bin (drop 84 coinbase_1) 1)
                in if block_height_len = 0 \<or> block_height_len > 4 then Returned ESP_ERR_INVALID_ARG r
                   else
                     let height = le_word (hex2bin (drop 86 coinbase_1) (unat block_height_len)) :: u32;
                         coinbase_1_offset = 43 + unat block_height_len;
                         r = r\<lparr>res_block_height := height,
                               bip110_signaling := (decode_tx \<and> height < 965664 \<and> bit (notify_version notification) 4)\<rparr>;
                         rest = int (unat scriptsig_len) - 1 - int (unat block_height_len);
                         extranonces = int (length extranonce1 div 2) + extranonce2_len;
                         in_coinbase_1 = int coinbase_1_len - int coinbase_1_offset;
                         scriptsig_length = (if in_coinbase_1 < rest then rest - extranonces else rest)
                     in case miner_tag malloc_ok coinbase_1 coinbase_2 coinbase_1_offset scriptsig_length (scriptsig r) of
                          None \<Rightarrow> Read_Out_Of_Bounds
                        | Some tag \<Rightarrow>
                            let remainder = rest - in_coinbase_1;
                                offset = (if remainder > 0 \<and> remainder - extranonces > 0 then nat (remainder - extranonces) else 0)
                            in coinbase_outputs E malloc_ok coinbase_2 offset (r\<lparr>scriptsig := tag\<rparr>))"

section \<open>No read leaves the second half\<close>

lemma read_bytes_in [simp]: "off + n \<le> length data \<Longrightarrow> read_bytes off n data = Some (slice off n data)"
  by (simp add: read_bytes_def)

lemma varint_in_bounds:
  "\<exists>v o'. coinbase_decode_varint data (length data) off = Some (v, o') \<and> o' \<le> length data"
  by (cases "off \<ge> length data") (auto simp: coinbase_decode_varint_def Let_def)

lemma script_fits:
  assumes "off \<le> len" "\<not> script_len > (of_int (int len - int off) :: u64)"
  shows "off + unat script_len \<le> len"
proof -
  have "(of_int (int len - int off) :: u64) = of_nat (len - off)" using assms(1) by (simp add: of_nat_diff)
  then have "unat script_len \<le> unat (of_nat (len - off) :: u64)" using assms(2) by (simp add: word_less_nat_alt not_less)
  also have "\<dots> \<le> len - off" by (simp add: unsigned_of_nat take_bit_eq_mod)
  finally show ?thesis using assms(1) by simp
qed

lemma output_loop_in_bounds:
  assumes "len = length bin" "off \<le> len"
  shows "\<exists>o' r'. output_loop E bin len num i off r = Some (o', r') \<and> o' \<le> len"
  using assms
proof (induction E bin len num i off r rule: output_loop.induct)
  case (1 E bin len num i off r)
  show ?case
  proof (cases "i < num \<and> off < len \<and> off + 8 \<le> len \<and> off + 8 < len")
    case False
    then show ?thesis using 1(3) by (subst output_loop.simps) (auto simp: Let_def "1.prems"(1))
  next
    case True
    obtain v o2 where v: "coinbase_decode_varint bin len (off + 8) = Some (v, o2)" "o2 \<le> len"
      using varint_in_bounds [of bin "off + 8"] "1.prems"(1) by auto
    show ?thesis
    proof (cases "v > of_int (int len - int o2)")
      case True
      then show ?thesis using v \<open>i < num \<and> _\<close> 1(3) by (subst output_loop.simps) (simp add: "1.prems"(1) [symmetric] Let_def)
    next
      case False
      from script_fits [OF v(2) this] have fits: "o2 + unat v \<le> len" .
      have step: "output_loop E bin len num i off r =
        output_loop E bin len num (i + 1) (o2 + unat v)
          (record_output E i (le_word (slice off 8 bin)) (slice o2 (unat v) bin)
            (r\<lparr>total_value_satoshis := total_value_satoshis r + le_word (slice off 8 bin)\<rparr>))"
        using True v False fits "1.prems"(1) by (subst output_loop.simps) (simp add: Let_def)
      have "\<exists>o' r'. output_loop E bin len num (i + 1) (o2 + unat v)
          (record_output E i (le_word (slice off 8 bin)) (slice o2 (unat v) bin)
            (r\<lparr>total_value_satoshis := total_value_satoshis r + le_word (slice off 8 bin)\<rparr>)) = Some (o', r') \<and> o' \<le> len"
        using True v False fits "1.prems"(1)
        by (intro "1.IH" [of "slice off 8 bin" "le_word (slice off 8 bin)" "off + 8" _ "(v, o2)" v o2]) auto
      then show ?thesis unfolding step .
    qed
  qed
qed

lemma coinbase_outputs_in_bounds: "coinbase_outputs E malloc_ok coinbase_2 off r \<noteq> Read_Out_Of_Bounds"
proof -
  let ?len = "length coinbase_2 div 2"
  let ?bin = "hex2bin coinbase_2 ?len"
  have len: "length ?bin = ?len" using length_hex2bin [of coinbase_2 ?len] by linarith
  show ?thesis
  proof (cases "\<not> malloc_ok ?len \<or> off + 4 > ?len \<or> off + 4 \<ge> ?len")
    case True
    then show ?thesis using len by (auto simp: coinbase_outputs_def Let_def)
  next
    case False
    obtain n o1 where n: "coinbase_decode_varint ?bin ?len (off + 4) = Some (n, o1)" "o1 \<le> ?len"
      using varint_in_bounds [of ?bin "off + 4"] len by auto
    obtain o2 r' where "output_loop E ?bin ?len n 0 o1 (r\<lparr>output_count := 0\<rparr>) = Some (o2, r')"
      using output_loop_in_bounds [of ?len ?bin o1] n len by metis
    then show ?thesis using False n len by (auto simp: coinbase_outputs_def Let_def)
  qed
qed

lemma miner_tag_outside:
  "miner_tag malloc_ok c1 c2 off len before = None \<longleftrightarrow> 0 < len \<and> malloc_ok (nat (len + 1)) \<and> length c1 div 2 < off"
  by (auto simp: miner_tag_def Let_def)

lemma hex_byte_range: "b = 0 \<or> b > 4 \<longleftrightarrow> \<not> (1 \<le> unat b \<and> unat b \<le> 4)" for b :: u8
  by (cases "b = 0") (auto simp: word_less_nat_alt not_le unat_gt_0 Suc_le_eq)

text \<open>
  C19. Whatever the pool sends, the decoder reads only what is there, with one exception: a first half that ends inside
  the block height, whose script is said to go on. Then, and only then, the copy of the miner tag gets a negative
  length and a pointer behind the text.
\<close>

theorem coinbase_reads_in_bounds:
  "coinbase_process_notification L malloc_ok n extranonce1 e2 user decode_tx r = Read_Out_Of_Bounds \<longleftrightarrow>
     (\<exists>e1. extranonce1 = Some e1 \<and>
        (let len = length (notify_coinbase_1 n) div 2; script = unat (hd (hex2bin (drop 82 (notify_coinbase_1 n)) 1));
             height_len = unat (hd (hex2bin (drop 84 (notify_coinbase_1 n)) 1));
             tag_len = int script - 1 - int height_len - int (length e1 div 2) - e2
         in 43 \<le> len \<and> 1 \<le> height_len \<and> height_len \<le> 4 \<and> len < 43 + height_len \<and>
            int len + 1 < 43 + int script \<and> 0 < tag_len \<and> malloc_ok (nat (tag_len + 1))))"
proof (cases extranonce1)
  case (Some e1)
  let ?c1 = "notify_coinbase_1 n"
  let ?hl = "hd (hex2bin (drop 84 ?c1) 1)" and ?sl = "hd (hex2bin (drop 82 ?c1) 1)"
  show ?thesis
  proof (cases "43 \<le> length ?c1 div 2 \<and> 1 \<le> unat ?hl \<and> unat ?hl \<le> 4")
    case False
    then consider "length ?c1 div 2 < 42" | "42 \<le> length ?c1 div 2" "length ?c1 div 2 < 43"
      | "43 \<le> length ?c1 div 2" "?hl = 0 \<or> ?hl > 4" unfolding hex_byte_range by linarith
    then have "coinbase_process_notification L malloc_ok n extranonce1 e2 user decode_tx r \<noteq> Read_Out_Of_Bounds"
      by cases (simp_all add: coinbase_process_notification_def Some Let_def)
    then show ?thesis using False Some unfolding Let_def by blast
  next
    case True
    then have len: "\<not> length ?c1 div 2 < 42" "\<not> length ?c1 div 2 < 43" "\<not> (?hl = 0 \<or> ?hl > 4)" unfolding hex_byte_range by simp_all
    let ?rest = "int (unat ?sl) - 1 - int (unat ?hl)" and ?in = "int (length ?c1 div 2) - int (43 + unat ?hl)"
    let ?ex = "int (length e1 div 2) + e2"
    have no: "\<not> ?in < ?rest \<Longrightarrow> length ?c1 div 2 < 43 + unat ?hl \<Longrightarrow> \<not> 0 < ?rest" by linarith
    have "coinbase_process_notification L malloc_ok n extranonce1 e2 user decode_tx r = Read_Out_Of_Bounds \<longleftrightarrow>
      miner_tag malloc_ok ?c1 (notify_coinbase_2 n) (43 + unat ?hl) (if ?in < ?rest then ?rest - ?ex else ?rest) (scriptsig r) = None"
      unfolding coinbase_process_notification_def Some Let_def option.case if_not_P [OF len(1)] if_not_P [OF len(2)] if_not_P [OF len(3)]
      by (simp add: coinbase_outputs_in_bounds split: option.splits)
    also have "\<dots> \<longleftrightarrow> length ?c1 div 2 < 43 + unat ?hl \<and> ?in < ?rest \<and> 0 < ?rest - ?ex \<and> malloc_ok (nat (?rest - ?ex + 1))"
      unfolding miner_tag_outside using no by (cases "?in < ?rest") (simp_all only: if_True if_False, blast+)
    also have "?rest - ?ex = int (unat ?sl) - 1 - int (unat ?hl) - int (length e1 div 2) - e2" by simp
    also have "?in < ?rest \<longleftrightarrow> int (length ?c1 div 2) + 1 < 43 + int (unat ?sl)" by linarith
    finally show ?thesis using True Some unfolding Let_def by blast
  qed
qed (simp add: coinbase_process_notification_def)

text \<open>Such a first half: forty-three bytes, a height of three that are not there, a script of a hundred.\<close>

theorem coinbase_reads_in_bounds_witness:
  "\<forall>L c2 user r. coinbase_process_notification L (\<lambda>n. True)
     \<lparr>notify_job_id = [], notify_prev_block_hash = [], notify_coinbase_1 = hex_text (replicate 41 0 @ [100, 3]), notify_coinbase_2 = c2,
      notify_merkle_branches = [], notify_version = 0, notify_target = 0, notify_ntime = 0, notify_clean_jobs = True\<rparr>
     (Some (hex_text [1, 2, 3, 4])) 8 user True r = Read_Out_Of_Bounds"
proof -
  have d: "drop 82 (hex_text (replicate 41 0 @ [100, 3])) = hex_text [100, 3]" "drop 84 (hex_text (replicate 41 0 @ [100, 3])) = hex_text [3]"
    by code_simp+
  show ?thesis by (simp add: coinbase_reads_in_bounds d Let_def)
qed

section \<open>A coinbase transaction is read as it was written\<close>

text \<open>The counts and lengths of a transaction, in their shortest form.\<close>

definition varint_bytes :: "nat \<Rightarrow> bytes" where
  "varint_bytes n =
     (if n < 0xFD then [of_nat n]
      else if n < 2 ^ 16 then 0xFD # le_bytes 2 (of_nat n :: u64)
      else if n < 2 ^ 32 then 0xFE # le_bytes 4 (of_nat n :: u64)
      else 0xFF # le_bytes 8 (of_nat n :: u64))"

lemma le_word_prefix:
  fixes w :: "'a::len word"
  shows "(le_word (le_bytes n w) :: 'a word) = take_bit (8 * n) w"
proof (rule word_eq_by_bits)
  fix i assume "i < LENGTH('a)"
  moreover have "i div 8 < n \<longleftrightarrow> i < 8 * n" by (simp add: div_less_iff_less_mult mult.commute)
  moreover have "bit (le_bytes n w ! (i div 8)) (i mod 8) \<longleftrightarrow> bit w i" if "i div 8 < n"
    using bit_nth_le_bytes [OF that, of w "i mod 8"] by (simp only: mult_div_mod_eq) simp
  ultimately show "bit (le_word (le_bytes n w) :: 'a word) i \<longleftrightarrow> bit (take_bit (8 * n) w) i"
    by (simp only: bit_le_word length_le_bytes bit_take_bit_iff) blast
qed

lemma le_word_of_nat: "m < 2 ^ (8 * n) \<Longrightarrow> n \<le> 8 \<Longrightarrow> le_word (le_bytes n (of_nat m :: u64)) = (of_nat m :: u64)"
proof -
  assume m: "m < 2 ^ (8 * n)" and n: "n \<le> 8"
  have "(2 :: nat) ^ (8 * n) \<le> 2 ^ 64" by (rule power_increasing) (use n in simp_all)
  with m have "unat (of_nat m :: u64) = m" by (simp add: unsigned_of_nat take_bit_nat_eq_self)
  with m show ?thesis by (simp add: le_word_prefix word_unat_eq_iff unsigned_take_bit_eq take_bit_nat_eq_self)
qed

lemma varint_round_trip:
  assumes "n < 2 ^ 64" "data = pre @ varint_bytes n @ post"
  shows "coinbase_decode_varint data (length data) (length pre) = Some (of_nat n, length pre + length (varint_bytes n))"
proof -
  have slice1: "slice (length pre) 1 (pre @ (b :: u8) # post) = [b]" "slice (length pre) (Suc 0) (pre @ (b :: u8) # post) = [b]" for b post by (simp_all add: slice_def)
  have slicen: "slice (Suc (length pre)) (length bs) (pre @ (b :: u8) # bs @ post) = bs" for b bs post
    by (simp add: slice_def)
  consider "n < 0xFD" | "\<not> n < 0xFD" "n < 2 ^ 16" | "\<not> n < 2 ^ 16" "n < 2 ^ 32" | "\<not> n < 2 ^ 32" by linarith
  then show ?thesis
  proof cases
    case 1
    then have "unat (of_nat n :: u8) = n" by (simp add: unsigned_of_nat take_bit_nat_eq_self)
    with 1 have "(of_nat n :: u8) < 0xFD" "ucast (of_nat n :: u8) = (of_nat n :: u64)"
      by (simp_all add: word_less_nat_alt word_unat_eq_iff unat_ucast_widen unsigned_of_nat take_bit_nat_eq_self)
    with 1 assms(2) show ?thesis by (simp add: coinbase_decode_varint_def varint_bytes_def slice1 Let_def)
  next
    case 2
    have "slice (Suc (length pre)) 2 data = le_bytes 2 (of_nat n :: u64)"
      using 2 assms(2) slicen [of "le_bytes 2 (of_nat n :: u64)"] by (simp add: varint_bytes_def)
    moreover have "slice (length pre) 1 data = [0xFD]" "length data = Suc (length pre + 2 + length post)"
      using 2 assms(2) by (simp_all add: varint_bytes_def slice1)
    ultimately show ?thesis using 2 by (simp add: coinbase_decode_varint_def varint_bytes_def le_word_of_nat Let_def)
  next
    case 3
    have "slice (Suc (length pre)) 4 data = le_bytes 4 (of_nat n :: u64)"
      using 3 assms(2) slicen [of "le_bytes 4 (of_nat n :: u64)"] by (simp add: varint_bytes_def)
    moreover have "slice (length pre) 1 data = [0xFE]" "length data = Suc (length pre + 4 + length post)"
      using 3 assms(2) by (simp_all add: varint_bytes_def slice1)
    ultimately show ?thesis using 3 by (simp add: coinbase_decode_varint_def varint_bytes_def le_word_of_nat Let_def)
  next
    case 4
    have "slice (Suc (length pre)) 8 data = le_bytes 8 (of_nat n :: u64)"
      using 4 assms(2) slicen [of "le_bytes 8 (of_nat n :: u64)"] by (simp add: varint_bytes_def)
    moreover have "slice (length pre) 1 data = [0xFF]" "length data = Suc (length pre + 8 + length post)"
      using 4 assms(2) by (simp_all add: varint_bytes_def slice1)
    ultimately show ?thesis using 4 assms(1) by (simp add: coinbase_decode_varint_def varint_bytes_def le_word_of_nat Let_def)
  qed
qed

text \<open>A value and a script; the loop reads them in order.\<close>

definition output_bytes :: "u64 \<times> bytes \<Rightarrow> bytes" where
  "output_bytes out = le_bytes 8 (fst out) @ varint_bytes (length (snd out)) @ snd out"

fun add_outputs :: "decode_env \<Rightarrow> u64 \<Rightarrow> (u64 \<times> bytes) list \<Rightarrow> mining_notification_result \<Rightarrow> mining_notification_result" where
  "add_outputs E i [] r = r"
| "add_outputs E i (out # outs) r =
     add_outputs E (i + 1) outs (record_output E i (fst out) (snd out) (r\<lparr>total_value_satoshis := total_value_satoshis r + fst out\<rparr>))"

lemma varint_bytes_nonempty [simp]: "varint_bytes n \<noteq> []"
  by (simp add: varint_bytes_def)

lemma output_loop_reads:
  assumes "bin = pre @ concat (map output_bytes outs) @ post" "length bin < 2 ^ 63" "unat num = unat i + length outs"
  shows "output_loop E bin (length bin) num i (length pre) r =
    Some (length pre + length (concat (map output_bytes outs)), add_outputs E i outs r)"
  using assms
proof (induction outs arbitrary: pre i r)
  case Nil
  then show ?case by (subst output_loop.simps) (simp add: word_less_nat_alt)
next
  case (Cons out outs)
  obtain v script where out: "out = (v, script)" by (cases out)
  let ?vb = "varint_bytes (length script)" and ?rest = "concat (map output_bytes outs) @ post"
  have bin: "bin = pre @ le_bytes 8 v @ ?vb @ script @ ?rest" using Cons.prems(1) out by (simp add: output_bytes_def [of "(v, script)"])
  have pos: "0 < length ?vb" by simp
  have i: "i < num" "unat (i + 1) = unat i + 1"
    using Cons.prems(3) unsigned_less [where ?'a = nat, of num] by (simp_all add: word_less_nat_alt unat_word_ariths)
  have val: "slice (length pre) 8 bin = le_bytes 8 v" unfolding bin by (simp add: slice_def)
  have len: "length script < 2 ^ 63" using Cons.prems(2) bin by simp
  have vi: "coinbase_decode_varint bin (length bin) (length pre + 8) = Some (of_nat (length script), length pre + 8 + length ?vb)"
    using varint_round_trip [of "length script" bin "pre @ le_bytes 8 v"] len bin by simp
  have us: "unat (of_nat (length script) :: u64) = length script" using len by (simp add: unsigned_of_nat take_bit_nat_eq_self)
  have room: "\<not> (of_nat (length script) :: u64) > of_int (int (length bin) - int (length pre + 8 + length ?vb))"
  proof -
    have "int (length bin) - int (length pre + 8 + length ?vb) = int (length script + length ?rest)" unfolding bin by simp
    moreover have "unat (of_nat (length script + length ?rest) :: u64) = length script + length ?rest"
      using Cons.prems(2) bin by (simp add: unsigned_of_nat take_bit_nat_eq_self del: of_nat_add)
    ultimately show ?thesis using us by (simp only: of_int_of_nat_eq word_less_nat_alt)
  qed
  have scr: "slice (length pre + 8 + length ?vb) (length script) bin = script" unfolding bin by (simp add: slice_def)
  have lens: "length pre + 8 + length ?vb + length script \<le> length bin" "length pre + 8 < length bin"
    using pos unfolding bin by simp_all
  have "output_loop E bin (length bin) num i (length pre) r =
    output_loop E bin (length bin) num (i + 1) (length pre + 8 + length ?vb + length script)
      (record_output E i v script (r\<lparr>total_value_satoshis := total_value_satoshis r + v\<rparr>))"
    using i(1) lens val vi room us scr by (subst output_loop.simps) (simp add: Let_def le_word_le_bytes)
  also have "length pre + 8 + length ?vb + length script = length (pre @ output_bytes out)" by (simp add: out output_bytes_def)
  also have "output_loop E bin (length bin) num (i + 1) (length (pre @ output_bytes out))
      (record_output E i v script (r\<lparr>total_value_satoshis := total_value_satoshis r + v\<rparr>)) =
    Some (length (pre @ output_bytes out) + length (concat (map output_bytes outs)),
      add_outputs E (i + 1) outs (record_output E i v script (r\<lparr>total_value_satoshis := total_value_satoshis r + v\<rparr>)))"
    by (rule Cons.IH) (use Cons.prems i(2) in simp_all)
  finally show ?case by (simp add: out)
qed

text \<open>What is shown of an output.\<close>

definition shown_output :: "decode_env \<Rightarrow> u64 \<times> bytes \<Rightarrow> coinbase_output" where
  "shown_output E out =
     (let a = coinbase_decode_address_from_scriptpubkey (env_sha E) (snd out) MAX_ADDRESS_STRING_LEN (env_hrp E) (env_testnet E)
      in \<lparr>out_value_satoshis = fst out, out_address = a, is_user_output = (fst out > 0 \<and> is_user_address (env_user_address E) a)\<rparr>)"

definition user_part :: "decode_env \<Rightarrow> u64 \<times> bytes \<Rightarrow> u64" where
  "user_part E out = (if env_decode_tx E \<and> is_user_output (shown_output E out) then fst out else 0)"

lemma record_output_simps [simp]:
  "total_value_satoshis (record_output E i v s r) = total_value_satoshis r"
  "user_value_satoshis (record_output E i v s r) = user_value_satoshis r + user_part E (v, s)"
  "res_block_height (record_output E i v s r) = res_block_height r"
  "scriptsig (record_output E i v s r) = scriptsig r"
  "\<not> env_decode_tx E \<Longrightarrow> output_count (record_output E i v s r) = output_count r"
  "env_decode_tx E \<Longrightarrow> output_count (record_output E i v s r) = (if unat i < 6 then output_count r + 1 else output_count r)"
  "env_decode_tx E \<Longrightarrow> res_outputs (record_output E i v s r) =
     (if unat i < 6 then (res_outputs r)[unat i := shown_output E (v, s)] else res_outputs r)"
  by (simp_all add: record_output_def user_part_def shown_output_def MAX_COINBASE_TX_OUTPUTS_def word_less_nat_alt Let_def)

lemma add_outputs_simps:
  "total_value_satoshis (add_outputs E i outs r) = total_value_satoshis r + sum_list (map fst outs)"
  "user_value_satoshis (add_outputs E i outs r) = user_value_satoshis r + sum_list (map (user_part E) outs)"
  "res_block_height (add_outputs E i outs r) = res_block_height r"
  "scriptsig (add_outputs E i outs r) = scriptsig r"
  "\<not> env_decode_tx E \<Longrightarrow> output_count (add_outputs E i outs r) = output_count r"
  by (induction outs arbitrary: i r) (simp_all add: add.assoc)

lemma add_outputs_shown:
  assumes "env_decode_tx E" "length (res_outputs r) = 6" "output_count r = min 6 (unat i)" "unat i + length outs < 2 ^ 64"
  shows "take (output_count (add_outputs E i outs r)) (res_outputs (add_outputs E i outs r)) =
    take 6 (take (output_count r) (res_outputs r) @ map (shown_output E) outs)"
  using assms
proof (induction outs arbitrary: i r)
  case (Cons out outs)
  let ?r = "record_output E i (fst out) (snd out) (r\<lparr>total_value_satoshis := total_value_satoshis r + fst out\<rparr>)"
  have i: "unat (i + 1) = unat i + 1" using Cons.prems(4) by (simp add: unat_word_ariths)
  have "length (res_outputs ?r) = 6" "output_count ?r = min 6 (unat (i + 1))" using Cons.prems i by simp_all
  then have "take (output_count (add_outputs E (i + 1) outs ?r)) (res_outputs (add_outputs E (i + 1) outs ?r)) =
    take 6 (take (output_count ?r) (res_outputs ?r) @ map (shown_output E) outs)" using Cons.prems i by (intro Cons.IH) simp_all
  also have "\<dots> = take 6 (take (output_count r) (res_outputs r) @ map (shown_output E) (out # outs))"
  proof (cases "unat i < 6")
    case True
    then have "take (unat i + 1) ((res_outputs r)[unat i := shown_output E out]) = take (unat i) (res_outputs r) @ [shown_output E out]"
      using Cons.prems(2) by (simp add: take_Suc_conv_app_nth)
    then show ?thesis using True Cons.prems by simp
  next
    case False
    then show ?thesis using Cons.prems by simp
  qed
  finally show ?case by simp
qed (simp add: min_def)

text \<open>The halves of a transaction: \<open>start\<close> stands for its first forty-one bytes.\<close>

definition first_half :: "bytes \<Rightarrow> nat \<Rightarrow> bytes \<Rightarrow> bytes \<Rightarrow> bytes" where
  "first_half start script_len height tag1 = hex_text (start @ [of_nat script_len, of_nat (length height)] @ height @ tag1)"

definition second_half :: "bytes \<Rightarrow> u32 \<Rightarrow> (u64 \<times> bytes) list \<Rightarrow> u32 \<Rightarrow> bytes" where
  "second_half tag2 seq outs lock =
     tag2 @ le_bytes 4 seq @ varint_bytes (length outs) @ concat (map output_bytes outs) @ le_bytes 4 lock"

lemma drop_hex_text: "drop (2 * n) (hex_text bs) = hex_text (drop n bs)"
proof (induction bs arbitrary: n)
  case (Cons b bs)
  then show ?case by (cases n) (simp_all add: hex_text_def hex_of_byte_def)
qed (simp add: hex_text_def)

lemma coinbase_outputs_read:
  assumes "length (second_half tag2 seq outs lock) < 2 ^ 63" "\<forall>n. malloc_ok n"
  shows "\<exists>r'. coinbase_outputs E malloc_ok (hex_text (second_half tag2 seq outs lock)) (length tag2) r = Returned ESP_OK r' \<and>
    r' = (add_outputs E 0 outs (r\<lparr>output_count := 0\<rparr>))\<lparr>bip54_signaling := (env_decode_tx E \<and> lock = res_block_height r - 1 \<and> seq \<noteq> 0xffffffff)\<rparr>"
proof -
  let ?bin = "second_half tag2 seq outs lock"
  have many: "length outs \<le> length (concat (map output_bytes outs))"
    by (induction outs) (auto simp: output_bytes_def Suc_le_eq)
  then have n: "length outs < 2 ^ 64" "unat (of_nat (length outs) :: u64) = length outs"
    using assms(1) by (simp_all add: second_half_def unsigned_of_nat take_bit_nat_eq_self)
  have "coinbase_decode_varint ?bin (length ?bin) (length (tag2 @ le_bytes 4 seq)) =
      Some (of_nat (length outs), length (tag2 @ le_bytes 4 seq) + length (varint_bytes (length outs)))"
    by (rule varint_round_trip [OF n(1)]) (simp add: second_half_def)
  then have count: "coinbase_decode_varint ?bin (length ?bin) (length tag2 + 4) =
      Some (of_nat (length outs), length tag2 + 4 + length (varint_bytes (length outs)))" by simp
  have "output_loop E ?bin (length ?bin) (of_nat (length outs)) 0 (length (tag2 @ le_bytes 4 seq @ varint_bytes (length outs))) (r\<lparr>output_count := 0\<rparr>) =
      Some (length (tag2 @ le_bytes 4 seq @ varint_bytes (length outs)) + length (concat (map output_bytes outs)), add_outputs E 0 outs (r\<lparr>output_count := 0\<rparr>))"
    by (rule output_loop_reads [where post = "le_bytes 4 lock"]) (use assms(1) n in \<open>simp_all add: second_half_def\<close>)
  then have loop: "output_loop E ?bin (length ?bin) (of_nat (length outs)) 0 (length tag2 + 4 + length (varint_bytes (length outs))) (r\<lparr>output_count := 0\<rparr>) =
      Some (length tag2 + 4 + length (varint_bytes (length outs)) + length (concat (map output_bytes outs)), add_outputs E 0 outs (r\<lparr>output_count := 0\<rparr>))"
    by (simp add: add.assoc)
  have sl: "slice (length tag2) 4 ?bin = le_bytes 4 seq"
    "slice (length tag2 + 4 + length (varint_bytes (length outs)) + length (concat (map output_bytes outs))) 4 ?bin = le_bytes 4 lock"
    by (simp_all add: second_half_def slice_def)
  have len: "length ?bin = length tag2 + 4 + length (varint_bytes (length outs)) + length (concat (map output_bytes outs)) + 4"
    by (simp add: second_half_def)
  have half: "2 * length ?bin div 2 = length ?bin" by simp
  have pos: "0 < length (varint_bytes (length outs))" by simp
  have word: "le_word (le_bytes 4 seq) = seq" "le_word (le_bytes 4 lock) = lock" by (simp_all add: le_word_le_bytes)
  show ?thesis
    unfolding coinbase_outputs_def Let_def length_hex_text half hex2bin_hex_text take_all_iff [THEN iffD2, OF order_refl]
    using assms(2) count loop sl len pos word by (simp add: read_bytes_def add_outputs_simps(3))
qed

text \<open>
  C17. A coinbase transaction cut around its extranonces is read as it was written: the height, the tag of the miner on
  both sides of the cut, the sum of all outputs, what of it goes to the user, the first six outputs with their
  addresses, and whether the lock time names the height before.
\<close>

theorem coinbase_read_back:
  assumes "length start = 41" "1 \<le> length height" "length height \<le> 4" "0 < length e1 + e2"
    and "script_len = 1 + length height + length tag1 + length e1 + e2 + length tag2" "script_len \<le> 255"
    and "length (second_half tag2 seq outs lock) < 2 ^ 63" "\<forall>n. malloc_ok n" "length (res_outputs r) = 6"
    and "notify_coinbase_1 n = first_half start script_len height tag1" "notify_coinbase_2 n = hex_text (second_half tag2 seq outs lock)"
    and "E = \<lparr>env_sha = L, env_user_address = user, env_decode_tx = decode_tx, env_hrp = fst (network_of user), env_testnet = snd (network_of user)\<rparr>"
  shows "\<exists>r'. coinbase_process_notification L malloc_ok n (Some (hex_text e1)) (int e2) user decode_tx r = Returned ESP_OK r' \<and>
    res_block_height r' = le_word height \<and>
    scriptsig r' = (if tag1 @ tag2 = [] then scriptsig r else Some (map printable (tag1 @ tag2))) \<and>
    total_value_satoshis r' = sum_list (map fst outs) \<and> user_value_satoshis r' = sum_list (map (user_part E) outs) \<and>
    take (output_count r') (res_outputs r') = (if decode_tx then map (shown_output E) (take 6 outs) else []) \<and>
    (bip54_signaling r' \<longleftrightarrow> decode_tx \<and> lock = le_word height - 1 \<and> seq \<noteq> 0xffffffff)"
proof -
  let ?c1 = "first_half start script_len height tag1" and ?c2 = "hex_text (second_half tag2 seq outs lock)"
  let ?d = "start @ [of_nat script_len, of_nat (length height)] @ height @ tag1"
  have small: "unat (of_nat script_len :: u8) = script_len" "unat (of_nat (length height) :: u8) = length height"
    using assms(3,6) by (simp_all add: unsigned_of_nat take_bit_nat_eq_self)
  have len: "length ?c1 div 2 = 43 + length height + length tag1" using assms(1) by (simp add: first_half_def)
  have drops: "drop (41 + 1) ?d = of_nat (length height) # height @ tag1" "drop (41 + 2) ?d = height @ tag1"
    using assms(1) by simp_all
  have reads: "hd (hex2bin (drop 82 ?c1) 1) = of_nat script_len" "hd (hex2bin (drop 84 ?c1) 1) = of_nat (length height)"
    "hex2bin (drop 86 ?c1) (length height) = height"
    using drop_hex_text [of 41 ?d] drop_hex_text [of 42 ?d] drop_hex_text [of 43 ?d] drops assms(1) by (simp_all add: first_half_def)
  have low: "\<not> ((of_nat (length height) :: u8) = 0 \<or> (of_nat (length height) :: u8) > 4)"
    unfolding hex_byte_range small using assms(2,3) by simp
  have tag: "miner_tag malloc_ok ?c1 ?c2 (43 + length height) (int (length tag1 + length tag2)) before =
    Some (if tag1 @ tag2 = [] then before else Some (map printable (tag1 @ tag2)))" for before
  proof (cases "tag1 @ tag2 = []")
    case False
    have "hex2bin (drop ((43 + length height) * 2) ?c1) k = take k tag1" for k
      using drop_hex_text [of "43 + length height" ?d] assms(1) by (simp add: first_half_def mult.commute [of _ 2])
    moreover have "take (length tag2) (second_half tag2 seq outs lock) = tag2" by (simp add: second_half_def)
    moreover have "\<not> (43 + length height) * 2 > length ?c1" using assms(1) by (simp add: first_half_def)
    moreover have "int (length tag1 + length tag2) > 0" using False by (cases tag1; cases tag2) simp_all
    moreover have "length (second_half tag2 seq outs lock) \<ge> length tag2" by (simp add: second_half_def)
    ultimately show ?thesis unfolding miner_tag_def Let_def len using assms(8) False by auto
  qed (simp add: miner_tag_def)
  define r1 where "r1 = r\<lparr>total_value_satoshis := 0, user_value_satoshis := 0, res_decode_coinbase_tx := decode_tx,
    network_difficulty := networkDifficulty (notify_target n), res_block_height := le_word height,
    bip110_signaling := (decode_tx \<and> le_word height < (965664 :: u32) \<and> bit (notify_version n) 4)\<rparr>"
  let ?tag = "if tag1 @ tag2 = [] then scriptsig r else Some (map printable (tag1 @ tag2))"
  have rest: "int script_len - 1 - int (length height) = int (length tag1 + length e1 + e2 + length tag2)" using assms(5) by simp
  let ?rest = "int (length tag1 + length e1 + e2 + length tag2)" and ?ex = "int (length (hex_text e1) div 2) + int e2"
  have gone: "int (43 + length height + length tag1) - int (43 + length height) = int (length tag1)" by simp
  have short: "\<not> 43 + length height + length tag1 < 42" "\<not> 43 + length height + length tag1 < 43" by simp_all
  have "0 < int (length e1) + int e2" using assms(4) by linarith
  then have more: "int (length tag1) < ?rest" by simp
  have cut: "?rest - ?ex = int (length tag1 + length tag2)"
    "(if ?rest - int (length tag1) > 0 \<and> ?rest - int (length tag1) - ?ex > 0 then nat (?rest - int (length tag1) - ?ex) else 0) = length tag2"
    using more by simp_all
  have "coinbase_process_notification L malloc_ok n (Some (hex_text e1)) (int e2) user decode_tx r =
    coinbase_outputs E malloc_ok ?c2 (length tag2) (r1\<lparr>scriptsig := ?tag\<rparr>)"
    unfolding coinbase_process_notification_def option.case Let_def assms(10,11,12) len reads small rest gone if_not_P [OF short(1)] if_not_P [OF short(2)]
      if_not_P [OF low] mining_notification_result.simps tag cut r1_def if_P [OF more] by simp
  with coinbase_outputs_read [OF assms(7,8), of E "r1\<lparr>scriptsig := ?tag\<rparr>"] obtain r' where
    run: "coinbase_process_notification L malloc_ok n (Some (hex_text e1)) (int e2) user decode_tx r = Returned ESP_OK r'"
    "r' = (add_outputs E 0 outs (r1\<lparr>scriptsig := ?tag, output_count := 0\<rparr>))\<lparr>bip54_signaling := (decode_tx \<and> lock = le_word height - 1 \<and> seq \<noteq> 0xffffffff)\<rparr>"
    using assms(12) by (auto simp: r1_def)
  have "length outs \<le> length (concat (map output_bytes outs))" by (induction outs) (auto simp: output_bytes_def Suc_le_eq)
  then have "length outs < 2 ^ 64" using assms(7) by (simp add: second_half_def)
  then have "take (output_count r') (res_outputs r') = (if decode_tx then map (shown_output E) (take 6 outs) else [])"
    using add_outputs_shown [of E "r1\<lparr>scriptsig := ?tag, output_count := 0\<rparr>" 0 outs] assms(9,12)
    by (simp add: run(2) add_outputs_simps r1_def take_map)
  then show ?thesis using run by (simp add: add_outputs_simps r1_def)
qed

text \<open>Two outputs, one empty, and the tag \<open>/ab/\<close> cut in the middle.\<close>

theorem coinbase_read_back_witness:
  "\<exists>r'. coinbase_process_notification first_bytes (\<lambda>n. True)
      (example_notify\<lparr>notify_coinbase_1 := first_half (replicate 41 0) 16 [5, 1, 0] [47, 97],
                      notify_coinbase_2 := hex_text (second_half [98, 47] 0 [(5000, [106]), (0, [106, 1])] 260)\<rparr>)
      (Some (hex_text [1, 2, 3, 4])) 4 None True
      \<lparr>network_difficulty = Finite 0, res_block_height = 0, scriptsig = None,
       res_outputs = replicate 6 \<lparr>out_value_satoshis = 0, out_address = [], is_user_output = False\<rparr>, output_count = 0,
       total_value_satoshis = 0, user_value_satoshis = 0, res_decode_coinbase_tx = True, bip54_signaling = False, bip110_signaling = False\<rparr> =
      Returned ESP_OK r' \<and> scriptsig r' = Some (ascii ''/ab/'') \<and> total_value_satoshis r' = 5000 \<and> bip54_signaling r'"
proof -
  let ?outs = "[(5000, [106]), (0, [106, 1])] :: (u64 \<times> bytes) list"
  have len: "length (second_half [98, 47] 0 ?outs 260) < 2 ^ 63" by (simp add: second_half_def output_bytes_def varint_bytes_def)
  have word: "le_word [5, 1, 0] = (261 :: u32)" "map printable [47, 97, 98, 47] = ascii ''/ab/''" by code_simp+
  let ?n = "example_notify\<lparr>notify_coinbase_1 := first_half (replicate 41 0) 16 [5, 1, 0] [47, 97],
    notify_coinbase_2 := hex_text (second_half [98, 47] 0 ?outs 260)\<rparr>"
  let ?r = "\<lparr>network_difficulty = Finite 0, res_block_height = 0, scriptsig = None,
    res_outputs = replicate 6 \<lparr>out_value_satoshis = 0, out_address = [], is_user_output = False\<rparr>, output_count = 0,
    total_value_satoshis = 0, user_value_satoshis = 0, res_decode_coinbase_tx = True, bip54_signaling = False, bip110_signaling = False\<rparr>"
  have "notify_coinbase_1 ?n = first_half (replicate 41 0) 16 [5, 1, 0] [47, 97]" "notify_coinbase_2 ?n = hex_text (second_half [98, 47] 0 ?outs 260)"
    by simp_all
  from coinbase_read_back [OF _ _ _ _ _ _ len _ _ this refl, of "[1, 2, 3, 4]" 4 "\<lambda>n. True" ?r first_bytes None True] obtain r' where
    "coinbase_process_notification first_bytes (\<lambda>n. True) ?n (Some (hex_text [1, 2, 3, 4])) (int 4) None True ?r = Returned ESP_OK r'"
    "scriptsig r' = Some (map printable [47, 97, 98, 47])" "total_value_satoshis r' = 5000" "bip54_signaling r'"
    by (auto simp: word)
  then show ?thesis unfolding word by (intro exI [of _ r']) simp
qed

end
