(* ===== verification/V1_Task.thy ===== *)
theory V1_Task
  imports Sv2_Client Stratum_Api Coinbase_Decoder
begin

text \<open>
  \<open>main/tasks/stratum_v1_task.c\<close>: the Stratum V1 client. A line the pool sends is parsed, then acted upon; the
  connection loop makes the requests of the set-up and gives up after three attempts. The queue and the functions of
  \<open>main/system.c\<close> are those of the Stratum V2 client. The transport, DNS and the clock are the environment: what
  arrives on a connection is a list of rds.
\<close>

section \<open>State\<close>

text \<open>
  What is shown of the newest job. The texts of the network difficulty and of the best difficulties are not part of
  the model.
\<close>

record v1_display =
  disp_block_height :: u32
  disp_signals :: "bytes list"
  disp_scriptsig :: bytes
  disp_outputs :: "coinbase_output list"
  disp_output_count :: nat
  disp_total :: u64
  disp_user :: u64

datatype v1_notice = V1_Success | V1_Failure | V1_Exited

text \<open>
  \<open>v1_state\<close> is the part of the global state that both clients work on. The line buffer, the time stamps of the
  requests and the message are static variables: they outlive a connection.
\<close>

record v1_task =
  v1_state :: sv2_state
  v1_transport :: bool
  v1_buffer :: rpc_buffer
  v1_timings :: timings
  v1_message :: StratumApiV1Message
  send_uid :: int
  extranonce_str :: "bytes option"
  extranonce_2_len :: int
  v1_version_mask :: u32
  new_stratum_version_rolling_msg :: bool
  pool_connection_info :: string
  v1_retry_attempts :: nat
  authorize_message_id :: int
  v1_display :: v1_display
  v1_notices :: "v1_notice list"

record v1_config =
  v1_user :: bytes
  v1_pass :: bytes
  v1_difficulty :: u16
  v1_extranonce_subscribe :: bool
  v1_decode_coinbase :: bool
  v1_tls :: nat
  v1_model :: bytes
  v1_firmware :: bytes

definition V1_MAX_RETRY_ATTEMPTS :: nat where "V1_MAX_RETRY_ATTEMPTS = 3"


section \<open>Small steps\<close>

definition on_v1 :: "(sv2_state \<Rightarrow> sv2_state) \<Rightarrow> v1_task \<Rightarrow> v1_task" where
  "on_v1 f t = t\<lparr>v1_state := f (v1_state t)\<rparr>"

definition send_line :: "bytes \<Rightarrow> v1_task \<Rightarrow> v1_task" where
  "send_line l = on_v1 (\<lambda>s. s\<lparr>events := events s @ [Sent l]\<rparr>)"

definition stratum_get_next_uid :: "v1_task \<Rightarrow> int \<times> v1_task" where
  "stratum_get_next_uid t = (send_uid t, t\<lparr>send_uid := send_uid t + 1\<rparr>)"

text \<open>A request with the next identifier.\<close>

definition send_request :: "(int \<Rightarrow> bytes) \<Rightarrow> v1_task \<Rightarrow> v1_task" where
  "send_request msg t = (case stratum_get_next_uid t of (uid, t1) \<Rightarrow> send_line (msg uid) t1)"

definition stratum_v1_reset_uid :: "v1_task \<Rightarrow> v1_task" where
  "stratum_v1_reset_uid t = t\<lparr>send_uid := 1\<rparr>"

definition stratum_v1_close_connection :: "v1_task \<Rightarrow> v1_task" where
  "stratum_v1_close_connection t = on_v1 SYSTEM_clean_jobs_queue (t\<lparr>v1_transport := False\<rparr>)"

definition coordinator_notify :: "v1_notice \<Rightarrow> v1_task \<Rightarrow> v1_task" where
  "coordinator_notify n t = t\<lparr>v1_notices := v1_notices t @ [n]\<rparr>"

section \<open>The display of a job\<close>

definition empty_output :: coinbase_output where
  "empty_output = \<lparr>out_value_satoshis = 0, out_address = [], is_user_output = False\<rparr>"

definition zero_result :: mining_notification_result where
  "zero_result = \<lparr>network_difficulty = Finite 0, res_block_height = 0, scriptsig = None,
     res_outputs = replicate MAX_COINBASE_TX_OUTPUTS empty_output, output_count = 0, total_value_satoshis = 0, user_value_satoshis = 0,
     res_decode_coinbase_tx = False, bip54_signaling = False, bip110_signaling = False\<rparr>"

text \<open>
  The outputs shown, and what of them is the user's, change only when the decoded ones differ from them. The buffer of
  the tag has 128 bytes.
\<close>

definition show_result :: "mining_notification_result \<Rightarrow> v1_display \<Rightarrow> v1_display" where
  "show_result r d =
     (let d1 = d\<lparr>disp_block_height := res_block_height r,
                 disp_signals := (if bip54_signaling r then [ascii ''BIP-54''] else []) @ (if bip110_signaling r then [ascii ''BIP-110''] else []),
                 disp_scriptsig := (case scriptsig r of None \<Rightarrow> disp_scriptsig d
                                    | Some tag \<Rightarrow> if tag \<noteq> disp_scriptsig d then take 127 tag else disp_scriptsig d),
                 disp_total := total_value_satoshis r\<rparr>;
          n = min (output_count r) MAX_COINBASE_TX_OUTPUTS
      in if n \<noteq> disp_output_count d \<or> take n (res_outputs r) \<noteq> take n (disp_outputs d) then
           d1\<lparr>disp_output_count := n, disp_outputs := store_at 0 (take n (res_outputs r)) (disp_outputs d), disp_user := user_value_satoshis r\<rparr>
         else d1)"

text \<open>
  What ends the whole program: a null pointer that is followed, a read that leaves its buffer, or a queue operation that
  blocks the task for good. A step of the task gives one of these or the new state.
\<close>

datatype v1_crash = Null_Pointer | Read_Outside | Queue_Blocked

definition and_then :: "v1_crash + 'a \<Rightarrow> ('a \<Rightarrow> v1_crash + 'b) \<Rightarrow> v1_crash + 'b" where
  "and_then r f = (case r of Inl c \<Rightarrow> Inl c | Inr x \<Rightarrow> f x)"

definition decode_mining_notification ::
  "sha_lib \<Rightarrow> bool \<Rightarrow> (nat \<Rightarrow> bool) \<Rightarrow> v1_config \<Rightarrow> mining_notify \<Rightarrow> v1_task \<Rightarrow> v1_crash + v1_task" where
  "decode_mining_notification L result_ok malloc_ok cfg n t =
     (if \<not> result_ok then Inr t
      else case coinbase_process_notification L malloc_ok n (extranonce_str t) (extranonce_2_len t) (Some (v1_user cfg)) (v1_decode_coinbase cfg) zero_result of
             Read_Out_Of_Bounds \<Rightarrow> Inl Read_Outside
           | Returned err r \<Rightarrow>
               Inr (if err \<noteq> ESP_OK then t
                     else on_v1 (\<lambda>s. s\<lparr>network_nonce_diff := double_to_u64 (network_difficulty r)\<rparr>)
                            (t\<lparr>v1_display := show_result r (v1_display t)\<rparr>)))"

section \<open>A message\<close>

text \<open>What the environment does while a line is handled.\<close>

record v1_line_env =
  le_shutdown :: bool
  le_asic_up :: bool
  le_parse_alloc :: bool
  le_result_alloc :: bool
  le_malloc :: "nat \<Rightarrow> bool"
  le_now_us :: int

text \<open>
  The \<open>switch\<close> on the method: whether the pool asked for a reconnect, and the new state.
\<close>

definition handle_notify :: "sha_lib \<Rightarrow> v1_config \<Rightarrow> v1_line_env \<Rightarrow> v1_task \<Rightarrow> v1_crash + v1_task" where
  "handle_notify L cfg e t =
     (case mining_notification (v1_message t) of
        None \<Rightarrow> Inl Null_Pointer
      | Some n \<Rightarrow>
          (case put_work (notify_clean_jobs n) V1_Notify_Free (V1_Work n)
                  (SYSTEM_notify_new_ntime (notify_ntime n) ((v1_state t)\<lparr>work_received := work_received (v1_state t) + 1\<rparr>)) of
             None \<Rightarrow> Inl Queue_Blocked
           | Some s \<Rightarrow>
               and_then (decode_mining_notification L (le_result_alloc e) (le_malloc e) cfg n (t\<lparr>v1_state := s\<rparr>))
                 (\<lambda>t. Inr (t\<lparr>v1_message := (v1_message t)\<lparr>mining_notification := None\<rparr>\<rparr>))))"

definition handle_extranonce :: "v1_task \<Rightarrow> v1_task" where
  "handle_extranonce t =
     (let m = v1_message t
      in t\<lparr>extranonce_str := msg_extranonce_str m, extranonce_2_len := min (msg_extranonce_2_len m) MAX_EXTRANONCE_2_LEN,
           v1_message := m\<lparr>msg_extranonce_str := None, msg_extranonce_2_len := min (msg_extranonce_2_len m) MAX_EXTRANONCE_2_LEN\<rparr>\<rparr>)"

definition set_version_mask :: "v1_task \<Rightarrow> v1_task" where
  "set_version_mask t = t\<lparr>v1_version_mask := msg_version_mask (v1_message t), new_stratum_version_rolling_msg := True\<rparr>"

text \<open>The answer to a share, whose request is in flight, or to a request of the set-up.\<close>

definition handle_result :: "v1_config \<Rightarrow> v1_line_env \<Rightarrow> v1_task \<Rightarrow> v1_crash + v1_task" where
  "handle_result cfg e t =
     (let m = v1_message t
      in case STRATUM_V1_get_response_time_ms (message_id m) (le_now_us e) (v1_timings t) of
           (response_time_ms, ts) \<Rightarrow>
             let t1 = t\<lparr>v1_timings := ts\<rparr>
             in if response_time_ms \<ge> 0 then
                  (if response_success m then
                     Inr (on_v1 (\<lambda>s. s\<lparr>response_time := response_time_ms, events := events s @ [Shares_Accepted 1]\<rparr>) t1)
                   else case error_str m of
                          None \<Rightarrow> Inl Null_Pointer
                        | Some why \<Rightarrow> Inr (on_v1 (\<lambda>s. s\<lparr>events := events s @ [Share_Rejected why]\<rparr>) t1))
                else
                  let t2 = coordinator_notify V1_Success (t1\<lparr>v1_retry_attempts := 0\<rparr>)
                  in Inr (if response_success m \<and> message_id m = authorize_message_id t then
                             let t3 = (if v1_difficulty cfg > 0 then send_request (\<lambda>uid. STRATUM_V1_suggest_difficulty uid (ucast (v1_difficulty cfg))) t2 else t2)
                             in if v1_extranonce_subscribe cfg then send_request STRATUM_V1_extranonce_subscribe t3 else t3
                           else t2))"

definition handle_message :: "sha_lib \<Rightarrow> v1_config \<Rightarrow> v1_line_env \<Rightarrow> v1_task \<Rightarrow> v1_crash + bool \<times> v1_task" where
  "handle_message L cfg e t =
     (let m = v1_message t; go_on = (\<lambda>r. and_then r (\<lambda>t. Inr (False, t)))
      in case msg_method m of
           METHOD_UNKNOWN \<Rightarrow> Inr (False, t)
         | MINING_NOTIFY \<Rightarrow> go_on (handle_notify L cfg e t)
         | MINING_SET_DIFFICULTY \<Rightarrow>
             Inr (False, on_v1 (\<lambda>s. s\<lparr>pool_difficulty := new_difficulty m, new_set_mining_difficulty_msg := True\<rparr>) t)
         | MINING_SET_VERSION_MASK \<Rightarrow> Inr (False, set_version_mask t)
         | STRATUM_RESULT_CONFIGURE \<Rightarrow>
             Inr (False, if response_success m then coordinator_notify V1_Success (set_version_mask t) else t)
         | MINING_SET_EXTRANONCE \<Rightarrow> Inr (False, handle_extranonce t)
         | STRATUM_RESULT_SUBSCRIBE \<Rightarrow> Inr (False, handle_extranonce t)
         | MINING_PING \<Rightarrow> Inr (False, send_line (STRATUM_V1_pong (message_id m)) t)
         | CLIENT_RECONNECT \<Rightarrow> Inr (True, stratum_v1_close_connection t)
         | CLIENT_SHOW_MESSAGE \<Rightarrow> Inr (False, t)
         | CLIENT_GET_VERSION \<Rightarrow> Inr (False, send_line (STRATUM_V1_send_version (message_id m) (v1_firmware cfg)) t)
         | STRATUM_RESULT \<Rightarrow> go_on (handle_result cfg e t))"

text \<open>Parsing a line and acting upon it; the message is reset in the end, whether it parsed or not.\<close>

definition handle_line :: "'j cjson_lib \<Rightarrow> sha_lib \<Rightarrow> v1_config \<Rightarrow> v1_line_env \<Rightarrow> bytes \<Rightarrow> v1_task \<Rightarrow> v1_crash + bool \<times> v1_task" where
  "handle_line J L cfg e line t =
     (let reset = (\<lambda>t. t\<lparr>v1_message := STRATUM_V1_reset_message (v1_message t)\<rparr>)
      in case STRATUM_V1_parse J (le_parse_alloc e) line (v1_message t) of
           (ok, m) \<Rightarrow>
             if \<not> ok then Inr (False, reset (t\<lparr>v1_message := m\<rparr>))
             else and_then (handle_message L cfg e (t\<lparr>v1_message := m\<rparr>)) (\<lambda>(reconnect, t). Inr (reconnect, reset t)))"

section \<open>A connection\<close>

text \<open>A null buffer is allocated by the next call, which then forgets the requests in flight, too.\<close>

definition receive_line :: "transport_read list \<Rightarrow> v1_task \<Rightarrow> line_result \<times> transport_read list \<times> v1_task" where
  "receive_line rds t =
     (case STRATUM_V1_receive_jsonrpc_line rds (v1_buffer t) of
        (l, b, rs) \<Rightarrow> (l, rs, t\<lparr>v1_buffer := b, v1_timings := (if rpc_text (v1_buffer t) = None then fresh_timings else v1_timings t)\<rparr>))"

text \<open>
  The receive loop, one element of the environment per turn: it is still connected when that or the rds run out, it
  has left the connection, or the task has ended.
\<close>

datatype v1_status = Connected | Disconnected | Ended

fun v1_session ::
  "'j cjson_lib \<Rightarrow> sha_lib \<Rightarrow> v1_config \<Rightarrow> v1_line_env list \<Rightarrow> transport_read list \<Rightarrow> v1_task \<Rightarrow> v1_crash + v1_status \<times> v1_task" where
  "v1_session J L cfg [] rds t = Inr (Connected, t)"
| "v1_session J L cfg (e # es) rds t =
     (if le_shutdown e then Inr (Ended, coordinator_notify V1_Exited (stratum_v1_close_connection t))
      else case receive_line rds t of
        (Waiting, rs, t1) \<Rightarrow> Inr (Connected, t1)
      | (No_Line, rs, t1) \<Rightarrow> Inr (Disconnected, stratum_v1_close_connection (t1\<lparr>v1_retry_attempts := v1_retry_attempts t1 + 1\<rparr>))
      | (Line line, rs, t1) \<Rightarrow>
          if \<not> le_asic_up e then Inr (Disconnected, stratum_v1_close_connection (t1\<lparr>v1_retry_attempts := 0\<rparr>))
          else case handle_line J L cfg e line t1 of
                 Inl c \<Rightarrow> Inl c
               | Inr (reconnect, t2) \<Rightarrow> if reconnect then Inr (Disconnected, t2) else v1_session J L cfg es rs t2)"

section \<open>The task\<close>

record v1_round_env =
  re_shutdown :: bool
  re_asic_up :: bool
  re_wifi :: bool
  re_resolve_ok :: bool
  re_transport_ok :: bool
  re_connect_ok :: bool
  re_ipv6 :: bool
  re_reads :: "transport_read list"
  re_lines :: "v1_line_env list"

definition connection_text :: "bool \<Rightarrow> nat \<Rightarrow> string" where
  "connection_text ipv6 tls =
     (if ipv6 then ''IPv6'' else ''IPv4'') @ (if tls = 1 then '' (TLS)'' else if tls = 2 then '' (TLS Cert)'' else [])"

text \<open>The three requests of the set-up.\<close>

definition v1_greet :: "v1_config \<Rightarrow> v1_task \<Rightarrow> v1_task" where
  "v1_greet cfg t =
     (let t1 = send_request STRATUM_V1_configure_version_rolling t;
          t2 = send_request (\<lambda>uid. STRATUM_V1_subscribe uid (v1_model cfg) (v1_firmware cfg)) t1
      in case stratum_get_next_uid t2 of
           (uid, t3) \<Rightarrow> send_line (STRATUM_V1_authorize uid (v1_user cfg) (v1_pass cfg)) (t3\<lparr>authorize_message_id := uid\<rparr>))"

definition v1_connected :: "v1_config \<Rightarrow> v1_round_env \<Rightarrow> v1_task \<Rightarrow> v1_task" where
  "v1_connected cfg e t =
     v1_greet cfg (on_v1 SYSTEM_clean_jobs_queue (stratum_v1_reset_uid
       (t\<lparr>v1_transport := True, pool_connection_info := connection_text (re_ipv6 e) (v1_tls cfg)\<rparr>)))"

text \<open>
  One turn of the outer loop. When \<open>STRATUM_V1_transport_init\<close> fails, the code counts a critical failure; the counter was
  reset just before, so that the restart behind it is not reached.
\<close>

definition v1_round :: "'j cjson_lib \<Rightarrow> sha_lib \<Rightarrow> v1_config \<Rightarrow> v1_round_env \<Rightarrow> v1_task \<Rightarrow> v1_crash + v1_status \<times> v1_task" where
  "v1_round J L cfg e t =
     (if re_shutdown e then Inr (Ended, coordinator_notify V1_Exited t)
      else if \<not> re_asic_up e then Inr (Disconnected, t)
      else if \<not> re_wifi e then Inr (Disconnected, t)
      else if v1_retry_attempts t \<ge> V1_MAX_RETRY_ATTEMPTS then Inr (Ended, coordinator_notify V1_Failure (stratum_v1_close_connection t))
      else if \<not> re_resolve_ok e then Inr (Disconnected, t\<lparr>v1_retry_attempts := v1_retry_attempts t + 1\<rparr>)
      else if \<not> re_transport_ok e then Inr (Disconnected, t\<lparr>v1_transport := False, v1_retry_attempts := v1_retry_attempts t + 1\<rparr>)
      else if \<not> re_connect_ok e then Inr (Disconnected, t\<lparr>v1_transport := False, v1_retry_attempts := v1_retry_attempts t + 1\<rparr>)
      else v1_session J L cfg (re_lines e) (re_reads e) (v1_connected cfg e t))"

text \<open>The start of the task, and its turns; a task that is still connected stays there.\<close>

definition stratum_v1_start :: "v1_task \<Rightarrow> v1_task" where
  "stratum_v1_start t =
     on_v1 (\<lambda>s. s\<lparr>stratum_queue := set_free_fn (Some V1_Notify_Free) (stratum_queue s)\<rparr>)
       (t\<lparr>v1_buffer := STRATUM_V1_initialize_buffer, v1_timings := fresh_timings, v1_retry_attempts := 0\<rparr>)"

fun v1_rounds :: "'j cjson_lib \<Rightarrow> sha_lib \<Rightarrow> v1_config \<Rightarrow> v1_round_env list \<Rightarrow> v1_task \<Rightarrow> v1_crash + v1_status \<times> v1_task" where
  "v1_rounds J L cfg [] t = Inr (Disconnected, t)"
| "v1_rounds J L cfg (e # es) t =
     (case v1_round J L cfg e t of
        Inr (Disconnected, t') \<Rightarrow> v1_rounds J L cfg es t'
      | r \<Rightarrow> r)"

section \<open>The queue under a job\<close>

lemma put_more_work:
  assumes "queue_invar (stratum_queue s)"
  obtains q' old where "put_work False df w s = Some (s\<lparr>stratum_queue := q', events := events s @ map (\<lambda>(w, f). Freed w (Some df)) old\<rparr>)"
    "queue_invar q'" "free_fn q' = free_fn (stratum_queue s)"
    "old = (if length (queue_contents (stratum_queue s)) = QUEUE_SIZE then [hd (queue_contents (stratum_queue s))] else [])"
    "queue_contents q' = drop (length old) (queue_contents (stratum_queue s)) @ [(w, free_fn (stratum_queue s))]"
proof (cases "count (stratum_queue s) = QUEUE_SIZE")
  case False
  then have "length (queue_contents (stratum_queue s)) \<noteq> QUEUE_SIZE" by simp
  from queue_put [OF assms this, of w] obtain q' where q': "queue_enqueue w (stratum_queue s) = Some q'" "queue_invar q'"
    "queue_contents q' = queue_contents (stratum_queue s) @ [(w, free_fn (stratum_queue s))]" "free_fn q' = free_fn (stratum_queue s)" .
  show ?thesis by (rule that [of "[]" q']) (use q' False in \<open>simp_all add: put_work_def\<close>)
next
  case True
  then have "0 < count (stratum_queue s)" by (simp add: QUEUE_SIZE_def)
  then obtain e q1 where g: "queue_get (stratum_queue s) = Some (e, q1)"
    by (cases "pop_head (stratum_queue s)") (auto simp: queue_get_def)
  note c = get_contents [OF assms g] and i = get_invar [OF assms g]
  have "length (queue_contents q1) \<noteq> QUEUE_SIZE" using c True by (metis length_Cons length_queue_contents n_not_Suc_n)
  from queue_put [OF i this, of w] obtain q' where q': "queue_enqueue w q1 = Some q'" "queue_invar q'"
    "queue_contents q' = queue_contents q1 @ [(w, free_fn q1)]" "free_fn q' = free_fn q1" .
  have "free_fn q1 = free_fn (stratum_queue s)" using g by (auto simp: queue_get_def pop_head_def split: if_splits)
  moreover have "queue_dequeue (stratum_queue s) = Some (fst e, q1)" by (simp add: queue_dequeue_get g)
  moreover have "length (queue_contents (stratum_queue s)) = QUEUE_SIZE" using True by simp
  ultimately show ?thesis
    by (intro that [of "[e]" q']) (use q' True c in \<open>simp_all add: put_work_def split_beta\<close>)
qed

text \<open>What is left of the queue when a job comes: nothing for a clean one, else at most eleven, the newest.\<close>

definition kept :: "bool \<Rightarrow> 'a list \<Rightarrow> 'a list" where
  "kept clean xs = (if clean then [] else if length xs = QUEUE_SIZE then tl xs else xs)"

lemma put_work_queue:
  assumes "queue_invar (stratum_queue s)"
  obtains s' where "put_work clean df w s = Some s'" "queue_invar (stratum_queue s')" "free_fn (stratum_queue s') = free_fn (stratum_queue s)"
    "items s' = kept clean (items s) @ [(w, free_fn (stratum_queue s))]"
    "\<forall>e \<in> set (events s'). e \<in> set (events s) \<or> e = Measurements_Reset \<or> (\<exists>w f. (w, f) \<in> set (items s) \<and> (e = Freed w f \<or> e = Freed w (Some df)))"
    "network_nonce_diff s' = network_nonce_diff s" "work_received s' = work_received s"
proof (cases clean)
  case True
  from put_clean_work [OF assms, of df w] obtain q' m where
    p: "put_work True df w s = Some (s\<lparr>stratum_queue := q', job_marks := m, events := events s @ frees (queue_contents (stratum_queue s))\<rparr>)"
      "queue_invar q'" "queue_contents q' = [(w, free_fn (stratum_queue s))]" "free_fn q' = free_fn (stratum_queue s)" .
  show ?thesis
    by (rule that [of "s\<lparr>stratum_queue := q', job_marks := m, events := events s @ frees (queue_contents (stratum_queue s))\<rparr>"])
      (use p True in \<open>auto simp: items_def kept_def frees_def split: if_splits\<close>)
next
  case False
  from put_more_work [OF assms, of df w] obtain q' old where
    p: "put_work False df w s = Some (s\<lparr>stratum_queue := q', events := events s @ map (\<lambda>(w, f). Freed w (Some df)) old\<rparr>)"
      "queue_invar q'" "free_fn q' = free_fn (stratum_queue s)"
      "old = (if length (queue_contents (stratum_queue s)) = QUEUE_SIZE then [hd (queue_contents (stratum_queue s))] else [])"
      "queue_contents q' = drop (length old) (queue_contents (stratum_queue s)) @ [(w, free_fn (stratum_queue s))]" .
  have "set old \<subseteq> set (queue_contents (stratum_queue s))"
    unfolding p(4) by (cases "queue_contents (stratum_queue s)") (auto simp: QUEUE_SIZE_def)
  then show ?thesis
    by (intro that [of "s\<lparr>stratum_queue := q', events := events s @ map (\<lambda>(w, f). Freed w (Some df)) old\<rparr>"])
      (use p False in \<open>auto simp: items_def kept_def drop_Suc\<close>)
qed

section \<open>The task keeps its queue in order\<close>

text \<open>
  The queue is left at its front only, and what leaves it is freed: the jobs freed, in the order of their frees, and then
  those in the queue are the jobs the task queued, in that order. \<open>jobs_followed n h s\<close> says so of the time since \<open>h\<close> was
  this list and \<open>n\<close> the counter \<open>work_received\<close>.
\<close>

definition job_history :: "sv2_state \<Rightarrow> (work \<times> free_function option) list" where
  "job_history s = freed_of (events s) @ items s"

definition jobs_followed :: "u64 \<Rightarrow> (work \<times> free_function option) list \<Rightarrow> sv2_state \<Rightarrow> bool" where
  "jobs_followed n h s \<longleftrightarrow> (\<exists>queued. job_history s = h @ queued \<and> work_received s = n + of_nat (length queued))"

lemma followed_same:
  "jobs_followed n h s \<Longrightarrow> job_history s' = job_history s \<Longrightarrow> work_received s' = work_received s \<Longrightarrow> jobs_followed n h s'"
  by (simp add: jobs_followed_def)

lemma followed_more:
  assumes "jobs_followed n h s" "job_history s' = job_history s @ [x]" "work_received s' = work_received s + 1"
  shows "jobs_followed n h s'"
proof -
  obtain queued where "job_history s = h @ queued" "work_received s = n + of_nat (length queued)"
    using assms(1) unfolding jobs_followed_def by blast
  then show ?thesis using assms(2,3) unfolding jobs_followed_def by (intro exI [of _ "queued @ [x]"]) simp
qed

lemma put_work_history:
  assumes "queue_invar (stratum_queue s)" "\<forall>(w, f) \<in> set (items s). f = Some df" "put_work clean df w s = Some s'"
  shows "job_history s' = job_history s @ [(w, free_fn (stratum_queue s))] \<and> work_received s' = work_received s"
proof (cases clean)
  case True
  from put_clean_work [OF assms(1), of df w] obtain q' m where
    "put_work True df w s = Some (s\<lparr>stratum_queue := q', job_marks := m, events := events s @ frees (queue_contents (stratum_queue s))\<rparr>)"
    "queue_contents q' = [(w, free_fn (stratum_queue s))]" .
  then show ?thesis using assms(3) True by (auto simp: job_history_def items_def)
next
  case False
  obtain q' old where q': "put_work False df w s = Some (s\<lparr>stratum_queue := q', events := events s @ map (\<lambda>(w, f). Freed w (Some df)) old\<rparr>)"
    "old = (if length (queue_contents (stratum_queue s)) = QUEUE_SIZE then [hd (queue_contents (stratum_queue s))] else [])"
    "queue_contents q' = drop (length old) (queue_contents (stratum_queue s)) @ [(w, free_fn (stratum_queue s))]"
    using put_more_work [of s df w] assms(1) by metis
  have old: "old @ drop (length old) (items s) = items s"
  proof (cases "queue_contents (stratum_queue s)")
    case Nil
    then have "length (queue_contents (stratum_queue s)) \<noteq> QUEUE_SIZE" unfolding QUEUE_SIZE_def by (simp only: list.size)
    then show ?thesis using q'(2) by (simp only: if_False items_def list.size drop_0 append_Nil)
  qed (auto simp: q'(2) items_def)
  then have "set old \<subseteq> set (items s)" by (metis set_append Un_upper1)
  then have "\<forall>x \<in> set old. snd x = Some df" using assms(2) by fastforce
  then have "map (\<lambda>(w, f). Freed w (Some df)) old = map (\<lambda>(w, f). Freed w f) old" by (intro map_cong) (auto simp: case_prod_beta)
  from q'(1) [unfolded this] have "s' = s\<lparr>stratum_queue := q', events := events s @ map (\<lambda>(w, f). Freed w f) old\<rparr>"
    using assms(3) False by simp
  then show ?thesis using old q'(3) by (simp add: job_history_def items_def)
qed

definition v1_typed :: "u64 \<Rightarrow> (work \<times> free_function option) list \<Rightarrow> v1_task \<Rightarrow> bool" where
  "v1_typed n0 hist t \<longleftrightarrow> jobs_followed n0 hist (v1_state t) \<and> queue_invar (stratum_queue (v1_state t)) \<and> free_fn (stratum_queue (v1_state t)) = Some V1_Notify_Free \<and>
     (\<forall>(w, f) \<in> set (items (v1_state t)). (\<exists>n. w = V1_Work n) \<and> f = Some V1_Notify_Free) \<and>
     (\<forall>e \<in> set (events (v1_state t)). event_proper e)"

named_theorems v1_typing

lemma v1_typed_same [v1_typing]:
  "v1_typed n0 hist t \<Longrightarrow> stratum_queue (v1_state t') = stratum_queue (v1_state t) \<Longrightarrow> events (v1_state t') = events (v1_state t) \<Longrightarrow>
   work_received (v1_state t') = work_received (v1_state t) \<Longrightarrow> v1_typed n0 hist t'"
  by (auto simp: v1_typed_def items_def job_history_def intro: followed_same)

lemma v1_typed_updates [simp]:
  "v1_typed n0 hist (t\<lparr>v1_message := m\<rparr>) = v1_typed n0 hist t" "v1_typed n0 hist (t\<lparr>v1_timings := ts\<rparr>) = v1_typed n0 hist t"
  "v1_typed n0 hist (t\<lparr>v1_retry_attempts := k\<rparr>) = v1_typed n0 hist t" "v1_typed n0 hist (t\<lparr>v1_transport := up\<rparr>) = v1_typed n0 hist t"
  "v1_typed n0 hist (t\<lparr>v1_display := d\<rparr>) = v1_typed n0 hist t" "v1_typed n0 hist (t\<lparr>v1_buffer := b\<rparr>) = v1_typed n0 hist t"
  by (simp_all add: v1_typed_def)

lemma v1_typed_event:
  "v1_typed n0 hist t \<Longrightarrow> stratum_queue (v1_state t') = stratum_queue (v1_state t) \<Longrightarrow> events (v1_state t') = events (v1_state t) @ [e] \<Longrightarrow>
   event_proper e \<Longrightarrow> freed_of [e] = [] \<Longrightarrow> work_received (v1_state t') = work_received (v1_state t) \<Longrightarrow> v1_typed n0 hist t'"
  by (auto simp: v1_typed_def items_def job_history_def intro: followed_same)

lemma v1_typed_clean [v1_typing]: "v1_typed n0 hist t \<Longrightarrow> v1_typed n0 hist (on_v1 SYSTEM_clean_jobs_queue t)"
proof -
  assume typed: "v1_typed n0 hist t"
  then have q: "queue_invar (stratum_queue (v1_state t))" by (simp add: v1_typed_def)
  from queue_cleared [OF q] obtain q' where q': "queue_clear (stratum_queue (v1_state t)) = (queue_contents (stratum_queue (v1_state t)), q')"
    "queue_invar q'" "queue_contents q' = []" "free_fn q' = free_fn (stratum_queue (v1_state t))" .
  have "\<forall>e \<in> set (events (v1_state t) @ map (\<lambda>(w, f). Freed w f) (queue_contents (stratum_queue (v1_state t))) @ [Measurements_Reset]). event_proper e"
    using typed by (fastforce simp: v1_typed_def items_def event_proper_def)
  moreover have "jobs_followed n0 hist (SYSTEM_clean_jobs_queue (v1_state t))"
    using typed q' by (auto simp: v1_typed_def job_history_def SYSTEM_clean_jobs_queue_def items_def intro: followed_same)
  ultimately show ?thesis using typed q' by (simp only: on_v1_def SYSTEM_clean_jobs_queue_def v1_typed_def items_def prod.case) simp
qed

lemma v1_typed_send [v1_typing]: "v1_typed n0 hist t \<Longrightarrow> v1_typed n0 hist (send_line l t)"
  by (rule v1_typed_event [where t = t and e = "Sent l"]) (simp_all add: send_line_def on_v1_def event_proper_def)

lemma v1_typed_request [v1_typing]: "v1_typed n0 hist t \<Longrightarrow> v1_typed n0 hist (send_request msg t)"
  unfolding send_request_def stratum_get_next_uid_def by (auto intro!: v1_typed_send intro: v1_typed_same)

lemma v1_typed_close [v1_typing]: "v1_typed n0 hist t \<Longrightarrow> v1_typed n0 hist (stratum_v1_close_connection t)"
  unfolding stratum_v1_close_connection_def by (intro v1_typed_clean) (auto intro: v1_typed_same)

lemma v1_typed_notify [v1_typing]: "v1_typed n0 hist (coordinator_notify n t) = v1_typed n0 hist t"
  by (simp add: coordinator_notify_def v1_typed_def)

text \<open>How a step may end: in a state that is in order, or with the reasons the environment gives for a crash.\<close>

definition v1_sound :: "u64 \<Rightarrow> (work \<times> free_function option) list \<Rightarrow> bool \<Rightarrow> ('a \<Rightarrow> v1_task) \<Rightarrow> v1_crash + 'a \<Rightarrow> bool" where
  "v1_sound n0 hist short_of_memory f r =
     (case r of Inr x \<Rightarrow> v1_typed n0 hist (f x) | Inl Null_Pointer \<Rightarrow> short_of_memory | Inl Read_Outside \<Rightarrow> True | Inl Queue_Blocked \<Rightarrow> False)"

lemma v1_sound_simps [simp]:
  "v1_sound n0 hist b f (Inr x) = v1_typed n0 hist (f x)" "v1_sound n0 hist b f (Inl Null_Pointer) = b" "v1_sound n0 hist b f (Inl Read_Outside)" "\<not> v1_sound n0 hist b f (Inl Queue_Blocked)"
  by (simp_all add: v1_sound_def)

lemma v1_sound_then: "v1_sound n0 hist b f r \<Longrightarrow> (\<And>x. r = Inr x \<Longrightarrow> v1_typed n0 hist (f x) \<Longrightarrow> v1_sound n0 hist b g (h x)) \<Longrightarrow> v1_sound n0 hist b g (and_then r h)"
  by (auto simp: v1_sound_def and_then_def split: sum.splits v1_crash.splits)

lemma decode_sound: "v1_typed n0 hist t \<Longrightarrow> v1_sound n0 hist b (\<lambda>t. t) (decode_mining_notification L ok malloc_ok cfg n t)"
  by (auto simp: decode_mining_notification_def on_v1_def intro: v1_typed_same split: decode_outcome.split)

lemma notify_sound:
  assumes "v1_typed n0 hist t" "mining_notification (v1_message t) \<noteq> None"
  shows "v1_sound n0 hist b (\<lambda>t. t) (handle_notify L cfg e t)"
proof -
  obtain n where n: "mining_notification (v1_message t) = Some n" using assms(2) by auto
  let ?s = "SYSTEM_notify_new_ntime (notify_ntime n) ((v1_state t)\<lparr>work_received := work_received (v1_state t) + 1\<rparr>)"
  have same: "stratum_queue ?s = stratum_queue (v1_state t)" "\<forall>e \<in> set (events ?s). e \<in> set (events (v1_state t)) \<or> e = Clock_Set (notify_ntime n)"
    by (auto simp: SYSTEM_notify_new_ntime_def)
  have q: "queue_invar (stratum_queue ?s)" using assms(1) same by (simp add: v1_typed_def)
  from put_work_queue [OF q, of "notify_clean_jobs n" V1_Notify_Free "V1_Work n"] obtain s' where
    s': "put_work (notify_clean_jobs n) V1_Notify_Free (V1_Work n) ?s = Some s'" "queue_invar (stratum_queue s')"
      "free_fn (stratum_queue s') = free_fn (stratum_queue ?s)" "items s' = kept (notify_clean_jobs n) (items ?s) @ [(V1_Work n, free_fn (stratum_queue ?s))]"
      "\<forall>e \<in> set (events s'). e \<in> set (events ?s) \<or> e = Measurements_Reset \<or>
        (\<exists>w f. (w, f) \<in> set (items ?s) \<and> (e = Freed w f \<or> e = Freed w (Some V1_Notify_Free)))" .
  have "set (kept c xs) \<subseteq> set xs" for c and xs :: "(work \<times> free_function option) list"
    using set_drop_subset [of 1 xs] by (auto simp: kept_def drop_Suc)
  moreover have old: "\<forall>(w, f) \<in> set (items ?s). (\<exists>n. w = V1_Work n) \<and> f = Some V1_Notify_Free" "\<forall>e \<in> set (events ?s). event_proper e"
    using assms(1) same by (auto simp: v1_typed_def items_def event_proper_def)
  ultimately have "\<forall>(w, f) \<in> set (items s'). (\<exists>n. w = V1_Work n) \<and> f = Some V1_Notify_Free" "free_fn (stratum_queue s') = Some V1_Notify_Free"
    using s'(3,4) assms(1) same by (auto simp: v1_typed_def) blast+
  moreover have "\<forall>e \<in> set (events s'). event_proper e" using s'(5) old by (fastforce simp: event_proper_def)
  moreover have "jobs_followed n0 hist s'"
  proof (rule followed_more)
    show "jobs_followed n0 hist (v1_state t)" using assms(1) by (simp add: v1_typed_def)
    have "\<forall>(w, f) \<in> set (items ?s). f = Some V1_Notify_Free" using old(1) by auto
    from put_work_history [OF q this s'(1)]
    show "job_history s' = job_history (v1_state t) @ [(V1_Work n, free_fn (stratum_queue ?s))]" "work_received s' = work_received (v1_state t) + 1"
      by (simp_all add: job_history_def items_def SYSTEM_notify_new_ntime_def)
  qed
  ultimately have "v1_typed n0 hist (t\<lparr>v1_state := s'\<rparr>)" using s'(2) by (simp add: v1_typed_def)
  then show ?thesis unfolding handle_notify_def n
    by (simp add: s'(1)) (rule v1_sound_then [OF decode_sound]; auto intro: v1_typed_same)
qed

lemma result_sound:
  assumes "v1_typed n0 hist t" "\<not> response_success (v1_message t) \<Longrightarrow> \<not> b \<Longrightarrow> error_str (v1_message t) \<noteq> None"
  shows "v1_sound n0 hist b (\<lambda>t. t) (handle_result cfg e t)"
proof -
  obtain ms ts where time: "STRATUM_V1_get_response_time_ms (message_id (v1_message t)) (le_now_us e) (v1_timings t) = (ms, ts)"
    by (cases "STRATUM_V1_get_response_time_ms (message_id (v1_message t)) (le_now_us e) (v1_timings t)")
  let ?t = "t\<lparr>v1_timings := ts\<rparr>"
  have typed: "v1_typed n0 hist ?t" "v1_typed n0 hist (coordinator_notify V1_Success (?t\<lparr>v1_retry_attempts := 0\<rparr>))"
    using assms(1) by (auto simp: v1_typed_notify intro: v1_typed_same)
  show ?thesis
  proof (cases "ms \<ge> 0")
    case False
    then show ?thesis using typed(2) by (auto simp: handle_result_def time Let_def intro: v1_typing)
  next
    case True
    have "v1_typed n0 hist (on_v1 (\<lambda>s. s\<lparr>response_time := ms, events := events s @ [Shares_Accepted 1]\<rparr>) ?t)"
      by (rule v1_typed_event [OF assms(1), of _ "Shares_Accepted 1"]) (simp_all add: on_v1_def event_proper_def)
    moreover have "v1_typed n0 hist (on_v1 (\<lambda>s. s\<lparr>events := events s @ [Share_Rejected why]\<rparr>) ?t)" for why
      by (rule v1_typed_event [OF assms(1), of _ "Share_Rejected why"]) (simp_all add: on_v1_def event_proper_def)
    ultimately show ?thesis using True assms(2) by (cases "error_str (v1_message t)") (auto simp: handle_result_def time Let_def)
  qed
qed

lemma message_sound:
  assumes "v1_typed n0 hist t" "message_complete a (v1_message t)" "\<not> b \<Longrightarrow> a"
  shows "v1_sound n0 hist b snd (handle_message L cfg e t)"
proof -
  have pair: "v1_sound n0 hist b snd (and_then r (\<lambda>t. Inr (False, t)))" if "v1_sound n0 hist b (\<lambda>t. t) r" for r
    by (rule v1_sound_then [OF that]) simp
  have mask: "v1_typed n0 hist (set_version_mask t)" "v1_typed n0 hist (handle_extranonce t)"
    using assms(1) by (auto simp: set_version_mask_def handle_extranonce_def Let_def intro: v1_typed_same)
  have diff: "v1_typed n0 hist (on_v1 (\<lambda>s. s\<lparr>pool_difficulty := d, new_set_mining_difficulty_msg := True\<rparr>) t)" for d
    using assms(1) by (auto simp: on_v1_def intro: v1_typed_same)
  show ?thesis
  proof (cases "msg_method (v1_message t)")
    case MINING_NOTIFY
    then have "mining_notification (v1_message t) \<noteq> None" using assms(2) by (auto simp: message_complete_def split: option.splits)
    then show ?thesis using MINING_NOTIFY assms(1) by (simp add: handle_message_def Let_def pair notify_sound)
  next
    case STRATUM_RESULT
    then have "\<not> response_success (v1_message t) \<Longrightarrow> \<not> b \<Longrightarrow> error_str (v1_message t) \<noteq> None"
      using assms(2,3) by (auto simp: message_complete_def)
    then show ?thesis using STRATUM_RESULT assms(1) by (simp add: handle_message_def Let_def pair result_sound)
  qed (use assms(1) mask diff in \<open>auto simp: handle_message_def Let_def v1_typed_notify intro: v1_typing\<close>)
qed

lemma line_sound:
  assumes "v1_typed n0 hist t" "\<not> b \<Longrightarrow> le_parse_alloc e"
  shows "v1_sound n0 hist b snd (handle_line J L cfg e line t)"
proof -
  obtain ok m where p: "STRATUM_V1_parse J (le_parse_alloc e) line (v1_message t) = (ok, m)"
    by (cases "STRATUM_V1_parse J (le_parse_alloc e) line (v1_message t)")
  have typed: "v1_typed n0 hist (t\<lparr>v1_message := m\<rparr>)" using assms(1) by (auto intro: v1_typed_same)
  show ?thesis
  proof (cases ok)
    case False
    then show ?thesis using typed by (auto simp: handle_line_def p Let_def intro: v1_typed_same)
  next
    case True
    then have "message_complete (le_parse_alloc e) (v1_message (t\<lparr>v1_message := m\<rparr>))" using parsed_complete [of J "le_parse_alloc e" line "v1_message t" m] p by simp
    from message_sound [OF typed this assms(2)] have "v1_sound n0 hist b snd (handle_message L cfg e (t\<lparr>v1_message := m\<rparr>))" by simp
    then show ?thesis using True
      by (simp add: handle_line_def p Let_def) (rule v1_sound_then; auto)
  qed
qed

lemma receive_line_typed: "v1_typed n0 hist t \<Longrightarrow> receive_line rds t = (l, rs, t') \<Longrightarrow> v1_typed n0 hist t'"
  by (auto simp: receive_line_def intro: v1_typed_same split: prod.splits)

lemma session_sound:
  "v1_typed n0 hist t \<Longrightarrow> (\<And>e. \<not> b \<Longrightarrow> e \<in> set es \<Longrightarrow> le_parse_alloc e) \<Longrightarrow> v1_sound n0 hist b snd (v1_session J L cfg es rds t)"
proof (induction es arbitrary: rds t)
  case (Cons e es)
  obtain l rs t1 where r: "receive_line rds t = (l, rs, t1)" by (cases "receive_line rds t")
  note t1 = receive_line_typed [OF Cons.prems(1) r]
  have close: "v1_typed n0 hist (stratum_v1_close_connection (t1\<lparr>v1_retry_attempts := n\<rparr>))" for n
    using t1 by (intro v1_typed_close) (auto intro: v1_typed_same)
  show ?case
  proof (cases "le_shutdown e")
    case True
    then show ?thesis using Cons.prems(1) by (simp add: v1_typed_notify v1_typed_close)
  next
    case False
    show ?thesis
    proof (cases l)
      case (Line line)
      have "v1_sound n0 hist b snd (handle_line J L cfg e line t1)" by (rule line_sound [OF t1]) (use Cons.prems(2) in auto)
      moreover have "v1_sound n0 hist b snd (v1_session J L cfg es rs t2)" if "v1_typed n0 hist t2" for t2
        using Cons.IH [OF that] Cons.prems(2) by auto
      ultimately show ?thesis using False r Line close
        by (cases "handle_line J L cfg e line t1") (auto simp: v1_sound_def split: v1_crash.splits prod.splits)
    qed (use False r close t1 in simp_all)
  qed
qed simp

lemma greet_typed: "v1_typed n0 hist t \<Longrightarrow> v1_typed n0 hist (v1_connected cfg e t)"
proof -
  assume "v1_typed n0 hist t"
  then have "v1_typed n0 hist (stratum_v1_reset_uid (t\<lparr>v1_transport := True, pool_connection_info := i\<rparr>))" for i
    by (auto simp: stratum_v1_reset_uid_def intro: v1_typed_same)
  then have "v1_typed n0 hist (on_v1 SYSTEM_clean_jobs_queue (stratum_v1_reset_uid (t\<lparr>v1_transport := True, pool_connection_info := i\<rparr>)))" for i
    by (rule v1_typed_clean)
  then have greeted: "v1_typed n0 hist (send_request b (send_request a (on_v1 SYSTEM_clean_jobs_queue (stratum_v1_reset_uid (t\<lparr>v1_transport := True, pool_connection_info := i\<rparr>)))))" for a b i
    by (intro v1_typed_request)
  show ?thesis unfolding v1_connected_def v1_greet_def Let_def stratum_get_next_uid_def prod.case
    by (rule v1_typed_send) (rule v1_typed_same [OF greeted]; simp)
qed

lemma round_sound:
  assumes "v1_typed n0 hist t" "\<And>l. \<not> b \<Longrightarrow> l \<in> set (re_lines e) \<Longrightarrow> le_parse_alloc l"
  shows "v1_sound n0 hist b snd (v1_round J L cfg e t)"
  using assms session_sound [OF greet_typed [OF assms(1)], of b "re_lines e" J L cfg "re_reads e" cfg e] v1_typed_close [OF assms(1)]
  by (auto simp: v1_round_def v1_typed_notify intro: v1_typed_same)

lemma rounds_sound:
  "v1_typed n0 hist t \<Longrightarrow> (\<And>e l. \<not> b \<Longrightarrow> e \<in> set es \<Longrightarrow> l \<in> set (re_lines e) \<Longrightarrow> le_parse_alloc l) \<Longrightarrow> v1_sound n0 hist b snd (v1_rounds J L cfg es t)"
proof (induction es arbitrary: t)
  case (Cons e es)
  have "v1_sound n0 hist b snd (v1_round J L cfg e t)" by (rule round_sound [OF Cons.prems(1)]) (use Cons.prems(2) in auto)
  moreover have "v1_sound n0 hist b snd (v1_rounds J L cfg es t')" if "v1_typed n0 hist t'" for t' using Cons.IH [OF that] Cons.prems(2) by auto
  ultimately show ?case
    by (cases "v1_round J L cfg e t") (auto simp: v1_sound_def [of n0 hist b snd "v1_round J L cfg e t"] v1_sound_simps split: v1_crash.splits prod.splits v1_status.splits)
qed simp

text \<open>A connection that is left is closed, which empties the queue.\<close>

lemma v1_close_empties: "queue_invar (stratum_queue (v1_state t)) \<Longrightarrow> items (v1_state (stratum_v1_close_connection t)) = []"
  by (rule queue_cleared [of "stratum_queue (v1_state t)"])
    (auto simp: stratum_v1_close_connection_def on_v1_def SYSTEM_clean_jobs_queue_def items_def)

lemma reconnect_empties:
  assumes "queue_invar (stratum_queue (v1_state t))" "handle_line J L cfg e line t = Inr (True, t')"
  shows "items (v1_state t') = []"
proof -
  obtain ok m where p: "STRATUM_V1_parse J (le_parse_alloc e) line (v1_message t) = (ok, m)" by fastforce
  have go: "and_then r (\<lambda>t. Inr (False, t)) = Inr (True, t1) \<longleftrightarrow> False" for r :: "v1_crash + v1_task" and t1
    by (cases r) (simp_all add: and_then_def)
  have ok using assms(2) by (cases ok) (simp_all add: handle_line_def p Let_def)
  then obtain t1 where t1: "handle_message L cfg e (t\<lparr>v1_message := m\<rparr>) = Inr (True, t1)"
    "t' = t1\<lparr>v1_message := STRATUM_V1_reset_message (v1_message t1)\<rparr>"
    using assms(2) by (auto simp: handle_line_def p and_then_def Let_def split: sum.splits)
  have "t1 = stratum_v1_close_connection (t\<lparr>v1_message := m\<rparr>)"
    using t1(1) go by (simp add: handle_message_def Let_def split: stratum_method.splits)
  then show ?thesis using assms(1) v1_close_empties [of "t\<lparr>v1_message := m\<rparr>"] t1(2) by simp
qed

lemma session_empties:
  "v1_typed n0 hist t \<Longrightarrow> v1_session J L cfg es rds t = Inr (st, t') \<Longrightarrow> st \<noteq> Connected \<Longrightarrow> items (v1_state t') = []"
proof (induction es arbitrary: rds t)
  case (Cons e es)
  obtain l rs t1 where r: "receive_line rds t = (l, rs, t1)" by (cases "receive_line rds t")
  note t1 = receive_line_typed [OF Cons.prems(1) r]
  have q: "queue_invar (stratum_queue (v1_state t))" "queue_invar (stratum_queue (v1_state t1))"
    using Cons.prems(1) t1 by (simp_all add: v1_typed_def)
  have closed: "items (v1_state (stratum_v1_close_connection (t1\<lparr>v1_retry_attempts := n\<rparr>))) = []" for n
    using q(2) by (intro v1_close_empties) simp
  show ?case
  proof (cases "le_shutdown e")
    case True
    then show ?thesis using Cons.prems(2) v1_close_empties [OF q(1)] by (auto simp: coordinator_notify_def)
  next
    case False
    show ?thesis
    proof (cases l)
      case (Line line)
      have "v1_sound n0 hist True snd (handle_line J L cfg e line t1)" by (rule line_sound [OF t1]) simp
      then show ?thesis
        using False r Line closed Cons.prems(2,3) reconnect_empties [OF q(2), of J L cfg e line] Cons.IH
        by (auto split: sum.splits prod.splits if_splits)
    qed (use False r closed Cons.prems(2,3) in auto)
  qed
qed simp

lemma round_empties:
  assumes "v1_typed n0 hist t" "items (v1_state t) = []" "v1_round J L cfg e t = Inr (st, t')" "st \<noteq> Connected"
  shows "items (v1_state t') = []"
  using assms(2-4) session_empties [OF greet_typed [OF assms(1)], of J L cfg "re_lines e" "re_reads e" cfg e st t']
    v1_close_empties [of t] assms(1)
  by (auto simp: v1_round_def coordinator_notify_def v1_typed_def split: if_splits)

lemma rounds_empty:
  "v1_typed n0 hist t \<Longrightarrow> items (v1_state t) = [] \<Longrightarrow> v1_rounds J L cfg es t = Inr (st, t') \<Longrightarrow> st \<noteq> Connected \<Longrightarrow> items (v1_state t') = []"
proof (induction es arbitrary: t)
  case (Cons e es)
  obtain r where r: "v1_round J L cfg e t = r" by simp
  show ?case
  proof (cases r)
    case (Inr x)
    obtain st1 t1 where x: "x = (st1, t1)" by fastforce
    have "v1_sound n0 hist True snd (v1_round J L cfg e t)" by (rule round_sound [OF Cons.prems(1)]) simp
    then have t1: "v1_typed n0 hist t1" using r Inr x by simp
    show ?thesis
    proof (cases st1)
      case Disconnected
      then show ?thesis
        using Cons.IH [OF t1 round_empties [OF Cons.prems(1,2), of J L cfg e]] Cons.prems(3,4) r Inr x by simp
    qed (use Cons.prems r Inr x round_empties [OF Cons.prems(1,2), of J L cfg e st1 t1] in auto)
  qed (use Cons.prems(3) r in simp)
qed simp

text \<open>
  What a run from \<open>t\<close> may end in. The jobs are followed from \<open>t\<close> on: \<open>job_history\<close> grew by the jobs that \<open>work_received\<close>
  counts, and the connection was left with an empty queue.
\<close>

definition v1_run_sound :: "bool \<Rightarrow> v1_task \<Rightarrow> v1_crash + v1_status \<times> v1_task \<Rightarrow> bool" where
  "v1_run_sound short_of_memory t r =
     (case r of
        Inl Queue_Blocked \<Rightarrow> False
      | Inl Null_Pointer \<Rightarrow> short_of_memory
      | Inl Read_Outside \<Rightarrow> True
      | Inr (st, t') \<Rightarrow>
          (\<exists>queued. job_history (v1_state t') = job_history (v1_state t) @ queued \<and>
             work_received (v1_state t') = work_received (v1_state t) + of_nat (length queued)) \<and>
          (\<forall>w f. Freed w f \<in> set (events (v1_state t')) \<longrightarrow> proper_free w f) \<and>
          (\<forall>(w, f) \<in> set (items (v1_state t')). (\<exists>n. w = V1_Work n) \<and> proper_free w f) \<and>
          (st \<noteq> Connected \<longrightarrow> items (v1_state t') = []))"

definition v1_in_order :: "v1_task \<Rightarrow> bool" where
  "v1_in_order t \<longleftrightarrow> queue_invar (stratum_queue (v1_state t)) \<and> free_fn (stratum_queue (v1_state t)) = Some V1_Notify_Free \<and>
     (\<forall>(w, f) \<in> set (items (v1_state t)). (\<exists>n. w = V1_Work n) \<and> f = Some V1_Notify_Free) \<and>
     (\<forall>w f. Freed w f \<in> set (events (v1_state t)) \<longrightarrow> proper_free w f)"

lemma in_order_typed: "v1_in_order t \<Longrightarrow> v1_typed (work_received (v1_state t)) (job_history (v1_state t)) t"
  by (auto simp: v1_in_order_def v1_typed_def jobs_followed_def event_proper_def)

lemma sound_run:
  assumes "v1_sound (work_received (v1_state t)) (job_history (v1_state t)) b snd r"
    "\<And>st t'. r = Inr (st, t') \<Longrightarrow> st \<noteq> Connected \<Longrightarrow> items (v1_state t') = []"
  shows "v1_run_sound b t r"
proof (cases r)
  case (Inl c)
  then show ?thesis using assms(1) by (cases c) (simp_all add: v1_run_sound_def)
next
  case (Inr x)
  obtain st t' where x: "x = (st, t')" by fastforce
  then have typed: "v1_typed (work_received (v1_state t)) (job_history (v1_state t)) t'" using assms(1) Inr by simp
  then have "jobs_followed (work_received (v1_state t)) (job_history (v1_state t)) (v1_state t')" by (simp add: v1_typed_def)
  moreover have "st \<noteq> Connected \<longrightarrow> items (v1_state t') = []" using assms(2) Inr x by blast
  ultimately show ?thesis using typed Inr x by (auto simp: v1_run_sound_def jobs_followed_def v1_typed_def event_proper_def)
qed

text \<open>
  C15. The task, started on an empty queue and in however many turns with whatever faults of the network and whatever lines
  of the pool, never blocks on the queue, and follows a null pointer only when memory runs out while a line is parsed. The
  one other way to crash is the read of the coinbase decoder outside its text, of which nothing is said here (see
  \<open>Coinbase_Decoder\<close>). In every other run each job is freed exactly once, and nothing but jobs: the jobs freed, in the order
  of their frees, followed by those still in the queue are all the jobs the task queued (as many as \<open>work_received\<close> counts,
  modulo \<open>2\<^sup>6\<^sup>4\<close>), in that order; every item of the queue is a Stratum V1 job, and every free used the function for those.
  When the task has ended or is between two connections, the queue is empty, so that every job it queued has been freed.
  The second part says the same of any stretch of a connection, from whatever state with V1 jobs in the queue: what
  is queued then leaves the queue in its order and is freed.
\<close>

theorem v1_task_sound:
  "(queue_invar (stratum_queue (v1_state t)) \<and> items (v1_state t) = [] \<and> events (v1_state t) = [] \<longrightarrow>
      v1_run_sound (\<exists>e \<in> set es. \<exists>l \<in> set (re_lines e). \<not> le_parse_alloc l) t (v1_rounds J L cfg es (stratum_v1_start t))) \<and>
   (v1_in_order u \<longrightarrow> v1_run_sound (\<exists>l \<in> set ls. \<not> le_parse_alloc l) u (v1_session J L cfg ls rds u))"
proof (intro conjI impI)
  assume fresh: "queue_invar (stratum_queue (v1_state t)) \<and> items (v1_state t) = [] \<and> events (v1_state t) = []"
  then have "queue_invar (set_free_fn f (stratum_queue (v1_state t)))" "queue_contents (set_free_fn f (stratum_queue (v1_state t))) = []" for f
    by (simp_all add: items_def wq.set_tag_invar wq.set_tag_contents)
  then have start: "v1_in_order (stratum_v1_start t)" "items (v1_state (stratum_v1_start t)) = []"
    "job_history (v1_state (stratum_v1_start t)) = job_history (v1_state t)" "work_received (v1_state (stratum_v1_start t)) = work_received (v1_state t)"
    using fresh by (simp_all add: v1_in_order_def job_history_def stratum_v1_start_def on_v1_def items_def set_free_fn_def)
  note typed = in_order_typed [OF start(1), unfolded start(3,4)]
  show "v1_run_sound (\<exists>e \<in> set es. \<exists>l \<in> set (re_lines e). \<not> le_parse_alloc l) t (v1_rounds J L cfg es (stratum_v1_start t))"
    by (rule sound_run [OF rounds_sound [OF typed] rounds_empty [OF typed start(2)]]) blast+
next
  assume "v1_in_order u"
  note typed = in_order_typed [OF this]
  show "v1_run_sound (\<exists>l \<in> set ls. \<not> le_parse_alloc l) u (v1_session J L cfg ls rds u)"
    by (rule sound_run [OF session_sound [OF typed] session_empties [OF typed]]) blast+
qed

section \<open>A job in the queue\<close>

lemma decode_keeps:
  "decode_mining_notification L ok malloc_ok cfg n t = Inr t' \<Longrightarrow>
     stratum_queue (v1_state t') = stratum_queue (v1_state t) \<and> events (v1_state t') = events (v1_state t) \<and>
     work_received (v1_state t') = work_received (v1_state t) \<and> v1_message t' = v1_message t \<and> v1_timings t' = v1_timings t \<and> v1_buffer t' = v1_buffer t"
  by (auto simp: decode_mining_notification_def on_v1_def split: if_splits decode_outcome.splits)

text \<open>
  A job of the pool always comes into the queue, behind the newest eleven of the others or, when it is a clean one, alone,
  and its message gives it away; the only other end is the read of the coinbase decoder outside its text.
\<close>

theorem v1_job_queued:
  assumes "queue_invar (stratum_queue (v1_state t))" "mining_notification (v1_message t) = Some n"
  shows "case handle_notify L cfg e t of
      Inl c \<Rightarrow> c = Read_Outside \<and> le_result_alloc e \<and>
        coinbase_process_notification L (le_malloc e) n (extranonce_str t) (extranonce_2_len t) (Some (v1_user cfg)) (v1_decode_coinbase cfg) zero_result = Read_Out_Of_Bounds
    | Inr t' \<Rightarrow> items (v1_state t') = kept (notify_clean_jobs n) (items (v1_state t)) @ [(V1_Work n, free_fn (stratum_queue (v1_state t)))] \<and>
        length (items (v1_state t')) \<le> QUEUE_SIZE \<and> work_received (v1_state t') = work_received (v1_state t) + 1 \<and> mining_notification (v1_message t') = None"
proof -
  let ?s = "SYSTEM_notify_new_ntime (notify_ntime n) ((v1_state t)\<lparr>work_received := work_received (v1_state t) + 1\<rparr>)"
  have same: "stratum_queue ?s = stratum_queue (v1_state t)" "work_received ?s = work_received (v1_state t) + 1"
    by (simp_all add: SYSTEM_notify_new_ntime_def)
  with assms(1) have q: "queue_invar (stratum_queue ?s)" by simp
  from put_work_queue [OF q, of "notify_clean_jobs n" V1_Notify_Free "V1_Work n"] obtain s' where
    s': "put_work (notify_clean_jobs n) V1_Notify_Free (V1_Work n) ?s = Some s'" "queue_invar (stratum_queue s')"
      "items s' = kept (notify_clean_jobs n) (items ?s) @ [(V1_Work n, free_fn (stratum_queue ?s))]" "work_received s' = work_received ?s" .
  have "length (items s') \<le> QUEUE_SIZE" using s'(2) by (simp add: items_def queue_invar_def)
  moreover have "items ?s = items (v1_state t)" by (simp add: items_def same)
  ultimately have new: "items s' = kept (notify_clean_jobs n) (items (v1_state t)) @ [(V1_Work n, free_fn (stratum_queue (v1_state t)))]"
    "length (items s') \<le> QUEUE_SIZE" "work_received s' = work_received (v1_state t) + 1" using s'(3,4) same by simp_all
  show ?thesis
  proof (cases "decode_mining_notification L (le_result_alloc e) (le_malloc e) cfg n (t\<lparr>v1_state := s'\<rparr>)")
    case (Inl c)
    then show ?thesis
      by (auto simp: handle_notify_def assms(2) s'(1) and_then_def decode_mining_notification_def split: if_splits decode_outcome.splits)
  next
    case (Inr t1)
    then show ?thesis using decode_keeps [OF Inr] new by (simp add: handle_notify_def assms(2) s'(1) and_then_def items_def)
  qed
qed

section \<open>No share is counted twice\<close>

text \<open>Sending a share, as \<open>asic_result_task\<close> does, and receiving a line, in any order.\<close>

datatype v1_op = Submit_Share int | Receive_Line v1_line_env bytes

definition v1_submit :: "int \<Rightarrow> v1_task \<Rightarrow> v1_task" where
  "v1_submit now t = (case stratum_get_next_uid t of (uid, t1) \<Rightarrow> t1\<lparr>v1_timings := stamp_tx uid now (v1_timings t1)\<rparr>)"

fun v1_ops :: "'j cjson_lib \<Rightarrow> sha_lib \<Rightarrow> v1_config \<Rightarrow> v1_op list \<Rightarrow> v1_task \<Rightarrow> v1_crash + v1_task" where
  "v1_ops J L cfg [] t = Inr t"
| "v1_ops J L cfg (Submit_Share now # ops) t = v1_ops J L cfg ops (v1_submit now t)"
| "v1_ops J L cfg (Receive_Line e line # ops) t = and_then (handle_line J L cfg e line t) (\<lambda>(r, t). v1_ops J L cfg ops t)"

fun is_answer :: "sv2_event \<Rightarrow> bool" where
  "is_answer (Shares_Accepted _) = True"
| "is_answer (Share_Rejected _) = True"
| "is_answer _ = False"

definition answers :: "v1_task \<Rightarrow> nat" where
  "answers t = length (filter is_answer (events (v1_state t)))"

definition in_flight :: "v1_task \<Rightarrow> nat" where
  "in_flight t = length (filter snd (v1_timings t))"

definition balance :: "v1_task \<Rightarrow> nat" where
  "balance t = answers t + in_flight t"

lemma filter_update_le: "length (filter P (xs[i := x])) \<le> length (filter P xs) + 1"
proof (cases "i < length xs")
  case True
  have "xs[i := x] = take i xs @ x # drop (Suc i) xs" using True by (rule upd_conv_take_nth_drop)
  moreover have "length (filter P (take i xs)) + length (filter P (drop (Suc i) xs)) \<le> length (filter P xs)"
    by (subst (3) id_take_nth_drop [OF True]) simp
  ultimately show ?thesis by simp
qed (simp add: list_update_beyond)

lemma filter_update_less: "i < length xs \<Longrightarrow> P (xs ! i) \<Longrightarrow> \<not> P x \<Longrightarrow> length (filter P (xs[i := x])) + 1 = length (filter P xs)"
  using arg_cong [OF id_take_nth_drop [of i xs], of "\<lambda>ys. length (filter P ys)"] by (simp add: upd_conv_take_nth_drop)

lemma submit_balance: "balance (v1_submit now t) \<le> balance t + 1"
  using filter_update_le [of snd "v1_timings t" _ "(now, True)"]
  by (auto simp: balance_def answers_def in_flight_def v1_submit_def stratum_get_next_uid_def stamp_tx_def)

lemma balance_same:
  "v1_timings t' = v1_timings t \<Longrightarrow> filter is_answer (events (v1_state t')) = filter is_answer (events (v1_state t)) \<Longrightarrow> balance t' = balance t"
  by (simp add: balance_def answers_def in_flight_def)

lemma clean_answers: "filter is_answer (events (SYSTEM_clean_jobs_queue s)) = filter is_answer (events s)"
proof -
  have "filter is_answer (map (\<lambda>(w, f). Freed w f) xs) = []" for xs by (induction xs) auto
  then show ?thesis by (simp add: SYSTEM_clean_jobs_queue_def split: prod.split)
qed

lemma put_work_answers: "put_work clean df w s = Some s' \<Longrightarrow> filter is_answer (events s') = filter is_answer (events s)"
  by (auto simp: put_work_def Let_def clean_answers split: if_splits Option.bind_splits)

lemma notify_keeps:
  "handle_notify L cfg e t = Inr t' \<Longrightarrow> filter is_answer (events (v1_state t')) = filter is_answer (events (v1_state t)) \<and> v1_timings t' = v1_timings t"
proof -
  assume "handle_notify L cfg e t = Inr t'"
  then obtain n s t1 where n: "put_work (notify_clean_jobs n) V1_Notify_Free (V1_Work n)
      (SYSTEM_notify_new_ntime (notify_ntime n) ((v1_state t)\<lparr>work_received := work_received (v1_state t) + 1\<rparr>)) = Some s"
    "decode_mining_notification L (le_result_alloc e) (le_malloc e) cfg n (t\<lparr>v1_state := s\<rparr>) = Inr t1"
    "t' = t1\<lparr>v1_message := (v1_message t1)\<lparr>mining_notification := None\<rparr>\<rparr>"
    by (auto simp: handle_notify_def and_then_def split: option.splits sum.splits)
  have "filter is_answer (events s) = filter is_answer (events (v1_state t))"
    using put_work_answers [OF n(1)] by (simp add: SYSTEM_notify_new_ntime_def split: if_splits)
  then show ?thesis using decode_keeps [OF n(2)] by (simp add: n(3))
qed

lemma notify_balance: "handle_notify L cfg e t = Inr t' \<Longrightarrow> balance t' = balance t"
  by (rule balance_same) (simp_all add: notify_keeps)

lemma request_balance [simp]: "balance (send_request msg t) = balance t"
  by (rule balance_same) (simp_all add: send_request_def stratum_get_next_uid_def send_line_def on_v1_def)

lemma response_time_cases:
  assumes "length ts = MAX_REQUEST_IDS" "STRATUM_V1_get_response_time_ms request_id now ts = (ms, ts')"
  shows "ts' = ts \<and> ms = -1 \<or> length (filter snd ts') + 1 = length (filter snd ts)"
proof -
  have "timing_slot request_id < length ts" unfolding assms(1) timing_slot_def by (simp add: MAX_REQUEST_IDS_def nat_less_iff)
  from filter_update_less [OF this, of snd "(_, False)"] show ?thesis
    using assms(2) by (auto simp: STRATUM_V1_get_response_time_ms_def split: if_splits prod.splits)
qed

lemma result_balance:
  assumes "handle_result cfg e t = Inr t'" "length (v1_timings t) = MAX_REQUEST_IDS"
  shows "balance t' \<le> balance t"
proof -
  let ?id = "message_id (v1_message t)"
  obtain ms ts where time: "STRATUM_V1_get_response_time_ms ?id (le_now_us e) (v1_timings t) = (ms, ts)"
    by (cases "STRATUM_V1_get_response_time_ms ?id (le_now_us e) (v1_timings t)")
  note cs = response_time_cases [OF assms(2) time]
  show ?thesis
  proof (cases "ms \<ge> 0")
    case False
    have "balance t' = balance (t\<lparr>v1_timings := ts\<rparr>)"
      using assms(1) False by (auto simp: handle_result_def time Let_def coordinator_notify_def balance_def answers_def in_flight_def
          send_request_def stratum_get_next_uid_def send_line_def on_v1_def)
    also have "\<dots> \<le> balance t" using cs by (auto simp: balance_def answers_def in_flight_def)
    finally show ?thesis .
  next
    case True
    then have "length (filter snd ts) + 1 = in_flight t" using cs by (auto simp: in_flight_def)
    moreover have "answers t' = answers t + 1" "v1_timings t' = ts"
      using assms(1) True by (auto simp: handle_result_def time Let_def answers_def on_v1_def split: if_splits option.splits)
    ultimately show ?thesis by (simp add: balance_def in_flight_def)
  qed
qed

lemma close_balance [simp]: "balance (stratum_v1_close_connection t) = balance t"
  by (rule balance_same) (simp_all add: stratum_v1_close_connection_def on_v1_def clean_answers)

lemma line_balance:
  assumes "handle_line J L cfg e line t = Inr (rc, t')" "length (v1_timings t) = MAX_REQUEST_IDS"
  shows "balance t' \<le> balance t"
proof -
  have msg: "balance (t1\<lparr>v1_message := m\<rparr>) = balance t1" for t1 m by (rule balance_same) simp_all
  obtain ok m where p: "STRATUM_V1_parse J (le_parse_alloc e) line (v1_message t) = (ok, m)"
    by (cases "STRATUM_V1_parse J (le_parse_alloc e) line (v1_message t)")
  let ?t = "t\<lparr>v1_message := m\<rparr>"
  show ?thesis
  proof (cases ok)
    case False
    then have "t' = ?t\<lparr>v1_message := STRATUM_V1_reset_message m\<rparr>" using assms(1) by (simp add: handle_line_def p Let_def)
    then show ?thesis using msg by simp
  next
    case True
    then obtain t1 where h: "handle_message L cfg e ?t = Inr (rc, t1)" "t' = t1\<lparr>v1_message := STRATUM_V1_reset_message (v1_message t1)\<rparr>"
      using assms(1) by (auto simp: handle_line_def p Let_def and_then_def split: sum.splits)
    have "balance t1 \<le> balance ?t"
    proof (cases "msg_method m")
      case MINING_NOTIFY
      then show ?thesis using h(1) notify_balance [of L cfg e ?t] by (auto simp: handle_message_def Let_def and_then_def split: sum.splits)
    next
      case STRATUM_RESULT
      then show ?thesis using h(1) result_balance [of cfg e ?t] assms(2) by (auto simp: handle_message_def Let_def and_then_def split: sum.splits)
    qed (use h(1) in \<open>auto simp: handle_message_def Let_def balance_def answers_def in_flight_def set_version_mask_def handle_extranonce_def
        coordinator_notify_def send_line_def on_v1_def stratum_v1_close_connection_def clean_answers split: if_splits\<close>)
    then show ?thesis using msg h(2) by simp
  qed
qed

lemma request_timings [simp]: "v1_timings (send_request msg t) = v1_timings t"
  by (simp add: send_request_def stratum_get_next_uid_def send_line_def on_v1_def)

lemma result_timings:
  assumes "handle_result cfg e t = Inr t'"
  shows "length (v1_timings t') = length (v1_timings t)"
proof -
  obtain ms ts where time: "STRATUM_V1_get_response_time_ms (message_id (v1_message t)) (le_now_us e) (v1_timings t) = (ms, ts)"
    by (cases "STRATUM_V1_get_response_time_ms (message_id (v1_message t)) (le_now_us e) (v1_timings t)")
  then have "length ts = length (v1_timings t)" by (auto simp: STRATUM_V1_get_response_time_ms_def split: if_splits prod.splits)
  moreover have "v1_timings t' = ts"
    using assms by (auto simp: handle_result_def time Let_def on_v1_def coordinator_notify_def split: if_splits option.splits)
  ultimately show ?thesis by simp
qed

lemma line_timings:
  assumes "handle_line J L cfg e line t = Inr (rc, t')"
  shows "length (v1_timings t') = length (v1_timings t)"
proof -
  obtain ok m where p: "STRATUM_V1_parse J (le_parse_alloc e) line (v1_message t) = (ok, m)"
    by (cases "STRATUM_V1_parse J (le_parse_alloc e) line (v1_message t)")
  let ?t = "t\<lparr>v1_message := m\<rparr>"
  have res: "handle_result cfg e ?t = Inr t1 \<Longrightarrow> length (v1_timings t1) = length (v1_timings t)" for t1
    using result_timings [of cfg e ?t] by simp
  have ntf: "handle_notify L cfg e ?t = Inr t1 \<Longrightarrow> v1_timings t1 = v1_timings t" for t1
    using notify_keeps [of L cfg e ?t] by simp
  show ?thesis
  proof (cases ok)
    case False
    then show ?thesis using assms by (auto simp: handle_line_def p Let_def)
  next
    case True
    then obtain t1 where h: "handle_message L cfg e ?t = Inr (rc, t1)" "t' = t1\<lparr>v1_message := STRATUM_V1_reset_message (v1_message t1)\<rparr>"
      using assms by (auto simp: handle_line_def p Let_def and_then_def split: sum.splits)
    have "length (v1_timings t1) = length (v1_timings t)"
    proof (cases "msg_method m")
      case MINING_NOTIFY
      then obtain t2 where "handle_notify L cfg e ?t = Inr t2" "t1 = t2"
        using h(1) by (auto simp: handle_message_def Let_def and_then_def split: sum.splits)
      then show ?thesis by (simp add: ntf)
    next
      case STRATUM_RESULT
      then obtain t2 where "handle_result cfg e ?t = Inr t2" "t1 = t2"
        using h(1) by (auto simp: handle_message_def Let_def and_then_def split: sum.splits)
      then show ?thesis by (simp add: res)
    qed (use h(1) in \<open>auto simp: handle_message_def Let_def set_version_mask_def handle_extranonce_def
        coordinator_notify_def send_line_def on_v1_def stratum_v1_close_connection_def split: if_splits\<close>)
    then show ?thesis using h(2) by simp
  qed
qed

fun is_submit :: "v1_op \<Rightarrow> bool" where
  "is_submit (Submit_Share _) = True"
| "is_submit _ = False"

text \<open>
  C14. However shares are sent and lines of the pool arrive, no share is counted twice and no answer without a share is: the
  shares counted as accepted or refused and those still in flight are never more than the shares sent.
\<close>

theorem shares_counted_once:
  assumes "v1_ops J L cfg ops t = Inr t'" "length (v1_timings t) = MAX_REQUEST_IDS"
  shows "answers t' + in_flight t' \<le> answers t + in_flight t + length (filter is_submit ops)"
  using assms
proof (induction ops arbitrary: t)
  case (Cons op ops)
  show ?case
  proof (cases op)
    case (Submit_Share now)
    have "length (v1_timings (v1_submit now t)) = MAX_REQUEST_IDS"
      using Cons.prems(2) by (simp add: v1_submit_def stratum_get_next_uid_def stamp_tx_def)
    from Cons.IH [OF _ this] Cons.prems(1) submit_balance [of now t] show ?thesis
      by (simp add: Submit_Share balance_def)
  next
    case (Receive_Line e line)
    then obtain rc t1 where h: "handle_line J L cfg e line t = Inr (rc, t1)" "v1_ops J L cfg ops t1 = Inr t'"
      using Cons.prems(1) by (auto simp: and_then_def split: sum.splits)
    from Cons.IH [OF h(2)] line_timings [OF h(1)] line_balance [OF h(1) Cons.prems(2)] Cons.prems(2) show ?thesis
      by (simp add: Receive_Line balance_def)
  qed
qed simp

section \<open>Giving up\<close>

definition idle_line :: "rpc_buffer \<Rightarrow> bool" where
  "idle_line b \<longleftrightarrow> (case rpc_text b of None \<Rightarrow> True | Some buf \<Rightarrow> 10 \<notin> set buf)"

text \<open>A turn that does not reach the pool: some step before the connection fails, or it breaks at once.\<close>

definition unreachable :: "v1_round_env \<Rightarrow> bool" where
  "unreachable e \<longleftrightarrow> \<not> re_shutdown e \<and> re_asic_up e \<and> re_wifi e \<and>
     (\<not> re_resolve_ok e \<or> \<not> re_transport_ok e \<or> \<not> re_connect_ok e \<or>
      (\<exists>l ls rds. re_lines e = l # ls \<and> \<not> le_shutdown l \<and> re_reads e = Read_Failed # rds))"

lemma greet_fields:
  "v1_retry_attempts (v1_connected cfg e t) = v1_retry_attempts t" "v1_notices (v1_connected cfg e t) = v1_notices t"
  "v1_buffer (v1_connected cfg e t) = v1_buffer t"
  by (simp_all add: v1_connected_def v1_greet_def Let_def send_request_def stratum_get_next_uid_def send_line_def on_v1_def stratum_v1_reset_uid_def)

lemma close_fields [simp]:
  "v1_retry_attempts (stratum_v1_close_connection t) = v1_retry_attempts t" "v1_notices (stratum_v1_close_connection t) = v1_notices t"
  "v1_buffer (stratum_v1_close_connection t) = v1_buffer t" "\<not> v1_transport (stratum_v1_close_connection t)"
  by (simp_all add: stratum_v1_close_connection_def on_v1_def)

lemma failed_read:
  "idle_line (v1_buffer t) \<Longrightarrow> \<exists>t1. receive_line (Read_Failed # rds) t = (No_Line, rds, t1) \<and> idle_line (v1_buffer t1) \<and>
     v1_retry_attempts t1 = v1_retry_attempts t \<and> v1_notices t1 = v1_notices t"
  by (auto simp: receive_line_def STRATUM_V1_receive_jsonrpc_line_def STRATUM_V1_initialize_buffer_def idle_line_def
      jsonrpc_line_loop.simps [of "_ # _"] split: option.splits)

lemma unreachable_round:
  assumes "unreachable e" "idle_line (v1_buffer t)" "v1_retry_attempts t < 3"
  shows "\<exists>t'. v1_round J L cfg e t = Inr (Disconnected, t') \<and> idle_line (v1_buffer t') \<and>
    v1_retry_attempts t' = v1_retry_attempts t + 1 \<and> v1_notices t' = v1_notices t"
proof (cases "re_resolve_ok e \<and> re_transport_ok e \<and> re_connect_ok e")
  case False
  then show ?thesis using assms by (auto simp: v1_round_def unreachable_def V1_MAX_RETRY_ATTEMPTS_def)
next
  case True
  then obtain l ls rds where b: "re_lines e = l # ls" "\<not> le_shutdown l" "re_reads e = Read_Failed # rds" using assms(1) by (auto simp: unreachable_def)
  from failed_read [of "v1_connected cfg e t" rds] assms(2) obtain t1 where
    "receive_line (Read_Failed # rds) (v1_connected cfg e t) = (No_Line, rds, t1)" "idle_line (v1_buffer t1)"
    "v1_retry_attempts t1 = v1_retry_attempts t" "v1_notices t1 = v1_notices t" by (auto simp: greet_fields)
  then show ?thesis using True assms b by (auto simp: v1_round_def unreachable_def V1_MAX_RETRY_ATTEMPTS_def)
qed

lemma unreachable_rounds:
  "\<forall>e \<in> set es. unreachable e \<Longrightarrow> idle_line (v1_buffer t) \<Longrightarrow> v1_retry_attempts t + length es \<le> 3 \<Longrightarrow>
   \<exists>t'. v1_rounds J L cfg (es @ rest) t = v1_rounds J L cfg rest t' \<and> idle_line (v1_buffer t') \<and>
     v1_retry_attempts t' = v1_retry_attempts t + length es \<and> v1_notices t' = v1_notices t"
proof (induction es arbitrary: t)
  case (Cons e es)
  from unreachable_round [of e t J L cfg] Cons.prems obtain t1 where
    t1: "v1_round J L cfg e t = Inr (Disconnected, t1)" "idle_line (v1_buffer t1)" "v1_retry_attempts t1 = v1_retry_attempts t + 1" "v1_notices t1 = v1_notices t" by auto
  from Cons.IH [of t1] Cons.prems t1 show ?case by auto
qed auto

text \<open>
  C27. Three turns that do not reach the pool end the task at the next one, not before, with one report of failure and the
  connection closed.
\<close>

theorem v1_gives_up_after_three:
  assumes "\<forall>e \<in> set es. unreachable e" "length es = 3" "v1_retry_attempts t = 0" "idle_line (v1_buffer t)" "\<not> re_shutdown e" "re_asic_up e" "re_wifi e"
  shows "(\<exists>t'. v1_rounds J L cfg es t = Inr (Disconnected, t') \<and> v1_notices t' = v1_notices t) \<and>
    (\<exists>t'. v1_rounds J L cfg (es @ [e]) t = Inr (Ended, t') \<and> v1_notices t' = v1_notices t @ [V1_Failure] \<and> \<not> v1_transport t')"
proof -
  from unreachable_rounds [OF assms(1,4), of J L cfg "[]"] assms(2,3) obtain t1 where
    "v1_rounds J L cfg es t = Inr (Disconnected, t1)" "v1_notices t1 = v1_notices t" by auto
  moreover from unreachable_rounds [OF assms(1,4), of J L cfg "[e]"] assms(2,3) obtain t2 where
    t2: "v1_rounds J L cfg (es @ [e]) t = v1_rounds J L cfg [e] t2" "v1_retry_attempts t2 = 3" "v1_notices t2 = v1_notices t" by auto
  have "v1_rounds J L cfg [e] t2 = Inr (Ended, coordinator_notify V1_Failure (stratum_v1_close_connection t2))"
    using t2(2) assms(5-7) by (simp add: v1_round_def V1_MAX_RETRY_ATTEMPTS_def)
  then have "v1_rounds J L cfg (es @ [e]) t = Inr (Ended, coordinator_notify V1_Failure (stratum_v1_close_connection t2))" using t2(1) by simp
  ultimately show ?thesis using t2(3) by (simp add: coordinator_notify_def)
qed

section \<open>What outlives a connection\<close>

text \<open>
  When the pool asks for a reconnect, the text behind its request stays in the line buffer, and the first line of the
  next connection is read with that text in front of it.
\<close>

theorem stale_text_meets_new_connection:
  assumes "handle_line J L cfg e line t = Inr (True, t')" "rpc_text (v1_buffer t) = Some stale" "10 \<notin> set stale"
    and "0 \<notin> set l" "10 \<notin> set l" "length stale + length l < MAX_JSON_RPC_LINE_LEN"
  shows "fst (receive_line (Read_Bytes (l @ [10]) # rds) (v1_connected cfg e' t')) = Line (stale @ l)"
proof -
  obtain ok m where p: "STRATUM_V1_parse J (le_parse_alloc e) line (v1_message t) = (ok, m)"
    by (cases "STRATUM_V1_parse J (le_parse_alloc e) line (v1_message t)")
  let ?t = "t\<lparr>v1_message := m\<rparr>"
  from assms(1) have ok by (auto simp: handle_line_def p Let_def split: if_splits)
  then obtain t1 where h: "handle_message L cfg e ?t = Inr (True, t1)" "v1_buffer t' = v1_buffer t1"
    using assms(1) by (auto simp: handle_line_def p Let_def and_then_def split: sum.splits)
  have "v1_buffer t1 = v1_buffer ?t"
    using h(1) by (cases "msg_method m") (auto simp: handle_message_def Let_def and_then_def split: sum.splits)
  then have buf: "rpc_text (v1_buffer (v1_connected cfg e' t')) = Some stale" using h(2) assms(2) by (simp add: greet_fields)
  have "takeWhile (\<lambda>c. c \<noteq> 0) (l @ [10]) = l @ [10]" using assms(4) by (auto simp: takeWhile_eq_all_conv)
  then have app: "rpc_text (append_received stale (l @ [10]) b) = Some (stale @ l @ [10])" for b by (simp add: append_received_def)
  have line: "takeWhile (\<lambda>c. c \<noteq> 10) (stale @ l @ [10]) = stale @ l" using assms(3,5) by (simp add: takeWhile_append2 takeWhile_append)
  show ?thesis using assms(3,6) app line
    by (auto simp: receive_line_def STRATUM_V1_receive_jsonrpc_line_def buf jsonrpc_line_loop.simps [of "_ # _"] jsonrpc_line_loop.simps
        extract_line_def Let_def split: prod.split)
qed

section \<open>Examples\<close>

definition fresh_v1 :: v1_task where
  "fresh_v1 = \<lparr>v1_state = fresh_client SV2_CHANNEL_UNKNOWN, v1_transport = False, v1_buffer = \<lparr>rpc_text = None, rpc_size = 0\<rparr>,
     v1_timings = fresh_timings, v1_message = empty_message, send_uid = 4, extranonce_str = None, extranonce_2_len = 0, v1_version_mask = 0,
     new_stratum_version_rolling_msg = False, pool_connection_info = [], v1_retry_attempts = 0, authorize_message_id = 3,
     v1_display = \<lparr>disp_block_height = 0, disp_signals = [], disp_scriptsig = [], disp_outputs = replicate 6 empty_output, disp_output_count = 0,
       disp_total = 0, disp_user = 0\<rparr>, v1_notices = []\<rparr>"

definition example_v1_config :: v1_config where
  "example_v1_config = \<lparr>v1_user = ascii ''user'', v1_pass = ascii ''x'', v1_difficulty = 1000, v1_extranonce_subscribe = False, v1_decode_coinbase = True,
     v1_tls = 0, v1_model = ascii ''BM1370'', v1_firmware = ascii ''v1''\<rparr>"

definition quiet_line :: v1_line_env where
  "quiet_line = \<lparr>le_shutdown = False, le_asic_up = True, le_parse_alloc = True, le_result_alloc = False, le_malloc = (\<lambda>n. True), le_now_us = 100\<rparr>"

definition example_round :: "transport_read list \<Rightarrow> v1_round_env" where
  "example_round rds = \<lparr>re_shutdown = False, re_asic_up = True, re_wifi = True, re_resolve_ok = True, re_transport_ok = True, re_connect_ok = True,
     re_ipv6 = False, re_reads = rds, re_lines = [quiet_line, quiet_line]\<rparr>"

lemma example_reconnect: "\<exists>t'. handle_line example_json first_bytes example_v1_config quiet_line (ascii ''reconnect'') t = Inr (True, t')"
  by (simp add: handle_line_def quiet_line_def STRATUM_V1_parse_def example_json_def tree_lib_simps example_subscribe_def dispatch_message_def
      parse_method_def STRATUM_V1_reset_message_def handle_message_def and_then_def Let_def)

lemma example_refused:
  "STRATUM_V1_parse example_json True (ascii ''refused 4'') m =
     (True, (STRATUM_V1_reset_message m)\<lparr>message_id := 4, msg_method := STRATUM_RESULT, error_str := Some (ascii ''unknown method'')\<rparr>)"
  by (simp add: STRATUM_V1_parse_def example_json_def tree_lib_simps example_subscribe_def dispatch_message_def parse_method_def
      parse_result_def error_text_def result_failed_def STRATUM_V1_reset_message_def Let_def)

text \<open>A pool that sends a job and then asks for a new connection.\<close>

definition job_pool :: "tree cjson_lib" where
  "job_pool = tree_lib
     [(ascii ''job'', Object [(ascii ''method'', String (ascii ''mining.notify'')),
        (ascii ''params'', Array [String (ascii ''7''), String [], String [], String [], Array [], String (ascii ''1''), String (ascii ''2''), String (ascii ''3''), Bool False])]),
      (ascii ''reconnect'', Object [(ascii ''method'', String (ascii ''client.reconnect''))])]"

definition pool_job :: mining_notify where
  "pool_job = \<lparr>notify_job_id = ascii ''7'', notify_prev_block_hash = [], notify_coinbase_1 = [], notify_coinbase_2 = [], notify_merkle_branches = [],
     notify_version = strtoul16 (ascii ''1''), notify_target = strtoul16 (ascii ''2''), notify_ntime = strtoul16 (ascii ''3''), notify_clean_jobs = False\<rparr>"

lemma pool_job_clean: "notify_clean_jobs pool_job = False"
  by (simp add: pool_job_def)

lemma job_pool_parse:
  "STRATUM_V1_parse job_pool True (ascii ''job'') m = (True, (STRATUM_V1_reset_message m)\<lparr>message_id := -1, msg_method := MINING_NOTIFY, mining_notification := Some pool_job\<rparr>)"
  by (simp add: STRATUM_V1_parse_def job_pool_def tree_lib_simps dispatch_message_def parse_method_def parse_mining_notify_def
      pool_job_def STRATUM_V1_reset_message_def Let_def)

lemma job_pool_reconnect:
  "\<exists>t'. handle_line job_pool first_bytes example_v1_config quiet_line (ascii ''reconnect'') t = Inr (True, t') \<and>
     work_received (v1_state t') = work_received (v1_state t)"
  by (simp add: handle_line_def quiet_line_def STRATUM_V1_parse_def job_pool_def tree_lib_simps dispatch_message_def
      parse_method_def STRATUM_V1_reset_message_def handle_message_def and_then_def stratum_v1_close_connection_def on_v1_def
      SYSTEM_clean_jobs_queue_def Let_def split: prod.split)

lemma job_pool_job:
  assumes "queue_invar (stratum_queue (v1_state t))"
  shows "\<exists>t'. handle_line job_pool first_bytes example_v1_config quiet_line (ascii ''job'') t = Inr (False, t') \<and>
     work_received (v1_state t') = work_received (v1_state t) + 1 \<and> v1_buffer t' = v1_buffer t"
proof -
  let ?s = "SYSTEM_notify_new_ntime (notify_ntime pool_job) ((v1_state t)\<lparr>work_received := work_received (v1_state t) + 1\<rparr>)"
  have "queue_invar (stratum_queue ?s)" "work_received ?s = work_received (v1_state t) + 1" using assms by (simp_all add: SYSTEM_notify_new_ntime_def)
  then obtain s' where "put_work False V1_Notify_Free (V1_Work pool_job) ?s = Some s'" "work_received s' = work_received (v1_state t) + 1"
    using put_work_queue [of ?s False V1_Notify_Free "V1_Work pool_job"] by metis
  then show ?thesis unfolding handle_line_def quiet_line_def v1_line_env.simps job_pool_parse
    by (simp add: handle_message_def handle_notify_def pool_job_clean and_then_def decode_mining_notification_def Let_def)
qed

theorem v1_task_sound_witness:
  "\<exists>t'. v1_session job_pool first_bytes example_v1_config [quiet_line, quiet_line] [Read_Bytes (ascii ''job'' @ [10] @ ascii ''reconnect'' @ [10])]
       (stratum_v1_start fresh_v1) = Inr (Disconnected, t') \<and>
     items (v1_state t') = [] \<and> of_nat (length (freed_of (events (v1_state t')))) = (1 :: u64)"
proof -
  let ?rds = "[Read_Bytes (ascii ''job'' @ [10] @ ascii ''reconnect'' @ [10])]" and ?t = "stratum_v1_start fresh_v1"
  have "\<exists>t1. receive_line ?rds ?t = (Line (ascii ''job''), [], t1) \<and> v1_state t1 = v1_state ?t \<and> rpc_text (v1_buffer t1) = Some (ascii ''reconnect'' @ [10])"
    by (simp add: receive_line_def STRATUM_V1_receive_jsonrpc_line_def stratum_v1_start_def on_v1_def STRATUM_V1_initialize_buffer_def Let_def
        jsonrpc_line_loop.simps [of "[Read_Bytes _]"] jsonrpc_line_loop.simps [of "[]"] append_received_def extract_line_def MAX_JSON_RPC_LINE_LEN_def)
  then obtain t1 where t1: "receive_line ?rds ?t = (Line (ascii ''job''), [], t1)" "v1_state t1 = v1_state ?t"
    "rpc_text (v1_buffer t1) = Some (ascii ''reconnect'' @ [10])" by blast
  have start: "v1_in_order ?t" "job_history (v1_state ?t) = []" "work_received (v1_state ?t) = 0"
    using fresh_queue [of SV2_CHANNEL_UNKNOWN]
    by (simp_all add: v1_in_order_def job_history_def stratum_v1_start_def on_v1_def fresh_v1_def items_def wq.set_tag_invar wq.set_tag_contents)
      (simp_all add: fresh_client_def set_free_fn_def)
  then have q: "queue_invar (stratum_queue (v1_state t1))" using t1(2) by (simp add: v1_in_order_def)
  from job_pool_job [OF q] obtain t2 where
    t2: "handle_line job_pool first_bytes example_v1_config quiet_line (ascii ''job'') t1 = Inr (False, t2)" "work_received (v1_state t2) = work_received (v1_state t1) + 1"
      "v1_buffer t2 = v1_buffer t1" by blast
  have "\<exists>t3. receive_line [] t2 = (Line (ascii ''reconnect''), [], t3) \<and> v1_state t3 = v1_state t2"
    using t1(3) t2(3) by (simp add: receive_line_def STRATUM_V1_receive_jsonrpc_line_def jsonrpc_line_loop.simps [of "[]"] extract_line_def Let_def)
  then obtain t3 where t3: "receive_line [] t2 = (Line (ascii ''reconnect''), [], t3)" "v1_state t3 = v1_state t2" by blast
  from job_pool_reconnect [of t3] obtain t' where
    t': "handle_line job_pool first_bytes example_v1_config quiet_line (ascii ''reconnect'') t3 = Inr (True, t')" "work_received (v1_state t') = work_received (v1_state t3)" by blast
  have run: "v1_session job_pool first_bytes example_v1_config [quiet_line, quiet_line] ?rds ?t = Inr (Disconnected, t')"
    using t1(1) t2(1) t3(1) t'(1) by (simp add: quiet_line_def)
  have "v1_run_sound (\<exists>l \<in> set [quiet_line, quiet_line]. \<not> le_parse_alloc l) ?t (v1_session job_pool first_bytes example_v1_config [quiet_line, quiet_line] ?rds ?t)"
    using v1_task_sound [of ?t "[]"] start(1) by blast
  moreover have "work_received (v1_state t') = 1" using t1(2) t2(2) t3(2) t'(2) start(3) by simp
  ultimately show ?thesis using run start(2,3) by (auto simp: v1_run_sound_def job_history_def)
qed

theorem v1_job_queued_witness:
  "\<exists>t'. handle_notify first_bytes example_v1_config quiet_line (fresh_v1\<lparr>v1_message := empty_message\<lparr>mining_notification := Some example_notify\<rparr>\<rparr>) = Inr t' \<and>
     map fst (items (v1_state t')) = [V1_Work example_notify]"
proof -
  let ?t = "fresh_v1\<lparr>v1_message := empty_message\<lparr>mining_notification := Some example_notify\<rparr>\<rparr>"
  have q: "queue_invar (stratum_queue (v1_state ?t))" "items (v1_state ?t) = []" "mining_notification (v1_message ?t) = Some example_notify"
    using fresh_queue [of SV2_CHANNEL_UNKNOWN] by (simp_all add: fresh_v1_def)
  have "kept c ([] :: (work \<times> free_function option) list) = []" for c by (simp add: kept_def QUEUE_SIZE_def)
  then show ?thesis using v1_job_queued [OF q(1,3), where L = first_bytes and cfg = example_v1_config and e = quiet_line] q(2)
    by (cases "handle_notify first_bytes example_v1_config quiet_line ?t") (auto simp: quiet_line_def)
qed

theorem shares_counted_once_witness:
  "\<exists>t'. v1_ops example_json first_bytes example_v1_config [Submit_Share 0, Receive_Line quiet_line (ascii ''refused 4''), Receive_Line quiet_line (ascii ''refused 4'')] fresh_v1
      = Inr t' \<and> answers t' \<le> 1"
proof -
  let ?ops = "[Submit_Share 0, Receive_Line quiet_line (ascii ''refused 4''), Receive_Line quiet_line (ascii ''refused 4'')]"
  have ok: "\<exists>t'. handle_line example_json first_bytes example_v1_config quiet_line (ascii ''refused 4'') t = Inr (False, t')" for t
    unfolding handle_line_def quiet_line_def v1_line_env.simps example_refused
    by (cases "STRATUM_V1_get_response_time_ms 4 100 (v1_timings t)")
      (simp add: handle_message_def handle_result_def and_then_def STRATUM_V1_reset_message_def Let_def)
  from ok [of "v1_submit 0 fresh_v1"] obtain t1 where
    t1: "handle_line example_json first_bytes example_v1_config quiet_line (ascii ''refused 4'') (v1_submit 0 fresh_v1) = Inr (False, t1)" by blast
  from ok [of t1] obtain t2 where "handle_line example_json first_bytes example_v1_config quiet_line (ascii ''refused 4'') t1 = Inr (False, t2)" by blast
  with t1 have run: "v1_ops example_json first_bytes example_v1_config ?ops fresh_v1 = Inr t2" by (simp add: and_then_def)
  have "length (v1_timings fresh_v1) = MAX_REQUEST_IDS" "answers fresh_v1 = 0" "in_flight fresh_v1 = 0"
    by (simp_all add: fresh_v1_def fresh_timings_def answers_def in_flight_def fresh_client_def)
  from shares_counted_once [OF run this(1)] this(2,3) have "answers t2 \<le> 1" by simp
  with run show ?thesis by blast
qed

theorem v1_gives_up_after_three_witness:
  "\<exists>t'. v1_rounds example_json first_bytes example_v1_config (replicate 3 (example_round [Read_Failed]) @ [example_round []]) fresh_v1 = Inr (Ended, t') \<and>
     v1_notices t' = [V1_Failure]"
proof -
  have "\<forall>e \<in> set (replicate 3 (example_round [Read_Failed])). unreachable e" by (simp add: unreachable_def example_round_def quiet_line_def)
  from v1_gives_up_after_three [OF this, of fresh_v1 "example_round []" example_json first_bytes example_v1_config] show ?thesis
    by (auto simp: fresh_v1_def idle_line_def example_round_def)
qed

theorem stale_text_meets_new_connection_witness:
  "\<exists>t'. handle_line example_json first_bytes example_v1_config quiet_line (ascii ''reconnect'')
        (fresh_v1\<lparr>v1_buffer := \<lparr>rpc_text = Some (ascii ''old''), rpc_size = 1024\<rparr>\<rparr>) = Inr (True, t') \<and>
     fst (receive_line [Read_Bytes (ascii ''new'' @ [10])] (v1_connected example_v1_config (example_round []) t')) = Line (ascii ''oldnew'')"
proof -
  let ?t = "fresh_v1\<lparr>v1_buffer := \<lparr>rpc_text = Some (ascii ''old''), rpc_size = 1024\<rparr>\<rparr>"
  from example_reconnect [of ?t] obtain t' where
    t': "handle_line example_json first_bytes example_v1_config quiet_line (ascii ''reconnect'') ?t = Inr (True, t')" by blast
  from stale_text_meets_new_connection [OF t', of "ascii ''old''" "ascii ''new''" "[]" "example_round []"] t' show ?thesis
    by (auto simp: MAX_JSON_RPC_LINE_LEN_def)
qed

end
