(* ===== verification/Sv2_Noise.thy ===== *)
theory Sv2_Noise
  imports Sv2_Protocol
begin

text \<open>
  \<open>components/stratum_v2/sv2_noise.c\<close>: the encrypted channel under Stratum V2. The initiator's side of the
  Noise NX handshake with the check of the pool's certificate, and the sending and receiving of frames sealed
  with ChaCha20-Poly1305 under a counter. The ciphers, hashes and curve operations of mbedtls and secp256k1 are a
  parameter; the transport is what its calls answered.
\<close>

section \<open>The library and the transport\<close>

text \<open>
  \<open>None\<close> is the failure value of a call. The opaque keys of secp256k1 are bytes. \<open>ellswift_xdh\<close> takes both
  encoded keys, the secret and the party, \<open>xonly_pubkey\<close> stands for \<open>from_pubkey\<close> followed by \<open>serialize\<close>.
\<close>

record noise_lib =
  sha256 :: "bytes \<Rightarrow> bytes"
  md_hmac :: "bytes \<Rightarrow> bytes \<Rightarrow> bytes"
  encrypt_and_tag :: "bytes \<Rightarrow> bytes \<Rightarrow> bytes \<Rightarrow> bytes \<Rightarrow> (bytes \<times> bytes) option"
  auth_decrypt :: "bytes \<Rightarrow> bytes \<Rightarrow> bytes \<Rightarrow> bytes \<Rightarrow> bytes \<Rightarrow> bytes option"
  ellswift_create :: "bytes \<Rightarrow> bytes option \<Rightarrow> bytes option"
  ellswift_xdh :: "bytes \<Rightarrow> bytes \<Rightarrow> bytes \<Rightarrow> bool \<Rightarrow> bytes option"
  ellswift_decode :: "bytes \<Rightarrow> bytes"
  xonly_pubkey :: "bytes \<Rightarrow> bytes option"
  xonly_parse :: "bytes \<Rightarrow> bytes option"
  schnorrsig_verify :: "bytes \<Rightarrow> bytes \<Rightarrow> bytes \<Rightarrow> bool"

text \<open>
  \<open>rx\<close> is what the peer has sent and nobody has read, \<open>read_sizes\<close> how much each coming read delivers at most
  (nothing or less is an error or a timeout), \<open>tx\<close> what has been written, \<open>write_results\<close> how much each coming
  write takes at most (a negative number is an error). \<open>seals\<close> records every call of the cipher: key, nonce,
  text.
\<close>

record transport =
  rx :: bytes
  read_sizes :: "int list"
  tx :: bytes
  write_results :: "int list"
  seals :: "(bytes \<times> bytes \<times> bytes) list"

record noise_ctx =
  hs_h :: bytes
  hs_ck :: bytes
  e_priv :: bytes
  e_pub_encoded :: bytes
  send_key :: bytes
  recv_key :: bytes
  send_nonce :: u64
  recv_nonce :: u64
  handshake_complete :: bool

fun read_loop :: "nat \<Rightarrow> int list \<Rightarrow> bytes \<Rightarrow> bytes option \<times> int list \<times> bytes" where
  "read_loop n [] r = (if n = 0 then Some [] else None, [], r)"
| "read_loop n (k # ks) r =
     (if n = 0 then (Some [], k # ks, r)
      else let got = min (min k (int (length r))) (int n)
           in if got \<le> 0 then (None, ks, r)
              else case read_loop (n - nat got) ks (drop (nat got) r) of
                     (res, ks', r') \<Rightarrow> (map_option (\<lambda>more. take (nat got) r @ more) res, ks', r'))"

definition noise_recv_exact :: "nat \<Rightarrow> transport \<Rightarrow> bytes option \<times> transport" where
  "noise_recv_exact len t = (case read_loop len (read_sizes t) (rx t) of (res, ks, r) \<Rightarrow> (res, t\<lparr>read_sizes := ks, rx := r\<rparr>))"

definition noise_send_all :: "bytes \<Rightarrow> transport \<Rightarrow> int \<times> transport" where
  "noise_send_all buf t =
     (let ret = (case write_results t of [] \<Rightarrow> - 1 | r # _ \<Rightarrow> min r (int (length buf)))
      in (if ret < 0 then - 1 else 0,
          t\<lparr>write_results := drop 1 (write_results t), tx := tx t @ take (nat ret) buf\<rparr>))"

section \<open>Hashes, nonces and the cipher\<close>

definition mix_hash :: "noise_lib \<Rightarrow> bytes \<Rightarrow> noise_ctx \<Rightarrow> noise_ctx" where
  "mix_hash lib dat c = c\<lparr>hs_h := sha256 lib (hs_h c @ dat)\<rparr>"

definition hmac_sha256 :: "noise_lib \<Rightarrow> bytes \<Rightarrow> bytes \<Rightarrow> bytes" where
  "hmac_sha256 lib key dat = md_hmac lib key dat"

definition hkdf2 :: "noise_lib \<Rightarrow> bytes \<Rightarrow> bytes \<Rightarrow> bytes \<times> bytes" where
  "hkdf2 lib ck ikm =
     (let prk = hmac_sha256 lib ck ikm; out1 = hmac_sha256 lib prk [0x01]
      in (out1, hmac_sha256 lib prk (out1 @ [0x02])))"

definition build_nonce :: "u64 \<Rightarrow> bytes" where
  "build_nonce counter = replicate 4 0 @ map (\<lambda>i. ucast (drop_bit (i * 8) counter)) [0..<8]"

definition noise_encrypt :: "noise_lib \<Rightarrow> bytes \<Rightarrow> u64 \<Rightarrow> bytes \<Rightarrow> bytes \<Rightarrow> bytes option" where
  "noise_encrypt lib key counter aad plaintext =
     map_option (\<lambda>(c, tag). c @ tag) (encrypt_and_tag lib key (build_nonce counter) aad plaintext)"

definition noise_decrypt :: "noise_lib \<Rightarrow> bytes \<Rightarrow> u64 \<Rightarrow> bytes \<Rightarrow> bytes \<Rightarrow> bytes option" where
  "noise_decrypt lib key counter aad ciphertext =
     (if length ciphertext < 16 then None
      else let pt_len = length ciphertext - 16
           in auth_decrypt lib key (build_nonce counter) aad (drop pt_len ciphertext) (take pt_len ciphertext))"

section \<open>The context\<close>

definition zero_ctx :: noise_ctx where
  "zero_ctx = \<lparr>hs_h = replicate 32 0, hs_ck = replicate 32 0, e_priv = replicate 32 0, e_pub_encoded = replicate 64 0,
     send_key = replicate 32 0, recv_key = replicate 32 0, send_nonce = 0, recv_nonce = 0, handshake_complete = False\<rparr>"

text \<open>The arguments say whether memory, the curve context and its randomisation could be had.\<close>

definition sv2_noise_create :: "bool \<Rightarrow> bool \<Rightarrow> bool \<Rightarrow> noise_ctx option" where
  "sv2_noise_create calloc_ok secp_ok randomize_ok =
     (if \<not> calloc_ok then None else if \<not> secp_ok then None else if \<not> randomize_ok then None else Some zero_ctx)"

text \<open>What the memory holds when it is given back.\<close>

definition sv2_noise_destroy :: "noise_ctx \<Rightarrow> noise_ctx" where
  "sv2_noise_destroy c = c\<lparr>e_priv := replicate 32 0, send_key := replicate 32 0, recv_key := replicate 32 0\<rparr>"

section \<open>The handshake\<close>

definition seckey_ending :: "u8 \<Rightarrow> bytes" where "seckey_ending b = replicate 31 0 @ [b]"

definition sv2_noise_selftest :: "noise_lib \<Rightarrow> bool" where
  "sv2_noise_selftest lib =
     (case (ellswift_create lib (seckey_ending 1) None, ellswift_create lib (seckey_ending 2) None) of
        (Some a, Some b) \<Rightarrow>
          (case ellswift_xdh lib a b (seckey_ending 1) False of
             None \<Rightarrow> False
           | Some shared_a \<Rightarrow>
               (case ellswift_xdh lib a b (seckey_ending 2) True of
                  None \<Rightarrow> False
                | Some shared_b \<Rightarrow> take 32 shared_a = take 32 shared_b))
      | _ \<Rightarrow> False)"

definition NOISE_PROTOCOL_NAME :: bytes where
  "NOISE_PROTOCOL_NAME = map (\<lambda>c. of_nat (of_char c)) ''Noise_NX_Secp256k1+EllSwift_ChaChaPoly_SHA256''"

definition expected_h :: bytes where
  "expected_h = [46, 180, 120, 129, 32, 142, 158, 238, 31, 102, 159, 103, 198, 110, 231, 14,
     169, 234, 136, 9, 13, 80, 63, 232, 48, 220, 75, 200, 62, 41, 191, 16]"

text \<open>
  The certificate: version, start and end of its validity, signature. Only the signature is looked at; the other
  fields are logged.
\<close>

record sv2_cert_msg =
  cert_version :: u16
  valid_from :: u32
  not_valid_after :: u32
  schnorr_sig :: bytes

definition cert_of :: "bytes \<Rightarrow> sv2_cert_msg" where
  "cert_of sig_msg =
     \<lparr>cert_version = read_u16_le sig_msg, valid_from = read_u32_le (drop 2 sig_msg),
      not_valid_after = read_u32_le (drop 6 sig_msg), schnorr_sig = slice 10 64 sig_msg\<rparr>"

definition certificate_ok :: "noise_lib \<Rightarrow> bytes option \<Rightarrow> bytes \<Rightarrow> bytes \<Rightarrow> bool" where
  "certificate_ok lib authority_pubkey rs_static sig_msg =
     (case authority_pubkey of
        None \<Rightarrow> True
      | Some authority \<Rightarrow>
          (case xonly_pubkey lib (ellswift_decode lib rs_static) of
             None \<Rightarrow> False
           | Some xonly_bytes \<Rightarrow>
               let sig_hash = sha256 lib (take 10 sig_msg @ xonly_bytes)
               in case xonly_parse lib authority of
                    None \<Rightarrow> False
                  | Some auth_pk \<Rightarrow> schnorrsig_verify lib (schnorr_sig (cert_of sig_msg)) sig_hash auth_pk))"

text \<open>Steps 16 and 17: the keys of the two directions, and the secrets of the handshake wiped.\<close>

definition key_split :: "noise_lib \<Rightarrow> noise_ctx \<Rightarrow> noise_ctx" where
  "key_split lib c =
     (case hkdf2 lib (hs_ck c) [] of
        (k1, k2) \<Rightarrow> c\<lparr>send_key := k1, recv_key := k2, e_priv := replicate 32 0, hs_ck := replicate 32 0,
                     hs_h := replicate 32 0, send_nonce := 0, recv_nonce := 0, handshake_complete := True\<rparr>)"

text \<open>One exchange of keys (steps 7 and 8, 11 and 12): the chaining key moves on, a key for one message comes out.\<close>

definition mix_key :: "noise_lib \<Rightarrow> bytes \<Rightarrow> noise_ctx \<Rightarrow> bytes \<times> noise_ctx" where
  "mix_key lib shared c = (case hkdf2 lib (hs_ck c) shared of (ck, temp_k) \<Rightarrow> (temp_k, c\<lparr>hs_ck := ck\<rparr>))"

text \<open>Steps 6 to 17: the 234 bytes of the responder.\<close>

definition handshake_answer :: "noise_lib \<Rightarrow> bytes option \<Rightarrow> bytes \<Rightarrow> noise_ctx \<Rightarrow> bool \<times> noise_ctx" where
  "handshake_answer lib authority_pubkey resp c =
     (let re_pub = take 64 resp; c1 = mix_hash lib re_pub c
      in case ellswift_xdh lib (e_pub_encoded c1) re_pub (e_priv c1) False of
           None \<Rightarrow> (False, c1)
         | Some shared \<Rightarrow>
             (case mix_key lib shared c1 of (temp_k, c2) \<Rightarrow>
                (case noise_decrypt lib temp_k 0 (hs_h c2) (slice 64 80 resp) of
                   None \<Rightarrow> (False, c2)
                 | Some rs_static \<Rightarrow>
                     let c3 = mix_hash lib (slice 64 80 resp) c2
                     in case ellswift_xdh lib (e_pub_encoded c3) rs_static (e_priv c3) False of
                          None \<Rightarrow> (False, c3)
                        | Some shared2 \<Rightarrow>
                            (case mix_key lib shared2 c3 of (temp_k2, c4) \<Rightarrow>
                               (case noise_decrypt lib temp_k2 0 (hs_h c4) (slice 144 90 resp) of
                                  None \<Rightarrow> (False, c4)
                                | Some sig_msg \<Rightarrow>
                                    if \<not> certificate_ok lib authority_pubkey rs_static sig_msg then (False, c4)
                                    else (True, key_split lib c4))))))"

text \<open>Steps 1 and, with the ephemeral key, 2 and 3.\<close>

definition handshake_start :: "noise_lib \<Rightarrow> noise_ctx \<Rightarrow> noise_ctx" where
  "handshake_start lib c = (let h = sha256 lib NOISE_PROTOCOL_NAME in c\<lparr>hs_h := h, hs_ck := h\<rparr>)"

definition handshake_hello :: "noise_lib \<Rightarrow> bytes \<Rightarrow> noise_ctx \<Rightarrow> noise_ctx" where
  "handshake_hello lib e_pub c = mix_hash lib [] (mix_hash lib e_pub (c\<lparr>e_pub_encoded := e_pub\<rparr>))"

text \<open>
  \<open>random1\<close> and \<open>random2\<close> are what \<open>esp_fill_random\<close> gave, \<open>selftest_done\<close> is the static flag of the function. The
  result is the return value, the flag, the context and the transport.
\<close>

definition sv2_noise_handshake ::
  "noise_lib \<Rightarrow> bytes \<Rightarrow> bytes \<Rightarrow> bytes option \<Rightarrow> bool \<Rightarrow> noise_ctx \<Rightarrow> transport \<Rightarrow> int \<times> bool \<times> noise_ctx \<times> transport" where
  "sv2_noise_handshake lib random1 random2 authority_pubkey selftest_done c t =
     (if \<not> selftest_done \<and> \<not> sv2_noise_selftest lib then (- 1, False, c, t)
      else let c1 = handshake_start lib c
           in if hs_h c1 \<noteq> expected_h then (- 1, True, c1, t)
              else let c2 = (mix_hash lib [] c1)\<lparr>e_priv := random1\<rparr>
                   in case ellswift_create lib random1 (Some random2) of
                        None \<Rightarrow> (- 1, True, c2, t)
                      | Some e_pub \<Rightarrow>
                          let c3 = handshake_hello lib e_pub c2
                          in case noise_send_all e_pub t of (ret, t1) \<Rightarrow>
                               if ret \<noteq> 0 then (- 1, True, c3, t1)
                               else case noise_recv_exact 234 t1 of
                                      (None, t2) \<Rightarrow> (- 1, True, c3, t2)
                                    | (Some resp, t2) \<Rightarrow>
                                        (case handshake_answer lib authority_pubkey resp c3 of
                                           (ok, c4) \<Rightarrow> (if ok then 0 else - 1, True, c4, t2)))"

section \<open>Frames\<close>

definition noise_seal :: "noise_lib \<Rightarrow> bytes \<Rightarrow> noise_ctx \<Rightarrow> transport \<Rightarrow> bytes option \<times> noise_ctx \<times> transport" where
  "noise_seal lib plaintext c t =
     (noise_encrypt lib (send_key c) (send_nonce c) [] plaintext, c\<lparr>send_nonce := send_nonce c + 1\<rparr>,
      t\<lparr>seals := seals t @ [(send_key c, build_nonce (send_nonce c), plaintext)]\<rparr>)"

text \<open>\<open>malloc_ok\<close>: memory for a frame with a payload. The context is not null, as at every call.\<close>

definition sv2_noise_send :: "noise_lib \<Rightarrow> bool \<Rightarrow> bytes \<Rightarrow> noise_ctx \<Rightarrow> transport \<Rightarrow> int \<times> noise_ctx \<times> transport" where
  "sv2_noise_send lib malloc_ok frame c t =
     (if \<not> handshake_complete c \<or> length frame < SV2_FRAME_HEADER_SIZE then (- 1, c, t)
      else let payload_len = length frame - SV2_FRAME_HEADER_SIZE
           in if payload_len = 0 then
                (case noise_seal lib (take SV2_FRAME_HEADER_SIZE frame) c t of
                   (None, c1, t1) \<Rightarrow> (- 1, c1, t1)
                 | (Some enc_hdr, c1, t1) \<Rightarrow> (case noise_send_all enc_hdr t1 of (ret, t2) \<Rightarrow> (ret, c1, t2)))
              else if \<not> malloc_ok then (- 1, c, t)
              else (case noise_seal lib (take SV2_FRAME_HEADER_SIZE frame) c t of
                      (None, c1, t1) \<Rightarrow> (- 1, c1, t1)
                    | (Some enc_hdr, c1, t1) \<Rightarrow>
                        (case noise_seal lib (drop SV2_FRAME_HEADER_SIZE frame) c1 t1 of
                           (None, c2, t2) \<Rightarrow> (- 1, c2, t2)
                         | (Some enc_payload, c2, t2) \<Rightarrow>
                             (case noise_send_all (enc_hdr @ enc_payload) t2 of (ret, t3) \<Rightarrow> (ret, c2, t3)))))"

definition noise_open :: "noise_lib \<Rightarrow> bytes \<Rightarrow> noise_ctx \<Rightarrow> bytes option \<times> noise_ctx" where
  "noise_open lib sealed c =
     (noise_decrypt lib (recv_key c) (recv_nonce c) [] sealed, c\<lparr>recv_nonce := recv_nonce c + 1\<rparr>)"

text \<open>\<open>Some (header, payload)\<close> is the return value 0, \<open>None\<close> the value -1.\<close>

definition sv2_noise_recv ::
  "noise_lib \<Rightarrow> bool \<Rightarrow> int \<Rightarrow> noise_ctx \<Rightarrow> transport \<Rightarrow> (bytes \<times> bytes) option \<times> noise_ctx \<times> transport" where
  "sv2_noise_recv lib malloc_ok max_payload_len c t =
     (if \<not> handshake_complete c then (None, c, t)
      else case noise_recv_exact 22 t of
             (None, t1) \<Rightarrow> (None, c, t1)
           | (Some enc_hdr, t1) \<Rightarrow>
               (case noise_open lib enc_hdr c of
                  (None, c1) \<Rightarrow> (None, c1, t1)
                | (Some hdr, c1) \<Rightarrow>
                    let len = unat (msg_length (sv2_parse_frame_header hdr))
                    in if len = 0 then (Some (hdr, []), c1, t1)
                       else if max_payload_len < int len then (None, c1, t1)
                       else if \<not> malloc_ok then (None, c1, t1)
                       else (case noise_recv_exact (len + 16) t1 of
                               (None, t2) \<Rightarrow> (None, c1, t2)
                             | (Some enc_payload, t2) \<Rightarrow>
                                 (case noise_open lib enc_payload c1 of
                                    (None, c2) \<Rightarrow> (None, c2, t2)
                                  | (Some payload, c2) \<Rightarrow> (Some (hdr, payload), c2, t2)))))"

section \<open>Reading and sealing\<close>

lemma read_loop_delivers:
  assumes "\<forall>k\<in>set ks. 0 < k" "n \<le> length ks" "n \<le> length r"
  shows "\<exists>ks'. read_loop n ks r = (Some (take n r), ks', drop n r) \<and> set ks' \<subseteq> set ks \<and> length ks \<le> length ks' + n"
  using assms
proof (induction n ks r rule: read_loop.induct)
  case (1 n r)
  then show ?case by simp
next
  case (2 n k ks r)
  show ?case
  proof (cases "n = 0")
    case True
    then show ?thesis by auto
  next
    case False
    define got where "got = min (min k (int (length r))) (int n)"
    have got: "0 < got" "nat got \<le> n" "nat got \<le> length r" "0 < nat got" using "2.prems" False by (auto simp: got_def)
    have "\<exists>ks'. read_loop (n - nat got) ks (drop (nat got) r) =
        (Some (take (n - nat got) (drop (nat got) r)), ks', drop (n - nat got) (drop (nat got) r)) \<and>
        set ks' \<subseteq> set ks \<and> length ks \<le> length ks' + (n - nat got)"
      using "2.IH" [OF False got_def] got "2.prems" by auto
    then obtain ks' where IH: "read_loop (n - nat got) ks (drop (nat got) r) =
        (Some (take (n - nat got) (drop (nat got) r)), ks', drop (n - nat got) (drop (nat got) r))"
        "set ks' \<subseteq> set ks" "length ks \<le> length ks' + (n - nat got)"
      by blast
    have "take (nat got) r @ take (n - nat got) (drop (nat got) r) = take n r"
      using got by (metis le_add_diff_inverse take_add)
    moreover have "drop (n - nat got) (drop (nat got) r) = drop n r" using got by simp
    ultimately have "read_loop n (k # ks) r = (Some (take n r), ks', drop n r)"
      using IH False got unfolding read_loop.simps got_def [symmetric] Let_def
      by (simp only: if_False not_le [symmetric] split_conv option.map)
    then show ?thesis using IH got by (intro exI [of _ ks']) auto
  qed
qed

definition reads_fine :: "nat \<Rightarrow> transport \<Rightarrow> bool" where
  "reads_fine n t \<longleftrightarrow> (\<forall>k\<in>set (read_sizes t). 0 < k) \<and> n \<le> length (read_sizes t)"

lemma recv_exact_delivers:
  assumes "reads_fine (n + m) t" "rx t = xs @ rest" "length xs = n"
  obtains t' where "noise_recv_exact n t = (Some xs, t')" "rx t' = rest" "reads_fine m t'" "tx t' = tx t" "seals t' = seals t"
    "write_results t' = write_results t"
proof -
  obtain ks' where k: "read_loop n (read_sizes t) (rx t) = (Some (take n (rx t)), ks', drop n (rx t))"
      "set ks' \<subseteq> set (read_sizes t)" "length (read_sizes t) \<le> length ks' + n"
    using read_loop_delivers [of "read_sizes t" n "rx t"] assms by (auto simp: reads_fine_def)
  then have "noise_recv_exact n t = (Some xs, t\<lparr>read_sizes := ks', rx := rest\<rparr>)"
    using assms by (simp add: noise_recv_exact_def)
  then show thesis using k assms
    by (intro that [of "t\<lparr>read_sizes := ks', rx := rest\<rparr>"]) (auto simp: reads_fine_def)
qed

text \<open>What the cipher promises: a tag of 16 bytes, no growth, and the text back under the same key, nonce and data.\<close>

definition aead_laws :: "noise_lib \<Rightarrow> bool" where
  "aead_laws lib \<longleftrightarrow> (\<forall>key nonce aad p c tag. encrypt_and_tag lib key nonce aad p = Some (c, tag) \<longrightarrow>
     length c = length p \<and> length tag = 16 \<and> auth_decrypt lib key nonce aad tag c = Some p)"

lemma noise_decrypt_encrypt:
  assumes "aead_laws lib" "noise_encrypt lib key n aad p = Some e"
  shows "length e = length p + 16" "noise_decrypt lib key n aad e = Some p"
proof -
  obtain c tag where "encrypt_and_tag lib key (build_nonce n) aad p = Some (c, tag)" "e = c @ tag"
    using assms(2) by (auto simp: noise_encrypt_def)
  moreover from this have "length c = length p" "length tag = 16" "auth_decrypt lib key (build_nonce n) aad tag c = Some p"
    using assms(1) by (auto simp: aead_laws_def)
  ultimately show "length e = length p + 16" "noise_decrypt lib key n aad e = Some p"
    by (simp_all add: noise_decrypt_def)
qed

lemma build_nonce_inj: "build_nonce a = build_nonce b \<longleftrightarrow> a = b"
proof
  assume "build_nonce a = build_nonce b"
  then have "le_bytes 8 a = le_bytes 8 b" by (simp add: build_nonce_def le_bytes_def mult.commute)
  then have "(le_word (le_bytes 8 a) :: u64) = le_word (le_bytes 8 b)" by simp
  then show "a = b" using le_word_le_bytes [of 8 a] le_word_le_bytes [of 8 b] by simp
qed simp

section \<open>Frames over the wire\<close>

definition frame_well_formed :: "int \<Rightarrow> bytes \<Rightarrow> bool" where
  "frame_well_formed max_payload_len f \<longleftrightarrow> SV2_FRAME_HEADER_SIZE \<le> length f \<and>
     unat (msg_length (sv2_parse_frame_header (take SV2_FRAME_HEADER_SIZE f))) = length f - SV2_FRAME_HEADER_SIZE \<and>
     int (length f - SV2_FRAME_HEADER_SIZE) \<le> max_payload_len"

text \<open>Both ends hold the same key for a direction and stand at the same counter.\<close>

definition in_step :: "noise_ctx \<Rightarrow> noise_ctx \<Rightarrow> bool" where
  "in_step cs cr \<longleftrightarrow> handshake_complete cs \<and> handshake_complete cr \<and> send_key cs = recv_key cr \<and> send_nonce cs = recv_nonce cr"

fun send_frames :: "noise_lib \<Rightarrow> bytes list \<Rightarrow> noise_ctx \<Rightarrow> transport \<Rightarrow> bool \<times> noise_ctx \<times> transport" where
  "send_frames lib [] c t = (True, c, t)"
| "send_frames lib (f # fs) c t =
     (case sv2_noise_send lib True f c t of (ret, c1, t1) \<Rightarrow> if ret \<noteq> 0 then (False, c1, t1) else send_frames lib fs c1 t1)"

fun recv_frames ::
  "noise_lib \<Rightarrow> int \<Rightarrow> nat \<Rightarrow> noise_ctx \<Rightarrow> transport \<Rightarrow> (bytes \<times> bytes) list option \<times> noise_ctx \<times> transport" where
  "recv_frames lib mx 0 c t = (Some [], c, t)"
| "recv_frames lib mx (Suc n) c t =
     (case sv2_noise_recv lib True mx c t of
        (None, c1, t1) \<Rightarrow> (None, c1, t1)
      | (Some f, c1, t1) \<Rightarrow> (case recv_frames lib mx n c1 t1 of (fs, c2, t2) \<Rightarrow> (map_option ((#) f) fs, c2, t2)))"

definition frame_parts :: "bytes \<Rightarrow> bytes \<times> bytes" where
  "frame_parts f = (take SV2_FRAME_HEADER_SIZE f, drop SV2_FRAME_HEADER_SIZE f)"

definition wide_writes :: "nat \<Rightarrow> transport \<Rightarrow> bool" where
  "wide_writes n t \<longleftrightarrow> (\<forall>w\<in>set (write_results t). int n \<le> w)"

lemma send_all_whole:
  assumes "noise_send_all buf t = (0, t')" "wide_writes n t" "length buf \<le> n"
  shows "tx t' = tx t @ buf" "wide_writes n t'" "seals t' = seals t"
  using assms by (auto simp: noise_send_all_def wide_writes_def Let_def split: list.splits if_splits)

definition sealed_frame :: "noise_lib \<Rightarrow> bytes \<Rightarrow> u64 \<Rightarrow> bytes \<Rightarrow> bytes \<Rightarrow> bool" where
  "sealed_frame lib key n f w \<longleftrightarrow>
     (if length f = SV2_FRAME_HEADER_SIZE then noise_encrypt lib key n [] f = Some w
      else \<exists>e1 e2. noise_encrypt lib key n [] (take SV2_FRAME_HEADER_SIZE f) = Some e1 \<and>
             noise_encrypt lib key (n + 1) [] (drop SV2_FRAME_HEADER_SIZE f) = Some e2 \<and> w = e1 @ e2)"

definition nonces_of :: "bytes \<Rightarrow> u64" where
  "nonces_of f = (if length f = SV2_FRAME_HEADER_SIZE then 1 else 2)"

lemma sent_frame:
  assumes "sv2_noise_send lib m f c t = (0, c', t')" "aead_laws lib" "wide_writes (length f + 38) t"
  obtains w where "sealed_frame lib (send_key c) (send_nonce c) f w" "tx t' = tx t @ w" "wide_writes (length f + 38) t'"
    "c' = c\<lparr>send_nonce := send_nonce c + nonces_of f\<rparr>" "handshake_complete c" "SV2_FRAME_HEADER_SIZE \<le> length f"
proof -
  have hc: "handshake_complete c" "SV2_FRAME_HEADER_SIZE \<le> length f"
    using assms(1) by (auto simp: sv2_noise_send_def split: if_splits)
  show thesis
  proof (cases "length f = SV2_FRAME_HEADER_SIZE")
    case True
    then obtain e where e: "noise_encrypt lib (send_key c) (send_nonce c) [] f = Some e"
        "noise_send_all e (t\<lparr>seals := seals t @ [(send_key c, build_nonce (send_nonce c), f)]\<rparr>) = (0, t')"
        "c' = c\<lparr>send_nonce := send_nonce c + 1\<rparr>"
      using assms(1) hc by (auto simp: sv2_noise_send_def noise_seal_def split: option.splits prod.splits)
    have "length e = length f + 16" using noise_decrypt_encrypt(1) [OF assms(2) e(1)] .
    then have "tx t' = tx t @ e" "wide_writes (length f + 38) t'"
      using send_all_whole [OF e(2), of "length f + 38"] assms(3) by (auto simp: wide_writes_def)
    then show thesis using e True hc by (intro that [of e]) (auto simp: sealed_frame_def nonces_of_def)
  next
    case False
    then have len: "length f - SV2_FRAME_HEADER_SIZE \<noteq> 0" using hc by simp
    let ?t = "t\<lparr>seals := seals t @ [(send_key c, build_nonce (send_nonce c), take SV2_FRAME_HEADER_SIZE f),
      (send_key c, build_nonce (send_nonce c + 1), drop SV2_FRAME_HEADER_SIZE f)]\<rparr>"
    obtain e1 e2 where e: "noise_encrypt lib (send_key c) (send_nonce c) [] (take SV2_FRAME_HEADER_SIZE f) = Some e1"
        "noise_encrypt lib (send_key c) (send_nonce c + 1) [] (drop SV2_FRAME_HEADER_SIZE f) = Some e2"
        "noise_send_all (e1 @ e2) ?t = (0, t')" "c' = c\<lparr>send_nonce := send_nonce c + 2\<rparr>"
      using assms(1) hc len by (auto simp: sv2_noise_send_def noise_seal_def split: option.splits prod.splits if_splits)
    have "length e1 = SV2_FRAME_HEADER_SIZE + 16" "length e2 = length f - SV2_FRAME_HEADER_SIZE + 16"
      using noise_decrypt_encrypt(1) [OF assms(2) e(1)] noise_decrypt_encrypt(1) [OF assms(2) e(2)] hc by simp_all
    then have "tx t' = tx t @ e1 @ e2" "wide_writes (length f + 38) t'"
      using send_all_whole [OF e(3), of "length f + 38"] assms(3) hc by (auto simp: wide_writes_def)
    then show thesis using e False hc by (intro that [of "e1 @ e2"]) (auto simp: sealed_frame_def nonces_of_def)
  qed
qed

lemma recv_frame:
  assumes "aead_laws lib" "sealed_frame lib (recv_key c) (recv_nonce c) f w" "frame_well_formed mx f" "handshake_complete c"
    "rx t = w @ rest" "reads_fine (length w + m) t"
  obtains t' where "sv2_noise_recv lib True mx c t = (Some (frame_parts f), c\<lparr>recv_nonce := recv_nonce c + nonces_of f\<rparr>, t')"
    "rx t' = rest" "reads_fine m t'"
proof (cases "length f = SV2_FRAME_HEADER_SIZE")
  case True
  then have e: "noise_encrypt lib (recv_key c) (recv_nonce c) [] f = Some w" using assms(2) by (simp add: sealed_frame_def)
  note d = noise_decrypt_encrypt [OF assms(1) e]
  have w: "length w = 22" using d True by (simp add: SV2_FRAME_HEADER_SIZE_def)
  obtain t' where t': "noise_recv_exact 22 t = (Some w, t')" "rx t' = rest" "reads_fine m t'"
    using recv_exact_delivers [of 22 m t w rest] assms w by auto
  show thesis
    using d t' assms True
    by (intro that [of t']) (auto simp: sv2_noise_recv_def noise_open_def frame_well_formed_def frame_parts_def nonces_of_def)
next
  case False
  have h: "SV2_FRAME_HEADER_SIZE \<le> length f" using assms(3) by (simp add: frame_well_formed_def)
  obtain e1 e2 where e: "noise_encrypt lib (recv_key c) (recv_nonce c) [] (take SV2_FRAME_HEADER_SIZE f) = Some e1"
      "noise_encrypt lib (recv_key c) (recv_nonce c + 1) [] (drop SV2_FRAME_HEADER_SIZE f) = Some e2" "w = e1 @ e2"
    using assms(2) False by (auto simp: sealed_frame_def)
  note d1 = noise_decrypt_encrypt [OF assms(1) e(1)] and d2 = noise_decrypt_encrypt [OF assms(1) e(2)]
  have l1: "length e1 = 22" using d1 h by (simp add: SV2_FRAME_HEADER_SIZE_def)
  obtain t1 where t1: "noise_recv_exact 22 t = (Some e1, t1)" "rx t1 = e2 @ rest" "reads_fine (length e2 + m) t1"
    using recv_exact_delivers [of 22 "length e2 + m" t e1 "e2 @ rest"] assms e l1 by (auto simp: add.assoc)
  obtain t2 where t2: "noise_recv_exact (length e2) t1 = (Some e2, t2)" "rx t2 = rest" "reads_fine m t2"
    using recv_exact_delivers [of "length e2" m t1 e2 rest] t1 by auto
  have len: "unat (msg_length (sv2_parse_frame_header (take SV2_FRAME_HEADER_SIZE f))) + 16 = length e2"
      "unat (msg_length (sv2_parse_frame_header (take SV2_FRAME_HEADER_SIZE f))) \<noteq> 0"
      "\<not> mx < int (unat (msg_length (sv2_parse_frame_header (take SV2_FRAME_HEADER_SIZE f))))"
    using assms(3) d2(1) False h by (auto simp: frame_well_formed_def)
  have "sv2_noise_recv lib True mx c t = (Some (frame_parts f), c\<lparr>recv_nonce := recv_nonce c + nonces_of f\<rparr>, t2)"
    using t1(1) t2(1) d1(2) d2(2) len assms(4) False
    by (simp add: sv2_noise_recv_def noise_open_def frame_parts_def nonces_of_def Let_def)
  then show thesis using t2 by (intro that [of t2])
qed

lemma send_effect:
  assumes "sv2_noise_send lib m f c t = (r, c', t')"
  shows "\<exists>z k. tx t' = tx t @ z \<and> write_results t' = drop k (write_results t)"
proof -
  have "write_results t' = drop 0 (write_results t) \<or> write_results t' = drop 1 (write_results t)"
    using assms by (auto simp: sv2_noise_send_def noise_seal_def noise_send_all_def Let_def split: if_splits option.splits prod.splits)
  moreover have "\<exists>z. tx t' = tx t @ z"
    using assms by (auto simp: sv2_noise_send_def noise_seal_def noise_send_all_def Let_def split: if_splits option.splits prod.splits)
  ultimately show ?thesis by blast
qed

lemma send_frames_effect:
  assumes "send_frames lib fs c t = (b, c', t')"
  shows "\<exists>z. tx t' = tx t @ z"
  using assms
proof (induction fs arbitrary: c t)
  case (Cons f fs)
  obtain r c2 t2 where f: "sv2_noise_send lib True f c t = (r, c2, t2)" by (metis prod_cases3)
  then obtain z where "tx t2 = tx t @ z" using send_effect by blast
  moreover have "\<exists>z. tx t' = tx t2 @ z" using Cons f by (auto split: if_splits)
  ultimately show ?case by auto
qed simp

lemma frames_delivered:
  assumes "aead_laws lib" "send_frames lib fs cs ts = (True, cs', ts')" "in_step cs cr" "\<forall>f\<in>set fs. frame_well_formed mx f"
    "\<forall>f\<in>set fs. wide_writes (length f + 38) ts" "tx ts' = tx ts @ wire" "rx tr = wire @ rest" "reads_fine (length wire + m) tr"
  shows "\<exists>cr' tr'. recv_frames lib mx (length fs) cr tr = (Some (map frame_parts fs), cr', tr') \<and> in_step cs' cr' \<and>
    rx tr' = rest \<and> reads_fine m tr'"
  using assms
proof (induction fs arbitrary: cs ts cr tr wire)
  case Nil
  then show ?case by auto
next
  case (Cons f fs)
  obtain c1 t1 where s1: "sv2_noise_send lib True f cs ts = (0, c1, t1)" and sn: "send_frames lib fs c1 t1 = (True, cs', ts')"
    using Cons.prems(2) by (auto split: prod.splits if_splits)
  obtain w where w: "sealed_frame lib (send_key cs) (send_nonce cs) f w" "tx t1 = tx ts @ w"
      "c1 = cs\<lparr>send_nonce := send_nonce cs + nonces_of f\<rparr>"
    using sent_frame [OF s1] Cons.prems by auto
  obtain k where "write_results t1 = drop k (write_results ts)" using send_effect [OF s1] by blast
  then have wide: "\<forall>f\<in>set fs. wide_writes (length f + 38) t1"
    using Cons.prems(5) by (auto simp: wide_writes_def dest: in_set_dropD)
  obtain z where z: "tx ts' = tx t1 @ z" using send_frames_effect [OF sn] by blast
  have wire: "wire = w @ z" using w(2) z Cons.prems(6) by simp
  obtain tr1 where r1: "sv2_noise_recv lib True mx cr tr = (Some (frame_parts f), cr\<lparr>recv_nonce := recv_nonce cr + nonces_of f\<rparr>, tr1)"
      "rx tr1 = z @ rest" "reads_fine (length z + m) tr1"
    using recv_frame [of lib cr f w mx tr "z @ rest" "length z + m"] Cons.prems w wire by (auto simp: in_step_def add.assoc)
  have st: "in_step c1 (cr\<lparr>recv_nonce := recv_nonce cr + nonces_of f\<rparr>)" using Cons.prems(3) w(3) by (simp add: in_step_def)
  then obtain cr' tr' where "recv_frames lib mx (length fs) (cr\<lparr>recv_nonce := recv_nonce cr + nonces_of f\<rparr>) tr1 =
      (Some (map frame_parts fs), cr', tr')" "in_step cs' cr'" "rx tr' = rest" "reads_fine m tr'"
    using Cons.IH [OF Cons.prems(1) sn st _ wide z r1(2,3)] Cons.prems(4) by (auto simp del: recv_frames.simps)
  then show ?case using r1 by auto
qed

text \<open>
  C11. Frames sent one after the other over the encrypted channel come out at the other end as they went in, header
  and payload, in the same order, with both counters still in step, however the transport cuts the bytes into
  reads: for a cipher that gives back what it sealed, equal keys and counters at the start, frames whose header
  names their length within what the receiver takes, writes that take a whole frame, and every send answering 0.
\<close>

theorem frames_cross_the_wire:
  assumes "aead_laws lib" "send_frames lib fs cs ts = (True, cs', ts')" "in_step cs cr" "\<forall>f\<in>set fs. frame_well_formed mx f"
    "\<forall>f\<in>set fs. wide_writes (length f + 38) ts" "tx ts' = tx ts @ wire" "rx tr = wire @ rest" "reads_fine (length wire) tr"
  shows "\<exists>cr' tr'. recv_frames lib mx (length fs) cr tr = (Some (map frame_parts fs), cr', tr') \<and> in_step cs' cr' \<and> rx tr' = rest"
  using frames_delivered [OF assms(1-7), of 0] assms(8) by auto

text \<open>A toy library: the tag says which key, nonce and data a text was sealed with; the hash of the name is the expected one.\<close>

definition toy_tag :: "bytes \<Rightarrow> bytes \<Rightarrow> bytes \<Rightarrow> bytes" where
  "toy_tag key nonce aad = [hd (key @ [0]), hd (aad @ [0])] @ replicate 6 0 @ take 8 (drop 4 nonce @ replicate 8 0)"

definition toy_lib :: noise_lib where
  "toy_lib = \<lparr>sha256 = (\<lambda>d. if d = NOISE_PROTOCOL_NAME then expected_h else take 32 (d @ replicate 32 0)),
     md_hmac = (\<lambda>key d. take 32 (last (0 # d) # key @ replicate 32 0)),
     encrypt_and_tag = (\<lambda>key nonce aad p. Some (p, toy_tag key nonce aad)),
     auth_decrypt = (\<lambda>key nonce aad tag c. if tag = toy_tag key nonce aad then Some c else None),
     ellswift_create = (\<lambda>sk aux. Some (take 64 (sk @ replicate 64 7))),
     ellswift_xdh = (\<lambda>a b sk party. Some (map2 (XOR) (take 32 a) (take 32 b))),
     ellswift_decode = (\<lambda>e. e), xonly_pubkey = (\<lambda>p. Some (take 32 p)), xonly_parse = (\<lambda>k. Some k),
     schnorrsig_verify = (\<lambda>sig h k. sig = take 64 (k @ replicate 64 0))\<rparr>"

lemma toy_aead: "aead_laws toy_lib"
  by (auto simp: aead_laws_def toy_lib_def toy_tag_def)

definition toy_channel :: noise_ctx where
  "toy_channel = zero_ctx\<lparr>handshake_complete := True, send_key := replicate 32 5, recv_key := replicate 32 5, send_nonce := -1, recv_nonce := -1\<rparr>"

definition toy_transport :: "bytes \<Rightarrow> transport" where
  "toy_transport r = \<lparr>rx = r, read_sizes = replicate 300 3, tx = [], write_results = [1000, 1000], seals = []\<rparr>"

theorem frames_cross_the_wire_witness:
  "\<exists>cr' tr'. recv_frames toy_lib 100 2 toy_channel
       (toy_transport (tx (snd (snd (send_frames toy_lib [[0, 0, 0x15, 2, 0, 0, 9, 8], [0, 0, 3, 0, 0, 0]] toy_channel (toy_transport []))))
          @ [4, 4])) =
     (Some [([0, 0, 0x15, 2, 0, 0], [9, 8]), ([0, 0, 3, 0, 0, 0], [])], cr', tr') \<and> rx tr' = [4, 4]"
proof -
  let ?fs = "[[0, 0, 0x15, 2, 0, 0, 9, 8], [0, 0, 3, 0, 0, 0]] :: bytes list"
  obtain b cs' ts' where s: "send_frames toy_lib ?fs toy_channel (toy_transport []) = (b, cs', ts')" by (metis prod_cases3)
  have "fst (send_frames toy_lib ?fs toy_channel (toy_transport []))" by code_simp
  with s have b: "b = True" by simp
  have "tx (snd (snd (send_frames toy_lib ?fs toy_channel (toy_transport [])))) = tx ts'" using s by simp
  moreover have "length (tx (snd (snd (send_frames toy_lib ?fs toy_channel (toy_transport []))))) \<le> 200" by code_simp
  moreover have "frame_well_formed 100 [0, 0, 0x15, 2, 0, 0, 9, 8]" "frame_well_formed 100 [0, 0, 3, 0, 0, 0]" by code_simp+
  ultimately have "\<exists>cr' tr'. recv_frames toy_lib 100 (length ?fs) toy_channel (toy_transport (tx ts' @ [4, 4])) =
      (Some (map frame_parts ?fs), cr', tr') \<and> in_step cs' cr' \<and> rx tr' = [4, 4]"
    using s b toy_aead
    by (intro frames_cross_the_wire [where ts = "toy_transport []" and wire = "tx ts'"])
      (auto simp: in_step_def toy_channel_def toy_transport_def wide_writes_def reads_fine_def simp del: send_frames.simps)
  then show ?thesis using s by (simp add: frame_parts_def SV2_FRAME_HEADER_SIZE_def numeral_2_eq_2 del: recv_frames.simps send_frames.simps) blast
qed

text \<open>A write that takes only a part of a frame counts as a success, and the counter has moved on.\<close>

lemma short_write_is_success:
  assumes "handshake_complete c" "length f = SV2_FRAME_HEADER_SIZE" "noise_encrypt lib (send_key c) (send_nonce c) [] f = Some e"
    "write_results t = k # ks" "0 \<le> k" "k < int (length e)"
  shows "\<exists>c' t'. sv2_noise_send lib m f c t = (0, c', t') \<and> tx t' = tx t @ take (nat k) e \<and> send_nonce c' = send_nonce c + 1"
  using assms by (simp add: sv2_noise_send_def noise_seal_def noise_send_all_def min_def)

section \<open>Counters\<close>

fun send_attempts :: "noise_lib \<Rightarrow> (bool \<times> bytes) list \<Rightarrow> noise_ctx \<Rightarrow> transport \<Rightarrow> noise_ctx \<times> transport" where
  "send_attempts lib [] c t = (c, t)"
| "send_attempts lib ((malloc_ok, f) # fs) c t =
     (case sv2_noise_send lib malloc_ok f c t of (ret, c1, t1) \<Rightarrow> send_attempts lib fs c1 t1)"

definition seal_ids :: "transport \<Rightarrow> (bytes \<times> bytes) list" where
  "seal_ids t = map (\<lambda>(key, nonce, text). (key, nonce)) (seals t)"

text \<open>\<open>n\<close> calls of the cipher lie between the two states, numbered from the counter of the first.\<close>

definition counted :: "nat \<Rightarrow> noise_ctx \<Rightarrow> transport \<Rightarrow> noise_ctx \<Rightarrow> transport \<Rightarrow> bool" where
  "counted n c t c' t' \<longleftrightarrow> send_key c' = send_key c \<and> handshake_complete c' = handshake_complete c \<and>
     send_nonce c' = send_nonce c + of_nat n \<and>
     seal_ids t' = seal_ids t @ map (\<lambda>i. (send_key c, build_nonce (send_nonce c + of_nat i))) [0..<n]"

lemma counted_refl: "counted 0 c t c t" by (simp add: counted_def)

lemma counted_trans: "counted n c t c1 t1 \<Longrightarrow> counted m c1 t1 c2 t2 \<Longrightarrow> counted (n + m) c t c2 t2"
proof -
  assume a: "counted n c t c1 t1" "counted m c1 t1 c2 t2"
  have "map (\<lambda>i. (send_key c, build_nonce (send_nonce c + of_nat i))) [n..<n + m] =
      map (\<lambda>i. (send_key c, build_nonce (send_nonce c + of_nat n + of_nat i))) [0..<m]"
    by (rule nth_equalityI) (simp_all add: add.assoc)
  then have "map (\<lambda>i. (send_key c, build_nonce (send_nonce c + of_nat i))) [0..<n + m] =
      map (\<lambda>i. (send_key c, build_nonce (send_nonce c + of_nat i))) [0..<n] @
      map (\<lambda>i. (send_key c, build_nonce (send_nonce c + of_nat n + of_nat i))) [0..<m]"
    by (simp only: upt_add_eq_append [OF le0] map_append)
  with a show ?thesis unfolding counted_def by (simp only: append_assoc of_nat_add add.assoc simp_thms)
qed

lemma counted_seal: "noise_seal lib p c t = (e, c', t') \<Longrightarrow> counted 1 c t c' t'"
  by (auto simp: noise_seal_def counted_def seal_ids_def)

lemma counted_write: "counted n c t c' t1 \<Longrightarrow> noise_send_all b t1 = (r, t') \<Longrightarrow> counted n c t c' t'"
  by (auto simp: noise_send_all_def counted_def seal_ids_def Let_def)

lemma counted_send:
  assumes "sv2_noise_send lib m f c t = (r, c', t')"
  shows "\<exists>n \<le> 2. counted n c t c' t'"
proof (cases "\<not> handshake_complete c \<or> length f < SV2_FRAME_HEADER_SIZE")
  case True
  then show ?thesis using assms counted_refl by (auto simp: sv2_noise_send_def)
next
  case go: False
  obtain e1 c1 t1 where s1: "noise_seal lib (take SV2_FRAME_HEADER_SIZE f) c t = (e1, c1, t1)" by (metis prod_cases3)
  obtain e2 c2 t2 where s2: "noise_seal lib (drop SV2_FRAME_HEADER_SIZE f) c1 t1 = (e2, c2, t2)" by (metis prod_cases3)
  have n1: "counted 1 c t c1 t1" and n2: "counted (1 + 1) c t c2 t2"
    using counted_seal [OF s1] counted_seal [OF s2] counted_trans by blast+
  have "(c' = c \<and> t' = t) \<or> (c' = c1 \<and> (t' = t1 \<or> (\<exists>b r. noise_send_all b t1 = (r, t')))) \<or>
      (c' = c2 \<and> (t' = t2 \<or> (\<exists>b r. noise_send_all b t2 = (r, t'))))"
    using assms go s1 s2 by (auto simp: sv2_noise_send_def Let_def split: if_splits option.splits prod.splits)
  then consider "c' = c \<and> t' = t" | "counted 1 c t c' t'" | "counted (1 + 1) c t c' t'"
    using n1 n2 counted_write by blast
  then show ?thesis
  proof cases
    case 1
    then show ?thesis using counted_refl by blast
  qed (auto simp: numeral_2_eq_2)
qed

lemma counted_attempts:
  "send_attempts lib fs c t = (c', t') \<Longrightarrow> \<exists>n \<le> 2 * length fs. counted n c t c' t'"
proof (induction fs arbitrary: c t)
  case Nil
  then show ?case using counted_refl by auto
next
  case (Cons a fs)
  obtain m f r c1 t1 where a: "a = (m, f)" "sv2_noise_send lib m f c t = (r, c1, t1)" by (metis prod_cases3 surj_pair)
  then have "send_attempts lib fs c1 t1 = (c', t')" using Cons.prems by simp
  then obtain n2 where "n2 \<le> 2 * length fs" "counted n2 c1 t1 c' t'" using Cons.IH by blast
  moreover obtain n1 where "n1 \<le> 2" "counted n1 c t c1 t1" using counted_send [OF a(2)] by blast
  ultimately show ?case by (intro exI [of _ "n1 + n2"]) (auto intro: counted_trans)
qed

lemma unsealed_before_handshake:
  "send_attempts lib fs c t = (c', t') \<Longrightarrow> \<not> handshake_complete c \<Longrightarrow> c' = c \<and> t' = t"
  by (induction fs) (auto simp: sv2_noise_send_def)

text \<open>
  C25. Whatever frames are tried, with memory or without, with a network that takes all, part or nothing of them,
  the cipher of a connection is never used twice with the same key and nonce (for up to 2 to the 63 frames after
  the handshake), and before the handshake nothing is sealed or written at all.
\<close>

theorem nonces_used_once:
  assumes "send_attempts lib fs c t = (c', t')" "seals t = []" "2 * length fs \<le> 2 ^ 64"
  shows "distinct (seal_ids t') \<and> (\<forall>(key, nonce) \<in> set (seal_ids t'). key = send_key c) \<and>
    (handshake_complete c \<or> tx t' = tx t \<and> seals t' = [])"
proof -
  obtain n where n: "n \<le> 2 * length fs" "counted n c t c' t'" using counted_attempts [OF assms(1)] by blast
  have "seal_ids t = []" using assms(2) by (simp add: seal_ids_def)
  then have ids: "seal_ids t' = map (\<lambda>i. (send_key c, build_nonce (send_nonce c + of_nat i))) [0..<n]"
    using n(2) by (simp add: counted_def)
  have "inj_on (\<lambda>i. (send_key c, build_nonce (send_nonce c + of_nat i))) {0..<n}"
  proof (rule inj_onI)
    fix i j assume ij: "i \<in> {0..<n}" "j \<in> {0..<n}"
      "(send_key c, build_nonce (send_nonce c + of_nat i)) = (send_key c, build_nonce (send_nonce c + of_nat j))"
    then have "(of_nat i :: u64) = of_nat j" by (simp add: build_nonce_inj)
    moreover have low: "k < 2 ^ 64 \<Longrightarrow> unat (of_nat k :: u64) = k" for k
      by (simp add: unsigned_of_nat take_bit_nat_eq_self)
    moreover have "i < 2 ^ 64" "j < 2 ^ 64" using ij n(1) assms(3) by auto
    ultimately show "i = j" using low by metis
  qed
  then show ?thesis using ids unsealed_before_handshake [OF assms(1)] assms(2) by (auto simp: distinct_map)
qed

theorem nonces_used_once_witness:
  "distinct (seal_ids (snd (send_attempts toy_lib [(True, [0, 0, 1, 1, 0, 0, 9]), (False, [0, 0, 1, 1, 0, 0, 9]), (True, [0, 0, 3, 0, 0, 0])]
      toy_channel (toy_transport []))))"
proof -
  let ?fs = "[(True, [0, 0, 1, 1, 0, 0, 9]), (False, [0, 0, 1, 1, 0, 0, 9]), (True, [0, 0, 3, 0, 0, 0])] :: (bool \<times> bytes) list"
  obtain c' t' where s: "send_attempts toy_lib ?fs toy_channel (toy_transport []) = (c', t')" by (metis surj_pair)
  have "distinct (seal_ids t')"
    using nonces_used_once [OF s] by (simp add: toy_transport_def)
  then show ?thesis using s by (simp del: send_attempts.simps)
qed

section \<open>What the handshake agrees on\<close>

text \<open>
  The other party, written from the specification of the handshake: it holds an ephemeral and a static secret and
  a certificate, and answers the initiator's ephemeral key. The result is the answer and the keys of the two
  directions, initiator to responder first.
\<close>

definition responder :: "noise_lib \<Rightarrow> bytes \<Rightarrow> bytes \<Rightarrow> bytes \<Rightarrow> bytes \<Rightarrow> bytes \<Rightarrow> bytes \<Rightarrow> (bytes \<times> bytes \<times> bytes) option" where
  "responder lib re_priv re_pub rs_priv rs_pub cert e_pub =
     (let h0 = sha256 lib NOISE_PROTOCOL_NAME; h1 = sha256 lib h0; h2 = sha256 lib (h1 @ e_pub); h3 = sha256 lib h2;
          h4 = sha256 lib (h3 @ re_pub)
      in case ellswift_xdh lib e_pub re_pub re_priv True of
           None \<Rightarrow> None
         | Some shared \<Rightarrow>
             let (ck1, k1) = hkdf2 lib h0 shared
             in case noise_encrypt lib k1 0 h4 rs_pub of
                  None \<Rightarrow> None
                | Some static_ct \<Rightarrow>
                    let h5 = sha256 lib (h4 @ static_ct)
                    in case ellswift_xdh lib e_pub rs_pub rs_priv True of
                         None \<Rightarrow> None
                       | Some shared2 \<Rightarrow>
                           let (ck2, k2) = hkdf2 lib ck1 shared2
                           in case noise_encrypt lib k2 0 h5 cert of
                                None \<Rightarrow> None
                              | Some cert_ct \<Rightarrow> let (k_ir, k_ri) = hkdf2 lib ck2 [] in Some (re_pub @ static_ct @ cert_ct, k_ir, k_ri))"

text \<open>What the curve library promises: encodings of 64 bytes, and the same secret for both parties.\<close>

definition curve_laws :: "noise_lib \<Rightarrow> bool" where
  "curve_laws lib \<longleftrightarrow>
     (\<forall>sk aux e. ellswift_create lib sk aux = Some e \<longrightarrow> length e = 64) \<and>
     (\<forall>sa xa a sb xb b. ellswift_create lib sa xa = Some a \<longrightarrow> ellswift_create lib sb xb = Some b \<longrightarrow>
        ellswift_xdh lib a b sa False = ellswift_xdh lib a b sb True)"

lemma answer_accepted:
  assumes "aead_laws lib" "curve_laws lib" "ellswift_create lib e_sec ex = Some e_pub"
    "ellswift_create lib re_priv rex = Some re_pub" "ellswift_create lib rs_priv rsx = Some rs_pub"
    "responder lib re_priv re_pub rs_priv rs_pub cert e_pub = Some (answer, k_ir, k_ri)" "length cert = 74"
    "certificate_ok lib authority rs_pub cert"
    "hs_h c = sha256 lib (sha256 lib (sha256 lib (sha256 lib NOISE_PROTOCOL_NAME) @ e_pub))"
    "hs_ck c = sha256 lib NOISE_PROTOCOL_NAME" "e_priv c = e_sec" "e_pub_encoded c = e_pub"
  shows "length answer = 234"
    "\<exists>c'. handshake_answer lib authority answer c = (True, c') \<and> send_key c' = k_ir \<and> recv_key c' = k_ri \<and>
       send_nonce c' = 0 \<and> recv_nonce c' = 0 \<and> handshake_complete c' \<and> e_priv c' = replicate 32 0"
proof -
  define h4 where "h4 = sha256 lib (hs_h c @ re_pub)"
  obtain shared where s1: "ellswift_xdh lib e_pub re_pub re_priv True = Some shared"
    using assms(6) by (auto simp: responder_def Let_def split: option.splits)
  obtain ck1 k1 where k1: "hkdf2 lib (hs_ck c) shared = (ck1, k1)" by fastforce
  obtain static_ct where e1: "noise_encrypt lib k1 0 h4 rs_pub = Some static_ct"
    using assms(6,9,10) s1 k1 by (auto simp: responder_def Let_def h4_def split: option.splits)
  obtain shared2 where s2: "ellswift_xdh lib e_pub rs_pub rs_priv True = Some shared2"
    using assms(6,9,10) s1 k1 e1 by (auto simp: responder_def Let_def h4_def split: option.splits)
  obtain ck2 k2 where k2: "hkdf2 lib ck1 shared2 = (ck2, k2)" by fastforce
  define h5 where "h5 = sha256 lib (h4 @ static_ct)"
  obtain cert_ct where e2: "noise_encrypt lib k2 0 h5 cert = Some cert_ct"
    using assms(6,9,10) s1 k1 e1 s2 k2 by (auto simp: responder_def Let_def h4_def h5_def split: option.splits)
  have k3: "hkdf2 lib ck2 [] = (k_ir, k_ri)" and ans: "answer = re_pub @ static_ct @ cert_ct"
    using assms(6,9,10) s1 k1 e1 s2 k2 e2 by (auto simp: responder_def Let_def h4_def h5_def split: prod.splits)
  have len: "length re_pub = 64" "length rs_pub = 64" using assms(2,4,5) by (auto simp: curve_laws_def)
  have lens: "length static_ct = 80" "length cert_ct = 90"
    using noise_decrypt_encrypt(1) [OF assms(1) e1] noise_decrypt_encrypt(1) [OF assms(1) e2] len assms(7) by simp_all
  then show "length answer = 234" using len ans by simp
  have parts: "take 64 answer = re_pub" "slice 64 80 answer = static_ct" "slice 144 90 answer = cert_ct"
    using ans len lens by (simp_all add: slice_def)
  have x: "ellswift_xdh lib e_pub re_pub e_sec False = Some shared" "ellswift_xdh lib e_pub rs_pub e_sec False = Some shared2"
    using assms(2-5) s1 s2 unfolding curve_laws_def by metis+
  note d = noise_decrypt_encrypt(2) [OF assms(1) e1] noise_decrypt_encrypt(2) [OF assms(1) e2]
  let ?c4 = "c\<lparr>hs_h := h5, hs_ck := ck2\<rparr>"
  have "handshake_answer lib authority answer c = (True, key_split lib ?c4)"
    using parts x d k1 k2 assms(8,11,12)
    by (simp add: handshake_answer_def mix_hash_def mix_key_def h4_def [symmetric] h5_def [symmetric])
  then show "\<exists>c'. handshake_answer lib authority answer c = (True, c') \<and> send_key c' = k_ir \<and> recv_key c' = k_ri \<and>
       send_nonce c' = 0 \<and> recv_nonce c' = 0 \<and> handshake_complete c' \<and> e_priv c' = replicate 32 0"
    using k3 by (simp add: key_split_def)
qed

text \<open>
  C21. A pool that answers by the specification of the handshake, with a certificate of 74 bytes that is good for the
  authority's key (or any certificate when no key is given), is accepted: the keys of the two directions are the
  ones the pool derived, both counters start at zero, the ephemeral secret is wiped, exactly the 64 bytes of the
  ephemeral key were sent and exactly the answer was read. The validity dates of the certificate play no part.
\<close>

theorem handshake_agrees:
  assumes "aead_laws lib" "curve_laws lib" "selftest_done \<or> sv2_noise_selftest lib" "sha256 lib NOISE_PROTOCOL_NAME = expected_h"
    "ellswift_create lib random1 (Some random2) = Some e_pub"
    "ellswift_create lib re_priv rex = Some re_pub" "ellswift_create lib rs_priv rsx = Some rs_pub"
    "responder lib re_priv re_pub rs_priv rs_pub cert e_pub = Some (answer, k_ir, k_ri)" "length cert = 74"
    "certificate_ok lib authority rs_pub cert" "rx t = answer @ rest" "reads_fine 234 t" "wide_writes 64 t" "write_results t \<noteq> []"
  shows "\<exists>c' t'. sv2_noise_handshake lib random1 random2 authority selftest_done c t = (0, True, c', t') \<and>
    send_key c' = k_ir \<and> recv_key c' = k_ri \<and> send_nonce c' = 0 \<and> recv_nonce c' = 0 \<and> handshake_complete c' \<and>
    e_priv c' = replicate 32 0 \<and> tx t' = tx t @ e_pub \<and> rx t' = rest"
proof -
  let ?c3 = "handshake_hello lib e_pub ((mix_hash lib [] (handshake_start lib c))\<lparr>e_priv := random1\<rparr>)"
  have c3: "hs_h ?c3 = sha256 lib (sha256 lib (sha256 lib (sha256 lib NOISE_PROTOCOL_NAME) @ e_pub))"
      "hs_ck ?c3 = sha256 lib NOISE_PROTOCOL_NAME" "e_priv ?c3 = random1" "e_pub_encoded ?c3 = e_pub"
    by (simp_all add: handshake_hello_def handshake_start_def mix_hash_def Let_def)
  note acc = answer_accepted [OF assms(1,2,5-10) c3]
  obtain c' where c': "handshake_answer lib authority answer ?c3 = (True, c')" "send_key c' = k_ir" "recv_key c' = k_ri"
      "send_nonce c' = 0" "recv_nonce c' = 0" "handshake_complete c'" "e_priv c' = replicate 32 0"
    using acc(2) by blast
  have e64: "length e_pub = 64" using assms(2,5) by (auto simp: curve_laws_def)
  obtain t1 where w: "noise_send_all e_pub t = (0, t1)" "rx t1 = rx t" "read_sizes t1 = read_sizes t" "tx t1 = tx t @ e_pub"
    using assms(13,14) e64 by (auto simp: noise_send_all_def wide_writes_def Let_def neq_Nil_conv)
  then obtain t2 where r: "noise_recv_exact 234 t1 = (Some answer, t2)" "rx t2 = rest" "tx t2 = tx t1"
    using recv_exact_delivers [of 234 0 t1 answer rest] assms(11,12) acc(1) by (auto simp: reads_fine_def)
  have "sv2_noise_handshake lib random1 random2 authority selftest_done c t = (0, True, c', t2)"
    using assms(3-5) w(1) r(1) c'(1) by (simp add: sv2_noise_handshake_def handshake_start_def Let_def)
  then show ?thesis using c' w r by auto
qed

lemma toy_curve: "curve_laws toy_lib"
  by (auto simp: curve_laws_def toy_lib_def min_def)

definition toy_key :: "u8 \<Rightarrow> bytes" where "toy_key b = take 64 (seckey_ending b @ replicate 64 7)"

text \<open>A certificate whose validity ended with the year 1970 began.\<close>

definition toy_cert :: bytes where
  "toy_cert = write_u16_le 0 @ write_u32_le 0 @ write_u32_le 0 @ take 64 ([1, 2, 3] @ replicate 64 0)"

theorem handshake_agrees_witness:
  "\<exists>answer k_ir k_ri c' t'.
     responder toy_lib (seckey_ending 4) (toy_key 4) (seckey_ending 5) (toy_key 5) toy_cert (toy_key 3) = Some (answer, k_ir, k_ri) \<and>
     sv2_noise_handshake toy_lib (seckey_ending 3) [] (Some [1, 2, 3]) False zero_ctx (toy_transport answer) = (0, True, c', t') \<and>
     send_key c' = k_ir \<and> recv_key c' = k_ri"
proof -
  have "responder toy_lib (seckey_ending 4) (toy_key 4) (seckey_ending 5) (toy_key 5) toy_cert (toy_key 3) \<noteq> None"
    by (simp add: responder_def toy_lib_def noise_encrypt_def hkdf2_def Let_def)
  then obtain answer k_ir k_ri where r:
      "responder toy_lib (seckey_ending 4) (toy_key 4) (seckey_ending 5) (toy_key 5) toy_cert (toy_key 3) = Some (answer, k_ir, k_ri)"
    by (metis not_None_eq prod_cases3)
  have "sv2_noise_selftest toy_lib"
    by (simp add: sv2_noise_selftest_def toy_lib_def)
  moreover have "sha256 toy_lib NOISE_PROTOCOL_NAME = expected_h" by (simp add: toy_lib_def)
  moreover have "ellswift_create toy_lib (seckey_ending b) x = Some (toy_key b)" for b x by (simp add: toy_lib_def toy_key_def)
  moreover have "length toy_cert = 74" by (simp add: toy_cert_def)
  moreover have "certificate_ok toy_lib (Some [1, 2, 3]) (toy_key 5) toy_cert" by code_simp
  ultimately have "\<exists>c' t'. sv2_noise_handshake toy_lib (seckey_ending 3) [] (Some [1, 2, 3]) False zero_ctx (toy_transport answer) =
      (0, True, c', t') \<and> send_key c' = k_ir \<and> recv_key c' = k_ri \<and> send_nonce c' = 0 \<and> recv_nonce c' = 0 \<and>
      handshake_complete c' \<and> e_priv c' = replicate 32 0 \<and> tx t' = tx (toy_transport answer) @ toy_key 3 \<and> rx t' = []"
    by (intro handshake_agrees [OF toy_aead toy_curve _ _ _ _ _ r])
      (auto simp: toy_transport_def reads_fine_def wide_writes_def)
  then show ?thesis using r by blast
qed

lemma read_loop_takes:
  "read_loop n ks r = (Some xs, ks', r') \<Longrightarrow> r = xs @ r' \<and> length xs = n"
proof (induction n ks r arbitrary: xs ks' r' rule: read_loop.induct)
  case (1 n r)
  then show ?case by (auto split: if_splits)
next
  case (2 n k ks r)
  show ?case
  proof (cases "n = 0")
    case True
    then show ?thesis using "2.prems" by auto
  next
    case False
    define got where "got = min (min k (int (length r))) (int n)"
    have pos: "0 < got"
      using "2.prems" False unfolding read_loop.simps got_def [symmetric] Let_def by (auto split: if_splits)
    obtain res k2 r2 where l: "read_loop (n - nat got) ks (drop (nat got) r) = (res, k2, r2)" by (metis prod_cases3)
    then obtain ys where ys: "res = Some ys" "xs = take (nat got) r @ ys" "r' = r2"
      using "2.prems" False pos unfolding read_loop.simps got_def [symmetric] Let_def by auto
    have "drop (nat got) r = ys @ r2 \<and> length ys = n - nat got"
      using "2.IH" [OF False got_def] l ys pos by auto
    moreover have "nat got \<le> n" "nat got \<le> length r" by (auto simp: got_def)
    ultimately show ?thesis using ys by (metis append.assoc append_take_drop_id diff_add_inverse le_add_diff_inverse length_append length_take min.absorb2)
  qed
qed

lemma recv_exact_takes:
  "noise_recv_exact n t = (Some xs, t') \<Longrightarrow> rx t = xs @ rx t' \<and> length xs = n \<and> tx t' = tx t"
  by (auto simp: noise_recv_exact_def dest: read_loop_takes split: prod.splits)

lemma answer_complete: "handshake_answer lib a r c = (False, c') \<Longrightarrow> handshake_complete c' = handshake_complete c"
  by (auto simp: handshake_answer_def mix_key_def mix_hash_def Let_def split: option.splits prod.splits if_splits)

lemma answer_authentic:
  assumes "handshake_answer lib (Some authority) resp c = (True, c')" "length resp = 234"
  shows "\<exists>rs_static sig_msg xonly auth shared2 ck k1 n1 k2 n2.
    noise_decrypt lib k1 0 n1 (slice 64 80 resp) = Some rs_static \<and> noise_decrypt lib k2 0 n2 (slice 144 90 resp) = Some sig_msg \<and>
    ellswift_xdh lib (e_pub_encoded c) rs_static (e_priv c) False = Some shared2 \<and> k2 = snd (hkdf2 lib ck shared2) \<and>
    (send_key c', recv_key c') = hkdf2 lib (fst (hkdf2 lib ck shared2)) [] \<and> handshake_complete c' \<and>
    xonly_pubkey lib (ellswift_decode lib rs_static) = Some xonly \<and> xonly_parse lib authority = Some auth \<and>
    schnorrsig_verify lib (slice 10 64 sig_msg) (sha256 lib (take 10 sig_msg @ xonly)) auth"
proof -
  let ?h = "sha256 lib (hs_h c @ take 64 resp)"
  let ?h2 = "sha256 lib (?h @ slice 64 80 resp)"
  obtain shared ck k1 rs_static shared2 ck2 k2 sig_msg where
      s: "hkdf2 lib (hs_ck c) shared = (ck, k1)" "noise_decrypt lib k1 0 ?h (slice 64 80 resp) = Some rs_static"
         "ellswift_xdh lib (e_pub_encoded c) rs_static (e_priv c) False = Some shared2"
         "hkdf2 lib ck shared2 = (ck2, k2)" "noise_decrypt lib k2 0 ?h2 (slice 144 90 resp) = Some sig_msg"
         "certificate_ok lib (Some authority) rs_static sig_msg" "c' = key_split lib (c\<lparr>hs_h := ?h2, hs_ck := ck2\<rparr>)"
    using assms by (auto simp: handshake_answer_def mix_key_def mix_hash_def Let_def split: option.splits prod.splits if_splits)
  moreover from s(6) obtain xonly auth where
      "xonly_pubkey lib (ellswift_decode lib rs_static) = Some xonly" "xonly_parse lib authority = Some auth"
      "schnorrsig_verify lib (slice 10 64 sig_msg) (sha256 lib (take 10 sig_msg @ xonly)) auth"
    by (auto simp: certificate_ok_def cert_of_def Let_def split: option.splits)
  moreover have "(send_key c', recv_key c') = hkdf2 lib (fst (hkdf2 lib ck shared2)) [] \<and> handshake_complete c'"
    using s(4,7) by (auto simp: key_split_def split: prod.splits)
  moreover have "k2 = snd (hkdf2 lib ck shared2)" using s(4) by simp
  ultimately show ?thesis by blast
qed

text \<open>
  C23. The handshake fails closed: only a return value of 0 changes whether frames may be sent, and with an
  authority's key it is 0 only when the certificate in the answer, opened under a key that rests on the exchange
  with the static key in that answer, carries the authority's signature over its first ten bytes and that static
  key; the keys of both directions rest on the same exchange.
\<close>

theorem handshake_authenticates:
  assumes "sv2_noise_handshake lib random1 random2 (Some authority) selftest_done c t = (ret, flag, c', t')"
  shows "(ret = 0 \<longrightarrow> (\<exists>e_pub resp rs_static sig_msg xonly auth shared2 ck k1 n1 n2.
      ellswift_create lib random1 (Some random2) = Some e_pub \<and> rx t = resp @ rx t' \<and> length resp = 234 \<and>
      noise_decrypt lib k1 0 n1 (slice 64 80 resp) = Some rs_static \<and>
      ellswift_xdh lib e_pub rs_static random1 False = Some shared2 \<and>
      noise_decrypt lib (snd (hkdf2 lib ck shared2)) 0 n2 (slice 144 90 resp) = Some sig_msg \<and>
      (send_key c', recv_key c') = hkdf2 lib (fst (hkdf2 lib ck shared2)) [] \<and>
      xonly_pubkey lib (ellswift_decode lib rs_static) = Some xonly \<and> xonly_parse lib authority = Some auth \<and>
      schnorrsig_verify lib (slice 10 64 sig_msg) (sha256 lib (take 10 sig_msg @ xonly)) auth)) \<and>
    (ret \<noteq> 0 \<longrightarrow> handshake_complete c' = handshake_complete c)"
proof (cases "ret = 0")
  case True
  obtain e_pub c3 resp t1 where
      s: "ellswift_create lib random1 (Some random2) = Some e_pub" "c3 = handshake_hello lib e_pub
        ((mix_hash lib [] (handshake_start lib c))\<lparr>e_priv := random1\<rparr>)" "noise_send_all e_pub t = (0, t1)"
        "noise_recv_exact 234 t1 = (Some resp, t')" "handshake_answer lib (Some authority) resp c3 = (True, c')"
    using assms True by (auto simp: sv2_noise_handshake_def Let_def split: if_splits option.splits prod.splits)
  have "e_pub_encoded c3 = e_pub" "e_priv c3 = random1" using s(2) by (simp_all add: handshake_hello_def mix_hash_def)
  moreover have "rx t = resp @ rx t'" "length resp = 234"
    using recv_exact_takes [OF s(4)] s(3) by (auto simp: noise_send_all_def Let_def)
  ultimately show ?thesis using answer_authentic [OF s(5)] s(1) True by simp blast
next
  case False
  then show ?thesis using assms
    by (auto simp: sv2_noise_handshake_def handshake_start_def handshake_hello_def mix_hash_def Let_def answer_complete
        split: if_splits option.splits prod.splits)
qed

theorem handshake_authenticates_witness:
  "\<exists>sig h. schnorrsig_verify toy_lib sig h [1, 2, 3] \<and>
     fst (sv2_noise_handshake toy_lib (seckey_ending 3) [] (Some [1, 2, 3]) False zero_ctx (toy_transport
       (fst (the (responder toy_lib (seckey_ending 4) (toy_key 4) (seckey_ending 5) (toy_key 5) toy_cert (toy_key 3)))))) = 0"
proof -
  let ?hs = "sv2_noise_handshake toy_lib (seckey_ending 3) [] (Some [1, 2, 3]) False zero_ctx (toy_transport
       (fst (the (responder toy_lib (seckey_ending 4) (toy_key 4) (seckey_ending 5) (toy_key 5) toy_cert (toy_key 3)))))"
  have r: "fst ?hs = 0" by code_simp
  obtain flag c' t' where h: "?hs = (0, flag, c', t')" using r by (metis prod.collapse)
  have "xonly_parse toy_lib [1, 2, 3] = Some [1, 2, 3]" by (simp add: toy_lib_def)
  then show ?thesis using handshake_authenticates [OF h] r by auto
qed

end
