(* ===== verification/Fan_Control.thy ===== *)
theory Fan_Control
  imports Binary_Float
begin

text \<open>
  \<open>main/thermal/PID.c\<close> and \<open>main/tasks/fan_controller_task.c\<close>: the PID controller and the task that drives the fan
  every 100 ms, at full speed in danger, slowly while nothing is mined, by hand or by temperature otherwise. Every
  operation on \<open>float\<close> and \<open>double\<close> is rounded; NaN is not represented. \<open>unsigned long\<close> has 32 bits.
\<close>

section \<open>The PID controller\<close>

datatype PIDDirection = PID_DIRECT | PID_REVERSE
datatype PIDProportionalMode = PID_P_ON_M | PID_P_ON_E

text \<open>\<open>pid_input\<close>, \<open>pid_output\<close> and \<open>pid_setpoint\<close> are the variables the controller points to.\<close>

record PIDController =
  dispKp :: rat
  dispKi :: rat
  dispKd :: rat
  kp :: rat
  ki :: rat
  kd :: rat
  controllerDirection :: PIDDirection
  pOn :: PIDProportionalMode
  pid_input :: rat
  pid_output :: rat
  pid_setpoint :: rat
  lastTime :: u32
  sampleTime :: u32
  outMin :: rat
  outMax :: rat
  inAuto :: bool
  outputSum :: rat
  lastInput :: rat

definition millis :: "int \<Rightarrow> u32" where "millis now_us = word_of_int (now_us div 1000)"

definition clamp_to :: "rat \<Rightarrow> rat \<Rightarrow> rat \<Rightarrow> rat" where
  "clamp_to lo hi x = (if hi < x then hi else if x < lo then lo else x)"

definition pid_initialize :: "PIDController \<Rightarrow> PIDController" where
  "pid_initialize p = p\<lparr>outputSum := clamp_to (outMin p) (outMax p) (pid_output p), lastInput := pid_input p\<rparr>"

definition pid_set_mode :: "bool \<Rightarrow> PIDController \<Rightarrow> PIDController" where
  "pid_set_mode newAuto p = (if newAuto \<and> \<not> inAuto p then pid_initialize p else p)\<lparr>inAuto := newAuto\<rparr>"

definition pid_compute :: "u32 \<Rightarrow> PIDController \<Rightarrow> bool \<times> PIDController" where
  "pid_compute now p =
     (if \<not> inAuto p then (False, p)
      else if sampleTime p \<le> now - lastTime p then
        let input = pid_input p;
            error = f32 (pid_setpoint p - input);
            dInput = f32 (input - lastInput p);
            sum1 = f32 (outputSum p + f32 (ki p * error));
            sum2 = (if pOn p \<noteq> PID_P_ON_E then f32 (sum1 - f32 (kp p * dInput)) else sum1);
            sum3 = clamp_to (outMin p) (outMax p) sum2;
            out1 = (if pOn p = PID_P_ON_E then f32 (kp p * error) else 0);
            out2 = f32 (out1 + f32 (sum3 - f32 (kd p * dInput)));
            sum4 = (if outMax p < out2 then f32 (sum3 - f32 (out2 - outMax p))
                    else if out2 < outMin p then f32 (sum3 + f32 (outMin p - out2)) else sum3)
        in (True, p\<lparr>outputSum := sum4, pid_output := clamp_to (outMin p) (outMax p) out2, lastInput := input, lastTime := now\<rparr>)
      else (False, p))"

definition pid_set_tunings_adv :: "rat \<Rightarrow> rat \<Rightarrow> rat \<Rightarrow> PIDProportionalMode \<Rightarrow> PIDController \<Rightarrow> PIDController" where
  "pid_set_tunings_adv Kp Ki Kd pon p =
     (if Kp < 0 \<or> Ki < 0 \<or> Kd < 0 then p
      else let sampleTimeInSec = f32 (f64 (f32 (of_nat (unat (sampleTime p))) / 1000));
               sgn = (if controllerDirection p = PID_REVERSE then - 1 else 1)
           in p\<lparr>pOn := pon, dispKp := Kp, dispKi := Ki, dispKd := Kd, kp := sgn * Kp,
                ki := sgn * f32 (Ki * sampleTimeInSec), kd := sgn * f32 (Kd / sampleTimeInSec)\<rparr>)"

definition pid_set_tunings :: "rat \<Rightarrow> rat \<Rightarrow> rat \<Rightarrow> PIDController \<Rightarrow> PIDController" where
  "pid_set_tunings Kp Ki Kd p = pid_set_tunings_adv Kp Ki Kd (pOn p) p"

definition pid_set_sample_time :: "int \<Rightarrow> PIDController \<Rightarrow> PIDController" where
  "pid_set_sample_time newSampleTime p =
     (if newSampleTime > 0 then
        let ratio = f32 (f32 (of_int newSampleTime) / f32 (of_nat (unat (sampleTime p))))
        in p\<lparr>ki := f32 (ki p * ratio), kd := f32 (kd p / ratio), sampleTime := word_of_int newSampleTime\<rparr>
      else p)"

definition pid_set_output_limits :: "rat \<Rightarrow> rat \<Rightarrow> PIDController \<Rightarrow> PIDController" where
  "pid_set_output_limits mn mx p =
     (if mx \<le> mn then p
      else let p1 = p\<lparr>outMin := mn, outMax := mx\<rparr>
           in if inAuto p then p1\<lparr>pid_output := clamp_to mn mx (pid_output p), outputSum := clamp_to mn mx (outputSum p)\<rparr> else p1)"

definition pid_set_controller_direction :: "PIDDirection \<Rightarrow> PIDController \<Rightarrow> PIDController" where
  "pid_set_controller_direction direction p =
     (if inAuto p \<and> direction \<noteq> controllerDirection p then p\<lparr>kp := - kp p, ki := - ki p, kd := - kd p\<rparr> else p)
       \<lparr>controllerDirection := direction\<rparr>"

definition pid_init :: "u32 \<Rightarrow> rat \<Rightarrow> rat \<Rightarrow> rat \<Rightarrow> PIDProportionalMode \<Rightarrow> PIDDirection \<Rightarrow> PIDController \<Rightarrow> PIDController" where
  "pid_init now Kp Ki Kd pon direction p =
     (let p1 = (pid_set_output_limits 0 255 (p\<lparr>inAuto := False\<rparr>))\<lparr>sampleTime := 100\<rparr>;
          p2 = pid_set_tunings_adv Kp Ki Kd pon (pid_set_controller_direction direction p1)
      in p2\<lparr>lastTime := now - sampleTime p2\<rparr>)"

text \<open>The controller as \<open>{0}\<close> leaves it.\<close>

definition zero_pid :: PIDController where
  "zero_pid = \<lparr>dispKp = 0, dispKi = 0, dispKd = 0, kp = 0, ki = 0, kd = 0, controllerDirection = PID_DIRECT, pOn = PID_P_ON_M,
     pid_input = 0, pid_output = 0, pid_setpoint = 0, lastTime = 0, sampleTime = 0, outMin = 0, outMax = 0, inAuto = False,
     outputSum = 0, lastInput = 0\<rparr>"

section \<open>The task\<close>

definition FAN_EPSILON :: rat where "FAN_EPSILON = f32 (1 / 10000)"
definition POLL_TIME_MS :: int where "POLL_TIME_MS = 100"
definition PID_P :: rat where "PID_P = f32 5"
definition PID_I :: rat where "PID_I = f32 (f64 (1 / 10))"
definition PID_D :: rat where "PID_D = f32 2"

text \<open>
  \<open>fan_duty\<close> is the duty cycle the fan controller chip was last told, \<open>fan_commands\<close> everything it was told and
  whether it answered; \<open>fan_fault_msg\<close> the context in the message of the fault.
\<close>

record fan_state =
  fan_perc :: rat
  fan_fault :: bool
  fan_fault_msg :: string
  fan_commands :: "(rat \<times> bool) list"
  fan_pid :: PIDController
  pid_output_min :: u16
  filtered_input :: rat
  fan_rpm :: u16
  fan2_rpm :: u16

text \<open>What one turn of the loop reads: settings, the state of other tasks, temperatures, the clock, the fan chip.\<close>

record fan_turn =
  overheat :: bool
  auto_fan_speed :: bool
  temp_target :: u16
  min_fan_speed :: u16
  manual_fan_speed :: u16
  fault_raised :: bool
  paused :: bool
  pools_unavailable :: bool
  chip_temp :: rat
  chip_temp2 :: rat
  turn_us :: int
  set_ok :: bool
  rpm_read :: u16
  rpm2_read :: u16

definition update_fan_speed :: "bool \<Rightarrow> rat \<Rightarrow> string \<Rightarrow> fan_state \<Rightarrow> fan_state" where
  "update_fan_speed ok target_perc0 ctxt s =
     (let target_perc = clamp_to 0 100 target_perc0
      in if FAN_EPSILON < \<bar>f32 (fan_perc s - target_perc)\<bar> then
           let s1 = s\<lparr>fan_perc := target_perc, fan_commands := fan_commands s @ [(f32 (target_perc / 100), ok)]\<rparr>
           in if ok then s1 else s1\<lparr>fan_fault := True, fan_fault_msg := ''Fan Control Failed ('' @ ctxt @ '')''\<rparr>
         else s)"

definition new_limits :: "u16 \<Rightarrow> fan_state \<Rightarrow> fan_state" where
  "new_limits m s =
     (if pid_output_min s \<noteq> m
      then s\<lparr>pid_output_min := m, fan_pid := pid_set_output_limits (of_nat (unat m)) 100 (fan_pid s)\<rparr> else s)"

definition filter_temp :: "rat \<Rightarrow> rat \<Rightarrow> rat" where
  "filter_temp raw_temp filtered =
     (if filtered < 0 then raw_temp else f32 (f32 (f32 (1 / 5) * raw_temp) + f32 (f32 (4 / 5) * filtered)))"

definition auto_control :: "fan_turn \<Rightarrow> fan_state \<Rightarrow> fan_state" where
  "auto_control e s =
     (let s1 = new_limits (min_fan_speed e) (s\<lparr>fan_pid := (fan_pid s)\<lparr>pid_setpoint := of_nat (unat (temp_target e))\<rparr>\<rparr>)
      in if 0 < chip_temp e then
           let raw_temp = (if chip_temp e < chip_temp2 e then chip_temp2 e else chip_temp e);
               x = filter_temp raw_temp (filtered_input s1);
               p1 = (fan_pid s1)\<lparr>pid_input := x\<rparr>;
               p2 = (if \<not> inAuto p1 then pid_set_mode True p1 else p1);
               p3 = snd (pid_compute (millis (turn_us e)) p2)
           in update_fan_speed (set_ok e) (pid_output p3) ''Auto'' (s1\<lparr>filtered_input := x, fan_pid := p3\<rparr>)
         else update_fan_speed (set_ok e) 70 ''Startup'' s1)"

text \<open>One turn of the loop; a fault another task raised is seen at its start.\<close>

definition fan_step :: "fan_turn \<Rightarrow> fan_state \<Rightarrow> fan_state" where
  "fan_step e s0 =
     (let s = s0\<lparr>fan_fault := fan_fault s0 \<or> fault_raised e\<rparr>;
          s1 = (if overheat e then update_fan_speed (set_ok e) 100 ''Overheat'' s
                else if fan_fault s then update_fan_speed (set_ok e) 100 ''Fault'' s
                else if paused e then update_fan_speed (set_ok e) 30 ''Paused'' s
                else if pools_unavailable e then update_fan_speed (set_ok e) 30 ''No pool'' s
                else if auto_fan_speed e then auto_control e s
                else update_fan_speed (set_ok e) (of_nat (unat (manual_fan_speed e))) ''Manual'' s)
      in s1\<lparr>fan_rpm := rpm_read e, fan2_rpm := rpm2_read e\<rparr>)"

definition fan_start :: "int \<Rightarrow> u16 \<Rightarrow> fan_state" where
  "fan_start now_us temp_target0 =
     \<lparr>fan_perc = 0, fan_fault = False, fan_fault_msg = '''', fan_commands = [],
      fan_pid = pid_set_sample_time POLL_TIME_MS (pid_init (millis now_us) PID_P PID_I PID_D PID_P_ON_E PID_REVERSE
        (zero_pid\<lparr>pid_setpoint := of_nat (unat temp_target0)\<rparr>)),
      pid_output_min = 0, filtered_input = - 1, fan_rpm = 0, fan2_rpm = 0\<rparr>"

fun fan_run :: "fan_turn list \<Rightarrow> fan_state \<Rightarrow> fan_state" where
  "fan_run [] s = s"
| "fan_run (e # es) s = fan_run es (fan_step e s)"

section \<open>Clamping and the threshold\<close>

lemma clamp_mono: "x \<le> y \<Longrightarrow> lo \<le> hi \<Longrightarrow> clamp_to lo hi x \<le> clamp_to lo hi y"
  by (auto simp: clamp_to_def)

lemma clamp_in: "lo \<le> hi \<Longrightarrow> lo \<le> clamp_to lo hi x \<and> clamp_to lo hi x \<le> hi"
  by (auto simp: clamp_to_def)

lemma epsilon_bounds: "0 < FAN_EPSILON" "FAN_EPSILON \<le> 1 / 5001"
proof -
  have "\<bar>FAN_EPSILON - 1 / 10000\<bar> \<le> 1 / 167772160000" using rnd_error [of 24 "1 / 10000"] by (simp add: FAN_EPSILON_def f32_def)
  then show "0 < FAN_EPSILON" "FAN_EPSILON \<le> 1 / 5001" by linarith+
qed

lemma near_unchanged:
  assumes "\<not> FAN_EPSILON < \<bar>f32 x\<bar>"
  shows "\<bar>x\<bar> \<le> 1 / 5000"
proof -
  have "\<bar>f32 x - x\<bar> \<le> \<bar>x\<bar> / 2 ^ 24" using rnd_error [of 24 x] by (simp add: f32_def)
  then have "\<bar>x\<bar> \<le> \<bar>f32 x\<bar> + \<bar>x\<bar> / 2 ^ 24" by linarith
  moreover have "\<bar>f32 x\<bar> \<le> FAN_EPSILON" "FAN_EPSILON \<le> 1 / 5001" using assms epsilon_bounds by simp_all
  ultimately have "\<bar>x\<bar> * (1 - 1 / 2 ^ 24) \<le> 1 / 5001" by (simp add: field_simps)
  then have "\<bar>x\<bar> \<le> 1 / 5001 / (1 - 1 / 2 ^ 24)" by (simp add: field_simps)
  then show ?thesis by (simp add: field_simps)
qed

section \<open>What every turn keeps\<close>

definition pid_ok :: "PIDController \<Rightarrow> bool" where
  "pid_ok p \<longleftrightarrow> kp p \<le> 0 \<and> ki p \<le> 0 \<and> kd p \<le> 0 \<and> pOn p = PID_P_ON_E \<and> sampleTime p = 100 \<and> 0 \<le> outMin p \<and> outMin p < outMax p"

definition fan_inv :: "fan_state \<Rightarrow> bool" where
  "fan_inv s \<longleftrightarrow> pid_ok (fan_pid s) \<and> 0 \<le> fan_perc s \<and> fan_perc s \<le> 100 \<and>
     (fan_commands s = [] \<longrightarrow> fan_perc s = 0) \<and>
     (fan_commands s \<noteq> [] \<longrightarrow> fst (last (fan_commands s)) = f32 (fan_perc s / 100)) \<and>
     (fan_fault s \<or> (\<forall>c\<in>set (fan_commands s). snd c)) \<and>
     (unat (pid_output_min s) < 100 \<longrightarrow> outMin (fan_pid s) = of_nat (unat (pid_output_min s)))"

lemma pid_ok_limits: "pid_ok p \<Longrightarrow> 0 \<le> mn \<Longrightarrow> pid_ok (pid_set_output_limits mn mx p)"
  by (simp add: pid_ok_def pid_set_output_limits_def Let_def)

lemma pid_ok_mode: "pid_ok p \<Longrightarrow> pid_ok (pid_set_mode b p)"
  by (simp add: pid_ok_def pid_set_mode_def pid_initialize_def)

lemma pid_ok_compute: "pid_ok p \<Longrightarrow> pid_ok (snd (pid_compute now p))"
  by (simp add: pid_ok_def pid_compute_def Let_def)

lemma compute_min: "outMin (snd (pid_compute now p)) = outMin p"
  by (simp add: pid_compute_def Let_def)

lemma mode_min: "outMin (pid_set_mode b p) = outMin p"
  by (simp add: pid_set_mode_def pid_initialize_def)

lemma update_inv: "fan_inv s \<Longrightarrow> fan_inv (update_fan_speed ok x ctxt s)"
  using clamp_in [of 0 100 x] by (auto simp: fan_inv_def update_fan_speed_def Let_def)

lemma update_keeps [simp]:
  "fan_pid (update_fan_speed ok x ctxt s) = fan_pid s" "pid_output_min (update_fan_speed ok x ctxt s) = pid_output_min s"
  "filtered_input (update_fan_speed ok x ctxt s) = filtered_input s"
  by (simp_all add: update_fan_speed_def Let_def)

lemma limits_inv:
  assumes "fan_inv s"
  shows "fan_inv (new_limits m s)"
proof (cases "pid_output_min s = m")
  case True
  then show ?thesis using assms by (simp add: new_limits_def)
next
  case False
  let ?p = "pid_set_output_limits (of_nat (unat m)) 100 (fan_pid s)"
  have "pid_ok ?p" using assms by (intro pid_ok_limits) (auto simp: fan_inv_def simp del: of_nat_unat)
  moreover have "outMin ?p = of_nat (unat m)" if "unat m < 100"
  proof -
    have "(of_nat (unat m) :: rat) < of_nat 100" using that by (simp only: of_nat_less_iff)
    then show ?thesis by (simp add: pid_set_output_limits_def Let_def del: of_nat_unat)
  qed
  ultimately show ?thesis using assms False by (simp add: fan_inv_def new_limits_def del: of_nat_unat)
qed

lemma pid_inv:
  assumes "fan_inv s" "pid_ok p" "outMin p = outMin (fan_pid s)"
  shows "fan_inv (s\<lparr>fan_pid := p, filtered_input := x\<rparr>)" "fan_inv (s\<lparr>filtered_input := x, fan_pid := p\<rparr>)" "fan_inv (s\<lparr>fan_pid := p\<rparr>)"
  using assms by (simp_all add: fan_inv_def)

lemma auto_inv:
  assumes "fan_inv s"
  shows "fan_inv (auto_control e s)"
proof -
  define s1 where "s1 = new_limits (min_fan_speed e) (s\<lparr>fan_pid := (fan_pid s)\<lparr>pid_setpoint := of_nat (unat (temp_target e))\<rparr>\<rparr>)"
  have s1: "fan_inv s1"
    unfolding s1_def using assms by (intro limits_inv pid_inv) (simp_all add: fan_inv_def pid_ok_def)
  have "pid_ok ((fan_pid s1)\<lparr>pid_input := x\<rparr>)" for x using s1 by (simp add: fan_inv_def pid_ok_def)
  then have "fan_inv (s1\<lparr>filtered_input := x, fan_pid := snd (pid_compute now (if \<not> inAuto ((fan_pid s1)\<lparr>pid_input := x\<rparr>)
        then pid_set_mode True ((fan_pid s1)\<lparr>pid_input := x\<rparr>) else (fan_pid s1)\<lparr>pid_input := x\<rparr>))\<rparr>)" for x now
    by (intro pid_inv [OF s1]) (simp_all add: pid_ok_compute pid_ok_mode compute_min mode_min)
  then show ?thesis using s1 unfolding auto_control_def s1_def [symmetric] Let_def by (simp only: update_inv if_True if_False split: if_split) blast
qed

lemma step_inv:
  assumes "fan_inv s"
  shows "fan_inv (fan_step e s)"
proof -
  define t where "t = s\<lparr>fan_fault := fan_fault s \<or> fault_raised e\<rparr>"
  have t: "fan_inv t" using assms by (auto simp: fan_inv_def t_def)
  have rpm: "fan_inv (u\<lparr>fan_rpm := a, fan2_rpm := b\<rparr>) \<longleftrightarrow> fan_inv u" for u a b by (simp add: fan_inv_def)
  show ?thesis
    unfolding fan_step_def t_def [symmetric] Let_def rpm using t by (simp add: update_inv auto_inv)
qed

lemma start_inv: "fan_inv (fan_start now_us t)"
proof -
  have "0 \<le> PID_I" "0 \<le> f32 (f64 (f32 100 / 1000))" "0 \<le> PID_P" "0 \<le> PID_D"
    by (simp_all add: PID_I_def PID_P_def PID_D_def f32_nonneg f64_nonneg)
  then show ?thesis
    by (simp add: fan_inv_def fan_start_def pid_init_def pid_set_sample_time_def pid_set_tunings_adv_def pid_set_controller_direction_def
        pid_set_output_limits_def zero_pid_def pid_ok_def POLL_TIME_MS_def Let_def f32_nonneg f32_minus)
qed

lemma run_inv: "fan_inv s \<Longrightarrow> fan_inv (fan_run es s)"
  by (induction es arbitrary: s) (simp_all add: step_inv)

section \<open>Danger\<close>

definition danger :: "fan_turn \<Rightarrow> fan_state \<Rightarrow> bool" where
  "danger e s \<longleftrightarrow> overheat e \<or> fan_fault s \<or> fault_raised e"

lemma step_in_danger:
  "danger e s \<Longrightarrow> \<exists>c. fan_step e s = (update_fan_speed (set_ok e) 100 c (s\<lparr>fan_fault := fan_fault s \<or> fault_raised e\<rparr>))
     \<lparr>fan_rpm := rpm_read e, fan2_rpm := rpm2_read e\<rparr>"
  by (auto simp: danger_def fan_step_def Let_def)

lemma update_near: "clamp_to 0 100 x = y \<Longrightarrow> \<bar>fan_perc (update_fan_speed ok x c s) - y\<bar> \<le> 1 / 5000"
  using near_unchanged [of "fan_perc s - y"] by (auto simp: update_fan_speed_def Let_def)

text \<open>
  C26. Whatever happened before, a turn of the fan task with overheating or a hardware fault ends with the fan told
  to run at full speed (to a fiftieth of a percent of a percent point): the last command sent is that speed, and it
  was taken, or the hardware fault is up.
\<close>

theorem fan_full_in_danger:
  assumes "danger e (fan_run es (fan_start now_us t))"
  shows "let s' = fan_step e (fan_run es (fan_start now_us t))
    in 100 - 1 / 5000 \<le> fan_perc s' \<and> fan_commands s' \<noteq> [] \<and> fst (last (fan_commands s')) = f32 (fan_perc s' / 100) \<and>
       (snd (last (fan_commands s')) \<or> fan_fault s')"
proof -
  define s where "s = fan_run es (fan_start now_us t)"
  have inv: "fan_inv (fan_step e s)" unfolding s_def by (intro step_inv run_inv start_inv)
  obtain c where "fan_step e s = (update_fan_speed (set_ok e) 100 c (s\<lparr>fan_fault := fan_fault s \<or> fault_raised e\<rparr>))
     \<lparr>fan_rpm := rpm_read e, fan2_rpm := rpm2_read e\<rparr>"
    using step_in_danger assms s_def by blast
  then have "\<bar>fan_perc (fan_step e s) - 100\<bar> \<le> 1 / 5000"
    using update_near [of 100 100 "set_ok e" c] by (simp add: clamp_to_def)
  then have near: "100 - 1 / 5000 \<le> fan_perc (fan_step e s)" by linarith
  then have "fan_commands (fan_step e s) \<noteq> []" using inv by (auto simp: fan_inv_def)
  then show ?thesis using inv near unfolding s_def [symmetric] Let_def fan_inv_def by (auto dest: last_in_set)
qed

definition example_turn :: fan_turn where
  "example_turn = \<lparr>overheat = False, auto_fan_speed = True, temp_target = 60, min_fan_speed = 25, manual_fan_speed = 100,
     fault_raised = False, paused = False, pools_unavailable = False, chip_temp = 55, chip_temp2 = - 1, turn_us = 200000,
     set_ok = True, rpm_read = 3000, rpm2_read = 0\<rparr>"

theorem fan_full_in_danger_witness:
  "snd (last (fan_commands (fan_step (example_turn\<lparr>overheat := True\<rparr>) (fan_run [example_turn\<lparr>paused := True\<rparr>] (fan_start 0 60))))) \<or>
   fan_fault (fan_step (example_turn\<lparr>overheat := True\<rparr>) (fan_run [example_turn\<lparr>paused := True\<rparr>] (fan_start 0 60)))"
  using fan_full_in_danger [of "example_turn\<lparr>overheat := True\<rparr>" "[example_turn\<lparr>paused := True\<rparr>]" 0 60]
  by (simp add: danger_def Let_def)

text \<open>
  Once a fault is up, the speed is the only thing that could change, and a command is sent only when it does.
\<close>

lemma no_more_commands:
  "fan_fault s \<Longrightarrow> \<not> FAN_EPSILON < \<bar>f32 (fan_perc s - 100)\<bar> \<Longrightarrow> fan_commands (fan_run es s) = fan_commands s"
proof (induction es arbitrary: s)
  case (Cons e es)
  obtain c where "fan_step e s = (update_fan_speed (set_ok e) 100 c (s\<lparr>fan_fault := True\<rparr>))\<lparr>fan_rpm := rpm_read e, fan2_rpm := rpm2_read e\<rparr>"
    using step_in_danger [of e s] Cons.prems by (auto simp: danger_def)
  then have "fan_step e s = s\<lparr>fan_fault := True, fan_rpm := rpm_read e, fan2_rpm := rpm2_read e\<rparr>"
    using Cons.prems by (simp add: update_fan_speed_def clamp_to_def Let_def)
  then show ?case using Cons by simp
qed simp

text \<open>
  C32. A hardware fault, a failed command to the fan among them, leaves at most one more command to the fan, ever: full
  speed, which is sent only when the speed was not full before. When it was full, or when that one command fails,
  it is never repeated, however many turns follow.
\<close>

theorem fault_allows_one_command:
  assumes "fan_fault s"
  shows "fan_commands (fan_run es s) = fan_commands s \<or>
    (fan_perc s \<noteq> 100 \<and> (\<exists>ok. fan_commands (fan_run es s) = fan_commands s @ [(1, ok)]))"
proof (cases "FAN_EPSILON < \<bar>f32 (fan_perc s - 100)\<bar>")
  case False
  then show ?thesis using no_more_commands assms by blast
next
  case True
  then have ne: "fan_perc s \<noteq> 100" using epsilon_bounds by auto
  show ?thesis
  proof (cases es)
    case (Cons e es')
    obtain c where "fan_step e s = (update_fan_speed (set_ok e) 100 c (s\<lparr>fan_fault := True\<rparr>))\<lparr>fan_rpm := rpm_read e, fan2_rpm := rpm2_read e\<rparr>"
      using step_in_danger [of e s] assms by (auto simp: danger_def)
    then have s': "fan_fault (fan_step e s)" "fan_perc (fan_step e s) = 100" "fan_commands (fan_step e s) = fan_commands s @ [(1, set_ok e)]"
      using True by (auto simp: update_fan_speed_def clamp_to_def Let_def)
    then have "fan_commands (fan_run es' (fan_step e s)) = fan_commands s @ [(1, set_ok e)]"
      using no_more_commands [of "fan_step e s" es'] epsilon_bounds by simp
    then show ?thesis using Cons ne by auto
  qed simp
qed

theorem fault_allows_one_command_witness:
  "fan_commands (fan_run [example_turn, example_turn]
     (fan_step (example_turn\<lparr>overheat := True, set_ok := False\<rparr>) (fan_start 0 60))) = [(1, False)]"
proof -
  let ?s = "fan_step (example_turn\<lparr>overheat := True, set_ok := False\<rparr>) (fan_start 0 60)"
  have "\<bar>f32 (0 - 100)\<bar> = 100" by (simp add: f32_minus)
  then have "fan_fault ?s" "fan_perc ?s = 100" "fan_commands ?s = [(1, False)]"
    using epsilon_bounds
    by (simp_all add: fan_step_def fan_start_def example_turn_def update_fan_speed_def clamp_to_def Let_def)
  then show ?thesis using fault_allows_one_command [of ?s "[example_turn, example_turn]"] by (simp del: fan_run.simps)
qed

section \<open>Control by temperature\<close>

text \<open>The controller at the end of a turn under automatic control with a valid temperature.\<close>

definition controlled :: "fan_turn \<Rightarrow> bool" where
  "controlled e \<longleftrightarrow> \<not> overheat e \<and> \<not> paused e \<and> \<not> pools_unavailable e \<and> auto_fan_speed e \<and> 0 < chip_temp e"

definition ready_pid :: "fan_turn \<Rightarrow> fan_state \<Rightarrow> PIDController" where
  "ready_pid e s = fan_pid (new_limits (min_fan_speed e) (s\<lparr>fan_pid := (fan_pid s)\<lparr>pid_setpoint := of_nat (unat (temp_target e))\<rparr>\<rparr>))"

definition hottest :: "fan_turn \<Rightarrow> rat" where
  "hottest e = (if chip_temp e < chip_temp2 e then chip_temp2 e else chip_temp e)"

definition computed_pid :: "fan_turn \<Rightarrow> fan_state \<Rightarrow> PIDController" where
  "computed_pid e s =
     (let p1 = (ready_pid e s)\<lparr>pid_input := filter_temp (hottest e) (filtered_input s)\<rparr>
      in snd (pid_compute (millis (turn_us e)) (if \<not> inAuto p1 then pid_set_mode True p1 else p1)))"

lemma controlled_step:
  assumes "controlled e" "\<not> fan_fault s" "\<not> fault_raised e"
  shows "fan_pid (fan_step e s) = computed_pid e s"
    "\<bar>fan_perc (fan_step e s) - clamp_to 0 100 (pid_output (computed_pid e s))\<bar> \<le> 1 / 5000"
proof -
  have keep: "s\<lparr>fan_fault := fan_fault s \<or> fault_raised e\<rparr> = s" using assms by simp
  have fi: "filtered_input (new_limits m x) = filtered_input x" for m x by (simp add: new_limits_def)
  have "fan_step e s = (auto_control e s)\<lparr>fan_rpm := rpm_read e, fan2_rpm := rpm2_read e\<rparr>"
    unfolding fan_step_def keep Let_def using assms by (simp add: controlled_def)
  moreover obtain u where "auto_control e s = update_fan_speed (set_ok e) (pid_output (computed_pid e s)) ''Auto'' u"
      "fan_pid u = computed_pid e s"
    using assms(1) by (auto simp: auto_control_def computed_pid_def ready_pid_def hottest_def controlled_def Let_def fi)
  ultimately show "fan_pid (fan_step e s) = computed_pid e s"
    "\<bar>fan_perc (fan_step e s) - clamp_to 0 100 (pid_output (computed_pid e s))\<bar> \<le> 1 / 5000"
    using update_near [OF refl, where s = u and x = "pid_output (computed_pid e s)"] by simp_all
qed

lemma compute_output_in:
  assumes "inAuto p" "sampleTime p \<le> now - lastTime p" "outMin p \<le> outMax p"
  shows "outMin p \<le> pid_output (snd (pid_compute now p)) \<and> pid_output (snd (pid_compute now p)) \<le> outMax p"
  using assms clamp_in [of "outMin p" "outMax p"] by (simp add: pid_compute_def Let_def)

lemma ready_pid_facts:
  assumes "fan_inv s"
  shows "pid_ok (ready_pid e s)" "unat (min_fan_speed e) < 100 \<Longrightarrow> outMin (ready_pid e s) = of_nat (unat (min_fan_speed e))"
    "lastTime (ready_pid e s) = lastTime (fan_pid s)" "inAuto (ready_pid e s) = inAuto (fan_pid s)"
proof -
  let ?s = "s\<lparr>fan_pid := (fan_pid s)\<lparr>pid_setpoint := of_nat (unat (temp_target e))\<rparr>\<rparr>"
  have "fan_inv ?s" using assms by (intro pid_inv) (simp_all add: fan_inv_def pid_ok_def)
  then have "fan_inv (new_limits (min_fan_speed e) ?s)" by (rule limits_inv)
  moreover have "pid_output_min (new_limits (min_fan_speed e) ?s) = min_fan_speed e" by (simp add: new_limits_def)
  ultimately show "pid_ok (ready_pid e s)" "unat (min_fan_speed e) < 100 \<Longrightarrow> outMin (ready_pid e s) = of_nat (unat (min_fan_speed e))"
    by (simp_all add: fan_inv_def ready_pid_def)
  show "lastTime (ready_pid e s) = lastTime (fan_pid s)" "inAuto (ready_pid e s) = inAuto (fan_pid s)"
    by (simp_all add: ready_pid_def new_limits_def pid_set_output_limits_def Let_def)
qed

text \<open>
  Under automatic control with a valid temperature the fan never runs slower than the smallest speed of the
  settings (below 100 percent, and up to a fiftieth of a percent of a percent point), whatever went before: in
  every turn in which the sample time of the controller has passed.
\<close>

theorem fan_minimum:
  assumes "controlled e" "\<not> fan_fault (fan_run es (fan_start now_us t))" "\<not> fault_raised e" "unat (min_fan_speed e) < 100"
    "100 \<le> millis (turn_us e) - lastTime (fan_pid (fan_run es (fan_start now_us t)))"
  shows "of_nat (unat (min_fan_speed e)) - 1 / 5000 \<le> fan_perc (fan_step e (fan_run es (fan_start now_us t)))"
proof -
  define s where "s = fan_run es (fan_start now_us t)"
  have inv: "fan_inv s" unfolding s_def by (intro run_inv start_inv)
  note r = ready_pid_facts [OF inv, of e]
  define p1 where "p1 = (ready_pid e s)\<lparr>pid_input := filter_temp (hottest e) (filtered_input s)\<rparr>"
  define p2 where "p2 = (if \<not> inAuto p1 then pid_set_mode True p1 else p1)"
  have p2: "inAuto p2" "sampleTime p2 = 100" "lastTime p2 = lastTime (fan_pid s)" "outMin p2 = of_nat (unat (min_fan_speed e))"
      "outMin p2 \<le> outMax p2"
    using r assms(4) by (auto simp: p2_def p1_def pid_set_mode_def pid_initialize_def pid_ok_def)
  have "of_nat (unat (min_fan_speed e)) \<le> pid_output (computed_pid e s)"
    using compute_output_in [of p2 "millis (turn_us e)"] p2 assms(5)
    by (simp add: computed_pid_def p1_def [symmetric] p2_def [symmetric] s_def [symmetric])
  moreover have "(of_nat (unat (min_fan_speed e)) :: rat) < of_nat 100" using assms(4) by (simp only: of_nat_less_iff)
  moreover have "(0::rat) \<le> of_nat (unat (min_fan_speed e))" by (rule of_nat_0_le_iff)
  ultimately have "of_nat (unat (min_fan_speed e)) \<le> clamp_to 0 100 (pid_output (computed_pid e s))"
    by (auto simp: clamp_to_def simp del: of_nat_unat)
  then show ?thesis using controlled_step(2) [of e s] assms(1-3) unfolding s_def by linarith
qed

theorem fan_minimum_witness: "25 - 1 / 5000 \<le> fan_perc (fan_step example_turn (fan_run [] (fan_start 0 60)))"
proof -
  have "lastTime (fan_pid (fan_start 0 60)) = - 100"
    by (simp add: fan_start_def pid_set_sample_time_def pid_init_def pid_set_tunings_adv_def pid_set_controller_direction_def
        pid_set_output_limits_def zero_pid_def POLL_TIME_MS_def PID_P_def PID_I_def PID_D_def millis_def Let_def f32_nonneg f64_nonneg not_less)
  then show ?thesis
    using fan_minimum [of example_turn "[]" 0 60] by (simp add: controlled_def example_turn_def fan_start_def millis_def)
qed

lemma compute_mono:
  assumes "pid_ok p" "x \<le> y" "f32 (x - lp) \<le> f32 (y - lq)"
  shows "pid_output (snd (pid_compute now (p\<lparr>pid_input := x, lastInput := lp\<rparr>))) \<le> pid_output (snd (pid_compute now (p\<lparr>pid_input := y, lastInput := lq\<rparr>)))"
proof -
  have neg: "k * b \<le> k * a" if "k \<le> 0" "a \<le> b" for a b k :: rat using that by (simp add: mult_left_mono_neg)
  let ?err = "\<lambda>z. f32 (pid_setpoint p - z)"
  have e: "?err y \<le> ?err x" using assms(2) by (intro f32_mono) simp
  have i: "f32 (ki p * ?err x) \<le> f32 (ki p * ?err y)" and k: "f32 (kp p * ?err x) \<le> f32 (kp p * ?err y)"
    using assms(1) e by (auto simp: pid_ok_def intro!: f32_mono neg)
  have d: "f32 (kd p * f32 (y - lq)) \<le> f32 (kd p * f32 (x - lp))" using assms(1,3) by (auto simp: pid_ok_def intro!: f32_mono neg)
  let ?sum = "\<lambda>z. clamp_to (outMin p) (outMax p) (f32 (outputSum p + f32 (ki p * ?err z)))"
  have s: "?sum x \<le> ?sum y" using i assms(1) by (intro clamp_mono f32_mono) (auto simp: pid_ok_def)
  have "f32 (f32 (kp p * ?err x) + f32 (?sum x - f32 (kd p * f32 (x - lp)))) \<le>
      f32 (f32 (kp p * ?err y) + f32 (?sum y - f32 (kd p * f32 (y - lq))))"
    by (intro f32_mono add_mono k diff_mono s d)
  then show ?thesis using assms(1) clamp_mono by (auto simp: pid_compute_def pid_ok_def Let_def)
qed

text \<open>
  The controller has the right sign: of two turns from the same reached state that differ in the temperatures
  only, the one that reads at least as high temperatures asks for at least as much fan.
\<close>

theorem hotter_never_slower:
  assumes "controlled e" "\<not> fan_fault (fan_run es (fan_start now_us t))" "\<not> fault_raised e" "chip_temp e \<le> a" "chip_temp2 e \<le> b"
  shows "pid_output (fan_pid (fan_step e (fan_run es (fan_start now_us t)))) \<le>
    pid_output (fan_pid (fan_step (e\<lparr>chip_temp := a, chip_temp2 := b\<rparr>) (fan_run es (fan_start now_us t))))"
proof -
  define s where "s = fan_run es (fan_start now_us t)"
  let ?e = "e\<lparr>chip_temp := a, chip_temp2 := b\<rparr>"
  have inv: "fan_inv s" unfolding s_def by (intro run_inv start_inv)
  have c: "controlled ?e" using assms by (auto simp: controlled_def)
  have r: "ready_pid ?e s = ready_pid e s" by (simp add: ready_pid_def)
  have "hottest e \<le> hottest ?e" using assms(4,5) by (auto simp: hottest_def)
  then have x: "filter_temp (hottest e) (filtered_input s) \<le> filter_temp (hottest ?e) (filtered_input s)"
    by (auto simp: filter_temp_def intro!: f32_mono mult_left_mono f32_nonneg)
  let ?x = "filter_temp (hottest e) (filtered_input s)" and ?y = "filter_temp (hottest ?e) (filtered_input s)" and ?p = "ready_pid e s"
  have "pid_output (computed_pid e s) \<le> pid_output (computed_pid ?e s)"
  proof (cases "inAuto ?p")
    case True
    have "pid_output (snd (pid_compute (millis (turn_us e)) (?p\<lparr>pid_input := ?x, lastInput := lastInput ?p\<rparr>))) \<le>
        pid_output (snd (pid_compute (millis (turn_us e)) (?p\<lparr>pid_input := ?y, lastInput := lastInput ?p\<rparr>)))"
      using ready_pid_facts(1) [OF inv] x by (intro compute_mono) (auto intro: f32_mono)
    then show ?thesis using True r by (simp add: computed_pid_def Let_def)
  next
    case False
    let ?q = "?p\<lparr>outputSum := clamp_to (outMin ?p) (outMax ?p) (pid_output ?p), inAuto := True\<rparr>"
    have "pid_ok ?q" using ready_pid_facts(1) [OF inv, of e] by (simp add: pid_ok_def)
    then have "pid_output (snd (pid_compute (millis (turn_us e)) (?q\<lparr>pid_input := ?x, lastInput := ?x\<rparr>))) \<le>
        pid_output (snd (pid_compute (millis (turn_us e)) (?q\<lparr>pid_input := ?y, lastInput := ?y\<rparr>)))"
      using x by (intro compute_mono) auto
    moreover have "pid_set_mode True (?p\<lparr>pid_input := z\<rparr>) = ?q\<lparr>pid_input := z, lastInput := z\<rparr>" for z
      using False by (simp add: pid_set_mode_def pid_initialize_def)
    ultimately show ?thesis using False r by (simp add: computed_pid_def Let_def)
  qed
  then show ?thesis using controlled_step(1) [of e s] controlled_step(1) [of ?e s] assms c s_def by simp
qed

theorem hotter_never_slower_witness:
  "pid_output (fan_pid (fan_step example_turn (fan_run [] (fan_start 0 60)))) \<le>
   pid_output (fan_pid (fan_step (example_turn\<lparr>chip_temp := 60, chip_temp2 := 70\<rparr>) (fan_run [] (fan_start 0 60))))"
  by (rule hotter_never_slower) (simp_all add: controlled_def example_turn_def fan_start_def)

end
