(* ===== verification/Statistics.thy ===== *)
theory Statistics
  imports Prelude "HOL-Library.Sublist"
begin

text \<open>
  \<open>main/tasks/statistics_task.c\<close>: the history of measurements for the graphs. A buffer of 720 samples; when it is
  full, the oldest sample goes once the history is as long as it should be, before that one is taken out where the
  samples are densest. The lock makes every operation atomic.
\<close>

section \<open>The buffer\<close>

record StatisticsData =
  timestamp :: u64
  stat_hashrate :: rat
  stat_hashrate_1m :: rat
  stat_hashrate_10m :: rat
  stat_hashrate_1h :: rat
  errorPercentage :: rat
  chipTemperature :: rat
  chipTemperature2 :: rat
  vrTemperature :: rat
  stat_power :: rat
  stat_voltage :: rat
  stat_current :: rat
  coreVoltageActual :: "16 word"
  fanSpeed :: rat
  fanRPM :: u16
  fan2RPM :: u16
  wifiRSSI :: "8 word"
  freeHeap :: u32
  responseTime :: rat

definition maxDataCount :: nat where "maxDataCount = 720"

text \<open>
  The buffer, if there is one, up to \<open>statisticsDataSize\<close>: that size is the length of the list. \<open>malloc_ok\<close> says
  whether memory can be had.
\<close>

type_synonym stat_buffer = "StatisticsData list option"

definition createStatisticsBuffer :: "bool \<Rightarrow> stat_buffer \<Rightarrow> stat_buffer" where
  "createStatisticsBuffer malloc_ok b = (case b of None \<Rightarrow> (if malloc_ok then Some [] else None) | Some xs \<Rightarrow> Some xs)"

definition removeStatisticsBuffer :: "stat_buffer \<Rightarrow> stat_buffer" where
  "removeStatisticsBuffer b = None"

definition find_split :: "StatisticsData list \<Rightarrow> nat \<Rightarrow> nat \<Rightarrow> nat" where
  "find_split xs low high =
     (let lowTime = timestamp (xs ! low); highTime = timestamp (xs ! high); midTime = (lowTime + highTime) div 2;
          split0 = (case find (\<lambda>i. midTime \<le> timestamp (xs ! i)) [low..<Suc high] of Some i \<Rightarrow> i | None \<Rightarrow> low);
          split1 = (if split0 = low then split0 + 1 else split0)
      in if high < split1 then high else split1)"

lemma find_split_between: "1 < high - low \<Longrightarrow> low < find_split xs low high \<and> find_split xs low high \<le> high"
proof -
  assume gap: "1 < high - low"
  define P where "P = (\<lambda>i. (timestamp (xs ! low) + timestamp (xs ! high)) div 2 \<le> timestamp (xs ! i))"
  define s where "s = (case find P [low..<Suc high] of Some i \<Rightarrow> i | None \<Rightarrow> low)"
  have "i \<in> set [low..<Suc high]" if "find P [low..<Suc high] = Some i" for i using that nth_mem by (metis find_Some_iff)
  then have "low \<le> s" "s \<le> high" using gap by (auto simp: s_def simp del: upt_Suc split: option.splits)
  then show ?thesis using gap by (auto simp add: find_split_def Let_def P_def [symmetric] s_def [symmetric] simp del: upt_Suc)
qed

function thin_loop :: "StatisticsData list \<Rightarrow> nat \<Rightarrow> nat \<Rightarrow> nat" where
  "thin_loop xs low high =
     (if 1 < high - low then
        let s = find_split xs low high; leftCount = s - low; rightCount = high - s + 1
        in if leftCount > rightCount then thin_loop xs low (s - 1) else thin_loop xs s high
      else low)"
  by pat_completeness auto

termination
proof (relation "measure (\<lambda>(xs, low, high). high - low)")
  fix xs :: "StatisticsData list" and low high s a b :: nat
  assume a: "1 < high - low" "s = find_split xs low high"
  then have "low < s" "s \<le> high" using find_split_between by auto
  then show "((xs, low, s - 1), xs, low, high) \<in> measure (\<lambda>(xs, low, high). high - low)"
    and "((xs, s, high), xs, low, high) \<in> measure (\<lambda>(xs, low, high). high - low)"
    by auto
qed simp

declare thin_loop.simps [simp del]

definition indexToRemove :: "StatisticsData \<Rightarrow> u16 \<Rightarrow> StatisticsData list \<Rightarrow> nat" where
  "indexToRemove dat statsFrequency xs =
     (let currentSpan = timestamp dat - timestamp (xs ! 0);
          targetDuration = (of_nat maxDataCount :: u64) * ucast statsFrequency * 1000
      in if targetDuration \<le> currentSpan then 0 else thin_loop xs 1 (maxDataCount - 1))"

definition addStatisticData :: "bool \<Rightarrow> StatisticsData \<Rightarrow> u16 \<Rightarrow> stat_buffer \<Rightarrow> bool \<times> stat_buffer" where
  "addStatisticData malloc_ok dat statsFrequency b =
     (case createStatisticsBuffer malloc_ok b of
        None \<Rightarrow> (False, None)
      | Some xs \<Rightarrow>
          if length xs < maxDataCount then (True, Some (xs @ [dat]))
          else let i = indexToRemove dat statsFrequency xs;
                   shifted = (if i < maxDataCount - 1 then take i xs @ drop (i + 1) xs @ [xs ! (maxDataCount - 1)] else xs)
               in (True, Some (shifted[maxDataCount - 1 := dat])))"

definition getStatisticData :: "nat \<Rightarrow> stat_buffer \<Rightarrow> StatisticsData option" where
  "getStatisticData index b =
     (case b of None \<Rightarrow> None
      | Some xs \<Rightarrow> if maxDataCount \<le> index then None else if index < length xs then Some (xs ! index) else None)"

section \<open>The task\<close>

text \<open>
  One turn: the clock, the frequency of the settings and what the other tasks measured; the turn comes every
  second. \<open>statsData\<close> keeps its time stamp from turn to turn.
\<close>

record stat_turn =
  now_ms :: u64
  configStatsFrequency :: u16
  readings :: StatisticsData
  memory_ok :: bool

record stat_task =
  statsData :: StatisticsData
  statisticsBuffer :: stat_buffer

definition statistics_step :: "stat_turn \<Rightarrow> stat_task \<Rightarrow> stat_task" where
  "statistics_step e s =
     (if configStatsFrequency e \<noteq> 0 then
        if timestamp (statsData s) + 1000 \<le> now_ms e then
          let d = (readings e)\<lparr>timestamp := now_ms e\<rparr>
          in s\<lparr>statsData := d, statisticsBuffer := snd (addStatisticData (memory_ok e) d (configStatsFrequency e) (statisticsBuffer s))\<rparr>
        else s
      else s\<lparr>statisticsBuffer := removeStatisticsBuffer (statisticsBuffer s)\<rparr>)"

fun statistics_run :: "stat_turn list \<Rightarrow> stat_task \<Rightarrow> stat_task" where
  "statistics_run [] s = s"
| "statistics_run (e # es) s = statistics_run es (statistics_step e s)"

section \<open>Thinning\<close>

lemma thin_loop_bounds: "low \<le> high \<Longrightarrow> low \<le> thin_loop xs low high \<and> thin_loop xs low high \<le> high"
proof (induction xs low high rule: thin_loop.induct)
  case (1 xs low high)
  show ?case
  proof (cases "1 < high - low")
    case True
    define s where "s = find_split xs low high"
    have s: "low < s" "s \<le> high" using find_split_between [OF True] by (auto simp: s_def)
    have "low \<le> thin_loop xs low (s - 1) \<and> thin_loop xs low (s - 1) \<le> s - 1" if "s - low > high - s + 1"
      using "1.IH"(1) [OF True s_def refl refl that] s by linarith
    moreover have "s \<le> thin_loop xs s high \<and> thin_loop xs s high \<le> high" if "\<not> s - low > high - s + 1"
      using "1.IH"(2) [OF True s_def refl refl that] s by linarith
    ultimately show ?thesis
      using True s unfolding thin_loop.simps [of xs low high] s_def [symmetric] Let_def by (auto simp del: not_less)
  qed (use 1 in \<open>simp add: thin_loop.simps\<close>)
qed

definition without :: "nat \<Rightarrow> 'a list \<Rightarrow> 'a list" where
  "without i xs = take i xs @ drop (Suc i) xs"

lemma without_subseq: "subseq (without i xs) xs"
proof (induction xs arbitrary: i)
  case (Cons x xs)
  show ?case
  proof (cases i)
    case (Suc j)
    then show ?thesis using Cons [of j] by (simp add: without_def)
  qed (simp add: without_def list_emb_Cons)
qed (simp add: without_def)

lemma length_without: "i < length xs \<Longrightarrow> length (without i xs) = length xs - 1"
  by (simp add: without_def)

lemma index_bound: "indexToRemove d f xs < maxDataCount"
  using thin_loop_bounds [of 1 "maxDataCount - 1" xs] by (simp add: indexToRemove_def maxDataCount_def Let_def)

lemma add_full:
  assumes "length xs = maxDataCount"
  shows "addStatisticData m d f (Some xs) = (True, Some (without (indexToRemove d f xs) xs @ [d]))"
proof -
  define i where "i = indexToRemove d f xs"
  have i: "i < 720" using index_bound [of d f xs] by (simp add: i_def maxDataCount_def)
  have len: "length xs = 720" using assms by (simp add: maxDataCount_def)
  have upd: "(if i < 719 then take i xs @ drop (i + 1) xs @ [xs ! 719] else xs)[719 := d] = without i xs @ [d]"
  proof (cases "i < 719")
    case True
    then show ?thesis using len by (simp add: without_def list_update_append)
  next
    case False
    then have "i = 719" using i by simp
    then show ?thesis using len by (simp add: without_def list_update_append upd_conv_take_nth_drop)
  qed
  have "(720 :: nat) - 1 = 719" by simp
  then show ?thesis using upd len
    unfolding addStatisticData_def createStatisticsBuffer_def maxDataCount_def i_def [symmetric] Let_def option.case
    by (simp only: less_irrefl if_False)
qed

lemma add_not_full: "length xs < maxDataCount \<Longrightarrow> addStatisticData m d f (Some xs) = (True, Some (xs @ [d]))"
  by (simp add: addStatisticData_def createStatisticsBuffer_def)

section \<open>The history\<close>

text \<open>The samples the turns record, oldest first; turns that find the statistics switched off start anew.\<close>

fun recorded :: "stat_turn list \<Rightarrow> u64 \<Rightarrow> StatisticsData list \<Rightarrow> StatisticsData list" where
  "recorded [] last_time acc = acc"
| "recorded (e # es) last_time acc =
     (if configStatsFrequency e = 0 then recorded es last_time []
      else if last_time + 1000 \<le> now_ms e then recorded es (now_ms e) (acc @ [(readings e)\<lparr>timestamp := now_ms e\<rparr>])
      else recorded es last_time acc)"

definition keeps_history :: "StatisticsData list \<Rightarrow> stat_buffer \<Rightarrow> bool" where
  "keeps_history acc b \<longleftrightarrow>
     (case b of None \<Rightarrow> acc = []
      | Some xs \<Rightarrow> subseq xs acc \<and> length xs = min (length acc) maxDataCount \<and> (acc \<noteq> [] \<longrightarrow> last xs = last acc))"

lemma add_keeps_history:
  assumes "keeps_history acc b"
  shows "keeps_history (acc @ [d]) (snd (addStatisticData True d f b))"
proof (cases b)
  case None
  then show ?thesis using assms by (simp add: keeps_history_def addStatisticData_def createStatisticsBuffer_def maxDataCount_def)
next
  case (Some xs)
  have xs: "subseq xs acc" "length xs = min (length acc) maxDataCount" using assms Some by (auto simp: keeps_history_def)
  show ?thesis
  proof (cases "length xs < maxDataCount")
    case True
    then show ?thesis using xs Some by (simp add: keeps_history_def add_not_full list_emb_append_mono)
  next
    case False
    then have full: "length xs = maxDataCount" using xs by simp
    have "subseq (without (indexToRemove d f xs) xs) acc" using without_subseq xs(1) subseq_order.order_trans by blast
    then show ?thesis
      using full xs Some index_bound [of d f xs]
      by (simp add: keeps_history_def add_full list_emb_append_mono length_without)
  qed
qed

lemma run_keeps_history:
  "\<forall>e\<in>set es. memory_ok e \<Longrightarrow> keeps_history acc (statisticsBuffer s) \<Longrightarrow>
    keeps_history (recorded es (timestamp (statsData s)) acc) (statisticsBuffer (statistics_run es s))"
proof (induction es arbitrary: s acc)
  case (Cons e es)
  consider "configStatsFrequency e = 0" | "configStatsFrequency e \<noteq> 0" "timestamp (statsData s) + 1000 \<le> now_ms e"
    | "configStatsFrequency e \<noteq> 0" "\<not> timestamp (statsData s) + 1000 \<le> now_ms e" by blast
  then show ?case
  proof cases
    case 1
    have "keeps_history [] None" by (simp add: keeps_history_def)
    then show ?thesis using Cons.IH [of "[]" "statistics_step e s"] Cons.prems 1 by (simp add: statistics_step_def removeStatisticsBuffer_def)
  next
    case 2
    then show ?thesis
      using Cons.IH [of "acc @ [(readings e)\<lparr>timestamp := now_ms e\<rparr>]" "statistics_step e s"] Cons.prems add_keeps_history
      by (simp add: statistics_step_def Let_def)
  next
    case 3
    then show ?thesis using Cons.IH [of acc s] Cons.prems by (simp add: statistics_step_def)
  qed
qed simp

definition second_apart :: "StatisticsData list \<Rightarrow> bool" where
  "second_apart xs \<longleftrightarrow> sorted_wrt (\<lambda>a b. unat (timestamp a) + 1000 \<le> unat (timestamp b)) xs"

lemma recorded_second_apart:
  assumes "\<forall>e\<in>set es. unat (now_ms e) < 2 ^ 63" "second_apart acc" "\<forall>d\<in>set acc. timestamp d \<le> t" "unat t < 2 ^ 63"
  shows "second_apart (recorded es t acc)"
  using assms
proof (induction es arbitrary: t acc)
  case (Cons e es)
  have plus: "unat (t + 1000) = unat t + 1000" using Cons.prems(4) by (subst unat_add_lem [THEN iffD1]) simp_all
  show ?case
  proof (cases "configStatsFrequency e \<noteq> 0 \<and> t + 1000 \<le> now_ms e")
    case True
    then have gap: "unat t + 1000 \<le> unat (now_ms e)" using plus by (simp add: word_le_nat_alt)
    have "unat (timestamp d) \<le> unat t" if "d \<in> set acc" for d using Cons.prems(3) that by (simp add: word_le_nat_alt)
    then have "second_apart (acc @ [(readings e)\<lparr>timestamp := now_ms e\<rparr>])"
      using Cons.prems(2) gap by (fastforce simp: second_apart_def sorted_wrt_append)
    moreover have "\<forall>d\<in>set (acc @ [(readings e)\<lparr>timestamp := now_ms e\<rparr>]). timestamp d \<le> now_ms e"
      using Cons.prems(3) gap by (auto simp: word_le_nat_alt intro: order_trans [of _ "unat t"])
    ultimately show ?thesis using Cons.IH [of "acc @ [(readings e)\<lparr>timestamp := now_ms e\<rparr>]" "now_ms e"] Cons.prems True by simp
  next
    case False
    then show ?thesis using Cons.IH [of acc t] Cons.IH [of "[]" t] Cons.prems by (auto simp: second_apart_def)
  qed
qed simp

lemma second_apart_subseq: "subseq xs ys \<Longrightarrow> second_apart ys \<Longrightarrow> second_apart xs"
proof (induction rule: list_emb.induct)
  case (list_emb_Cons2 x y xs ys)
  then show ?case using list_emb_set by (fastforce simp: second_apart_def)
qed (simp_all add: second_apart_def)

definition stat_start :: "StatisticsData \<Rightarrow> stat_task" where
  "stat_start zero = \<lparr>statsData = zero, statisticsBuffer = None\<rparr>"

text \<open>
  C31. With memory to be had and a clock below 2 to the 63 milliseconds, the history after any number of turns is a
  choice of the samples taken since the statistics were last switched on: as many as there are up to 720, in their
  order, never less than a second apart, the newest among them.
\<close>

theorem history_kept:
  assumes "\<forall>e\<in>set es. memory_ok e \<and> unat (now_ms e) < 2 ^ 63" "timestamp zero = 0"
  shows "case statisticsBuffer (statistics_run es (stat_start zero)) of
      None \<Rightarrow> recorded es 0 [] = []
    | Some xs \<Rightarrow> subseq xs (recorded es 0 []) \<and> length xs = min (length (recorded es 0 [])) 720 \<and> second_apart xs \<and>
        (recorded es 0 [] \<noteq> [] \<longrightarrow> last xs = last (recorded es 0 []))"
proof -
  have "keeps_history (recorded es 0 []) (statisticsBuffer (statistics_run es (stat_start zero)))"
    using run_keeps_history [of es "[]" "stat_start zero"] assms by (simp add: stat_start_def keeps_history_def)
  moreover have "second_apart (recorded es 0 [])"
    using assms by (intro recorded_second_apart) (auto simp: second_apart_def)
  ultimately show ?thesis using second_apart_subseq by (auto simp: keeps_history_def maxDataCount_def split: option.splits)
qed

definition zero_sample :: StatisticsData where
  "zero_sample = \<lparr>timestamp = 0, stat_hashrate = 0, stat_hashrate_1m = 0, stat_hashrate_10m = 0, stat_hashrate_1h = 0,
     errorPercentage = 0, chipTemperature = 0, chipTemperature2 = 0, vrTemperature = 0, stat_power = 0, stat_voltage = 0,
     stat_current = 0, coreVoltageActual = 0, fanSpeed = 0, fanRPM = 0, fan2RPM = 0, wifiRSSI = 0, freeHeap = 0, responseTime = 0\<rparr>"

definition example_turns :: "stat_turn list" where
  "example_turns = map (\<lambda>(t, f). \<lparr>now_ms = t, configStatsFrequency = f, readings = zero_sample, memory_ok = True\<rparr>)
     [(1500, 1), (2400, 1), (2600, 1), (3700, 1)]"

theorem history_kept_witness:
  "\<exists>xs. statisticsBuffer (statistics_run example_turns (stat_start zero_sample)) = Some xs \<and> length xs = 3 \<and> second_apart xs"
proof -
  have r: "length (recorded example_turns 0 []) = 3" by code_simp
  have "\<forall>e\<in>set example_turns. memory_ok e \<and> unat (now_ms e) < 2 ^ 63" by (simp add: example_turns_def)
  then show ?thesis
    using history_kept [of example_turns zero_sample] r by (auto simp: zero_sample_def split: option.splits)
qed

lemma target_duration: "unat ((of_nat maxDataCount :: u64) * ucast (f :: u16) * 1000) = 720 * unat f * 1000"
proof -
  have "unat f < 65536" using unsigned_less [where ?'a = nat, of f] by simp
  then have "720 * unat f * 1000 < 2 ^ 64" by simp
  then have "unat (of_nat (720 * unat f * 1000) :: u64) = 720 * unat f * 1000" by (simp add: unsigned_of_nat take_bit_nat_eq_self del: of_nat_mult)
  moreover have "(of_nat (720 * unat f * 1000) :: u64) = of_nat maxDataCount * ucast f * 1000"
    by (simp add: maxDataCount_def)
  ultimately show ?thesis by simp
qed

text \<open>
  A sample that meets a full history always comes in, as the newest of 720, for exactly one that goes: the oldest
  one when the history spans 720 times the frequency of the settings, one that is not the oldest otherwise.
\<close>

theorem full_history_thinned:
  assumes "length xs = 720"
  shows "\<exists>ys. addStatisticData malloc_ok d f (Some xs) = (True, Some (ys @ [d])) \<and> length ys = 719 \<and> subseq ys xs \<and>
    (if 720 * unat f * 1000 \<le> unat (timestamp d - timestamp (hd xs)) then ys = tl xs else hd ys = hd xs)"
proof -
  define i where "i = indexToRemove d f xs"
  have i: "i < 720" using index_bound [of d f xs] by (simp add: i_def maxDataCount_def)
  have ne: "xs \<noteq> []" using assms by auto
  then have hd: "xs ! 0 = hd xs" by (simp add: hd_conv_nth)
  have span: "(of_nat maxDataCount :: u64) * ucast f * 1000 \<le> timestamp d - timestamp (hd xs) \<longleftrightarrow>
      720 * unat f * 1000 \<le> unat (timestamp d - timestamp (hd xs))"
    by (simp only: word_le_nat_alt target_duration)
  have "if 720 * unat f * 1000 \<le> unat (timestamp d - timestamp (hd xs)) then without i xs = tl xs else hd (without i xs) = hd xs"
  proof (cases "720 * unat f * 1000 \<le> unat (timestamp d - timestamp (hd xs))")
    case True
    then have "i = 0" using span hd by (simp add: i_def indexToRemove_def Let_def)
    then show ?thesis using True by (simp add: without_def drop_Suc)
  next
    case False
    then have "i = thin_loop xs 1 719" using span hd by (simp add: i_def indexToRemove_def Let_def maxDataCount_def)
    then have "0 < i" using thin_loop_bounds [of 1 719 xs] by simp
    then show ?thesis using False ne by (cases xs; cases i) (auto simp: without_def)
  qed
  moreover have "addStatisticData malloc_ok d f (Some xs) = (True, Some (without i xs @ [d]))"
    using add_full [of xs malloc_ok d f] assms by (simp add: i_def maxDataCount_def)
  ultimately show ?thesis using i assms length_without [of i xs] without_subseq [of i xs] by (intro exI [of _ "without i xs"]) auto
qed

theorem full_history_thinned_witness:
  "\<exists>ys. addStatisticData True (zero_sample\<lparr>timestamp := 720000\<rparr>) 1 (Some (replicate 720 zero_sample)) = (True, Some (ys @ [zero_sample\<lparr>timestamp := 720000\<rparr>])) \<and>
     ys = tl (replicate 720 zero_sample)"
proof -
  have "720 * unat (1 :: u16) * 1000 \<le> unat (timestamp (zero_sample\<lparr>timestamp := 720000\<rparr>) - timestamp (hd (replicate 720 zero_sample)))"
    by (simp add: zero_sample_def)
  then show ?thesis
    using full_history_thinned [of "replicate 720 zero_sample" True "zero_sample\<lparr>timestamp := 720000\<rparr>" 1] by (simp only: length_replicate if_True) blast
qed

end
