(* ===== verification/Hashrate_Monitor.thy ===== *)
theory Hashrate_Monitor
  imports Asic Asic_Result
begin

text \<open>
  \<open>main/tasks/hashrate_monitor_task.c\<close>: the hash rates measured from the counters of the chips, per chip and hash
  domain, and their averages over a minute, ten minutes and an hour. Floating-point operations are rounded; the
  averages' arrays hold \<open>None\<close> for NaN. The lock makes every operation on the measurements atomic.
\<close>

section \<open>Measurements\<close>

definition EPSILON_BURST_US :: u64 where "EPSILON_BURST_US = 1000000"
definition HASHRATE_UNIT :: nat where "HASHRATE_UNIT = 0x100000"
definition POLL_RATE :: nat where "POLL_RATE = 1000"
definition HASHRATE_1M_SIZE :: nat where "HASHRATE_1M_SIZE = 60000 div POLL_RATE"
definition HASHRATE_10M_SIZE :: nat where "HASHRATE_10M_SIZE = 10"
definition HASHRATE_1H_SIZE :: nat where "HASHRATE_1H_SIZE = 6"
definition DIV_10M :: nat where "DIV_10M = HASHRATE_1M_SIZE"
definition DIV_1H :: nat where "DIV_1H = HASHRATE_10M_SIZE * DIV_10M"

record measurement =
  counter_value :: u32
  time_us :: u64
  hashrate :: rat

definition zero_measurement :: measurement where
  "zero_measurement = \<lparr>counter_value = 0, time_us = 0, hashrate = 0\<rparr>"

text \<open>
  The arrays of the module, one entry a chip, the domains one after the other as they are allocated;
  \<open>is_initialized\<close> says that they are.
\<close>

record hashrate_monitor =
  total_measurement :: "measurement list"
  domain_measurements :: "measurement list"
  error_measurement :: "measurement list"
  is_initialized :: bool

definition sum_hashrates :: "measurement list \<Rightarrow> rat" where
  "sum_hashrates ms = (if length ms = 1 then hashrate (ms ! 0) else fold (\<lambda>m total. f32 (total + hashrate m)) ms 0)"

definition hashrate_monitor_reset_measurements :: "nat \<Rightarrow> nat \<Rightarrow> hashrate_monitor \<Rightarrow> hashrate_monitor" where
  "hashrate_monitor_reset_measurements asic_n domain_n h =
     (if \<not> is_initialized h then h
      else h\<lparr>total_measurement := replicate asic_n zero_measurement, domain_measurements := replicate (asic_n * domain_n) zero_measurement,
             error_measurement := replicate asic_n zero_measurement\<rparr>)"

definition update_hashrate :: "u32 \<Rightarrow> measurement \<Rightarrow> measurement" where
  "update_hashrate v m =
     (let flag_long = drop_bit 31 (v AND 0x80000000); hashrate_value = v AND 0x7FFFFFFF
      in if hashrate_value \<noteq> 0x007FFFFF \<and> flag_long = 0
         then m\<lparr>hashrate := f32 (f32 (f32 (of_nat (unat hashrate_value)) * of_nat HASHRATE_UNIT) / f32 1000000000)\<rparr> else m)"

definition update_hash_counter :: "u32 \<Rightarrow> u64 \<Rightarrow> measurement \<Rightarrow> measurement" where
  "update_hash_counter v t m =
     (if time_us m \<noteq> 0 then
        let duration_us = t - time_us m
        in if duration_us < EPSILON_BURST_US then m
           else m\<lparr>hashrate := hashCounterToGhs duration_us (v - counter_value m), counter_value := v, time_us := t\<rparr>
      else m\<lparr>counter_value := v, time_us := t\<rparr>)"

text \<open>A change of one entry; \<open>None\<close> when it lies outside the array, where C writes into other memory.\<close>

definition change_at :: "nat \<Rightarrow> ('a \<Rightarrow> 'a) \<Rightarrow> 'a list \<Rightarrow> 'a list option" where
  "change_at i f xs = (if i < length xs then Some (xs[i := f (xs ! i)]) else None)"

definition change_total :: "nat \<Rightarrow> (measurement \<Rightarrow> measurement) \<Rightarrow> hashrate_monitor \<Rightarrow> hashrate_monitor option" where
  "change_total i f h = map_option (\<lambda>x. h\<lparr>total_measurement := x\<rparr>) (change_at i f (total_measurement h))"

definition change_domain :: "nat \<Rightarrow> (measurement \<Rightarrow> measurement) \<Rightarrow> hashrate_monitor \<Rightarrow> hashrate_monitor option" where
  "change_domain i f h = map_option (\<lambda>x. h\<lparr>domain_measurements := x\<rparr>) (change_at i f (domain_measurements h))"

definition change_error :: "nat \<Rightarrow> (measurement \<Rightarrow> measurement) \<Rightarrow> hashrate_monitor \<Rightarrow> hashrate_monitor option" where
  "change_error i f h = map_option (\<lambda>x. h\<lparr>error_measurement := x\<rparr>) (change_at i f (error_measurement h))"

text \<open>
  Domain \<open>k\<close> of chip \<open>n\<close> is entry \<open>n * hash_domains + k\<close> of the one allocation: an index that is too large for its
  chip but inside the allocation belongs to the next chip.
\<close>

definition hashrate_monitor_register_read ::
  "nat \<Rightarrow> nat \<Rightarrow> register_type \<Rightarrow> u8 \<Rightarrow> u32 \<Rightarrow> u64 \<Rightarrow> hashrate_monitor \<Rightarrow> hashrate_monitor option" where
  "hashrate_monitor_register_read asic_n domain_n reg_type asic_nr v t h =
     (let n = unat asic_nr; domain = (\<lambda>k. change_domain (n * domain_n + k) (update_hash_counter v t) h)
      in if asic_n \<le> n then Some h
         else case reg_type of
                REGISTER_HASHRATE \<Rightarrow> Option.bind (change_total n (update_hashrate v) h) (change_domain (n * domain_n) (update_hashrate v))
              | REGISTER_TOTAL_COUNT \<Rightarrow> change_total n (update_hash_counter v t) h
              | REGISTER_DOMAIN_0_COUNT \<Rightarrow> domain 0
              | REGISTER_DOMAIN_1_COUNT \<Rightarrow> domain 1
              | REGISTER_DOMAIN_2_COUNT \<Rightarrow> domain 2
              | REGISTER_DOMAIN_3_COUNT \<Rightarrow> domain 3
              | REGISTER_ERROR_COUNT \<Rightarrow> change_error n (update_hash_counter v t) h
              | REGISTER_PLL_PARAM \<Rightarrow> Some h
              | REGISTER_INVALID \<Rightarrow> Some h)"

section \<open>Averages\<close>

record averages =
  poll_count :: u32
  arr_1m :: "rat option list"
  arr_10m :: "rat option list"
  arr_1h :: "rat option list"
  hashrate_10m_prev :: "rat option"
  hashrate_1h_prev :: "rat option"
  avg_1m :: rat
  avg_10m :: rat
  avg_1h :: rat

definition init_averages :: "averages \<Rightarrow> averages" where
  "init_averages a = a\<lparr>arr_1m := replicate HASHRATE_1M_SIZE None, arr_10m := replicate HASHRATE_10M_SIZE None,
     arr_1h := replicate HASHRATE_1H_SIZE None\<rparr>"

definition calculate_avg_nan_safe :: "rat option list \<Rightarrow> rat" where
  "calculate_avg_nan_safe arr =
     (case fold (\<lambda>x (s, n). case x of None \<Rightarrow> (s, n) | Some v \<Rightarrow> (f32 (s + v), n + 1)) arr (0, 0 :: nat) of
        (s, n) \<Rightarrow> if 0 < n then f32 (s / f32 (of_nat n)) else 0)"

text \<open>The share \<open>(blend + 1) / n\<close> of the new value, the rest of what the array held when its slot was begun.\<close>

definition blend_with :: "nat \<Rightarrow> nat \<Rightarrow> rat option \<Rightarrow> rat \<Rightarrow> rat" where
  "blend_with blend n prev x =
     (case prev of
        None \<Rightarrow> x
      | Some p \<Rightarrow> let f = f32 (f32 (f32 (of_nat blend) + 1) / f32 (of_nat n))
                  in f32 (f32 (f * x) + f32 (f32 (1 - f) * p)))"

definition update_hashrate_averages :: "rat \<Rightarrow> averages \<Rightarrow> averages" where
  "update_hashrate_averages current a =
     (let polls = unat (poll_count a);
          m1 = (arr_1m a)[polls mod HASHRATE_1M_SIZE := Some current]; v1 = calculate_avg_nan_safe m1;
          blend10 = polls mod HASHRATE_1M_SIZE; i10 = (polls div DIV_10M) mod HASHRATE_10M_SIZE;
          prev10 = (if blend10 = 0 then arr_10m a ! i10 else hashrate_10m_prev a);
          m10 = (arr_10m a)[i10 := Some (blend_with blend10 HASHRATE_1M_SIZE prev10 v1)]; v10 = calculate_avg_nan_safe m10;
          blend1h = polls mod DIV_1H; i1h = (polls div DIV_1H) mod HASHRATE_1H_SIZE;
          prev1h = (if blend1h = 0 then arr_1h a ! i1h else hashrate_1h_prev a);
          m1h = (arr_1h a)[i1h := Some (blend_with blend1h DIV_1H prev1h v10)]; v1h = calculate_avg_nan_safe m1h
      in a\<lparr>poll_count := poll_count a + 1, arr_1m := m1, arr_10m := m10, arr_1h := m1h, hashrate_10m_prev := prev10,
           hashrate_1h_prev := prev1h, avg_1m := v1, avg_10m := v10, avg_1h := v1h\<rparr>)"

section \<open>The task\<close>

record monitor_task =
  mon :: hashrate_monitor
  avgs :: averages
  was_asic_initialized :: bool
  current_hashrate :: rat
  error_percentage :: rat

definition zero_averages :: averages where
  "zero_averages = \<lparr>poll_count = 0, arr_1m = [], arr_10m = [], arr_1h = [], hashrate_10m_prev = Some 0, hashrate_1h_prev = Some 0,
     avg_1m = 0, avg_10m = 0, avg_1h = 0\<rparr>"

definition monitor_start :: "nat \<Rightarrow> nat \<Rightarrow> monitor_task" where
  "monitor_start asic_n domain_n =
     \<lparr>mon = hashrate_monitor_reset_measurements asic_n domain_n
        \<lparr>total_measurement = [], domain_measurements = [], error_measurement = [], is_initialized = True\<rparr>,
      avgs = init_averages zero_averages, was_asic_initialized = False, current_hashrate = 0, error_percentage = 0\<rparr>"

text \<open>
  One turn of the loop: \<open>answers\<close> are the register reads that come in before the rates are summed up (while the turn
  waits for them when the chips run, or from earlier requests when they do not), \<open>late\<close> those that come in behind that,
  before the next turn. Both write, whether the chips run or not. \<open>None\<close>: a write outside an array.
\<close>

type_synonym register_answer = "register_type \<times> u8 \<times> u32 \<times> u64"

fun read_answers :: "nat \<Rightarrow> nat \<Rightarrow> register_answer list \<Rightarrow> hashrate_monitor \<Rightarrow> hashrate_monitor option" where
  "read_answers asic_n domain_n [] h = Some h"
| "read_answers asic_n domain_n ((r, nr, v, t) # as) h =
     Option.bind (hashrate_monitor_register_read asic_n domain_n r nr v t h) (read_answers asic_n domain_n as)"

definition monitor_turn ::
  "nat \<Rightarrow> nat \<Rightarrow> bool \<Rightarrow> register_answer list \<Rightarrow> register_answer list \<Rightarrow> monitor_task \<Rightarrow> monitor_task option" where
  "monitor_turn asic_n domain_n up answers late s =
     (let h0 = (if was_asic_initialized s \<and> \<not> up then hashrate_monitor_reset_measurements asic_n domain_n (mon s) else mon s);
          s0 = s\<lparr>was_asic_initialized := up\<rparr>
      in Option.bind (read_answers asic_n domain_n answers h0) (\<lambda>h.
         Option.bind (read_answers asic_n domain_n late h) (\<lambda>h1.
           let current = sum_hashrates (total_measurement h); err = sum_hashrates (error_measurement h)
           in Some (if up then s0\<lparr>mon := h1, current_hashrate := current,
                       error_percentage := (if 0 < current then f32 (f32 (err / current) * 100) else 0),
                       avgs := (if 0 < current then update_hashrate_averages current (avgs s0) else avgs s0)\<rparr>
                    else s0\<lparr>mon := h1, current_hashrate := 0\<rparr>))))"

type_synonym monitor_wait = "bool \<times> register_answer list \<times> register_answer list"

fun monitor_run :: "nat \<Rightarrow> nat \<Rightarrow> monitor_wait list \<Rightarrow> monitor_task \<Rightarrow> monitor_task option" where
  "monitor_run asic_n domain_n [] s = Some s"
| "monitor_run asic_n domain_n ((up, answers, late) # ts) s =
     Option.bind (monitor_turn asic_n domain_n up answers late s) (monitor_run asic_n domain_n ts)"

text \<open>\<open>hash_domains\<close> of the chips (\<open>main/device_config.h\<close>).\<close>

definition hash_domains :: "asic_id \<Rightarrow> nat" where
  "hash_domains a = (case a of BM1397 \<Rightarrow> 1 | _ \<Rightarrow> 4)"

section \<open>Every register read stays in its array\<close>

definition register_map :: "asic_id \<Rightarrow> register_type list" where
  "register_map a = (case a of BM1397 \<Rightarrow> BM1397_REGISTER_MAP | BM1366 \<Rightarrow> BM1366_REGISTER_MAP | BM1368 \<Rightarrow> BM1368_REGISTER_MAP
     | BM1370 \<Rightarrow> BM1370_REGISTER_MAP)"

lemma register_response_type:
  "register_response M i now frame = Result r \<Longrightarrow> result_register_type r \<in> set M"
  by (auto simp: register_response_def Let_def split: if_splits option.splits)

definition job_type :: "outcome \<Rightarrow> bool" where
  "job_type oc \<longleftrightarrow> (\<forall>r. oc = Result r \<longrightarrow> result_register_type r = REGISTER_INVALID)"

lemma job_responses:
  "job_type (fst (BM1397_job_response d7 tb now frame))" "job_type (BM1366_job_response d tb now frame)"
  "job_type (BM1368_job_response d tb now frame)" "job_type (BM1370_job_response d tb now frame)"
  by (auto simp: job_type_def BM1397_job_response_def BM1366_job_response_def BM1368_job_response_def BM1370_job_response_def
      empty_result_def Let_def split: option.splits if_splits)

lemma processed_type:
  assumes "asic s = Some a" "fst (ASIC_process_work s now frame) = Result r"
  shows "result_register_type r \<in> set (register_map a) \<or> result_register_type r = REGISTER_INVALID"
  using assms job_responses
  by (cases a) (auto simp: ASIC_process_work_def register_map_def job_type_def BM1397_process_work_def BM1366_process_work_def
      BM1368_process_work_def BM1370_process_work_def Let_def dest: register_response_type split: prod.splits option.splits if_splits)

lemma map_types:
  "set (register_map BM1397) \<subseteq> {REGISTER_INVALID, REGISTER_HASHRATE, REGISTER_ERROR_COUNT}"
  by (auto simp: register_map_def BM1397_REGISTER_MAP_def dest!: set_update_subset_insert [THEN subsetD])

definition sized :: "nat \<Rightarrow> nat \<Rightarrow> hashrate_monitor \<Rightarrow> bool" where
  "sized asic_n domain_n h \<longleftrightarrow> is_initialized h \<and> length (total_measurement h) = asic_n \<and>
     length (domain_measurements h) = asic_n * domain_n \<and> length (error_measurement h) = asic_n"

lemma change_sized:
  assumes "sized asic_n domain_n h"
  shows "i < asic_n \<Longrightarrow> \<exists>h'. change_total i f h = Some h' \<and> sized asic_n domain_n h'"
    "i < asic_n \<Longrightarrow> \<exists>h'. change_error i f h = Some h' \<and> sized asic_n domain_n h'"
    "i < asic_n * domain_n \<Longrightarrow> \<exists>h'. change_domain i f h = Some h' \<and> sized asic_n domain_n h'"
  using assms by (simp_all add: sized_def change_total_def change_error_def change_domain_def change_at_def)

lemma domain_index: "n < a \<Longrightarrow> k < d \<Longrightarrow> n * d + k < a * d" for n :: nat
proof -
  assume "n < a" "k < d"
  then have "n * d + k < Suc n * d" by simp
  also have "\<dots> \<le> a * d" using \<open>n < a\<close> by (intro mult_right_mono) simp_all
  finally show ?thesis .
qed

lemma register_read_sized:
  assumes "sized asic_n (hash_domains a) h" "reg \<in> set (register_map a) \<or> reg = REGISTER_INVALID"
  shows "\<exists>h'. hashrate_monitor_register_read asic_n (hash_domains a) reg nr v t h = Some h' \<and> sized asic_n (hash_domains a) h'"
proof (cases "asic_n \<le> unat nr")
  case True
  then show ?thesis using assms by (simp add: hashrate_monitor_register_read_def)
next
  case False
  then have n: "unat nr < asic_n" by simp
  have d: "k < hash_domains a \<Longrightarrow> unat nr * hash_domains a + k < asic_n * hash_domains a" for k by (rule domain_index [OF n])
  have pos: "0 < hash_domains a" by (simp add: hash_domains_def split: asic_id.splits)
  have four: "a \<noteq> BM1397 \<Longrightarrow> hash_domains a = 4" by (cases a) (simp_all add: hash_domains_def)
  note ch = change_sized [OF assms(1)]
  have dom: "\<exists>h'. change_domain (unat nr * hash_domains a + k) f h = Some h' \<and> sized asic_n (hash_domains a) h'"
    if "k < hash_domains a" for k f using ch(3) d that by blast
  have hr: "\<exists>h'. Option.bind (change_total (unat nr) f h) (change_domain (unat nr * hash_domains a) f) = Some h' \<and> sized asic_n (hash_domains a) h'" for f
  proof -
    obtain h1 where h1: "change_total (unat nr) f h = Some h1" "sized asic_n (hash_domains a) h1" using ch(1) n by blast
    then show ?thesis using change_sized(3) [OF h1(2), of "unat nr * hash_domains a"] d [OF pos] by simp
  qed
  have "a = BM1397 \<longrightarrow> reg \<in> {REGISTER_INVALID, REGISTER_HASHRATE, REGISTER_ERROR_COUNT}" using assms(2) map_types by auto
  then show ?thesis
    using False ch(1,2) [OF n] hr assms(1) dom [of 0] dom [of 1] dom [of 2] dom [of 3] four pos
    by (cases reg) (auto simp: hashrate_monitor_register_read_def Let_def)
qed

definition known :: "asic_id \<Rightarrow> register_answer \<Rightarrow> bool" where
  "known a x \<longleftrightarrow> fst x \<in> set (register_map a) \<or> fst x = REGISTER_INVALID"

lemma answers_sized:
  "sized asic_n (hash_domains a) h \<Longrightarrow> \<forall>x \<in> set as. known a x \<Longrightarrow>
    \<exists>h'. read_answers asic_n (hash_domains a) as h = Some h' \<and> sized asic_n (hash_domains a) h'"
proof (induction as arbitrary: h)
  case (Cons x as)
  obtain r nr v t where x: "x = (r, nr, v, t)" by (metis prod_cases4)
  then obtain h1 where "hashrate_monitor_register_read asic_n (hash_domains a) r nr v t h = Some h1" "sized asic_n (hash_domains a) h1"
    using register_read_sized [OF Cons.prems(1), of r nr v t] Cons.prems(2) x by (fastforce simp: known_def)
  then show ?case using Cons.IH [of h1] Cons.prems(2) x by auto
qed simp

lemma reset_sized: "is_initialized h \<Longrightarrow> sized n d (hashrate_monitor_reset_measurements n d h)"
  by (simp add: sized_def hashrate_monitor_reset_measurements_def)

lemma turn_sized:
  assumes "sized asic_n (hash_domains a) (mon s)" "\<forall>x \<in> set answers. known a x" "\<forall>x \<in> set late. known a x"
  shows "\<exists>s'. monitor_turn asic_n (hash_domains a) up answers late s = Some s' \<and> sized asic_n (hash_domains a) (mon s')"
proof -
  define h0 where "h0 = (if was_asic_initialized s \<and> \<not> up then hashrate_monitor_reset_measurements asic_n (hash_domains a) (mon s) else mon s)"
  have h0: "sized asic_n (hash_domains a) h0" using assms(1) reset_sized by (simp add: h0_def) (simp add: sized_def)
  obtain h where h: "read_answers asic_n (hash_domains a) answers h0 = Some h" "sized asic_n (hash_domains a) h"
    using answers_sized [OF h0 assms(2)] by blast
  obtain h1 where "read_answers asic_n (hash_domains a) late h = Some h1" "sized asic_n (hash_domains a) h1"
    using answers_sized [OF h(2) assms(3)] by blast
  then show ?thesis using h by (simp add: monitor_turn_def h0_def [symmetric] Let_def)
qed

lemma run_sized:
  "sized asic_n (hash_domains a) (mon s) \<Longrightarrow>
   \<forall>(up, answers, late) \<in> set ts. \<forall>x \<in> set answers \<union> set late. known a x \<Longrightarrow>
   \<exists>s'. monitor_run asic_n (hash_domains a) ts s = Some s'"
proof (induction ts arbitrary: s)
  case (Cons x ts)
  obtain up answers late where x: "x = (up, answers, late)" by (metis prod_cases3)
  have as: "\<forall>x \<in> set answers. known a x" "\<forall>x \<in> set late. known a x" using Cons.prems(2) x by auto
  obtain s1 where s1: "monitor_turn asic_n (hash_domains a) up answers late s = Some s1" "sized asic_n (hash_domains a) (mon s1)"
    using turn_sized [OF Cons.prems(1) as] by blast
  have "\<exists>s'. monitor_run asic_n (hash_domains a) ts s1 = Some s'"
    by (rule Cons.IH [OF s1(2)]) (use Cons.prems(2) in simp)
  then show ?case using x s1(1) by simp
qed simp

text \<open>What the driver of the chip makes of an answer, whatever bytes come in.\<close>

definition reported_by :: "asic_id \<Rightarrow> register_answer \<Rightarrow> bool" where
  "reported_by a x \<longleftrightarrow> (\<exists>s now frame r. asic s = Some a \<and> fst (ASIC_process_work s now frame) = Result r \<and>
     x = (result_register_type r, result_asic_nr r, result_value r, result_timestamp_us r))"

text \<open>
  C34. The register reads that the chips' drivers report never make the hash rate monitor write outside its arrays,
  whatever the frames say, whenever they come in (also while the chips are stopped) and however often the chips stop
  and start: with the number of hash domains that the
  device configuration gives for the chip.
\<close>

theorem register_reads_in_bounds:
  assumes "\<forall>(up, answers, late) \<in> set ts. \<forall>x \<in> set answers \<union> set late. reported_by a x"
  shows "monitor_run asic_n (hash_domains a) ts (monitor_start asic_n (hash_domains a)) \<noteq> None"
proof -
  have "sized asic_n (hash_domains a) (mon (monitor_start asic_n (hash_domains a)))"
    by (simp add: monitor_start_def reset_sized)
  moreover have "known a x" if "reported_by a x" for x
    using that processed_type unfolding reported_by_def known_def by (metis fst_conv)
  then have "\<forall>(up, answers, late) \<in> set ts. \<forall>x \<in> set answers \<union> set late. known a x" using assms by blast
  ultimately show ?thesis using run_sized [of asic_n a "monitor_start asic_n (hash_domains a)" ts] by blast
qed

definition example_frame :: bytes where
  "example_frame = [0xAA, 0x55, 0, 0, 1, 0, 0x00, 0x8B, 0, 0, 0x12]"

theorem register_reads_in_bounds_witness:
  "monitor_run 1 4 [(True, [(REGISTER_DOMAIN_3_COUNT, 0, 256, 7)], []), (False, [], [(REGISTER_DOMAIN_3_COUNT, 0, 256, 7)]), (True, [], [])] (monitor_start 1 4) \<noteq> None"
proof -
  have rx: "receive_work 11 (Rx_Bytes example_frame) = (Some example_frame, False)"
    by (simp add: receive_work_def be16_at_def PREAMBLE_def crc5_eval example_frame_def)
  have last: "\<not> is_job_response example_frame" by code_simp
  have reg: "BM1370_REGISTER_MAP ! 0x8B = REGISTER_DOMAIN_3_COUNT" "length BM1370_REGISTER_MAP = 0x8D"
    by (simp_all add: BM1370_REGISTER_MAP_def)
  have v: "(be_word (slice 2 4 example_frame) :: u32) = 256" by code_simp
  have nr: "chip_of_address (address_interval example_driver) 0 = Some 0" by code_simp
  have "register_response BM1370_REGISTER_MAP (address_interval example_driver) 7 example_frame =
      Result (empty_result 7 \<lparr>result_register_type := REGISTER_DOMAIN_3_COUNT, result_value := 256\<rparr>)"
    using reg v nr by (simp add: register_response_def example_frame_def empty_result_def Let_def)
  then have "fst (ASIC_process_work (example_state BM1370) 7 (Rx_Bytes example_frame)) =
      Result (empty_result 7 \<lparr>result_register_type := REGISTER_DOMAIN_3_COUNT, result_value := 256\<rparr>)"
    using rx last by (simp add: ASIC_process_work_def BM1370_process_work_def example_state_def Let_def)
  then have "reported_by BM1370 (REGISTER_DOMAIN_3_COUNT, 0, 256, 7)"
    unfolding reported_by_def
    by (intro exI [of _ "example_state BM1370"] exI [of _ 7] exI [of _ "Rx_Bytes example_frame"]
        exI [of _ "empty_result 7 \<lparr>result_register_type := REGISTER_DOMAIN_3_COUNT, result_value := 256\<rparr>"])
      (simp add: example_state_def empty_result_def)
  then show ?thesis
    using register_reads_in_bounds [of "[(True, [(REGISTER_DOMAIN_3_COUNT, 0, 256, 7)], []), (False, [], [(REGISTER_DOMAIN_3_COUNT, 0, 256, 7)]), (True, [], [])]" BM1370 1]
    by (simp add: hash_domains_def del: monitor_run.simps)
qed

section \<open>The counters and the minute\<close>

text \<open>
  Two reads of a counter at least a second apart give the rate of what it counted between them, although the
  register holds the count modulo 2 to the 32; the first read of a cleared measurement gives no rate.
\<close>

lemma counter_rate:
  assumes "c1 \<le> c2" "t1 \<noteq> 0" "1000000 \<le> t2 - t1"
  shows "hashrate (update_hash_counter (of_nat c1) t1 zero_measurement) = 0"
    "hashrate (update_hash_counter (of_nat c2) t2 (update_hash_counter (of_nat c1) t1 zero_measurement)) =
      hashCounterToGhs (t2 - t1) (of_nat (c2 - c1))"
proof -
  have "\<not> t2 - t1 < 1000000" using assms(3) by (simp add: not_less)
  then show "hashrate (update_hash_counter (of_nat c1) t1 zero_measurement) = 0"
    "hashrate (update_hash_counter (of_nat c2) t2 (update_hash_counter (of_nat c1) t1 zero_measurement)) =
      hashCounterToGhs (t2 - t1) (of_nat (c2 - c1))"
    using assms(1,2) by (simp_all add: update_hash_counter_def zero_measurement_def EPSILON_BURST_US_def of_nat_diff Let_def)
qed

definition minute_slots :: "rat list \<Rightarrow> rat option list" where
  "minute_slots cs = map (\<lambda>j. if j < length cs then Some (cs ! (j + 60 * ((length cs - 1 - j) div 60))) else None) [0..<60]"

lemma slot_step:
  assumes "j < 60" "j < n" "j \<noteq> n mod 60"
  shows "(n - j) div 60 = (n - 1 - j) div (60 :: nat)"
proof -
  have "(n - j) mod 60 \<noteq> 0"
  proof
    assume "(n - j) mod 60 = 0"
    then obtain k where "n - j = 60 * k" by auto
    then have "n = 60 * k + j" using assms(2) by simp
    then have "n mod 60 = j" using assms(1) by simp
    with assms(3) show False by simp
  qed
  then obtain q r where "n - j = 60 * q + r" "0 < r" "r < 60"
    by (metis mod_less_divisor mult_div_mod_eq zero_less_iff_neq_zero zero_less_numeral)
  then show ?thesis by simp
qed

lemma minute_slots_snoc:
  "minute_slots (cs @ [c]) = (minute_slots cs)[length cs mod 60 := Some c]"
proof (rule nth_equalityI)
  fix j assume "j < length (minute_slots (cs @ [c]))"
  then have j: "j < 60" by (simp add: minute_slots_def)
  let ?n = "length cs"
  show "minute_slots (cs @ [c]) ! j = (minute_slots cs)[?n mod 60 := Some c] ! j"
  proof (cases "j = ?n mod 60")
    case True
    have "?n - j = 60 * (?n div 60)" using True by (simp add: minus_mod_eq_mult_div)
    moreover have "j \<le> ?n" using True by simp
    ultimately have "j + 60 * ((?n - j) div 60) = ?n" by simp
    then show ?thesis using j True by (simp add: minute_slots_def nth_append)
  next
    case False
    then have ne: "j \<noteq> ?n" using j by auto
    have "(cs @ [c]) ! (j + 60 * ((?n - j) div 60)) = cs ! (j + 60 * ((?n - 1 - j) div 60))" if "j < ?n"
    proof -
      have "60 * ((?n - 1 - j) div 60) \<le> ?n - 1 - j" by simp
      then have "j + 60 * ((?n - 1 - j) div 60) < ?n" using that by linarith
      then show ?thesis using slot_step [OF j that False] by (simp add: nth_append)
    qed
    then show ?thesis using j False ne by (simp add: minute_slots_def)
  qed
qed (simp add: minute_slots_def)

text \<open>
  After any number of measured rates (below 2 to the 32) the minute's array holds the newest sixty of them, each
  where the number of its poll falls modulo sixty and nothing where none has been, and the minute's average shown is
  the mean of exactly those.
\<close>

theorem minute_average:
  assumes "length cs < 2 ^ 32"
  shows "arr_1m (fold update_hashrate_averages cs (init_averages zero_averages)) = minute_slots cs \<and>
    (cs \<noteq> [] \<longrightarrow> avg_1m (fold update_hashrate_averages cs (init_averages zero_averages)) = calculate_avg_nan_safe (minute_slots cs))"
proof -
  have "poll_count (fold update_hashrate_averages cs (init_averages zero_averages)) = of_nat (length cs) \<and>
      arr_1m (fold update_hashrate_averages cs (init_averages zero_averages)) = minute_slots cs \<and>
      (cs \<noteq> [] \<longrightarrow> avg_1m (fold update_hashrate_averages cs (init_averages zero_averages)) = calculate_avg_nan_safe (minute_slots cs))"
    using assms
  proof (induction cs rule: rev_induct)
    case Nil
    then show ?case
      by (simp add: init_averages_def zero_averages_def minute_slots_def HASHRATE_1M_SIZE_def POLL_RATE_def map_replicate_const)
  next
    case (snoc c cs)
    have "unat (of_nat (length cs) :: u32) = length cs" using snoc.prems by (simp add: unsigned_of_nat take_bit_nat_eq_self)
    then show ?case
      using snoc by (simp add: update_hashrate_averages_def minute_slots_snoc HASHRATE_1M_SIZE_def POLL_RATE_def Let_def)
  qed
  then show ?thesis by blast
qed

theorem minute_average_witness:
  "avg_1m (fold update_hashrate_averages [500, 700] (init_averages zero_averages)) = 600"
proof -
  have "minute_slots [500, 700] = [Some 500, Some 700] @ replicate 58 None"
    by (rule nth_equalityI) (auto simp: minute_slots_def nth_append less_Suc_eq numeral_2_eq_2)
  then have "calculate_avg_nan_safe (minute_slots [500, 700]) = f32 (f32 (f32 500 + 700) / f32 (of_nat 2))"
    by (simp add: calculate_avg_nan_safe_def numeral_eq_Suc)
  then show ?thesis using minute_average [of "[500, 700]"] by simp
qed

end
