(* ===== verification/Dns_Server.thy ===== *)
theory Dns_Server
  imports Prelude
begin

text \<open>
  \<open>components/dns_server/dns_server.c\<close>: the small DNS server of the access point, which answers questions for
  addresses with the device's own address so that a browser finds the set-up page. A request is a datagram; every
  read is checked against the bytes that were received and every write against the size of the array it goes to
  (the caller's \<open>dns_reply\<close>, the local \<open>name[128]\<close>): \<open>None\<close> is a read or a write outside.
\<close>

section \<open>Requests\<close>

definition DNS_MAX_LEN :: nat where "DNS_MAX_LEN = 256"
definition OPCODE_MASK :: u16 where "OPCODE_MASK = 0x7800"
definition QR_FLAG :: u16 where "QR_FLAG = 0x80"
definition QD_TYPE_A :: u16 where "QD_TYPE_A = 1"
definition ANS_TTL_SEC :: u32 where "ANS_TTL_SEC = 300"
definition DNS_HEADER_SIZE :: nat where "DNS_HEADER_SIZE = 12"
definition DNS_QUESTION_SIZE :: nat where "DNS_QUESTION_SIZE = 4"
definition DNS_ANSWER_SIZE :: nat where "DNS_ANSWER_SIZE = 16"

text \<open>A rule: a name, or a star for all, and the interface or the address to answer with.\<close>

record dns_entry_pair =
  entry_name :: bytes
  if_key :: "bytes option"
  entry_ip :: u32

text \<open>\<open>end_at\<close> is the end of the received bytes: a read at or behind it is outside.\<close>

definition byte_at :: "nat \<Rightarrow> bytes \<Rightarrow> nat \<Rightarrow> u8 option" where
  "byte_at end_at buf i = (if i < end_at \<and> i < length buf then Some (buf ! i) else None)"

definition bytes_at :: "nat \<Rightarrow> bytes \<Rightarrow> nat \<Rightarrow> nat \<Rightarrow> bytes option" where
  "bytes_at end_at buf i n = (if i + n \<le> end_at \<and> i + n \<le> length buf then Some (slice i n buf) else None)"

definition put_at :: "nat \<Rightarrow> bytes \<Rightarrow> bytes \<Rightarrow> bytes option" where
  "put_at off src buf = (if off + length src \<le> length buf then Some (store_at off src buf) else None)"

definition dot :: u8 where "dot = 0x2E"

text \<open>
  \<open>parse_dns_name\<close>: \<open>Some None\<close> is the null pointer, \<open>Some (Some (p, name))\<close> the offset behind the name and the
  caller's array with the name and its terminator.
\<close>

function parse_name_loop :: "bytes \<Rightarrow> nat \<Rightarrow> nat \<Rightarrow> nat \<Rightarrow> nat \<Rightarrow> nat \<Rightarrow> bytes \<Rightarrow> (nat \<times> bytes) option option" where
  "parse_name_loop buf end_at max_len label name_itr name_len parsed_name =
     (if end_at \<le> label then Some None
      else Option.bind (byte_at end_at buf label) (\<lambda>b.
        let sub_name_len = unat b
        in if end_at \<le> label + 1 + sub_name_len then Some None
           else let name_len1 = name_len + (sub_name_len + 1)
                in if max_len < name_len1 then Some None
                   else Option.bind (bytes_at end_at buf (label + 1) sub_name_len) (\<lambda>sub.
                     Option.bind (put_at name_itr sub parsed_name) (\<lambda>name1.
                     Option.bind (put_at (name_itr + sub_name_len) [dot] name1) (\<lambda>name2.
                     let name_itr1 = name_itr + (sub_name_len + 1); label1 = label + (sub_name_len + 1)
                     in Option.bind (byte_at end_at buf label1) (\<lambda>next_len.
                          if next_len \<noteq> 0 then parse_name_loop buf end_at max_len label1 name_itr1 name_len1 name2
                          else Option.bind (put_at (name_len1 - 1) [0] name2) (\<lambda>name3. Some (Some (label1 + 1, name3)))))))))"
  by pat_completeness auto
termination by (relation "measure (\<lambda>(buf, end_at, max_len, label, name_itr, name_len, parsed_name). end_at - label)") auto

declare parse_name_loop.simps [simp del]

definition parse_dns_name :: "bytes \<Rightarrow> nat \<Rightarrow> nat \<Rightarrow> bytes \<Rightarrow> nat \<Rightarrow> (nat \<times> bytes) option option" where
  "parse_dns_name buf raw_name raw_name_end parsed_name parsed_name_max_len =
     parse_name_loop buf raw_name_end parsed_name_max_len raw_name 0 0 parsed_name"

text \<open>An array read as a string by \<open>strcmp\<close>: without a terminator the read leaves the array.\<close>

definition c_string :: "bytes \<Rightarrow> bytes option" where
  "c_string s = (if 0 \<in> set s then Some (takeWhile (\<lambda>b. b \<noteq> 0) s) else None)"

text \<open>
  The first rule for the name that has an interface, or, when the address of the very first rule is set, an
  address; 0 when there is none. \<open>netif_ip\<close> gives the address of an interface.
\<close>

fun choose_ip :: "(bytes \<Rightarrow> u32) \<Rightarrow> u32 \<Rightarrow> bytes \<Rightarrow> dns_entry_pair list \<Rightarrow> u32" where
  "choose_ip netif_ip first_ip name [] = 0"
| "choose_ip netif_ip first_ip name (e # es) =
     (if entry_name e = [0x2A] \<or> entry_name e = name then
        (case if_key e of
           Some key \<Rightarrow> netif_ip key
         | None \<Rightarrow> if first_ip \<noteq> 0 then entry_ip e else choose_ip netif_ip first_ip name es)
      else choose_ip netif_ip first_ip name es)"

definition dns_answer :: "u16 \<Rightarrow> u16 \<Rightarrow> u16 \<Rightarrow> u32 \<Rightarrow> bytes" where
  "dns_answer ptr typ cls ip = be_bytes 2 ptr @ be_bytes 2 typ @ be_bytes 2 cls @ be_bytes 4 ANS_TTL_SEC @ be_bytes 2 (4 :: u16) @ le_bytes 4 ip"

definition NAME_SIZE :: nat where "NAME_SIZE = 128"

text \<open>
  One round of the loop over the questions. The array \<open>name\<close> is not initialised in the code; nothing of it is read
  before it is written, so zeros stand for its contents.
\<close>

definition answer_question :: "(bytes \<Rightarrow> u32) \<Rightarrow> dns_entry_pair list \<Rightarrow> nat \<Rightarrow> bytes \<Rightarrow> bytes option option" where
  "answer_question netif_ip entries req_len reply =
     (let cur_qd = DNS_HEADER_SIZE; cur_ans = req_len
      in case parse_dns_name reply cur_qd req_len (replicate NAME_SIZE 0) 128 of
           None \<Rightarrow> None
         | Some None \<Rightarrow> Some None
         | Some (Some (name_end, name)) \<Rightarrow>
             if req_len < name_end + DNS_QUESTION_SIZE then Some None
             else Option.bind (bytes_at req_len reply name_end 4) (\<lambda>question.
               let qd_type = be_word (take 2 question) :: u16; qd_class = be_word (drop 2 question) :: u16
               in if qd_type = QD_TYPE_A then
                    Option.bind (c_string name) (\<lambda>str.
                    let ip = choose_ip netif_ip (case entries of [] \<Rightarrow> 0 | e # _ \<Rightarrow> entry_ip e) str entries
                    in if ip = 0 then Some (Some reply)
                       else map_option Some (put_at cur_ans (dns_answer (0xC000 OR of_nat cur_qd) qd_type qd_class ip) reply))
                  else Some (Some reply)))"

text \<open>Every round of the loop works on the same question and the same place for the answer.\<close>

fun answer_all :: "(bytes \<Rightarrow> u32) \<Rightarrow> dns_entry_pair list \<Rightarrow> nat \<Rightarrow> nat \<Rightarrow> bytes \<Rightarrow> bytes option option" where
  "answer_all netif_ip entries req_len 0 reply = Some (Some reply)"
| "answer_all netif_ip entries req_len (Suc n) reply =
     (case answer_question netif_ip entries req_len reply of
        None \<Rightarrow> None
      | Some None \<Rightarrow> Some None
      | Some (Some reply1) \<Rightarrow> answer_all netif_ip entries req_len n reply1)"

text \<open>
  \<open>parse_dns_request\<close>: the length of the reply (-1 or 0 for none) and what the caller's buffer holds afterwards.
  The flags are read as the little-endian word the processor sees.
\<close>

definition parse_dns_request :: "(bytes \<Rightarrow> u32) \<Rightarrow> dns_entry_pair list \<Rightarrow> bytes \<Rightarrow> bytes \<Rightarrow> nat \<Rightarrow> (int \<times> bytes) option" where
  "parse_dns_request netif_ip entries req dns_reply dns_reply_max_len =
     (let req_len = length req
      in if dns_reply_max_len < req_len then Some (- 1, dns_reply)
         else if req_len < DNS_HEADER_SIZE then Some (- 1, dns_reply)
         else Option.bind (put_at 0 (replicate dns_reply_max_len 0) dns_reply) (\<lambda>blank.
              Option.bind (put_at 0 req blank) (\<lambda>reply.
              Option.bind (bytes_at (length reply) reply 2 2) (\<lambda>flag_bytes.
              let flags = le_word flag_bytes :: u16
              in if flags AND OPCODE_MASK \<noteq> 0 then Some (0, reply)
                 else Option.bind (put_at 2 (le_bytes 2 (flags OR QR_FLAG)) reply) (\<lambda>reply1.
                      Option.bind (bytes_at (length reply1) reply1 4 2) (\<lambda>count_bytes.
                      let qd_count = unat (be_word count_bytes :: u16)
                      in Option.bind (put_at 6 (be_bytes 2 (of_nat qd_count :: u16)) reply1) (\<lambda>reply2.
                         let reply_len = qd_count * DNS_ANSWER_SIZE + req_len
                         in if dns_reply_max_len < reply_len then Some (- 1, reply2)
                            else case answer_all netif_ip entries req_len qd_count reply2 of
                                   None \<Rightarrow> None
                                 | Some None \<Rightarrow> Some (- 1, reply2)
                                 | Some (Some reply3) \<Rightarrow> Some (int reply_len, reply3))))))))"

section \<open>The task\<close>

text \<open>
  One socket: what \<open>recvfrom\<close> gives (\<open>None\<close> is an error), whether a reply could be sent, and what happens. A
  datagram is cut to the 127 bytes of the receive buffer; the reply is built in an array of 256 bytes.
\<close>

datatype dns_event = Sent_Reply bytes | Socket_Shutdown | Socket_Closed

fun dns_socket :: "(bytes \<Rightarrow> u32) \<Rightarrow> dns_entry_pair list \<Rightarrow> (bytes option \<times> bool) list \<Rightarrow> dns_event list option" where
  "dns_socket netif_ip entries [] = Some [Socket_Shutdown, Socket_Closed]"
| "dns_socket netif_ip entries ((None, ok) # rs) = Some [Socket_Closed, Socket_Shutdown, Socket_Closed]"
| "dns_socket netif_ip entries ((Some d, ok) # rs) =
     (case parse_dns_request netif_ip entries (take 127 d) (replicate DNS_MAX_LEN 0) DNS_MAX_LEN of
        None \<Rightarrow> None
      | Some (reply_len, reply) \<Rightarrow>
          if reply_len \<le> 0 then dns_socket netif_ip entries rs
          else Option.bind (bytes_at (length reply) reply 0 (nat reply_len)) (\<lambda>msg.
            if ok then map_option ((#) (Sent_Reply msg)) (dns_socket netif_ip entries rs)
            else Some [Socket_Shutdown, Socket_Closed]))"

section \<open>Nothing is read or written outside\<close>

lemma put_at_fits: "off + length src \<le> length buf \<Longrightarrow> put_at off src buf = Some (store_at off src buf)"
  by (simp add: put_at_def)

lemma store_label:
  "a + length s + 1 \<le> length name \<Longrightarrow> store_at (a + length s) [d] (store_at a s name) = store_at a (s @ [d]) name"
  by (simp add: store_at_def)

lemma name_step:
  assumes "label + 1 + unat (buf ! label) < end_at" "end_at \<le> length buf"
    "name_len + (unat (buf ! label) + 1) \<le> max_len" "max_len \<le> length name"
  defines "sub \<equiv> slice (label + 1) (unat (buf ! label)) buf" and "l1 \<equiv> label + (unat (buf ! label) + 1)"
    and "n1 \<equiv> name_len + (unat (buf ! label) + 1)"
  shows "parse_name_loop buf end_at max_len label name_len name_len name =
    (if buf ! l1 \<noteq> 0 then parse_name_loop buf end_at max_len l1 n1 n1 (store_at name_len (sub @ [dot]) name)
     else Some (Some (l1 + 1, store_at (n1 - 1) [0] (store_at name_len (sub @ [dot]) name))))"
proof -
  have len: "length sub = unat (buf ! label)" using assms by (simp add: sub_def slice_def)
  have "byte_at end_at buf label = Some (buf ! label)" "byte_at end_at buf l1 = Some (buf ! l1)"
    "bytes_at end_at buf (label + 1) (unat (buf ! label)) = Some sub"
    using assms by (simp_all add: byte_at_def bytes_at_def sub_def l1_def)
  moreover have "put_at name_len sub name = Some (store_at name_len sub name)"
    "put_at (name_len + unat (buf ! label)) [dot] (store_at name_len sub name) = Some (store_at name_len (sub @ [dot]) name)"
    using assms(3,4) len store_label [of name_len sub name dot] by (simp_all add: put_at_fits)
  moreover have "put_at (n1 - 1) [0] (store_at name_len (sub @ [dot]) name) = Some (store_at (n1 - 1) [0] (store_at name_len (sub @ [dot]) name))"
    using assms(3,4) len by (simp add: put_at_fits n1_def)
  ultimately show ?thesis
    using assms(1,3) by (subst parse_name_loop.simps) (simp add: Let_def l1_def n1_def)
qed

lemma name_loop_inside:
  "end_at \<le> length buf \<Longrightarrow> name_itr = name_len \<Longrightarrow> max_len \<le> length name \<Longrightarrow>
   \<exists>r. parse_name_loop buf end_at max_len label name_itr name_len name = Some r \<and>
     (\<forall>p name'. r = Some (p, name') \<longrightarrow> p \<le> end_at \<and> 0 \<in> set name')"
proof (induction "end_at - label" arbitrary: label name_itr name_len name rule: less_induct)
  case less
  let ?n = "unat (buf ! label)"
  show ?case
  proof (cases "label + 1 + ?n < end_at \<and> name_len + (?n + 1) \<le> max_len")
    case False
    have "byte_at end_at buf label = Some (buf ! label)" if "label < end_at" using that less.prems by (simp add: byte_at_def)
    then show ?thesis using False by (subst parse_name_loop.simps) (auto simp: Let_def not_less)
  next
    case True
    let ?sub = "slice (label + 1) ?n buf @ [dot]" and ?n1 = "name_len + (?n + 1)" and ?l1 = "label + (?n + 1)"
    let ?name = "store_at name_len ?sub name"
    have step: "parse_name_loop buf end_at max_len label name_len name_len name =
       (if buf ! ?l1 \<noteq> 0 then parse_name_loop buf end_at max_len ?l1 ?n1 ?n1 ?name
        else Some (Some (?l1 + 1, store_at (?n1 - 1) [0] ?name)))"
      using True less.prems by (intro name_step) auto
    have "length (slice (label + 1) ?n buf) = ?n" using True less.prems(1) by (auto simp: slice_def)
    then have len: "length ?name = length name" using True less.prems by (intro length_store_at) simp
    have "0 \<in> set (store_at (?n1 - 1) [0] ?name)" by (simp add: store_at_def)
    moreover have "\<exists>r. parse_name_loop buf end_at max_len ?l1 ?n1 ?n1 ?name = Some r \<and>
        (\<forall>p name'. r = Some (p, name') \<longrightarrow> p \<le> end_at \<and> 0 \<in> set name')"
      using True less.prems len by (intro less.hyps) auto
    ultimately show ?thesis unfolding less.prems(2) step using True by (cases "buf ! ?l1 = 0") auto
  qed
qed

lemma answer_inside:
  assumes "req_len + DNS_ANSWER_SIZE \<le> length reply"
  shows "\<exists>r. answer_question netif_ip entries req_len reply = Some r \<and> (\<forall>reply1. r = Some reply1 \<longrightarrow> length reply1 = length reply)"
proof -
  obtain r where r: "parse_dns_name reply DNS_HEADER_SIZE req_len (replicate NAME_SIZE 0) 128 = Some r"
    "\<forall>p name. r = Some (p, name) \<longrightarrow> 0 \<in> set name"
    using name_loop_inside [of req_len reply 0 0 128 "replicate NAME_SIZE 0" DNS_HEADER_SIZE] assms
    by (fastforce simp: parse_dns_name_def NAME_SIZE_def)
  show ?thesis
  proof (cases r)
    case None
    then show ?thesis using r by (simp add: answer_question_def Let_def)
  next
    case (Some x)
    obtain p name where x: "x = (p, name)" by fastforce
    then obtain str where str: "c_string name = Some str" using r Some by (auto simp: c_string_def)
    show ?thesis
    proof (cases "req_len < p + DNS_QUESTION_SIZE")
      case True
      then show ?thesis using r Some x by (simp add: answer_question_def Let_def)
    next
      case False
      then have "bytes_at req_len reply p 4 = Some (slice p 4 reply)"
        using assms by (simp add: bytes_at_def DNS_QUESTION_SIZE_def)
      then show ?thesis
        using r Some x str False assms by (auto simp: answer_question_def dns_answer_def DNS_ANSWER_SIZE_def put_at_def Let_def)
    qed
  qed
qed

lemma answers_inside:
  "req_len + DNS_ANSWER_SIZE \<le> length reply \<or> n = 0 \<Longrightarrow>
   \<exists>r. answer_all netif_ip entries req_len n reply = Some r \<and> (\<forall>reply1. r = Some reply1 \<longrightarrow> length reply1 = length reply)"
proof (induction n arbitrary: reply)
  case (Suc n)
  obtain r where r: "answer_question netif_ip entries req_len reply = Some r" "\<forall>reply1. r = Some reply1 \<longrightarrow> length reply1 = length reply"
    using answer_inside [of req_len reply netif_ip entries] Suc.prems by auto
  show ?case
  proof (cases r)
    case (Some reply1)
    then have "length reply1 = length reply" using r by simp
    then show ?thesis using Suc.IH [of reply1] Suc.prems r Some by auto
  qed (use r in simp)
qed simp

lemma request_inside:
  assumes len: "length dns_reply = max_len"
  shows "\<exists>reply_len reply. parse_dns_request netif_ip entries req dns_reply max_len = Some (reply_len, reply) \<and>
    length reply = max_len \<and> reply_len \<le> int max_len"
proof (cases "max_len < length req \<or> length req < DNS_HEADER_SIZE")
  case True
  then show ?thesis using len by (cases "max_len < length req") (simp_all add: parse_dns_request_def Let_def)
next
  case False
  define reply where "reply = store_at 0 req (replicate max_len (0 :: u8))"
  define reply1 where "reply1 = store_at 2 (le_bytes 2 ((le_word (slice 2 2 reply) :: u16) OR QR_FLAG)) reply"
  define n where "n = unat (be_word (slice 4 2 reply1) :: u16)"
  define reply2 where "reply2 = store_at 6 (be_bytes 2 (of_nat n :: u16)) reply1"
  have size: "12 \<le> max_len" "length req \<le> max_len" using False by (auto simp: DNS_HEADER_SIZE_def)
  have l: "length reply = max_len" "length reply1 = max_len" "length reply2 = max_len"
    using size by (simp_all add: reply_def reply1_def reply2_def)
  have p: "put_at 0 (replicate max_len 0) dns_reply = Some (replicate max_len 0)" "put_at 0 req (replicate max_len 0) = Some reply"
    "bytes_at (length reply) reply 2 2 = Some (slice 2 2 reply)"
    "put_at 2 (le_bytes 2 ((le_word (slice 2 2 reply) :: u16) OR QR_FLAG)) reply = Some reply1"
    "bytes_at (length reply1) reply1 4 2 = Some (slice 4 2 reply1)"
    "put_at 6 (be_bytes 2 (of_nat n :: u16)) reply1 = Some reply2"
    using size l len by (simp_all add: put_at_def bytes_at_def reply_def reply1_def reply2_def) (simp add: store_at_def)
  have ans: "\<exists>r. answer_all netif_ip entries (length req) n reply2 = Some r \<and> (\<forall>reply3. r = Some reply3 \<longrightarrow> length reply3 = max_len)"
    if "n * 16 + length req \<le> max_len"
    using answers_inside [of "length req" reply2 n netif_ip entries] that l by (cases n) (auto simp: DNS_ANSWER_SIZE_def)
  show ?thesis
  proof (cases "max_len < n * 16 + length req")
    case True
    then show ?thesis using False p l by (simp add: parse_dns_request_def DNS_ANSWER_SIZE_def Let_def n_def [symmetric] del: of_nat_unat)
  next
    case fits: False
    then obtain r where "answer_all netif_ip entries (length req) n reply2 = Some r" "\<forall>reply3. r = Some reply3 \<longrightarrow> length reply3 = max_len"
      using ans by auto
    then show ?thesis using False p l fits by (cases r) (auto simp: parse_dns_request_def DNS_ANSWER_SIZE_def Let_def n_def [symmetric] simp del: of_nat_unat)
  qed
qed

text \<open>
  C36. No datagram makes the DNS server read outside the bytes it received or write outside its arrays, whatever
  lengths and counts the datagram claims, for any rules: with a reply buffer of the size it is told, the request is
  parsed without an access outside that buffer or outside \<open>name[128]\<close>, and the length of the reply is at most the
  buffer's. So a socket of the task serves any datagrams, and every reply it sends has at most 256 bytes.
\<close>

theorem dns_in_bounds:
  assumes "length dns_reply = max_len"
  shows "(\<exists>reply_len reply. parse_dns_request netif_ip entries req dns_reply max_len = Some (reply_len, reply) \<and>
      length reply = max_len \<and> reply_len \<le> int max_len) \<and>
    (\<exists>evs. dns_socket netif_ip entries rs = Some evs \<and> (\<forall>msg. Sent_Reply msg \<in> set evs \<longrightarrow> length msg \<le> 256))"
proof (rule conjI)
  show "\<exists>evs. dns_socket netif_ip entries rs = Some evs \<and> (\<forall>msg. Sent_Reply msg \<in> set evs \<longrightarrow> length msg \<le> 256)"
  proof (induction netif_ip entries rs rule: dns_socket.induct)
    case (3 netif_ip entries d ok rs)
    obtain n reply where r: "parse_dns_request netif_ip entries (take 127 d) (replicate DNS_MAX_LEN 0) DNS_MAX_LEN = Some (n, reply)"
      "length reply = 256" "n \<le> 256"
      using request_inside [of "replicate DNS_MAX_LEN 0" DNS_MAX_LEN netif_ip entries "take 127 d"] by (auto simp: DNS_MAX_LEN_def)
    then have "n \<le> 0 \<or> bytes_at (length reply) reply 0 (nat n) = Some (slice 0 (nat n) reply) \<and> length (slice 0 (nat n) reply) \<le> 256"
      by (auto simp: bytes_at_def slice_def)
    moreover have "\<exists>evs. dns_socket netif_ip entries rs = Some evs \<and> (\<forall>msg. Sent_Reply msg \<in> set evs \<longrightarrow> length msg \<le> 256)"
      if "n \<le> 0 \<or> ok" using that 3 r calculation by (cases "n \<le> 0") auto
    ultimately show ?case using r(1) by (cases "n \<le> 0"; cases ok) auto
  qed simp_all
qed (rule request_inside [OF assms])

theorem dns_in_bounds_witness:
  "\<exists>n reply. parse_dns_request (\<lambda>_. 1) [] (replicate 300 0xFF) (replicate 256 0) 256 = Some (n, reply) \<and> length reply = 256 \<and> n \<le> 256"
  using dns_in_bounds [of "replicate 256 0" 256 "\<lambda>_. 1" "[]" "replicate 300 0xFF" "[]"] by simp

section \<open>What a question is answered with\<close>

definition labels_text :: "bytes list \<Rightarrow> bytes" where
  "labels_text ls = concat (map (\<lambda>l. of_nat (length l) # l) ls) @ [0]"

definition dotted :: "bytes list \<Rightarrow> bytes" where
  "dotted ls = concat (map (\<lambda>l. l @ [dot]) ls)"

lemma labels_text_Cons: "labels_text (l # ls) = of_nat (length l) # l @ labels_text ls"
  by (simp add: labels_text_def)

lemma labels_text_nonempty: "labels_text ls \<noteq> []" by (simp add: labels_text_def)

lemma label_length: "length l < 256 \<Longrightarrow> unat (of_nat (length l) :: u8) = length l"
  by (simp add: unsigned_of_nat take_bit_nat_eq_self)

lemma slice_mid: "slice (length xs) (length ys) (xs @ ys @ zs) = ys"
  by (simp add: slice_def)

lemma name_loop_reads:
  assumes "ls \<noteq> []" "\<forall>l\<in>set ls. 0 < length l \<and> length l < 64" "n + length (dotted ls) \<le> mx" "mx \<le> length name"
    "end_at = length (pre @ labels_text ls @ post)" "end_at \<le> length (pre @ labels_text ls @ post @ rest)"
  shows "\<exists>name'. parse_name_loop (pre @ labels_text ls @ post @ rest) end_at mx (length pre) n n name =
    Some (Some (length pre + length (labels_text ls), name')) \<and>
    take (n + length (dotted ls)) name' = butlast (take n name @ dotted ls) @ [0]"
  using assms
proof (induction ls arbitrary: pre n name)
  case (Cons l ls)
  have l: "0 < length l" "length l < 64" using Cons.prems by auto
  have un: "unat (of_nat (length l) :: u8) = length l" using l by (simp add: label_length)
  let ?buf = "pre @ labels_text (l # ls) @ post @ rest" and ?name = "store_at n (l @ [dot]) name"
  let ?l1 = "length pre + (length l + 1)" and ?n1 = "n + (length l + 1)"
  have buf: "?buf = (pre @ [of_nat (length l)]) @ l @ labels_text ls @ post @ rest" by (simp add: labels_text_Cons)
  have e: "end_at = length pre + 1 + length l + length (labels_text ls) + length post" "end_at \<le> length ?buf"
    using Cons.prems by (simp_all add: labels_text_Cons)
  have pos: "0 < length (labels_text ls)" using labels_text_nonempty [of ls] by simp
  have size: "?n1 \<le> mx" "mx \<le> length name" using Cons.prems(3,4) by (simp_all add: dotted_def)
  have at: "?buf ! length pre = of_nat (length l)" by (simp add: labels_text_Cons nth_append)
  have sub: "slice (length pre + 1) (length l) ?buf = l"
    using slice_mid [of "pre @ [of_nat (length l)]" l "labels_text ls @ post @ rest"] by (simp add: buf)
  have nx: "?buf ! ?l1 = hd (labels_text ls)"
    using pos by (simp add: labels_text_Cons nth_append hd_conv_nth [OF labels_text_nonempty])
  have step: "parse_name_loop ?buf end_at mx (length pre) n n name =
      (if hd (labels_text ls) \<noteq> 0 then parse_name_loop ?buf end_at mx ?l1 ?n1 ?n1 ?name
       else Some (Some (?l1 + 1, store_at (?n1 - 1) [0] ?name)))"
    using name_step [of "length pre" ?buf end_at n mx name] e pos size unfolding at un sub nx by simp
  have written: "take ?n1 ?name = take n name @ l @ [dot]" "length ?name = length name"
    using size by (simp_all add: store_at_def)
  show ?case
  proof (cases ls)
    case Nil
    have "take ?n1 (store_at (?n1 - 1) [0] ?name) = butlast (take n name @ l @ [dot]) @ [0]"
      using size by (simp add: store_at_def butlast_append)
    then show ?thesis unfolding step by (simp add: Nil labels_text_def dotted_def)
  next
    case (Cons l2 ls2)
    have l2: "0 < length l2" "length l2 < 64" using Cons.prems(2) \<open>ls = l2 # ls2\<close> by auto
    have "unat (of_nat (length l2) :: u8) \<noteq> 0" using l2 by (simp add: label_length)
    then have more: "hd (labels_text ls) \<noteq> 0" using Cons by (auto simp: labels_text_Cons)
    have "\<exists>name'. parse_name_loop ((pre @ of_nat (length l) # l) @ labels_text ls @ post @ rest) end_at mx (length (pre @ of_nat (length l) # l))
        ?n1 ?n1 ?name = Some (Some (length (pre @ of_nat (length l) # l) + length (labels_text ls), name')) \<and>
        take (?n1 + length (dotted ls)) name' = butlast (take ?n1 ?name @ dotted ls) @ [0]"
      using Cons.prems e Cons written(2) by (intro Cons.IH) (auto simp: dotted_def)
    then show ?thesis unfolding step using more written(1) by (simp add: labels_text_Cons dotted_def ac_simps del: butlast_append)
  qed
qed simp

lemma parsed_string:
  assumes "take k name = xs @ [0]" "k \<le> length name"
  shows "c_string name = Some (takeWhile (\<lambda>b. b \<noteq> 0) xs)"
proof -
  have n: "name = xs @ [0] @ drop k name" using append_take_drop_id [of k name] assms by simp
  have "0 \<in> set name" by (subst n) simp
  moreover have "takeWhile (\<lambda>b. b \<noteq> 0) name = takeWhile (\<lambda>b. b \<noteq> 0) xs"
    by (subst n) (induction xs; simp)
  ultimately show ?thesis by (simp add: c_string_def)
qed

definition dns_query :: "u8 \<Rightarrow> u8 \<Rightarrow> u8 \<Rightarrow> u8 \<Rightarrow> bytes \<Rightarrow> bytes list \<Rightarrow> u16 \<Rightarrow> bytes" where
  "dns_query i0 i1 f2 f3 counts ls cls = [i0, i1, f2, f3, 0, 1] @ counts @ labels_text ls @ [0, 1] @ be_bytes 2 cls"

lemma flags_word:
  "(le_word [f2, f3] :: u16) AND OPCODE_MASK = 0 \<longleftrightarrow> f3 AND 0x78 = 0"
  "le_bytes 2 ((le_word [f2, f3] :: u16) OR QR_FLAG) = [f2 OR 0x80, f3]"
proof -
  have w: "(le_word [f2, f3] :: u16) = ucast f2 OR push_bit 8 (ucast f3)" by simp
  have mask: "(ucast f2 OR push_bit 8 (ucast f3)) AND push_bit 8 (ucast k) = (push_bit 8 (ucast (f3 AND k)) :: u16)" for k :: u8
    by (rule word_eq_by_bits) (auto simp: bit_simps dest: bit_imp_le_length)
  have a: "(le_word [f2, f3] :: u16) AND OPCODE_MASK = push_bit 8 (ucast (f3 AND 0x78))"
    using mask [of "0x78"] by (simp add: OPCODE_MASK_def)
  have "push_bit 8 (ucast b :: u16) = 0 \<longleftrightarrow> b = 0" for b :: u8
  proof
    assume "push_bit 8 (ucast b :: u16) = 0"
    then have "bit (push_bit 8 (ucast b :: u16)) (n + 8) = False" for n by simp
    then have "n < 8 \<Longrightarrow> bit b n = bit (0 :: u8) n" for n by (simp add: bit_simps)
    then show "b = 0" by (intro word_eq_by_bits) simp
  qed simp
  then show "(le_word [f2, f3] :: u16) AND OPCODE_MASK = 0 \<longleftrightarrow> f3 AND 0x78 = 0" by (simp only: a)
  have low: "ucast ((ucast f2 OR push_bit 8 (ucast f3)) OR ucast k :: u16) = f2 OR k" for k :: u8
    by (rule word_eq_by_bits) (auto simp: bit_simps dest: bit_imp_le_length)
  have high: "ucast (drop_bit 8 ((ucast f2 OR push_bit 8 (ucast f3)) OR ucast k :: u16)) = f3" for k :: u8
    by (rule word_eq_by_bits) (auto simp: bit_simps dest: bit_imp_le_length)
  have "QR_FLAG = ucast (0x80 :: u8)" by (simp add: QR_FLAG_def)
  then show "le_bytes 2 ((le_word [f2, f3] :: u16) OR QR_FLAG) = [f2 OR 0x80, f3]"
    using low [of "0x80"] high [of "0x80"] unfolding w by (simp only: le_bytes_def numeral_2_eq_2) (simp add: upt_rec)
qed

lemma dotted_labels: "length (labels_text ls) = length (dotted ls) + 1"
  by (induction ls) (simp_all add: labels_text_def dotted_def)

lemma store_start: "length xs + n = m \<Longrightarrow> store_at 0 xs (replicate m 0) = xs @ replicate n 0"
  by (auto simp: store_at_def)

definition query_name :: "bytes list \<Rightarrow> bytes" where
  "query_name ls = takeWhile (\<lambda>b. b \<noteq> 0) (butlast (dotted ls))"

text \<open>A standard query with one question for an address, up to the choice of the address.\<close>

lemma request_answered:
  fixes netif_ip entries
  assumes "ls \<noteq> []" "\<forall>l\<in>set ls. 0 < length l \<and> length l < 64" "length (dotted ls) \<le> 128" "length counts = 6" "f3 AND 0x78 = 0"
  defines "ip \<equiv> choose_ip netif_ip (case entries of [] \<Rightarrow> 0 | e # _ \<Rightarrow> entry_ip e) (query_name ls) entries"
  shows "\<exists>reply n. parse_dns_request netif_ip entries (dns_query i0 i1 f2 f3 counts ls cls) (replicate 256 x) 256 = Some (int n, reply) \<and>
    take n reply = [i0, i1, f2 OR 0x80, f3, 0, 1, 0, 1] @ drop 2 counts @ labels_text ls @ [0, 1] @ be_bytes 2 cls @
      (if ip = 0 then replicate 16 0 else dns_answer 0xC00C QD_TYPE_A cls ip)"
proof -
  let ?q = "dns_query i0 i1 f2 f3 counts ls cls" and ?tail = "[0, 1] @ be_bytes 2 cls"
  define pre where "pre = [i0, i1, f2 OR 0x80, f3, 0, 1, 0, 1] @ drop 2 counts"
  define n where "n = 256 - length ?q"
  have pre: "length pre = 12" using assms(4) by (simp add: pre_def)
  have q: "length ?q = 16 + length (labels_text ls)" using assms(4) by (simp add: dns_query_def)
  then have small: "length ?q + 16 \<le> 256" "length ?q + n = 256" using assms(3) dotted_labels [of ls] by (simp_all add: n_def)
  define reply where "reply = ?q @ replicate n (0 :: u8)"
  have blank: "put_at 0 (replicate 256 0) (replicate 256 x) = Some (replicate 256 0)" by (simp add: put_at_def store_at_def)
  have r: "put_at 0 ?q (replicate 256 0) = Some reply" using small by (simp add: reply_def store_start put_at_def)
  have len1: "length reply = 256" using small by (simp add: reply_def)
  have fl: "bytes_at (length reply) reply 2 2 = Some [f2, f3]" unfolding bytes_at_def len1 by (simp add: reply_def dns_query_def slice_def)
  have cnt: "unat (be_word [0, 1] :: u16) = 1" by (simp add: be_word_def)
  have one: "be_bytes 2 (of_nat 1 :: u16) = [0, 1]" by code_simp
  define reply1 where "reply1 = store_at 2 [f2 OR 0x80, f3] reply"
  have r1: "put_at 2 [f2 OR 0x80, f3] reply = Some reply1" "length reply1 = 256" by (simp_all add: put_at_def len1 reply1_def)
  have ct: "bytes_at (length reply1) reply1 4 2 = Some [0, 1]"
    unfolding bytes_at_def r1(2) by (simp add: reply1_def reply_def dns_query_def slice_def store_at_def)
  define reply2 where "reply2 = pre @ labels_text ls @ ?tail @ replicate n 0"
  obtain c0 c1 cs where counts: "counts = c0 # c1 # cs" using assms(4) by (cases counts; cases "tl counts") auto
  have "store_at 6 [0, 1] reply1 = reply2"
    by (simp add: reply1_def reply_def reply2_def pre_def counts dns_query_def store_at_def numeral_eq_Suc)
  then have r2: "put_at 6 [0, 1] reply1 = Some reply2" using r1 by (simp add: put_at_def)
  have len2: "length reply2 = 256" using small q pre by (simp add: reply2_def)
  obtain name where name: "parse_dns_name reply2 12 (length ?q) (replicate NAME_SIZE 0) 128 = Some (Some (12 + length (labels_text ls), name))"
    "take (length (dotted ls)) name = butlast (dotted ls) @ [0]"
    using name_loop_reads [of ls 0 128 "replicate NAME_SIZE 0" "length ?q" pre ?tail "replicate n 0"] assms(1-3) pre q
    by (auto simp: parse_dns_name_def reply2_def NAME_SIZE_def)
  have "length (dotted ls) \<noteq> 0" using assms(1) by (cases ls) (simp_all add: dotted_def)
  then have "length (butlast (dotted ls) @ [0 :: u8]) = length (dotted ls)" by simp
  then have "length (dotted ls) \<le> length name" using name(2) by (metis length_take min.cobounded1)
  then have str: "c_string name = Some (query_name ls)" unfolding query_name_def by (rule parsed_string [OF name(2)])
  have quest: "bytes_at (length ?q) reply2 (12 + length (labels_text ls)) 4 = Some ?tail"
    using q len2 small slice_mid [of "pre @ labels_text ls" ?tail "replicate n 0"] pre by (simp add: bytes_at_def reply2_def)
  have types: "(be_word (take 2 ?tail) :: u16) = QD_TYPE_A" "(be_word (drop 2 ?tail) :: u16) = cls"
    using be_word_be_bytes [of 2 cls] by (simp_all add: be_word_def QD_TYPE_A_def)
  have ptr: "(0xC000 :: u16) OR of_nat DNS_HEADER_SIZE = 0xC00C" by (simp add: DNS_HEADER_SIZE_def)
  let ?ans = "dns_answer 0xC00C QD_TYPE_A cls ip"
  let ?out = "if ip = 0 then reply2 else store_at (length ?q) ?ans reply2"
  have la: "length ?ans = 16" by (simp add: dns_answer_def)
  then have "put_at (length ?q) ?ans reply2 = Some (store_at (length ?q) ?ans reply2)" using len2 small by (simp add: put_at_def)
  then have "answer_question netif_ip entries (length ?q) reply2 = Some (Some ?out)"
    using name(1) str quest types ptr q len2 small
    by (simp add: answer_question_def DNS_HEADER_SIZE_def DNS_QUESTION_SIZE_def ip_def Let_def)
  then have all: "answer_all netif_ip entries (length ?q) 1 reply2 = Some (Some ?out)" by simp
  have "parse_dns_request netif_ip entries ?q (replicate 256 x) 256 = Some (int (16 + length ?q), ?out)"
    using small q blank r fl r1 ct cnt one r2 all assms(5) flags_word [of f2 f3]
    by (simp add: parse_dns_request_def DNS_HEADER_SIZE_def DNS_ANSWER_SIZE_def Let_def del: of_nat_unat)
  moreover have "16 \<le> n" using small by simp
  then have "take (16 + length ?q) ?out = pre @ labels_text ls @ ?tail @ (if ip = 0 then replicate 16 0 else ?ans)"
    using q pre la by (simp add: store_at_def reply2_def)
  ultimately show ?thesis by (intro exI [of _ ?out] exI [of _ "16 + length ?q"]) (simp add: pre_def)
qed

text \<open>A rule is for a name when it has that name or is the rule for all; a rule for it without an interface is passed over as
  long as the address of the very first rule is not set.\<close>

definition rule_for :: "bytes \<Rightarrow> dns_entry_pair \<Rightarrow> bool" where
  "rule_for name e \<longleftrightarrow> entry_name e = [0x2A] \<or> entry_name e = name"

lemma choose_ip_first:
  assumes "\<forall>p\<in>set before. rule_for name p \<longrightarrow> if_key p = None \<and> first_ip = 0" "rule_for name e"
    "if_key e = Some key \<and> ip = netif_ip key \<or> if_key e = None \<and> first_ip \<noteq> 0 \<and> ip = entry_ip e"
  shows "choose_ip netif_ip first_ip name (before @ e # after) = ip"
  using assms by (induction before) (auto simp: rule_for_def split: option.splits)



text \<open>
  When no rule gives an address, the reply is sent all the same: its header promises one answer, and the sixteen bytes
  of it are zero.
\<close>

lemma unanswered_question:
  assumes "ls \<noteq> []" "\<forall>l\<in>set ls. 0 < length l \<and> length l < 64" "length (dotted ls) \<le> 128" "length counts = 6" "f3 AND 0x78 = 0"
    "\<forall>p\<in>set entries. \<not> rule_for (query_name ls) p"
  shows "\<exists>reply n. parse_dns_request netif_ip entries (dns_query i0 i1 f2 f3 counts ls cls) (replicate 256 x) 256 = Some (int n, reply) \<and>
    take n reply = [i0, i1, f2 OR 0x80, f3, 0, 1, 0, 1] @ drop 2 counts @ labels_text ls @ [0, 1] @ be_bytes 2 cls @ replicate 16 0"
proof -
  have "choose_ip netif_ip a (query_name ls) entries = 0" for a
    using assms(6) by (induction entries) (auto simp: rule_for_def)
  then show ?thesis using request_answered [OF assms(1-5), of netif_ip entries i0 i1 f2 cls x] by simp
qed

text \<open>
  The mask for the operation code is applied to the flags in the wrong byte order: what it tests is the second byte,
  so a query with the flag for authenticated data is dropped, and queries of every other kind are answered.
\<close>

lemma flagged_query_dropped:
  assumes "f3 AND 0x78 \<noteq> 0" "length counts = 6" "length (dotted ls) \<le> 128"
  shows "\<exists>reply. parse_dns_request netif_ip entries (dns_query i0 i1 f2 f3 counts ls cls) (replicate 256 x) 256 = Some (0, reply)"
proof -
  let ?q = "dns_query i0 i1 f2 f3 counts ls cls"
  have q: "length ?q \<le> 256" "12 \<le> length ?q" using assms dotted_labels [of ls] by (simp_all add: dns_query_def)
  define reply where "reply = store_at 0 ?q (replicate 256 0)"
  have "length reply = 256" using q by (simp add: reply_def)
  moreover have "slice 2 2 reply = [f2, f3]" by (simp add: reply_def dns_query_def slice_def store_at_def)
  ultimately have "bytes_at (length reply) reply 2 2 = Some [f2, f3]" by (simp add: bytes_at_def)
  moreover have "put_at 0 (replicate 256 0) (replicate 256 x) = Some (replicate 256 0)" by (simp add: put_at_def store_at_def)
  moreover have "put_at 0 ?q (replicate 256 0) = Some reply" using q by (simp add: put_at_def reply_def)
  ultimately show ?thesis
    using q flags_word(1) [of f2 f3] assms(1) by (simp add: parse_dns_request_def DNS_HEADER_SIZE_def Let_def)
qed

text \<open>A failing socket is closed in the loop and again behind it.\<close>

lemma socket_closed_twice: "dns_socket netif_ip entries [(None, ok)] = Some [Socket_Closed, Socket_Shutdown, Socket_Closed]"
  by simp

end
