(* ===== verification/Log_Buffer.thy ===== *)
theory Log_Buffer
  imports Prelude
begin

text \<open>
  \<open>main/log_buffer.c\<close>: the log, kept in a ring of memory that survives a restart, and read by position, a line at a
  time. The mutex makes every operation atomic.
\<close>

section \<open>The ring\<close>

definition LOG_BUFFER_SIZE :: nat where "LOG_BUFFER_SIZE = 512 * 1024"
definition LOG_BUFFER_MAGIC :: u32 where "LOG_BUFFER_MAGIC = 0xB17A5E10"
definition VPRINTF_BUFFER_SIZE :: nat where "VPRINTF_BUFFER_SIZE = 2048"
definition SCAN_LIMIT :: nat where "SCAN_LIMIT = 4096"

record log_header =
  magic :: u32
  checksum :: u32
  total_written :: u64

record log_state =
  s_header :: log_header
  s_buffer :: bytes
  s_log_mutex :: bool

definition calculate_header_checksum :: "log_header \<Rightarrow> u32" where
  "calculate_header_checksum h = (magic h XOR ucast (total_written h AND 0xFFFFFFFF)) XOR ucast (drop_bit 32 (total_written h))"

text \<open>\<open>None\<close>: a copy past the end of the ring, for a text longer than what is left behind the write position and a whole ring.\<close>

definition ring_write :: "bytes \<Rightarrow> log_state \<Rightarrow> log_state option" where
  "ring_write dat s =
     (let len = length dat
      in if len = 0 then Some s
         else let write_offset = unat (total_written (s_header s)) mod LOG_BUFFER_SIZE;
                  till_end = LOG_BUFFER_SIZE - write_offset;
                  h1 = (s_header s)\<lparr>total_written := total_written (s_header s) + of_nat len\<rparr>;
                  h2 = h1\<lparr>checksum := calculate_header_checksum h1\<rparr>
              in if len \<le> till_end then Some (s\<lparr>s_buffer := store_at write_offset dat (s_buffer s), s_header := h2\<rparr>)
                 else if LOG_BUFFER_SIZE < len - till_end then None
                 else Some (s\<lparr>s_buffer := store_at 0 (drop till_end dat) (store_at write_offset (take till_end dat) (s_buffer s)), s_header := h2\<rparr>))"

text \<open>
  \<open>log_buffer_vprintf\<close>: \<open>text\<close> is what the format gives (\<open>None\<close> when it fails), \<open>memory_ok\<close> whether a long line finds
  memory. The result is the return value and whether the line went into the ring; without a mutex it is printed only.
\<close>

definition log_buffer_vprintf :: "bytes option \<Rightarrow> bool \<Rightarrow> log_state \<Rightarrow> (int \<times> log_state) option" where
  "log_buffer_vprintf line memory_ok s =
     (if \<not> s_log_mutex s then Some (case line of None \<Rightarrow> - 1 | Some l \<Rightarrow> int (length l), s)
      else case line of
             None \<Rightarrow> Some (0, s)
           | Some l \<Rightarrow>
               if length l < VPRINTF_BUFFER_SIZE \<or> memory_ok
               then map_option (\<lambda>s1. (int (length l), s1)) (ring_write l s)
               else Some (int (length l), s))"

definition reboot_msg :: bytes where
  "reboot_msg = [10] @ map (\<lambda>c. of_nat (of_char c)) ''--- SYSTEM RESTART ---'' @ [10]"

text \<open>\<open>mutex_ok\<close>: whether the mutex could be had. What the memory held before is the state given.\<close>

definition log_buffer_init :: "bool \<Rightarrow> log_state \<Rightarrow> log_state option" where
  "log_buffer_init mutex_ok s =
     (if \<not> mutex_ok then Some (s\<lparr>s_log_mutex := False\<rparr>)
      else let s1 = s\<lparr>s_log_mutex := True\<rparr>; expected = calculate_header_checksum (s_header s1)
           in if magic (s_header s1) \<noteq> LOG_BUFFER_MAGIC \<or> checksum (s_header s1) \<noteq> expected
              then let h1 = (s_header s1)\<lparr>total_written := 0, magic := LOG_BUFFER_MAGIC\<rparr>
                   in Some (s1\<lparr>s_buffer := replicate LOG_BUFFER_SIZE 0, s_header := h1\<lparr>checksum := calculate_header_checksum h1\<rparr>\<rparr>)
              else ring_write reboot_msg s1)"

definition log_buffer_get_total_written :: "log_state \<Rightarrow> u64" where
  "log_buffer_get_total_written s = (if s_log_mutex s then total_written (s_header s) else 0)"

section \<open>Reading by position\<close>

text \<open>The first offset below \<open>n\<close> at which the ring has a newline, counted from a position.\<close>

definition newline_from :: "bytes \<Rightarrow> nat \<Rightarrow> nat \<Rightarrow> nat option" where
  "newline_from buf pos n = find (\<lambda>i. buf ! ((pos + i) mod LOG_BUFFER_SIZE) = 10) [0..<n]"

definition clamp_position :: "bytes \<Rightarrow> nat \<Rightarrow> nat \<Rightarrow> nat" where
  "clamp_position buf written req0 =
     (let req1 = (if written < req0 then written else req0)
      in if LOG_BUFFER_SIZE \<le> written \<and> req1 < written - LOG_BUFFER_SIZE then
           let req2 = written - LOG_BUFFER_SIZE; scan = (if SCAN_LIMIT < written - req2 then SCAN_LIMIT else written - req2)
           in case newline_from buf req2 scan of None \<Rightarrow> req2 | Some i \<Rightarrow> req2 + i + 1
         else req1)"

definition ring_read :: "bytes \<Rightarrow> nat \<Rightarrow> nat \<Rightarrow> bytes" where
  "ring_read buf pos n =
     (let read_offset = pos mod LOG_BUFFER_SIZE; till_end = LOG_BUFFER_SIZE - read_offset
      in if n \<le> till_end then slice read_offset n buf else slice read_offset till_end buf @ take (n - till_end) buf)"

text \<open>The bytes read and the new position; null pointers are not passed.\<close>

definition log_buffer_read_absolute :: "u64 \<Rightarrow> nat \<Rightarrow> log_state \<Rightarrow> bytes \<times> u64" where
  "log_buffer_read_absolute abs_pos max_len s =
     (if \<not> s_log_mutex s \<or> max_len = 0 then ([], abs_pos)
      else let written = unat (total_written (s_header s)); req_pos = clamp_position (s_buffer s) written (unat abs_pos);
               available = written - req_pos; to_read0 = (if available < max_len then available else max_len);
               to_read = (case newline_from (s_buffer s) req_pos to_read0 of None \<Rightarrow> to_read0 | Some i \<Rightarrow> i + 1)
           in (ring_read (s_buffer s) req_pos to_read, of_nat (req_pos + to_read)))"

section \<open>The log the ring stands for\<close>

text \<open>
  \<open>hist\<close> is everything written since the ring was cleared: the counter is its length, and the ring holds its last
  bytes, each where its position falls.
\<close>

definition holds_log :: "bytes \<Rightarrow> log_state \<Rightarrow> bool" where
  "holds_log hist s \<longleftrightarrow> s_log_mutex s \<and> length (s_buffer s) = LOG_BUFFER_SIZE \<and> total_written (s_header s) = of_nat (length hist) \<and>
     magic (s_header s) = LOG_BUFFER_MAGIC \<and> checksum (s_header s) = calculate_header_checksum (s_header s) \<and>
     (\<forall>i < length hist. length hist \<le> i + LOG_BUFFER_SIZE \<longrightarrow> s_buffer s ! (i mod LOG_BUFFER_SIZE) = hist ! i)"

lemma nth_store_at:
  "off + length src \<le> length buf \<Longrightarrow> i < length buf \<Longrightarrow>
     store_at off src buf ! i = (if off \<le> i \<and> i < off + length src then src ! (i - off) else buf ! i)"
  by (auto simp: store_at_def nth_append min_def)

lemma length_written:
  "length hist < 2 ^ 64 \<Longrightarrow> unat (of_nat (length hist) :: u64) = length hist"
  by (simp add: unsigned_of_nat take_bit_nat_eq_self)

text \<open>Where position \<open>q\<close> of the ring lies, counted on from \<open>p\<close>.\<close>

definition ring_distance :: "nat \<Rightarrow> nat \<Rightarrow> nat" where
  "ring_distance p q = (if p \<le> q then q - p else q + LOG_BUFFER_SIZE - p)"

lemma ring_write_cells:
  assumes "length buf = LOG_BUFFER_SIZE" "p < LOG_BUFFER_SIZE" "length dat \<le> LOG_BUFFER_SIZE" "q < LOG_BUFFER_SIZE"
  shows "(if length dat \<le> LOG_BUFFER_SIZE - p then store_at p dat buf
      else store_at 0 (drop (LOG_BUFFER_SIZE - p) dat) (store_at p (take (LOG_BUFFER_SIZE - p) dat) buf)) ! q =
    (if ring_distance p q < length dat then dat ! ring_distance p q else buf ! q)"
proof (cases "length dat \<le> LOG_BUFFER_SIZE - p")
  case True
  then show ?thesis using assms by (auto simp: nth_store_at ring_distance_def)
next
  case False
  have "length (store_at p (take (LOG_BUFFER_SIZE - p) dat) buf) = LOG_BUFFER_SIZE" using assms False by simp
  then show ?thesis using assms False by (auto simp: nth_store_at ring_distance_def add.commute)
qed

lemma distance_mod:
  assumes "L \<le> i" "i < L + LOG_BUFFER_SIZE"
  shows "ring_distance (L mod LOG_BUFFER_SIZE) (i mod LOG_BUFFER_SIZE) = i - L"
proof -
  define S where "S = LOG_BUFFER_SIZE"
  have S: "0 < S" by (simp add: S_def LOG_BUFFER_SIZE_def)
  have m: "i mod S = (L mod S + (i - L)) mod S" by (metis assms(1) le_add_diff_inverse mod_add_left_eq)
  have p: "L mod S < S" using S by simp
  show ?thesis
  proof (cases "L mod S + (i - L) < S")
    case True
    then show ?thesis using m by (simp add: ring_distance_def S_def [symmetric])
  next
    case False
    define k where "k = i - L"
    have k: "S \<le> L mod S + k" "L mod S + k - S < S" using False assms p unfolding k_def S_def [symmetric] by linarith+
    then have "(L mod S + k) mod S = L mod S + k - S" by (metis le_mod_geq mod_less)
    then have "i mod S = L mod S + (i - L) - S" using m by (simp only: k_def)
    then show ?thesis using False assms p by (simp add: ring_distance_def S_def [symmetric])
  qed
qed

lemma distance_old:
  assumes "i < L" "L \<le> i + LOG_BUFFER_SIZE - n" "n \<le> LOG_BUFFER_SIZE"
  shows "n \<le> ring_distance (L mod LOG_BUFFER_SIZE) (i mod LOG_BUFFER_SIZE)"
proof -
  have "ring_distance (L mod LOG_BUFFER_SIZE) ((i + LOG_BUFFER_SIZE) mod LOG_BUFFER_SIZE) = i + LOG_BUFFER_SIZE - L"
    using assms by (intro distance_mod) auto
  then show ?thesis using assms by simp
qed

lemma write_holds:
  assumes "holds_log hist s" "length dat \<le> LOG_BUFFER_SIZE" "length hist + length dat < 2 ^ 64"
  shows "\<exists>s'. ring_write dat s = Some s' \<and> holds_log (hist @ dat) s'"
proof (cases "dat = []")
  case True
  then show ?thesis using assms(1) by (simp add: ring_write_def)
next
  case False
  define p where "p = length hist mod LOG_BUFFER_SIZE"
  define h1 where "h1 = (s_header s)\<lparr>total_written := total_written (s_header s) + of_nat (length dat)\<rparr>"
  define buf where "buf = (if length dat \<le> LOG_BUFFER_SIZE - p then store_at p dat (s_buffer s)
      else store_at 0 (drop (LOG_BUFFER_SIZE - p) dat) (store_at p (take (LOG_BUFFER_SIZE - p) dat) (s_buffer s)))"
  let ?s = "s\<lparr>s_buffer := buf, s_header := h1\<lparr>checksum := calculate_header_checksum h1\<rparr>\<rparr>"
  have p: "p < LOG_BUFFER_SIZE" by (simp add: p_def LOG_BUFFER_SIZE_def)
  have off: "unat (total_written (s_header s)) mod LOG_BUFFER_SIZE = p"
    using assms by (simp add: holds_log_def length_written p_def)
  have w: "ring_write dat s = Some ?s"
    using off p False assms(2) by (simp add: ring_write_def buf_def h1_def Let_def)
  have len: "length buf = LOG_BUFFER_SIZE" using assms p by (auto simp: buf_def holds_log_def)
  have cell: "buf ! q = (if ring_distance p q < length dat then dat ! ring_distance p q else s_buffer s ! q)" if "q < LOG_BUFFER_SIZE" for q
    unfolding buf_def using assms p that by (intro ring_write_cells) (auto simp: holds_log_def)
  have "buf ! (i mod LOG_BUFFER_SIZE) = (hist @ dat) ! i"
    if i: "i < length (hist @ dat)" "length (hist @ dat) \<le> i + LOG_BUFFER_SIZE" for i
  proof -
    have q: "i mod LOG_BUFFER_SIZE < LOG_BUFFER_SIZE" by (simp add: LOG_BUFFER_SIZE_def)
    show ?thesis
    proof (cases "length hist \<le> i")
      case True
      then have "ring_distance p (i mod LOG_BUFFER_SIZE) = i - length hist"
        unfolding p_def using i assms(2) by (intro distance_mod) auto
      moreover have "i - length hist < length dat" using True i by simp
      ultimately show ?thesis using True cell [OF q] by (simp add: nth_append)
    next
      case False
      then have "length dat \<le> ring_distance p (i mod LOG_BUFFER_SIZE)"
        unfolding p_def using i assms(2) by (intro distance_old) auto
      then show ?thesis using False i assms(1) cell [OF q] by (simp add: nth_append holds_log_def)
    qed
  qed
  then have "holds_log (hist @ dat) ?s" using assms(1) len by (simp add: holds_log_def h1_def calculate_header_checksum_def)
  then show ?thesis using w by blast
qed

section \<open>Lines, restarts, and reading\<close>

datatype log_op = Line bytes bool | Restart

fun log_run :: "log_op list \<Rightarrow> log_state \<Rightarrow> log_state option" where
  "log_run [] s = Some s"
| "log_run (Line l memory_ok # ops) s = Option.bind (log_buffer_vprintf (Some l) memory_ok s) (\<lambda>(n, s1). log_run ops s1)"
| "log_run (Restart # ops) s = Option.bind (log_buffer_init True (s\<lparr>s_log_mutex := False\<rparr>)) (log_run ops)"

text \<open>The log itself: the lines in order, without those for which there was no memory, and a mark for every restart.\<close>

fun log_of :: "log_op list \<Rightarrow> bytes \<Rightarrow> bytes" where
  "log_of [] hist = hist"
| "log_of (Line l memory_ok # ops) hist = log_of ops (if length l < VPRINTF_BUFFER_SIZE \<or> memory_ok then hist @ l else hist)"
| "log_of (Restart # ops) hist = log_of ops (hist @ reboot_msg)"

lemma log_of_grows: "length hist \<le> length (log_of ops hist)"
  by (induction ops hist rule: log_of.induct) auto

lemma log_run_holds:
  assumes "holds_log hist s" "\<forall>l m. Line l m \<in> set ops \<longrightarrow> length l \<le> LOG_BUFFER_SIZE" "length (log_of ops hist) < 2 ^ 64"
  shows "\<exists>s'. log_run ops s = Some s' \<and> holds_log (log_of ops hist) s'"
  using assms
proof (induction ops hist arbitrary: s rule: log_of.induct)
  case (2 l m ops hist)
  have len: "length l \<le> LOG_BUFFER_SIZE" using "2.prems" by auto
  have mutex: "s_log_mutex s" using "2.prems" by (simp add: holds_log_def)
  show ?case
  proof (cases "length l < VPRINTF_BUFFER_SIZE \<or> m")
    case True
    have "length hist + length l < 2 ^ 64" using log_of_grows [of "hist @ l" ops] "2.prems"(3) True by simp
    then obtain s1 where "ring_write l s = Some s1" "holds_log (hist @ l) s1" using write_holds [OF "2.prems"(1) len] by blast
    then show ?thesis using "2.IH" [of s1] "2.prems" True mutex by (auto simp: log_buffer_vprintf_def)
  next
    case False
    then show ?thesis using "2.IH" [of s] "2.prems" mutex by (auto simp: log_buffer_vprintf_def)
  qed
next
  case (3 ops hist)
  let ?s = "s\<lparr>s_log_mutex := True\<rparr>"
  have h: "holds_log hist ?s" using "3.prems"(1) by (simp add: holds_log_def)
  have small: "length reboot_msg \<le> LOG_BUFFER_SIZE" by (simp add: reboot_msg_def LOG_BUFFER_SIZE_def)
  have "length hist + length reboot_msg < 2 ^ 64" using log_of_grows [of "hist @ reboot_msg" ops] "3.prems"(3) by simp
  then obtain s1 where s1: "ring_write reboot_msg ?s = Some s1" "holds_log (hist @ reboot_msg) s1"
    using write_holds [OF h small] by blast
  have "log_buffer_init True (s\<lparr>s_log_mutex := False\<rparr>) = Some s1"
    using s1(1) "3.prems"(1) by (simp add: log_buffer_init_def holds_log_def Let_def)
  then show ?case using "3.IH" [OF s1(2)] "3.prems" by auto
qed auto

lemma init_cold:
  assumes "magic (s_header s0) \<noteq> LOG_BUFFER_MAGIC \<or> checksum (s_header s0) \<noteq> calculate_header_checksum (s_header s0)"
  shows "\<exists>s. log_buffer_init True s0 = Some s \<and> holds_log [] s"
  using assms by (auto simp: log_buffer_init_def holds_log_def calculate_header_checksum_def Let_def)

text \<open>
  C33. From whatever a cold start finds in memory, the ring holds the newest 524288 bytes of the log after any number of
  lines and restarts, each where its position falls, and the counter is the length of the log: restarts lose
  nothing. For lines of at most 524288 bytes and a log below 2 to the 64.
\<close>

theorem ring_keeps_log:
  assumes "magic (s_header s0) \<noteq> LOG_BUFFER_MAGIC \<or> checksum (s_header s0) \<noteq> calculate_header_checksum (s_header s0)"
    "\<forall>l m. Line l m \<in> set ops \<longrightarrow> length l \<le> LOG_BUFFER_SIZE" "length (log_of ops []) < 2 ^ 64"
  shows "\<exists>s. Option.bind (log_buffer_init True s0) (log_run ops) = Some s \<and> holds_log (log_of ops []) s"
  using init_cold [OF assms(1)] log_run_holds [OF _ assms(2,3)] by auto

definition blank_memory :: log_state where
  "blank_memory = \<lparr>s_header = \<lparr>magic = 0, checksum = 0, total_written = 77\<rparr>, s_buffer = replicate LOG_BUFFER_SIZE 9, s_log_mutex = False\<rparr>"

theorem ring_keeps_log_witness:
  "\<exists>s. Option.bind (log_buffer_init True blank_memory) (log_run [Line [1, 2, 10] False, Restart, Line [3, 10] False]) = Some s \<and>
     holds_log ([1, 2, 10] @ reboot_msg @ [3, 10]) s"
proof -
  have len: "length reboot_msg = 24" by (simp add: reboot_msg_def)
  have "\<forall>l m. Line l m \<in> set [Line [1, 2, 10] False, Restart, Line [3, 10] False] \<longrightarrow> length l \<le> LOG_BUFFER_SIZE"
    by (simp add: LOG_BUFFER_SIZE_def)
  then show ?thesis
    using ring_keeps_log [of blank_memory "[Line [1, 2, 10] False, Restart, Line [3, 10] False]"] len
    by (simp add: blank_memory_def VPRINTF_BUFFER_SIZE_def LOG_BUFFER_MAGIC_def del: log_run.simps)
qed

lemma ring_cell:
  "holds_log hist s \<Longrightarrow> i < length hist \<Longrightarrow> length hist \<le> i + LOG_BUFFER_SIZE \<Longrightarrow> s_buffer s ! (i mod LOG_BUFFER_SIZE) = hist ! i"
  by (simp add: holds_log_def)

lemma ring_read_slice:
  assumes "holds_log hist s" "r + n \<le> length hist" "length hist \<le> r + LOG_BUFFER_SIZE"
  shows "ring_read (s_buffer s) r n = slice r n hist"
proof (rule nth_equalityI)
  define p where "p = r mod LOG_BUFFER_SIZE"
  have p: "p < LOG_BUFFER_SIZE" by (simp add: p_def LOG_BUFFER_SIZE_def)
  have n: "n \<le> LOG_BUFFER_SIZE" using assms by simp
  have b: "length (s_buffer s) = LOG_BUFFER_SIZE" using assms(1) by (simp add: holds_log_def)
  then show len: "length (ring_read (s_buffer s) r n) = length (slice r n hist)"
    using assms p n by (simp add: ring_read_def p_def [symmetric] Let_def slice_def)
  fix k assume "k < length (ring_read (s_buffer s) r n)"
  then have k: "k < n" using len assms by (simp add: slice_def)
  have cell: "s_buffer s ! ((r + k) mod LOG_BUFFER_SIZE) = hist ! (r + k)" using assms k by (intro ring_cell) auto
  have m: "(r + k) mod LOG_BUFFER_SIZE = (p + k) mod LOG_BUFFER_SIZE" by (simp add: p_def mod_add_left_eq)
  have "ring_read (s_buffer s) r n ! k = s_buffer s ! ((p + k) mod LOG_BUFFER_SIZE)"
  proof (cases "p + k < LOG_BUFFER_SIZE")
    case True
    then show ?thesis using k b p n by (auto simp: ring_read_def p_def [symmetric] slice_def nth_append Let_def)
  next
    case False
    then have "(p + k) mod LOG_BUFFER_SIZE = p + k - LOG_BUFFER_SIZE" using p k n by (simp add: le_mod_geq)
    moreover have "\<not> n \<le> LOG_BUFFER_SIZE - p" "\<not> k < LOG_BUFFER_SIZE - p" using False k by linarith+
    ultimately show ?thesis
      using False k b p n by (simp add: ring_read_def p_def [symmetric] slice_def nth_append Let_def add.commute)
  qed
  then show "ring_read (s_buffer s) r n ! k = slice r n hist ! k" using cell m k assms by (simp add: slice_def)
qed

lemma newline_from_hist:
  assumes "holds_log hist s" "r + n \<le> length hist" "length hist \<le> r + LOG_BUFFER_SIZE"
  shows "newline_from (s_buffer s) r n = find (\<lambda>i. hist ! (r + i) = 10) [0..<n]"
proof -
  have "s_buffer s ! ((r + i) mod LOG_BUFFER_SIZE) = hist ! (r + i)" if "i < n" for i using that assms by (intro ring_cell) auto
  then show ?thesis unfolding newline_from_def by (intro find_cong) auto
qed

lemma clamp_bounds:
  assumes "holds_log hist s"
  shows "clamp_position (s_buffer s) (length hist) pos \<le> length hist"
    "length hist \<le> clamp_position (s_buffer s) (length hist) pos + LOG_BUFFER_SIZE"
    "pos \<le> length hist \<Longrightarrow> length hist \<le> pos + LOG_BUFFER_SIZE \<Longrightarrow> clamp_position (s_buffer s) (length hist) pos = pos"
proof -
  have nl: "i < n" if "newline_from b r n = Some i" for b r n i using that by (auto simp: newline_from_def find_Some_iff)
  show "clamp_position (s_buffer s) (length hist) pos \<le> length hist"
    "length hist \<le> clamp_position (s_buffer s) (length hist) pos + LOG_BUFFER_SIZE"
    using nl [of "s_buffer s" "length hist - LOG_BUFFER_SIZE"]
    by (auto simp: clamp_position_def Let_def split: option.splits if_splits dest!: nl)
  show "pos \<le> length hist \<Longrightarrow> length hist \<le> pos + LOG_BUFFER_SIZE \<Longrightarrow> clamp_position (s_buffer s) (length hist) pos = pos"
    by (auto simp: clamp_position_def Let_def)
qed

text \<open>Where a reader that has fallen behind starts: behind the first newline of the oldest 4 KB that are kept.\<close>

lemma find_takeWhile:
  "find (\<lambda>i. xs ! i = y) [0..<length xs] = (if y \<in> set xs then Some (length (takeWhile (\<lambda>x. x \<noteq> y) xs)) else None)"
proof (cases "y \<in> set xs")
  case True
  let ?k = "length (takeWhile (\<lambda>x. x \<noteq> y) xs)"
  have k: "?k < length xs" using True by (induction xs) auto
  moreover have "xs ! ?k = y" using nth_length_takeWhile [OF k] by simp
  moreover have "xs ! j \<noteq> y" if "j < ?k" for j
  proof -
    have "takeWhile (\<lambda>x. x \<noteq> y) xs ! j \<in> set (takeWhile (\<lambda>x. x \<noteq> y) xs)" using that by (rule nth_mem)
    then show ?thesis using takeWhile_nth [OF that] by (auto dest: set_takeWhileD)
  qed
  ultimately have "find (\<lambda>i. xs ! i = y) [0..<length xs] = Some ?k"
    unfolding find_Some_iff by (intro exI [of _ ?k]) simp
  then show ?thesis using True by simp
qed (auto simp: find_None_iff)

lemma clamp_behind:
  assumes "holds_log hist s" "pos + LOG_BUFFER_SIZE < length hist"
  defines "kept \<equiv> length hist - LOG_BUFFER_SIZE"
  defines "oldest \<equiv> slice kept SCAN_LIMIT hist"
  shows "clamp_position (s_buffer s) (length hist) pos =
    (if 10 \<in> set oldest then kept + length (takeWhile (\<lambda>b. b \<noteq> 10) oldest) + 1 else kept)"
proof -
  have scan: "SCAN_LIMIT \<le> length hist - kept" "kept + SCAN_LIMIT \<le> length hist"
    using assms(2) by (simp_all add: kept_def LOG_BUFFER_SIZE_def SCAN_LIMIT_def)
  have len: "length oldest = SCAN_LIMIT" using scan by (simp add: oldest_def slice_def)
  have nth: "hist ! (kept + i) = oldest ! i" if "i < SCAN_LIMIT" for i using that scan by (simp add: oldest_def slice_def)
  have "newline_from (s_buffer s) kept SCAN_LIMIT = find (\<lambda>i. hist ! (kept + i) = 10) [0..<SCAN_LIMIT]"
    using assms(1,2) scan by (intro newline_from_hist) (simp_all add: kept_def)
  also have "\<dots> = find (\<lambda>i. oldest ! i = 10) [0..<length oldest]" using nth len by (intro find_cong) auto
  finally have "newline_from (s_buffer s) kept SCAN_LIMIT =
      (if 10 \<in> set oldest then Some (length (takeWhile (\<lambda>b. b \<noteq> 10) oldest)) else None)" by (simp only: find_takeWhile)
  moreover have "clamp_position (s_buffer s) (length hist) pos =
      (case newline_from (s_buffer s) kept SCAN_LIMIT of None \<Rightarrow> kept | Some i \<Rightarrow> kept + i + 1)"
  proof -
    have "length hist - kept = LOG_BUFFER_SIZE" "pos < kept" "\<not> length hist < pos" "LOG_BUFFER_SIZE \<le> length hist"
      using assms(2) by (simp_all add: kept_def)
    moreover have "(if SCAN_LIMIT < LOG_BUFFER_SIZE then SCAN_LIMIT else LOG_BUFFER_SIZE) = SCAN_LIMIT"
      by (simp add: SCAN_LIMIT_def LOG_BUFFER_SIZE_def)
    ultimately show ?thesis by (simp only: clamp_position_def kept_def Let_def if_True if_False simp_thms)
  qed
  ultimately show ?thesis by simp
qed

text \<open>
  C39. Reading gives a piece of the log, never more than asked for, and moves the position behind it. A reader that has
  not fallen further behind than the ring is long continues exactly where it stood, and one ahead of the log at its
  end. One that has fallen further behind starts just behind the first newline within the oldest 4096 bytes that are
  kept, or, when they hold none, with the oldest byte itself, in the middle of a line. A piece ends with its first
  newline, and one without a newline is as long as asked for or reaches the end of the log.
\<close>

theorem log_read:
  assumes "holds_log hist s" "length hist < 2 ^ 64" "0 < max_len"
  shows "\<exists>r n. log_buffer_read_absolute pos max_len s = (slice r n hist, of_nat (r + n)) \<and> r + n \<le> length hist \<and> n \<le> max_len \<and>
    length hist \<le> r + LOG_BUFFER_SIZE \<and>
    (unat pos \<le> length hist \<and> length hist \<le> unat pos + LOG_BUFFER_SIZE \<longrightarrow> r = unat pos) \<and>
    (length hist < unat pos \<longrightarrow> r = length hist) \<and>
    (unat pos + LOG_BUFFER_SIZE < length hist \<longrightarrow>
       (let kept = length hist - LOG_BUFFER_SIZE; oldest = slice kept 4096 hist
        in r = (if 10 \<in> set oldest then kept + length (takeWhile (\<lambda>b. b \<noteq> 10) oldest) + 1 else kept))) \<and>
    (if 10 \<in> set (slice r n hist) then 10 \<notin> set (butlast (slice r n hist)) \<and> last (slice r n hist) = 10 else n = max_len \<or> r + n = length hist)"
proof -
  define r where "r = clamp_position (s_buffer s) (length hist) (unat pos)"
  have r: "r \<le> length hist" "length hist \<le> r + LOG_BUFFER_SIZE"
      "unat pos \<le> length hist \<and> length hist \<le> unat pos + LOG_BUFFER_SIZE \<longrightarrow> r = unat pos"
    using clamp_bounds [OF assms(1)] by (simp_all add: r_def)
  have ahead: "length hist < unat pos \<longrightarrow> r = length hist" by (auto simp: r_def clamp_position_def LOG_BUFFER_SIZE_def Let_def)
  have behind: "unat pos + LOG_BUFFER_SIZE < length hist \<longrightarrow>
      (let kept = length hist - LOG_BUFFER_SIZE; oldest = slice kept 4096 hist
       in r = (if 10 \<in> set oldest then kept + length (takeWhile (\<lambda>b. b \<noteq> 10) oldest) + 1 else kept))"
    using clamp_behind [OF assms(1), of "unat pos"] unfolding r_def SCAN_LIMIT_def Let_def by (rule impI)
  define m where "m = (if length hist - r < max_len then length hist - r else max_len)"
  have m: "r + m \<le> length hist" "m \<le> max_len" "m = max_len \<or> r + m = length hist" using r(1) by (auto simp: m_def)
  define n where "n = (case find (\<lambda>i. hist ! (r + i) = 10) [0..<m] of None \<Rightarrow> m | Some i \<Rightarrow> i + 1)"
  have nm: "n \<le> m" by (auto simp: n_def find_Some_iff split: option.splits)
  have w: "unat (total_written (s_header s)) = length hist" "s_log_mutex s"
    using assms(1,2) by (simp_all add: holds_log_def length_written)
  have nl: "newline_from (s_buffer s) r m = find (\<lambda>i. hist ! (r + i) = 10) [0..<m]"
    by (rule newline_from_hist [OF assms(1) m(1) r(2)])
  have "log_buffer_read_absolute pos max_len s = (ring_read (s_buffer s) r n, of_nat (r + n))"
    using w(2) assms(3) unfolding log_buffer_read_absolute_def Let_def w(1) r_def [symmetric] m_def [symmetric] nl n_def [symmetric] by simp
  then have out: "log_buffer_read_absolute pos max_len s = (slice r n hist, of_nat (r + n))"
    using ring_read_slice [OF assms(1) _ r(2), of n] m(1) nm by simp
  have nth: "slice r n hist ! i = hist ! (r + i)" if "i < n" for i using that nm m by (simp add: slice_def)
  have len: "length (slice r n hist) = n" using nm m by (simp add: slice_def)
  have "if 10 \<in> set (slice r n hist) then 10 \<notin> set (butlast (slice r n hist)) \<and> last (slice r n hist) = 10 else n = m"
  proof (cases "find (\<lambda>i. hist ! (r + i) = 10) [0..<m]")
    case None
    then have "n = m" by (simp add: n_def)
    moreover have "\<forall>i<m. hist ! (r + i) \<noteq> 10" using None by (auto simp: find_None_iff)
    ultimately show ?thesis using nth len by (auto simp: in_set_conv_nth)
  next
    case (Some i)
    then have i: "i < m" "hist ! (r + i) = 10" "\<forall>j<i. hist ! (r + j) \<noteq> 10" by (auto simp: find_Some_iff)
    have ni: "n = Suc i" using Some by (simp add: n_def)
    have "slice r n hist \<noteq> []" using len ni by auto
    then have l: "last (slice r n hist) = 10" "10 \<in> set (slice r n hist)"
      using nth [of i] i(2) ni len by (auto simp: last_conv_nth in_set_conv_nth)
    have "butlast (slice r n hist) ! j \<noteq> 10" if "j < i" for j
      using that nth [of j] i ni len by (simp add: nth_butlast)
    then have "10 \<notin> set (butlast (slice r n hist))" using len ni by (auto simp: in_set_conv_nth)
    then show ?thesis using l by simp
  qed
  then have "if 10 \<in> set (slice r n hist) then 10 \<notin> set (butlast (slice r n hist)) \<and> last (slice r n hist) = 10
      else n = max_len \<or> r + n = length hist"
    using m(3) by (auto split: if_splits)
  moreover have "r + n \<le> length hist" "n \<le> max_len" using nm m by simp_all
  ultimately show ?thesis using out r(2,3) ahead behind by blast
qed

text \<open>The witness is a reader one byte too far behind: it gets the line behind the first newline that is kept.\<close>

theorem log_read_witness:
  "\<exists>s. holds_log ([65, 66, 10] @ replicate (LOG_BUFFER_SIZE - 2) 67) s \<and> log_buffer_read_absolute 0 4 s = ([67, 67, 67, 67], 7)"
proof -
  define hist :: bytes where "hist = [65, 66, 10] @ replicate (LOG_BUFFER_SIZE - 2) 67"
  define h where "h = \<lparr>magic = LOG_BUFFER_MAGIC, checksum = 0, total_written = of_nat (length hist)\<rparr>"
  define s where "s = \<lparr>s_header = h\<lparr>checksum := calculate_header_checksum h\<rparr>,
    s_buffer = [67, 66, 10] @ replicate (LOG_BUFFER_SIZE - 3) 67, s_log_mutex = True\<rparr>"
  have size: "3 < LOG_BUFFER_SIZE" "4096 < LOG_BUFFER_SIZE" "length hist = LOG_BUFFER_SIZE + 1" by (simp_all add: hist_def LOG_BUFFER_SIZE_def)
  have cell: "s_buffer s ! (i mod LOG_BUFFER_SIZE) = hist ! i" if "i < length hist" "length hist \<le> i + LOG_BUFFER_SIZE" for i
  proof (cases "i = LOG_BUFFER_SIZE")
    case True
    then show ?thesis using size by (simp add: s_def hist_def nth_append nth_Cons')
  next
    case False
    then have "i < LOG_BUFFER_SIZE" "1 \<le> i" using that size by simp_all
    then show ?thesis using size by (simp add: s_def hist_def nth_append nth_Cons')
  qed
  have ok: "holds_log hist s"
    using cell size by (simp add: holds_log_def) (simp add: s_def h_def calculate_header_checksum_def)
  have small: "length hist < 2 ^ 64" unfolding size(3) by (simp add: LOG_BUFFER_SIZE_def)
  have "slice 1 4096 hist = [66, 10] @ replicate 4094 67" using size by (simp add: hist_def slice_def take_Cons')
  then have oldest: "(if 10 \<in> set (slice 1 4096 hist) then 1 + length (takeWhile (\<lambda>b. b \<noteq> 10) (slice 1 4096 hist)) + 1 else 1) = 3" by simp
  have kept: "length hist - LOG_BUFFER_SIZE = 1" "unat (0 :: u64) + LOG_BUFFER_SIZE < length hist" using size by simp_all
  obtain r n where rn: "log_buffer_read_absolute 0 4 s = (slice r n hist, of_nat (r + n))" "n \<le> 4" "r = 3"
      "if 10 \<in> set (slice r n hist) then 10 \<notin> set (butlast (slice r n hist)) \<and> last (slice r n hist) = 10 else n = 4 \<or> r + n = length hist"
    using log_read [OF ok small, of 4 0] unfolding Let_def kept(1) oldest using kept(2) by force
  have part: "slice 3 n hist = replicate n 67" using size rn(2) by (simp add: hist_def slice_def)
  then have "n = 4" using rn(2-4) size by (auto simp: LOG_BUFFER_SIZE_def)
  then have "log_buffer_read_absolute 0 4 s = ([67, 67, 67, 67], 7)" using rn(1,3) part by (simp add: numeral_eq_Suc)
  then show ?thesis using ok unfolding hist_def by blast
qed

end
