(* ===== verification/Bap.thy ===== *)
theory Bap
  imports C_Text
begin

text \<open>
  \<open>main/bap/bap_protocol.c\<close>, \<open>main/bap/bap_uart.c\<close> and \<open>BAP_parse_message\<close> of \<open>main/bap/bap_handlers.c\<close>: the
  sentences of the accessory protocol, how they are written to and read from the serial line, and how a sentence
  becomes a call of a handler. Texts are bytes without the terminating zero.
\<close>

section \<open>Names and the checksum\<close>

definition BAP_MAX_MESSAGE_LEN :: nat where "BAP_MAX_MESSAGE_LEN = 256"
definition UART_SEND_QUEUE_SIZE :: nat where "UART_SEND_QUEUE_SIZE = 10"
definition UART_BUFFER_THRESHOLD :: nat where "UART_BUFFER_THRESHOLD = 512"

datatype bap_command =
  BAP_CMD_REQ | BAP_CMD_RES | BAP_CMD_SUB | BAP_CMD_UNSUB | BAP_CMD_SET | BAP_CMD_ACK | BAP_CMD_ERR | BAP_CMD_CMD | BAP_CMD_STA
| BAP_CMD_LOG | BAP_CMD_UNKNOWN

datatype bap_parameter =
  BAP_PARAM_SYSTEM_INFO | BAP_PARAM_HASHRATE | BAP_PARAM_TEMPERATURE | BAP_PARAM_POWER | BAP_PARAM_VOLTAGE | BAP_PARAM_CURRENT
| BAP_PARAM_SHARES | BAP_PARAM_FREQUENCY | BAP_PARAM_ASIC_VOLTAGE | BAP_PARAM_SSID | BAP_PARAM_PASSWORD | BAP_PARAM_FAN_SPEED
| BAP_PARAM_AUTO_FAN_SPEED | BAP_PARAM_BEST_DIFFICULTY | BAP_PARAM_BLOCK_HEIGHT | BAP_PARAM_WIFI | BAP_PARAM_FOUND_BLOCK
| BAP_PARAM_SHOW_NEW_BLOCK | BAP_PARAM_UNKNOWN

text \<open>The entries of the two tables in the order of the enumerations, the unknown ones left out.\<close>

definition command_strings :: "(bytes \<times> bap_command) list" where
  "command_strings = [(ascii ''REQ'', BAP_CMD_REQ), (ascii ''RES'', BAP_CMD_RES), (ascii ''SUB'', BAP_CMD_SUB),
     (ascii ''UNSUB'', BAP_CMD_UNSUB), (ascii ''SET'', BAP_CMD_SET), (ascii ''ACK'', BAP_CMD_ACK), (ascii ''ERR'', BAP_CMD_ERR),
     (ascii ''CMD'', BAP_CMD_CMD), (ascii ''STA'', BAP_CMD_STA), (ascii ''LOG'', BAP_CMD_LOG)]"

definition parameter_strings :: "(bytes \<times> bap_parameter) list" where
  "parameter_strings = [(ascii ''systemInfo'', BAP_PARAM_SYSTEM_INFO), (ascii ''hashrate'', BAP_PARAM_HASHRATE),
     (ascii ''temperature'', BAP_PARAM_TEMPERATURE), (ascii ''power'', BAP_PARAM_POWER), (ascii ''voltage'', BAP_PARAM_VOLTAGE),
     (ascii ''current'', BAP_PARAM_CURRENT), (ascii ''shares'', BAP_PARAM_SHARES), (ascii ''frequency'', BAP_PARAM_FREQUENCY),
     (ascii ''asic_voltage'', BAP_PARAM_ASIC_VOLTAGE), (ascii ''ssid'', BAP_PARAM_SSID), (ascii ''password'', BAP_PARAM_PASSWORD),
     (ascii ''fan_speed'', BAP_PARAM_FAN_SPEED), (ascii ''auto_fan'', BAP_PARAM_AUTO_FAN_SPEED),
     (ascii ''best_difficulty'', BAP_PARAM_BEST_DIFFICULTY), (ascii ''block_height'', BAP_PARAM_BLOCK_HEIGHT),
     (ascii ''wifi'', BAP_PARAM_WIFI), (ascii ''found_block'', BAP_PARAM_FOUND_BLOCK),
     (ascii ''show_new_block'', BAP_PARAM_SHOW_NEW_BLOCK)]"

definition BAP_command_from_string :: "bytes \<Rightarrow> bap_command" where
  "BAP_command_from_string s = (case map_of command_strings s of Some c \<Rightarrow> c | None \<Rightarrow> BAP_CMD_UNKNOWN)"

definition BAP_parameter_from_string :: "bytes \<Rightarrow> bap_parameter" where
  "BAP_parameter_from_string s = (case map_of parameter_strings s of Some p \<Rightarrow> p | None \<Rightarrow> BAP_PARAM_UNKNOWN)"

definition BAP_command_to_string :: "bap_command \<Rightarrow> bytes" where
  "BAP_command_to_string c =
     (case find (\<lambda>(s, d). d = c) command_strings of Some (s, d) \<Rightarrow> s | None \<Rightarrow> ascii ''UNK'')"

definition BAP_parameter_to_string :: "bap_parameter \<Rightarrow> bytes" where
  "BAP_parameter_to_string p =
     (case find (\<lambda>(s, d). d = p) parameter_strings of Some (s, d) \<Rightarrow> s | None \<Rightarrow> ascii ''unknown'')"

definition BAP_calculate_checksum :: "bytes \<Rightarrow> u8" where
  "BAP_calculate_checksum sentence_body = foldl (XOR) 0 sentence_body"

section \<open>Sending\<close>

definition hex_upper_digit :: "nat \<Rightarrow> u8" where
  "hex_upper_digit n = (if n < 10 then 48 + of_nat n else 55 + of_nat n)"

definition hex2_upper :: "u8 \<Rightarrow> bytes" where
  "hex2_upper b = [hex_upper_digit (unat b div 16), hex_upper_digit (unat b mod 16)]"

definition COMMA :: u8 where "COMMA = 44"
definition STAR :: u8 where "STAR = 42"
definition DOLLAR :: u8 where "DOLLAR = 36"

definition sentence :: "bap_command \<Rightarrow> bytes \<Rightarrow> bytes option \<Rightarrow> bytes" where
  "sentence cmd param val =
     (case val of
        Some v \<Rightarrow> if v \<noteq> [] then ascii ''BAP,'' @ BAP_command_to_string cmd @ [COMMA] @ param @ [COMMA] @ v
                  else ascii ''BAP,'' @ BAP_command_to_string cmd @ [COMMA] @ param
      | None \<Rightarrow> ascii ''BAP,'' @ BAP_command_to_string cmd @ [COMMA] @ param)"

text \<open>What both send functions make of a message: each \<open>snprintf\<close> cuts at 255 bytes.\<close>

definition formatted :: "bap_command \<Rightarrow> bytes \<Rightarrow> bytes option \<Rightarrow> bytes" where
  "formatted cmd param val =
     (let sentence_body = take (BAP_MAX_MESSAGE_LEN - 1) (sentence cmd param val)
      in take (BAP_MAX_MESSAGE_LEN - 1)
           ([DOLLAR] @ sentence_body @ [STAR] @ hex2_upper (BAP_calculate_checksum sentence_body) @ [13, 10]))"

text \<open>\<open>mutex_ok\<close>: the mutex was free in time. The result is what goes to the serial line.\<close>

definition BAP_send_message :: "bool \<Rightarrow> bap_command \<Rightarrow> bytes \<Rightarrow> bytes option \<Rightarrow> bytes" where
  "BAP_send_message mutex_ok cmd param val = (if mutex_ok then formatted cmd param val else [])"

text \<open>Through the queue: \<open>malloc_ok\<close> for the copy of the message; a full queue drops it.\<close>

definition BAP_send_message_with_queue :: "bool \<Rightarrow> bap_command \<Rightarrow> bytes \<Rightarrow> bytes option \<Rightarrow> bytes list \<Rightarrow> bytes list" where
  "BAP_send_message_with_queue malloc_ok cmd param val q =
     (if \<not> malloc_ok then q else if length q < UART_SEND_QUEUE_SIZE then q @ [formatted cmd param val] else q)"

text \<open>One turn of \<open>uart_send_task\<close>: what it writes, and the queue. \<open>buffered\<close> is what the driver still holds, if it says so.\<close>

definition uart_send_turn :: "bool \<Rightarrow> nat option \<Rightarrow> bytes list \<Rightarrow> bytes \<times> bytes list" where
  "uart_send_turn mutex_ok buffered q =
     (case q of
        [] \<Rightarrow> ([], [])
      | m # rest \<Rightarrow>
          (if mutex_ok then (case buffered of None \<Rightarrow> [] | Some n \<Rightarrow> if UART_BUFFER_THRESHOLD < n then [] else m) else [], rest))"

section \<open>Receiving\<close>

record receiver =
  message :: bytes
  in_message :: bool

text \<open>One byte: the message to parse, if it completes one, and the new state. A carriage return leaves the message open.\<close>

definition receive_byte :: "u8 \<Rightarrow> receiver \<Rightarrow> bytes option \<times> receiver" where
  "receive_byte c r =
     (if c = DOLLAR then (None, \<lparr>message = [c], in_message = True\<rparr>)
      else if (c = 10 \<or> c = 13) \<and> in_message r then
        if 1 < length (message r) \<and> length (message r) < BAP_MAX_MESSAGE_LEN then
          (Some (message r @ [c]), \<lparr>message = message r @ [c], in_message = (c = 13)\<rparr>)
        else if BAP_MAX_MESSAGE_LEN \<le> length (message r) then (None, r\<lparr>in_message := False\<rparr>)
        else (None, r)
      else if in_message r \<and> length (message r) < BAP_MAX_MESSAGE_LEN then (None, r\<lparr>message := message r @ [c]\<rparr>)
      else (None, r))"

fun receive_bytes :: "bytes \<Rightarrow> receiver \<Rightarrow> bytes list \<times> receiver" where
  "receive_bytes [] r = ([], r)"
| "receive_bytes (c # cs) r =
     (case receive_byte c r of (m, r1) \<Rightarrow> (case receive_bytes cs r1 of (ms, r2) \<Rightarrow> (case m of None \<Rightarrow> ms | Some x \<Rightarrow> x # ms, r2)))"

section \<open>Parsing\<close>

definition cstr :: "bytes \<Rightarrow> bytes" where "cstr s = takeWhile (\<lambda>b. b \<noteq> 0) s"

text \<open>\<open>sscanf("%2hhX")\<close> into a variable that holds 0: white space, a sign within the width of two, digits.\<close>

definition hex_digits :: "nat \<Rightarrow> bytes \<Rightarrow> nat list" where
  "hex_digits n s = map (\<lambda>c. the (hex_digit c)) (takeWhile (\<lambda>c. hex_digit c \<noteq> None) (take n s))"

definition scan_2hhX :: "bytes \<Rightarrow> u8" where
  "scan_2hhX s =
     (case scan_sign (dropWhile is_space s) of
        (neg, r) \<Rightarrow>
          let n = (if r = dropWhile is_space s then 2 else 1);
              v = foldl (\<lambda>a d. 16 * a + d) 0 (hex_digits n r)
          in if neg then - of_nat v else of_nat v)"

text \<open>\<open>strtok_r\<close> with a comma: the token, if there is one, and what is left.\<close>

definition next_token :: "bytes \<Rightarrow> (bytes \<times> bytes) option" where
  "next_token s =
     (let t = dropWhile (\<lambda>c. c = COMMA) s
      in if t = [] then None else Some (takeWhile (\<lambda>c. c \<noteq> COMMA) t, drop 1 (dropWhile (\<lambda>c. c \<noteq> COMMA) t)))"

definition starts_with :: "bytes \<Rightarrow> bytes \<Rightarrow> bool" where "starts_with p s \<longleftrightarrow> take (length p) s = p"

text \<open>From the body of the sentence to command, parameter and value; \<open>None\<close> when the sentence is not accepted.\<close>

definition body_call :: "bytes \<Rightarrow> (bap_command \<times> bytes \<times> bytes option) option" where
  "body_call sentence_body =
     (case next_token sentence_body of
        None \<Rightarrow> None
      | Some (talker, s1) \<Rightarrow>
          if talker \<noteq> ascii ''BAP'' then None
          else case next_token s1 of
                 None \<Rightarrow> None
               | Some (cmd_str, s2) \<Rightarrow>
                   (case next_token s2 of
                      None \<Rightarrow> None
                    | Some (param, s3) \<Rightarrow>
                        let cmd = BAP_command_from_string cmd_str
                        in if cmd = BAP_CMD_UNKNOWN then None else Some (cmd, param, map_option fst (next_token s3))))"

text \<open>The sentence of a message: with a checksum that fits, or one of the subscription commands; \<open>None\<close> when it is rejected.\<close>

definition message_body :: "bytes \<Rightarrow> bytes option" where
  "message_body m =
     (if length m < 5 then None
      else if hd m \<noteq> DOLLAR then None
      else if STAR \<in> set m then
        let asterisk = length (takeWhile (\<lambda>c. c \<noteq> STAR) m)
        in if length m < asterisk + 3 then None
           else let received_checksum = scan_2hhX (drop (asterisk + 1) m); body_len = asterisk - 1
                in if BAP_MAX_MESSAGE_LEN \<le> body_len then None
                   else let sentence_body = slice 1 body_len m
                        in if BAP_calculate_checksum sentence_body \<noteq> received_checksum \<and> \<not> starts_with (ascii ''BAP,SUB,'') sentence_body
                           then None else Some sentence_body
      else let sentence_body = takeWhile (\<lambda>c. c \<noteq> 13 \<and> c \<noteq> 10) (drop 1 m)
           in if BAP_MAX_MESSAGE_LEN \<le> length sentence_body then None
              else if starts_with (ascii ''BAP,SUB,'') sentence_body \<or> starts_with (ascii ''BAP,UNSUB,'') sentence_body
                   then Some sentence_body else None)"

record parser =
  last_processed_message :: bytes
  last_message_time :: u32

text \<open>\<open>now_us\<close> is the clock; the result is the call to make, if any.\<close>

definition BAP_parse_message :: "int \<Rightarrow> bytes \<Rightarrow> parser \<Rightarrow> (bap_command \<times> bytes \<times> bytes option) option \<times> parser" where
  "BAP_parse_message now_us msg p =
     (let m = cstr msg; current_time = word_of_int (now_us div 1000) :: u32
      in if m = last_processed_message p \<and> current_time - last_message_time p < 1000 then (None, p)
         else let p1 = \<lparr>last_processed_message = take (BAP_MAX_MESSAGE_LEN - 1) m, last_message_time = current_time\<rparr>
              in (case message_body m of None \<Rightarrow> None | Some b \<Rightarrow> body_call b, p1))"

fun parse_all :: "int \<Rightarrow> bytes list \<Rightarrow> parser \<Rightarrow> (bap_command \<times> bytes \<times> bytes option) list \<times> parser" where
  "parse_all now_us [] p = ([], p)"
| "parse_all now_us (m # ms) p =
     (case BAP_parse_message now_us m p of (c, p1) \<Rightarrow>
        (case parse_all now_us ms p1 of (cs, p2) \<Rightarrow> (case c of None \<Rightarrow> cs | Some x \<Rightarrow> x # cs, p2)))"

section \<open>Facts\<close>

lemma nibble_cases: "n < 16 \<Longrightarrow> n \<in> set [0..<16]" by simp

lemma hex_digit_facts:
  assumes "n < 16"
  shows "hex_digit (hex_upper_digit n) = Some n" "\<not> is_space (hex_upper_digit n)" "hex_upper_digit n \<notin> {0, 10, 13, DOLLAR, STAR, COMMA, 43, 45}"
proof -
  have all: "list_all (\<lambda>n. hex_digit (hex_upper_digit n) = Some n \<and> \<not> is_space (hex_upper_digit n) \<and>
      list_all (\<lambda>c. hex_upper_digit n \<noteq> c) [0, 10, 13, DOLLAR, STAR, COMMA, 43, 45]) [0..<16]"
    by code_simp
  show "hex_digit (hex_upper_digit n) = Some n" "\<not> is_space (hex_upper_digit n)" "hex_upper_digit n \<notin> {0, 10, 13, DOLLAR, STAR, COMMA, 43, 45}"
    using all nibble_cases [OF assms] unfolding list_all_iff by auto
qed

lemma scan_own_checksum: "scan_2hhX (hex2_upper k @ r) = k"
proof -
  let ?a = "unat k div 16" and ?b = "unat k mod 16"
  have n: "?a < 16" "?b < 16" using unsigned_less [of k] by (simp_all add: div_less_iff_less_mult)
  have s: "dropWhile is_space (hex2_upper k @ r) = hex2_upper k @ r" using hex_digit_facts(2) [OF n(1)] by (simp add: hex2_upper_def)
  have g: "scan_sign (hex2_upper k @ r) = (False, hex2_upper k @ r)"
    using hex_digit_facts(3) [OF n(1)] by (simp add: hex2_upper_def scan_sign_def)
  have h: "hex_digits 2 (hex2_upper k @ r) = [?a, ?b]"
    using hex_digit_facts(1) [OF n(1)] hex_digit_facts(1) [OF n(2)] by (simp add: hex2_upper_def hex_digits_def numeral_2_eq_2)
  have "16 * ?a + ?b = unat k" by (rule mult_div_mod_eq)
  then have "of_nat (16 * ?a + ?b) = k" by (simp only:) simp
  then show ?thesis unfolding scan_2hhX_def s g h prod.case if_P [OF refl] Let_def by simp
qed

lemma next_token_mid: "t \<noteq> [] \<Longrightarrow> COMMA \<notin> set t \<Longrightarrow> next_token (t @ COMMA # s) = Some (t, s)"
proof -
  assume t: "t \<noteq> []" "COMMA \<notin> set t"
  have a: "dropWhile (\<lambda>c. c = COMMA) (t @ COMMA # s) = t @ COMMA # s" using t by (cases t) auto
  have b: "takeWhile (\<lambda>c. c \<noteq> COMMA) (t @ COMMA # s) = t" "dropWhile (\<lambda>c. c \<noteq> COMMA) (t @ COMMA # s) = COMMA # s"
    using t by (auto simp: takeWhile_append dropWhile_append takeWhile_eq_all_conv)
  show ?thesis unfolding next_token_def a b Let_def by simp
qed

lemma next_token_end: "t \<noteq> [] \<Longrightarrow> COMMA \<notin> set t \<Longrightarrow> next_token t = Some (t, [])"
proof -
  assume t: "t \<noteq> []" "COMMA \<notin> set t"
  have a: "dropWhile (\<lambda>c. c = COMMA) t = t" using t by (cases t) auto
  have b: "takeWhile (\<lambda>c. c \<noteq> COMMA) t = t" "dropWhile (\<lambda>c. c \<noteq> COMMA) t = []" using t by (auto simp: takeWhile_eq_all_conv)
  show ?thesis using t unfolding next_token_def a b Let_def by simp
qed

lemma command_round_trip: "c \<noteq> BAP_CMD_UNKNOWN \<Longrightarrow> BAP_command_from_string (BAP_command_to_string c) = c"
  by (cases c) (simp_all add: BAP_command_from_string_def BAP_command_to_string_def command_strings_def ascii_def)

text \<open>Letters of a text that a sentence can carry.\<close>

definition field_text :: "bytes \<Rightarrow> bool" where
  "field_text s \<longleftrightarrow> s \<noteq> [] \<and> set s \<inter> {0, 10, 13, DOLLAR, STAR, COMMA} = {}"

lemma command_text: "field_text (BAP_command_to_string c)"
  by (cases c) (simp_all add: field_text_def BAP_command_to_string_def command_strings_def ascii_def DOLLAR_def STAR_def COMMA_def)

lemma body_call_sentence:
  assumes "field_text param" "field_text v" "cmd \<noteq> BAP_CMD_UNKNOWN"
  shows "body_call (sentence cmd param (Some v)) = Some (cmd, param, Some v)"
proof -
  have t: "v \<noteq> []" "COMMA \<notin> set v" "param \<noteq> []" "COMMA \<notin> set param" "BAP_command_to_string cmd \<noteq> []" "COMMA \<notin> set (BAP_command_to_string cmd)"
    using assms command_text [of cmd] by (auto simp: field_text_def)
  have bap: "ascii ''BAP,'' = ascii ''BAP'' @ [COMMA]" "ascii ''BAP'' \<noteq> []" "COMMA \<notin> set (ascii ''BAP'')"
    by (simp_all add: ascii_def COMMA_def)
  have s: "sentence cmd param (Some v) = ascii ''BAP'' @ COMMA # BAP_command_to_string cmd @ COMMA # param @ COMMA # v"
    using t(1) by (simp add: sentence_def bap(1))
  show ?thesis
    unfolding s body_call_def
    by (simp add: next_token_mid [OF bap(2,3)] next_token_mid [OF t(5,6)] next_token_mid [OF t(3,4)] next_token_end [OF t(1,2)]
        Let_def command_round_trip assms(3))
qed

text \<open>A framed sentence, with whatever line end it has so far.\<close>

lemma message_body_framed:
  assumes "length b < BAP_MAX_MESSAGE_LEN" "STAR \<notin> set b" "length b \<ge> 1"
  shows "message_body ([DOLLAR] @ b @ [STAR] @ hex2_upper (BAP_calculate_checksum b) @ r) = Some b"
proof -
  let ?h = "hex2_upper (BAP_calculate_checksum b)" and ?m = "[DOLLAR] @ b @ [STAR] @ hex2_upper (BAP_calculate_checksum b) @ r"
  have h: "length ?h = 2" by (simp add: hex2_upper_def)
  have ne: "DOLLAR \<noteq> STAR" by (simp add: DOLLAR_def STAR_def)
  have a: "length (takeWhile (\<lambda>c. c \<noteq> STAR) ?m) = length b + 1"
    using assms(2) ne by (auto simp: takeWhile_append takeWhile_eq_all_conv)
  have d: "drop (length b + 1 + 1) ?m = ?h @ r" by simp
  have s: "slice 1 (length b + 1 - 1) ?m = b" by (simp add: slice_def)
  have len: "\<not> length ?m < 5" "\<not> length ?m < length b + 1 + 3" using h assms(3) by auto
  have st: "STAR \<in> set ?m" by simp
  have hd: "hd ?m = DOLLAR" by simp
  show ?thesis
    unfolding message_body_def a Let_def d s scan_own_checksum if_not_P [OF len(1)] if_not_P [OF len(2)] hd if_P [OF st]
    using assms(1) by simp
qed

lemma receive_field:
  assumes "in_message r" "set s \<inter> {10, 13, DOLLAR} = {}" "length (message r) + length s \<le> BAP_MAX_MESSAGE_LEN"
  shows "receive_bytes (s @ u) r = receive_bytes u (r\<lparr>message := message r @ s\<rparr>)"
  using assms
proof (induction s arbitrary: r)
  case (Cons c s)
  have "receive_byte c r = (None, r\<lparr>message := message r @ [c]\<rparr>)" using Cons.prems by (auto simp: receive_byte_def)
  then show ?case using Cons.prems Cons.IH [of "r\<lparr>message := message r @ [c]\<rparr>"] by (auto split: prod.splits)
qed simp

text \<open>What a peer that formats its messages as this module does can send.\<close>

definition sendable :: "bap_command \<times> bytes \<times> bytes \<Rightarrow> bool" where
  "sendable x = (case x of (cmd, param, v) \<Rightarrow> cmd \<noteq> BAP_CMD_UNKNOWN \<and> field_text param \<and> field_text v \<and>
     length (sentence cmd param (Some v)) + 6 < BAP_MAX_MESSAGE_LEN)"

definition sent_frame :: "bap_command \<times> bytes \<times> bytes \<Rightarrow> bytes" where
  "sent_frame x = (case x of (cmd, param, v) \<Rightarrow>
     [DOLLAR] @ sentence cmd param (Some v) @ [STAR] @ hex2_upper (BAP_calculate_checksum (sentence cmd param (Some v))))"

definition call_of :: "bap_command \<times> bytes \<times> bytes \<Rightarrow> bap_command \<times> bytes \<times> bytes option" where
  "call_of x = (case x of (cmd, param, v) \<Rightarrow> (cmd, param, Some v))"

lemma formatted_sendable:
  "sendable (cmd, param, v) \<Longrightarrow> formatted cmd param (Some v) = sent_frame (cmd, param, v) @ [13, 10]"
  by (auto simp: sendable_def formatted_def sent_frame_def Let_def hex2_upper_def BAP_MAX_MESSAGE_LEN_def intro!: take_all)

lemma sentence_letters:
  assumes "sendable (cmd, param, v)"
  shows "set (sentence cmd param (Some v)) \<inter> {0, 10, 13, DOLLAR, STAR} = {}" "1 \<le> length (sentence cmd param (Some v))"
proof -
  have c: "COMMA \<notin> {0, 10, 13, DOLLAR, STAR}" "set (ascii ''BAP,'') \<inter> {0, 10, 13, DOLLAR, STAR} = {}"
    by (simp_all add: COMMA_def DOLLAR_def STAR_def ascii_def)
  show "set (sentence cmd param (Some v)) \<inter> {0, 10, 13, DOLLAR, STAR} = {}"
    using assms command_text [of cmd] c by (auto simp: sendable_def field_text_def sentence_def)
  show "1 \<le> length (sentence cmd param (Some v))" by (simp add: sentence_def ascii_def)
qed

lemma frame_letters:
  assumes "sendable x"
  shows "0 \<notin> set (sent_frame x)" "length (sent_frame x) + 2 < BAP_MAX_MESSAGE_LEN" "5 \<le> length (sent_frame x)"
proof -
  obtain cmd param v where x: "x = (cmd, param, v)" by (cases x)
  let ?s = "sentence cmd param (Some v)"
  let ?k = "BAP_calculate_checksum ?s"
  have h: "set (hex2_upper ?k) \<inter> {0, 10, 13, DOLLAR, STAR, COMMA, 43, 45} = {}"
    using hex_digit_facts(3) [of "unat ?k div 16"] hex_digit_facts(3) [of "unat ?k mod 16"] unsigned_less [of ?k]
    by (auto simp: hex2_upper_def div_less_iff_less_mult)
  show "0 \<notin> set (sent_frame x)"
    using sentence_letters(1) [OF assms [unfolded x]] h by (auto simp: x sent_frame_def DOLLAR_def STAR_def)
  show "length (sent_frame x) + 2 < BAP_MAX_MESSAGE_LEN" "5 \<le> length (sent_frame x)"
    using assms sentence_letters(2) [OF assms [unfolded x]] by (simp_all add: x sendable_def sent_frame_def hex2_upper_def)
qed

lemma frame_received:
  assumes "sendable x"
  shows "\<exists>r1. receive_bytes (sent_frame x @ 13 # 10 # u) r =
    (case receive_bytes u r1 of (ms, r2) \<Rightarrow> ((sent_frame x @ [13]) # (sent_frame x @ [13, 10]) # ms, r2))"
proof -
  obtain cmd param v where x: "x = (cmd, param, v)" by (cases x)
  define b where "b = tl (sent_frame x)"
  have f: "sent_frame x = DOLLAR # b" by (simp add: b_def sent_frame_def x)
  let ?s = "sentence cmd param (Some v)"
  let ?k = "BAP_calculate_checksum ?s"
  have h: "set (hex2_upper ?k) \<inter> {0, 10, 13, DOLLAR, STAR, COMMA, 43, 45} = {}"
    using hex_digit_facts(3) [of "unat ?k div 16"] hex_digit_facts(3) [of "unat ?k mod 16"] unsigned_less [of ?k]
    by (auto simp: hex2_upper_def div_less_iff_less_mult)
  have b: "set b \<inter> {10, 13, DOLLAR} = {}"
    using sentence_letters(1) [OF assms [unfolded x]] h by (auto simp: b_def x sent_frame_def DOLLAR_def STAR_def)
  have len: "length b + 3 < BAP_MAX_MESSAGE_LEN" "4 \<le> length b" using frame_letters(2,3) [OF assms] by (simp_all add: f)
  let ?r0 = "\<lparr>message = [DOLLAR], in_message = True\<rparr>" and ?r1 = "\<lparr>message = DOLLAR # b, in_message = True\<rparr>"
  let ?r2 = "\<lparr>message = DOLLAR # b @ [13], in_message = True\<rparr>" and ?r3 = "\<lparr>message = DOLLAR # b @ [13, 10], in_message = False\<rparr>"
  have d: "receive_byte DOLLAR r = (None, ?r0)" by (simp add: receive_byte_def)
  have m: "receive_bytes (b @ 13 # 10 # u) ?r0 = receive_bytes (13 # 10 # u) ?r1"
    using receive_field [of ?r0 b "13 # 10 # u"] b len by simp
  have e: "receive_byte 13 ?r1 = (Some (DOLLAR # b @ [13]), ?r2)" "receive_byte 10 ?r2 = (Some (DOLLAR # b @ [13, 10]), ?r3)"
    using len by (auto simp: receive_byte_def DOLLAR_def)
  show ?thesis
    by (rule exI [of _ ?r3]) (simp add: f d m e split: prod.splits)
qed

lemma frame_parsed:
  assumes "sendable x" "set r \<subseteq> {10, 13}" "length r \<le> 2" "last_processed_message p \<noteq> sent_frame x @ r"
  shows "BAP_parse_message now_us (sent_frame x @ r) p =
    (Some (call_of x), \<lparr>last_processed_message = sent_frame x @ r, last_message_time = word_of_int (now_us div 1000)\<rparr>)"
proof -
  obtain cmd param v where x: "x = (cmd, param, v)" by (cases x)
  have z: "0 \<notin> set (sent_frame x @ r)" using frame_letters(1) [OF assms(1)] assms(2) by auto
  have c: "cstr (sent_frame x @ r) = sent_frame x @ r"
    unfolding cstr_def by (rule takeWhile_eq_all_conv [THEN iffD2]) (use z in metis)
  have t: "take (BAP_MAX_MESSAGE_LEN - 1) (sent_frame x @ r) = sent_frame x @ r"
    using frame_letters(2) [OF assms(1)] assms(3) by (intro take_all) simp
  have s: "sendable (cmd, param, v)" using assms(1) by (simp add: x)
  have "message_body (sent_frame x @ r) = Some (sentence cmd param (Some v))"
    using message_body_framed [of "sentence cmd param (Some v)" r] sentence_letters [OF s] s
    by (simp add: x sent_frame_def sendable_def)
  moreover have "body_call (sentence cmd param (Some v)) = Some (call_of x)"
    using s by (simp add: body_call_sentence sendable_def x call_of_def)
  ultimately show ?thesis
    using assms(4) unfolding BAP_parse_message_def Let_def c t by simp
qed

text \<open>The parser has not kept a message that ends with a carriage return.\<close>

definition after_line_feed :: "parser \<Rightarrow> bool" where
  "after_line_feed p \<longleftrightarrow> (\<forall>m. last_processed_message p \<noteq> m @ [13])"

text \<open>
  C37. A message sent as this module sends them, to a device with the same module, is handled twice: once at its
  carriage return and once at its line feed, each time with the command, the parameter and the value that were sent.
  The check for duplicates never stops one of the calls, even when the same message is sent again at once. This holds of
  the messages \<open>sendable\<close> describes: a known command, a parameter and a value that are not empty and have no comma, star,
  dollar sign, line end or zero byte in them, and a sentence of less than 250 bytes. Nothing in the code escapes other
  values (a pool user or a network name may be one), so that they arrive changed or not at all.
\<close>

theorem messages_handled_twice:
  assumes "\<forall>x\<in>set xs. sendable x" "after_line_feed p"
  shows "fst (parse_all now_us (fst (receive_bytes (concat (map (\<lambda>x. formatted (fst x) (fst (snd x)) (Some (snd (snd x)))) xs)) r)) p) =
    concat (map (\<lambda>x. [call_of x, call_of x]) xs)"
  using assms
proof (induction xs arbitrary: r p)
  case (Cons x xs)
  have s: "sendable x" using Cons.prems by simp
  have f: "formatted (fst x) (fst (snd x)) (Some (snd (snd x))) = sent_frame x @ [13, 10]"
    using formatted_sendable [of "fst x" "fst (snd x)" "snd (snd x)"] s by simp
  let ?u = "concat (map (\<lambda>x. formatted (fst x) (fst (snd x)) (Some (snd (snd x)))) xs)"
  obtain r1 where r1: "receive_bytes (sent_frame x @ 13 # 10 # ?u) r =
      (case receive_bytes ?u r1 of (ms, r2) \<Rightarrow> ((sent_frame x @ [13]) # (sent_frame x @ [13, 10]) # ms, r2))"
    using frame_received [OF s] by blast
  let ?p1 = "\<lparr>last_processed_message = sent_frame x @ [13], last_message_time = word_of_int (now_us div 1000)\<rparr>"
  let ?p2 = "\<lparr>last_processed_message = sent_frame x @ [13, 10], last_message_time = word_of_int (now_us div 1000)\<rparr>"
  have p1: "BAP_parse_message now_us (sent_frame x @ [13]) p = (Some (call_of x), ?p1)"
    using frame_parsed [OF s, of "[13]" p] Cons.prems(2) by (simp add: after_line_feed_def)
  have p2: "BAP_parse_message now_us (sent_frame x @ [13, 10]) ?p1 = (Some (call_of x), ?p2)"
    using frame_parsed [OF s, of "[13, 10]" ?p1] by simp
  have "after_line_feed ?p2"
    unfolding after_line_feed_def
  proof
    fix m
    have "last (sent_frame x @ [13, 10]) \<noteq> last (m @ [13])" by simp
    then show "last_processed_message ?p2 \<noteq> m @ [13]" by (metis parser.select_convs(1))
  qed
  then have "fst (parse_all now_us (fst (receive_bytes ?u r1)) ?p2) = concat (map (\<lambda>x. [call_of x, call_of x]) xs)"
    using Cons by simp
  then show ?case by (simp add: f r1 p1 p2 case_prod_beta)
qed simp

theorem messages_handled_twice_witness:
  "fst (parse_all 0 (fst (receive_bytes (concat (map (\<lambda>x. formatted (fst x) (fst (snd x)) (Some (snd (snd x))))
      [(BAP_CMD_SET, ascii ''fan_speed'', ascii ''80'')])) \<lparr>message = [], in_message = False\<rparr>))
      \<lparr>last_processed_message = [], last_message_time = 0\<rparr>) =
    [(BAP_CMD_SET, ascii ''fan_speed'', Some (ascii ''80'')), (BAP_CMD_SET, ascii ''fan_speed'', Some (ascii ''80''))]"
proof -
  have s: "\<forall>x\<in>set [(BAP_CMD_SET, ascii ''fan_speed'', ascii ''80'')]. sendable x"
    by (simp add: sendable_def field_text_def sentence_def BAP_command_to_string_def command_strings_def ascii_def DOLLAR_def STAR_def COMMA_def
        BAP_MAX_MESSAGE_LEN_def)
  show ?thesis
    using messages_handled_twice [OF s, of "\<lparr>last_processed_message = [], last_message_time = 0\<rparr>"]
    by (simp add: after_line_feed_def call_of_def)
qed

section \<open>Bounds\<close>

definition receiver_ok :: "receiver \<Rightarrow> bool" where
  "receiver_ok r \<longleftrightarrow> length (message r) \<le> BAP_MAX_MESSAGE_LEN \<and> (in_message r \<longrightarrow> (\<exists>s. message r = DOLLAR # s))"

lemma receive_byte_ok:
  assumes "receiver_ok r"
  shows "receiver_ok (snd (receive_byte c r))"
    "fst (receive_byte c r) = Some m \<Longrightarrow> length m \<le> BAP_MAX_MESSAGE_LEN \<and> (\<exists>s. m = DOLLAR # s)"
  using assms unfolding receive_byte_def receiver_ok_def
  by (simp_all add: BAP_MAX_MESSAGE_LEN_def split: if_splits) auto

text \<open>
  Whatever comes in on the line, the message under construction never fills more than 256 of the 257 bytes of its
  buffer, so there is always room for the terminating zero, and every text handed on starts with a dollar sign and
  fits in as well.
\<close>

theorem receive_bounded:
  assumes "receiver_ok r"
  shows "length (message (snd (receive_bytes cs r))) \<le> BAP_MAX_MESSAGE_LEN \<and>
    (\<forall>m\<in>set (fst (receive_bytes cs r)). length m \<le> BAP_MAX_MESSAGE_LEN \<and> hd m = DOLLAR)"
  using assms
proof (induction cs arbitrary: r)
  case Nil
  then show ?case by (simp add: receiver_ok_def)
next
  case (Cons c cs)
  obtain m r1 where b: "receive_byte c r = (m, r1)" by (cases "receive_byte c r")
  show ?case
    using Cons.IH [of r1] receive_byte_ok [OF Cons.prems, of c] by (auto simp: b case_prod_beta split: option.splits)
qed

theorem receive_bounded_witness:
  "length (message (snd (receive_bytes (DOLLAR # replicate 300 65 @ [13]) \<lparr>message = [], in_message = False\<rparr>))) \<le> BAP_MAX_MESSAGE_LEN \<and>
    (\<forall>m\<in>set (fst (receive_bytes (DOLLAR # replicate 300 65 @ [13]) \<lparr>message = [], in_message = False\<rparr>)). length m \<le> BAP_MAX_MESSAGE_LEN \<and> hd m = DOLLAR)"
  by (rule receive_bounded) (simp add: receiver_ok_def)

end
