(* ===== verification/Spec2Isabelle.thy ===== *)
theory Spec2Isabelle
  imports Prelude Crc Asic_Common Work_Queue Binary_Float Stratum_Utils Mining Pll Asic_Driver Bm1370 Bm1368
    Bm1366 Bm1397 Asic Sv2_Protocol C_Text Scoreboard Sv2_Client Sv2_Connection Job_Creation Asic_Result
    Coordinator Tuning_Limits Power_Management Autotune Stratum_Api Radix Segwit Base58 Coinbase_Decoder
    V1_Task Sv2_Noise Fan_Control Statistics Hashrate_Monitor Dns_Server Log_Buffer Bap
begin

text \<open>
  Verification library of the BitAxe firmware (a fork of ESP-Miner): a Bitcoin miner of one to a few ASIC chips on an
  ESP32, written in C. This theory only collects the others; each of them opens with what it holds.

  \<^bold>\<open>The program.\<close> A miner is a ring of tasks around one global state. The protocol coordinator
  (\<open>main/tasks/protocol_coordinator.c\<close>) starts a Stratum V1 or V2 client, moves to the fallback pool when a client gives
  up and back when the primary answers. A client (\<open>main/tasks/stratum_v1_task.c\<close>, \<open>main/tasks/stratum_v2_task.c\<close>) puts
  the jobs of the pool, each with the function that frees it, into the work queue (\<open>main/work_queue.c\<close>). The job task
  (\<open>main/tasks/create_jobs_task.c\<close>) takes one, makes headers of it with \<open>components/stratum/mining.c\<close> and sends them to
  the chips through \<open>components/asic\<close>. The result task (\<open>main/tasks/asic_result_task.c\<close>) recognises the job of an answer,
  weighs it and submits it through the client. Around the ring, other tasks watch temperature and voltage
  (\<open>main/tasks/power_management_task.c\<close>), raise the frequency (\<open>main/tasks/autotune_task.c\<close>), drive the fan
  (\<open>main/tasks/fan_controller_task.c\<close>), measure the hash rate and keep histories and logs.

  \<^bold>\<open>Conventions.\<close> A C struct is a record, an enumeration a datatype, an integer a word of its width (\<open>u8\<close> to \<open>u64\<close>), a
  \<open>float\<close> or \<open>double\<close> the rational it denotes with the rounding written at every operation (\<open>Binary_Float\<close>), a buffer a
  list of bytes with its length. An operation takes the state it changes and returns it; what it does to the outside (a
  frame written, a free, a submission) is a value of an event type in a list. A read or write outside a buffer, a null
  pointer that is followed and a semaphore never given are outcomes of their own (\<open>None\<close> or an error), so that their
  absence is a theorem. Inputs of the outside (bytes of the network, sensor readings, the clock, whether an allocation
  succeeds) are arguments. Libraries that are not part of the sources (cJSON, mbedTLS, libsecp256k1) are parameters, with
  what is relied on as hypotheses that a witness shows to be satisfiable. Log messages are left out.

  \<^bold>\<open>Shared theories.\<close> \<open>Prelude\<close> has the integer types, the byte orders and stores into buffers; \<open>Binary_Float\<close> the rounding
  of the floating-point unit and its error bounds; \<open>C_Text\<close> the decimal texts of \<open>printf\<close> and \<open>scanf\<close>; \<open>Radix\<close> texts of
  digits as numbers.

  \<^bold>\<open>Chips.\<close> \<open>Crc\<close> is \<open>components/asic/crc.c\<close>: the table-driven CRC-16 is the bitwise CCITT one, the CRC-5 finds single
  bit errors. \<open>Asic_Common\<close> is \<open>asic_common.c\<close>: counting chips, difficulty masks, reading results. \<open>Pll\<close> is \<open>pll.c\<close> and
  \<open>frequency_transition_bmXX.c\<close>: the dividers found are within a fiftieth
  of a MHz of the best there are, and a ramp changes the
  frequency in small steps. \<open>Asic_Driver\<close> is what the drivers \<open>Bm1370\<close>, \<open>Bm1368\<close>, \<open>Bm1366\<close> and \<open>Bm1397\<close> share, with the
  locale \<open>asic_driver\<close> for the promises they have in common, interpreted on each of them. \<open>Asic\<close> dispatches
  (\<open>asic.c\<close>, \<open>main/power/asic_init.c\<close>): an answer of a chip finds the job it was computed for, a slot is reused only after
  its window, jobs are neither lost nor freed twice.

  \<^bold>\<open>Jobs and shares.\<close> \<open>Work_Queue\<close> refines a bounded FIFO of items with their free functions. \<open>Stratum_Utils\<close> and \<open>Mining\<close>
  (\<open>components/stratum/utils.c\<close>, \<open>mining.c\<close>) build headers: midstates resume to the double hash of the header.
  \<open>Job_Creation\<close> is the job task: it confuses types exactly when it takes an item that does not fit the channel
  (\<open>misfit\<close>), and otherwise frees each item once. \<open>Asic_Result\<close> is the result task: an answer is submitted exactly when the
  header the pool recomputes meets the difficulty, for the chips that roll the version themselves; those of a BM1397 are
  judged by a resumed midstate that differs (\<open>judged_hash\<close>). \<open>Scoreboard\<close> keeps the best twenty in order.

  \<^bold>\<open>Stratum V1.\<close> \<open>Stratum_Api\<close> is \<open>stratum_api.c\<close>: lines cut from any split of the stream, a parser whose messages have each
  field from an item of the right type (\<open>fields_from\<close>), requests. \<open>V1_Task\<close> is \<open>stratum_v1_task.c\<close>: the receive and the
  connection loop; the jobs freed and then those in the queue are the jobs queued, in order (\<open>job_history\<close>). \<open>Coinbase_Decoder\<close>,
  \<open>Segwit\<close> and \<open>Base58\<close> (\<open>coinbase_decoder.c\<close>, \<open>segwit_addr.c\<close>, \<open>base58.c\<close>) show the coinbase: reads in bounds, what was
  encoded is decoded.

  \<^bold>\<open>Stratum V2.\<close> \<open>Sv2_Protocol\<close> is \<open>components/stratum_v2/sv2_protocol.c\<close>: parsers in bounds, messages read back.
  \<open>Sv2_Noise\<close> is \<open>sv2_noise.c\<close>: the handshake and the sealed frames, with the ciphers as a parameter. \<open>Sv2_Client\<close> and
  \<open>Sv2_Connection\<close> are \<open>stratum_v2_task.c\<close>: the newest block's jobs are kept, every job queued is freed once or still in the queue
  (\<open>jobs_accounted\<close>), shares go out in sequence, the connection loop gives up after three failures.

  \<^bold>\<open>Supervision.\<close> \<open>Coordinator\<close> is the protocol coordinator interleaved with its clients: a safety invariant, and no state
  is stuck. \<open>Tuning_Limits\<close>, \<open>Power_Management\<close> and \<open>Autotune\<close> keep frequency and voltage in their envelope and stop the
  chips for a fault. \<open>Fan_Control\<close> has the PID controller and the fan task. \<open>Hashrate_Monitor\<close> and \<open>Statistics\<close> measure and
  record. \<open>Log_Buffer\<close> is the log that survives a restart, \<open>Dns_Server\<close> the name server of the access point, with every
  read and write checked against its array, \<open>Bap\<close> the line protocol for accessories.

  \<^bold>\<open>Bounds and fuel.\<close> Loops over data are structural recursions or \<open>function\<close>s with a measure. A task's endless loop is a
  function of one turn and its iteration over a list of inputs, so a statement about it holds after any number of turns.
  Only the reading loops of the network (\<open>Sv2_Noise.read_loop\<close>, the line reader) depend on what the peer sends: they recurse
  over the list of what the reads return and end with it, which is the connection that says nothing more.

  \<^bold>\<open>Witnesses.\<close> A theorem with a hypothesis is followed by one whose name ends in \<open>_witness\<close>: it applies the theorem at a
  concrete input.

  \<^bold>\<open>Not modelled.\<close> Wi-Fi and its configuration (\<open>components/connect\<close>), the web server, its JSON and its sockets
  (\<open>main/http_server\<close>), the display (\<open>main/screen.c\<close>, \<open>main/display.c\<close>, \<open>main/lv_font_portfolio-6x8.c\<close>, \<open>main/logo.c\<close>), buttons,
  file system and task monitor consist of calls of ESP-IDF, LVGL and cJSON, whose behaviour is not in the sources.
  The self test is a script of measurements on a test bench, \<open>main/main.c\<close> the order in
  which the tasks start. Of the modelled parts, log messages, texts that are only displayed and the wear of the flash
  memory are left out, allocations succeed unless a theory says otherwise, and tasks interleave at the points each theory
  names.
\<close>

end
